(* ===== verification/Prelude.thy ===== *)
theory Prelude
  imports
    Complex_Main
    "HOL-Library.AList"
    "HOL-Library.Char_ord"
    "HOL-Library.List_Lexorder"
    "HOL-Library.Multiset"
begin

text \<open>
  What every component of the development shares: the application's error hierarchy
  (\<^verbatim>\<open>app/exceptions/base.py\<close>), Python's insertion-ordered dictionaries as association
  lists, the string methods the code calls, the clock, the instruments trace, the interface
  of a key/value store as a locale, and the interface of a bounded retry loop as a locale.

  Strings are lists of \<^typ>\<open>char\<close>, read as the Latin-1 code points of a Python string.
  Points in time are integers: microseconds since 1970-01-01 UTC; \<open>datetime.now(UTC)\<close> is
  an argument of every operation that reads the clock.
\<close>

named_theorems dict_simps \<open>lookup in and update of insertion-ordered dictionaries\<close>
named_theorems frame_simps \<open>what an operation leaves unchanged\<close>

section \<open>The error hierarchy\<close>

text \<open>
  The subclasses of \<^verbatim>\<open>AppError\<close>. The message is the one passed to the constructor;
  \<^verbatim>\<open>None\<close> or an empty message is replaced by the class default.
\<close>

datatype app_error_kind =
    AppError | NotFoundError | ConflictError | ValidationError | UnauthorizedError
  | ForbiddenError | ServiceUnavailableError | RateLimitError | StorageError
  | ExternalServiceError | WorkflowError | RenderError | QueueError

fun status_code :: "app_error_kind \<Rightarrow> nat" where
  "status_code AppError = 500"
| "status_code NotFoundError = 404"
| "status_code ConflictError = 409"
| "status_code ValidationError = 422"
| "status_code UnauthorizedError = 401"
| "status_code ForbiddenError = 403"
| "status_code ServiceUnavailableError = 503"
| "status_code RateLimitError = 429"
| "status_code StorageError = 502"
| "status_code ExternalServiceError = 502"
| "status_code WorkflowError = 422"
| "status_code RenderError = 500"
| "status_code QueueError = 500"

fun default_message :: "app_error_kind \<Rightarrow> string" where
  "default_message AppError = ''An unexpected error occurred.''"
| "default_message NotFoundError = ''The requested resource was not found.''"
| "default_message ConflictError = ''The request conflicts with the current resource state.''"
| "default_message ValidationError = ''The request failed validation.''"
| "default_message UnauthorizedError = ''Authentication is required.''"
| "default_message ForbiddenError = ''You do not have permission to perform this action.''"
| "default_message ServiceUnavailableError = ''A required service is currently unavailable.''"
| "default_message RateLimitError = ''Too many requests.''"
| "default_message StorageError = ''A storage operation failed.''"
| "default_message ExternalServiceError = ''An external service request failed.''"
| "default_message WorkflowError = ''The workflow could not be executed.''"
| "default_message RenderError = ''A render job failed.''"
| "default_message QueueError = ''A queue operation failed.''"

record app_error =
  err_kind :: app_error_kind
  err_message :: string

definition app_error_init :: "app_error_kind \<Rightarrow> string option \<Rightarrow> app_error" where
  "app_error_init k m =
     \<lparr>err_kind = k,
      err_message = (case m of None \<Rightarrow> default_message k
                     | Some s \<Rightarrow> if s = [] then default_message k else s)\<rparr>"

abbreviation raise :: "app_error_kind \<Rightarrow> string \<Rightarrow> app_error + 'a" where
  "raise k m \<equiv> Inl (app_error_init k (Some m))"

type_synonym 'a result = "app_error + 'a"

definition then_do :: "('s \<Rightarrow> ('e + 'a) \<times> 's) \<Rightarrow> ('a \<Rightarrow> 's \<Rightarrow> ('e + 'b) \<times> 's) \<Rightarrow> 's \<Rightarrow> ('e + 'b) \<times> 's" where
  \<comment> \<open>one statement after another: an exception ends the sequence and keeps the state it was raised in\<close>
  "then_do f g s = (case f s of (Inl e, s') \<Rightarrow> (Inl e, s') | (Inr x, s') \<Rightarrow> g x s')"

definition give :: "'a \<Rightarrow> 's \<Rightarrow> ('e + 'a) \<times> 's" where "give x s = (Inr x, s)"

definition change :: "('s \<Rightarrow> 's) \<Rightarrow> 's \<Rightarrow> ('e + unit) \<times> 's" where "change f s = (Inr (), f s)"

lemma then_do_assoc: "then_do (then_do f g) h = then_do f (\<lambda>x. then_do (g x) h)"
  by (auto simp: then_do_def split: prod.split sum.split)

lemma then_do_give [simp]: "then_do (give x) g = g x" "then_do f give = f"
  by (auto simp: then_do_def give_def split: prod.split sum.split)

lemma then_do_Inr: "then_do f g s = (Inr y, s2) \<longleftrightarrow> (\<exists>x s1. f s = (Inr x, s1) \<and> g x s1 = (Inr y, s2))"
  by (auto simp: then_do_def split: prod.split sum.split)

lemma then_do_eval:
  "f s = (Inr x, s') \<Longrightarrow> then_do f g s = g x s'"
  "f s = (Inl e, s') \<Longrightarrow> then_do f g s = (Inl e, s')"
  by (simp_all add: then_do_def)

lemma then_do_freeze: "then_do f g s = then_do f g s" ..

lemma then_do_bool:
  "f s = (Inr True, s') \<Longrightarrow> then_do f g s = g True s'"
  "f s = (Inr False, s') \<Longrightarrow> then_do f g s = g False s'"
  by (simp_all add: then_do_def)

lemma err_kind_init [simp]: "err_kind (app_error_init k m) = k"
  by (simp add: app_error_init_def)

section \<open>Dictionaries\<close>

text \<open>
  A Python \<^verbatim>\<open>dict\<close> keeps its keys in insertion order; assigning to a present key keeps
  its place. That is \<^const>\<open>AList.update\<close> of the library, and lookup is \<^const>\<open>map_of\<close>.
\<close>

type_synonym ('k, 'v) dict = "('k \<times> 'v) list"

abbreviation dict_get :: "('k, 'v) dict \<Rightarrow> 'k \<Rightarrow> 'v option" where
  "dict_get \<equiv> map_of"

abbreviation dict_set :: "'k \<Rightarrow> 'v \<Rightarrow> ('k, 'v) dict \<Rightarrow> ('k, 'v) dict" where
  "dict_set \<equiv> AList.update"

abbreviation dict_pop :: "'k \<Rightarrow> ('k, 'v) dict \<Rightarrow> ('k, 'v) dict" where
  "dict_pop \<equiv> AList.delete"

abbreviation keys :: "('k, 'v) dict \<Rightarrow> 'k list" where
  "keys d \<equiv> map fst d"

definition dict_update :: "('k, 'v) dict \<Rightarrow> ('k, 'v) dict \<Rightarrow> ('k, 'v) dict" where
  \<comment> \<open>\<open>d.update(patch)\<close>, and \<open>{**d, **patch}\<close>\<close>
  "dict_update d patch = fold (\<lambda>(k, v) acc. dict_set k v acc) patch d"

definition dict_ok :: "('k, 'v) dict \<Rightarrow> bool" where
  "dict_ok d \<longleftrightarrow> distinct (keys d)"

lemma dict_get_set [simp, dict_simps]:
  "dict_get (dict_set k v d) k' = (if k' = k then Some v else dict_get d k')"
  by (simp add: update_conv')

lemma dict_get_pop [simp, dict_simps]:
  "dict_get (dict_pop k d) k' = (if k' = k then None else dict_get d k')"
  by (simp add: delete_conv')

lemma dict_ok_set [simp, intro]: "dict_ok d \<Longrightarrow> dict_ok (dict_set k v d)"
  by (simp add: dict_ok_def distinct_update)

lemma dict_ok_pop [simp, intro]: "dict_ok d \<Longrightarrow> dict_ok (dict_pop k d)"
  by (simp add: dict_ok_def distinct_delete)

lemma dict_ok_Nil [simp]: "dict_ok []"
  by (simp add: dict_ok_def)

lemma set_keys_set [simp]: "fst ` set (dict_set k v d) = insert k (fst ` set d)"
  by (induction d) auto

lemma keys_set_present: "k \<in> set (keys d) \<Longrightarrow> keys (dict_set k v d) = keys d"
  by (simp add: update_keys)

lemma dict_get_None_iff: "dict_get d k = None \<longleftrightarrow> k \<notin> set (keys d)"
  by (simp add: map_of_eq_None_iff)

lemma dict_get_in_keys: "dict_get d k = Some v \<Longrightarrow> k \<in> set (keys d)"
  by (force dest: map_of_SomeD)

lemma dict_update_Nil [simp]: "dict_update d [] = d"
  by (simp add: dict_update_def)

lemma dict_update_Cons [simp]: "dict_update d ((k, v) # p) = dict_update (dict_set k v d) p"
  by (simp add: dict_update_def)

lemma dict_ok_update [simp, intro]: "dict_ok d \<Longrightarrow> dict_ok (dict_update d p)"
  by (induction p arbitrary: d) auto

lemma dict_get_update:
  "dict_ok p \<Longrightarrow>
   dict_get (dict_update d p) k = (case dict_get p k of Some v \<Rightarrow> Some v | None \<Rightarrow> dict_get d k)"
proof (induction p arbitrary: d)
  case Nil
  then show ?case by simp
next
  case (Cons x p)
  obtain k' v' where x: "x = (k', v')" by force
  from Cons.prems x have ok: "dict_ok p" and nin: "dict_get p k' = None"
    by (auto simp: dict_ok_def dict_get_None_iff)
  show ?case using Cons.IH [OF ok, of "dict_set k' v' d"] x nin
    by (auto split: option.splits)
qed

lemma set_keys_update [simp]:
  "fst ` set (dict_update d p) = fst ` set d \<union> fst ` set p"
proof (induction p arbitrary: d)
  case (Cons x p)
  then show ?case by (cases x) simp
qed simp

section \<open>String methods\<close>

definition is_space :: "char \<Rightarrow> bool" where
  \<comment> \<open>\<open>str.isspace\<close> on Latin-1\<close>
  "is_space c \<longleftrightarrow> (let n = (of_char c :: nat)
      in (9 \<le> n \<and> n \<le> 13) \<or> (28 \<le> n \<and> n \<le> 32) \<or> n = 133 \<or> n = 160)"

definition lstrip :: "string \<Rightarrow> string" where
  "lstrip s = dropWhile is_space s"

definition rstrip :: "string \<Rightarrow> string" where
  "rstrip s = rev (dropWhile is_space (rev s))"

definition strip :: "string \<Rightarrow> string" where
  "strip s = rstrip (lstrip s)"

definition lower_char :: "char \<Rightarrow> char" where
  "lower_char c = (let n = (of_char c :: nat)
     in if (65 \<le> n \<and> n \<le> 90) \<or> (192 \<le> n \<and> n \<le> 222 \<and> n \<noteq> 215)
        then char_of (n + 32) else c)"

definition lower :: "string \<Rightarrow> string" where
  "lower s = map lower_char s"

fun split_on :: "char \<Rightarrow> string \<Rightarrow> string list" where
  \<comment> \<open>\<open>s.split(c)\<close> for a one-character separator\<close>
  "split_on c [] = [[]]"
| "split_on c (x # xs) =
     (if x = c then [] # split_on c xs
      else (case split_on c xs of [] \<Rightarrow> [[x]] | w # ws \<Rightarrow> (x # w) # ws))"

function split_ws :: "string \<Rightarrow> string list" where
  \<comment> \<open>\<open>s.split()\<close>: the maximal runs of non-space characters\<close>
  "split_ws s = (case lstrip s of [] \<Rightarrow> []
     | c # cs \<Rightarrow> takeWhile (\<lambda>x. \<not> is_space x) (c # cs)
                 # split_ws (dropWhile (\<lambda>x. \<not> is_space x) (c # cs)))"
  by pat_completeness auto

lemma dropWhile_nonspace_shorter:
  assumes "lstrip s = c # cs"
  shows "length (dropWhile (\<lambda>x. \<not> is_space x) (c # cs)) < length s"
proof -
  have "\<not> is_space c"
    using assms by (auto simp: lstrip_def dropWhile_eq_Cons_conv)
  then have "length (dropWhile (\<lambda>x. \<not> is_space x) (c # cs)) \<le> length cs"
    by (simp add: length_dropWhile_le)
  moreover have "length (c # cs) \<le> length s"
    using assms length_dropWhile_le [of is_space s] by (simp add: lstrip_def)
  ultimately show ?thesis by simp
qed

termination split_ws
  by (relation "measure length") (auto dest: dropWhile_nonspace_shorter)

declare split_ws.simps [simp del]

definition is_digit :: "char \<Rightarrow> bool" where
  \<comment> \<open>an ASCII decimal digit\<close>
  "is_digit c \<longleftrightarrow> (let n = (of_char c :: nat) in 48 \<le> n \<and> n \<le> 57)"

definition isdigit_char :: "char \<Rightarrow> bool" where
  \<comment> \<open>what \<open>str.isdigit\<close> accepts on Latin-1: the decimal digits and three superscripts\<close>
  "isdigit_char c \<longleftrightarrow> is_digit c \<or> (let n = (of_char c :: nat) in n = 178 \<or> n = 179 \<or> n = 185)"

definition isdigit :: "string \<Rightarrow> bool" where
  "isdigit s \<longleftrightarrow> s \<noteq> [] \<and> list_all isdigit_char s"

definition digit_value :: "char \<Rightarrow> int" where
  "digit_value c = of_char c - 48"

fun digits_value :: "int \<Rightarrow> string \<Rightarrow> int option" where
  \<comment> \<open>digits with single underscores between them, as \<open>int()\<close> reads them\<close>
  "digits_value acc [] = None"
| "digits_value acc [c] = (if is_digit c then Some (10 * acc + digit_value c) else None)"
| "digits_value acc (c # d # cs) =
     (if \<not> is_digit c then None
      else if d = CHR ''_'' then digits_value (10 * acc + digit_value c) cs
      else digits_value (10 * acc + digit_value c) (d # cs))"

definition py_int :: "string \<Rightarrow> int option" where
  \<comment> \<open>\<open>int(s)\<close>; \<open>None\<close> is \<open>ValueError\<close>\<close>
  "py_int s = (case strip s of [] \<Rightarrow> None
     | c # cs \<Rightarrow> if c = CHR ''-'' then map_option uminus (digits_value 0 cs)
                 else if c = CHR ''+'' then digits_value 0 cs
                 else digits_value 0 (c # cs))"

fun join :: "string \<Rightarrow> string list \<Rightarrow> string" where
  "join sep [] = []"
| "join sep [s] = s"
| "join sep (s # t # ts) = s @ sep @ join sep (t # ts)"

fun nat_digits :: "nat \<Rightarrow> string" where
  \<comment> \<open>\<open>str(n)\<close> of a non-negative integer\<close>
  "nat_digits n = (if n < 10 then [char_of (48 + n)]
     else nat_digits (n div 10) @ [char_of (48 + n mod 10)])"

declare nat_digits.simps [simp del]

definition startswith :: "string \<Rightarrow> string \<Rightarrow> bool" where
  "startswith s p \<longleftrightarrow> take (length p) s = p"

fun contains :: "string \<Rightarrow> string \<Rightarrow> bool" where
  \<comment> \<open>\<open>p in s\<close> on strings\<close>
  "contains p [] = (p = [])"
| "contains p (c # cs) = (startswith (c # cs) p \<or> contains p cs)"

definition truthy :: "string option \<Rightarrow> bool" where
  \<comment> \<open>\<open>bool(s)\<close> of a \<open>str | None\<close>\<close>
  "truthy m \<longleftrightarrow> (case m of None \<Rightarrow> False | Some s \<Rightarrow> s \<noteq> [])"

lemma truthy_Some: "truthy m \<Longrightarrow> \<exists>s. m = Some s \<and> s \<noteq> []"
  by (auto simp: truthy_def split: option.splits)

lemma split_on_nonempty [simp]: "split_on c s \<noteq> []"
  by (cases s) (auto split: list.splits)

lemma split_ws_no_space: "w \<in> set (split_ws s) \<Longrightarrow> w \<noteq> [] \<and> list_all (\<lambda>c. \<not> is_space c) w"
proof (induction s rule: split_ws.induct)
  case (1 s)
  show ?case
  proof (cases "lstrip s")
    case Nil
    with "1.prems" show ?thesis by (simp add: split_ws.simps [of s])
  next
    case (Cons c cs)
    have c: "\<not> is_space c"
      using Cons by (auto simp: lstrip_def dropWhile_eq_Cons_conv)
    from "1.prems" Cons consider "w = takeWhile (\<lambda>x. \<not> is_space x) (c # cs)"
      | "w \<in> set (split_ws (dropWhile (\<lambda>x. \<not> is_space x) (c # cs)))"
      by (auto simp: split_ws.simps [of s])
    then show ?thesis
    proof cases
      case 1
      with c show ?thesis by (auto simp: list_all_iff dest: set_takeWhileD)
    next
      case 2
      with "1.IH" [OF Cons] show ?thesis by simp
    qed
  qed
qed

section \<open>Stable sorting by descending key\<close>

definition sorted_desc :: "('a \<Rightarrow> int) \<Rightarrow> 'a list \<Rightarrow> 'a list" where
  \<comment> \<open>\<open>sorted(xs, key=f, reverse=True)\<close>: stable, so equal keys keep their order\<close>
  "sorted_desc f xs = sort_key (\<lambda>x. - f x) xs"

lemma set_sorted_desc [simp]: "set (sorted_desc f xs) = set xs"
  by (simp add: sorted_desc_def)

lemma length_sorted_desc [simp]: "length (sorted_desc f xs) = length xs"
  by (simp add: sorted_desc_def)

lemma mset_sorted_desc [simp]: "mset (sorted_desc f xs) = mset xs"
  by (simp add: sorted_desc_def)

lemma sorted_desc_sorted: "sorted_wrt (\<lambda>x y. f x \<ge> f y) (sorted_desc f xs)"
proof -
  have "sorted (map (\<lambda>x. - f x) (sorted_desc f xs))"
    by (simp add: sorted_desc_def)
  then show ?thesis by (simp add: sorted_wrt_map)
qed

lemma sorted_desc_stable:
  "filter (\<lambda>x. f x = k) (sorted_desc f xs) = filter (\<lambda>x. f x = k) xs"
proof -
  have "filter (\<lambda>x. - f x = - k) (sort_key (\<lambda>x. - f x) xs) = filter (\<lambda>x. - f x = - k) xs"
    by (rule sort_key_stable)
  then show ?thesis by (simp add: sorted_desc_def)
qed

section \<open>The clock and the instruments\<close>

type_synonym time = int

abbreviation seconds :: "int \<Rightarrow> int" where "seconds n \<equiv> n * 1000000"
abbreviation minutes :: "int \<Rightarrow> int" where "minutes n \<equiv> seconds (n * 60)"
abbreviation days :: "int \<Rightarrow> int" where "days n \<equiv> seconds (n * 86400)"

definition date_of :: "time \<Rightarrow> int" where
  \<comment> \<open>\<open>t.date()\<close>, as the number of days since 1970-01-01\<close>
  "date_of t = t div days 1"

lemma date_of_mono: "s \<le> t \<Longrightarrow> date_of s \<le> date_of t"
  by (simp add: date_of_def zdiv_mono1)

text \<open>
  A call on a Prometheus instrument is recorded as an event: the instrument's name, the
  label values in the order of the call, and the amount where the code passes one. Durations
  taken from \<open>time.perf_counter()\<close> are not part of the model, so an \<open>observe\<close> of one carries 0.
\<close>

datatype metric_op = MInc | MDec | MObserve

type_synonym metric_event = "metric_op \<times> string \<times> string list \<times> rat"

definition metric_total :: "string \<Rightarrow> string list \<Rightarrow> metric_event list \<Rightarrow> rat" where
  \<comment> \<open>the value a counter or gauge series has after the events\<close>
  "metric_total name labels es =
     (\<Sum>(op, n, ls, v)\<leftarrow>es. if n = name \<and> ls = labels
        then (case op of MInc \<Rightarrow> v | MDec \<Rightarrow> - v | MObserve \<Rightarrow> 0) else 0)"

lemma metric_total_Nil [simp]: "metric_total n l [] = 0"
  by (simp add: metric_total_def)

lemma metric_total_append [simp]:
  "metric_total n l (xs @ ys) = metric_total n l xs + metric_total n l ys"
  by (simp add: metric_total_def)

lemma metric_total_Cons:
  "metric_total n l ((op, m, ls, v) # es) =
     (if m = n \<and> ls = l then (case op of MInc \<Rightarrow> v | MDec \<Rightarrow> - v | MObserve \<Rightarrow> 0) else 0)
     + metric_total n l es"
  by (simp add: metric_total_def)

section \<open>Interface: a table of rows\<close>

text \<open>
  What the services rely on of a repository (\<^verbatim>\<open>BaseRepository\<close> over the session's
  identity map): a row is found under its key after it is stored, other rows are not
  touched, and storing a row keeps the table well formed.
\<close>

locale row_store =
  fixes get :: "'t \<Rightarrow> 'k \<Rightarrow> 'r option"
    and put :: "'k \<Rightarrow> 'r \<Rightarrow> 't \<Rightarrow> 't"
    and ok :: "'t \<Rightarrow> bool"
  assumes get_put_same: "ok t \<Longrightarrow> get (put k r t) k = Some r"
    and get_put_other: "ok t \<Longrightarrow> k' \<noteq> k \<Longrightarrow> get (put k r t) k' = get t k'"
    and ok_put: "ok t \<Longrightarrow> ok (put k r t)"
begin

lemma get_put: "ok t \<Longrightarrow> get (put k r t) k' = (if k' = k then Some r else get t k')"
  by (simp add: get_put_same get_put_other)

lemma put_twice: "ok t \<Longrightarrow> get (put k r' (put k r t)) k' = get (put k r' t) k'"
  by (simp add: get_put ok_put)

lemma put_commute:
  "ok t \<Longrightarrow> k \<noteq> l \<Longrightarrow> get (put k r (put l q t)) j = get (put l q (put k r t)) j"
  by (simp add: get_put ok_put)

lemma all_put:
  assumes "ok t" and "\<And>j q. get t j = Some q \<Longrightarrow> P j q" and "P k r"
  shows "get (put k r t) j = Some q \<Longrightarrow> P j q"
  using assms by (auto simp: get_put split: if_splits)

end

interpretation dict: row_store dict_get dict_set dict_ok
  by unfold_locales auto

section \<open>Interface: a bounded retry loop\<close>

text \<open>
  The event bus, the LLM retry engine, the executor and the task queue all run an attempt,
  look at its outcome and go round again while the outcome may be retried and the budget
  lasts. \<open>attempt s\<close> performs one attempt, \<open>again r\<close> says that its outcome asks for another,
  \<open>between\<close> is what happens to the state between two attempts, \<open>count s\<close> is the number of
  attempts the state has seen, and \<open>loop n\<close> is the loop with \<open>n\<close> further attempts left.
\<close>

locale retry_loop =
  fixes attempt :: "'s \<Rightarrow> 's \<times> 'r"
    and again :: "'r \<Rightarrow> bool"
    and between :: "'r \<Rightarrow> 's \<Rightarrow> 's"
    and count :: "'s \<Rightarrow> nat"
    and loop :: "nat \<Rightarrow> 's \<Rightarrow> 's \<times> 'r"
  assumes loop_stop: "\<not> again (snd (attempt s)) \<or> n = 0 \<Longrightarrow> loop n s = attempt s"
    and loop_again: "again (snd (attempt s)) \<Longrightarrow>
          loop (Suc n) s = loop n (between (snd (attempt s)) (fst (attempt s)))"
    and count_attempt: "count (fst (attempt s)) = Suc (count s)"
    and count_between: "count (between r s) = count s"
begin

lemma loop_attempts_bounded: "count (fst (loop n s)) \<le> count s + n + 1"
proof (induction n arbitrary: s)
  case 0
  show ?case by (simp add: loop_stop count_attempt)
next
  case (Suc n)
  show ?case
  proof (cases "again (snd (attempt s))")
    case True
    have "count (fst (loop (Suc n) s))
        \<le> count (between (snd (attempt s)) (fst (attempt s))) + n + 1"
      using Suc [of "between (snd (attempt s)) (fst (attempt s))"] by (simp add: loop_again True)
    then show ?thesis by (simp add: count_attempt count_between)
  qed (simp add: loop_stop count_attempt)
qed

lemma loop_attempts_positive: "count s < count (fst (loop n s))"
proof (induction n arbitrary: s)
  case 0
  show ?case by (simp add: loop_stop count_attempt)
next
  case (Suc n)
  show ?case
  proof (cases "again (snd (attempt s))")
    case True
    have "count (between (snd (attempt s)) (fst (attempt s))) < count (fst (loop (Suc n) s))"
      using Suc [of "between (snd (attempt s)) (fst (attempt s))"] by (simp add: loop_again True)
    then show ?thesis by (simp add: count_attempt count_between)
  qed (simp add: loop_stop count_attempt)
qed

lemma loop_exhausted:
  "again (snd (loop n s)) \<Longrightarrow> count (fst (loop n s)) = count s + n + 1"
proof (induction n arbitrary: s)
  case 0
  then show ?case by (simp add: loop_stop count_attempt)
next
  case (Suc n)
  show ?case
  proof (cases "again (snd (attempt s))")
    case True
    with Suc.prems have "again (snd (loop n (between (snd (attempt s)) (fst (attempt s)))))"
      by (simp add: loop_again)
    from Suc.IH [OF this] show ?thesis by (simp add: loop_again True count_attempt count_between)
  next
    case False
    with Suc.prems show ?thesis by (simp add: loop_stop)
  qed
qed

lemma loop_invariant:
  assumes "\<And>s. I s \<Longrightarrow> I (fst (attempt s))" and "\<And>r s. I s \<Longrightarrow> I (between r s)"
  shows "I s \<Longrightarrow> I (fst (loop n s))"
proof (induction n arbitrary: s)
  case 0
  then show ?case by (simp add: loop_stop assms)
next
  case (Suc n)
  then show ?case
    by (cases "again (snd (attempt s))") (auto simp: loop_stop loop_again intro: assms)
qed

end

end
