(* ===== verification/Agent_Lifecycle.thy ===== *)
theory Agent_Lifecycle
  imports Prelude
begin

text \<open>
  The life of an agent (\<^verbatim>\<open>app/agents/base/lifecycle.py\<close>) and of a goal
  (\<^verbatim>\<open>app/agents/base/goals.py\<close>): the states, the transition table with its check, the
  step relation the table describes, and the test whether a goal is satisfied.
\<close>

section \<open>Agent states\<close>

datatype agent_state =
    AS_CREATED | AS_INITIALIZING | AS_IDLE | AS_PLANNING | AS_REASONING | AS_EXECUTING
  | AS_REFLECTING | AS_PAUSED | AS_COMPLETED | AS_FAILED | AS_CANCELLED

fun agent_state_value :: "agent_state \<Rightarrow> string" where
  "agent_state_value AS_CREATED = ''created''"
| "agent_state_value AS_INITIALIZING = ''initializing''"
| "agent_state_value AS_IDLE = ''idle''"
| "agent_state_value AS_PLANNING = ''planning''"
| "agent_state_value AS_REASONING = ''reasoning''"
| "agent_state_value AS_EXECUTING = ''executing''"
| "agent_state_value AS_REFLECTING = ''reflecting''"
| "agent_state_value AS_PAUSED = ''paused''"
| "agent_state_value AS_COMPLETED = ''completed''"
| "agent_state_value AS_FAILED = ''failed''"
| "agent_state_value AS_CANCELLED = ''cancelled''"

definition TERMINAL_STATES :: "agent_state list" where
  "TERMINAL_STATES = [AS_COMPLETED, AS_FAILED, AS_CANCELLED]"

definition ACTIVE_STATES :: "agent_state list" where
  "ACTIVE_STATES = [AS_PLANNING, AS_REASONING, AS_EXECUTING, AS_REFLECTING]"

fun TRANSITIONS :: "agent_state \<Rightarrow> agent_state list" where
  "TRANSITIONS AS_CREATED = [AS_INITIALIZING, AS_CANCELLED]"
| "TRANSITIONS AS_INITIALIZING = [AS_IDLE, AS_FAILED]"
| "TRANSITIONS AS_IDLE = [AS_PLANNING, AS_PAUSED, AS_CANCELLED]"
| "TRANSITIONS AS_PLANNING = [AS_REASONING, AS_EXECUTING, AS_FAILED, AS_PAUSED, AS_CANCELLED]"
| "TRANSITIONS AS_REASONING = [AS_EXECUTING, AS_REFLECTING, AS_FAILED, AS_PAUSED, AS_CANCELLED]"
| "TRANSITIONS AS_EXECUTING =
     [AS_REFLECTING, AS_REASONING, AS_COMPLETED, AS_FAILED, AS_PAUSED, AS_CANCELLED]"
| "TRANSITIONS AS_REFLECTING =
     [AS_IDLE, AS_PLANNING, AS_COMPLETED, AS_FAILED, AS_PAUSED, AS_CANCELLED]"
| "TRANSITIONS AS_PAUSED = [AS_IDLE, AS_CANCELLED]"
| "TRANSITIONS AS_COMPLETED = []"
| "TRANSITIONS AS_FAILED = []"
| "TRANSITIONS AS_CANCELLED = []"

definition can_transition :: "agent_state \<Rightarrow> agent_state \<Rightarrow> bool" where
  "can_transition current target \<longleftrightarrow> target \<in> set (TRANSITIONS current)"

datatype invalid_transition = InvalidTransitionError agent_state agent_state

definition invalid_transition_message :: "invalid_transition \<Rightarrow> string" where
  "invalid_transition_message x = (case x of InvalidTransitionError c t \<Rightarrow>
     ''Cannot transition from '' @ agent_state_value c @ '' to '' @ agent_state_value t @ ''.'')"

definition transition :: "agent_state \<Rightarrow> agent_state \<Rightarrow> invalid_transition + agent_state" where
  \<comment> \<open>\<open>BaseAgent._transition\<close>\<close>
  "transition current target =
     (if can_transition current target then Inr target
      else Inl (InvalidTransitionError current target))"

section \<open>Goals\<close>

datatype goal_status = GS_PENDING | GS_ACTIVE | GS_COMPLETED | GS_FAILED | GS_CANCELLED

datatype goal_priority = GP_LOW | GP_NORMAL | GP_HIGH | GP_CRITICAL

fun goal_priority_value :: "goal_priority \<Rightarrow> int" where
  "goal_priority_value GP_LOW = 0"
| "goal_priority_value GP_NORMAL = 5"
| "goal_priority_value GP_HIGH = 10"
| "goal_priority_value GP_CRITICAL = 20"

instantiation goal_priority :: linorder
begin

definition less_eq_goal_priority :: "goal_priority \<Rightarrow> goal_priority \<Rightarrow> bool" where
  "less_eq_goal_priority p q \<longleftrightarrow> goal_priority_value p \<le> goal_priority_value q"

definition less_goal_priority :: "goal_priority \<Rightarrow> goal_priority \<Rightarrow> bool" where
  "less_goal_priority p q \<longleftrightarrow> goal_priority_value p < goal_priority_value q"

instance
proof
  fix p q :: goal_priority
  show "p \<le> q \<Longrightarrow> q \<le> p \<Longrightarrow> p = q"
    by (cases p; cases q) (simp_all add: less_eq_goal_priority_def)
qed (auto simp: less_eq_goal_priority_def less_goal_priority_def)

end

record success_criterion =
  sc_description :: string
  sc_satisfied :: bool

record goal =
  g_objective :: string
  g_priority :: goal_priority
  g_deadline :: "time option"
  g_constraints :: "string list"
  g_expected_output :: "string option"
  g_success_criteria :: "success_criterion list"
  g_dependencies :: "nat list"
  g_status :: goal_status

definition is_satisfied :: "goal \<Rightarrow> bool" where
  "is_satisfied g =
     (if g_success_criteria g = [] then g_status g = GS_COMPLETED
      else list_all sc_satisfied (g_success_criteria g))"

section \<open>The step relation of the table\<close>

inductive agent_step :: "agent_state \<Rightarrow> agent_state \<Rightarrow> bool" where
  step: "transition s t = Inr t \<Longrightarrow> agent_step s t"

inductive_simps agent_step_iff: "agent_step s t"
inductive_cases agent_step_completed: "agent_step AS_COMPLETED t"
inductive_cases agent_step_failed: "agent_step AS_FAILED t"
inductive_cases agent_step_cancelled: "agent_step AS_CANCELLED t"
inductive_cases agent_step_paused: "agent_step AS_PAUSED t"

lemmas terminal_cases = agent_step_completed agent_step_failed agent_step_cancelled

lemma transition_Inr [simp]: "transition s t = Inr u \<longleftrightarrow> can_transition s t \<and> u = t"
  by (auto simp: transition_def)

lemma agent_step_can: "agent_step s t \<longleftrightarrow> can_transition s t"
  by (simp add: agent_step_iff)

lemma terminal_stuck: "s \<in> set TERMINAL_STATES \<Longrightarrow> \<not> agent_step s t"
  by (auto simp: TERMINAL_STATES_def can_transition_def elim!: terminal_cases)

lemma nonterminal_moves: "s \<notin> set TERMINAL_STATES \<Longrightarrow> \<exists>t. agent_step s t"
  by (cases s) (auto simp: TERMINAL_STATES_def agent_step_can can_transition_def)

lemma terminal_closed:
  "agent_step\<^sup>*\<^sup>* s t \<Longrightarrow> s \<in> set TERMINAL_STATES \<Longrightarrow> t = s"
  by (induction rule: converse_rtranclp_induct) (auto dest: terminal_stuck)

lemma created_no_pred: "\<not> agent_step s AS_CREATED"
  by (cases s) (simp_all add: agent_step_can can_transition_def)

lemma no_return_to_created: "agent_step\<^sup>*\<^sup>* s AS_CREATED \<Longrightarrow> s = AS_CREATED"
  by (erule rtranclp.cases) (simp_all add: created_no_pred)

lemma step_rtranclp: "can_transition s t \<Longrightarrow> agent_step\<^sup>*\<^sup>* t u \<Longrightarrow> agent_step\<^sup>*\<^sup>* s u"
  by (meson agent_step_can converse_rtranclp_into_rtranclp)

text \<open>Every state that is not terminal can still reach \<open>CANCELLED\<close> or \<open>FAILED\<close>.\<close>

lemma can_always_end:
  "s \<notin> set TERMINAL_STATES \<Longrightarrow> \<exists>t \<in> {AS_FAILED, AS_CANCELLED}. agent_step s t"
  by (cases s) (auto simp: TERMINAL_STATES_def agent_step_can can_transition_def)

text \<open>
  The terminal states are exactly the states without a successor: an agent in one stays
  there along every sequence of legal transitions, and from every other state one legal step
  ends the run as failed or cancelled.
\<close>

theorem agent_terminal_states:
  "(s \<in> set TERMINAL_STATES \<longleftrightarrow> (\<forall>t. agent_step\<^sup>*\<^sup>* s t \<longrightarrow> t = s)) \<and>
   (s \<in> set TERMINAL_STATES \<or> agent_step s AS_FAILED \<or> agent_step s AS_CANCELLED)"
proof (cases "s \<in> set TERMINAL_STATES")
  case True
  then show ?thesis using terminal_closed by blast
next
  case False
  then obtain t where t: "t \<in> {AS_FAILED, AS_CANCELLED}" "agent_step s t"
    using can_always_end by blast
  with False have "t \<noteq> s" by (auto simp: TERMINAL_STATES_def)
  with t False show ?thesis by auto
qed

theorem agent_terminal_states_witness:
  "AS_FAILED \<in> set TERMINAL_STATES \<and> \<not> agent_step\<^sup>*\<^sup>* AS_FAILED AS_IDLE"
  using agent_terminal_states [of AS_FAILED] by (auto simp: TERMINAL_STATES_def)

end
