(* ===== verification/Py_Value.thy ===== *)
theory Py_Value
  imports Prelude
begin

text \<open>
  The dynamically typed values that flow through workflow contexts, hook payloads and
  pipeline artifacts (\<^verbatim>\<open>Any\<close> and \<^verbatim>\<open>dict[str, Any]\<close> in the sources): JSON-like data with
  Python's rules for truth, equality, ordering, membership, subscription and arithmetic.
  \<open>None\<close> of an \<open>option\<close> stands for \<^verbatim>\<open>TypeError\<close> where an operation may raise it.

  A Python \<^verbatim>\<open>float\<close> is the rational number it denotes, with exact arithmetic: rounding,
  infinities and NaN are outside the model.
\<close>

datatype pyval =
    PNone
  | PBool bool
  | PInt int
  | PFloat rat
  | PStr string
  | PList "pyval list"
  | PTuple "pyval list"
  | PDict "(string \<times> pyval) list"

type_synonym pydict = "(string, pyval) dict"

fun py_truth :: "pyval \<Rightarrow> bool" where
  "py_truth PNone = False"
| "py_truth (PBool b) = b"
| "py_truth (PInt i) = (i \<noteq> 0)"
| "py_truth (PFloat r) = (r \<noteq> 0)"
| "py_truth (PStr s) = (s \<noteq> [])"
| "py_truth (PList xs) = (xs \<noteq> [])"
| "py_truth (PTuple xs) = (xs \<noteq> [])"
| "py_truth (PDict d) = (d \<noteq> [])"

fun py_int_of :: "pyval \<Rightarrow> int option" where
  \<comment> \<open>the values \<open>isinstance(v, int)\<close> holds of: integers and booleans\<close>
  "py_int_of (PInt i) = Some i"
| "py_int_of (PBool b) = Some (if b then 1 else 0)"
| "py_int_of _ = None"

fun py_num :: "pyval \<Rightarrow> rat option" where
  \<comment> \<open>the values \<open>isinstance(v, int | float)\<close> holds of\<close>
  "py_num (PFloat r) = Some r"
| "py_num v = map_option of_int (py_int_of v)"

section \<open>Equality and ordering\<close>

fun py_eq :: "pyval \<Rightarrow> pyval \<Rightarrow> bool"
  and py_eq_list :: "pyval list \<Rightarrow> pyval list \<Rightarrow> bool"
  and py_eq_items :: "(string \<times> pyval) list \<Rightarrow> pydict \<Rightarrow> bool" where
  "py_eq PNone b = (b = PNone)"
| "py_eq (PStr s) b = (b = PStr s)"
| "py_eq (PList xs) b = (case b of PList ys \<Rightarrow> py_eq_list xs ys | _ \<Rightarrow> False)"
| "py_eq (PTuple xs) b = (case b of PTuple ys \<Rightarrow> py_eq_list xs ys | _ \<Rightarrow> False)"
| "py_eq (PDict d) b =
     (case b of PDict e \<Rightarrow> length d = length e \<and> py_eq_items d e | _ \<Rightarrow> False)"
| "py_eq (PBool x) b = (py_num b = Some (if x then 1 else 0))"
| "py_eq (PInt i) b = (py_num b = Some (of_int i))"
| "py_eq (PFloat r) b = (py_num b = Some r)"
| "py_eq_list [] ys = (ys = [])"
| "py_eq_list (x # xs) ys = (case ys of [] \<Rightarrow> False | y # ys' \<Rightarrow> py_eq x y \<and> py_eq_list xs ys')"
| "py_eq_items [] e = True"
| "py_eq_items ((k, v) # d) e =
     ((case dict_get e k of None \<Rightarrow> False | Some w \<Rightarrow> py_eq v w) \<and> py_eq_items d e)"

fun py_lt :: "pyval \<Rightarrow> pyval \<Rightarrow> bool option"
  and py_lt_seq :: "pyval list \<Rightarrow> pyval list \<Rightarrow> bool option" where
  "py_lt (PStr s) b = (case b of PStr t \<Rightarrow> Some (s < t) | _ \<Rightarrow> None)"
| "py_lt (PList xs) b = (case b of PList ys \<Rightarrow> py_lt_seq xs ys | _ \<Rightarrow> None)"
| "py_lt (PTuple xs) b = (case b of PTuple ys \<Rightarrow> py_lt_seq xs ys | _ \<Rightarrow> None)"
| "py_lt (PBool x) b = map_option (\<lambda>r. (if x then 1 else 0) < r) (py_num b)"
| "py_lt (PInt i) b = map_option (\<lambda>r. of_int i < r) (py_num b)"
| "py_lt (PFloat q) b = map_option (\<lambda>r. q < r) (py_num b)"
| "py_lt PNone b = None"
| "py_lt (PDict d) b = None"
| "py_lt_seq [] ys = Some (ys \<noteq> [])"
| "py_lt_seq (x # xs) ys =
     (case ys of [] \<Rightarrow> Some False
      | y # ys' \<Rightarrow> if py_eq x y then py_lt_seq xs ys' else py_lt x y)"

fun py_le :: "pyval \<Rightarrow> pyval \<Rightarrow> bool option"
  and py_le_seq :: "pyval list \<Rightarrow> pyval list \<Rightarrow> bool option" where
  "py_le (PStr s) b = (case b of PStr t \<Rightarrow> Some (s \<le> t) | _ \<Rightarrow> None)"
| "py_le (PList xs) b = (case b of PList ys \<Rightarrow> py_le_seq xs ys | _ \<Rightarrow> None)"
| "py_le (PTuple xs) b = (case b of PTuple ys \<Rightarrow> py_le_seq xs ys | _ \<Rightarrow> None)"
| "py_le (PBool x) b = map_option (\<lambda>r. (if x then 1 else 0) \<le> r) (py_num b)"
| "py_le (PInt i) b = map_option (\<lambda>r. of_int i \<le> r) (py_num b)"
| "py_le (PFloat q) b = map_option (\<lambda>r. q \<le> r) (py_num b)"
| "py_le PNone b = None"
| "py_le (PDict d) b = None"
| "py_le_seq [] ys = Some True"
| "py_le_seq (x # xs) ys =
     (case ys of [] \<Rightarrow> Some False
      | y # ys' \<Rightarrow> if py_eq x y then py_le_seq xs ys' else py_le x y)"

fun py_hashable :: "pyval \<Rightarrow> bool" where
  "py_hashable (PList xs) = False"
| "py_hashable (PDict d) = False"
| "py_hashable (PTuple xs) = list_all py_hashable xs"
| "py_hashable _ = True"

fun py_in :: "pyval \<Rightarrow> pyval \<Rightarrow> bool option" where
  \<comment> \<open>\<open>a in b\<close>\<close>
  "py_in a (PStr s) = (case a of PStr p \<Rightarrow> Some (contains p s) | _ \<Rightarrow> None)"
| "py_in a (PList xs) = Some (list_ex (py_eq a) xs)"
| "py_in a (PTuple xs) = Some (list_ex (py_eq a) xs)"
| "py_in a (PDict d) =
     (if py_hashable a
      then Some (case a of PStr k \<Rightarrow> k \<in> set (keys d) | _ \<Rightarrow> False) else None)"
| "py_in a _ = None"

section \<open>Subscription\<close>

definition py_index :: "'a list \<Rightarrow> int \<Rightarrow> 'a option" where
  \<comment> \<open>\<open>xs[i]\<close>; negative indices count from the end, \<open>None\<close> is \<open>IndexError\<close>\<close>
  "py_index xs i = (let n = int (length xs); j = (if i < 0 then n + i else i)
     in if 0 \<le> j \<and> j < n then Some (xs ! nat j) else None)"

fun py_getitem :: "pyval \<Rightarrow> pyval \<Rightarrow> pyval option" where
  \<comment> \<open>\<open>container[key]\<close>; \<open>None\<close> for \<open>KeyError\<close>, \<open>IndexError\<close> and \<open>TypeError\<close> alike\<close>
  "py_getitem (PList xs) k = Option.bind (py_int_of k) (py_index xs)"
| "py_getitem (PTuple xs) k = Option.bind (py_int_of k) (py_index xs)"
| "py_getitem (PStr s) k =
     map_option (\<lambda>c. PStr [c]) (Option.bind (py_int_of k) (py_index s))"
| "py_getitem (PDict d) k = (case k of PStr s \<Rightarrow> dict_get d s | _ \<Rightarrow> None)"
| "py_getitem _ k = None"

section \<open>Laws\<close>

lemma py_eq_refl_num: "py_num a = Some r \<Longrightarrow> py_eq a a"
  by (cases a) auto

lemma py_lt_num [simp]:
  "py_num a = Some p \<Longrightarrow> py_num b = Some q \<Longrightarrow> py_lt a b = Some (p < q)"
  by (cases a) (auto split: if_splits)

lemma py_le_num [simp]:
  "py_num a = Some p \<Longrightarrow> py_num b = Some q \<Longrightarrow> py_le a b = Some (p \<le> q)"
  by (cases a) (auto split: if_splits)

lemma py_eq_num [simp]:
  "py_num a = Some p \<Longrightarrow> py_num b = Some q \<Longrightarrow> py_eq a b = (p = q)"
  by (cases a) (auto split: if_splits)

lemma py_index_in_range: "0 \<le> i \<Longrightarrow> i < int (length xs) \<Longrightarrow> py_index xs i = Some (xs ! nat i)"
  by (simp add: py_index_def)

lemma py_index_mem: "py_index xs i = Some x \<Longrightarrow> x \<in> set xs"
  by (auto simp: py_index_def Let_def split: if_splits)

section \<open>Text\<close>

definition quoted :: "string \<Rightarrow> string" where
  \<comment> \<open>between apostrophes\<close>
  "quoted s = CHR 0x27 # s @ [CHR 0x27]"

definition int_digits :: "int \<Rightarrow> string" where
  \<comment> \<open>\<open>str(i)\<close> of an integer\<close>
  "int_digits i = (if i < 0 then CHR ''-'' # nat_digits (nat (- i)) else nat_digits (nat i))"

fun digits_to_nat :: "nat \<Rightarrow> string \<Rightarrow> nat" where
  \<comment> \<open>the number a string of decimal digits denotes\<close>
  "digits_to_nat acc [] = acc"
| "digits_to_nat acc (c # cs) = digits_to_nat (10 * acc + (of_char c - 48)) cs"

lemma digits_to_nat_append: "digits_to_nat acc (xs @ ys) = digits_to_nat (digits_to_nat acc xs) ys"
  by (induction acc xs rule: digits_to_nat.induct) simp_all

lemma digits_to_nat_digits: "digits_to_nat 0 (nat_digits n) = n"
proof (induction n rule: nat_digits.induct)
  case (1 n)
  have d: "(of_char (char_of (48 + k) :: char) :: nat) - 48 = k" if "k < 10" for k :: nat
    using that by (simp add: of_char_of)
  show ?case
  proof (cases "n < 10")
    case True
    then show ?thesis using d [of n] by (simp add: nat_digits.simps [of n])
  next
    case False
    have "digits_to_nat 0 (nat_digits n)
        = digits_to_nat (digits_to_nat 0 (nat_digits (n div 10))) [char_of (48 + n mod 10)]"
      by (subst nat_digits.simps [of n]) (simp only: False if_False digits_to_nat_append)
    also have "\<dots> = digits_to_nat (n div 10) [char_of (48 + n mod 10)]"
      by (simp only: 1 [OF False])
    also have "\<dots> = 10 * (n div 10) + n mod 10"
      by (simp only: digits_to_nat.simps d [of "n mod 10"] mod_less_divisor zero_less_numeral)
    finally show ?thesis by (simp only: mult_div_mod_eq)
  qed
qed

lemma nat_digits_inj [simp]: "nat_digits m = nat_digits n \<longleftrightarrow> m = n"
  by (metis digits_to_nat_digits)

definition py_str :: "(pyval \<Rightarrow> string) \<Rightarrow> pyval \<Rightarrow> string" where
  \<comment> \<open>\<open>str(v)\<close>; \<open>rep\<close> prints floats and containers\<close>
  "py_str rep v = (case v of
       PStr s \<Rightarrow> s | PNone \<Rightarrow> ''None'' | PBool b \<Rightarrow> (if b then ''True'' else ''False'')
     | PInt i \<Rightarrow> int_digits i | _ \<Rightarrow> rep v)"

fun py_pair :: "pyval \<Rightarrow> (string \<times> pyval) option" where
  \<comment> \<open>an element of an iterable given to \<open>dict()\<close>: two items, the first a string\<close>
  "py_pair (PList [PStr k, v]) = Some (k, v)"
| "py_pair (PTuple [PStr k, v]) = Some (k, v)"
| "py_pair (PStr [c, d]) = Some ([c], PStr [d])"
| "py_pair _ = None"

fun py_pairs :: "pyval list \<Rightarrow> pydict \<Rightarrow> pydict option" where
  "py_pairs [] d = Some d"
| "py_pairs (x # xs) d =
     (case py_pair x of None \<Rightarrow> None | Some (k, v) \<Rightarrow> py_pairs xs (dict_set k v d))"

definition py_dict :: "pyval \<Rightarrow> pydict option" where
  \<comment> \<open>\<open>dict(v)\<close>; \<open>None\<close> for \<open>TypeError\<close> and \<open>ValueError\<close>\<close>
  "py_dict v = (case v of PDict d \<Rightarrow> Some d | PList xs \<Rightarrow> py_pairs xs [] | PTuple xs \<Rightarrow> py_pairs xs []
     | PStr [] \<Rightarrow> Some [] | _ \<Rightarrow> None)"

definition round_half_even :: "rat \<Rightarrow> int" where
  "round_half_even q =
     (let f = floor q; r = q - of_int f
      in if r < 1 / 2 then f else if r > 1 / 2 then f + 1 else if even f then f else f + 1)"

definition py_round :: "nat \<Rightarrow> rat \<Rightarrow> rat" where
  \<comment> \<open>\<open>round(x, n)\<close>\<close>
  "py_round n q = of_int (round_half_even (q * 10 ^ n)) / 10 ^ n"

lemma round_half_even_near: "\<bar>of_int (round_half_even q) - q\<bar> \<le> 1 / 2"
proof -
  have "of_int (floor q) \<le> q" "q < of_int (floor q) + 1" by linarith+
  then show ?thesis by (simp add: round_half_even_def Let_def)
qed

lemma round_half_even_of_int [simp]: "round_half_even (of_int k) = k"
  by (simp add: round_half_even_def)

lemma round_half_even_mono: "p \<le> q \<Longrightarrow> round_half_even p \<le> round_half_even q"
proof -
  assume le: "p \<le> q"
  show ?thesis
  proof (cases "floor p = floor q")
    case True
    with le show ?thesis by (auto simp: round_half_even_def Let_def)
  next
    case False
    with floor_mono [OF le] have "floor p + 1 \<le> floor q" by simp
    moreover have "round_half_even p \<le> floor p + 1" "floor q \<le> round_half_even q"
      by (auto simp: round_half_even_def Let_def)
    ultimately show ?thesis by simp
  qed
qed

lemma py_round_mono: "p \<le> q \<Longrightarrow> py_round n p \<le> py_round n q"
  by (simp add: py_round_def divide_right_mono round_half_even_mono)

lemma py_round_int [simp]: "py_round n (of_int k) = of_int k"
proof -
  have "(of_int k * 10 ^ n :: rat) = of_int (k * 10 ^ n)" by simp
  then show ?thesis unfolding py_round_def by (simp only: round_half_even_of_int) simp
qed

lemma py_round_unit: "0 \<le> q \<Longrightarrow> q \<le> 1 \<Longrightarrow> 0 \<le> py_round n q \<and> py_round n q \<le> 1"
  using py_round_mono [of 0 q n] py_round_mono [of q 1 n] py_round_int [of n 0] py_round_int [of n 1]
  by simp

definition fixed :: "nat \<Rightarrow> rat \<Rightarrow> string" where
  \<comment> \<open>\<open>f"{x:.nf}"\<close> for a positive number of places\<close>
  "fixed n q =
     (let m = round_half_even (\<bar>q\<bar> * 10 ^ n); digits = nat_digits (nat m);
          padded = replicate (Suc n - length digits) (CHR ''0'') @ digits;
          k = length padded - n
      in (if q < 0 then ''-'' else []) @ take k padded @ ''.'' @ drop k padded)"

fun type_name :: "pyval \<Rightarrow> string" where
  \<comment> \<open>\<open>type(v).__name__\<close>\<close>
  "type_name PNone = ''NoneType''"
| "type_name (PBool _) = ''bool''"
| "type_name (PInt _) = ''int''"
| "type_name (PFloat _) = ''float''"
| "type_name (PStr _) = ''str''"
| "type_name (PList _) = ''list''"
| "type_name (PTuple _) = ''tuple''"
| "type_name (PDict _) = ''dict''"

section \<open>Decimal digits\<close>

lemma of_char_digit: "k < 10 \<Longrightarrow> (of_char (char_of (48 + k) :: char) :: nat) = 48 + k"
  by (simp add: of_char_of)

lemma is_digit_char: "k < 10 \<Longrightarrow> is_digit (char_of (48 + k :: nat))"
  using of_char_digit [of k] by (simp add: is_digit_def Let_def)

lemma nat_digits_all: "list_all is_digit (nat_digits n) \<and> nat_digits n \<noteq> []"
proof (induction n rule: nat_digits.induct)
  case (1 n)
  show ?case
  proof (cases "n < 10")
    case True
    then show ?thesis using is_digit_char [of n] by (simp add: nat_digits.simps [of n])
  next
    case False
    then have "nat_digits n = nat_digits (n div 10) @ [char_of (48 + n mod 10)]"
      by (subst nat_digits.simps [of n]) (simp only: if_False)
    with 1 [OF False] is_digit_char [of "n mod 10"] show ?thesis by simp
  qed
qed

lemma digit_not_special:
  "is_digit c \<Longrightarrow> c \<noteq> CHR ''*'' \<and> c \<noteq> CHR '','' \<and> c \<noteq> CHR ''-'' \<and> c \<noteq> CHR ''+'' \<and> c \<noteq> CHR ''_'' \<and> \<not> is_space c"
  by (auto simp: is_digit_def is_space_def Let_def)

lemma digits_value_to_nat:
  "list_all is_digit cs \<Longrightarrow> cs \<noteq> [] \<Longrightarrow> digits_value (int acc) cs = Some (int (digits_to_nat acc cs))"
proof (induction cs arbitrary: acc)
  case (Cons c cs)
  have c: "is_digit c" and cs: "list_all is_digit cs" using Cons.prems by simp_all
  have v: "10 * int acc + digit_value c = int (10 * acc + (of_char c - 48))"
    using c by (auto simp: digit_value_def is_digit_def Let_def of_nat_diff of_nat_of_char)
  show ?case
  proof (cases cs)
    case Nil
    with c v show ?thesis by simp
  next
    case (Cons d ds)
    with cs have "d \<noteq> CHR ''_''" using digit_not_special [of d] by simp
    with Cons c cs v Cons.IH [of "10 * acc + (of_char c - 48)"] show ?thesis by simp
  qed
qed simp

lemma strip_digits: "list_all is_digit s \<Longrightarrow> strip s = s"
proof -
  assume "list_all is_digit s"
  then have ns: "\<forall>c \<in> set s. \<not> is_space c" using digit_not_special by (auto simp: list_all_iff)
  have keep: "dropWhile is_space t = t" if "\<forall>c \<in> set t. \<not> is_space c" for t
    using that by (cases t) simp_all
  show ?thesis using keep [of s] keep [of "rev s"] ns by (simp add: strip_def lstrip_def rstrip_def)
qed

lemma py_int_digits: "py_int (nat_digits n) = Some (int n)"
proof -
  have d: "list_all is_digit (nat_digits n)" "nat_digits n \<noteq> []" using nat_digits_all by auto
  then obtain c cs where c: "nat_digits n = c # cs" by (cases "nat_digits n") auto
  have "c \<noteq> CHR ''-''" "c \<noteq> CHR ''+''" using d c digit_not_special [of c] by simp_all
  then have "py_int (nat_digits n) = digits_value (int 0) (nat_digits n)"
    using strip_digits [OF d(1)] c by (simp add: py_int_def)
  also have "\<dots> = Some (int (digits_to_nat 0 (nat_digits n)))" by (rule digits_value_to_nat [OF d])
  finally show ?thesis by (simp add: digits_to_nat_digits)
qed

lemma digits_plain:
  "nat_digits n \<noteq> ''*''" "\<not> startswith (nat_digits n) ''*/''" "CHR ''-'' \<notin> set (nat_digits n)"
  "CHR '','' \<notin> set (nat_digits n)" "isdigit (nat_digits n)"
proof -
  have d: "list_all is_digit (nat_digits n)" "nat_digits n \<noteq> []" using nat_digits_all by auto
  then obtain c cs where c: "nat_digits n = c # cs" by (cases "nat_digits n") auto
  then have "is_digit c" using d by simp
  then have "c \<noteq> CHR ''*''" using digit_not_special by blast
  then show "nat_digits n \<noteq> ''*''" "\<not> startswith (nat_digits n) ''*/''"
    unfolding c by (simp_all add: startswith_def)
  show "CHR ''-'' \<notin> set (nat_digits n)" "CHR '','' \<notin> set (nat_digits n)"
    using d(1) digit_not_special by (auto simp: list_all_iff)
  show "isdigit (nat_digits n)" using d by (simp add: isdigit_def isdigit_char_def list_all_iff)
qed

end
