(* ===== verification/Agent_Tasks.thy ===== *)
theory Agent_Tasks
  imports Py_Value
begin

text \<open>
  Tasks and their dependency graph (\<^verbatim>\<open>app/agents/base/tasks.py\<close>). A graph is the dictionary
  \<^verbatim>\<open>_tasks\<close> from keys to tasks. The identifier and the creation time of a task and the
  timestamps of its log lines are not part of the model; where the code derives a key from the
  identifier the key is an argument.
\<close>

datatype task_status =
    TS_PENDING | TS_READY | TS_RUNNING | TS_SUCCEEDED | TS_FAILED | TS_SKIPPED | TS_CANCELLED

fun task_status_value :: "task_status \<Rightarrow> string" where
  "task_status_value TS_PENDING = ''pending''"
| "task_status_value TS_READY = ''ready''"
| "task_status_value TS_RUNNING = ''running''"
| "task_status_value TS_SUCCEEDED = ''succeeded''"
| "task_status_value TS_FAILED = ''failed''"
| "task_status_value TS_SKIPPED = ''skipped''"
| "task_status_value TS_CANCELLED = ''cancelled''"

datatype task_kind = TK_REASON | TK_LLM | TK_TOOL | TK_WORKFLOW | TK_DELEGATE | TK_CUSTOM

datatype task_priority = TP_LOW | TP_NORMAL | TP_HIGH | TP_CRITICAL

fun task_priority_value :: "task_priority \<Rightarrow> int" where
  "task_priority_value TP_LOW = 0"
| "task_priority_value TP_NORMAL = 5"
| "task_priority_value TP_HIGH = 10"
| "task_priority_value TP_CRITICAL = 20"

instantiation task_priority :: linorder
begin

definition less_eq_task_priority :: "task_priority \<Rightarrow> task_priority \<Rightarrow> bool" where
  "less_eq_task_priority p q \<longleftrightarrow> task_priority_value p \<le> task_priority_value q"

definition less_task_priority :: "task_priority \<Rightarrow> task_priority \<Rightarrow> bool" where
  "less_task_priority p q \<longleftrightarrow> task_priority_value p < task_priority_value q"

instance
proof
  fix p q :: task_priority
  show "p \<le> q \<Longrightarrow> q \<le> p \<Longrightarrow> p = q"
    by (cases p; cases q) (simp_all add: less_eq_task_priority_def)
qed (auto simp: less_eq_task_priority_def less_task_priority_def)

end

record agent_task =
  at_description :: string
  at_kind :: task_kind
  at_key :: string
  at_priority :: task_priority
  at_depends_on :: "string list"
  at_payload :: pydict
  at_timeout_seconds :: "rat option"
  at_max_retries :: int
  at_status :: task_status
  at_attempts :: nat
  at_progress :: rat
  at_result :: pyval
  at_error :: "string option"
  at_artifacts :: "pydict list"
  at_logs :: "string list"

definition agent_task_init ::
  "string \<Rightarrow> string \<Rightarrow> task_kind \<Rightarrow> string \<Rightarrow> string list \<Rightarrow> pydict \<Rightarrow> agent_task" where
  \<comment> \<open>the constructor with \<open>__post_init__\<close>; \<open>hex\<close> is the identifier's hexadecimal form\<close>
  "agent_task_init hex description kind key depends_on payload =
     \<lparr>at_description = description, at_kind = kind, at_key = (if key = [] then take 8 hex else key),
      at_priority = TP_NORMAL, at_depends_on = depends_on, at_payload = payload,
      at_timeout_seconds = None, at_max_retries = 2, at_status = TS_PENDING, at_attempts = 0,
      at_progress = 0, at_result = PNone, at_error = None, at_artifacts = [], at_logs = []\<rparr>"

definition task_log :: "string \<Rightarrow> agent_task \<Rightarrow> agent_task" where
  "task_log message t = t\<lparr>at_logs := at_logs t @ [message]\<rparr>"

section \<open>The graph\<close>

type_synonym task_graph = "(string, agent_task) dict"

definition graph_add :: "agent_task \<Rightarrow> task_graph \<Rightarrow> task_graph" where
  "graph_add t g = dict_set (at_key t) t g"

definition task_graph_init :: "agent_task list \<Rightarrow> task_graph" where
  "task_graph_init ts = fold graph_add ts []"

definition graph_tasks :: "task_graph \<Rightarrow> agent_task list" where
  "graph_tasks g = map snd g"

definition graph_get :: "task_graph \<Rightarrow> string \<Rightarrow> agent_task option" where
  "graph_get g k = dict_get g k"

definition dep_succeeded :: "task_graph \<Rightarrow> string \<Rightarrow> bool" where
  "dep_succeeded g d = (case dict_get g d of None \<Rightarrow> False | Some t \<Rightarrow> at_status t = TS_SUCCEEDED)"

definition ready :: "task_graph \<Rightarrow> agent_task list" where
  "ready g =
     sorted_desc (task_priority_value \<circ> at_priority)
       (filter (\<lambda>t. at_status t = TS_PENDING \<and> list_all (dep_succeeded g) (at_depends_on t))
          (graph_tasks g))"

definition is_complete :: "task_graph \<Rightarrow> bool" where
  "is_complete g =
     list_all (\<lambda>t. at_status t \<notin> {TS_PENDING, TS_READY, TS_RUNNING}) (graph_tasks g)"

definition has_failure :: "task_graph \<Rightarrow> bool" where
  "has_failure g = list_ex (\<lambda>t. at_status t = TS_FAILED) (graph_tasks g)"

section \<open>The topological order\<close>

definition dep_indegree :: "task_graph \<Rightarrow> (string, int) dict" where
  \<comment> \<open>each entry of \<open>depends_on\<close> that is a key of the graph counts, repeated entries too\<close>
  "dep_indegree g =
     map (\<lambda>(k, t). (k, int (length (filter (\<lambda>d. d \<in> set (keys g)) (at_depends_on t))))) g"

fun relax_tasks ::
  "string \<Rightarrow> agent_task list \<Rightarrow> (string, int) dict \<Rightarrow> string list \<Rightarrow> (string, int) dict \<times> string list" where
  \<comment> \<open>the inner \<open>for\<close> over the tasks: lower the count of each dependent of \<open>key\<close>\<close>
  "relax_tasks key [] ind queue = (ind, queue)"
| "relax_tasks key (t # ts) ind queue =
     (if key \<in> set (at_depends_on t)
      then (case dict_get ind (at_key t) of
              None \<Rightarrow> relax_tasks key ts ind queue
            | Some d \<Rightarrow> relax_tasks key ts (dict_set (at_key t) (d - 1) ind)
                          (if d - 1 = 0 then queue @ [at_key t] else queue))
      else relax_tasks key ts ind queue)"

definition positive :: "(string, int) dict \<Rightarrow> nat" where
  "positive ind = length (filter (\<lambda>(k, d). d > 0) ind)"

lemma positive_lower:
  "dict_get ind k = Some d \<Longrightarrow>
   positive ind = positive (dict_set k (d - 1) ind) + (if d = 1 then 1 else 0)"
  by (induction ind) (auto simp: positive_def split: if_splits)

lemma relax_measure:
  "relax_tasks key ts ind queue = (ind', queue') \<Longrightarrow>
   positive ind' + length queue' = positive ind + length queue"
proof (induction key ts ind queue rule: relax_tasks.induct)
  case (2 key t ts ind queue)
  show ?case
  proof (cases "dict_get ind (at_key t)")
    case None
    with 2 show ?thesis by (auto split: if_splits)
  next
    case (Some d)
    with 2 positive_lower [OF Some] show ?thesis by (auto split: if_splits)
  qed
qed simp

function topo_loop ::
  "task_graph \<Rightarrow> (string, int) dict \<Rightarrow> string list \<Rightarrow> string list \<Rightarrow> string list" where
  "topo_loop g ind [] order = order"
| "topo_loop g ind (key # queue) order =
     (case relax_tasks key (graph_tasks g) ind queue of
        (ind', queue') \<Rightarrow> topo_loop g ind' queue' (order @ [key]))"
  by pat_completeness auto
termination
  by (relation "measure (\<lambda>(g, ind, queue, order). positive ind + length queue)")
     (auto dest!: relax_measure [OF sym])

definition topological_order :: "task_graph \<Rightarrow> string + agent_task list" where
  "topological_order g =
     (let ind = dep_indegree g;
          order = topo_loop g ind (map fst (filter (\<lambda>(k, d). d = 0) ind)) []
      in if length order \<noteq> length g then Inl ''Task dependency graph contains a cycle.''
         else Inr (map (\<lambda>k. the (dict_get g k)) order))"

section \<open>Well-formed graphs\<close>

lemma acyclic_single: "a \<noteq> b \<Longrightarrow> acyclic {(a, b)}"
  by (simp add: acyclic_insert) (simp add: acyclic_def)

definition graph_keyed :: "task_graph \<Rightarrow> bool" where
  "graph_keyed g \<longleftrightarrow> dict_ok g \<and> list_all (\<lambda>(k, t). at_key t = k) g"

definition deps_distinct :: "task_graph \<Rightarrow> bool" where
  "deps_distinct g \<longleftrightarrow> list_all (\<lambda>t. distinct (at_depends_on t)) (graph_tasks g)"

definition dep_rel :: "task_graph \<Rightarrow> (string \<times> string) set" where
  \<comment> \<open>the pairs (dependency, dependent) between tasks of the graph\<close>
  "dep_rel g = {(d, at_key t) | d t. t \<in> set (graph_tasks g) \<and> d \<in> set (at_depends_on t) \<and> d \<in> set (keys g)}"

lemma graph_add_keyed [simp, intro]: "graph_keyed g \<Longrightarrow> graph_keyed (graph_add t g)"
proof -
  have "list_all (\<lambda>(k, t). at_key t = k) g \<Longrightarrow> list_all (\<lambda>(k, t). at_key t = k) (dict_set (at_key t) t g)"
    by (induction g) auto
  then show "graph_keyed g \<Longrightarrow> graph_keyed (graph_add t g)"
    by (simp add: graph_keyed_def graph_add_def)
qed

lemma graph_keyed_Nil [simp]: "graph_keyed []"
  by (simp add: graph_keyed_def)

lemma graph_keyed_keys: "graph_keyed g \<Longrightarrow> map at_key (graph_tasks g) = keys g"
  by (auto simp: graph_keyed_def graph_tasks_def list_all_iff)

lemma graph_keyed_get: "graph_keyed g \<Longrightarrow> dict_get g k = Some t \<longleftrightarrow> t \<in> set (graph_tasks g) \<and> at_key t = k"
  by (auto simp: graph_keyed_def dict_ok_def graph_tasks_def list_all_iff
      intro: map_of_is_SomeI rev_image_eqI dest!: map_of_SomeD)

lemma set_graph_tasks: "graph_keyed g \<Longrightarrow> set (graph_tasks g) = ran (dict_get g)"
  by (auto simp: ran_def graph_keyed_get)

section \<open>Correctness of the topological order\<close>

lemma relax_spec:
  assumes "distinct (map at_key ts)" and "relax_tasks key ts ind queue = (ind', queue')"
  shows "queue' = queue @ map at_key (filter (\<lambda>t. key \<in> set (at_depends_on t)
           \<and> dict_get ind (at_key t) = Some 1) ts) \<and>
    (\<forall>k. dict_get ind' k = (if \<exists>t \<in> set ts. at_key t = k \<and> key \<in> set (at_depends_on t)
       then map_option (\<lambda>d. d - 1) (dict_get ind k) else dict_get ind k))"
  using assms
proof (induction key ts ind queue rule: relax_tasks.induct)
  case (2 key t ts ind queue)
  have nin: "at_key t \<notin> at_key ` set ts" and d: "distinct (map at_key ts)"
    using "2.prems"(1) by auto
  show ?case
  proof (cases "key \<in> set (at_depends_on t)")
    case False
    with 2 show ?thesis by auto
  next
    case True
    show ?thesis
    proof (cases "dict_get ind (at_key t)")
      case None
      with True 2 show ?thesis by auto
    next
      case (Some n)
      let ?ind = "dict_set (at_key t) (n - 1) ind"
      let ?q = "if n - 1 = 0 then queue @ [at_key t] else queue"
      from True Some "2.prems"(2) have "relax_tasks key ts ?ind ?q = (ind', queue')" by simp
      note IH = "2.IH"(2) [OF True Some d this]
      have same: "filter (\<lambda>t. key \<in> set (at_depends_on t) \<and> dict_get ?ind (at_key t) = Some 1) ts
          = filter (\<lambda>t. key \<in> set (at_depends_on t) \<and> dict_get ind (at_key t) = Some 1) ts"
      proof (rule filter_cong [OF refl])
        fix x assume "x \<in> set ts"
        with nin have "at_key x \<noteq> at_key t" by (metis image_eqI)
        then show "(key \<in> set (at_depends_on x) \<and> dict_get ?ind (at_key x) = Some 1)
            = (key \<in> set (at_depends_on x) \<and> dict_get ind (at_key x) = Some 1)"
          by simp
      qed
      have "\<not> (\<exists>u \<in> set ts. at_key u = at_key t \<and> key \<in> set (at_depends_on u))"
        using nin by (metis image_eqI)
      with IH True Some show ?thesis unfolding same by (auto simp: dict_get_set)
    qed
  qed
qed auto

definition open_deps :: "task_graph \<Rightarrow> string set \<Rightarrow> agent_task \<Rightarrow> int" where
  "open_deps g P t = int (length (filter (\<lambda>d. d \<in> set (keys g) \<and> d \<notin> P) (at_depends_on t)))"

lemma open_deps_insert:
  assumes "distinct (at_depends_on t)" and "key \<in> set (keys g)" and "key \<notin> P"
  shows "open_deps g (insert key P) t = open_deps g P t - (if key \<in> set (at_depends_on t) then 1 else 0)"
proof -
  have "filter (\<lambda>d. d \<in> set (keys g) \<and> d \<notin> insert key P) (at_depends_on t)
      = remove1 key (filter (\<lambda>d. d \<in> set (keys g) \<and> d \<notin> P) (at_depends_on t))"
    using assms(1) by (simp add: distinct_remove1_removeAll distinct_filter removeAll_filter_not_eq
        filter_filter) (intro filter_cong, auto)
  moreover have "0 < length (filter (\<lambda>d. d \<in> set (keys g) \<and> d \<notin> P) (at_depends_on t))"
    if "key \<in> set (at_depends_on t)"
    using that assms(2,3) by (intro length_pos_if_in_set [of key]) simp
  ultimately show ?thesis
    using assms(2,3) by (simp add: open_deps_def length_remove1 of_nat_diff Suc_le_eq)
qed

definition topo_inv :: "task_graph \<Rightarrow> (string, int) dict \<Rightarrow> string list \<Rightarrow> string list \<Rightarrow> bool" where
  "topo_inv g ind queue order \<longleftrightarrow>
     distinct (order @ queue) \<and> set (order @ queue) \<subseteq> set (keys g)
     \<and> (\<forall>t \<in> set (graph_tasks g). dict_get ind (at_key t) = Some (open_deps g (set order) t)
          \<and> (at_key t \<in> set (order @ queue) \<longleftrightarrow> open_deps g (set order) t = 0))
     \<and> (\<forall>i < length order. \<forall>d. (d, order ! i) \<in> dep_rel g \<longrightarrow> d \<in> set (take i order))"

lemma open_deps_zero:
  "open_deps g P t = 0 \<longleftrightarrow> (\<forall>d \<in> set (at_depends_on t). d \<in> set (keys g) \<longrightarrow> d \<in> P)"
  by (auto simp: open_deps_def filter_empty_conv)

lemma open_deps_nonneg: "0 \<le> open_deps g P t"
  by (simp add: open_deps_def)

lemma topo_inv_step:
  assumes g: "graph_keyed g" "deps_distinct g" and inv: "topo_inv g ind (key # queue) order"
    and rel: "relax_tasks key (graph_tasks g) ind queue = (ind', queue')"
  shows "topo_inv g ind' queue' (order @ [key])"
proof -
  let ?ts = "graph_tasks g"
  have dk: "distinct (map at_key ?ts)" using g(1) by (simp add: graph_keyed_keys graph_keyed_def dict_ok_def)
  note spec = relax_spec [OF dk rel]
  have key: "key \<in> set (keys g)" "key \<notin> set order" using inv by (auto simp: topo_inv_def)
  have op: "open_deps g (set (order @ [key])) t
      = open_deps g (set order) t - (if key \<in> set (at_depends_on t) then 1 else 0)" if "t \<in> set ?ts" for t
    using open_deps_insert [OF _ key, of t] g(2) that by (simp add: deps_distinct_def list_all_iff)
  have old: "dict_get ind (at_key t) = Some (open_deps g (set order) t)"
    "at_key t \<in> set (order @ key # queue) \<longleftrightarrow> open_deps g (set order) t = 0" if "t \<in> set ?ts" for t
    using inv that by (auto simp: topo_inv_def)
  have uniq: "t = u" if "t \<in> set ?ts" "u \<in> set ?ts" "at_key t = at_key u" for t u
    using dk that by (auto simp: distinct_map dest: inj_onD)
  let ?new = "map at_key (filter (\<lambda>t. key \<in> set (at_depends_on t) \<and> dict_get ind (at_key t) = Some 1) ?ts)"
  have q: "queue' = queue @ ?new" using spec by blast
  have new: "at_key t \<in> set ?new \<longleftrightarrow> key \<in> set (at_depends_on t) \<and> open_deps g (set order) t = 1"
    if "t \<in> set ?ts" for t
    using that old(1) [OF that] uniq by auto
  have "distinct ?new" using dk by (rule distinct_map_filter)
  moreover have "set ?new \<inter> set (order @ key # queue) = {}"
  proof -
    have "k \<notin> set (order @ key # queue)" if "k \<in> set ?new" for k
    proof -
      from that obtain t where t: "t \<in> set ?ts" "k = at_key t" by auto
      with that new [OF t(1)] old(2) [OF t(1)] show ?thesis by simp
    qed
    then show ?thesis by blast
  qed
  moreover have "set ?new \<subseteq> set (map at_key ?ts)" by auto
  then have "set ?new \<subseteq> set (keys g)" by (simp only: graph_keyed_keys [OF g(1)])
  ultimately have A: "distinct ((order @ [key]) @ queue')" "set ((order @ [key]) @ queue') \<subseteq> set (keys g)"
    using inv unfolding topo_inv_def q by (simp_all only: set_append distinct_append list.set distinct.simps) blast+
  have B: "dict_get ind' (at_key t) = Some (open_deps g (set (order @ [key])) t)" if t: "t \<in> set ?ts" for t
  proof -
    have "(\<exists>u \<in> set ?ts. at_key u = at_key t \<and> key \<in> set (at_depends_on u)) \<longleftrightarrow> key \<in> set (at_depends_on t)"
      using uniq t by auto
    with spec old(1) [OF t] op [OF t] show ?thesis by simp
  qed
  have Cc: "at_key t \<in> set ((order @ [key]) @ queue') \<longleftrightarrow> open_deps g (set (order @ [key])) t = 0"
    if t: "t \<in> set ?ts" for t
    using new [OF t] old(2) [OF t] op [OF t] open_deps_nonneg [of g "set (order @ [key])" t]
    by (auto simp: q)
  have kd: "d \<in> set order" if "(d, key) \<in> dep_rel g" for d
  proof -
    from that obtain t where t: "t \<in> set ?ts" "at_key t = key" "d \<in> set (at_depends_on t)" "d \<in> set (keys g)"
      by (auto simp: dep_rel_def)
    with old(2) [OF t(1)] show ?thesis by (auto simp: open_deps_zero)
  qed
  have D: "d \<in> set (take i (order @ [key]))" if "i < length (order @ [key])" "(d, (order @ [key]) ! i) \<in> dep_rel g" for i d
    using that inv kd by (cases "i = length order") (auto simp: topo_inv_def nth_append)
  show ?thesis unfolding topo_inv_def using A B Cc D by blast
qed

lemma topo_inv_init:
  assumes g: "graph_keyed g"
  shows "topo_inv g (dep_indegree g) (map fst (filter (\<lambda>(k, d). d = 0) (dep_indegree g))) []"
proof -
  let ?ind = "dep_indegree g"
  have k: "keys ?ind = keys g" by (auto simp: dep_indegree_def)
  have dist: "distinct (keys ?ind)" using g by (simp add: k graph_keyed_def dict_ok_def)
  have get: "dict_get ?ind (at_key t) = Some (open_deps g {} t)" if "t \<in> set (graph_tasks g)" for t
  proof (rule map_of_is_SomeI [OF dist])
    have "(at_key t, t) \<in> set g" using that g by (auto simp: graph_keyed_def graph_tasks_def list_all_iff)
    then show "(at_key t, open_deps g {} t) \<in> set ?ind"
      by (force simp: dep_indegree_def open_deps_def)
  qed
  have "at_key t \<in> set (map fst (filter (\<lambda>(k, d). d = 0) ?ind)) \<longleftrightarrow> open_deps g {} t = 0"
    if "t \<in> set (graph_tasks g)" for t
  proof -
    have "at_key t \<in> set (map fst (filter (\<lambda>(k, d). d = 0) ?ind)) \<longleftrightarrow> (at_key t, 0) \<in> set ?ind"
      by force
    also have "\<dots> \<longleftrightarrow> dict_get ?ind (at_key t) = Some 0"
      using map_of_eq_Some_iff [OF dist] by blast
    finally show ?thesis using get [OF that] by simp
  qed
  moreover have "set (map fst (filter (\<lambda>(k, d). d = 0) ?ind)) \<subseteq> set (keys g)"
    using k by (metis filter_is_subset image_mono set_map)
  ultimately show ?thesis using get dist by (simp add: topo_inv_def distinct_map_filter)
qed

lemma topo_loop_inv:
  assumes "graph_keyed g" "deps_distinct g" "topo_inv g ind queue order"
  shows "\<exists>ind'. topo_inv g ind' [] (topo_loop g ind queue order)"
  using assms
proof (induction g ind queue order rule: topo_loop.induct)
  case (2 g ind key queue order)
  obtain ind' queue' where r: "relax_tasks key (graph_tasks g) ind queue = (ind', queue')" by fastforce
  from "2.IH" [OF r [symmetric] "2.prems"(1,2) topo_inv_step [OF "2.prems" r]] r show ?case by simp
qed auto

lemma topo_inv_final:
  assumes g: "graph_keyed g" and inv: "topo_inv g ind [] order" and ac: "acyclic (dep_rel g)"
  shows "set order = set (keys g)"
proof (rule ccontr)
  assume "set order \<noteq> set (keys g)"
  with inv have ne: "set (keys g) - set order \<noteq> {}" by (auto simp: topo_inv_def)
  have "dep_rel g \<subseteq> set (keys g) \<times> set (keys g)"
    using graph_keyed_keys [OF g, symmetric] by (auto simp: dep_rel_def)
  then have "finite (dep_rel g)" by (rule finite_subset) simp
  then have "wf (dep_rel g)" using ac by (rule finite_acyclic_wf)
  then obtain k where k: "k \<in> set (keys g) - set order"
    and min: "\<And>j. (j, k) \<in> dep_rel g \<Longrightarrow> j \<notin> set (keys g) - set order"
    using ne by (rule wfE_min') blast
  from k obtain t where t: "t \<in> set (graph_tasks g)" "at_key t = k"
    using graph_keyed_keys [OF g] by (metis DiffE imageE set_map)
  have "open_deps g (set order) t = 0"
    using min t by (force simp: open_deps_zero dep_rel_def)
  with inv t k show False by (auto simp: topo_inv_def)
qed

lemma topological_order_acyclic:
  assumes g: "graph_keyed g" "deps_distinct g" and ac: "acyclic (dep_rel g)"
  shows "\<exists>ts. topological_order g = Inr ts \<and> mset ts = mset (graph_tasks g)
    \<and> (\<forall>i < length ts. \<forall>d. (d, at_key (ts ! i)) \<in> dep_rel g \<longrightarrow> d \<in> at_key ` set (take i ts))"
proof -
  define order where "order = topo_loop g (dep_indegree g)
    (map fst (filter (\<lambda>(k, d). d = 0) (dep_indegree g))) []"
  obtain ind where inv: "topo_inv g ind [] order"
    using topo_loop_inv [OF g topo_inv_init [OF g(1)]] by (auto simp: order_def)
  have set: "set order = set (keys g)" by (rule topo_inv_final [OF g(1) inv ac])
  have dist: "distinct order" using inv by (simp add: topo_inv_def)
  have dk: "distinct (keys g)" using g(1) by (simp add: graph_keyed_def dict_ok_def)
  have ms: "mset order = mset (keys g)" using set dist dk by (simp only: set_eq_iff_mset_eq_distinct)
  then have "length order = length (keys g)" by (rule mset_eq_length)
  then have len: "length order = length g" by simp
  let ?get = "\<lambda>k. the (dict_get g k)"
  have "topological_order g = Inr (map ?get order)"
    using len by (simp add: topological_order_def Let_def order_def)
  moreover have "map ?get (keys g) = graph_tasks g"
    using dk by (auto simp: graph_tasks_def map_of_eq_Some_iff intro!: map_cong)
  then have "mset (map ?get order) = mset (graph_tasks g)" using ms by (metis mset_map)
  moreover have key: "at_key (?get k) = k" if "k \<in> set order" for k
  proof -
    from that set obtain t where "dict_get g k = Some t"
      using dict_get_None_iff [of g k] by (cases "dict_get g k") auto
    with graph_keyed_get [OF g(1), of k t] show ?thesis by simp
  qed
  moreover have "d \<in> at_key ` set (take i (map ?get order))"
    if i: "i < length (map ?get order)" and d: "(d, at_key (map ?get order ! i)) \<in> dep_rel g" for i d
  proof -
    have "(d, order ! i) \<in> dep_rel g" using i d key [of "order ! i"] by simp
    then have d: "d \<in> set (take i order)" using inv i by (simp add: topo_inv_def)
    then have "at_key (?get d) = d" by (intro key) (rule in_set_takeD)
    with d show ?thesis by (force simp: take_map image_iff)
  qed
  ultimately show ?thesis by blast
qed

text \<open>
  C5: on an acyclic graph whose tasks list no dependency twice, \<open>topological_order\<close> returns
  every task exactly once, each after all of its dependencies.
\<close>

theorem topological_order_correct:
  assumes "graph_keyed g" and "deps_distinct g" and "acyclic (dep_rel g)"
  shows "\<exists>ts. topological_order g = Inr ts \<and> mset ts = mset (graph_tasks g)
    \<and> (\<forall>i < length ts. \<forall>d. (d, at_key (ts ! i)) \<in> dep_rel g \<longrightarrow> d \<in> at_key ` set (take i ts))"
  using topological_order_acyclic [OF assms] .

text \<open>
  A task that names one dependency twice is counted twice on entry and lowered once, so an
  acyclic graph is refused with the cycle error.
\<close>

theorem topological_order_duplicate_dependency:
  assumes "a \<noteq> b" and "at_key t = a" and "at_key u = b" and "at_depends_on t = []"
    and "at_depends_on u = [a, a]"
  shows "acyclic (dep_rel (task_graph_init [t, u])) \<and>
    topological_order (task_graph_init [t, u]) = Inl ''Task dependency graph contains a cycle.''"
proof -
  have g: "task_graph_init [t, u] = [(a, t), (b, u)]"
    using assms(1-3) by (simp add: task_graph_init_def graph_add_def)
  have "dep_rel [(a, t), (b, u)] \<subseteq> {(a, b)}"
    using assms by (auto simp: dep_rel_def graph_tasks_def)
  moreover have "acyclic {(a, b)}" using assms(1) by (rule acyclic_single)
  ultimately have "acyclic (dep_rel [(a, t), (b, u)])" by (metis acyclic_subset)
  moreover have "topological_order [(a, t), (b, u)] = Inl ''Task dependency graph contains a cycle.''"
    using assms by (simp add: topological_order_def dep_indegree_def graph_tasks_def)
  ultimately show ?thesis by (simp add: g)
qed

section \<open>Tasks that may run\<close>

text \<open>
  \<open>ready\<close> returns exactly the pending tasks whose dependencies are all tasks of the graph that
  succeeded, the more urgent first and equal priorities in insertion order.
\<close>

lemma ready_iff:
  "t \<in> set (ready g) \<longleftrightarrow> t \<in> set (graph_tasks g) \<and> at_status t = TS_PENDING \<and>
     (\<forall>d \<in> set (at_depends_on t). \<exists>u. dict_get g d = Some u \<and> at_status u = TS_SUCCEEDED)"
  by (auto simp: ready_def list_all_iff dep_succeeded_def split: option.splits)

lemma ready_sorted: "sorted_wrt (\<lambda>t u. at_priority t \<ge> at_priority u) (ready g)"
  using sorted_desc_sorted [of "task_priority_value \<circ> at_priority"]
  by (simp add: ready_def less_eq_task_priority_def)

lemma is_complete_iff:
  "is_complete g \<longleftrightarrow>
     (\<forall>t \<in> set (graph_tasks g). at_status t \<in> {TS_SUCCEEDED, TS_FAILED, TS_SKIPPED, TS_CANCELLED})"
  by (auto simp: is_complete_def list_all_iff) (metis task_status.exhaust)

text \<open>
  An unfinished graph is never stuck for no reason: when nothing failed, nothing was skipped
  or cancelled, no task is running, every dependency is a task of the graph and the dependencies
  are acyclic, some task is ready.
\<close>

theorem ready_progress:
  assumes g: "graph_keyed g" and ac: "acyclic (dep_rel g)"
    and st: "\<forall>t \<in> set (graph_tasks g). at_status t \<in> {TS_PENDING, TS_SUCCEEDED}"
    and closed: "\<forall>t \<in> set (graph_tasks g). set (at_depends_on t) \<subseteq> set (keys g)"
    and unfinished: "\<not> is_complete g"
  shows "ready g \<noteq> []"
proof -
  let ?P = "{k. \<exists>t. dict_get g k = Some t \<and> at_status t = TS_PENDING}"
  have "finite (dep_rel g)"
  proof (rule finite_subset)
    show "dep_rel g \<subseteq> set (keys g) \<times> set (map at_key (graph_tasks g))" by (auto simp: dep_rel_def)
  qed simp
  then have "wf (dep_rel g)" using ac by (rule finite_acyclic_wf)
  moreover have "?P \<noteq> {}"
    using unfinished st by (force simp: is_complete_iff graph_keyed_get [OF g])
  ultimately obtain k where k: "k \<in> ?P" and min: "\<And>j. (j, k) \<in> dep_rel g \<Longrightarrow> j \<notin> ?P"
    by (rule wfE_min') blast
  from k obtain t where t: "dict_get g k = Some t" "at_status t = TS_PENDING" by blast
  then have t': "t \<in> set (graph_tasks g)" "at_key t = k" by (simp_all add: graph_keyed_get [OF g])
  have "\<exists>u. dict_get g d = Some u \<and> at_status u = TS_SUCCEEDED" if d: "d \<in> set (at_depends_on t)" for d
  proof -
    have dk: "d \<in> set (keys g)" using closed d t' by blast
    then obtain u where u: "dict_get g d = Some u"
      using dict_get_None_iff [of g d] by (cases "dict_get g d") auto
    have "(d, k) \<in> dep_rel g" using d dk t' by (auto simp: dep_rel_def)
    with min u st graph_keyed_get [OF g, of d u] show ?thesis by force
  qed
  with t t' have "t \<in> set (ready g)" by (simp add: ready_iff)
  then show ?thesis by auto
qed

section \<open>Witnesses\<close>

definition sample_task :: "string \<Rightarrow> string list \<Rightarrow> agent_task" where
  "sample_task key deps = agent_task_init ''0123456789abcdef'' key TK_REASON key deps []"

definition sample_task_graph :: task_graph where
  "sample_task_graph = task_graph_init [sample_task ''b'' [''a''], sample_task ''a'' []]"

lemma sample_task_graph_facts:
  "graph_keyed sample_task_graph" "deps_distinct sample_task_graph" "acyclic (dep_rel sample_task_graph)"
proof -
  show "graph_keyed sample_task_graph" "deps_distinct sample_task_graph" by code_simp+
  have "dep_rel sample_task_graph \<subseteq> {(''a'', ''b'')}"
    by (auto simp: dep_rel_def sample_task_graph_def task_graph_init_def graph_add_def graph_tasks_def
        sample_task_def agent_task_init_def)
  moreover have "acyclic {(''a'', ''b'')}" by (rule acyclic_single) simp
  ultimately show "acyclic (dep_rel sample_task_graph)" by (metis acyclic_subset)
qed

theorem topological_order_correct_witness:
  "\<exists>ts. topological_order sample_task_graph = Inr ts \<and> mset ts = mset (graph_tasks sample_task_graph)"
  using topological_order_correct [OF sample_task_graph_facts] by blast

theorem topological_order_duplicate_dependency_witness:
  "topological_order (task_graph_init [sample_task ''a'' [], sample_task ''b'' [''a'', ''a'']])
     = Inl ''Task dependency graph contains a cycle.''"
  using topological_order_duplicate_dependency
    [of "''a''" "''b''" "sample_task ''a'' []" "sample_task ''b'' [''a'', ''a'']"]
  by (simp add: sample_task_def agent_task_init_def)

theorem ready_progress_witness: "ready sample_task_graph \<noteq> []"
proof (rule ready_progress [OF sample_task_graph_facts(1,3)])
  show "\<forall>t \<in> set (graph_tasks sample_task_graph). at_status t \<in> {TS_PENDING, TS_SUCCEEDED}"
    "\<forall>t \<in> set (graph_tasks sample_task_graph). set (at_depends_on t) \<subseteq> set (keys sample_task_graph)"
    "\<not> is_complete sample_task_graph"
    by code_simp+
qed

end
