(* ===== verification/Agent_Context.thy ===== *)
theory Agent_Context
  imports Agent_Lifecycle Agent_Tasks
begin

text \<open>
  What an agent run threads through its stages: policies and their enforcer
  (\<^verbatim>\<open>app/agents/policies/policies.py\<close>), scoped memory (\<^verbatim>\<open>memory/memory.py\<close>), knowledge
  (\<^verbatim>\<open>knowledge/knowledge.py\<close>), tools (\<^verbatim>\<open>tools/registry.py\<close>), the run metrics and the context with
  its \<^verbatim>\<open>complete\<close> (\<^verbatim>\<open>base/context.py\<close>, \<^verbatim>\<open>base/llm.py\<close>).

  The language model is not part of the program: \<open>env_llm\<close> answers the \<open>n\<close>-th call with a reply,
  with an exception, or with a reply that comes after the timeout of the task that waits for it.
  Tools behave likewise. Money and seconds are rational numbers. Timestamps and durations are not
  modelled, and log records are not part of the state.
\<close>

section \<open>Policies\<close>

record agent_policy =
  ap_allowed_tools :: "string list option"
  ap_forbidden_tools :: "string list"
  ap_max_cost_usd :: rat
  ap_max_tokens :: int
  ap_max_steps :: int
  ap_max_retries :: int
  ap_task_timeout_seconds :: rat
  ap_require_approval_for_mutations :: bool

definition default_policy :: agent_policy where
  "default_policy =
     \<lparr>ap_allowed_tools = None, ap_forbidden_tools = [], ap_max_cost_usd = 1, ap_max_tokens = 100000,
      ap_max_steps = 50, ap_max_retries = 3, ap_task_timeout_seconds = 120,
      ap_require_approval_for_mutations = True\<rparr>"

definition tool_allowed :: "agent_policy \<Rightarrow> string \<Rightarrow> bool" where
  "tool_allowed p name =
     (if name \<in> set (ap_forbidden_tools p) then False
      else \<not> (case ap_allowed_tools p of None \<Rightarrow> False | Some allowed \<Rightarrow> name \<notin> set allowed))"

record policy_state =
  ps_cost_usd :: rat
  ps_tokens :: int
  ps_steps :: int
  ps_approvals :: "string list"

definition policy_state_init :: policy_state where
  "policy_state_init = \<lparr>ps_cost_usd = 0, ps_tokens = 0, ps_steps = 0, ps_approvals = []\<rparr>"

datatype agent_exc =
    PolicyViolation string
  | ApprovalRequired string
  | TimedOut
  | AgentExc string

definition check_tool :: "agent_policy \<Rightarrow> policy_state \<Rightarrow> string \<Rightarrow> bool \<Rightarrow> agent_exc option" where
  \<comment> \<open>\<open>Some\<close> the exception raised\<close>
  "check_tool p s name mutating =
     (if \<not> tool_allowed p name
      then Some (PolicyViolation (''Tool '' @ quoted name @ '' is not permitted by policy.''))
      else if mutating \<and> ap_require_approval_for_mutations p \<and> name \<notin> set (ps_approvals s)
      then Some (ApprovalRequired (''Tool '' @ quoted name @ '' mutates state and requires approval.''))
      else None)"

definition grant_approval :: "string \<Rightarrow> policy_state \<Rightarrow> policy_state" where
  "grant_approval name s = s\<lparr>ps_approvals := List.insert name (ps_approvals s)\<rparr>"

definition check_step :: "agent_policy \<Rightarrow> policy_state \<Rightarrow> policy_state \<times> agent_exc option" where
  "check_step p s =
     (let s' = s\<lparr>ps_steps := ps_steps s + 1\<rparr>
      in (s', if ps_steps s' > ap_max_steps p
              then Some (PolicyViolation (''Step limit exceeded ('' @ int_digits (ap_max_steps p) @ '').''))
              else None))"

definition add_usage ::
  "agent_policy \<Rightarrow> rat \<Rightarrow> int \<Rightarrow> policy_state \<Rightarrow> policy_state \<times> agent_exc option" where
  "add_usage p cost tokens s =
     (let s' = s\<lparr>ps_cost_usd := ps_cost_usd s + cost, ps_tokens := ps_tokens s + tokens\<rparr>
      in (s', if ps_cost_usd s' > ap_max_cost_usd p
              then Some (PolicyViolation (''Cost limit exceeded ($'' @ fixed 4 (ap_max_cost_usd p) @ '').''))
              else if ps_tokens s' > ap_max_tokens p
              then Some (PolicyViolation (''Token limit exceeded ('' @ int_digits (ap_max_tokens p) @ '').''))
              else None))"

definition retries_for :: "agent_policy \<Rightarrow> int \<Rightarrow> int" where
  "retries_for p requested = min requested (ap_max_retries p)"

section \<open>Memory\<close>

type_synonym agent_memory = "(string, pydict) dict"

definition scope_of :: "agent_memory \<Rightarrow> string \<Rightarrow> pydict" where
  \<comment> \<open>\<open>self._scopes.get(scope, {})\<close>\<close>
  "scope_of m scope = (case dict_get m scope of None \<Rightarrow> [] | Some d \<Rightarrow> d)"

definition remember :: "string \<Rightarrow> string \<Rightarrow> pyval \<Rightarrow> agent_memory \<Rightarrow> agent_memory" where
  "remember scope key v m = dict_set scope (dict_set key v (scope_of m scope)) m"

definition recall :: "agent_memory \<Rightarrow> string \<Rightarrow> string \<Rightarrow> pyval" where
  "recall m scope key = (case dict_get (scope_of m scope) key of None \<Rightarrow> PNone | Some v \<Rightarrow> v)"

definition forget :: "string \<Rightarrow> string \<Rightarrow> agent_memory \<Rightarrow> agent_memory" where
  "forget scope key m =
     (case dict_get m scope of None \<Rightarrow> m | Some d \<Rightarrow> dict_set scope (dict_pop key d) m)"

definition scope_items :: "agent_memory \<Rightarrow> string \<Rightarrow> pydict" where
  "scope_items m scope = scope_of m scope"

definition snapshot :: "agent_memory \<Rightarrow> agent_memory" where
  "snapshot m = m"

section \<open>Knowledge\<close>

datatype knowledge_kind = KK_POLICY | KK_DOCUMENTATION | KK_TEMPLATE | KK_FACT | KK_PREFERENCE | KK_RULE

record knowledge_entry =
  ke_title :: string
  ke_content :: string
  ke_kind :: knowledge_kind
  ke_tags :: "string list"

function str_count :: "string \<Rightarrow> string \<Rightarrow> nat" where
  \<comment> \<open>\<open>s.count(p)\<close> for a non-empty \<open>p\<close>: occurrences that do not overlap\<close>
  "str_count p s =
     (if p = [] \<or> s = [] then 0
      else if startswith s p then Suc (str_count p (drop (length p) s)) else str_count p (tl s))"
  by pat_completeness auto
termination
  by (relation "measure (\<lambda>(p, s). length s)") (auto simp: neq_Nil_conv)

declare str_count.simps [simp del]

definition matches :: "knowledge_entry \<Rightarrow> string \<Rightarrow> nat" where
  "matches e query =
     (let haystack = lower (ke_title e @ '' '' @ ke_content e @ '' '' @ join '' '' (ke_tags e))
      in sum_list (map (\<lambda>term. str_count term haystack) (split_ws (lower query))))"

definition knowledge_add :: "knowledge_entry \<Rightarrow> knowledge_entry list \<Rightarrow> knowledge_entry list" where
  "knowledge_add e kb = kb @ [e]"

definition by_kind :: "knowledge_entry list \<Rightarrow> knowledge_kind \<Rightarrow> knowledge_entry list" where
  "by_kind kb k = filter (\<lambda>e. ke_kind e = k) kb"

definition knowledge_search :: "knowledge_entry list \<Rightarrow> string \<Rightarrow> nat \<Rightarrow> string list" where
  "knowledge_search kb query limit =
     map (ke_content \<circ> snd)
       (take limit (sorted_desc (int \<circ> fst)
          (filter (\<lambda>p. fst p > 0) (map (\<lambda>e. (matches e query, e)) kb))))"

definition knowledge_policies :: "knowledge_entry list \<Rightarrow> string list" where
  "knowledge_policies kb =
     map ke_content (filter (\<lambda>e. ke_kind e \<in> {KK_POLICY, KK_RULE}) kb)"

section \<open>Tools\<close>

datatype tool_exec = Tool_Returns string | Tool_Raises string | Tool_Slow string

record agent_tool =
  tl_name :: string
  tl_description :: string
  tl_required :: "string list"
  tl_mutating :: bool
  tl_execute :: "nat \<Rightarrow> pydict \<Rightarrow> tool_exec"

record tool_outcome =
  to_tool_name :: string
  to_arguments :: pydict
  to_output :: string
  to_success :: bool
  to_error :: "string option"
  to_result :: pyval

type_synonym tool_registry = "(string, agent_tool) dict"

definition tool_describe :: "agent_tool \<Rightarrow> string" where
  "tool_describe t = tl_name t @ '': '' @ tl_description t"

definition tool_validate :: "(pyval \<Rightarrow> string) \<Rightarrow> agent_tool \<Rightarrow> pydict \<Rightarrow> string option" where
  \<comment> \<open>\<open>Some\<close> the text of the \<open>ToolValidationError\<close>\<close>
  "tool_validate rep t args =
     (let missing = filter (\<lambda>k. k \<notin> set (keys args)) (tl_required t)
      in if missing \<noteq> []
         then Some (tl_name t @ '': missing required arguments '' @ rep (PList (map PStr missing)))
         else None)"

definition tool_register :: "agent_tool \<Rightarrow> tool_registry \<Rightarrow> string + tool_registry" where
  "tool_register t r =
     (if tl_name t = [] then Inl ''Tool must define a non-empty name.'' else Inr (dict_set (tl_name t) t r))"

fun tool_register_all :: "agent_tool list \<Rightarrow> tool_registry \<Rightarrow> string + tool_registry" where
  "tool_register_all [] r = Inr r"
| "tool_register_all (t # ts) r =
     (case tool_register t r of Inl x \<Rightarrow> Inl x | Inr r' \<Rightarrow> tool_register_all ts r')"

definition failed_outcome :: "string \<Rightarrow> pydict \<Rightarrow> string \<Rightarrow> tool_outcome" where
  "failed_outcome name args err =
     \<lparr>to_tool_name = name, to_arguments = args, to_output = [], to_success = False,
      to_error = Some err, to_result = PNone\<rparr>"

definition tools_run ::
  "(pyval \<Rightarrow> string) \<Rightarrow> tool_registry \<Rightarrow> nat \<Rightarrow> string \<Rightarrow> pydict \<Rightarrow> tool_outcome option" where
  \<comment> \<open>\<open>None\<close> when the waiting task is cancelled by its timeout\<close>
  "tools_run rep r n name args =
     (case dict_get r name of
        None \<Rightarrow> Some (failed_outcome name args (''Unknown tool: '' @ name))
      | Some t \<Rightarrow>
          (case tool_validate rep t args of
             Some err \<Rightarrow> Some (failed_outcome name args err)
           | None \<Rightarrow>
               (case tl_execute t n args of
                  Tool_Returns out \<Rightarrow>
                    Some \<lparr>to_tool_name = name, to_arguments = args, to_output = out,
                          to_success = True, to_error = None, to_result = PStr out\<rparr>
                | Tool_Raises err \<Rightarrow> Some (failed_outcome name args err)
                | Tool_Slow out \<Rightarrow> None)))"

section \<open>The context\<close>

record agent_config =
  cf_model :: string
  cf_max_tokens :: int
  cf_max_iterations :: int
  cf_max_tasks :: int
  cf_reflection_enabled :: bool
  cf_evaluation_enabled :: bool
  cf_system_prompt :: "string option"
  cf_instructions :: string

record llm_reply =
  lr_text :: string
  lr_input_tokens :: int
  lr_output_tokens :: int
  lr_cost_usd :: rat

definition reply_total_tokens :: "llm_reply \<Rightarrow> int" where
  "reply_total_tokens r = lr_input_tokens r + lr_output_tokens r"

datatype llm_answer = LLM_Reply llm_reply | LLM_Raises string | LLM_Slow llm_reply

record agent_env =
  env_llm :: "nat \<Rightarrow> pyval \<Rightarrow> string option \<Rightarrow> int \<Rightarrow> llm_answer"
  env_repr :: "pyval \<Rightarrow> string"
  env_hex :: "nat \<Rightarrow> string"
  env_signal :: "nat \<Rightarrow> bool \<times> bool"
  env_configure :: "string + agent_tool list \<times> knowledge_entry list"

record run_metrics =
  rm_input_tokens :: int
  rm_output_tokens :: int
  rm_cost_usd :: rat
  rm_tool_calls :: nat
  rm_llm_calls :: nat
  rm_tasks_total :: nat
  rm_tasks_succeeded :: nat
  rm_tasks_failed :: nat
  rm_retries :: nat
  rm_latency_ms :: rat

definition run_metrics_init :: run_metrics where
  "run_metrics_init =
     \<lparr>rm_input_tokens = 0, rm_output_tokens = 0, rm_cost_usd = 0, rm_tool_calls = 0, rm_llm_calls = 0,
      rm_tasks_total = 0, rm_tasks_succeeded = 0, rm_tasks_failed = 0, rm_retries = 0, rm_latency_ms = 0\<rparr>"

definition add_llm :: "llm_reply \<Rightarrow> run_metrics \<Rightarrow> run_metrics" where
  "add_llm r m =
     m\<lparr>rm_input_tokens := rm_input_tokens m + lr_input_tokens r,
       rm_output_tokens := rm_output_tokens m + lr_output_tokens r,
       rm_cost_usd := rm_cost_usd m + lr_cost_usd r,
       rm_llm_calls := rm_llm_calls m + 1\<rparr>"

datatype agent_event =
    EV_AgentStarted string string
  | EV_TaskFinished string string
  | EV_ToolExecuted string bool
  | EV_GoalCompleted string
  | EV_GoalFailed string string
  | EV_AgentStopped string string

record agent_context =
  ac_goal :: goal
  ac_config :: agent_config
  ac_memory :: agent_memory
  ac_knowledge :: "knowledge_entry list"
  ac_tools :: tool_registry
  ac_policy :: agent_policy
  ac_pstate :: policy_state
  ac_metrics :: run_metrics
  ac_events :: "agent_event list"
  ac_llm_asked :: nat
  ac_tools_run :: nat
  ac_ids :: nat

definition agent_context_init ::
  "goal \<Rightarrow> agent_config \<Rightarrow> agent_memory \<Rightarrow> knowledge_entry list \<Rightarrow> tool_registry \<Rightarrow> agent_policy \<Rightarrow> agent_context" where
  \<comment> \<open>the constructor, after its defaults have been filled in\<close>
  "agent_context_init goal config memory knowledge tools policy =
     \<lparr>ac_goal = goal, ac_config = config, ac_memory = memory, ac_knowledge = knowledge, ac_tools = tools,
      ac_policy = policy, ac_pstate = policy_state_init, ac_metrics = run_metrics_init, ac_events = [],
      ac_llm_asked = 0, ac_tools_run = 0, ac_ids = 0\<rparr>"

definition publish :: "agent_event \<Rightarrow> agent_context \<Rightarrow> agent_context" where
  "publish e ctx = ctx\<lparr>ac_events := ac_events ctx @ [e]\<rparr>"

definition record_reply ::
  "llm_reply \<Rightarrow> agent_context \<Rightarrow> agent_context \<times> (agent_exc + string)" where
  \<comment> \<open>what follows the await in \<open>complete\<close>\<close>
  "record_reply r ctx =
     (let (ps, x) = add_usage (ac_policy ctx) (lr_cost_usd r) (reply_total_tokens r) (ac_pstate ctx);
          ctx' = ctx\<lparr>ac_metrics := add_llm r (ac_metrics ctx), ac_pstate := ps\<rparr>
      in (ctx', case x of Some e \<Rightarrow> Inl e | None \<Rightarrow> Inr (lr_text r)))"

definition complete ::
  "agent_env \<Rightarrow> bool \<Rightarrow> pyval \<Rightarrow> string option \<Rightarrow> agent_context \<Rightarrow> agent_context \<times> (agent_exc + string)" where
  \<comment> \<open>\<open>timed\<close>: the caller runs under \<open>asyncio.wait_for\<close>\<close>
  "complete env timed prompt system ctx =
     (let sys = (if truthy system then system else cf_system_prompt (ac_config ctx));
          ctx' = ctx\<lparr>ac_llm_asked := ac_llm_asked ctx + 1\<rparr>
      in case env_llm env (ac_llm_asked ctx) prompt sys (cf_max_tokens (ac_config ctx)) of
           LLM_Raises m \<Rightarrow> (ctx', Inl (AgentExc m))
         | LLM_Reply r \<Rightarrow> record_reply r ctx'
         | LLM_Slow r \<Rightarrow> if timed then (ctx', Inl TimedOut) else record_reply r ctx')"

section \<open>Memory is a table of rows\<close>

definition memory_ok :: "agent_memory \<Rightarrow> bool" where
  "memory_ok m \<longleftrightarrow> dict_ok m"

definition memory_get :: "agent_memory \<Rightarrow> string \<times> string \<Rightarrow> pyval option" where
  "memory_get m sk = dict_get (scope_of m (fst sk)) (snd sk)"

definition memory_put :: "string \<times> string \<Rightarrow> pyval \<Rightarrow> agent_memory \<Rightarrow> agent_memory" where
  "memory_put sk v m = remember (fst sk) (snd sk) v m"

lemma scope_of_remember:
  "scope_of (remember scope key v m) s = (if s = scope then dict_set key v (scope_of m scope) else scope_of m s)"
  by (simp add: scope_of_def remember_def dict_get_set)

lemma scope_of_forget:
  "scope_of (forget scope key m) s = (if s = scope then dict_pop key (scope_of m scope) else scope_of m s)"
  by (auto simp: scope_of_def forget_def dict_get_set split: option.splits)

lemma memory_ok_remember: "memory_ok m \<Longrightarrow> memory_ok (remember scope key v m)"
  by (simp add: memory_ok_def remember_def)

interpretation memory: row_store memory_get memory_put memory_ok
  by unfold_locales
     (auto simp: memory_get_def memory_put_def scope_of_remember memory_ok_remember prod_eq_iff)

lemma recall_memory_get: "recall m scope key = (case memory_get m (scope, key) of None \<Rightarrow> PNone | Some v \<Rightarrow> v)"
  by (simp add: recall_def memory_get_def)

text \<open>
  What is remembered is recalled, under its own scope and key only, and what is forgotten is
  gone.
\<close>

theorem recall_remember_forget:
  assumes "memory_ok m"
  shows "recall (remember scope key v m) s k = (if s = scope \<and> k = key then v else recall m s k)
    \<and> recall (forget scope key m) s k = (if s = scope \<and> k = key then PNone else recall m s k)"
proof -
  have "memory_get (memory_put (scope, key) v m) (s, k) = (if s = scope \<and> k = key then Some v else memory_get m (s, k))"
    using memory.get_put [OF assms, of "(scope, key)" v "(s, k)"] by auto
  then have "recall (remember scope key v m) s k = (if s = scope \<and> k = key then v else recall m s k)"
    by (simp add: recall_memory_get memory_put_def)
  moreover have "dict_get (dict_pop key d) k = (if k = key then None else dict_get d k)" for d :: pydict
    by (induction d) auto
  then have "recall (forget scope key m) s k = (if s = scope \<and> k = key then PNone else recall m s k)"
    by (simp add: recall_def scope_of_forget)
  ultimately show ?thesis ..
qed

section \<open>Policies\<close>

text \<open>
  A tool call that passes the check names a tool that is not forbidden, is on the allow list
  if there is one, and, when it mutates state under a policy that asks for it, was approved.
\<close>

theorem check_tool_passes_iff:
  "check_tool p s name mutating = None \<longleftrightarrow>
     name \<notin> set (ap_forbidden_tools p)
     \<and> (ap_allowed_tools p = None \<or> name \<in> set (the (ap_allowed_tools p)))
     \<and> \<not> (mutating \<and> ap_require_approval_for_mutations p \<and> name \<notin> set (ps_approvals s))"
  by (auto simp: check_tool_def tool_allowed_def split: option.splits)

definition over_budget :: "agent_policy \<Rightarrow> policy_state \<Rightarrow> bool" where
  "over_budget p s \<longleftrightarrow> ps_cost_usd s > ap_max_cost_usd p \<or> ps_tokens s > ap_max_tokens p"

lemma add_usage_snd: "snd (add_usage p c t s) = None \<longleftrightarrow> \<not> over_budget p (fst (add_usage p c t s))"
  by (auto simp: add_usage_def Let_def over_budget_def)

lemma add_usage_fst:
  "fst (add_usage p c t s) = s\<lparr>ps_cost_usd := ps_cost_usd s + c, ps_tokens := ps_tokens s + t\<rparr>"
  by (simp add: add_usage_def Let_def)

lemma add_usage_latches:
  "over_budget p s \<Longrightarrow> 0 \<le> c \<Longrightarrow> 0 \<le> t \<Longrightarrow> snd (add_usage p c t s) \<noteq> None"
  by (auto simp: add_usage_snd add_usage_fst over_budget_def)

fun use_all :: "agent_policy \<Rightarrow> (rat \<times> int) list \<Rightarrow> policy_state \<Rightarrow> policy_state" where
  \<comment> \<open>the state after a sequence of recorded replies\<close>
  "use_all p [] s = s"
| "use_all p ((c, t) # us) s = use_all p us (fst (add_usage p c t s))"

lemma use_all_total:
  "ps_cost_usd (use_all p us s) = ps_cost_usd s + sum_list (map fst us) \<and>
   ps_tokens (use_all p us s) = ps_tokens s + sum_list (map snd us)"
  by (induction p us s rule: use_all.induct) (auto simp: add_usage_fst)


lemma check_step_counts:
  "ps_steps (fst (check_step p s)) = ps_steps s + 1 \<and>
   (snd (check_step p s) = None \<longleftrightarrow> ps_steps s < ap_max_steps p)"
  by (auto simp: check_step_def Let_def)

lemma retries_for_le: "retries_for p n \<le> n" "retries_for p n \<le> ap_max_retries p"
  by (simp_all add: retries_for_def)

section \<open>Knowledge and tools\<close>

lemma knowledge_search_length: "length (knowledge_search kb q n) \<le> n"
  by (simp add: knowledge_search_def)

lemma knowledge_search_matching:
  "c \<in> set (knowledge_search kb q n) \<Longrightarrow> \<exists>e \<in> set kb. ke_content e = c \<and> matches e q > 0"
  by (auto simp: knowledge_search_def dest!: in_set_takeD)

lemma tools_run_success_iff:
  "(\<exists>o'. tools_run rep r n name args = Some o' \<and> to_success o') \<longleftrightarrow>
   (\<exists>t out. dict_get r name = Some t \<and> tool_validate rep t args = None \<and> tl_execute t n args = Tool_Returns out)"
  by (auto simp: tools_run_def failed_outcome_def split: option.splits tool_exec.splits)

section \<open>Accounting of a completion\<close>

text \<open>
  Every completion whose reply arrives in time is counted once, in the metrics and in the policy
  state alike; a call that raises or times out is counted in neither.
\<close>

definition accounts_agree :: "agent_context \<Rightarrow> bool" where
  "accounts_agree ctx \<longleftrightarrow>
     ps_cost_usd (ac_pstate ctx) = rm_cost_usd (ac_metrics ctx) \<and>
     ps_tokens (ac_pstate ctx) = rm_input_tokens (ac_metrics ctx) + rm_output_tokens (ac_metrics ctx)"

definition frame :: "agent_context \<Rightarrow> agent_context \<Rightarrow> bool" where
  \<comment> \<open>what no completion changes\<close>
  "frame ctx ctx' \<longleftrightarrow> ac_goal ctx' = ac_goal ctx \<and> ac_config ctx' = ac_config ctx \<and>
     ac_memory ctx' = ac_memory ctx \<and> ac_knowledge ctx' = ac_knowledge ctx \<and> ac_tools ctx' = ac_tools ctx \<and>
     ac_policy ctx' = ac_policy ctx \<and> ac_events ctx' = ac_events ctx \<and> ac_ids ctx' = ac_ids ctx \<and>
     ps_steps (ac_pstate ctx') = ps_steps (ac_pstate ctx) \<and>
     ps_approvals (ac_pstate ctx') = ps_approvals (ac_pstate ctx) \<and>
     rm_tasks_total (ac_metrics ctx') = rm_tasks_total (ac_metrics ctx) \<and>
     rm_tasks_succeeded (ac_metrics ctx') = rm_tasks_succeeded (ac_metrics ctx) \<and>
     rm_tasks_failed (ac_metrics ctx') = rm_tasks_failed (ac_metrics ctx) \<and>
     rm_retries (ac_metrics ctx') = rm_retries (ac_metrics ctx) \<and>
     rm_latency_ms (ac_metrics ctx') = rm_latency_ms (ac_metrics ctx)"

lemma complete_frame: "frame ctx (fst (complete env timed prompt system ctx))"
  by (auto simp: frame_def complete_def record_reply_def add_usage_def add_llm_def Let_def split: llm_answer.splits)

lemma complete_accounts:
  "accounts_agree ctx \<Longrightarrow> accounts_agree (fst (complete env timed prompt system ctx))"
  by (auto simp: accounts_agree_def complete_def record_reply_def add_usage_def add_llm_def
      reply_total_tokens_def Let_def split: llm_answer.splits)

lemma complete_text_within_budget:
  "snd (complete env timed prompt system ctx) = Inr text \<Longrightarrow>
   \<not> over_budget (ac_policy ctx) (ac_pstate (fst (complete env timed prompt system ctx)))"
  by (auto simp: complete_def record_reply_def add_usage_def over_budget_def Let_def
      split: llm_answer.splits option.splits if_splits)

section \<open>Witnesses\<close>

theorem recall_remember_forget_witness:
  "recall (remember ''agent'' ''k'' (PInt 1) []) ''agent'' ''k'' = PInt 1"
  using recall_remember_forget [of "[]" "''agent''" "''k''" "PInt 1" "''agent''" "''k''"]
  by (simp add: memory_ok_def)


end
