(* ===== verification/Agent_Executor.thy ===== *)
theory Agent_Executor
  imports Agent_Context
begin

text \<open>
  Running one task: the reasoner (\<^verbatim>\<open>app/agents/reasoning/reasoner.py\<close>) and the executor
  (\<^verbatim>\<open>app/agents/executor/executor.py\<close>) with its attempts, timeouts, policy checks and accounting.
  A task is updated in place by the code; here the updated task is returned.
\<close>

abbreviation newline :: string where "newline \<equiv> [CHR 0x0A]"

section \<open>Reasoning\<close>

datatype reasoning_stage =
    RS_UNDERSTAND | RS_GATHER_CONTEXT | RS_PLAN | RS_SELECT_TOOLS | RS_EXECUTE | RS_EVALUATE
  | RS_REFLECT | RS_IMPROVE

record reasoning_step =
  rp_stage :: reasoning_stage
  rp_content :: string

record reasoning_trace =
  rt_task_key :: string
  rt_thought :: string
  rt_steps :: "reasoning_step list"

definition trace_add :: "reasoning_stage \<Rightarrow> string \<Rightarrow> reasoning_trace \<Rightarrow> reasoning_trace" where
  "trace_add stage content tr = tr\<lparr>rt_steps := rt_steps tr @ [\<lparr>rp_stage = stage, rp_content = content\<rparr>]\<rparr>"

definition bullets :: "string list \<Rightarrow> string" where
  "bullets xs = join newline (map (\<lambda>x. ''- '' @ x) xs)"

definition system_prompt :: "agent_context \<Rightarrow> string" where
  "system_prompt ctx =
     (let instructions = (if cf_instructions (ac_config ctx) \<noteq> [] then cf_instructions (ac_config ctx)
            else ''You are a capable autonomous agent. Reason concisely and practically about how to accomplish the task.'');
          policies = knowledge_policies (ac_knowledge ctx)
      in if policies \<noteq> []
         then instructions @ newline @ newline @ ''Honor these policies:'' @ newline @ bullets policies
         else instructions)"

definition build_prompt :: "agent_task \<Rightarrow> agent_context \<Rightarrow> string list \<Rightarrow> string" where
  "build_prompt t ctx knowledge =
     join (newline @ newline)
       ([''Overall goal: '' @ g_objective (ac_goal ctx), ''Current task: '' @ at_description t]
        @ (if g_constraints (ac_goal ctx) \<noteq> []
           then [''Constraints: '' @ join ''; '' (g_constraints (ac_goal ctx))] else [])
        @ (if knowledge \<noteq> [] then [''Relevant knowledge:'' @ newline @ bullets knowledge] else [])
        @ [''Explain briefly how to accomplish this task.''])"

definition reason ::
  "agent_env \<Rightarrow> bool \<Rightarrow> agent_task \<Rightarrow> agent_context \<Rightarrow> agent_context \<times> (agent_exc + reasoning_trace)" where
  "reason env timed t ctx =
     (let tr0 = \<lparr>rt_task_key = at_key t, rt_thought = [], rt_steps = []\<rparr>;
          tr1 = trace_add RS_UNDERSTAND
                  (''Goal: '' @ g_objective (ac_goal ctx) @ '' | Task: '' @ at_description t) tr0;
          knowledge = knowledge_search (ac_knowledge ctx) (at_description t) 3;
          policies = knowledge_policies (ac_knowledge ctx);
          tr2 = (if knowledge \<noteq> [] \<or> policies \<noteq> []
                 then trace_add RS_GATHER_CONTEXT
                        (nat_digits (length knowledge) @ '' knowledge hits, '' @
                         nat_digits (length policies) @ '' policies'') tr1
                 else tr1);
          names = join '', '' (map (tl_name \<circ> snd) (ac_tools ctx));
          tr3 = trace_add RS_SELECT_TOOLS
                  (''Available tools: '' @ (if names \<noteq> [] then names else ''none'')) tr2
      in case complete env timed (PStr (build_prompt t ctx knowledge)) (Some (system_prompt ctx)) ctx of
           (ctx', Inl x) \<Rightarrow> (ctx', Inl x)
         | (ctx', Inr thought) \<Rightarrow>
             (ctx'\<lparr>ac_memory := remember ''short_term'' (''reasoning:'' @ at_key t) (PStr thought) (ac_memory ctx')\<rparr>,
              Inr (trace_add RS_PLAN thought (tr3\<lparr>rt_thought := thought\<rparr>))))"

section \<open>One attempt\<close>

type_synonym task_state = "agent_task \<times> agent_context"

definition add_artifact :: "pydict \<Rightarrow> agent_task \<Rightarrow> agent_task" where
  "add_artifact a t = t\<lparr>at_artifacts := at_artifacts t @ [a]\<rparr>"

definition run_reason :: "agent_env \<Rightarrow> task_state \<Rightarrow> task_state \<times> (agent_exc + pyval)" where
  "run_reason env s =
     (case s of (t, ctx) \<Rightarrow>
        (case reason env True t ctx of
           (ctx', Inl x) \<Rightarrow> ((t, ctx'), Inl x)
         | (ctx', Inr tr) \<Rightarrow>
             ((add_artifact [(''type'', PStr ''reasoning''), (''thought'', PStr (rt_thought tr))] t, ctx'),
              Inr (PStr (rt_thought tr)))))"

definition synthesis_prompt :: "agent_env \<Rightarrow> agent_task \<Rightarrow> agent_context \<Rightarrow> string" where
  "synthesis_prompt env t ctx =
     (let notes = scope_items (ac_memory ctx) ''task'';
          joined = join newline (map (\<lambda>(k, v). ''- '' @ k @ '': '' @ py_str (env_repr env) v) notes);
          expected = (case dict_get (at_payload t) ''expected_output'' of None \<Rightarrow> PStr [] | Some v \<Rightarrow> v);
          prompt = ''Goal: '' @ g_objective (ac_goal ctx) @ newline @ ''Work completed:'' @ newline
            @ (if joined \<noteq> [] then joined else ''- (no intermediate notes)'') @ newline @ newline
            @ at_description t
      in if py_truth expected
         then prompt @ newline @ ''Expected output: '' @ py_str (env_repr env) expected else prompt)"

definition run_llm :: "agent_env \<Rightarrow> task_state \<Rightarrow> task_state \<times> (agent_exc + pyval)" where
  "run_llm env s =
     (case s of (t, ctx) \<Rightarrow>
        (let prompt = (case dict_get (at_payload t) ''prompt'' of
               None \<Rightarrow> PStr (synthesis_prompt env t ctx)
             | Some p \<Rightarrow> if py_truth p then p else PStr (synthesis_prompt env t ctx))
         in case complete env True prompt None ctx of
              (ctx', Inl x) \<Rightarrow> ((t, ctx'), Inl x)
            | (ctx', Inr out) \<Rightarrow>
                ((add_artifact [(''type'', PStr ''llm''), (''output'', PStr out)] t,
                  ctx'\<lparr>ac_memory := remember ''task'' (at_key t) (PStr out) (ac_memory ctx')\<rparr>),
                 Inr (PStr out))))"

definition opt_str :: "string option \<Rightarrow> pyval" where
  "opt_str m = (case m of None \<Rightarrow> PNone | Some s \<Rightarrow> PStr s)"

definition run_tool :: "agent_env \<Rightarrow> task_state \<Rightarrow> task_state \<times> (agent_exc + pyval)" where
  "run_tool env s =
     (case s of (t, ctx) \<Rightarrow>
        (let name = py_str (env_repr env)
                      (case dict_get (at_payload t) ''tool'' of None \<Rightarrow> PStr [] | Some v \<Rightarrow> v)
         in case py_dict (case dict_get (at_payload t) ''arguments'' of None \<Rightarrow> PDict [] | Some v \<Rightarrow> v) of
              None \<Rightarrow> (s, Inl (AgentExc ''arguments''))
            | Some args \<Rightarrow>
                (let mutating = (case dict_get (ac_tools ctx) name of None \<Rightarrow> False | Some tool \<Rightarrow> tl_mutating tool)
                 in case check_tool (ac_policy ctx) (ac_pstate ctx) name mutating of
                      Some x \<Rightarrow> (s, Inl x)
                    | None \<Rightarrow>
                        (let ctx1 = ctx\<lparr>ac_tools_run := ac_tools_run ctx + 1\<rparr>
                         in case tools_run (env_repr env) (ac_tools ctx) (ac_tools_run ctx) name args of
                              None \<Rightarrow> ((t, ctx1), Inl TimedOut)
                            | Some oc \<Rightarrow>
                                (let m = ac_metrics ctx1;
                                     ctx2 = publish (EV_ToolExecuted name (to_success oc))
                                              (ctx1\<lparr>ac_metrics := m\<lparr>rm_tool_calls := rm_tool_calls m + 1\<rparr>\<rparr>);
                                     t2 = add_artifact
                                       [(''type'', PStr ''tool''), (''tool'', PStr name),
                                        (''success'', PBool (to_success oc)), (''output'', PStr (to_output oc)),
                                        (''error'', opt_str (to_error oc))] t
                                 in if \<not> to_success oc
                                    then ((t2, ctx2), Inl (AgentExc
                                      (if truthy (to_error oc) then the (to_error oc)
                                       else ''Tool '' @ quoted name @ '' failed'')))
                                    else ((t2, ctx2), Inr (PStr (to_output oc))))))))"

definition run_delegate :: "agent_env \<Rightarrow> task_state \<Rightarrow> task_state \<times> (agent_exc + pyval)" where
  "run_delegate env s =
     (case s of (t, ctx) \<Rightarrow>
        (let target = py_str (env_repr env)
               (case dict_get (at_payload t) ''agent'' of None \<Rightarrow> PStr ''unknown'' | Some v \<Rightarrow> v)
         in ((task_log (''delegated to '' @ target) t, ctx), Inr (PStr (''delegated:'' @ target)))))"

definition dispatch :: "agent_env \<Rightarrow> task_state \<Rightarrow> task_state \<times> (agent_exc + pyval)" where
  "dispatch env s =
     (case at_kind (fst s) of
        TK_TOOL \<Rightarrow> run_tool env s
      | TK_LLM \<Rightarrow> run_llm env s
      | TK_REASON \<Rightarrow> run_reason env s
      | TK_CUSTOM \<Rightarrow> run_reason env s
      | TK_DELEGATE \<Rightarrow> run_delegate env s
      | TK_WORKFLOW \<Rightarrow> run_reason env s)"

section \<open>The attempts of a task\<close>

datatype attempt_result = Done pyval | Blocked string | Retry string

fun is_retry :: "attempt_result \<Rightarrow> bool" where
  "is_retry (Retry _) = True" | "is_retry _ = False"

definition timeout_text :: "agent_env \<Rightarrow> agent_task \<Rightarrow> agent_context \<Rightarrow> string" where
  "timeout_text env t ctx =
     (let limit = (case at_timeout_seconds t of None \<Rightarrow> ap_task_timeout_seconds (ac_policy ctx)
                   | Some q \<Rightarrow> if q = 0 then ap_task_timeout_seconds (ac_policy ctx) else q)
      in ''timeout after '' @ env_repr env (PFloat limit) @ ''s'')"

definition try_once :: "agent_env \<Rightarrow> task_state \<Rightarrow> task_state \<times> attempt_result" where
  \<comment> \<open>one pass of the \<open>for\<close>: the attempt is counted, then dispatched, then its exception handled\<close>
  "try_once env s =
     (case s of (t, ctx) \<Rightarrow>
        (let n = Suc (at_attempts t)
         in case dispatch env (t\<lparr>at_attempts := n\<rparr>, ctx) of
              (s', Inr v) \<Rightarrow> (s', Done v)
            | ((t', ctx'), Inl x) \<Rightarrow>
                (case x of
                   PolicyViolation m \<Rightarrow> ((task_log (''policy blocked: '' @ m) t', ctx'), Blocked m)
                 | ApprovalRequired m \<Rightarrow> ((task_log (''policy blocked: '' @ m) t', ctx'), Blocked m)
                 | TimedOut \<Rightarrow> ((task_log (timeout_text env t ctx) t', ctx'), Retry (timeout_text env t ctx))
                 | AgentExc m \<Rightarrow>
                     ((task_log (''attempt '' @ nat_digits n @ '' failed: '' @ m) t', ctx'), Retry m))))"

definition count_retry :: "task_state \<Rightarrow> task_state" where
  "count_retry s =
     (case s of (t, ctx) \<Rightarrow>
        (t, ctx\<lparr>ac_metrics := (ac_metrics ctx)\<lparr>rm_retries := rm_retries (ac_metrics ctx) + 1\<rparr>\<rparr>))"

fun exec_loop :: "agent_env \<Rightarrow> nat \<Rightarrow> task_state \<Rightarrow> task_state \<times> attempt_result" where
  \<comment> \<open>\<open>n\<close> attempts may follow the present one\<close>
  "exec_loop env n s =
     (case try_once env s of
        (s', Retry m) \<Rightarrow> (case n of 0 \<Rightarrow> (s', Retry m) | Suc k \<Rightarrow> exec_loop env k (count_retry s'))
      | (s', r) \<Rightarrow> (s', r))"

declare exec_loop.simps [simp del]

definition publish_finished :: "agent_task \<Rightarrow> agent_context \<Rightarrow> agent_context" where
  "publish_finished t ctx = publish (EV_TaskFinished (at_key t) (task_status_value (at_status t))) ctx"

definition finish_success :: "pyval \<Rightarrow> task_state \<Rightarrow> task_state" where
  "finish_success v s =
     (case s of (t, ctx) \<Rightarrow>
        (let t' = t\<lparr>at_status := TS_SUCCEEDED, at_result := v, at_progress := 1\<rparr>; m = ac_metrics ctx
         in (t', publish_finished t'
                   (ctx\<lparr>ac_metrics := m\<lparr>rm_tasks_succeeded := rm_tasks_succeeded m + 1\<rparr>\<rparr>))))"

definition finish_failure :: "string option \<Rightarrow> task_state \<Rightarrow> task_state" where
  "finish_failure err s =
     (case s of (t, ctx) \<Rightarrow>
        (let t' = t\<lparr>at_status := TS_FAILED, at_error := err\<rparr>; m = ac_metrics ctx
         in (t', publish_finished t'
                   (ctx\<lparr>ac_metrics := m\<lparr>rm_tasks_failed := rm_tasks_failed m + 1\<rparr>\<rparr>))))"

definition execute :: "agent_env \<Rightarrow> agent_task \<Rightarrow> agent_context \<Rightarrow> task_state \<times> agent_exc option" where
  \<comment> \<open>\<open>Executor.execute\<close>; only the step limit is raised to the caller\<close>
  "execute env t ctx =
     (case check_step (ac_policy ctx) (ac_pstate ctx) of
        (ps, Some x) \<Rightarrow> ((t, ctx\<lparr>ac_pstate := ps\<rparr>), Some x)
      | (ps, None) \<Rightarrow>
          (let retries = retries_for (ac_policy ctx) (at_max_retries t);
               m = ac_metrics ctx;
               ctx1 = ctx\<lparr>ac_pstate := ps, ac_metrics := m\<lparr>rm_tasks_total := rm_tasks_total m + 1\<rparr>\<rparr>;
               t1 = t\<lparr>at_status := TS_RUNNING\<rparr>
           in (if retries < 0 then finish_failure None (t1, ctx1)
               else (case exec_loop env (nat retries) (t1\<lparr>at_attempts := 0\<rparr>, ctx1) of
                       (s', Done v) \<Rightarrow> finish_success v s'
                     | (s', Blocked e) \<Rightarrow> finish_failure (Some e) s'
                     | (s', Retry e) \<Rightarrow> finish_failure (Some e) s'),
               None)))"

section \<open>The executor's loop is a bounded retry loop\<close>

lemma task_log_simps [simp]:
  "at_attempts (task_log m t) = at_attempts t" "at_key (task_log m t) = at_key t"
  "at_depends_on (task_log m t) = at_depends_on t" "at_status (task_log m t) = at_status t"
  "at_kind (task_log m t) = at_kind t" "at_payload (task_log m t) = at_payload t"
  "at_priority (task_log m t) = at_priority t"
  by (simp_all add: task_log_def)

lemma add_artifact_simps [simp]:
  "at_attempts (add_artifact a t) = at_attempts t" "at_key (add_artifact a t) = at_key t"
  "at_depends_on (add_artifact a t) = at_depends_on t" "at_status (add_artifact a t) = at_status t"
  "at_kind (add_artifact a t) = at_kind t" "at_payload (add_artifact a t) = at_payload t"
  "at_priority (add_artifact a t) = at_priority t"
  by (simp_all add: add_artifact_def)

definition same_task :: "agent_task \<Rightarrow> agent_task \<Rightarrow> bool" where
  \<comment> \<open>what no attempt changes\<close>
  "same_task t t' \<longleftrightarrow> at_attempts t' = at_attempts t \<and> at_key t' = at_key t \<and>
     at_depends_on t' = at_depends_on t \<and> at_status t' = at_status t \<and> at_kind t' = at_kind t \<and>
     at_payload t' = at_payload t \<and> at_priority t' = at_priority t"

definition task_frame :: "agent_context \<Rightarrow> agent_context \<Rightarrow> bool" where
  \<comment> \<open>what no attempt changes in the context\<close>
  "task_frame ctx ctx' \<longleftrightarrow> ac_goal ctx' = ac_goal ctx \<and> ac_config ctx' = ac_config ctx \<and>
     ac_knowledge ctx' = ac_knowledge ctx \<and> ac_tools ctx' = ac_tools ctx \<and>
     ac_policy ctx' = ac_policy ctx \<and> ac_ids ctx' = ac_ids ctx \<and>
     ps_steps (ac_pstate ctx') = ps_steps (ac_pstate ctx) \<and>
     rm_tasks_total (ac_metrics ctx') = rm_tasks_total (ac_metrics ctx) \<and>
     rm_tasks_succeeded (ac_metrics ctx') = rm_tasks_succeeded (ac_metrics ctx) \<and>
     rm_tasks_failed (ac_metrics ctx') = rm_tasks_failed (ac_metrics ctx) \<and>
     rm_latency_ms (ac_metrics ctx') = rm_latency_ms (ac_metrics ctx)"

definition quiet :: "task_state \<Rightarrow> task_state \<Rightarrow> bool" where
  \<comment> \<open>one dispatch: the task and the counters of the context are as they were, the retries too\<close>
  "quiet s s' \<longleftrightarrow> same_task (fst s) (fst s') \<and> task_frame (snd s) (snd s') \<and>
     rm_retries (ac_metrics (snd s')) = rm_retries (ac_metrics (snd s)) \<and>
     (accounts_agree (snd s) \<longrightarrow> accounts_agree (snd s'))"

lemma complete_quiet:
  assumes "complete env timed p sys ctx = (ctx', r)"
  shows "quiet (t, ctx) (t, ctx')"
  using complete_frame [of ctx env timed p sys] complete_accounts [of ctx env timed p sys] assms
  by (auto simp: quiet_def same_task_def task_frame_def frame_def)

lemma quiet_memory: "quiet s (t, ctx) \<Longrightarrow> quiet s (t, ctx\<lparr>ac_memory := m\<rparr>)"
  by (simp add: quiet_def task_frame_def accounts_agree_def)

lemma quiet_artifact: "quiet s (t, ctx) \<Longrightarrow> quiet s (add_artifact a t, ctx)"
  by (simp add: quiet_def same_task_def)

lemma quiet_log: "quiet s (t, ctx) \<Longrightarrow> quiet s (task_log m t, ctx)"
  by (simp add: quiet_def same_task_def)

lemma quiet_refl [simp]: "quiet s s"
  by (simp add: quiet_def same_task_def task_frame_def)

lemma run_reason_quiet: "quiet s (fst (run_reason env s))"
proof -
  obtain t ctx where s: "s = (t, ctx)" by fastforce
  obtain ctx' r where "complete env True (PStr (build_prompt t ctx (knowledge_search (ac_knowledge ctx)
      (at_description t) 3))) (Some (system_prompt ctx)) ctx = (ctx', r)" by fastforce
  with complete_quiet [OF this, of t] s show ?thesis
    by (cases r) (simp_all add: run_reason_def reason_def Let_def quiet_memory quiet_artifact)
qed

lemma run_llm_quiet: "quiet s (fst (run_llm env s))"
proof -
  obtain t ctx where s: "s = (t, ctx)" by fastforce
  show ?thesis unfolding run_llm_def s Let_def
    by (auto intro: quiet_memory quiet_artifact complete_quiet split: prod.splits sum.splits)
qed

lemma run_tool_quiet: "quiet s (fst (run_tool env s))"
proof -
  obtain t ctx where s: "s = (t, ctx)" by fastforce
  have q: "quiet (t, ctx) (t, ctx\<lparr>ac_tools_run := n\<rparr>)" for n
    by (simp add: quiet_def same_task_def task_frame_def accounts_agree_def)
  have p: "quiet (t, ctx) (t, publish e (ctx\<lparr>ac_tools_run := n,
      ac_metrics := ac_metrics ctx\<lparr>rm_tool_calls := k\<rparr>\<rparr>))" for e n k
    by (simp add: quiet_def same_task_def task_frame_def accounts_agree_def publish_def)
  show ?thesis unfolding run_tool_def s Let_def
    by (auto intro: q p quiet_artifact split: option.splits)
qed

lemma run_delegate_quiet: "quiet s (fst (run_delegate env s))"
  by (auto simp: run_delegate_def Let_def intro: quiet_log split: prod.splits)

lemma dispatch_quiet: "quiet s (fst (dispatch env s))"
  unfolding dispatch_def
  by (cases "at_kind (fst s)") (simp_all add: run_reason_quiet run_llm_quiet run_tool_quiet run_delegate_quiet)

lemma dispatch_same_task: "dispatch env (t, ctx) = ((t', ctx'), r) \<Longrightarrow> same_task t t'"
  using dispatch_quiet [of "(t, ctx)" env] by (simp add: quiet_def)

lemma try_once_attempts: "at_attempts (fst (fst (try_once env s))) = Suc (at_attempts (fst s))"
proof -
  obtain t ctx where s: "s = (t, ctx)" by fastforce
  obtain t' ctx' r where d: "dispatch env (t\<lparr>at_attempts := Suc (at_attempts t)\<rparr>, ctx) = ((t', ctx'), r)"
    by (metis prod.exhaust)
  from dispatch_same_task [OF d] have "at_attempts t' = Suc (at_attempts t)" by (simp add: same_task_def)
  with d s show ?thesis
    by (auto simp: try_once_def Let_def split: sum.splits agent_exc.splits)
qed

interpretation executor: retry_loop "try_once env" is_retry "\<lambda>_. count_retry" "at_attempts \<circ> fst" "exec_loop env"
  for env
proof
  fix s and n :: nat
  show "\<not> is_retry (snd (try_once env s)) \<or> n = 0 \<Longrightarrow> exec_loop env n s = try_once env s"
    by (subst exec_loop.simps) (auto split: prod.splits attempt_result.splits)
  show "is_retry (snd (try_once env s)) \<Longrightarrow>
      exec_loop env (Suc n) s = exec_loop env n (count_retry (fst (try_once env s)))"
    by (subst exec_loop.simps) (auto split: prod.splits attempt_result.splits)
  show "(at_attempts \<circ> fst) (fst (try_once env s)) = Suc ((at_attempts \<circ> fst) s)"
    by (simp add: try_once_attempts)
  show "(at_attempts \<circ> fst) (count_retry s) = (at_attempts \<circ> fst) s"
    by (simp add: count_retry_def split: prod.splits)
qed

lemma try_once_quiet:
  assumes "try_once env (t, ctx) = (s', r)"
  shows "quiet (t\<lparr>at_attempts := Suc (at_attempts t)\<rparr>, ctx) s'"
proof -
  let ?s = "(t\<lparr>at_attempts := Suc (at_attempts t)\<rparr>, ctx)"
  obtain t' ctx' q where d: "dispatch env ?s = ((t', ctx'), q)" by (metis prod.exhaust)
  with dispatch_quiet [of ?s env] have "quiet ?s (t', ctx')" by simp
  with d assms show ?thesis
    by (auto simp: try_once_def Let_def quiet_log split: sum.splits agent_exc.splits)
qed

definition loop_rel :: "task_state \<Rightarrow> task_state \<Rightarrow> bool" where
  \<comment> \<open>what holds between the start of a task and the state after some of its attempts\<close>
  "loop_rel s s' \<longleftrightarrow> same_task (fst s) ((fst s')\<lparr>at_attempts := at_attempts (fst s)\<rparr>) \<and>
     task_frame (snd s) (snd s') \<and> (accounts_agree (snd s) \<longrightarrow> accounts_agree (snd s'))"

lemma loop_rel_trans: "loop_rel s s' \<Longrightarrow> loop_rel s' s'' \<Longrightarrow> loop_rel s s''"
  by (simp add: loop_rel_def same_task_def task_frame_def)

lemma try_once_loop_rel: "loop_rel s (fst (try_once env s))"
proof -
  obtain t ctx where s: "s = (t, ctx)" by fastforce
  obtain s' r where tr: "try_once env (t, ctx) = (s', r)" by fastforce
  from try_once_quiet [OF tr] tr s show ?thesis
    by (simp add: loop_rel_def quiet_def same_task_def)
qed

lemma count_retry_loop_rel: "loop_rel s (count_retry s)"
  by (cases s) (simp add: loop_rel_def count_retry_def same_task_def task_frame_def accounts_agree_def)

lemma exec_loop_rel: "loop_rel s (fst (exec_loop env n s))"
proof (rule executor.loop_invariant [where I = "loop_rel s"])
  show "loop_rel s s" by (simp add: loop_rel_def same_task_def task_frame_def)
qed (blast intro: loop_rel_trans try_once_loop_rel count_retry_loop_rel)+

lemma exec_loop_retries:
  "rm_retries (ac_metrics (snd (fst (exec_loop env n s)))) + at_attempts (fst s) + 1
   = rm_retries (ac_metrics (snd s)) + at_attempts (fst (fst (exec_loop env n s)))"
proof (induction n arbitrary: s)
  case 0
  obtain t ctx where s: "s = (t, ctx)" by fastforce
  obtain s' r where tr: "try_once env (t, ctx) = (s', r)" by fastforce
  from try_once_quiet [OF tr] tr s show ?case
    by (simp add: executor.loop_stop quiet_def same_task_def)
next
  case (Suc n)
  obtain t ctx where s: "s = (t, ctx)" by fastforce
  obtain s' r where tr: "try_once env (t, ctx) = (s', r)" by fastforce
  note q = try_once_quiet [OF tr]
  show ?case
  proof (cases "is_retry r")
    case True
    with Suc [of "count_retry s'"] q tr s show ?thesis
      by (cases s') (simp add: executor.loop_again count_retry_def quiet_def same_task_def)
  next
    case False
    with q tr s show ?thesis by (simp add: executor.loop_stop quiet_def same_task_def)
  qed
qed

section \<open>What executing a task does\<close>

lemma finish_simps:
  "fst (finish_success v s) = (fst s)\<lparr>at_status := TS_SUCCEEDED, at_result := v, at_progress := 1\<rparr>"
  "fst (finish_failure e s) = (fst s)\<lparr>at_status := TS_FAILED, at_error := e\<rparr>"
  "ac_metrics (snd (finish_success v s)) = (ac_metrics (snd s))\<lparr>rm_tasks_succeeded := rm_tasks_succeeded (ac_metrics (snd s)) + 1\<rparr>"
  "ac_metrics (snd (finish_failure e s)) = (ac_metrics (snd s))\<lparr>rm_tasks_failed := rm_tasks_failed (ac_metrics (snd s)) + 1\<rparr>"
  by (simp_all add: finish_success_def finish_failure_def publish_finished_def publish_def Let_def split: prod.splits)

definition start_state :: "agent_task \<Rightarrow> agent_context \<Rightarrow> task_state" where
  \<comment> \<open>the state the first attempt starts in\<close>
  "start_state t ctx =
     (t\<lparr>at_status := TS_RUNNING, at_attempts := 0\<rparr>,
      ctx\<lparr>ac_pstate := fst (check_step (ac_policy ctx) (ac_pstate ctx)),
          ac_metrics := (ac_metrics ctx)\<lparr>rm_tasks_total := rm_tasks_total (ac_metrics ctx) + 1\<rparr>\<rparr>)"

lemma execute_cases:
  assumes "execute env t ctx = ((t', ctx'), None)" and "0 \<le> retries_for (ac_policy ctx) (at_max_retries t)"
  obtains s r where "exec_loop env (nat (retries_for (ac_policy ctx) (at_max_retries t))) (start_state t ctx) = (s, r)"
    and "(\<exists>v. r = Done v \<and> (t', ctx') = finish_success v s) \<or>
         (\<exists>e. (r = Blocked e \<or> r = Retry e) \<and> (t', ctx') = finish_failure (Some e) s)"
proof -
  obtain s r where l: "exec_loop env (nat (retries_for (ac_policy ctx) (at_max_retries t))) (start_state t ctx) = (s, r)"
    by fastforce
  with assms have "(t', ctx') = (case r of Done v \<Rightarrow> finish_success v s | Blocked e \<Rightarrow> finish_failure (Some e) s
      | Retry e \<Rightarrow> finish_failure (Some e) s)"
    by (auto simp: execute_def start_state_def Let_def split: prod.splits option.splits attempt_result.splits)
  with l that show ?thesis by (cases r) auto
qed

text \<open>
  A task that is executed ends succeeded or failed after at least one and at most
  \<open>retries + 1\<close> attempts; every attempt after the first is counted as one retry, and the task is
  counted once in the total and once under its outcome.
\<close>

theorem execute_attempts_and_accounting:
  assumes "execute env t ctx = ((t', ctx'), None)" and "0 \<le> retries_for (ac_policy ctx) (at_max_retries t)"
  defines "m \<equiv> ac_metrics ctx" and "m' \<equiv> ac_metrics ctx'"
  shows "at_status t' \<in> {TS_SUCCEEDED, TS_FAILED}
    \<and> 1 \<le> at_attempts t' \<and> int (at_attempts t') \<le> min (at_max_retries t) (ap_max_retries (ac_policy ctx)) + 1
    \<and> rm_retries m' + 1 = rm_retries m + at_attempts t'
    \<and> rm_tasks_total m' = rm_tasks_total m + 1
    \<and> rm_tasks_succeeded m' = rm_tasks_succeeded m + (if at_status t' = TS_SUCCEEDED then 1 else 0)
    \<and> rm_tasks_failed m' = rm_tasks_failed m + (if at_status t' = TS_FAILED then 1 else 0)"
proof -
  let ?n = "nat (retries_for (ac_policy ctx) (at_max_retries t))" and ?s0 = "start_state t ctx"
  obtain s r where l: "exec_loop env ?n ?s0 = (s, r)"
    and fin: "(\<exists>v. r = Done v \<and> (t', ctx') = finish_success v s) \<or>
         (\<exists>e. (r = Blocked e \<or> r = Retry e) \<and> (t', ctx') = finish_failure (Some e) s)"
    using execute_cases [OF assms(1,2)] by blast
  have bounds: "at_attempts (fst s) \<le> ?n + 1" "0 < at_attempts (fst s)"
    using executor.loop_attempts_bounded [of env ?n ?s0] executor.loop_attempts_positive [of ?s0 env ?n] l
    by (simp_all add: start_state_def)
  have bi: "int (at_attempts (fst s)) \<le> min (at_max_retries t) (ap_max_retries (ac_policy ctx)) + 1"
    using bounds(1) assms(2) by (simp add: retries_for_def) linarith
  have rel: "loop_rel ?s0 s" and ret: "rm_retries (ac_metrics (snd s)) + 1 = rm_retries m + at_attempts (fst s)"
    using exec_loop_rel [of ?s0 env ?n] exec_loop_retries [of env ?n ?s0] l
    by (simp_all add: start_state_def m_def)
  have mm: "rm_tasks_total (ac_metrics (snd s)) = rm_tasks_total m + 1"
    "rm_tasks_succeeded (ac_metrics (snd s)) = rm_tasks_succeeded m"
    "rm_tasks_failed (ac_metrics (snd s)) = rm_tasks_failed m"
    using rel by (simp_all add: loop_rel_def task_frame_def start_state_def m_def)
  from fin consider v where "(t', ctx') = finish_success v s" | e where "(t', ctx') = finish_failure (Some e) s"
    by blast
  then show ?thesis
  proof cases
    case 1
    then have "t' = fst (finish_success v s)" "ctx' = snd (finish_success v s)" by (metis fst_conv snd_conv)+
    with bounds(2) bi ret mm show ?thesis by (simp add: finish_simps m'_def)
  next
    case 2
    then have "t' = fst (finish_failure (Some e) s)" "ctx' = snd (finish_failure (Some e) s)"
      by (metis fst_conv snd_conv)+
    with bounds(2) bi ret mm show ?thesis by (simp add: finish_simps m'_def)
  qed
qed

text \<open>
  An attempt that the policy blocks is the last one: when the first attempt is blocked the
  task fails after exactly one attempt with the policy's message and without a retry.
\<close>

theorem execute_policy_block_terminal:
  assumes "ps_steps (ac_pstate ctx) < ap_max_steps (ac_policy ctx)"
    and "0 \<le> retries_for (ac_policy ctx) (at_max_retries t)"
    and "snd (try_once env (start_state t ctx)) = Blocked m"
  shows "\<exists>t' ctx'. execute env t ctx = ((t', ctx'), None) \<and> at_status t' = TS_FAILED
    \<and> at_error t' = Some m \<and> at_attempts t' = 1
    \<and> rm_retries (ac_metrics ctx') = rm_retries (ac_metrics ctx)"
proof -
  let ?n = "nat (retries_for (ac_policy ctx) (at_max_retries t))"
  obtain s r where tr: "try_once env (start_state t ctx) = (s, r)" by fastforce
  with assms(3) have r: "r = Blocked m" by simp
  have "snd (check_step (ac_policy ctx) (ac_pstate ctx)) = None"
    using assms(1) check_step_counts by blast
  then obtain ps where ps: "check_step (ac_policy ctx) (ac_pstate ctx) = (ps, None)"
    by (metis prod.collapse)
  have "exec_loop env ?n (start_state t ctx) = (s, Blocked m)"
    using tr r by (simp add: executor.loop_stop)
  then have ex: "execute env t ctx = (finish_failure (Some m) s, None)"
    using assms(2) ps by (simp add: execute_def start_state_def Let_def)
  obtain t' ctx' where f: "finish_failure (Some m) s = (t', ctx')" by fastforce
  obtain t0 c0 where s0: "start_state t ctx = (t0, c0)" by fastforce
  have "quiet (t0\<lparr>at_attempts := Suc (at_attempts t0)\<rparr>, c0) s"
    using try_once_quiet tr s0 by simp
  then have "at_attempts (fst s) = 1" "rm_retries (ac_metrics (snd s)) = rm_retries (ac_metrics ctx)"
    using s0 by (auto simp: quiet_def same_task_def start_state_def)
  with ex f finish_simps(2,4) [of "Some m" s] show ?thesis by auto
qed

text \<open>A failure that was not a policy block used every attempt there was.\<close>

lemma execute_failed_exhausted:
  assumes "execute env t ctx = ((t', ctx'), None)" and "0 \<le> retries_for (ac_policy ctx) (at_max_retries t)"
    and "at_status t' = TS_FAILED"
    and "\<And>e. snd (exec_loop env (nat (retries_for (ac_policy ctx) (at_max_retries t))) (start_state t ctx)) \<noteq> Blocked e"
  shows "int (at_attempts t') = retries_for (ac_policy ctx) (at_max_retries t) + 1"
proof -
  let ?n = "nat (retries_for (ac_policy ctx) (at_max_retries t))" and ?s0 = "start_state t ctx"
  obtain s r where l: "exec_loop env ?n ?s0 = (s, r)"
    and fin: "(\<exists>v. r = Done v \<and> (t', ctx') = finish_success v s) \<or>
         (\<exists>e. (r = Blocked e \<or> r = Retry e) \<and> (t', ctx') = finish_failure (Some e) s)"
    using execute_cases [OF assms(1,2)] by blast
  from fin assms(3) have "\<not> (\<exists>v. r = Done v \<and> (t', ctx') = finish_success v s)"
    using finish_simps(1) [of _ s] by (auto dest!: arg_cong [where f = fst])
  with fin assms(4) l obtain e where e: "r = Retry e" "(t', ctx') = finish_failure (Some e) s" by auto
  then have "t' = fst (finish_failure (Some e) s)" by (metis fst_conv)
  with executor.loop_exhausted [of env ?n ?s0] l e assms(2) show ?thesis
    by (simp add: finish_simps start_state_def)
qed

section \<open>Witnesses\<close>

definition sample_env :: agent_env where
  \<comment> \<open>a model that is busy on the first call and answers \<open>ok\<close> for a cent afterwards\<close>
  "sample_env =
     \<lparr>env_llm = (\<lambda>n _ _ _. if n = 0 then LLM_Raises ''busy''
        else LLM_Reply \<lparr>lr_text = ''ok'', lr_input_tokens = 3, lr_output_tokens = 1, lr_cost_usd = 1 / 100\<rparr>),
      env_repr = (\<lambda>_. ''?''), env_hex = nat_digits, env_signal = (\<lambda>_. (False, False)),
      env_configure = Inr ([], [])\<rparr>"

definition sample_goal :: goal where
  "sample_goal = \<lparr>g_objective = ''ship'', g_priority = GP_NORMAL, g_deadline = None, g_constraints = [],
     g_expected_output = None, g_success_criteria = [], g_dependencies = [], g_status = GS_PENDING\<rparr>"

definition sample_config :: agent_config where
  "sample_config = \<lparr>cf_model = ''m'', cf_max_tokens = 100, cf_max_iterations = 6, cf_max_tasks = 25,
     cf_reflection_enabled = True, cf_evaluation_enabled = True, cf_system_prompt = None, cf_instructions = []\<rparr>"

definition sample_context :: agent_context where
  "sample_context =
     agent_context_init sample_goal sample_config [] [] [] (default_policy\<lparr>ap_forbidden_tools := [''rm'']\<rparr>)"

theorem execute_attempts_and_accounting_witness:
  "\<exists>t' ctx'. execute sample_env (sample_task ''a'' []) sample_context = ((t', ctx'), None)
     \<and> at_attempts t' \<ge> 1 \<and> int (at_attempts t') \<le> 3 \<and> rm_tasks_total (ac_metrics ctx') = 1"
proof -
  have "snd (execute sample_env (sample_task ''a'' []) sample_context) = None" by code_simp
  then obtain t' ctx' where e: "execute sample_env (sample_task ''a'' []) sample_context = ((t', ctx'), None)"
    by (metis prod.exhaust snd_conv)
  have r: "0 \<le> retries_for (ac_policy sample_context) (at_max_retries (sample_task ''a'' []))"
    by (simp add: retries_for_def sample_context_def agent_context_init_def sample_task_def agent_task_init_def default_policy_def)
  have k: "min (at_max_retries (sample_task ''a'' [])) (ap_max_retries (ac_policy sample_context)) + 1 = 3"
    by (simp add: sample_context_def agent_context_init_def sample_task_def agent_task_init_def default_policy_def)
  have "rm_tasks_total (ac_metrics sample_context) = 0" by (simp add: sample_context_def agent_context_init_def run_metrics_init_def)
  then show ?thesis using e execute_attempts_and_accounting [OF e r] unfolding k by auto
qed

theorem execute_policy_block_terminal_witness:
  "\<exists>t' ctx'. execute sample_env ((sample_task ''a'' [])\<lparr>at_kind := TK_TOOL, at_payload := [(''tool'', PStr ''rm'')]\<rparr>)
       sample_context = ((t', ctx'), None) \<and> at_status t' = TS_FAILED \<and> at_attempts t' = 1"
proof -
  let ?t = "(sample_task ''a'' [])\<lparr>at_kind := TK_TOOL, at_payload := [(''tool'', PStr ''rm'')]\<rparr>"
  have "snd (try_once sample_env (start_state ?t sample_context))
      = Blocked (''Tool '' @ quoted ''rm'' @ '' is not permitted by policy.'')"
    by code_simp
  moreover have "ps_steps (ac_pstate sample_context) < ap_max_steps (ac_policy sample_context)"
    "0 \<le> retries_for (ac_policy sample_context) (at_max_retries ?t)"
    by (simp_all add: retries_for_def sample_context_def agent_context_init_def sample_task_def agent_task_init_def
        default_policy_def policy_state_init_def)
  ultimately show ?thesis using execute_policy_block_terminal [of sample_context ?t sample_env] by blast
qed

end
