(* ===== verification/Agent_Run.thy ===== *)
theory Agent_Run
  imports Agent_Executor
begin

text \<open>
  A whole agent run: the planner (\<^verbatim>\<open>app/agents/planner/planner.py\<close>), the reflector
  (\<^verbatim>\<open>reflection/reflector.py\<close>), the evaluator (\<^verbatim>\<open>evaluation/evaluator.py\<close>) and \<^verbatim>\<open>BaseAgent\<close>
  (\<^verbatim>\<open>base/agent.py\<close>).

  The pause and cancel flags are set by other tasks while a run awaits. \<open>env_signal env i\<close> gives
  the pair (cancelled, paused) as the \<open>i\<close>-th pass of the execution loop finds it; no await lies
  between that test and the test \<^verbatim>\<open>run\<close> makes after the loop. \<open>env_configure\<close> is what the
  \<^verbatim>\<open>configure\<close> hook registers. A \<^verbatim>\<open>float\<close> score is the exact rational.
\<close>

section \<open>Planner\<close>

definition is_linebreak :: "char \<Rightarrow> bool" where
  "is_linebreak c \<longleftrightarrow> (let n = (of_char c :: nat) in (10 \<le> n \<and> n \<le> 13) \<or> (28 \<le> n \<and> n \<le> 30) \<or> n = 133)"

fun splitlines_from :: "string \<Rightarrow> string \<Rightarrow> string list" where
  "splitlines_from cur [] = (if cur = [] then [] else [cur])"
| "splitlines_from cur [c] = (if is_linebreak c then [cur] else [cur @ [c]])"
| "splitlines_from cur (c # d # s) =
     (if c = CHR 0x0D \<and> d = CHR 0x0A then cur # splitlines_from [] s
      else if is_linebreak c then cur # splitlines_from [] (d # s)
      else splitlines_from (cur @ [c]) (d # s))"

definition splitlines :: "string \<Rightarrow> string list" where
  "splitlines s = splitlines_from [] s"

definition strip_chars :: "string \<Rightarrow> string \<Rightarrow> string" where
  \<comment> \<open>\<open>s.strip(cs)\<close>\<close>
  "strip_chars cs s =
     rev (dropWhile (\<lambda>c. c \<in> set cs) (rev (dropWhile (\<lambda>c. c \<in> set cs) s)))"

definition clean_line :: "string \<Rightarrow> string" where
  "clean_line line = strip (strip_chars ''-*0123456789. '' line)"

definition outline :: "agent_env \<Rightarrow> agent_context \<Rightarrow> agent_context \<times> string list" where
  "outline env ctx =
     (case complete env False
            (PStr (''Break this goal into 3-6 short imperative steps, one per line:'' @ newline @
                   g_objective (ac_goal ctx)))
            (Some ''You are a planning assistant.'') ctx of
        (ctx', Inl _) \<Rightarrow> (ctx', [])
      | (ctx', Inr text) \<Rightarrow>
          (ctx', take 6 (filter (\<lambda>s. s \<noteq> [])
             (map clean_line (filter (\<lambda>l. strip l \<noteq> []) (splitlines text))))))"

definition work_key :: "nat \<Rightarrow> string" where
  "work_key i = ''work_'' @ nat_digits i"

definition work_sources :: "goal \<Rightarrow> string list \<Rightarrow> string list" where
  "work_sources goal steps =
     (if g_success_criteria goal \<noteq> [] then map sc_description (g_success_criteria goal)
      else if steps \<noteq> [] then steps else [''Work towards: '' @ g_objective goal])"

definition decompose :: "goal \<Rightarrow> agent_config \<Rightarrow> string list \<Rightarrow> task_graph" where
  "decompose goal cfg steps =
     (let understand = agent_task_init [] (''Understand the goal: '' @ g_objective goal) TK_REASON ''understand'' [] [];
          limit = nat (max 1 (cf_max_tasks cfg - 2));
          sources = take limit (work_sources goal steps);
          work = map (\<lambda>(i, d). agent_task_init [] d TK_REASON (work_key i) [''understand''] [])
                   (enumerate 0 sources);
          work_keys = map at_key work;
          synthesize = agent_task_init [] (''Synthesize the final result for: '' @ g_objective goal) TK_LLM
            ''synthesize'' (if work_keys \<noteq> [] then work_keys else [''understand''])
            [(''expected_output'', PStr (case g_expected_output goal of None \<Rightarrow> [] | Some s \<Rightarrow> s))]
      in graph_add synthesize (fold graph_add work (graph_add understand [])))"

definition plan :: "agent_env \<Rightarrow> agent_context \<Rightarrow> agent_context \<times> task_graph" where
  \<comment> \<open>\<open>Planner.plan\<close> with \<open>build_plan\<close>\<close>
  "plan env ctx =
     (case outline env ctx of (ctx', steps) \<Rightarrow>
        (let g = decompose (ac_goal ctx') (ac_config ctx') steps;
             rationale = ''Decomposed '' @ quoted (g_objective (ac_goal ctx')) @ '' into '' @ nat_digits (length g)
               @ '' tasks ('' @ nat_digits (length steps) @ '' outline steps).''
         in (ctx'\<lparr>ac_memory := remember ''agent'' ''plan_rationale'' (PStr rationale) (ac_memory ctx')\<rparr>, g)))"

definition recovery_task :: "agent_env \<Rightarrow> nat \<Rightarrow> task_graph \<Rightarrow> agent_task \<Rightarrow> agent_task" where
  "recovery_task env n g t =
     agent_task_init (env_hex env n) (''Recover from failed task: '' @ at_description t) TK_REASON []
       (filter (\<lambda>d. graph_get g d \<noteq> None) (at_depends_on t))
       [(''recovers'', PStr (at_key t)),
        (''reason'', PStr (if truthy (at_error t) then the (at_error t) else ''unknown''))]"

definition replan_one :: "agent_env \<Rightarrow> agent_task \<Rightarrow> task_graph \<times> nat \<Rightarrow> task_graph \<times> nat" where
  \<comment> \<open>\<open>task.log\<close> changes the failed task in place, unless the new task took its key\<close>
  "replan_one env t gn =
     (case gn of (g, n) \<Rightarrow>
        (let r = recovery_task env n g t; g' = graph_add r g
         in (if at_key r = at_key t then g'
             else graph_add (task_log (''replanned: added recovery task '' @ at_key r) t) g', Suc n)))"

definition replan :: "agent_env \<Rightarrow> task_graph \<Rightarrow> agent_context \<Rightarrow> task_graph \<times> agent_context" where
  "replan env g ctx =
     (let failed = filter (\<lambda>t. at_status t = TS_FAILED) (graph_tasks g);
          (g', n) = fold (replan_one env) failed (g, ac_ids ctx)
      in (g', ctx\<lparr>ac_ids := n\<rparr>))"

section \<open>Reflector\<close>

record reflection =
  rf_summary :: string
  rf_mistakes :: "string list"
  rf_lessons :: "string list"
  rf_improvements :: "string list"

definition py_iter :: "pyval \<Rightarrow> pyval list option" where
  \<comment> \<open>the items of an iterable\<close>
  "py_iter v = (case v of PList xs \<Rightarrow> Some xs | PTuple xs \<Rightarrow> Some xs | PStr s \<Rightarrow> Some (map (\<lambda>c. PStr [c]) s)
     | PDict d \<Rightarrow> Some (map (PStr \<circ> fst) d) | _ \<Rightarrow> None)"

definition reflect_prompt :: "nat \<Rightarrow> nat \<Rightarrow> agent_context \<Rightarrow> string" where
  "reflect_prompt succeeded failed ctx =
     ''Goal: '' @ g_objective (ac_goal ctx) @ newline @ ''Succeeded: '' @ nat_digits succeeded
     @ '' tasks, Failed: '' @ nat_digits failed @ '' tasks.'' @ newline @ newline
     @ ''List 2-4 concise lessons to improve future runs, one per line.''"

definition reflect_on :: "agent_env \<Rightarrow> task_graph \<Rightarrow> agent_context \<Rightarrow> agent_context \<times> (agent_exc + reflection)" where
  "reflect_on env g ctx =
     (let succeeded = filter (\<lambda>t. at_status t = TS_SUCCEEDED) (graph_tasks g);
          failed = filter (\<lambda>t. at_status t = TS_FAILED) (graph_tasks g);
          summary = nat_digits (length succeeded) @ ''/'' @ nat_digits (length (graph_tasks g))
            @ '' tasks succeeded, '' @ nat_digits (length failed) @ '' failed.'';
          mistakes = map (\<lambda>t. ''Task '' @ quoted (at_description t) @ '' failed: ''
            @ (if truthy (at_error t) then the (at_error t) else ''unknown error'')) failed;
          (ctx', answer) = complete env False (PStr (reflect_prompt (length succeeded) (length failed) ctx))
            (Some ''You are a reflective post-mortem assistant.'') ctx;
          lessons = (case answer of Inl _ \<Rightarrow> []
            | Inr text \<Rightarrow> filter (\<lambda>s. s \<noteq> []) (map clean_line (splitlines text)));
          r = \<lparr>rf_summary = summary, rf_mistakes = mistakes, rf_lessons = lessons,
               rf_improvements = (if failed \<noteq> [] then
                 [''Add validation or fallback handling for the failed tasks.''] else [])\<rparr>;
          stored = recall (ac_memory ctx') ''agent'' ''lessons''
      in case (if py_truth stored then py_iter stored else Some []) of
           None \<Rightarrow> (ctx', Inl (AgentExc ''lessons''))
         | Some existing \<Rightarrow>
             (ctx'\<lparr>ac_memory := remember ''agent'' ''lessons''
                (PList (take 50 (existing @ map PStr lessons))) (ac_memory ctx')\<rparr>, Inr r))"

section \<open>Evaluator\<close>

record evaluation =
  ev_correctness :: rat
  ev_completeness :: rat
  ev_cost :: rat
  ev_latency :: rat
  ev_quality :: rat
  ev_confidence :: rat
  ev_notes :: "string list"

definition overall :: "evaluation \<Rightarrow> rat" where
  "overall e = py_round 4
     (30 / 100 * ev_correctness e + 25 / 100 * ev_completeness e + 15 / 100 * ev_quality e
      + 10 / 100 * ev_cost e + 10 / 100 * ev_latency e + 10 / 100 * ev_confidence e)"

definition evaluate_run :: "task_graph \<Rightarrow> agent_context \<Rightarrow> evaluation" where
  "evaluate_run g ctx =
     (let tasks = graph_tasks g;
          total = (if tasks = [] then 1 else of_nat (length tasks) :: rat);
          succeeded = length (filter (\<lambda>t. at_status t = TS_SUCCEEDED) tasks);
          failed = length (filter (\<lambda>t. at_status t = TS_FAILED) tasks);
          correctness = 1 - of_nat failed / total;
          completeness = of_nat succeeded / total;
          budget = (if ap_max_cost_usd (ac_policy ctx) = 0 then 1 else ap_max_cost_usd (ac_policy ctx));
          cost = max 0 (1 - min (rm_cost_usd (ac_metrics ctx) / budget) 1);
          secs = rm_latency_ms (ac_metrics ctx) / 1000;
          latency = (if secs > 5 then max 0 (min 1 (1 - (secs - 5) / 55)) else 1);
          quality = py_round 4 ((correctness + completeness) / 2);
          confidence = py_round 4 (completeness * (1 / 2 + 1 / 2 * correctness))
      in \<lparr>ev_correctness = py_round 4 correctness, ev_completeness = py_round 4 completeness,
          ev_cost = py_round 4 cost, ev_latency = py_round 4 latency, ev_quality = quality,
          ev_confidence = confidence,
          ev_notes = (if failed > 0 then [nat_digits failed @ '' task(s) failed.''] else [])
            @ [''$'' @ fixed 4 (rm_cost_usd (ac_metrics ctx)) @ '' spent of $'' @ fixed 2 budget @ '' budget.'']\<rparr>)"

section \<open>The agent\<close>

record run_vars =
  \<comment> \<open>the agent's state and the local variables of \<open>run\<close>\<close>
  rv_state :: agent_state
  rv_ctx :: agent_context
  rv_graph :: task_graph
  rv_passes :: nat
  rv_reflection :: "reflection option"
  rv_evaluation :: "evaluation option"

type_synonym run_outcome = "run_vars \<times> string option"

definition andthen :: "run_outcome \<Rightarrow> (run_vars \<Rightarrow> run_outcome) \<Rightarrow> run_outcome" where
  "andthen r f = (case r of (v, None) \<Rightarrow> f v | (v, Some e) \<Rightarrow> (v, Some e))"

fun exc_text :: "agent_exc \<Rightarrow> string" where
  "exc_text (PolicyViolation m) = m" | "exc_text (ApprovalRequired m) = m"
| "exc_text TimedOut = []" | "exc_text (AgentExc m) = m"

definition goto :: "agent_state \<Rightarrow> run_vars \<Rightarrow> run_outcome" where
  "goto target v =
     (case transition (rv_state v) target of
        Inl x \<Rightarrow> (v, Some (invalid_transition_message x))
      | Inr s \<Rightarrow> (v\<lparr>rv_state := s\<rparr>, None))"

definition set_goal_status :: "goal_status \<Rightarrow> run_vars \<Rightarrow> run_vars" where
  "set_goal_status gs v = v\<lparr>rv_ctx := (rv_ctx v)\<lparr>ac_goal := (ac_goal (rv_ctx v))\<lparr>g_status := gs\<rparr>\<rparr>\<rparr>"

definition configure :: "agent_env \<Rightarrow> run_vars \<Rightarrow> run_outcome" where
  "configure env v =
     (case env_configure env of
        Inl m \<Rightarrow> (v, Some m)
      | Inr (tools, entries) \<Rightarrow>
          (case tool_register_all tools (ac_tools (rv_ctx v)) of
             Inl m \<Rightarrow> (v, Some m)
           | Inr r \<Rightarrow> (v\<lparr>rv_ctx := (rv_ctx v)\<lparr>ac_tools := r, ac_knowledge := ac_knowledge (rv_ctx v) @ entries\<rparr>\<rparr>, None)))"

definition initialize :: "agent_env \<Rightarrow> string \<Rightarrow> run_vars \<Rightarrow> run_outcome" where
  "initialize env slug v =
     andthen (goto AS_INITIALIZING v) (\<lambda>v.
     andthen (configure env v) (\<lambda>v.
     goto AS_IDLE (v\<lparr>rv_ctx := publish (EV_AgentStarted slug (g_objective (ac_goal (rv_ctx v)))) (rv_ctx v)\<rparr>)))"

definition plan_stage :: "agent_env \<Rightarrow> run_vars \<Rightarrow> run_outcome" where
  "plan_stage env v =
     andthen (goto AS_PLANNING v) (\<lambda>v.
     case plan env (rv_ctx v) of (ctx, g) \<Rightarrow> (v\<lparr>rv_ctx := ctx, rv_graph := g\<rparr>, None))"

fun run_ready :: "agent_env \<Rightarrow> string list \<Rightarrow> run_vars \<Rightarrow> run_outcome" where
  \<comment> \<open>the \<open>for\<close> over the ready tasks, each looked up under its key\<close>
  "run_ready env [] v = (v, None)"
| "run_ready env (k # ks) v =
     (case dict_get (rv_graph v) k of
        None \<Rightarrow> run_ready env ks v
      | Some t \<Rightarrow>
          (case execute env t (rv_ctx v) of
             ((t', ctx'), x) \<Rightarrow>
               (let v' = v\<lparr>rv_ctx := ctx', rv_graph := dict_set k t' (rv_graph v)\<rparr>
                in case x of Some e \<Rightarrow> (v', Some (exc_text e)) | None \<Rightarrow> run_ready env ks v')))"

definition replan_stage :: "agent_env \<Rightarrow> run_vars \<Rightarrow> run_vars" where
  "replan_stage env v =
     (if has_failure (rv_graph v) \<and> cf_reflection_enabled (ac_config (rv_ctx v))
      then (case replan env (rv_graph v) (rv_ctx v) of (g, ctx) \<Rightarrow> v\<lparr>rv_graph := g, rv_ctx := ctx\<rparr>)
      else v)"

fun exec_passes :: "agent_env \<Rightarrow> nat \<Rightarrow> run_vars \<Rightarrow> run_outcome" where
  \<comment> \<open>\<open>n\<close> passes are left of \<open>max_iterations\<close>\<close>
  "exec_passes env 0 v = (v, None)"
| "exec_passes env (Suc n) v =
     (if is_complete (rv_graph v) then (v, None)
      else (case env_signal env (rv_passes v) of (cancelled, paused) \<Rightarrow>
        if cancelled then (v, None)
        else if paused then (v\<lparr>rv_state := AS_PAUSED\<rparr>, None)
        else if ready (rv_graph v) = [] then (v, None)
        else andthen (run_ready env (map at_key (ready (rv_graph v))) v) (\<lambda>v.
             let v' = replan_stage env v in exec_passes env n (v'\<lparr>rv_passes := rv_passes v' + 1\<rparr>))))"

definition execute_stage :: "agent_env \<Rightarrow> run_vars \<Rightarrow> run_outcome" where
  "execute_stage env v =
     andthen (goto AS_EXECUTING v) (\<lambda>v.
     exec_passes env (nat (cf_max_iterations (ac_config (rv_ctx v)))) v)"

definition reflect_stage :: "agent_env \<Rightarrow> run_vars \<Rightarrow> run_outcome" where
  \<comment> \<open>\<open>reflect\<close> followed by \<open>learn\<close>\<close>
  "reflect_stage env v =
     andthen (goto AS_REFLECTING v) (\<lambda>v.
     case reflect_on env (rv_graph v) (rv_ctx v) of
       (ctx, Inl x) \<Rightarrow> (v\<lparr>rv_ctx := ctx\<rparr>, Some (exc_text x))
     | (ctx, Inr r) \<Rightarrow>
         (v\<lparr>rv_reflection := Some r,
            rv_ctx := ctx\<lparr>ac_memory := remember ''agent'' ''last_reflection'' (PStr (rf_summary r)) (ac_memory ctx)\<rparr>\<rparr>,
          None))"

definition finish :: "run_vars \<Rightarrow> run_outcome" where
  "finish v =
     (if has_failure (rv_graph v) \<and> \<not> list_ex (\<lambda>t. at_status t = TS_SUCCEEDED) (graph_tasks (rv_graph v))
      then goto AS_FAILED (set_goal_status GS_FAILED v)
      else (let v' = set_goal_status GS_COMPLETED v
            in (if can_transition (rv_state v') AS_COMPLETED then v'\<lparr>rv_state := AS_COMPLETED\<rparr> else v', None)))"

definition after_execute :: "agent_env \<Rightarrow> run_vars \<Rightarrow> run_outcome" where
  "after_execute env v =
     (if fst (env_signal env (rv_passes v))
      then (set_goal_status GS_CANCELLED (v\<lparr>rv_state := AS_CANCELLED\<rparr>), None)
      else andthen (if cf_reflection_enabled (ac_config (rv_ctx v)) then reflect_stage env v else (v, None)) (\<lambda>v.
           finish (if cf_evaluation_enabled (ac_config (rv_ctx v))
                   then v\<lparr>rv_evaluation := Some (evaluate_run (rv_graph v) (rv_ctx v))\<rparr> else v)))"

definition run_stages :: "agent_env \<Rightarrow> string \<Rightarrow> run_vars \<Rightarrow> run_outcome" where
  \<comment> \<open>the body of the \<open>try\<close>\<close>
  "run_stages env slug v =
     andthen (initialize env slug v) (\<lambda>v.
     andthen (plan_stage env v) (\<lambda>v.
     andthen (execute_stage env v) (after_execute env)))"

definition final_output :: "agent_env \<Rightarrow> task_graph \<Rightarrow> string + string" where
  "final_output env g =
     (let synth = (case graph_get g ''synthesize'' of None \<Rightarrow> PNone | Some t \<Rightarrow> at_result t)
      in if py_truth synth then Inr (py_str (env_repr env) synth)
         else (case topological_order g of
                 Inl e \<Rightarrow> Inl e
               | Inr ts \<Rightarrow>
                   (let succeeded = filter (\<lambda>t. at_status t = TS_SUCCEEDED) ts
                    in Inr (if succeeded \<noteq> [] \<and> py_truth (at_result (last succeeded))
                            then py_str (env_repr env) (at_result (last succeeded))
                            else ''No output produced.''))))"

record agent_run_result =
  ar_state :: agent_state
  ar_output :: string
  ar_goal_status :: goal_status
  ar_metrics :: run_metrics
  ar_graph :: task_graph
  ar_reflection :: "reflection option"
  ar_evaluation :: "evaluation option"
  ar_error :: "string option"
  ar_reasoning_log :: "string list"
  ar_events :: "agent_event list"

definition publish_terminal :: "string \<Rightarrow> agent_state \<Rightarrow> agent_context \<Rightarrow> agent_context" where
  "publish_terminal slug st ctx =
     publish (EV_AgentStopped slug (agent_state_value st))
       (if g_status (ac_goal ctx) = GS_COMPLETED then publish (EV_GoalCompleted slug) ctx
        else if g_status (ac_goal ctx) = GS_FAILED then publish (EV_GoalFailed slug ''run failed'') ctx
        else ctx)"

definition run_agent :: "agent_env \<Rightarrow> string \<Rightarrow> agent_state \<Rightarrow> agent_context \<Rightarrow> string + agent_run_result" where
  \<comment> \<open>\<open>BaseAgent.run\<close> of an agent in state \<open>st\<close>, on a freshly built context; \<open>Inl\<close> when the
     exception of \<open>final_output\<close> leaves it\<close>
  "run_agent env slug st ctx =
     (let v0 = set_goal_status GS_ACTIVE \<lparr>rv_state = st, rv_ctx = ctx, rv_graph = [], rv_passes = 0,
                 rv_reflection = None, rv_evaluation = None\<rparr>;
          (v1, err) = run_stages env slug v0;
          v = (case err of None \<Rightarrow> v1 | Some _ \<Rightarrow> set_goal_status GS_FAILED (v1\<lparr>rv_state := AS_FAILED\<rparr>))
      in case (if rv_graph v = [] then Inr ''No output.'' else final_output env (rv_graph v)) of
           Inl e \<Rightarrow> Inl e
         | Inr out \<Rightarrow>
             (let ctx' = publish_terminal slug (rv_state v) (rv_ctx v)
              in Inr \<lparr>ar_state = rv_state v, ar_output = out, ar_goal_status = g_status (ac_goal ctx'),
                      ar_metrics = ac_metrics ctx', ar_graph = rv_graph v, ar_reflection = rv_reflection v,
                      ar_evaluation = rv_evaluation v, ar_error = err,
                      ar_reasoning_log = map (py_str (env_repr env) \<circ> snd) (scope_items (ac_memory ctx') ''short_term''),
                      ar_events = ac_events ctx'\<rparr>))"

section \<open>Valid graphs\<close>

definition graph_good :: "task_graph \<Rightarrow> bool" where
  \<comment> \<open>keyed, no dependency twice, every dependency a task of the graph, acyclic\<close>
  "graph_good g \<longleftrightarrow> graph_keyed g \<and> deps_distinct g \<and> acyclic (dep_rel g)
     \<and> (\<forall>t \<in> set (graph_tasks g). set (at_depends_on t) \<subseteq> set (keys g))"

lemma graph_good_Nil [simp]: "graph_good []"
  by (simp add: graph_good_def deps_distinct_def graph_tasks_def dep_rel_def acyclic_def)

lemma dep_rel_iff:
  "p \<in> dep_rel g \<longleftrightarrow> (\<exists>t \<in> set (graph_tasks g). snd p = at_key t \<and> fst p \<in> set (at_depends_on t) \<and> fst p \<in> set (keys g))"
  by (cases p) (auto simp: dep_rel_def)

lemma acyclic_add_sink:
  assumes "acyclic R" and "\<And>x. (r, x) \<notin> R \<union> S" and "\<And>x y. (x, y) \<in> S \<Longrightarrow> y = r"
  shows "acyclic (R \<union> S)"
proof -
  have step: "(x, y) \<in> R\<^sup>+ \<or> y = r" if "(x, y) \<in> (R \<union> S)\<^sup>+" for x y
    using that
  proof (induction rule: trancl_induct)
    case (base y)
    then show ?case using assms(3) by blast
  next
    case (step y z)
    have "y \<noteq> r" using step.hyps(2) assms(2) by blast
    with step show ?case using assms(3) by (blast intro: trancl_into_trancl)
  qed
  have "(x, x) \<notin> (R \<union> S)\<^sup>+" for x
  proof
    assume c: "(x, x) \<in> (R \<union> S)\<^sup>+"
    from tranclD [OF c] assms(2) have "x \<noteq> r" by blast
    with step [OF c] assms(1) show False by (auto simp: acyclic_def)
  qed
  then show ?thesis by (simp add: acyclic_def)
qed

lemma dict_set_new: "k \<notin> fst ` set d \<Longrightarrow> dict_set k v d = d @ [(k, v)]"
  by (induction d) auto

lemma graph_add_new:
  assumes g: "graph_good g" and new: "at_key t \<notin> set (keys g)" and "distinct (at_depends_on t)"
    and deps: "set (at_depends_on t) \<subseteq> set (keys g)"
  shows "graph_good (graph_add t g)"
proof -
  have e: "graph_add t g = g @ [(at_key t, t)]" using new by (simp add: graph_add_def dict_set_new)
  have closed: "set (at_depends_on u) \<subseteq> set (keys g)" if "u \<in> set (graph_tasks g)" for u
    using g that by (simp add: graph_good_def)
  have rel: "dep_rel (graph_add t g) = dep_rel g \<union> (\<lambda>d. (d, at_key t)) ` set (at_depends_on t)"
  proof (rule set_eqI)
    fix p
    have "graph_tasks (graph_add t g) = graph_tasks g @ [t]" "set (keys (graph_add t g)) = insert (at_key t) (set (keys g))"
      by (auto simp: e graph_tasks_def)
    with deps closed show "p \<in> dep_rel (graph_add t g) \<longleftrightarrow>
        p \<in> dep_rel g \<union> (\<lambda>d. (d, at_key t)) ` set (at_depends_on t)"
      unfolding dep_rel_iff Un_iff image_iff by (cases p) (simp, blast)
  qed
  have "acyclic (dep_rel g \<union> (\<lambda>d. (d, at_key t)) ` set (at_depends_on t))"
    using g new deps closed by (intro acyclic_add_sink [where r = "at_key t"]) (auto simp: graph_good_def dep_rel_def)
  moreover have "graph_keyed (graph_add t g)" using g by (simp add: graph_good_def)
  moreover have "deps_distinct (graph_add t g)"
    using g assms(3) by (simp add: e graph_good_def deps_distinct_def graph_tasks_def)
  moreover have "\<forall>u \<in> set (graph_tasks (graph_add t g)). set (at_depends_on u) \<subseteq> set (keys (graph_add t g))"
    using deps closed by (auto simp: e graph_tasks_def)
  ultimately show ?thesis by (simp add: graph_good_def rel)
qed

lemma keys_graph_add [simp]: "fst ` set (graph_add t g) = insert (at_key t) (fst ` set g)"
  by (simp add: graph_add_def)

lemma graph_add_same:
  \<comment> \<open>replacing a task by one with the same key and dependencies\<close>
  assumes g: "graph_good g" and old: "dict_get g (at_key t) = Some u"
    and deps: "at_depends_on t = at_depends_on u"
  shows "graph_good (graph_add t g) \<and> set (keys (graph_add t g)) = set (keys g)"
proof -
  have gk: "graph_keyed g" and gk': "graph_keyed (graph_add t g)" using g by (simp_all add: graph_good_def)
  have u: "u \<in> set (graph_tasks g)" "at_key u = at_key t" using graph_keyed_get [OF gk] old by auto
  have ks: "set (keys (graph_add t g)) = set (keys g)"
    using old dict_get_in_keys [OF old] by auto
  have get: "dict_get (graph_add t g) k = (if k = at_key t then Some t else dict_get g k)" for k
    by (simp add: graph_add_def dict_get_set)
  have ts: "(\<exists>x \<in> set (graph_tasks (graph_add t g)). P (at_key x) (at_depends_on x)) \<longleftrightarrow>
      (\<exists>x \<in> set (graph_tasks g). P (at_key x) (at_depends_on x))" for P
  proof -
    have "(\<exists>x \<in> set (graph_tasks h). P (at_key x) (at_depends_on x)) \<longleftrightarrow>
        (\<exists>k x. dict_get h k = Some x \<and> P k (at_depends_on x))" if "graph_keyed h" for h
      using graph_keyed_get [OF that] by auto
    note all = this
    show ?thesis unfolding all [OF gk] all [OF gk']
    proof (intro iffI; elim exE conjE)
      fix k x assume "dict_get (graph_add t g) k = Some x" "P k (at_depends_on x)"
      then show "\<exists>k x. dict_get g k = Some x \<and> P k (at_depends_on x)"
        using old deps get [of k] by (cases "k = at_key t") auto
    next
      fix k x assume "dict_get g k = Some x" "P k (at_depends_on x)"
      then show "\<exists>k x. dict_get (graph_add t g) k = Some x \<and> P k (at_depends_on x)"
        using old deps get [of k] by (intro exI [of _ k] exI [of _ "if k = at_key t then t else x"]) auto
    qed
  qed
  have rel: "dep_rel (graph_add t g) = dep_rel g"
  proof (rule set_eqI)
    fix p
    show "p \<in> dep_rel (graph_add t g) \<longleftrightarrow> p \<in> dep_rel g"
      using ts [of "\<lambda>k ds. snd p = k \<and> fst p \<in> set ds \<and> fst p \<in> set (keys g)"]
      by (simp only: dep_rel_iff ks)
  qed
  have "deps_distinct (graph_add t g)"
    using ts [of "\<lambda>k ds. \<not> distinct ds"] g by (auto simp: graph_good_def deps_distinct_def list_all_iff)
  moreover have "\<forall>x \<in> set (graph_tasks (graph_add t g)). set (at_depends_on x) \<subseteq> set (keys g)"
    using ts [of "\<lambda>k ds. \<not> set ds \<subseteq> set (keys g)"] g by (auto simp: graph_good_def)
  ultimately show ?thesis using g gk' ks by (simp add: graph_good_def rel)
qed

section \<open>The planner's graph\<close>

lemma agent_task_init_simps [simp]:
  "at_key (agent_task_init h d k key ds p) = (if key = [] then take 8 h else key)"
  "at_depends_on (agent_task_init h d k key ds p) = ds"
  "at_status (agent_task_init h d k key ds p) = TS_PENDING"
  by (simp_all add: agent_task_init_def)

lemma work_key_neq [simp]:
  "work_key i \<noteq> []" "work_key i \<noteq> ''understand''" "work_key i \<noteq> ''synthesize''"
  "''understand'' \<noteq> work_key i" "''synthesize'' \<noteq> work_key i"
  by (simp_all add: work_key_def)

lemma work_key_inj [simp]: "work_key i = work_key j \<longleftrightarrow> i = j"
  by (simp add: work_key_def)

definition work_task :: "nat \<times> string \<Rightarrow> agent_task" where
  "work_task = (\<lambda>(i, d). agent_task_init [] d TK_REASON (work_key i) [''understand''] [])"

lemma work_graph:
  assumes "graph_good g" and "''understand'' \<in> set (keys g)" and "\<forall>i \<ge> n. work_key i \<notin> set (keys g)"
  shows "graph_good (fold graph_add (map work_task (enumerate n ds)) g)
    \<and> keys (fold graph_add (map work_task (enumerate n ds)) g) = keys g @ map work_key [n..<n + length ds]"
  using assms
proof (induction ds arbitrary: n g)
  case (Cons d ds)
  let ?t = "work_task (n, d)"
  have k: "at_key ?t = work_key n" and dp: "at_depends_on ?t = [''understand'']"
    by (simp_all add: work_task_def)
  have e: "graph_add ?t g = g @ [(work_key n, ?t)]"
    using Cons.prems(3) by (simp add: graph_add_def k dict_set_new)
  have good: "graph_good (graph_add ?t g)"
    using Cons.prems by (intro graph_add_new) (simp_all add: k dp)
  have "\<forall>i \<ge> Suc n. work_key i \<notin> set (keys (graph_add ?t g))"
    using Cons.prems(3) by (simp add: k)
  note IH = Cons.IH [OF good _ this]
  have "map work_key [n..<n + length (d # ds)] = work_key n # map work_key [Suc n..<Suc n + length ds]"
    by (simp add: upt_conv_Cons del: upt_Suc)
  with IH Cons.prems(2) show ?case by (simp add: e del: upt_Suc)
qed simp

lemma decompose_good:
  fixes steps :: "string list" and goal :: goal and cfg :: agent_config
  defines "n \<equiv> length (take (nat (max 1 (cf_max_tasks cfg - 2))) (work_sources goal steps))"
  shows "graph_good (decompose goal cfg steps) \<and>
    keys (decompose goal cfg steps) = [''understand''] @ map work_key [0..<n] @ [''synthesize'']"
proof -
  define ds where "ds = take (nat (max 1 (cf_max_tasks cfg - 2))) (work_sources goal steps)"
  define u where "u = agent_task_init [] (''Understand the goal: '' @ g_objective goal) TK_REASON ''understand'' [] []"
  define g1 where "g1 = fold graph_add (map work_task (enumerate 0 ds)) (graph_add u [])"
  define wk where "wk = map at_key (map work_task (enumerate 0 ds))"
  define sy where "sy = agent_task_init [] (''Synthesize the final result for: '' @ g_objective goal) TK_LLM
            ''synthesize'' (if wk \<noteq> [] then wk else [''understand''])
            [(''expected_output'', PStr (case g_expected_output goal of None \<Rightarrow> [] | Some s \<Rightarrow> s))]"
  have d: "decompose goal cfg steps = graph_add sy g1"
    by (simp add: decompose_def Let_def work_task_def [symmetric] g1_def u_def sy_def wk_def ds_def)
  have "graph_good (graph_add u [])" by (intro graph_add_new) (simp_all add: u_def)
  moreover have ku: "keys (graph_add u []) = [''understand'']" by (simp add: graph_add_def u_def)
  ultimately have g1: "graph_good g1" "keys g1 = ''understand'' # map work_key [0..<length ds]"
    using work_graph [of "graph_add u []" 0 ds] by (simp_all add: g1_def del: keys_graph_add)
  have wk: "wk = map work_key [0..<length ds]"
    by (auto simp: wk_def work_task_def enumerate_eq_zip map_nth intro!: nth_equalityI)
  have new: "at_key sy \<notin> set (keys g1)" unfolding g1(2) by (auto simp: sy_def)
  have "graph_good (graph_add sy g1)"
  proof (rule graph_add_new [OF g1(1) new])
    show "distinct (at_depends_on sy)" by (simp add: sy_def wk distinct_map inj_on_def)
    show "set (at_depends_on sy) \<subseteq> set (keys g1)" unfolding g1(2) by (auto simp: sy_def wk)
  qed
  moreover have "keys (graph_add sy g1) = keys g1 @ [''synthesize'']"
    using new by (simp add: graph_add_def dict_set_new sy_def)
  ultimately show ?thesis by (simp add: d g1(2) n_def ds_def)
qed

text \<open>
  C7: whatever the goal and the outline, the planner's graph is well formed: at least three tasks
  and at most \<open>max 3 max_tasks\<close>, keys and dependencies without repetition, every dependency a task
  of the graph, and no cycle.
\<close>

theorem decompose_valid:
  "graph_good (decompose goal cfg steps) \<and> 3 \<le> length (decompose goal cfg steps)
   \<and> int (length (decompose goal cfg steps)) \<le> max 3 (cf_max_tasks cfg)"
proof -
  note g = decompose_good [of goal cfg steps]
  have "length (decompose goal cfg steps) = length (keys (decompose goal cfg steps))" by simp
  also have "\<dots> = 2 + length (take (nat (max 1 (cf_max_tasks cfg - 2))) (work_sources goal steps))"
    using conjunct2 [OF g] by (simp only: length_append length_map length_upt list.size)
  finally have len: "length (decompose goal cfg steps)
      = 2 + min (length (work_sources goal steps)) (nat (max 1 (cf_max_tasks cfg - 2)))" by simp
  have "work_sources goal steps \<noteq> []" by (simp add: work_sources_def)
  then have "0 < length (work_sources goal steps)" by simp
  then have "3 \<le> length (decompose goal cfg steps)"
    "int (length (decompose goal cfg steps)) \<le> max 3 (cf_max_tasks cfg)"
    unfolding len by linarith+
  with g show ?thesis by simp
qed

section \<open>What every stage of a run keeps\<close>

definition hex_key :: "agent_env \<Rightarrow> nat \<Rightarrow> string" where
  "hex_key env n = take 8 (env_hex env n)"

definition planned_keys :: "string set" where
  "planned_keys = {''understand'', ''synthesize''} \<union> range work_key"

definition fresh_ids :: "agent_env \<Rightarrow> nat \<Rightarrow> bool" where
  \<comment> \<open>the first \<open>n\<close> generated keys differ from each other and from the planner's own\<close>
  "fresh_ids env n \<longleftrightarrow> inj_on (hex_key env) {..<n} \<and> hex_key env ` {..<n} \<inter> planned_keys = {}"

definition failed_count :: "task_graph \<Rightarrow> nat" where
  "failed_count g = length (filter (\<lambda>t. at_status t = TS_FAILED) (graph_tasks g))"

lemma failed_count_set:
  "failed_count (dict_set k t g) \<le> failed_count g + (if at_status t = TS_FAILED then 1 else 0)"
  by (induction g) (auto simp: failed_count_def graph_tasks_def split: if_splits)

lemma failed_count_same:
  "dict_get g k = Some u \<Longrightarrow> at_status t = at_status u \<Longrightarrow> failed_count (dict_set k t g) = failed_count g"
  by (induction g) (auto simp: failed_count_def graph_tasks_def split: if_splits)

definition acct :: "agent_policy \<Rightarrow> agent_context \<Rightarrow> bool" where
  \<comment> \<open>each started task ended and was counted once, within the step limit of the policy\<close>
  "acct p ctx \<longleftrightarrow> ac_policy ctx = p
     \<and> rm_tasks_total (ac_metrics ctx) = rm_tasks_succeeded (ac_metrics ctx) + rm_tasks_failed (ac_metrics ctx)
     \<and> int (rm_tasks_total (ac_metrics ctx)) \<le> ps_steps (ac_pstate ctx)
     \<and> int (rm_tasks_total (ac_metrics ctx)) \<le> max 0 (ap_max_steps p)
     \<and> accounts_agree ctx \<and> rm_latency_ms (ac_metrics ctx) = 0"

definition run_ok :: "agent_env \<Rightarrow> agent_policy \<Rightarrow> run_vars \<Rightarrow> bool" where
  "run_ok env p v \<longleftrightarrow> graph_good (rv_graph v)
     \<and> set (keys (rv_graph v)) \<subseteq> planned_keys \<union> hex_key env ` {..<ac_ids (rv_ctx v)}
     \<and> acct p (rv_ctx v)
     \<and> failed_count (rv_graph v) \<le> rm_tasks_failed (ac_metrics (rv_ctx v))
     \<and> ac_ids (rv_ctx v) \<le> nat (ap_max_steps p) * rv_passes v
     \<and> (case rv_evaluation v of None \<Rightarrow> True | Some e \<Rightarrow> ev_latency e = 1)"

lemma run_ok_state [simp]: "run_ok env p (v\<lparr>rv_state := s\<rparr>) = run_ok env p v"
  by (simp add: run_ok_def)

lemma acct_failed_le: "acct p ctx \<Longrightarrow> rm_tasks_failed (ac_metrics ctx) \<le> nat (ap_max_steps p)"
  by (auto simp: acct_def)

lemma run_ok_reflection [simp]: "run_ok env p (v\<lparr>rv_reflection := n\<rparr>) = run_ok env p v"
  by (simp add: run_ok_def)

lemma run_ok_ctx:
  "run_ok env p v \<Longrightarrow> acct p ctx \<Longrightarrow> ac_ids ctx = ac_ids (rv_ctx v) \<Longrightarrow>
   rm_tasks_failed (ac_metrics ctx) = rm_tasks_failed (ac_metrics (rv_ctx v)) \<Longrightarrow> run_ok env p (v\<lparr>rv_ctx := ctx\<rparr>)"
  by (simp add: run_ok_def)

lemma acct_simps [simp]:
  "acct p (ctx\<lparr>ac_memory := m\<rparr>) = acct p ctx" "acct p (ctx\<lparr>ac_goal := g\<rparr>) = acct p ctx"
  "acct p (ctx\<lparr>ac_events := es\<rparr>) = acct p ctx" "acct p (ctx\<lparr>ac_tools := ts, ac_knowledge := k\<rparr>) = acct p ctx"
  "acct p (ctx\<lparr>ac_ids := n\<rparr>) = acct p ctx" "acct p (publish e ctx) = acct p ctx"
  by (simp_all add: acct_def accounts_agree_def publish_def)

lemma publish_simps [simp]:
  "ac_ids (publish e ctx) = ac_ids ctx" "ac_goal (publish e ctx) = ac_goal ctx"
  "ac_config (publish e ctx) = ac_config ctx" "ac_metrics (publish e ctx) = ac_metrics ctx"
  "ac_policy (publish e ctx) = ac_policy ctx" "ac_pstate (publish e ctx) = ac_pstate ctx"
  "ac_memory (publish e ctx) = ac_memory ctx"
  by (simp_all add: publish_def)

lemma complete_acct:
  assumes "complete env timed q sys ctx = (ctx', r)"
  shows "acct p ctx \<Longrightarrow> acct p ctx'" and "ac_ids ctx' = ac_ids ctx" and "ac_config ctx' = ac_config ctx"
    and "ac_goal ctx' = ac_goal ctx" and "rm_tasks_failed (ac_metrics ctx') = rm_tasks_failed (ac_metrics ctx)"
  using complete_frame [of ctx env timed q sys] complete_accounts [of ctx env timed q sys] assms
  by (auto simp: acct_def frame_def)

lemma finish_fields:
  "ac_policy (snd (finish_success v s)) = ac_policy (snd s)" "ac_policy (snd (finish_failure e s)) = ac_policy (snd s)"
  "ac_pstate (snd (finish_success v s)) = ac_pstate (snd s)" "ac_pstate (snd (finish_failure e s)) = ac_pstate (snd s)"
  "ac_ids (snd (finish_success v s)) = ac_ids (snd s)" "ac_ids (snd (finish_failure e s)) = ac_ids (snd s)"
  "ac_config (snd (finish_success v s)) = ac_config (snd s)" "ac_config (snd (finish_failure e s)) = ac_config (snd s)"
  "ac_goal (snd (finish_success v s)) = ac_goal (snd s)" "ac_goal (snd (finish_failure e s)) = ac_goal (snd s)"
  by (simp_all add: finish_success_def finish_failure_def publish_finished_def Let_def split: prod.splits)

definition exec_rel :: "agent_policy \<Rightarrow> task_state \<Rightarrow> task_state \<Rightarrow> bool" where
  "exec_rel p s s' \<longleftrightarrow> at_key (fst s') = at_key (fst s) \<and> at_depends_on (fst s') = at_depends_on (fst s)
     \<and> ac_ids (snd s') = ac_ids (snd s) \<and> ac_config (snd s') = ac_config (snd s) \<and> ac_goal (snd s') = ac_goal (snd s)
     \<and> (acct p (snd s) \<longrightarrow> acct p (snd s'))
     \<and> rm_tasks_failed (ac_metrics (snd s'))
         \<ge> rm_tasks_failed (ac_metrics (snd s)) + (if at_status (fst s') = TS_FAILED \<and> fst s' \<noteq> fst s then 1 else 0)"

lemma start_frame:
  assumes "loop_rel (start_state t ctx) s" and "ps_steps (ac_pstate ctx) < ap_max_steps (ac_policy ctx)"
  shows "exec_rel p (t, ctx) (finish_success v s)" and "exec_rel p (t, ctx) (finish_failure e s)"
  using assms check_step_counts [of "ac_policy ctx" "ac_pstate ctx"]
  by (auto simp: exec_rel_def loop_rel_def same_task_def task_frame_def start_state_def finish_simps finish_fields
      acct_def accounts_agree_def check_step_def Let_def)

lemma execute_exec_rel:
  assumes "execute env t ctx = (s', x)"
  shows "exec_rel p (t, ctx) s'"
proof (cases "snd (check_step (ac_policy ctx) (ac_pstate ctx))")
  case (Some y)
  with assms have "s' = (t, ctx\<lparr>ac_pstate := fst (check_step (ac_policy ctx) (ac_pstate ctx))\<rparr>)"
    by (auto simp: execute_def split: prod.splits)
  then show ?thesis by (auto simp: exec_rel_def acct_def accounts_agree_def check_step_def Let_def)
next
  case None
  then have lt: "ps_steps (ac_pstate ctx) < ap_max_steps (ac_policy ctx)"
    using check_step_counts by blast
  obtain ps where ps: "check_step (ac_policy ctx) (ac_pstate ctx) = (ps, None)" using None by (metis prod.collapse)
  let ?n = "nat (retries_for (ac_policy ctx) (at_max_retries t))"
  obtain s r where l: "exec_loop env ?n (start_state t ctx) = (s, r)" by fastforce
  have rel: "loop_rel (start_state t ctx) s" using exec_loop_rel [of "start_state t ctx" env ?n] l by simp
  have neg: "exec_rel p (t, ctx) (finish_failure None
      (t\<lparr>at_status := TS_RUNNING\<rparr>, snd (start_state t ctx)))"
    using lt check_step_counts [of "ac_policy ctx" "ac_pstate ctx"]
    by (auto simp: exec_rel_def start_state_def finish_simps finish_fields acct_def accounts_agree_def
        check_step_def Let_def)
  show ?thesis
  proof (cases "retries_for (ac_policy ctx) (at_max_retries t) < 0")
    case True
    with assms ps neg show ?thesis by (auto simp: execute_def start_state_def Let_def)
  next
    case False
    with assms ps l have "s' = (case r of Done v \<Rightarrow> finish_success v s | Blocked e \<Rightarrow> finish_failure (Some e) s
        | Retry e \<Rightarrow> finish_failure (Some e) s)"
      by (auto simp: execute_def start_state_def Let_def split: attempt_result.splits)
    with start_frame [OF rel lt] show ?thesis by (cases r) auto
  qed
qed

lemma run_ready_ok:
  "run_ok env p v \<Longrightarrow> run_ok env p (fst (run_ready env ks v))
     \<and> rv_state (fst (run_ready env ks v)) = rv_state v \<and> rv_passes (fst (run_ready env ks v)) = rv_passes v"
proof (induction ks arbitrary: v)
  case (Cons k ks)
  show ?case
  proof (cases "dict_get (rv_graph v) k")
    case None
    with Cons show ?thesis by simp
  next
    case (Some t)
    obtain t' ctx' x where ex: "execute env t (rv_ctx v) = ((t', ctx'), x)" by (metis prod.exhaust)
    note rel = execute_exec_rel [OF ex, of p, unfolded exec_rel_def fst_conv snd_conv]
    have gk: "graph_keyed (rv_graph v)" using Cons.prems by (simp add: run_ok_def graph_good_def)
    then have k: "at_key t' = k" using Some rel graph_keyed_get [OF gk, of k t] by simp
    let ?v = "v\<lparr>rv_ctx := ctx', rv_graph := dict_set k t' (rv_graph v)\<rparr>"
    have "graph_good (dict_set k t' (rv_graph v)) \<and> set (keys (dict_set k t' (rv_graph v))) = set (keys (rv_graph v))"
      using graph_add_same [of "rv_graph v" t' t] Cons.prems Some k rel
      by (simp add: run_ok_def graph_add_def)
    moreover have "failed_count (dict_set k t' (rv_graph v)) \<le> rm_tasks_failed (ac_metrics ctx')"
      using failed_count_set [of k t' "rv_graph v"] failed_count_same [OF Some, of t'] Cons.prems rel
      by (auto simp: run_ok_def split: if_splits)
    ultimately have "run_ok env p ?v" using Cons.prems rel by (simp add: run_ok_def)
    from Cons.IH [OF this] this ex Some show ?thesis by (cases x) (simp_all add: Let_def)
  qed
qed simp

definition in_graph :: "task_graph \<Rightarrow> agent_task \<Rightarrow> bool" where
  "in_graph g t \<longleftrightarrow> (\<exists>u. dict_get g (at_key t) = Some u \<and> at_depends_on u = at_depends_on t
     \<and> at_status u = at_status t)"

lemma in_graph_add: "in_graph g t \<Longrightarrow> at_key u \<noteq> at_key t \<Longrightarrow> in_graph (graph_add u g) t"
  by (simp add: in_graph_def graph_add_def)

lemma in_graph_add_same:
  "in_graph g t \<Longrightarrow> in_graph g u \<Longrightarrow> in_graph (graph_add (task_log m u) g) t"
  by (cases "at_key u = at_key t") (auto simp: in_graph_def graph_add_def)

lemma replan_one_good:
  assumes fresh: "fresh_ids env N" and n: "n < N" and g: "graph_good g"
    and ks: "set (keys g) \<subseteq> planned_keys \<union> hex_key env ` {..<n}" and t: "in_graph g t"
  shows "\<exists>g'. replan_one env t (g, n) = (g', Suc n) \<and> graph_good g' \<and> length g' = Suc (length g)
    \<and> failed_count g' \<le> failed_count g
    \<and> set (keys g') \<subseteq> planned_keys \<union> hex_key env ` {..<Suc n} \<and> (\<forall>u. in_graph g u \<longrightarrow> in_graph g' u)"
proof -
  let ?r = "recovery_task env n g t"
  have key: "at_key ?r = hex_key env n" by (simp add: recovery_task_def hex_key_def)
  have new: "at_key ?r \<notin> set (keys g)"
  proof -
    have "hex_key env n \<notin> planned_keys" using fresh n unfolding fresh_ids_def by blast
    moreover have "hex_key env n \<notin> hex_key env ` {..<n}"
      using fresh n by (auto simp: fresh_ids_def inj_on_eq_iff [of "hex_key env" "{..<N}"])
    ultimately show ?thesis using ks unfolding key by blast
  qed
  obtain u where u: "dict_get g (at_key t) = Some u" "at_depends_on u = at_depends_on t" "at_status u = at_status t"
    using t by (auto simp: in_graph_def)
  have "u \<in> set (graph_tasks g)" using u(1) g graph_keyed_get by (auto simp: graph_good_def)
  then have "distinct (at_depends_on u)" using g by (auto simp: graph_good_def deps_distinct_def list_all_iff)
  then have good: "graph_good (graph_add ?r g)"
    using g new u by (intro graph_add_new)
      (auto simp: recovery_task_def graph_get_def dest: map_of_SomeD intro: rev_image_eqI)
  have tk: "at_key t \<in> set (keys g)" using u(1) by (rule dict_get_in_keys)
  with new have neq: "at_key ?r \<noteq> at_key t" by metis
  let ?t = "task_log (''replanned: added recovery task '' @ at_key ?r) t"
  have gt: "dict_get (graph_add ?r g) (at_key ?t) = Some u" using u(1) neq by (simp add: graph_add_def)
  have fc: "failed_count (graph_add ?t (graph_add ?r g)) \<le> failed_count g"
    using failed_count_same [OF gt, of ?t] failed_count_set [of "at_key ?r" ?r g] u(3)
    by (simp add: graph_add_def recovery_task_def)
  from graph_add_same [OF good gt] u(2)
  have good': "graph_good (graph_add ?t (graph_add ?r g))"
    and k': "set (keys (graph_add ?t (graph_add ?r g))) = set (keys (graph_add ?r g))" by simp_all
  have "at_key ?t \<in> set (keys (graph_add ?r g))" using tk by simp
  then have "length (graph_add ?t (graph_add ?r g)) = length (graph_add ?r g)"
    using keys_set_present [of "at_key ?t" "graph_add ?r g" ?t]
    by (metis graph_add_def length_map)
  moreover have "length (graph_add ?r g) = Suc (length g)"
    using new by (simp add: graph_add_def dict_set_new)
  moreover have "in_graph (graph_add ?t (graph_add ?r g)) w" if w: "in_graph g w" for w
  proof -
    have "at_key w \<in> set (keys g)" using w by (auto simp: in_graph_def dest: dict_get_in_keys)
    then have "at_key ?r \<noteq> at_key w" using new by metis
    with w t neq show ?thesis by (intro in_graph_add_same in_graph_add) auto
  qed
  moreover have "set (keys (graph_add ?t (graph_add ?r g))) \<subseteq> planned_keys \<union> hex_key env ` {..<Suc n}"
    unfolding k' using ks key by auto
  ultimately show ?thesis using good' neq fc by (simp add: replan_one_def Let_def)
qed

lemma replan_fold_good:
  assumes "fresh_ids env N" and "n + length ts \<le> N" and "graph_good g"
    and "set (keys g) \<subseteq> planned_keys \<union> hex_key env ` {..<n}" and "\<forall>t \<in> set ts. in_graph g t"
  shows "\<exists>g'. fold (replan_one env) ts (g, n) = (g', n + length ts) \<and> graph_good g'
    \<and> failed_count g' \<le> failed_count g
    \<and> length g' = length g + length ts \<and> set (keys g') \<subseteq> planned_keys \<union> hex_key env ` {..<n + length ts}"
  using assms(2-5)
proof (induction ts arbitrary: g n)
  case (Cons t ts)
  have n: "n < N" "Suc n + length ts \<le> N" using Cons.prems(1) by simp_all
  obtain g1 where g1: "replan_one env t (g, n) = (g1, Suc n)" "graph_good g1" "length g1 = Suc (length g)"
    "set (keys g1) \<subseteq> planned_keys \<union> hex_key env ` {..<Suc n}" "\<forall>u. in_graph g u \<longrightarrow> in_graph g1 u"
    "failed_count g1 \<le> failed_count g"
    using replan_one_good [OF assms(1) n(1) Cons.prems(2,3), of t] Cons.prems(4) by auto
  from Cons.IH [OF n(2) g1(2,4)] g1(5) Cons.prems(4) obtain g2 where
    "fold (replan_one env) ts (g1, Suc n) = (g2, Suc n + length ts)" "graph_good g2"
    "failed_count g2 \<le> failed_count g1"
    "length g2 = length g1 + length ts" "set (keys g2) \<subseteq> planned_keys \<union> hex_key env ` {..<Suc n + length ts}"
    by auto
  with g1(1,3,6) show ?case by auto
qed simp

lemma failed_in_graph:
  "graph_keyed g \<Longrightarrow> t \<in> set (filter P (graph_tasks g)) \<Longrightarrow> in_graph g t"
  using graph_keyed_get by (auto simp: in_graph_def)

lemma replan_stage_ok:
  assumes "fresh_ids env (nat (ap_max_steps p) * Suc (rv_passes v))" and "run_ok env p v"
  shows "run_ok env p ((replan_stage env v)\<lparr>rv_passes := rv_passes (replan_stage env v) + 1\<rparr>)"
proof -
  let ?ts = "filter (\<lambda>t. at_status t = TS_FAILED) (graph_tasks (rv_graph v))"
  have gk: "graph_keyed (rv_graph v)" using assms(2) by (simp add: run_ok_def graph_good_def)
  have "length ?ts \<le> nat (ap_max_steps p)"
    using assms(2) acct_failed_le [of p "rv_ctx v"] by (simp add: run_ok_def failed_count_def)
  then have ids: "ac_ids (rv_ctx v) + length ?ts \<le> nat (ap_max_steps p) * Suc (rv_passes v)"
    using assms(2) by (simp add: run_ok_def)
  obtain g' where "fold (replan_one env) ?ts (rv_graph v, ac_ids (rv_ctx v)) = (g', ac_ids (rv_ctx v) + length ?ts)"
    "graph_good g'" "failed_count g' \<le> failed_count (rv_graph v)"
    "set (keys g') \<subseteq> planned_keys \<union> hex_key env ` {..<ac_ids (rv_ctx v) + length ?ts}"
    using replan_fold_good [OF assms(1) ids, of "rv_graph v"] assms(2) failed_in_graph [OF gk]
    by (auto simp: run_ok_def)
  with assms(2) ids show ?thesis by (auto simp: replan_stage_def replan_def run_ok_def)
qed

lemma andthen_ok:
  assumes "run_ok env p (fst r)" and "\<And>v. r = (v, None) \<Longrightarrow> run_ok env p v \<Longrightarrow> run_ok env p (fst (f v))"
  shows "run_ok env p (fst (andthen r f))"
proof -
  obtain v e where r: "r = (v, e)" by fastforce
  with assms show ?thesis by (cases e) (simp_all add: andthen_def)
qed

lemma goto_ok: "run_ok env p v \<Longrightarrow> run_ok env p (fst (goto s v))"
  by (auto simp: goto_def split: sum.splits)

lemma set_goal_status_ok [simp]: "run_ok env p (set_goal_status gs v) = run_ok env p v"
  by (simp add: set_goal_status_def run_ok_def)

lemma configure_ok: "run_ok env p v \<Longrightarrow> run_ok env p (fst (configure env v))"
  by (auto simp: configure_def run_ok_def split: sum.splits prod.splits)

lemma initialize_ok: "run_ok env p v \<Longrightarrow> run_ok env p (fst (initialize env slug v))"
  unfolding initialize_def
proof (intro andthen_ok, goal_cases)
  case (3 v1 v2)
  then show ?case by (intro goto_ok run_ok_ctx) (auto simp: run_ok_def)
qed (auto intro: goto_ok configure_ok)

lemma outline_acct:
  "outline env ctx = (ctx', steps) \<Longrightarrow> (acct p ctx \<longrightarrow> acct p ctx') \<and> ac_ids ctx' = ac_ids ctx
     \<and> ac_config ctx' = ac_config ctx"
  by (auto simp: outline_def split: prod.splits sum.splits dest: complete_acct)

definition all_pending :: "task_graph \<Rightarrow> bool" where
  "all_pending g \<longleftrightarrow> list_all (\<lambda>(k, t). at_status t = TS_PENDING) g"

lemma graph_add_pending: "all_pending g \<Longrightarrow> at_status u = TS_PENDING \<Longrightarrow> all_pending (graph_add u g)"
  by (induction g) (auto simp: all_pending_def graph_add_def)

lemma fold_add_pending:
  "all_pending g \<Longrightarrow> list_all (\<lambda>u. at_status u = TS_PENDING) us \<Longrightarrow> all_pending (fold graph_add us g)"
  by (induction us arbitrary: g) (simp_all add: graph_add_pending)

lemma decompose_all_pending: "all_pending (decompose goal cfg steps)"
  unfolding decompose_def Let_def
  by (intro graph_add_pending fold_add_pending) (auto simp: all_pending_def list_all_iff)

lemma decompose_pending: "t \<in> set (graph_tasks (decompose goal cfg steps)) \<Longrightarrow> at_status t = TS_PENDING"
  using decompose_all_pending [of goal cfg steps] by (auto simp: all_pending_def list_all_iff graph_tasks_def)

lemma decompose_unfinished: "\<not> is_complete (decompose goal cfg steps)"
proof -
  have "decompose goal cfg steps \<noteq> []" using decompose_good [of goal cfg steps] by auto
  then obtain t where "t \<in> set (graph_tasks (decompose goal cfg steps))"
    by (cases "decompose goal cfg steps") (auto simp: graph_tasks_def)
  with decompose_pending show ?thesis by (force simp: is_complete_iff)
qed

lemma decompose_no_failure: "\<not> has_failure (decompose goal cfg steps)"
  using decompose_pending by (force simp: has_failure_def list_ex_iff)

lemma decompose_failed_count: "failed_count (decompose goal cfg steps) = 0"
  using decompose_pending by (force simp: failed_count_def filter_empty_conv)

lemma plan_stage_ok:
  assumes "run_ok env p v"
  shows "run_ok env p (fst (plan_stage env v))"
  unfolding plan_stage_def
proof (intro andthen_ok, goal_cases)
  case 1
  show ?case using assms by (rule goto_ok)
next
  case (2 v1)
  obtain ctx steps where o: "outline env (rv_ctx v1) = (ctx, steps)" by fastforce
  have "graph_good (decompose (ac_goal ctx) (ac_config ctx) steps)"
    and "keys (decompose (ac_goal ctx) (ac_config ctx) steps) = [''understand''] @
      map work_key [0..<length (take (nat (max 1 (cf_max_tasks (ac_config ctx) - 2))) (work_sources (ac_goal ctx) steps))]
      @ [''synthesize'']"
    using decompose_good by blast+
  moreover from this(2) have "set (keys (decompose (ac_goal ctx) (ac_config ctx) steps)) \<subseteq> planned_keys"
    by (auto simp: planned_keys_def simp del: length_take)
  ultimately have "run_ok env p (v1\<lparr>rv_ctx := ctx\<lparr>ac_memory := m\<rparr>,
      rv_graph := decompose (ac_goal ctx) (ac_config ctx) steps\<rparr>)" for m
    using 2(2) outline_acct [OF o, of p] by (auto simp: run_ok_def decompose_failed_count)
  then show ?case using o by (simp add: plan_def Let_def)
qed

lemma fresh_ids_mono: "fresh_ids env m \<Longrightarrow> n \<le> m \<Longrightarrow> fresh_ids env n"
proof -
  assume f: "fresh_ids env m" and "n \<le> m"
  then have sub: "{..<n} \<subseteq> {..<m}" by auto
  from f have inj: "inj_on (hex_key env) {..<m}" and dis: "hex_key env ` {..<m} \<inter> planned_keys = {}"
    by (simp_all only: fresh_ids_def)
  have "hex_key env ` {..<n} \<inter> planned_keys = {}" using image_mono [OF sub, of "hex_key env"] dis by blast
  with inj_on_subset [OF inj sub] show ?thesis by (simp only: fresh_ids_def simp_thms)
qed

lemma replan_stage_state [simp]:
  "rv_state (replan_stage env v) = rv_state v" "ac_config (rv_ctx (replan_stage env v)) = ac_config (rv_ctx v)"
  "rv_passes (replan_stage env v) = rv_passes v"
  by (auto simp: replan_stage_def replan_def Let_def split: prod.splits)

lemma exec_passes_ok:
  assumes "fresh_ids env (nat (ap_max_steps p) * I)"
  shows "run_ok env p v \<Longrightarrow> rv_passes v + n \<le> I \<Longrightarrow> run_ok env p (fst (exec_passes env n v))"
proof (induction n arbitrary: v)
  case (Suc n)
  show ?case
  proof (cases "is_complete (rv_graph v) \<or> fst (env_signal env (rv_passes v)) \<or> snd (env_signal env (rv_passes v))
      \<or> ready (rv_graph v) = []")
    case True
    with Suc.prems show ?thesis by (cases "env_signal env (rv_passes v)") auto
  next
    case False
    have "run_ok env p (fst (andthen (run_ready env (map at_key (ready (rv_graph v))) v) (\<lambda>v.
        let v' = replan_stage env v in exec_passes env n (v'\<lparr>rv_passes := rv_passes v' + 1\<rparr>))))"
    proof (intro andthen_ok, goal_cases)
      case 1
      show ?case using run_ready_ok [OF Suc.prems(1)] by blast
    next
      case (2 v1)
      have pv: "rv_passes v1 = rv_passes v" using run_ready_ok [OF Suc.prems(1)] 2(1) by (metis fst_conv)
      have "fresh_ids env (nat (ap_max_steps p) * Suc (rv_passes v1))"
        using Suc.prems(2) pv by (intro fresh_ids_mono [OF assms] mult_le_mono2) simp
      from replan_stage_ok [OF this 2(2)] Suc.prems(2) pv show ?case by (simp add: Let_def Suc.IH)
    qed
    with False show ?thesis by (cases "env_signal env (rv_passes v)") auto
  qed
qed simp

lemma execute_stage_ok:
  assumes "fresh_ids env (nat (ap_max_steps p) * nat (cf_max_iterations (ac_config (rv_ctx v))))"
    and "run_ok env p v" and "rv_passes v = 0"
  shows "run_ok env p (fst (execute_stage env v))"
  unfolding execute_stage_def
proof (rule andthen_ok, goal_cases)
  case 1
  show ?case using assms(2) by (rule goto_ok)
next
  case (2 v1)
  then have "v1 = v\<lparr>rv_state := AS_EXECUTING\<rparr>" by (auto simp: goto_def transition_def split: if_splits)
  with 2(2) assms(3) show ?case by (intro exec_passes_ok [OF assms(1)]) simp_all
qed

lemma reflect_on_acct:
  assumes "reflect_on env g ctx = (ctx', r)"
  shows "(acct p ctx \<longrightarrow> acct p ctx') \<and> ac_ids ctx' = ac_ids ctx
    \<and> rm_tasks_failed (ac_metrics ctx') = rm_tasks_failed (ac_metrics ctx)"
proof -
  obtain c1 a where c: "complete env False (PStr (reflect_prompt
      (length (filter (\<lambda>t. at_status t = TS_SUCCEEDED) (graph_tasks g)))
      (length (filter (\<lambda>t. at_status t = TS_FAILED) (graph_tasks g))) ctx))
      (Some ''You are a reflective post-mortem assistant.'') ctx = (c1, a)" by fastforce
  have "ctx' = c1 \<or> (\<exists>m. ctx' = c1\<lparr>ac_memory := m\<rparr>)"
    using assms unfolding reflect_on_def Let_def c prod.case
    by (auto split: option.splits if_splits)
  then show ?thesis using complete_acct [OF c] by auto
qed

lemma reflect_stage_ok: "run_ok env p v \<Longrightarrow> run_ok env p (fst (reflect_stage env v))"
  unfolding reflect_stage_def
proof (intro andthen_ok, goal_cases)
  case (2 v1)
  obtain c r where r: "reflect_on env (rv_graph v1) (rv_ctx v1) = (c, r)" by fastforce
  with reflect_on_acct [OF r, of p] 2(3) show ?case by (cases r) (simp_all add: run_ok_def)
qed (rule goto_ok)

lemma evaluate_latency: "rm_latency_ms (ac_metrics ctx) = 0 \<Longrightarrow> ev_latency (evaluate_run g ctx) = 1"
  using py_round_int [of 4 1] by (simp add: evaluate_run_def Let_def)

lemma finish_ok: "run_ok env p v \<Longrightarrow> run_ok env p (fst (finish v))"
  by (simp add: finish_def Let_def goto_ok)

lemma after_execute_ok: "run_ok env p v \<Longrightarrow> run_ok env p (fst (after_execute env v))"
proof -
  assume ok: "run_ok env p v"
  have ev: "run_ok env p w \<Longrightarrow> run_ok env p (w\<lparr>rv_evaluation := Some (evaluate_run (rv_graph w) (rv_ctx w))\<rparr>)" for w
    by (simp add: run_ok_def acct_def evaluate_latency)
  show ?thesis
  proof (cases "fst (env_signal env (rv_passes v))")
    case False
    have "run_ok env p (fst (andthen (if cf_reflection_enabled (ac_config (rv_ctx v)) then reflect_stage env v else (v, None)) (\<lambda>v.
           finish (if cf_evaluation_enabled (ac_config (rv_ctx v))
                   then v\<lparr>rv_evaluation := Some (evaluate_run (rv_graph v) (rv_ctx v))\<rparr> else v))))"
      using ok by (intro andthen_ok) (auto intro: reflect_stage_ok finish_ok ev)
    with False show ?thesis by (simp add: after_execute_def)
  qed (simp add: after_execute_def ok)
qed

lemma andthen_None: "andthen r f = (v, None) \<longleftrightarrow> (\<exists>w. r = (w, None) \<and> f w = (v, None))"
  by (auto simp: andthen_def split: prod.splits option.splits)

lemma goto_None: "goto s v = (w, None) \<longleftrightarrow> can_transition (rv_state v) s \<and> w = v\<lparr>rv_state := s\<rparr>"
  by (auto simp: goto_def transition_def)

lemma initialize_frame:
  "initialize env slug v = (w, None) \<Longrightarrow> rv_passes w = rv_passes v \<and> ac_config (rv_ctx w) = ac_config (rv_ctx v)"
  by (auto simp: initialize_def andthen_None goto_None configure_def split: sum.splits prod.splits)

lemma plan_stage_frame:
  assumes "plan_stage env v = (w, None)"
  shows "rv_passes w = rv_passes v \<and> ac_config (rv_ctx w) = ac_config (rv_ctx v)"
proof -
  obtain c g where p: "plan env (rv_ctx v) = (c, g)" by fastforce
  obtain c1 steps where o: "outline env (rv_ctx v) = (c1, steps)" by fastforce
  with p have "ac_config c = ac_config (rv_ctx v)" using outline_acct [OF o] by (auto simp: plan_def Let_def)
  with assms p show ?thesis by (auto simp: plan_stage_def andthen_None goto_None)
qed

lemma run_stages_ok:
  assumes "fresh_ids env (nat (ap_max_steps p) * nat (cf_max_iterations (ac_config (rv_ctx v))))"
    and "run_ok env p v" and "rv_passes v = 0"
  shows "run_ok env p (fst (run_stages env slug v))"
  unfolding run_stages_def
proof (rule andthen_ok, goal_cases)
  case 1
  show ?case using assms(2) by (rule initialize_ok)
next
  case (2 v1)
  note v1 = initialize_frame [OF 2(1)]
  show ?case
  proof (rule andthen_ok, goal_cases)
    case 1
    show ?case using 2(2) by (rule plan_stage_ok)
  next
    case (2 v2)
    note v2 = plan_stage_frame [OF 2(1)]
    show ?case
      using assms(1,3) v1 v2 2(2) by (intro andthen_ok) (auto intro: execute_stage_ok after_execute_ok)
  qed
qed

section \<open>Whole runs\<close>

definition start_vars :: "agent_state \<Rightarrow> agent_context \<Rightarrow> run_vars" where
  "start_vars st ctx = set_goal_status GS_ACTIVE \<lparr>rv_state = st, rv_ctx = ctx, rv_graph = [], rv_passes = 0,
                 rv_reflection = None, rv_evaluation = None\<rparr>"

lemma start_ok:
  "run_ok env policy (start_vars st (agent_context_init goal config memory knowledge tools policy))"
  by (simp add: start_vars_def set_goal_status_def run_ok_def agent_context_init_def acct_def accounts_agree_def
      policy_state_init_def run_metrics_init_def failed_count_def graph_tasks_def)

definition ended :: "run_outcome \<Rightarrow> run_vars" where
  \<comment> \<open>the variables after the \<open>try\<close> statement\<close>
  "ended r = (case r of (v, None) \<Rightarrow> v | (v, Some _) \<Rightarrow> set_goal_status GS_FAILED (v\<lparr>rv_state := AS_FAILED\<rparr>))"

lemma ended_ok: "run_ok env p (fst r) \<Longrightarrow> run_ok env p (ended r)"
  by (auto simp: ended_def split: prod.splits option.splits)

lemma final_output_good: "graph_good g \<Longrightarrow> \<exists>out. final_output env g = Inr out"
  using topological_order_acyclic [of g] by (auto simp: graph_good_def final_output_def Let_def)

lemma publish_terminal_simps [simp]:
  "ac_goal (publish_terminal slug s ctx) = ac_goal ctx" "ac_metrics (publish_terminal slug s ctx) = ac_metrics ctx"
  "last (ac_events (publish_terminal slug s ctx)) = EV_AgentStopped slug (agent_state_value s)"
  by (simp_all add: publish_terminal_def publish_def)

lemma run_agent_fields:
  assumes "run_agent env slug st ctx = Inr r"
  defines "v \<equiv> ended (run_stages env slug (start_vars st ctx))"
  shows "ar_state r = rv_state v" and "ar_goal_status r = g_status (ac_goal (rv_ctx v))"
    and "ar_metrics r = ac_metrics (rv_ctx v)" and "ar_graph r = rv_graph v"
    and "ar_evaluation r = rv_evaluation v" and "ar_error r = snd (run_stages env slug (start_vars st ctx))"
    and "last (ar_events r) = EV_AgentStopped slug (agent_state_value (rv_state v))"
proof -
  obtain w e where w: "run_stages env slug (start_vars st ctx) = (w, e)" by fastforce
  have v: "v = (case e of None \<Rightarrow> w | Some _ \<Rightarrow> set_goal_status GS_FAILED (w\<lparr>rv_state := AS_FAILED\<rparr>))"
    unfolding v_def w ended_def by (cases e) simp_all
  note facts = assms(1) [unfolded run_agent_def start_vars_def [symmetric] w Let_def prod.case, folded v]
  show "ar_state r = rv_state v" "ar_goal_status r = g_status (ac_goal (rv_ctx v))"
    "ar_metrics r = ac_metrics (rv_ctx v)" "ar_graph r = rv_graph v"
    "ar_evaluation r = rv_evaluation v" "ar_error r = snd (run_stages env slug (start_vars st ctx))"
    "last (ar_events r) = EV_AgentStopped slug (agent_state_value (rv_state v))"
    using facts by (auto simp: w split: sum.splits)
qed

lemma run_agent_Inr:
  assumes "graph_good (rv_graph (ended (run_stages env slug (start_vars st ctx))))"
  shows "\<exists>r. run_agent env slug st ctx = Inr r"
proof -
  obtain w e where w: "run_stages env slug (start_vars st ctx) = (w, e)" by fastforce
  let ?v = "case e of None \<Rightarrow> w | Some _ \<Rightarrow> set_goal_status GS_FAILED (w\<lparr>rv_state := AS_FAILED\<rparr>)"
  have "ended (run_stages env slug (start_vars st ctx)) = ?v" unfolding w ended_def by (cases e) simp_all
  with assms final_output_good [of "rv_graph ?v" env] obtain out where "final_output env (rv_graph ?v) = Inr out"
    by auto
  then show ?thesis
    unfolding run_agent_def start_vars_def [symmetric] w Let_def prod.case by auto
qed

lemma whole_run_ok:
  assumes "fresh_ids env (nat (ap_max_steps policy) * nat (cf_max_iterations config))"
  shows "run_ok env policy (ended (run_stages env slug
           (start_vars st (agent_context_init goal config memory knowledge tools policy))))"
proof (intro ended_ok run_stages_ok start_ok)
  let ?v = "start_vars st (agent_context_init goal config memory knowledge tools policy)"
  show "rv_passes ?v = 0" by (simp add: start_vars_def set_goal_status_def)
  show "fresh_ids env (nat (ap_max_steps policy) * nat (cf_max_iterations (ac_config (rv_ctx ?v))))"
    using assms by (simp add: start_vars_def set_goal_status_def agent_context_init_def)
qed


text \<open>
  The latency score is always 1: the evaluation runs before the latency of the run is
  recorded.
\<close>

theorem run_agent_latency_score_constant:
  assumes "fresh_ids env (nat (ap_max_steps policy) * nat (cf_max_iterations config))"
    and "run_agent env slug st (agent_context_init goal config memory knowledge tools policy) = Inr r"
    and "ar_evaluation r = Some e"
  shows "ev_latency e = 1"
proof -
  let ?ctx = "agent_context_init goal config memory knowledge tools policy"
  have "run_ok env policy (ended (run_stages env slug (start_vars st ?ctx)))"
    using assms(1) by (rule whole_run_ok)
  moreover have "rv_evaluation (ended (run_stages env slug (start_vars st ?ctx))) = Some e"
    using run_agent_fields(5) [OF assms(2)] assms(3) by simp
  ultimately show ?thesis by (simp add: run_ok_def)
qed

section \<open>The state a run ends in\<close>

lemma run_ready_state:
  "rv_state (fst (run_ready env ks v)) = rv_state v \<and> rv_passes (fst (run_ready env ks v)) = rv_passes v
   \<and> ac_config (rv_ctx (fst (run_ready env ks v))) = ac_config (rv_ctx v)"
proof (induction ks arbitrary: v)
  case (Cons k ks)
  show ?case
  proof (cases "dict_get (rv_graph v) k")
    case (Some t)
    obtain t' ctx' x where ex: "execute env t (rv_ctx v) = ((t', ctx'), x)" by (metis prod.exhaust)
    with execute_exec_rel [OF ex] Some Cons.IH show ?thesis
      by (cases x) (simp_all add: Let_def exec_rel_def)
  qed (simp add: Cons.IH)
qed simp

lemma exec_passes_state:
  "rv_state (fst (exec_passes env n v)) \<in> {rv_state v, AS_PAUSED}"
proof (induction n arbitrary: v)
  case (Suc n)
  obtain c q where sg: "env_signal env (rv_passes v) = (c, q)" by fastforce
  obtain w e where w: "run_ready env (map at_key (ready (rv_graph v))) v = (w, e)" by fastforce
  have "rv_state w = rv_state v" using run_ready_state [of env "map at_key (ready (rv_graph v))" v] w by simp
  with Suc [of "(replan_stage env w)\<lparr>rv_passes := rv_passes (replan_stage env w) + 1\<rparr>"] sg w show ?case
    by (cases e) (auto simp: andthen_def Let_def)
qed simp

definition final_pairs :: "(agent_state \<times> goal_status) set" where
  "final_pairs = {(AS_COMPLETED, GS_COMPLETED), (AS_FAILED, GS_FAILED), (AS_CANCELLED, GS_CANCELLED),
     (AS_PAUSED, GS_COMPLETED)}"

definition outcome_pair :: "run_vars \<Rightarrow> agent_state \<times> goal_status" where
  "outcome_pair v = (rv_state v, g_status (ac_goal (rv_ctx v)))"

lemma finish_pair:
  "finish v = (w, None) \<Longrightarrow> rv_state v \<in> {AS_EXECUTING, AS_REFLECTING, AS_PAUSED} \<Longrightarrow> outcome_pair w \<in> final_pairs"
  by (auto simp: finish_def Let_def goto_None outcome_pair_def final_pairs_def set_goal_status_def can_transition_def
      split: if_splits)

lemma reflect_stage_state: "reflect_stage env v = (w, None) \<Longrightarrow> rv_state w = AS_REFLECTING"
  by (auto simp: reflect_stage_def andthen_None goto_None split: prod.splits sum.splits)

lemma after_execute_pair:
  assumes "after_execute env v = (w, None)" and "rv_state v \<in> {AS_EXECUTING, AS_PAUSED}"
  shows "outcome_pair w \<in> final_pairs"
proof (cases "fst (env_signal env (rv_passes v))")
  case True
  with assms(1) show ?thesis
    by (auto simp: after_execute_def outcome_pair_def final_pairs_def set_goal_status_def)
next
  case False
  with assms(1) obtain u where u: "(if cf_reflection_enabled (ac_config (rv_ctx v)) then reflect_stage env v else (v, None)) = (u, None)"
    and f: "finish (if cf_evaluation_enabled (ac_config (rv_ctx u))
                   then u\<lparr>rv_evaluation := Some (evaluate_run (rv_graph u) (rv_ctx u))\<rparr> else u) = (w, None)"
    by (auto simp: after_execute_def andthen_None)
  from u assms(2) have "rv_state u \<in> {AS_EXECUTING, AS_REFLECTING, AS_PAUSED}"
    by (auto split: if_splits dest: reflect_stage_state)
  with finish_pair [OF f] show ?thesis by (simp split: if_splits)
qed

lemma execute_stage_state: "execute_stage env v = (w, None) \<Longrightarrow> rv_state w \<in> {AS_EXECUTING, AS_PAUSED}"
  using exec_passes_state [of env "nat (cf_max_iterations (ac_config (rv_ctx v)))" "v\<lparr>rv_state := AS_EXECUTING\<rparr>"]
  by (auto simp: execute_stage_def andthen_None goto_None)

lemma run_stages_pair: "run_stages env slug v = (w, None) \<Longrightarrow> outcome_pair w \<in> final_pairs"
  by (auto simp: run_stages_def andthen_None dest: execute_stage_state after_execute_pair)

text \<open>
  C9: a run ends completed, failed, cancelled or paused, and the goal's status agrees with it,
  except that a paused run reports its goal as completed; a run that met an exception ends failed;
  and the last event published is the stop event with that state.
\<close>

theorem run_agent_final_state:
  assumes "run_agent env slug st ctx = Inr r"
  shows "(ar_state r, ar_goal_status r) \<in> {(AS_COMPLETED, GS_COMPLETED), (AS_FAILED, GS_FAILED),
      (AS_CANCELLED, GS_CANCELLED), (AS_PAUSED, GS_COMPLETED)}
    \<and> (ar_error r \<noteq> None \<longrightarrow> ar_state r = AS_FAILED)
    \<and> last (ar_events r) = EV_AgentStopped slug (agent_state_value (ar_state r))"
proof -
  note f = run_agent_fields [OF assms]
  obtain w e where w: "run_stages env slug (start_vars st ctx) = (w, e)" by fastforce
  have "outcome_pair (ended (w, e)) \<in> final_pairs"
    using run_stages_pair w by (cases e) (auto simp: ended_def outcome_pair_def final_pairs_def set_goal_status_def)
  moreover have "rv_state (ended (w, e)) = AS_FAILED" if "e \<noteq> None"
    using that by (auto simp: ended_def set_goal_status_def)
  ultimately show ?thesis using f w by (auto simp: outcome_pair_def final_pairs_def)
qed

section \<open>Pausing and running again\<close>

lemma plan_graph:
  "\<exists>steps goal. snd (plan env ctx) = decompose goal (ac_config ctx) steps
     \<and> ac_config (fst (plan env ctx)) = ac_config ctx"
proof -
  obtain c steps where o: "outline env ctx = (c, steps)" by fastforce
  then have "ac_config c = ac_config ctx"
    by (auto simp: outline_def split: prod.splits sum.splits dest: complete_acct)
  with o show ?thesis by (auto simp: plan_def Let_def)
qed

lemma paused_at_once:
  assumes "env_configure env = Inr ([], [])" and "env_signal env 0 = (False, True)"
    and "0 < cf_max_iterations (ac_config ctx)"
  shows "\<exists>v. run_stages env slug (start_vars AS_CREATED ctx) = after_execute env v \<and> rv_state v = AS_PAUSED
    \<and> rv_passes v = 0 \<and> ac_config (rv_ctx v) = ac_config ctx \<and> \<not> has_failure (rv_graph v)"
proof -
  define c1 where "c1 = publish (EV_AgentStarted slug (g_objective (ac_goal ctx)))
    (ctx\<lparr>ac_goal := (ac_goal ctx)\<lparr>g_status := GS_ACTIVE\<rparr>\<rparr>)"
  let ?v = "(start_vars AS_CREATED ctx)\<lparr>rv_state := AS_IDLE, rv_ctx := c1\<rparr>"
  have i: "initialize env slug (start_vars AS_CREATED ctx) = (?v, None)"
    using assms(1) by (simp add: initialize_def andthen_def goto_def transition_def can_transition_def start_vars_def
        set_goal_status_def configure_def c1_def)
  obtain c2 g where p: "plan env c1 = (c2, g)" by fastforce
  have c1: "ac_config c1 = ac_config ctx" by (simp add: c1_def)
  obtain steps goal where g: "g = decompose goal (ac_config ctx) steps" "ac_config c2 = ac_config ctx"
    using plan_graph [of env c1] p c1 by auto
  let ?w = "?v\<lparr>rv_state := AS_PLANNING, rv_ctx := c2, rv_graph := g\<rparr>"
  have pl: "plan_stage env ?v = (?w, None)"
    using p by (simp add: plan_stage_def andthen_def goto_def transition_def can_transition_def)
  have np: "rv_passes (start_vars AS_CREATED ctx) = 0" by (simp add: start_vars_def set_goal_status_def)
  obtain n where n: "nat (cf_max_iterations (ac_config ctx)) = Suc n"
    using assms(3) by (cases "nat (cf_max_iterations (ac_config ctx))") auto
  have "execute_stage env ?w = (?w\<lparr>rv_state := AS_PAUSED\<rparr>, None)"
    using assms(2) g np n decompose_unfinished
    by (simp add: execute_stage_def andthen_def goto_def transition_def can_transition_def)
  with i pl have "run_stages env slug (start_vars AS_CREATED ctx) = after_execute env (?w\<lparr>rv_state := AS_PAUSED\<rparr>)"
    by (simp add: run_stages_def andthen_def)
  with g np decompose_no_failure show ?thesis by (intro exI [of _ "?w\<lparr>rv_state := AS_PAUSED\<rparr>"]) simp
qed

text \<open>
  A pause that is found at the first safe point does not pause the run: with reflection
  enabled the illegal step from paused to reflecting fails it, and with reflection disabled the
  goal is reported completed although no task ran.
\<close>

theorem run_agent_pause:
  assumes "env_configure env = Inr ([], [])" and "env_signal env 0 = (False, True)"
    and "0 < cf_max_iterations (ac_config ctx)" and "run_agent env slug AS_CREATED ctx = Inr r"
  shows "if cf_reflection_enabled (ac_config ctx)
    then ar_state r = AS_FAILED \<and> ar_goal_status r = GS_FAILED
         \<and> ar_error r = Some ''Cannot transition from paused to reflecting.''
    else ar_state r = AS_PAUSED \<and> ar_goal_status r = GS_COMPLETED \<and> ar_error r = None"
proof -
  obtain v where v: "run_stages env slug (start_vars AS_CREATED ctx) = after_execute env v" "rv_state v = AS_PAUSED"
    "rv_passes v = 0" "ac_config (rv_ctx v) = ac_config ctx" "\<not> has_failure (rv_graph v)"
    using paused_at_once [OF assms(1-3)] by blast
  note f = run_agent_fields [OF assms(4), unfolded v(1)]
  show ?thesis
  proof (cases "cf_reflection_enabled (ac_config ctx)")
    case True
    then have "after_execute env v = (v, Some ''Cannot transition from paused to reflecting.'')"
      using v assms(2) by (simp add: after_execute_def andthen_def reflect_stage_def goto_def transition_def
          can_transition_def invalid_transition_message_def)
    with f True show ?thesis by (simp add: ended_def set_goal_status_def)
  next
    case False
    then have "\<exists>w. after_execute env v = (w, None) \<and> outcome_pair w = (AS_PAUSED, GS_COMPLETED)"
      using v assms(2) by (simp add: after_execute_def andthen_def finish_def Let_def can_transition_def
          set_goal_status_def outcome_pair_def)
    with f False show ?thesis by (auto simp: ended_def outcome_pair_def)
  qed
qed

text \<open>
  An agent object runs once: started again in any later state, paused included, it fails at
  the first transition without planning or running anything.
\<close>

theorem run_agent_twice:
  assumes "st \<noteq> AS_CREATED" and "run_agent env slug st ctx = Inr r"
  shows "ar_state r = AS_FAILED \<and> ar_graph r = [] \<and>
    ar_error r = Some (''Cannot transition from '' @ agent_state_value st @ '' to initializing.'')"
proof -
  have "\<not> can_transition st AS_INITIALIZING" using assms(1) by (cases st) (auto simp: can_transition_def)
  then have "run_stages env slug (start_vars st ctx) = (start_vars st ctx,
      Some (''Cannot transition from '' @ agent_state_value st @ '' to initializing.''))"
    by (simp add: run_stages_def initialize_def andthen_def goto_def transition_def start_vars_def set_goal_status_def
        invalid_transition_message_def)
  with run_agent_fields [OF assms(2)] show ?thesis
    by (simp add: ended_def set_goal_status_def start_vars_def)
qed

section \<open>Scores\<close>

lemma count_le: "length (filter P xs) \<le> length xs"
  by simp

lemma succeeded_failed_le:
  "length (filter (\<lambda>t. at_status t = TS_SUCCEEDED) ts) + length (filter (\<lambda>t. at_status t = TS_FAILED) ts) \<le> length ts"
  by (induction ts) auto

definition unit_interval :: "rat \<Rightarrow> bool" where
  "unit_interval q \<longleftrightarrow> 0 \<le> q \<and> q \<le> 1"

lemma unit_round: "unit_interval q \<Longrightarrow> unit_interval (py_round n q)"
  using py_round_unit by (simp add: unit_interval_def)

lemma unit_avg: "unit_interval p \<Longrightarrow> unit_interval q \<Longrightarrow> unit_interval ((p + q) / 2)"
  by (simp add: unit_interval_def)

lemma unit_half: "unit_interval p \<Longrightarrow> unit_interval (1 / 2 + 1 / 2 * p)"
  by (simp add: unit_interval_def)

lemma unit_mult: "unit_interval p \<Longrightarrow> unit_interval q \<Longrightarrow> unit_interval (p * q)"
  by (simp add: unit_interval_def mult_le_one)

lemma evaluate_run_unit:
  fixes g :: task_graph
  assumes "0 \<le> rm_cost_usd (ac_metrics ctx)" and "0 \<le> ap_max_cost_usd (ac_policy ctx)"
  defines "e \<equiv> evaluate_run g ctx"
  shows "unit_interval (ev_correctness e)" "unit_interval (ev_completeness e)" "unit_interval (ev_cost e)"
    "unit_interval (ev_latency e)" "unit_interval (ev_quality e)" "unit_interval (ev_confidence e)"
proof -
  define ts where "ts = graph_tasks g"
  define total where "total = (if ts = [] then 1 else of_nat (length ts) :: rat)"
  define s where "s = (of_nat (length (filter (\<lambda>t. at_status t = TS_SUCCEEDED) ts)) :: rat)"
  define f where "f = (of_nat (length (filter (\<lambda>t. at_status t = TS_FAILED) ts)) :: rat)"
  have pos: "0 < total" "0 \<le> s" "0 \<le> f" by (simp_all add: total_def s_def f_def)
  have "s \<le> of_nat (length ts)" "f \<le> of_nat (length ts)"
    unfolding s_def f_def by (simp_all only: of_nat_le_iff count_le)
  then have le: "s \<le> total" "f \<le> total" by (auto simp: total_def s_def f_def)
  have c: "unit_interval (1 - f / total)" "unit_interval (s / total)"
    using pos le by (simp_all add: unit_interval_def)
  have "0 \<le> rm_cost_usd (ac_metrics ctx) / (if ap_max_cost_usd (ac_policy ctx) = 0 then 1 else ap_max_cost_usd (ac_policy ctx))"
    using assms(1,2) by simp
  then have k: "unit_interval (max 0 (1 - min (rm_cost_usd (ac_metrics ctx) /
      (if ap_max_cost_usd (ac_policy ctx) = 0 then 1 else ap_max_cost_usd (ac_policy ctx))) 1))"
    unfolding unit_interval_def by linarith
  have q: "unit_interval ((1 - f / total + s / total) / 2)" "unit_interval (1 / 2 + 1 / 2 * (1 - f / total))"
    using unit_avg [OF c] unit_half [OF c(1)] by simp_all
  have e: "ev_correctness e = py_round 4 (1 - f / total)" "ev_completeness e = py_round 4 (s / total)"
    "ev_quality e = py_round 4 ((1 - f / total + s / total) / 2)"
    "ev_confidence e = py_round 4 (s / total * (1 / 2 + 1 / 2 * (1 - f / total)))"
    by (simp_all add: e_def evaluate_run_def Let_def ts_def total_def s_def f_def)
  show "unit_interval (ev_correctness e)" "unit_interval (ev_completeness e)" "unit_interval (ev_quality e)"
    "unit_interval (ev_confidence e)"
    unfolding e by (intro unit_round c q unit_mult)+
  show "unit_interval (ev_cost e)" unfolding e_def evaluate_run_def Let_def by (simp only: evaluation.simps) (intro unit_round k)
  show "unit_interval (ev_latency e)" unfolding e_def evaluate_run_def Let_def
    by (simp only: evaluation.simps) (intro unit_round, auto simp: unit_interval_def)
qed

text \<open>
  Every score of an evaluation, and the weighted overall score, lies between 0 and 1.
\<close>

theorem evaluation_scores_unit:
  fixes g :: task_graph
  assumes "0 \<le> rm_cost_usd (ac_metrics ctx)" and "0 \<le> ap_max_cost_usd (ac_policy ctx)"
  defines "e \<equiv> evaluate_run g ctx"
  shows "{ev_correctness e, ev_completeness e, ev_cost e, ev_latency e, ev_quality e, ev_confidence e, overall e} \<subseteq> {0..1}"
proof -
  note u = evaluate_run_unit [OF assms(1,2), of g, folded e_def]
  have "unit_interval (overall e)"
    unfolding overall_def by (rule unit_round) (use u in \<open>auto simp: unit_interval_def field_simps\<close>)
  with u show ?thesis by (simp add: unit_interval_def)
qed

section \<open>Witnesses\<close>

definition short_config :: agent_config where
  "short_config = sample_config\<lparr>cf_max_iterations := 1\<rparr>"

definition short_policy :: agent_policy where
  "short_policy = default_policy\<lparr>ap_max_steps := 2\<rparr>"

definition short_context :: agent_context where
  "short_context = agent_context_init sample_goal short_config [] [] [] short_policy"

lemma short_fresh: "fresh_ids sample_env (nat (ap_max_steps short_policy) * nat (cf_max_iterations short_config))"
proof -
  have n: "nat (ap_max_steps short_policy) * nat (cf_max_iterations short_config) = Suc (Suc 0)"
    by (simp add: short_policy_def short_config_def)
  have h: "hex_key sample_env 0 = ''0''" "hex_key sample_env (Suc 0) = ''1''" by code_simp+
  show ?thesis unfolding n fresh_ids_def lessThan_Suc lessThan_0
    by (auto simp: h planned_keys_def work_key_def)
qed

lemma short_run: "\<exists>r. run_agent sample_env ''a'' st short_context = Inr r"
  using run_agent_Inr whole_run_ok [OF short_fresh] unfolding short_context_def run_ok_def by blast


theorem run_agent_latency_score_constant_witness:
  "\<exists>r e. run_agent sample_env ''a'' AS_CREATED short_context = Inr r \<and> ar_evaluation r = Some e \<and> ev_latency e = 1"
proof -
  obtain r where r: "run_agent sample_env ''a'' AS_CREATED short_context = Inr r" using short_run by blast
  have "rv_evaluation (ended (run_stages sample_env ''a'' (start_vars AS_CREATED short_context))) \<noteq> None"
    by code_simp
  with run_agent_fields(5) [OF r] obtain e where e: "ar_evaluation r = Some e" by auto
  from run_agent_latency_score_constant [OF short_fresh r [unfolded short_context_def] e] r e show ?thesis by blast
qed

theorem run_agent_final_state_witness:
  "\<exists>r. run_agent sample_env ''a'' AS_CREATED short_context = Inr r
     \<and> last (ar_events r) = EV_AgentStopped ''a'' (agent_state_value (ar_state r))"
proof -
  obtain r where r: "run_agent sample_env ''a'' AS_CREATED short_context = Inr r" using short_run by blast
  with run_agent_final_state [OF r] show ?thesis by blast
qed

lemma short_fresh_paused:
  "fresh_ids (sample_env\<lparr>env_signal := \<lambda>_. (False, True)\<rparr>)
     (nat (ap_max_steps short_policy) * nat (cf_max_iterations short_config))"
  using short_fresh by (simp add: fresh_ids_def hex_key_def [abs_def])

theorem run_agent_pause_witness:
  "\<exists>r. run_agent (sample_env\<lparr>env_signal := \<lambda>_. (False, True)\<rparr>) ''a'' AS_CREATED short_context = Inr r
     \<and> ar_state r = AS_FAILED"
proof -
  let ?env = "sample_env\<lparr>env_signal := \<lambda>_. (False, True)\<rparr>"
  obtain r where r: "run_agent ?env ''a'' AS_CREATED short_context = Inr r"
    using run_agent_Inr whole_run_ok [OF short_fresh_paused] unfolding short_context_def run_ok_def by blast
  have "cf_reflection_enabled (ac_config short_context)" "0 < cf_max_iterations (ac_config short_context)"
    by (simp_all add: short_context_def agent_context_init_def short_config_def sample_config_def)
  with run_agent_pause [of ?env short_context "''a''" r] r show ?thesis by (auto simp: sample_env_def)
qed

theorem run_agent_twice_witness:
  "\<exists>r. run_agent sample_env ''a'' AS_PAUSED short_context = Inr r \<and> ar_state r = AS_FAILED"
proof -
  obtain r where r: "run_agent sample_env ''a'' AS_PAUSED short_context = Inr r" using short_run by blast
  with run_agent_twice [OF _ r] show ?thesis by auto
qed

theorem evaluation_scores_unit_witness:
  "overall (evaluate_run sample_task_graph short_context) \<in> {0..1}"
  using evaluation_scores_unit [of short_context sample_task_graph]
  by (simp add: short_context_def agent_context_init_def run_metrics_init_def short_policy_def default_policy_def)

end
