(* ===== verification/Agent_Team.thy ===== *)
theory Agent_Team
  imports Agent_Run
begin

text \<open>
  What runs around single agents: the registry of agent types (\<^verbatim>\<open>app/agents/registry/registry.py\<close>),
  the manager of running instances (\<^verbatim>\<open>manager/manager.py\<close>), the monitor (\<^verbatim>\<open>monitoring/monitor.py\<close>),
  the message bus (\<^verbatim>\<open>communication/bus.py\<close>) and the coordinator of several agents
  (\<^verbatim>\<open>coordination/coordinator.py\<close>). Identifiers are numbers; an agent class is its name.
\<close>

section \<open>Registry\<close>

record agent_registration =
  rg_slug :: string
  rg_version :: string
  rg_agent_cls :: string
  rg_capabilities :: "string list"
  rg_tags :: "string list"
  rg_category :: string
  rg_required_permission :: string

fun chunks_key :: "string list \<Rightarrow> int list option" where
  "chunks_key [] = Some []"
| "chunks_key (c # cs) =
     (case (if isdigit c then py_int c else Some 0) of
        None \<Rightarrow> None
      | Some n \<Rightarrow> map_option (Cons n) (chunks_key cs))"

definition version_key :: "string \<Rightarrow> int list option" where
  \<comment> \<open>\<open>None\<close> for the \<open>ValueError\<close> of a chunk of superscript digits\<close>
  "version_key v = chunks_key (split_on (CHR ''.'') v)"

type_synonym agent_registry = "(string, (string, agent_registration) dict) dict"

definition registry_register :: "agent_registration \<Rightarrow> agent_registry \<Rightarrow> agent_registry" where
  "registry_register r reg =
     dict_set (rg_slug r)
       (dict_set (rg_version r) r (case dict_get reg (rg_slug r) of None \<Rightarrow> [] | Some vs \<Rightarrow> vs)) reg"

datatype registry_exc = KeyError string | VersionValueError

fun max_version :: "string list \<Rightarrow> (string \<times> int list) option \<Rightarrow> (registry_exc + (string \<times> int list) option)" where
  \<comment> \<open>\<open>max(versions, key=_version_key)\<close>: the first of the greatest\<close>
  "max_version [] best = Inr best"
| "max_version (v # vs) best =
     (case version_key v of
        None \<Rightarrow> Inl VersionValueError
      | Some k \<Rightarrow>
          max_version vs (case best of None \<Rightarrow> Some (v, k) | Some (b, kb) \<Rightarrow> if kb < k then Some (v, k) else Some (b, kb)))"

definition registry_get :: "agent_registry \<Rightarrow> string \<Rightarrow> string option \<Rightarrow> registry_exc + agent_registration" where
  "registry_get reg slug version =
     (case dict_get reg slug of
        None \<Rightarrow> Inl (KeyError (''No agent registered for slug '' @ quoted slug @ ''.''))
      | Some vs \<Rightarrow>
          if vs = [] then Inl (KeyError (''No agent registered for slug '' @ quoted slug @ ''.''))
          else (case version of
            Some v \<Rightarrow>
              (case dict_get vs v of
                 None \<Rightarrow> Inl (KeyError (''Agent '' @ quoted slug @ '' has no version '' @ quoted v @ ''.''))
               | Some r \<Rightarrow> Inr r)
          | None \<Rightarrow>
              (case max_version (keys vs) None of
                 Inl x \<Rightarrow> Inl x
               | Inr None \<Rightarrow> Inl (KeyError slug)
               | Inr (Some (v, _)) \<Rightarrow> Inr (the (dict_get vs v)))))"

fun registry_all :: "agent_registry \<Rightarrow> string list \<Rightarrow> registry_exc + agent_registration list" where
  "registry_all reg [] = Inr []"
| "registry_all reg (s # ss) =
     (case registry_get reg s None of
        Inl x \<Rightarrow> Inl x
      | Inr r \<Rightarrow> (case registry_all reg ss of Inl x \<Rightarrow> Inl x | Inr rs \<Rightarrow> Inr (r # rs)))"

definition discover ::
  "agent_registry \<Rightarrow> string option \<Rightarrow> string option \<Rightarrow> string option \<Rightarrow> registry_exc + agent_registration list" where
  "discover reg capability tag category =
     (case registry_all reg (keys reg) of
        Inl x \<Rightarrow> Inl x
      | Inr rs \<Rightarrow> Inr (filter (\<lambda>r.
          \<not> (truthy capability \<and> the capability \<notin> set (rg_capabilities r))
          \<and> \<not> (truthy tag \<and> the tag \<notin> set (rg_tags r))
          \<and> \<not> (truthy category \<and> rg_category r \<noteq> the category)) rs))"

section \<open>Manager\<close>

record managed_agent =
  mg_slug :: string
  mg_state :: agent_state
  mg_paused :: bool
  mg_cancelled :: bool

type_synonym agent_manager = "(nat, managed_agent) dict"

definition manager_start :: "nat \<Rightarrow> string \<Rightarrow> agent_manager \<Rightarrow> agent_manager" where
  "manager_start i slug m =
     dict_set i \<lparr>mg_slug = slug, mg_state = AS_CREATED, mg_paused = False, mg_cancelled = False\<rparr> m"

definition manager_update :: "nat \<Rightarrow> (managed_agent \<Rightarrow> managed_agent) \<Rightarrow> agent_manager \<Rightarrow> agent_manager \<times> bool" where
  "manager_update i f m = (case dict_get m i of None \<Rightarrow> (m, False) | Some a \<Rightarrow> (dict_set i (f a) m, True))"

definition manager_pause :: "nat \<Rightarrow> agent_manager \<Rightarrow> agent_manager \<times> bool" where
  "manager_pause i = manager_update i (\<lambda>a. a\<lparr>mg_paused := True\<rparr>)"

definition manager_resume :: "nat \<Rightarrow> agent_manager \<Rightarrow> agent_manager \<times> bool" where
  "manager_resume i = manager_update i (\<lambda>a. a\<lparr>mg_paused := False\<rparr>)"

definition manager_cancel :: "nat \<Rightarrow> agent_manager \<Rightarrow> agent_manager \<times> bool" where
  "manager_cancel i = manager_update i (\<lambda>a. a\<lparr>mg_cancelled := True\<rparr>)"

definition manager_run ::
  "agent_registry \<Rightarrow> (agent_registration \<Rightarrow> goal \<Rightarrow> 'x + 'r) \<Rightarrow> nat \<Rightarrow> string \<Rightarrow> string option \<Rightarrow> goal
   \<Rightarrow> agent_manager \<Rightarrow> agent_manager \<times> (registry_exc + 'x + 'r)" where
  \<comment> \<open>\<open>run\<close> of the agent is the argument \<open>exec\<close>; the entry is removed whether it raises or not\<close>
  "manager_run reg exec i slug version goal m =
     (case registry_get reg slug version of
        Inl x \<Rightarrow> (m, Inl x)
      | Inr r \<Rightarrow>
          (let m1 = manager_start i slug m; res = exec r goal
           in (dict_pop i m1, Inr res)))"

definition count_state :: "(string, nat) dict \<Rightarrow> managed_agent \<Rightarrow> (string, nat) dict" where
  "count_state d a =
     (let k = agent_state_value (mg_state a)
      in dict_set k ((case dict_get d k of None \<Rightarrow> 0 | Some n \<Rightarrow> n) + 1) d)"

definition manager_health :: "agent_manager \<Rightarrow> nat \<times> (string, nat) dict" where
  "manager_health m = (length m, foldl count_state [] (map snd m))"

section \<open>Monitor\<close>

record monitor_snapshot =
  mn_runs_total :: nat
  mn_runs_succeeded :: nat
  mn_runs_failed :: nat
  mn_tasks_total :: nat
  mn_tasks_failed :: nat
  mn_retries :: nat
  mn_total_tokens :: int
  mn_total_cost_usd :: rat
  mn_total_latency_ms :: rat
  mn_tool_calls :: nat

definition monitor_init :: monitor_snapshot where
  "monitor_init = \<lparr>mn_runs_total = 0, mn_runs_succeeded = 0, mn_runs_failed = 0, mn_tasks_total = 0,
     mn_tasks_failed = 0, mn_retries = 0, mn_total_tokens = 0, mn_total_cost_usd = 0, mn_total_latency_ms = 0,
     mn_tool_calls = 0\<rparr>"

definition record_run :: "agent_run_result \<Rightarrow> monitor_snapshot \<Rightarrow> monitor_snapshot" where
  "record_run r s =
     (let m = ar_metrics r
      in \<lparr>mn_runs_total = mn_runs_total s + 1,
          mn_runs_succeeded = mn_runs_succeeded s + (if ar_goal_status r = GS_COMPLETED then 1 else 0),
          mn_runs_failed = mn_runs_failed s + (if ar_goal_status r = GS_FAILED then 1 else 0),
          mn_tasks_total = mn_tasks_total s + rm_tasks_total m,
          mn_tasks_failed = mn_tasks_failed s + rm_tasks_failed m,
          mn_retries = mn_retries s + rm_retries m,
          mn_total_tokens = mn_total_tokens s + (rm_input_tokens m + rm_output_tokens m),
          mn_total_cost_usd = py_round 6 (mn_total_cost_usd s + rm_cost_usd m),
          mn_total_latency_ms = mn_total_latency_ms s + rm_latency_ms m,
          mn_tool_calls = mn_tool_calls s + rm_tool_calls m\<rparr>)"

definition success_rate :: "monitor_snapshot \<Rightarrow> rat" where
  "success_rate s = (if mn_runs_total s = 0 then 0
     else py_round 4 (of_nat (mn_runs_succeeded s) / of_nat (mn_runs_total s)))"

definition avg_latency_ms :: "monitor_snapshot \<Rightarrow> rat" where
  "avg_latency_ms s = (if mn_runs_total s = 0 then 0
     else py_round 2 (mn_total_latency_ms s / of_nat (mn_runs_total s)))"

section \<open>Message bus\<close>

datatype message_type = MT_REQUEST | MT_RESPONSE | MT_DELEGATE | MT_BROADCAST | MT_STATUS

record agent_message =
  ms_sender :: string
  ms_recipient :: string
  ms_content :: string
  ms_type :: message_type

record message_bus =
  mb_mailboxes :: "(string, agent_message list) dict"
  mb_agents :: "string list"
  mb_history :: "agent_message list"

definition message_bus_init :: message_bus where
  "message_bus_init = \<lparr>mb_mailboxes = [], mb_agents = [], mb_history = []\<rparr>"

definition mailbox :: "message_bus \<Rightarrow> string \<Rightarrow> agent_message list" where
  "mailbox b a = (case dict_get (mb_mailboxes b) a of None \<Rightarrow> [] | Some ms \<Rightarrow> ms)"

definition bus_register :: "string \<Rightarrow> message_bus \<Rightarrow> message_bus" where
  "bus_register a b = b\<lparr>mb_agents := List.insert a (mb_agents b), mb_mailboxes := dict_set a (mailbox b a) (mb_mailboxes b)\<rparr>"

definition put_message :: "agent_message \<Rightarrow> string \<Rightarrow> message_bus \<Rightarrow> message_bus" where
  "put_message m a b = b\<lparr>mb_mailboxes := dict_set a (mailbox b a @ [m]) (mb_mailboxes b)\<rparr>"

definition bus_send :: "agent_message \<Rightarrow> message_bus \<Rightarrow> message_bus" where
  "bus_send m b =
     (let b1 = b\<lparr>mb_history := mb_history b @ [m]\<rparr>
      in if ms_recipient m = ''*''
         then fold (\<lambda>a b. if a \<noteq> ms_sender m then put_message m a b else b) (mb_agents b1) b1
         else put_message m (ms_recipient m) b1)"

definition bus_receive :: "string \<Rightarrow> message_bus \<Rightarrow> agent_message list \<times> message_bus" where
  "bus_receive a b =
     (if mailbox b a = [] then ([], b)
      else (mailbox b a, b\<lparr>mb_mailboxes := dict_set a [] (mb_mailboxes b)\<rparr>))"

definition bus_pending :: "message_bus \<Rightarrow> string \<Rightarrow> nat" where
  "bus_pending b a = length (mailbox b a)"

section \<open>Coordinator\<close>

datatype agent_role = AR_SUPERVISOR | AR_WORKER | AR_COORDINATOR | AR_OBSERVER

record subgoal_result =
  sg_subgoal :: string
  sg_worker :: string
  sg_output :: string
  sg_status :: goal_status

record coordinator =
  co_supervisor :: string
  co_workers :: "string list"
  co_roles :: "(string, agent_role) dict"
  co_bus :: message_bus
  co_shared :: "(string, string) dict"

definition coordinator_init :: "string \<Rightarrow> coordinator" where
  "coordinator_init s = \<lparr>co_supervisor = s, co_workers = [], co_roles = [(s, AR_SUPERVISOR)],
     co_bus = bus_register s message_bus_init, co_shared = []\<rparr>"

definition add_worker :: "string \<Rightarrow> coordinator \<Rightarrow> coordinator" where
  "add_worker slug c = c\<lparr>co_workers := co_workers c @ [slug], co_roles := dict_set slug AR_WORKER (co_roles c),
     co_bus := bus_register slug (co_bus c)\<rparr>"

definition add_observer :: "string \<Rightarrow> coordinator \<Rightarrow> coordinator" where
  "add_observer slug c = c\<lparr>co_roles := dict_set slug AR_OBSERVER (co_roles c), co_bus := bus_register slug (co_bus c)\<rparr>"

definition role_of :: "coordinator \<Rightarrow> string \<Rightarrow> agent_role" where
  "role_of c slug = (case dict_get (co_roles c) slug of None \<Rightarrow> AR_WORKER | Some r \<Rightarrow> r)"

definition new_goal :: "string \<Rightarrow> goal" where
  "new_goal objective = \<lparr>g_objective = objective, g_priority = GP_NORMAL, g_deadline = None, g_constraints = [],
     g_expected_output = None, g_success_criteria = [], g_dependencies = [], g_status = GS_PENDING\<rparr>"

fun run_subgoals ::
  "(string \<Rightarrow> goal \<Rightarrow> 'x + string \<times> goal_status) \<Rightarrow> nat \<Rightarrow> string list \<Rightarrow> coordinator
   \<Rightarrow> coordinator \<times> ('x + subgoal_result list)" where
  \<comment> \<open>\<open>runner\<close> is \<open>AgentManager.run\<close>\<close>
  "run_subgoals runner i [] c = (c, Inr [])"
| "run_subgoals runner i (sg # sgs) c =
     (let worker = co_workers c ! (i mod length (co_workers c));
          c1 = c\<lparr>co_bus := bus_send \<lparr>ms_sender = co_supervisor c, ms_recipient = worker, ms_content = sg, ms_type = MT_DELEGATE\<rparr> (co_bus c)\<rparr>
      in case runner worker (new_goal sg) of
           Inl x \<Rightarrow> (c1, Inl x)
         | Inr (out, status) \<Rightarrow>
             (let c2 = c1\<lparr>co_shared := dict_set (''subgoal_'' @ nat_digits i) out (co_shared c1),
                          co_bus := bus_send \<lparr>ms_sender = worker, ms_recipient = co_supervisor c, ms_content = out, ms_type = MT_RESPONSE\<rparr> (co_bus c1)\<rparr>
              in case run_subgoals runner (Suc i) sgs c2 of
                   (c3, Inl x) \<Rightarrow> (c3, Inl x)
                 | (c3, Inr rs) \<Rightarrow>
                     (c3, Inr (\<lparr>sg_subgoal = sg, sg_worker = worker, sg_output = out, sg_status = status\<rparr> # rs))))"

definition synthesis_goal :: "string \<Rightarrow> subgoal_result list \<Rightarrow> goal" where
  "synthesis_goal objective rs =
     (new_goal (''Synthesize a final answer for: '' @ objective))
       \<lparr>g_constraints := [''Incorporate these worker findings:'' @ newline @
          join newline (map (\<lambda>r. ''- '' @ sg_subgoal r @ '': '' @ sg_output r) rs)],
        g_expected_output := Some ''A single consolidated result.''\<rparr>"

definition coordinate ::
  "(string \<Rightarrow> goal \<Rightarrow> 'x + string \<times> goal_status) \<Rightarrow> string \<Rightarrow> string list \<Rightarrow> coordinator
   \<Rightarrow> coordinator \<times> ('x + subgoal_result list \<times> string \<times> (string, string) dict)" where
  "coordinate runner objective subgoals c =
     (let c0 = (if co_workers c = [] then c\<lparr>co_workers := [co_supervisor c]\<rparr> else c)
      in case run_subgoals runner 0 subgoals c0 of
           (c1, Inl x) \<Rightarrow> (c1, Inl x)
         | (c1, Inr rs) \<Rightarrow>
             (case runner (co_supervisor c1) (synthesis_goal objective rs) of
                Inl x \<Rightarrow> (c1, Inl x)
              | Inr (out, _) \<Rightarrow> (c1, Inr (rs, out, co_shared c1))))"

section \<open>The registry returns the latest version\<close>

lemma max_version_spec:
  assumes "max_version vs best = Inr res"
    and "\<And>b kb. best = Some (b, kb) \<Longrightarrow> version_key b = Some kb"
  shows "(res = None \<longrightarrow> vs = [] \<and> best = None)
    \<and> (\<forall>v k. res = Some (v, k) \<longrightarrow> version_key v = Some k \<and> (v \<in> set vs \<or> best = Some (v, k))
         \<and> (\<forall>u \<in> set vs. \<exists>ku. version_key u = Some ku \<and> ku \<le> k)
         \<and> (\<forall>b kb. best = Some (b, kb) \<longrightarrow> kb \<le> k))"
  using assms
proof (induction vs best rule: max_version.induct)
  case (2 v vs best)
  from "2.prems"(1) obtain k where k: "version_key v = Some k" by (cases "version_key v") simp_all
  define nb where "nb = (case best of None \<Rightarrow> Some (v, k) | Some (b, kb) \<Rightarrow> if kb < k then Some (v, k) else Some (b, kb))"
  have rec: "max_version vs nb = Inr res" using "2.prems"(1) k by (simp add: nb_def)
  have vk: "version_key b = Some kb" if "nb = Some (b, kb)" for b kb
    using that k "2.prems"(2) by (auto simp: nb_def split: option.splits if_splits)
  note IH = "2.IH" [OF k, folded nb_def, OF rec vk]
  have "nb \<noteq> None" by (simp add: nb_def split: option.split)
  then obtain b kb where nb: "nb = Some (b, kb)" by (cases nb) auto
  have ge: "k \<le> kb" "\<And>c kc. best = Some (c, kc) \<Longrightarrow> kc \<le> kb" and src: "b = v \<or> best = Some (b, kb)"
    using nb by (auto simp: nb_def split: option.splits if_splits)
  obtain w kw where w: "res = Some (w, kw)" using IH nb by (cases res) auto
  have "kb \<le> kw" using IH w nb by blast
  then show ?case using IH w nb ge src k vk [OF nb] by (auto intro: order_trans)
qed auto

text \<open>
  Without a version the registry returns a registered version of the slug whose numeric key
  no registered version exceeds; with a version it returns exactly what was registered last under
  that version.
\<close>

theorem registry_get_latest:
  assumes a: "dict_get reg slug = Some vs" and r: "registry_get reg slug None = Inr r"
  shows "(\<exists>v k. dict_get vs v = Some r \<and> version_key v = Some k
         \<and> (\<forall>u \<in> set (keys vs). \<exists>ku. version_key u = Some ku \<and> ku \<le> k))
    \<and> registry_get (registry_register r' reg) (rg_slug r') (Some (rg_version r')) = Inr r'"
proof -
  have "\<exists>v k. dict_get vs v = Some r \<and> version_key v = Some k
         \<and> (\<forall>u \<in> set (keys vs). \<exists>ku. version_key u = Some ku \<and> ku \<le> k)"
  proof -
    from r a obtain v k where m: "max_version (keys vs) None = Inr (Some (v, k))" and rv: "r = the (dict_get vs v)"
      by (auto simp: registry_get_def split: if_splits sum.splits option.splits)
    have s: "version_key v = Some k" "v \<in> set (keys vs)" "\<forall>u \<in> set (keys vs). \<exists>ku. version_key u = Some ku \<and> ku \<le> k"
      using max_version_spec [OF m] by auto
    from s(2) obtain x where "dict_get vs v = Some x" using dict_get_None_iff [of vs v] by (cases "dict_get vs v") auto
    with rv s show ?thesis by auto
  qed
  moreover have "registry_get (registry_register r' reg) (rg_slug r') (Some (rg_version r')) = Inr r'"
  proof -
    let ?vs = "dict_set (rg_version r') r' (case dict_get reg (rg_slug r') of None \<Rightarrow> [] | Some vs \<Rightarrow> vs)"
    have "dict_get ?vs (rg_version r') = Some r'" by simp
    then have "?vs \<noteq> []" by force
    then show ?thesis by (simp add: registry_get_def registry_register_def)
  qed
  ultimately show ?thesis by blast
qed

section \<open>The manager forgets finished runs\<close>

lemma dict_pop_set_new: "i \<notin> fst ` set m \<Longrightarrow> dict_pop i (dict_set i a m) = m"
  by (induction m) auto

lemma manager_run_restores:
  "i \<notin> set (keys m) \<Longrightarrow> fst (manager_run reg exec i slug version goal m) = m"
  by (simp add: manager_run_def manager_start_def Let_def dict_pop_set_new split: sum.splits)

lemma sum_dict_set:
  "dict_ok d \<Longrightarrow> sum_list (map snd (dict_set k n d)) + (case dict_get d k of None \<Rightarrow> 0 | Some m \<Rightarrow> m)
     = sum_list (map snd d) + (n :: nat)"
  by (induction d) (auto simp: dict_ok_def split: option.splits dest: map_of_SomeD)

lemma health_total:
  "dict_ok d \<Longrightarrow> dict_ok (foldl count_state d as) \<and>
     sum_list (map snd (foldl count_state d as)) = sum_list (map snd d) + length as"
proof (induction as arbitrary: d)
  case (Cons a as)
  let ?k = "agent_state_value (mg_state a)"
  have "sum_list (map snd (count_state d a)) = sum_list (map snd d) + 1"
    using sum_dict_set [OF Cons.prems, of ?k "(case dict_get d ?k of None \<Rightarrow> 0 | Some n \<Rightarrow> n) + 1"]
    by (simp add: count_state_def Let_def)
  moreover have "dict_ok (count_state d a)" using Cons.prems by (simp add: count_state_def Let_def)
  ultimately show ?case using Cons.IH [of "count_state d a"] by simp
qed simp

lemma manager_health_adds_up: "sum_list (map snd (snd (manager_health m))) = fst (manager_health m)"
  using health_total [of "[]" "map snd m"] by (simp add: manager_health_def)

section \<open>The monitor adds up\<close>

lemma monitor_totals:
  "mn_runs_total (fold record_run rs s) = mn_runs_total s + length rs \<and>
   mn_runs_succeeded (fold record_run rs s)
     = mn_runs_succeeded s + length (filter (\<lambda>r. ar_goal_status r = GS_COMPLETED) rs) \<and>
   mn_runs_failed (fold record_run rs s)
     = mn_runs_failed s + length (filter (\<lambda>r. ar_goal_status r = GS_FAILED) rs) \<and>
   mn_tasks_total (fold record_run rs s) = mn_tasks_total s + sum_list (map (rm_tasks_total \<circ> ar_metrics) rs)"
  by (induction rs arbitrary: s) (simp_all add: record_run_def Let_def)

lemma success_rate_unit: "unit_interval (success_rate (fold record_run rs monitor_init))"
proof (cases "rs = []")
  case True
  then show ?thesis by (simp add: success_rate_def monitor_init_def unit_interval_def)
next
  case False
  let ?s = "fold record_run rs monitor_init"
  have t: "mn_runs_total ?s = length rs"
    "mn_runs_succeeded ?s = length (filter (\<lambda>r. ar_goal_status r = GS_COMPLETED) rs)"
    using monitor_totals [of rs monitor_init] by (simp_all add: monitor_init_def)
  have "(of_nat (mn_runs_succeeded ?s) :: rat) \<le> of_nat (mn_runs_total ?s)"
    unfolding t by (simp only: of_nat_le_iff count_le)
  then have "unit_interval (of_nat (mn_runs_succeeded ?s) / of_nat (mn_runs_total ?s))"
    using False t by (simp add: unit_interval_def)
  then show ?thesis using False t by (simp add: success_rate_def unit_round)
qed

section \<open>Mailboxes are queues\<close>

datatype bus_op = Register string | Send agent_message | Receive string

fun bus_run :: "bus_op list \<Rightarrow> message_bus \<Rightarrow> message_bus \<times> (string \<times> agent_message list) list" where
  \<comment> \<open>a history of calls with what the receive calls returned\<close>
  "bus_run [] b = (b, [])"
| "bus_run (Register a # ops) b = bus_run ops (bus_register a b)"
| "bus_run (Send m # ops) b = bus_run ops (bus_send m b)"
| "bus_run (Receive a # ops) b =
     (case bus_receive a b of (ms, b1) \<Rightarrow> (case bus_run ops b1 of (b2, outs) \<Rightarrow> (b2, (a, ms) # outs)))"

definition goes_to :: "string set \<Rightarrow> agent_message \<Rightarrow> string \<Rightarrow> bool" where
  "goes_to regs m a \<longleftrightarrow> (if ms_recipient m = ''*'' then a \<in> regs \<and> a \<noteq> ms_sender m else a = ms_recipient m)"

fun sent_to :: "string \<Rightarrow> string set \<Rightarrow> bus_op list \<Rightarrow> agent_message list" where
  \<comment> \<open>the specification: the messages a history addresses to an agent, in order\<close>
  "sent_to a regs [] = []"
| "sent_to a regs (Register b # ops) = sent_to a (insert b regs) ops"
| "sent_to a regs (Send m # ops) = (if goes_to regs m a then [m] else []) @ sent_to a regs ops"
| "sent_to a regs (Receive b # ops) = sent_to a regs ops"

definition received :: "string \<Rightarrow> (string \<times> agent_message list) list \<Rightarrow> agent_message list" where
  "received a outs = concat (map snd (filter (\<lambda>p. fst p = a) outs))"

lemma mailbox_put: "mailbox (put_message m b bus) a = (if a = b then mailbox bus b @ [m] else mailbox bus a)"
  by (simp add: put_message_def mailbox_def dict_get_set)

lemma put_message_agents [simp]: "mb_agents (put_message m b bus) = mb_agents bus"
  by (simp add: put_message_def)

lemma mailbox_register [simp]: "mailbox (bus_register b bus) a = mailbox bus a"
  by (simp add: bus_register_def mailbox_def dict_get_set)

lemma broadcast_fold:
  "distinct as \<Longrightarrow> mailbox (fold (\<lambda>x b. if x \<noteq> s then put_message m x b else b) as bus) a
     = mailbox bus a @ (if a \<in> set as \<and> a \<noteq> s then [m] else [])
   \<and> mb_agents (fold (\<lambda>x b. if x \<noteq> s then put_message m x b else b) as bus) = mb_agents bus"
  by (induction as arbitrary: bus) (auto simp: mailbox_put)

lemma mailbox_send:
  assumes "distinct (mb_agents bus)"
  shows "mailbox (bus_send m bus) a = mailbox bus a @ (if goes_to (set (mb_agents bus)) m a then [m] else [])
    \<and> mb_agents (bus_send m bus) = mb_agents bus"
proof -
  have h: "mailbox (bus\<lparr>mb_history := h\<rparr>) x = mailbox bus x" for h x by (simp add: mailbox_def)
  show ?thesis
    using broadcast_fold [OF assms, of "ms_sender m" m "bus\<lparr>mb_history := mb_history bus @ [m]\<rparr>" a]
    by (simp add: bus_send_def Let_def goes_to_def mailbox_put h)
qed

lemma mailbox_receive:
  "bus_receive b bus = (ms, bus') \<Longrightarrow> ms = mailbox bus b \<and> mb_agents bus' = mb_agents bus
     \<and> mailbox bus' a = (if a = b then [] else mailbox bus a)"
  by (auto simp: bus_receive_def mailbox_def dict_get_set split: if_splits)

lemma bus_run_fifo:
  "distinct (mb_agents bus) \<Longrightarrow> bus_run ops bus = (bus', outs) \<Longrightarrow>
   received a outs @ mailbox bus' a = mailbox bus a @ sent_to a (set (mb_agents bus)) ops"
proof (induction ops bus arbitrary: bus' outs rule: bus_run.induct)
  case (2 b ops bus)
  have "distinct (mb_agents (bus_register b bus))" "set (mb_agents (bus_register b bus)) = insert b (set (mb_agents bus))"
    using "2.prems"(1) by (simp_all add: bus_register_def)
  with 2 show ?case by simp
next
  case (3 m ops bus)
  note ms = mailbox_send [OF "3.prems"(1), of m]
  with 3 show ?case by simp
next
  case (4 b ops bus)
  obtain ms bus1 where r: "bus_receive b bus = (ms, bus1)" by fastforce
  obtain bus2 outs2 where s: "bus_run ops bus1 = (bus2, outs2)" by fastforce
  note mr = mailbox_receive [OF r, of a]
  have d: "distinct (mb_agents bus1)" using mr "4.prems"(1) by simp
  from "4.IH" [OF r [symmetric] d s] mr "4.prems"(2) r s show ?case
    by (auto simp: received_def)
qed (simp add: received_def)

text \<open>
  C27: a mailbox is a queue: over any history of registrations, sends and receives, the messages
  an agent has received followed by those still pending are exactly the messages that were
  addressed to it, directly or by a broadcast while it was registered, in the order sent and each
  once.
\<close>

theorem bus_is_fifo:
  assumes "bus_run ops message_bus_init = (bus, outs)"
  shows "received a outs @ mailbox bus a = sent_to a {} ops"
  using bus_run_fifo [OF _ assms, of a] by (simp add: message_bus_init_def mailbox_def)

section \<open>Coordination is round robin\<close>

lemma run_subgoals_spec:
  "run_subgoals runner i sgs c = (c', Inr rs) \<Longrightarrow>
     co_workers c' = co_workers c \<and> co_supervisor c' = co_supervisor c \<and> map sg_subgoal rs = sgs
     \<and> (\<forall>j < length sgs. sg_worker (rs ! j) = co_workers c ! ((i + j) mod length (co_workers c))
          \<and> runner (sg_worker (rs ! j)) (new_goal (sgs ! j)) = Inr (sg_output (rs ! j), sg_status (rs ! j)))"
proof (induction sgs arbitrary: i c rs)
  case (Cons sg sgs)
  define w where "w = co_workers c ! (i mod length (co_workers c))"
  from Cons.prems obtain out st c2 rs' where r: "runner w (new_goal sg) = Inr (out, st)"
    and rec: "run_subgoals runner (Suc i) sgs c2 = (c', Inr rs')"
    and rs: "rs = \<lparr>sg_subgoal = sg, sg_worker = w, sg_output = out, sg_status = st\<rparr> # rs'"
    and c2: "co_workers c2 = co_workers c" "co_supervisor c2 = co_supervisor c"
    by (auto simp: Let_def w_def split: sum.splits prod.splits)
  note IH = Cons.IH [OF rec]
  have "sg_worker (rs ! j) = co_workers c ! ((i + j) mod length (co_workers c))
      \<and> runner (sg_worker (rs ! j)) (new_goal ((sg # sgs) ! j)) = Inr (sg_output (rs ! j), sg_status (rs ! j))"
    if "j < length (sg # sgs)" for j
  proof (cases j)
    case 0
    with r rs show ?thesis by (simp add: w_def)
  next
    case (Suc k)
    with that have "k < length sgs" by simp
    then have "sg_worker (rs' ! k) = co_workers c ! ((Suc i + k) mod length (co_workers c))
        \<and> runner (sg_worker (rs' ! k)) (new_goal (sgs ! k)) = Inr (sg_output (rs' ! k), sg_status (rs' ! k))"
      using IH c2 by metis
    with Suc rs show ?thesis by auto
  qed
  moreover have "co_workers c' = co_workers c \<and> co_supervisor c' = co_supervisor c \<and> map sg_subgoal rs = sg # sgs"
    using IH c2 rs by simp
  ultimately show ?case by blast
qed simp

text \<open>
  A coordination that returns has run every subgoal in order, the \<open>j\<close>-th on worker \<open>j mod n\<close>,
  and reports what that worker's run returned.
\<close>

theorem coordinate_round_robin:
  assumes "coordinate runner objective subgoals c = (c', Inr (rs, out, mem))" and "co_workers c \<noteq> []"
  shows "map sg_subgoal rs = subgoals
    \<and> (\<forall>j < length subgoals. sg_worker (rs ! j) = co_workers c ! (j mod length (co_workers c))
         \<and> runner (sg_worker (rs ! j)) (new_goal (subgoals ! j)) = Inr (sg_output (rs ! j), sg_status (rs ! j)))"
proof -
  from assms obtain c1 where "run_subgoals runner 0 subgoals c = (c1, Inr rs)"
    by (auto simp: coordinate_def Let_def split: prod.splits sum.splits)
  from run_subgoals_spec [OF this] show ?thesis unfolding add_0 by blast
qed

section \<open>Witnesses\<close>

definition sample_registration :: "string \<Rightarrow> agent_registration" where
  "sample_registration v = \<lparr>rg_slug = ''echo'', rg_version = v, rg_agent_cls = ''EchoAgent'', rg_capabilities = [],
     rg_tags = [], rg_category = ''general'', rg_required_permission = ''agent.run''\<rparr>"

theorem registry_get_latest_witness:
  "\<exists>v k. dict_get [(''1.9.0'', sample_registration ''1.9.0''), (''1.10.0'', sample_registration ''1.10.0'')] v
        = Some (sample_registration ''1.10.0'') \<and> version_key v = Some k \<and> [1, 9, 0] \<le> k"
proof -
  let ?vs = "[(''1.9.0'', sample_registration ''1.9.0''), (''1.10.0'', sample_registration ''1.10.0'')]"
  let ?reg = "[(''echo'', ?vs)]"
  have g: "registry_get ?reg ''echo'' None = Inr (sample_registration ''1.10.0'')" by code_simp
  have k: "version_key ''1.9.0'' = Some [1, 9, 0]" by code_simp
  obtain v kv where v: "dict_get ?vs v = Some (sample_registration ''1.10.0'')" "version_key v = Some kv"
    "\<forall>u \<in> set (keys ?vs). \<exists>ku. version_key u = Some ku \<and> ku \<le> kv"
    using registry_get_latest [OF _ g, of ?vs, THEN conjunct1] by fastforce
  have "''1.9.0'' \<in> set (keys ?vs)" by simp
  with v(3) k have "[1, 9, 0] \<le> kv" by (metis option.inject)
  with v(1,2) show ?thesis by blast
qed

theorem bus_is_fifo_witness:
  "\<exists>bus outs. bus_run [Send \<lparr>ms_sender = ''a'', ms_recipient = ''b'', ms_content = ''x'', ms_type = MT_REQUEST\<rparr>, Receive ''b'']
      message_bus_init = (bus, outs) \<and> map ms_content (received ''b'' outs @ mailbox bus ''b'') = [''x'']"
proof -
  let ?ops = "[Send \<lparr>ms_sender = ''a'', ms_recipient = ''b'', ms_content = ''x'', ms_type = MT_REQUEST\<rparr>, Receive ''b'']"
  obtain bus outs where b: "bus_run ?ops message_bus_init = (bus, outs)" by fastforce
  from bus_is_fifo [OF b, of "''b''"] have "map ms_content (received ''b'' outs @ mailbox bus ''b'') = [''x'']"
    by (simp add: goes_to_def)
  then show ?thesis using b by metis
qed

theorem coordinate_round_robin_witness:
  "\<exists>c' rs out mem. coordinate (\<lambda>w g. if w = ''none'' then Inl () else Inr (g_objective g, GS_COMPLETED)) ''o'' [''p'', ''q'']
      (add_worker ''v'' (add_worker ''w'' (coordinator_init ''s''))) = (c', Inr (rs, out, mem))
     \<and> sg_worker (rs ! 1) = ''v''"
proof -
  let ?run = "\<lambda>w g. if w = ''none'' then Inl () else Inr (g_objective g, GS_COMPLETED)"
  let ?c = "add_worker ''v'' (add_worker ''w'' (coordinator_init ''s''))"
  have w: "co_workers ?c = [''w'', ''v'']" by (simp add: add_worker_def coordinator_init_def)
  have "\<exists>c' rs out mem. coordinate ?run ''o'' [''p'', ''q''] ?c = (c', Inr (rs, out, mem))"
    by (simp add: coordinate_def Let_def add_worker_def coordinator_init_def new_goal_def)
  then obtain c' rs out mem where c: "coordinate ?run ''o'' [''p'', ''q''] ?c = (c', Inr (rs, out, mem))" by blast
  have "sg_worker (rs ! 1) = ''v''"
    using coordinate_round_robin [OF c] unfolding w by auto
  with c show ?thesis by blast
qed

end
