(* ===== verification/Task_Queue.thy ===== *)
theory Task_Queue
  imports Py_Value
begin

text \<open>
  The in-memory task queue (\<^verbatim>\<open>app/core/tasks/queue.py\<close>, \<^verbatim>\<open>app/core/tasks/task.py\<close>). A handler is
  code of the caller: a function that says what its \<open>i\<close>-th call with a payload does. The coroutine
  \<^verbatim>\<open>_run\<close> of a record is one operation here, and so is the cancellation that may come instead of
  it or after it. Timestamps are not modelled; identifiers are numbers handed out in order.
\<close>

datatype queue_status =
    QS_PENDING | QS_SCHEDULED | QS_RUNNING | QS_SUCCEEDED | QS_FAILED | QS_RETRYING | QS_CANCELLED | QS_TIMED_OUT

record task_spec =
  sp_name :: string
  sp_payload :: pydict
  sp_delay_seconds :: rat
  sp_max_retries :: int
  sp_timeout_seconds :: "rat option"

record task_record =
  tr_name :: string
  tr_status :: queue_status
  tr_progress :: rat
  tr_result :: pyval
  tr_error :: "string option"
  tr_attempts :: nat

datatype handler_result =
    H_Returns pyval
  | H_Raises string
  | H_TimeoutError
  | H_Slow pyval
  | H_Cancelled

type_synonym task_handler = "nat \<Rightarrow> pydict \<Rightarrow> handler_result"

record task_queue =
  tq_handlers :: "(string, task_handler) dict"
  tq_records :: "(nat, task_record) dict"
  tq_specs :: "(nat, task_spec) dict"
  tq_next :: nat

definition task_queue_init :: task_queue where
  "task_queue_init = \<lparr>tq_handlers = [], tq_records = [], tq_specs = [], tq_next = 0\<rparr>"

definition queue_register :: "string \<Rightarrow> task_handler \<Rightarrow> task_queue \<Rightarrow> task_queue" where
  "queue_register name h q = q\<lparr>tq_handlers := dict_set name h (tq_handlers q)\<rparr>"

definition submit :: "task_spec \<Rightarrow> task_queue \<Rightarrow> (nat \<times> task_queue) result" where
  "submit spec q =
     (case dict_get (tq_handlers q) (sp_name spec) of
        None \<Rightarrow> raise QueueError (''No handler registered for task '' @ quoted (sp_name spec) @ ''.'')
      | Some _ \<Rightarrow>
          (let r = \<lparr>tr_name = sp_name spec,
                    tr_status = (if sp_delay_seconds spec \<noteq> 0 then QS_SCHEDULED else QS_PENDING),
                    tr_progress = 0, tr_result = PNone, tr_error = None, tr_attempts = 0\<rparr>;
               i = tq_next q
           in Inr (i, q\<lparr>tq_records := dict_set i r (tq_records q), tq_specs := dict_set i spec (tq_specs q),
                        tq_next := Suc i\<rparr>)))"

definition queue_get :: "nat \<Rightarrow> task_queue \<Rightarrow> task_record option" where
  "queue_get i q = dict_get (tq_records q) i"

definition queue_cancel :: "nat \<Rightarrow> task_queue \<Rightarrow> task_queue result" where
  \<comment> \<open>an entry of \<open>_running\<close> is never removed, so a finished task is found there too\<close>
  "queue_cancel i q =
     (case (dict_get (tq_specs q) i, dict_get (tq_records q) i) of
        (Some _, Some r) \<Rightarrow> Inr (q\<lparr>tq_records := dict_set i (r\<lparr>tr_status := QS_CANCELLED\<rparr>) (tq_records q)\<rparr>)
      | _ \<Rightarrow> raise NotFoundError ''Task not found.'')"

fun timed :: "task_spec \<Rightarrow> handler_result \<Rightarrow> handler_result" where
  \<comment> \<open>\<open>asyncio.wait_for\<close> when the spec sets a timeout\<close>
  "timed spec (H_Slow v) =
     (case sp_timeout_seconds spec of
        None \<Rightarrow> H_Returns v
      | Some q \<Rightarrow> if q = 0 then H_Returns v else H_TimeoutError)"
| "timed spec r = r"

fun is_exception :: "handler_result \<Rightarrow> bool" where
  "is_exception (H_Raises _) = True" | "is_exception _ = False"

definition attempt_task :: "task_handler \<Rightarrow> task_spec \<Rightarrow> task_record \<Rightarrow> task_record \<times> handler_result" where
  \<comment> \<open>one pass of the \<open>while\<close>\<close>
  "attempt_task h spec r =
     (let r1 = r\<lparr>tr_attempts := tr_attempts r + 1, tr_status := QS_RUNNING\<rparr>;
          out = timed spec (h (tr_attempts r) (sp_payload spec))
      in (case out of
            H_Returns v \<Rightarrow> r1\<lparr>tr_result := v, tr_status := QS_SUCCEEDED, tr_progress := 1\<rparr>
          | H_Cancelled \<Rightarrow> r1\<lparr>tr_status := QS_CANCELLED\<rparr>
          | H_TimeoutError \<Rightarrow> r1\<lparr>tr_status := QS_TIMED_OUT, tr_error := Some ''Task timed out.''\<rparr>
          | H_Raises e \<Rightarrow> r1\<lparr>tr_error := Some e, tr_status := QS_FAILED\<rparr>
          | H_Slow v \<Rightarrow> r1,
          out))"

definition mark_retrying :: "task_record \<Rightarrow> task_record" where
  "mark_retrying r = r\<lparr>tr_status := QS_RETRYING\<rparr>"

fun attempts_loop :: "task_handler \<Rightarrow> task_spec \<Rightarrow> nat \<Rightarrow> task_record \<Rightarrow> task_record \<times> handler_result" where
  \<comment> \<open>\<open>n\<close> retries are left; a status \<open>FAILED\<close> of an attempt that is retried is overwritten\<close>
  "attempts_loop h spec n r =
     (case attempt_task h spec r of
        (r', H_Raises e) \<Rightarrow>
          (case n of 0 \<Rightarrow> (r', H_Raises e) | Suc m \<Rightarrow> attempts_loop h spec m (mark_retrying r'))
      | res \<Rightarrow> res)"

declare attempts_loop.simps [simp del]

definition run_record :: "nat \<Rightarrow> task_queue \<Rightarrow> task_queue" where
  \<comment> \<open>the coroutine \<open>_run\<close> of a submitted record\<close>
  "run_record i q =
     (case (dict_get (tq_specs q) i, dict_get (tq_records q) i) of
        (Some spec, Some r) \<Rightarrow>
          (case dict_get (tq_handlers q) (sp_name spec) of
             None \<Rightarrow> q
           | Some h \<Rightarrow>
               q\<lparr>tq_records := dict_set i
                  (fst (attempts_loop h spec (nat (sp_max_retries spec)) r)) (tq_records q)\<rparr>)
      | _ \<Rightarrow> q)"

section \<open>The attempts of a record are a bounded retry loop\<close>

interpretation attempts: retry_loop "attempt_task h spec" is_exception "\<lambda>_. mark_retrying" tr_attempts "attempts_loop h spec"
  for h spec
proof
  fix s and n :: nat
  show "\<not> is_exception (snd (attempt_task h spec s)) \<or> n = 0 \<Longrightarrow> attempts_loop h spec n s = attempt_task h spec s"
    by (subst attempts_loop.simps) (auto split: prod.splits handler_result.splits)
  show "is_exception (snd (attempt_task h spec s)) \<Longrightarrow>
      attempts_loop h spec (Suc n) s = attempts_loop h spec n (mark_retrying (fst (attempt_task h spec s)))"
    by (subst attempts_loop.simps) (auto split: prod.splits handler_result.splits)
  show "tr_attempts (fst (attempt_task h spec s)) = Suc (tr_attempts s)"
    by (auto simp: attempt_task_def Let_def split: handler_result.splits)
  show "tr_attempts (mark_retrying s) = tr_attempts s" by (simp add: mark_retrying_def)
qed

lemma timed_not_slow: "timed spec r \<noteq> H_Slow v"
  by (cases r) (auto split: option.splits)

lemma attempt_task_status:
  "tr_status (fst (attempt_task h spec r)) = (case snd (attempt_task h spec r) of
     H_Returns _ \<Rightarrow> QS_SUCCEEDED | H_Raises _ \<Rightarrow> QS_FAILED | H_TimeoutError \<Rightarrow> QS_TIMED_OUT
   | H_Cancelled \<Rightarrow> QS_CANCELLED | H_Slow _ \<Rightarrow> QS_RUNNING)"
  by (auto simp: attempt_task_def Let_def split: handler_result.splits)

lemma attempts_loop_last: "\<exists>s. attempts_loop h spec n r = attempt_task h spec s"
proof (induction n arbitrary: r)
  case 0
  show ?case by (intro exI [of _ r]) (simp add: attempts.loop_stop)
next
  case (Suc n)
  show ?case
    by (cases "is_exception (snd (attempt_task h spec r))") (auto simp: attempts.loop_stop attempts.loop_again Suc)
qed

text \<open>
  Running a submitted record ends it: succeeded, failed, timed out or cancelled, never left
  running or retrying, after at least one and at most \<open>max_retries + 1\<close> calls of the handler, and
  it is failed only when all of them raised.
\<close>

theorem run_record_ends:
  assumes "submit spec q = Inr (i, q')" and "queue_get i (run_record i q') = Some r"
  shows "tr_status r \<in> {QS_SUCCEEDED, QS_FAILED, QS_TIMED_OUT, QS_CANCELLED}
    \<and> 1 \<le> tr_attempts r \<and> tr_attempts r \<le> nat (sp_max_retries spec) + 1
    \<and> (tr_status r = QS_FAILED \<longrightarrow> tr_attempts r = nat (sp_max_retries spec) + 1)"
proof -
  from assms(1) obtain h where h: "dict_get (tq_handlers q) (sp_name spec) = Some h"
    by (auto simp: submit_def split: option.splits)
  define r0 where "r0 = \<lparr>tr_name = sp_name spec,
      tr_status = (if sp_delay_seconds spec \<noteq> 0 then QS_SCHEDULED else QS_PENDING),
      tr_progress = 0, tr_result = PNone, tr_error = None, tr_attempts = 0\<rparr>"
  have q': "i = tq_next q" "dict_get (tq_specs q') i = Some spec" "dict_get (tq_records q') i = Some r0"
    "tq_handlers q' = tq_handlers q"
    using assms(1) h by (auto simp: submit_def Let_def r0_def)
  let ?n = "nat (sp_max_retries spec)"
  have r: "r = fst (attempts_loop h spec ?n r0)"
    using assms(2) q' h by (simp add: run_record_def queue_get_def)
  obtain s where s: "attempts_loop h spec ?n r0 = attempt_task h spec s" using attempts_loop_last by blast
  have ns: "snd (attempt_task h spec s) \<noteq> H_Slow v" for v
    using timed_not_slow by (auto simp: attempt_task_def Let_def)
  have "tr_status r \<in> {QS_SUCCEEDED, QS_FAILED, QS_TIMED_OUT, QS_CANCELLED}"
    using attempt_task_status [of h spec s] ns r s by (auto split: handler_result.splits)
  moreover have "1 \<le> tr_attempts r" "tr_attempts r \<le> ?n + 1"
    using attempts.loop_attempts_positive [of r0 h spec ?n] attempts.loop_attempts_bounded [of h spec ?n r0] r
    by (simp_all add: r0_def)
  moreover have "tr_attempts r = ?n + 1" if "tr_status r = QS_FAILED"
  proof -
    have "is_exception (snd (attempts_loop h spec ?n r0))"
      using that attempt_task_status [of h spec s] r s by (auto split: handler_result.splits)
    from attempts.loop_exhausted [OF this] r show ?thesis by (simp add: r0_def)
  qed
  ultimately show ?thesis by blast
qed

text \<open>
  Cancelling a task that has already finished succeeds and overwrites its outcome.
\<close>

theorem queue_cancel_overwrites:
  assumes "dict_get (tq_specs q) i = Some spec" and "queue_get i q = Some r" and "tr_status r = QS_SUCCEEDED"
  shows "\<exists>q'. queue_cancel i q = Inr q' \<and> queue_get i q' = Some (r\<lparr>tr_status := QS_CANCELLED\<rparr>)"
  using assms by (simp add: queue_cancel_def queue_get_def)

section \<open>Witnesses\<close>

definition sample_spec :: task_spec where
  "sample_spec = \<lparr>sp_name = ''t'', sp_payload = [], sp_delay_seconds = 0, sp_max_retries = 1, sp_timeout_seconds = None\<rparr>"

definition sample_queue :: task_queue where
  "sample_queue = queue_register ''t'' (\<lambda>i _. if i = 0 then H_Raises ''busy'' else H_Returns PNone) task_queue_init"

lemma sample_submit:
  "\<exists>q'. submit sample_spec sample_queue = Inr (0, q') \<and> dict_get (tq_specs q') 0 = Some sample_spec
     \<and> queue_get 0 (run_record 0 q') = Some \<lparr>tr_name = ''t'', tr_status = QS_SUCCEEDED, tr_progress = 1,
         tr_result = PNone, tr_error = Some ''busy'', tr_attempts = 2\<rparr>"
  by (simp add: submit_def sample_queue_def queue_register_def task_queue_init_def sample_spec_def Let_def
      run_record_def queue_get_def attempts_loop.simps attempt_task_def mark_retrying_def)

theorem run_record_ends_witness:
  "\<exists>q' r. submit sample_spec sample_queue = Inr (0, q') \<and> queue_get 0 (run_record 0 q') = Some r
     \<and> tr_attempts r \<le> 2"
proof -
  obtain q' r where q: "submit sample_spec sample_queue = Inr (0, q')" "queue_get 0 (run_record 0 q') = Some r"
    using sample_submit by blast
  with run_record_ends [OF q] show ?thesis by (auto simp: sample_spec_def)
qed

theorem queue_cancel_overwrites_witness:
  "\<exists>q q' r. queue_get 0 q = Some r \<and> tr_status r = QS_SUCCEEDED \<and> queue_cancel 0 q = Inr q'
     \<and> queue_get 0 q' = Some (r\<lparr>tr_status := QS_CANCELLED\<rparr>)"
proof -
  obtain q' r where q: "dict_get (tq_specs q') 0 = Some sample_spec"
    "queue_get 0 (run_record 0 q') = Some r" "tr_status r = QS_SUCCEEDED"
    using sample_submit by auto
  have "dict_get (tq_specs (run_record 0 q')) 0 = Some sample_spec"
    using q(1) by (auto simp: run_record_def split: option.splits)
  with queue_cancel_overwrites [OF this q(2,3)] q show ?thesis by blast
qed

end
