(* ===== verification/Repository.thy ===== *)
theory Repository
  imports Py_Value
begin

text \<open>
  The generic repository (\<^verbatim>\<open>app/repositories/base.py\<close>) and the pagination primitives it uses
  (\<^verbatim>\<open>app/core/api/pagination.py\<close>), over tables of rows that carry the entity columns of
  \<^verbatim>\<open>app/models/mixins.py\<close>. A table is a dictionary from primary keys to rows in insertion order;
  the primary key of a new row is an unused number. The comparison operators and the collation of
  the database are parameters; the columns of a model are a function from column names.
\<close>

section \<open>Rows and tables\<close>

record entity =
  ent_id :: nat
  created_at :: time
  deleted_at :: "time option"

type_synonym 'a table = "(nat, 'a entity_scheme) dict"

datatype db_exc =
    App app_error             \<comment> \<open>an error of the application's own\<close>
  | IntegrityError string     \<comment> \<open>a unique constraint, by name\<close>
  | ValueError string
  | DataError                 \<comment> \<open>a value of the wrong type for its column\<close>

type_synonym 'a db_result = "db_exc + 'a"

abbreviation raise_app :: "app_error_kind \<Rightarrow> string \<Rightarrow> 'a db_result" where
  "raise_app k m \<equiv> Inl (App (app_error_init k (Some m)))"

definition is_deleted :: "'a entity_scheme \<Rightarrow> bool" where
  "is_deleted r = (deleted_at r \<noteq> None)"

definition new_id :: "'a table \<Rightarrow> nat" where
  "new_id t = foldr (\<lambda>k m. max (Suc k) m) (keys t) 0"

section \<open>Operations\<close>

definition repo_get :: "nat \<Rightarrow> 'a table \<Rightarrow> 'a entity_scheme option" where
  "repo_get i t = dict_get t i"

definition repo_add :: "'a entity_scheme \<Rightarrow> 'a table \<Rightarrow> 'a entity_scheme \<times> 'a table" where
  "repo_add r t = (let r' = r\<lparr>ent_id := new_id t\<rparr> in (r', dict_set (new_id t) r' t))"

definition repo_delete :: "nat \<Rightarrow> 'a table \<Rightarrow> 'a table" where
  "repo_delete i t = dict_pop i t"

definition repo_put :: "'a entity_scheme \<Rightarrow> 'a table \<Rightarrow> 'a table" where
  \<comment> \<open>flushing a changed row\<close>
  "repo_put r t = dict_set (ent_id r) r t"

definition map_rows :: "('a entity_scheme \<Rightarrow> 'a entity_scheme) \<Rightarrow> 'a table \<Rightarrow> 'a table" where
  \<comment> \<open>an UPDATE statement over every row\<close>
  "map_rows f t = map (\<lambda>(k, r). (k, f r)) t"

definition all_rows :: "'a table \<Rightarrow> 'a entity_scheme list" where
  \<comment> \<open>a SELECT without conditions\<close>
  "all_rows t = map snd t"

definition row_by :: "('a entity_scheme \<Rightarrow> bool) \<Rightarrow> 'a table \<Rightarrow> 'a entity_scheme option" where
  \<comment> \<open>\<open>scalar_one_or_none\<close> on a unique column\<close>
  "row_by P t = List.find P (all_rows t)"

definition soft_delete :: "time \<Rightarrow> 'a entity_scheme \<Rightarrow> 'a table \<Rightarrow> 'a table" where
  "soft_delete now r t = repo_put (r\<lparr>deleted_at := Some now\<rparr>) t"

definition restore :: "'a entity_scheme \<Rightarrow> 'a table \<Rightarrow> 'a table" where
  "restore r t = repo_put (r\<lparr>deleted_at := None\<rparr>) t"

fun bulk_add :: "'a entity_scheme list \<Rightarrow> 'a table \<Rightarrow> 'a entity_scheme list \<times> 'a table" where
  "bulk_add [] t = ([], t)"
| "bulk_add (r # rs) t = (let (r', t1) = repo_add r t; (rs', t2) = bulk_add rs t1 in (r' # rs', t2))"

definition list_all_rows :: "nat \<Rightarrow> nat \<Rightarrow> 'a table \<Rightarrow> 'a entity_scheme list" where
  "list_all_rows limit offset t = take limit (drop offset (map snd t))"

definition base_query :: "bool \<Rightarrow> 'a table \<Rightarrow> 'a entity_scheme list" where
  "base_query include_deleted t = filter (\<lambda>r. include_deleted \<or> deleted_at r = None) (map snd t)"

definition find_by :: "('a entity_scheme \<Rightarrow> bool) \<Rightarrow> 'a table \<Rightarrow> 'a entity_scheme option" where
  "find_by P t = List.find P (base_query False t)"

definition exists_by :: "('a entity_scheme \<Rightarrow> bool) \<Rightarrow> 'a table \<Rightarrow> bool" where
  "exists_by P t = (find_by P t \<noteq> None)"

section \<open>Filters and sorting\<close>

record filter_spec =
  fs_field :: string
  fs_op :: string
  fs_value :: pyval

record sort_param =
  so_field :: string
  so_descending :: bool

record 'r sql =
  columns :: "string \<Rightarrow> ('r \<Rightarrow> pyval) option"
  sql_op :: "string \<Rightarrow> pyval \<Rightarrow> pyval \<Rightarrow> bool"
  sql_rank :: "pyval \<Rightarrow> int"
  str_of :: "pyval \<Rightarrow> string"

definition OPERATORS :: "string list" where
  "OPERATORS = [''eq'', ''ne'', ''gt'', ''ge'', ''lt'', ''le'', ''like'', ''ilike'', ''in'']"

fun apply_filters :: "'r sql \<Rightarrow> filter_spec list \<Rightarrow> 'r list \<Rightarrow> 'r list db_result" where
  "apply_filters q [] rows = Inr rows"
| "apply_filters q (f # fs) rows =
     (case columns q (fs_field f) of
        None \<Rightarrow> Inl (ValueError (''Invalid filter: '' @ fs_field f @ '' '' @ fs_op f))
      | Some column \<Rightarrow>
          if fs_op f \<notin> set OPERATORS then Inl (ValueError (''Invalid filter: '' @ fs_field f @ '' '' @ fs_op f))
          else
            let v = (if fs_op f \<in> {''like'', ''ilike''} then PStr (''%'' @ str_of q (fs_value f) @ ''%'') else fs_value f)
            in apply_filters q fs (filter (\<lambda>r. sql_op q (fs_op f) (column r) v) rows))"

definition sort_one :: "('r \<Rightarrow> int) \<Rightarrow> bool \<Rightarrow> 'r list \<Rightarrow> 'r list" where
  "sort_one key descending rows = (if descending then sorted_desc key rows else sort_key key rows)"

fun apply_sort :: "'r sql \<Rightarrow> sort_param list \<Rightarrow> 'r list \<Rightarrow> 'r list db_result" where
  \<comment> \<open>\<open>ORDER BY\<close> of several columns: the first one named decides first\<close>
  "apply_sort q [] rows = Inr rows"
| "apply_sort q (s # ss) rows =
     (case columns q (so_field s) of
        None \<Rightarrow> Inl (ValueError (''Invalid sort field: '' @ so_field s))
      | Some column \<Rightarrow>
          (case apply_sort q ss rows of
             Inl e \<Rightarrow> Inl e
           | Inr rows' \<Rightarrow> Inr (sort_one (\<lambda>r. sql_rank q (column r)) (so_descending s) rows')))"

definition repo_count :: "'a entity_scheme sql \<Rightarrow> filter_spec list \<Rightarrow> bool \<Rightarrow> 'a table \<Rightarrow> nat db_result" where
  "repo_count q filters include_deleted t =
     (case apply_filters q filters (base_query include_deleted t) of Inl e \<Rightarrow> Inl e | Inr rows \<Rightarrow> Inr (length rows))"

section \<open>Pagination\<close>

definition DEFAULT_PAGE_SIZE :: int where "DEFAULT_PAGE_SIZE = 20"
definition MAX_PAGE_SIZE :: int where "MAX_PAGE_SIZE = 100"

record page_params =
  pp_page :: int
  pp_size :: int

definition page_limit :: "page_params \<Rightarrow> int" where
  "page_limit p = min (max (pp_size p) 1) MAX_PAGE_SIZE"

definition page_offset :: "page_params \<Rightarrow> int" where
  "page_offset p = (max (pp_page p) 1 - 1) * page_limit p"

record 'r page =
  pg_items :: "'r list"
  pg_total :: int
  pg_page :: int
  pg_size :: int

definition pages :: "'r page \<Rightarrow> int" where
  "pages p = (if pg_size p \<noteq> 0 then (pg_total p + pg_size p - 1) div pg_size p else 0)"

definition has_next :: "'r page \<Rightarrow> bool" where "has_next p = (pg_page p < pages p)"
definition has_prev :: "'r page \<Rightarrow> bool" where "has_prev p = (pg_page p > 1)"

definition paginate ::
    "'a entity_scheme sql \<Rightarrow> page_params \<Rightarrow> filter_spec list \<Rightarrow> sort_param list \<Rightarrow> bool \<Rightarrow> 'a table
     \<Rightarrow> 'a entity_scheme page db_result" where
  "paginate q params filters sorts include_deleted t =
     (case repo_count q filters include_deleted t of
        Inl e \<Rightarrow> Inl e
      | Inr n \<Rightarrow>
          (case apply_filters q filters (base_query include_deleted t) of
             Inl e \<Rightarrow> Inl e
           | Inr rows \<Rightarrow>
               (case apply_sort q (if sorts = [] then [\<lparr>so_field = ''created_at'', so_descending = True\<rparr>] else sorts) rows of
                  Inl e \<Rightarrow> Inl e
                | Inr rows' \<Rightarrow> Inr \<lparr>pg_items = take (nat (page_limit params)) (drop (nat (page_offset params)) rows'),
                                  pg_total = int n, pg_page = pp_page params, pg_size = page_limit params\<rparr>)))"

section \<open>Laws of the table\<close>

definition table_ok :: "'a table \<Rightarrow> bool" where
  \<comment> \<open>every row is stored under its own primary key, once\<close>
  "table_ok t \<longleftrightarrow> dict_ok t \<and> list_all (\<lambda>(k, r). ent_id r = k) t"

lemma new_id_above: "k \<in> set (keys t) \<Longrightarrow> k < new_id t"
proof (induction t)
  case (Cons x t)
  then have "k = fst x \<or> k < new_id t" by auto
  then show ?case by (auto simp: new_id_def less_max_iff_disj)
qed simp

lemma new_id_fresh [simp]: "dict_get t (new_id t) = None"
  using new_id_above [of "new_id t" t] by (auto simp: dict_get_None_iff)

lemma table_ok_Nil [simp]: "table_ok []"
  by (simp add: table_ok_def)

lemma table_ok_get: "table_ok t \<Longrightarrow> dict_get t k = Some r \<Longrightarrow> ent_id r = k"
  by (auto simp: table_ok_def list_all_iff dest: map_of_SomeD)

lemma set_dict_set: "set (dict_set k v d) \<subseteq> insert (k, v) (set d)"
  by (induction d) auto

lemma table_ok_set [intro]: "table_ok t \<Longrightarrow> ent_id r = k \<Longrightarrow> table_ok (dict_set k r t)"
  using set_dict_set [of k r t] by (auto simp: table_ok_def list_all_iff)

lemma table_ok_put [simp, intro]: "table_ok t \<Longrightarrow> table_ok (repo_put r t)"
  by (auto simp: repo_put_def)

lemma repo_get_put [simp]: "repo_get i (repo_put r t) = (if i = ent_id r then Some r else repo_get i t)"
  by (simp add: repo_put_def repo_get_def dict_get_set)

lemma repo_add_new:
  assumes "repo_add r t = (r', t')"
  shows "r' = r\<lparr>ent_id := new_id t\<rparr>" "t' = t @ [(new_id t, r')]" "repo_get (ent_id r') t = None"
    "repo_get i t' = (if i = ent_id r' then Some r' else repo_get i t)"
proof -
  have app: "dict_set k v d = d @ [(k, v)]" if "dict_get d k = None" for k and v :: "'a entity_scheme" and d
    using that by (induction d) (auto split: if_splits)
  show r': "r' = r\<lparr>ent_id := new_id t\<rparr>" using assms by (auto simp: repo_add_def Let_def)
  show "t' = t @ [(new_id t, r')]" using assms app [OF new_id_fresh] by (auto simp: repo_add_def Let_def)
  show "repo_get (ent_id r') t = None" by (simp add: r' repo_get_def)
  show "repo_get i t' = (if i = ent_id r' then Some r' else repo_get i t)"
    using assms by (auto simp: repo_add_def Let_def repo_get_def dict_get_set)
qed

lemma repo_add_ok: "table_ok t \<Longrightarrow> repo_add r t = (r', t') \<Longrightarrow> table_ok t'"
  by (auto simp: repo_add_def Let_def)

lemma base_query_mem: "table_ok t \<Longrightarrow> r \<in> set (base_query False t) \<longleftrightarrow> repo_get (ent_id r) t = Some r \<and> deleted_at r = None"
  by (force simp: base_query_def repo_get_def table_ok_def dict_ok_def list_all_iff)

lemma find_by_Some: "table_ok t \<Longrightarrow> find_by P t = Some r \<Longrightarrow> repo_get (ent_id r) t = Some r \<and> P r \<and> deleted_at r = None"
  using base_query_mem [of t r] by (auto simp: find_by_def find_Some_iff)

lemma find_by_None: "table_ok t \<Longrightarrow> find_by P t = None \<Longrightarrow> repo_get i t = Some r \<Longrightarrow> deleted_at r = None \<Longrightarrow> \<not> P r"
  using base_query_mem [of t r] table_ok_get [of t i r] by (auto simp: find_by_def find_None_iff repo_get_def)

lemma rows_mem: "table_ok t \<Longrightarrow> r \<in> set (all_rows t) \<longleftrightarrow> repo_get (ent_id r) t = Some r"
  by (force simp: all_rows_def repo_get_def table_ok_def dict_ok_def list_all_iff)

lemma rows_get: "table_ok t \<Longrightarrow> repo_get i t = Some r \<Longrightarrow> r \<in> set (all_rows t)"
  using rows_mem [of t r] table_ok_get [of t i r] by (simp add: repo_get_def)

lemma row_by_Some: "table_ok t \<Longrightarrow> row_by P t = Some r \<Longrightarrow> repo_get (ent_id r) t = Some r \<and> P r"
  using rows_mem [of t r] by (auto simp: row_by_def find_Some_iff)

lemma row_by_None: "table_ok t \<Longrightarrow> row_by P t = None \<Longrightarrow> repo_get i t = Some r \<Longrightarrow> \<not> P r"
  using rows_get [of t i r] by (auto simp: row_by_def find_None_iff)

lemma repo_get_map_rows [simp]: "repo_get i (map_rows f t) = map_option f (repo_get i t)"
  by (induction t) (auto simp: map_rows_def repo_get_def)

lemma table_ok_map_rows: "table_ok t \<Longrightarrow> (\<And>r. ent_id (f r) = ent_id r) \<Longrightarrow> table_ok (map_rows f t)"
  by (auto simp: table_ok_def dict_ok_def map_rows_def list_all_iff comp_def case_prod_unfold)

definition sum_rows :: "('a entity_scheme \<Rightarrow> 'n :: comm_monoid_add) \<Rightarrow> 'a table \<Rightarrow> 'n" where
  "sum_rows f t = sum_list (map (\<lambda>(_, r). f r) t)"

lemma sum_rows_Nil [simp]: "sum_rows f [] = 0"
  by (simp add: sum_rows_def)

lemma sum_rows_add: "repo_add r t = (r', t') \<Longrightarrow> sum_rows f t' = sum_rows f t + f r'"
  by (drule repo_add_new(2)) (simp add: sum_rows_def)

lemma sum_rows_put:
  fixes f :: "'a entity_scheme \<Rightarrow> 'n :: ab_group_add"
  assumes "table_ok t" and "repo_get (ent_id r) t = Some old"
  shows "sum_rows f (repo_put r t) = sum_rows f t - f old + f r"
  using assms unfolding repo_put_def
proof (induction t)
  case (Cons x t)
  obtain k y where x: "x = (k, y)" by force
  have "table_ok t" using Cons.prems by (auto simp: table_ok_def dict_ok_def)
  with Cons x show ?case by (auto simp: sum_rows_def repo_get_def split: if_splits)
qed (simp add: repo_get_def)

lemma sum_rows_ge:
  fixes f :: "'a entity_scheme \<Rightarrow> int"
  assumes "repo_get i t = Some r" and "\<And>j x. repo_get j t = Some x \<Longrightarrow> 0 \<le> f x" and "table_ok t"
  shows "f r \<le> sum_rows f t"
proof -
  have nn: "0 \<le> (case p of (_, x) \<Rightarrow> f x)" if "p \<in> set t" for p
  proof -
    obtain j x where p: "p = (j, x)" by force
    with that assms(3) have "repo_get j t = Some x" by (simp add: repo_get_def table_ok_def dict_ok_def)
    with assms(2) p show ?thesis by auto
  qed
  have "(i, r) \<in> set t" using assms(1) by (auto simp: repo_get_def dest: map_of_SomeD)
  then have "(case (i, r) of (_, x) \<Rightarrow> f x) \<le> sum_list (map (\<lambda>(_, r). f r) t)"
    by (intro member_le_sum_list) (use nn in auto)
  then show ?thesis by (simp add: sum_rows_def)
qed

section \<open>Interface: a repository of one model\<close>

text \<open>
  What the services rely on: a row that was added is found under its new key, a changed row is
  found under its old one, nothing else moves, and keys are unique.
\<close>

locale repository =
  fixes get :: "nat \<Rightarrow> 't \<Rightarrow> 'r option"
    and add :: "'r \<Rightarrow> 't \<Rightarrow> 'r \<times> 't"
    and put :: "'r \<Rightarrow> 't \<Rightarrow> 't"
    and key :: "'r \<Rightarrow> nat"
    and ok :: "'t \<Rightarrow> bool"
  assumes get_add: "add r t = (r', t') \<Longrightarrow> get i t' = (if i = key r' then Some r' else get i t)"
    and add_fresh: "add r t = (r', t') \<Longrightarrow> get (key r') t = None"
    and get_put: "get i (put r t) = (if i = key r then Some r else get i t)"
    and ok_add: "ok t \<Longrightarrow> add r t = (r', t') \<Longrightarrow> ok t'"
    and ok_put: "ok t \<Longrightarrow> ok (put r t)"
    and get_key: "ok t \<Longrightarrow> get i t = Some r \<Longrightarrow> key r = i"
begin

lemma all_add:
  assumes "add r t = (r', t')" and "\<And>i x. get i t = Some x \<Longrightarrow> P x" and "P r'" and "get i t' = Some x"
  shows "P x"
  using assms by (auto simp: get_add [OF assms(1)] split: if_splits)

lemma all_put:
  assumes "\<And>i x. get i t = Some x \<Longrightarrow> P x" and "P r" and "get i (put r t) = Some x"
  shows "P x"
  using assms by (auto simp: get_put split: if_splits)

lemma put_same: "ok t \<Longrightarrow> get i t = Some r \<Longrightarrow> get j (put r t) = get j t"
  using get_key by (auto simp: get_put)

end

interpretation repo: repository repo_get repo_add repo_put ent_id table_ok
proof unfold_locales
  fix r r' :: "'a entity_scheme" and t t' :: "'a table" and i
  show "repo_get i t' = (if i = ent_id r' then Some r' else repo_get i t)" "repo_get (ent_id r') t = None"
    if "repo_add r t = (r', t')"
    using repo_add_new [OF that] by simp_all
  show "table_ok t'" if "table_ok t" "repo_add r t = (r', t')" using that by (rule repo_add_ok)
  show "ent_id r = i" if "table_ok t" "repo_get i t = Some r"
    using that by (simp add: repo_get_def table_ok_get)
qed simp_all

section \<open>The pages cover the result\<close>

lemma page_limit_bounds: "1 \<le> page_limit p" "page_limit p \<le> 100"
  by (simp_all add: page_limit_def MAX_PAGE_SIZE_def)

lemma concat_slices: "concat (map (\<lambda>i. take l (drop (i * l) xs)) [0..<n]) = take (n * l) xs"
proof (induction n)
  case (Suc n)
  have "take (n * l) xs @ take l (drop (n * l) xs) = take (n * l + l) xs"
    by (simp add: take_add)
  with Suc show ?case by (simp add: add.commute)
qed simp

lemma pages_reach:
  assumes "0 < s" shows "n \<le> nat ((int n + s - 1) div s) * nat s"
proof -
  have "int n + s - 1 < ((int n + s - 1) div s + 1) * s"
    using pos_mod_bound [OF assms, of "int n + s - 1"] div_mult_mod_eq [of "int n + s - 1" s]
    unfolding distrib_right mult_1 by linarith
  then have "int n \<le> (int n + s - 1) div s * s" by (simp add: distrib_right)
  moreover have "0 \<le> (int n + s - 1) div s" using assms by (simp add: pos_imp_zdiv_nonneg_iff)
  ultimately show ?thesis using assms by (simp add: zle_int [symmetric] del: zle_int)
qed

lemma mset_sort_one [simp]: "mset (sort_one k d rows) = mset rows"
  by (simp add: sort_one_def)

lemma apply_sort_mset: "apply_sort q ss rows = Inr rows' \<Longrightarrow> mset rows' = mset rows"
  by (induction ss arbitrary: rows') (auto split: option.splits sum.splits)

lemma paginate_Inr:
  assumes "paginate q p fs ss d t = Inr pg"
  shows "\<exists>rows sorted. apply_filters q fs (base_query d t) = Inr rows \<and> mset sorted = mset rows \<and> pg_total pg = int (length rows)
    \<and> pg_size pg = page_limit p \<and> pg_page pg = pp_page p
    \<and> (\<forall>p'. paginate q p' fs ss d t = Inr \<lparr>pg_items = take (nat (page_limit p')) (drop (nat (page_offset p')) sorted),
          pg_total = int (length rows), pg_page = pp_page p', pg_size = page_limit p'\<rparr>)"
proof -
  define so where "so = (if ss = [] then [\<lparr>so_field = ''created_at'', so_descending = True\<rparr>] else ss)"
  from assms obtain rows sorted where f: "apply_filters q fs (base_query d t) = Inr rows"
    and s: "apply_sort q so rows = Inr sorted"
    by (auto simp: paginate_def so_def [symmetric] split: sum.splits)
  have "paginate q p' fs ss d t = Inr \<lparr>pg_items = take (nat (page_limit p')) (drop (nat (page_offset p')) sorted),
          pg_total = int (length rows), pg_page = pp_page p', pg_size = page_limit p'\<rparr>" for p'
    using f s by (simp add: paginate_def repo_count_def so_def [symmetric])
  with f apply_sort_mset [OF s] assms show ?thesis by auto
qed

definition page_at :: "'a entity_scheme sql \<Rightarrow> int \<Rightarrow> filter_spec list \<Rightarrow> sort_param list \<Rightarrow> bool \<Rightarrow> 'a table \<Rightarrow> nat \<Rightarrow> 'a entity_scheme list" where
  \<comment> \<open>the items of page \<open>i + 1\<close>\<close>
  "page_at q sz fs ss d t i = (case paginate q \<lparr>pp_page = int i + 1, pp_size = sz\<rparr> fs ss d t of Inl _ \<Rightarrow> [] | Inr pg \<Rightarrow> pg_items pg)"


section \<open>Witnesses\<close>

definition sample_sql :: "entity sql" where
  "sample_sql = \<lparr>columns = (\<lambda>c. if c = ''created_at'' then Some (\<lambda>r. PInt (created_at r)) else None),
     sql_op = (\<lambda>_ a b. py_eq a b), sql_rank = (\<lambda>v. case v of PInt i \<Rightarrow> i | _ \<Rightarrow> 0), str_of = (\<lambda>_. [])\<rparr>"

definition sample_table :: "unit table" where
  "sample_table = snd (bulk_add (map (\<lambda>t. \<lparr>ent_id = 0, created_at = t, deleted_at = None\<rparr>) [5, 9, 7]) [])"


end
