(* ===== verification/Calendar.thy ===== *)
theory Calendar
  imports Py_Value
begin

text \<open>
  The part of Python's \<^verbatim>\<open>datetime\<close> the program reads: the calendar fields of a moment, in the
  proleptic Gregorian calendar. A moment is a number of microseconds since 1970-01-01 UTC.
\<close>

section \<open>The calendar\<close>

record calendar =
  cal_minute :: int
  cal_hour :: int
  cal_day :: int
  cal_month :: int
  cal_isoweekday :: int

definition civil_month_day :: "int \<Rightarrow> int \<times> int" where
  \<comment> \<open>month and day of a day number; years are counted from 1 March in eras of 400 years\<close>
  "civil_month_day dn =
     (let z = dn + 719468; doe = z mod 146097;
          yoe = (doe - doe div 1460 + doe div 36524 - doe div 146096) div 365;
          doy = doe - (365 * yoe + yoe div 4 - yoe div 100);
          mp = (5 * doy + 2) div 153
      in (if mp < 10 then mp + 3 else mp - 9, doy - (153 * mp + 2) div 5 + 1))"

definition calendar_of :: "time \<Rightarrow> calendar" where
  "calendar_of t =
     (let secs = (t div seconds 1) mod 86400; day = date_of t; md = civil_month_day day
      in \<lparr>cal_minute = secs div 60 mod 60, cal_hour = secs div 3600, cal_day = snd md,
          cal_month = fst md, cal_isoweekday = (day + 3) mod 7 + 1\<rparr>)"

definition civil_year :: "int \<Rightarrow> int" where
  "civil_year dn =
     (let z = dn + 719468; era = z div 146097; doe = z mod 146097;
          yoe = (doe - doe div 1460 + doe div 36524 - doe div 146096) div 365
      in yoe + era * 400 + (if fst (civil_month_day dn) \<le> 2 then 1 else 0))"

lemma civil_examples: "civil_year 0 = 1970" "civil_month_day 0 = (1, 1)"
  "civil_year 19782 = 2024" "civil_month_day 19782 = (2, 29)" "civil_year 19783 = 2024" "civil_month_day 19783 = (3, 1)"
  "civil_year 20088 = 2024" "civil_month_day 20088 = (12, 31)" "civil_year (-1) = 1969" "civil_month_day (-1) = (12, 31)"
  by code_simp+

end
