(* ===== verification/Billing.thy ===== *)
theory Billing
  imports Repository Calendar
begin

text \<open>
  Billing (\<^verbatim>\<open>app/services/billing.py\<close>, \<^verbatim>\<open>app/models/billing.py\<close>, \<^verbatim>\<open>app/repositories/billing.py\<close>): plans,
  subscriptions, metered usage, invoices, payments and internal costs, over the tables of the
  database. Every operation takes the time \<open>now\<close> it reads from the clock. Decimals are exact
  rationals; the quotas and rates of a plan are numbers. A unique constraint of a table is checked
  when a row is flushed and raises \<open>IntegrityError\<close>.
\<close>

section \<open>Models\<close>

record plan = entity +
  pl_code :: string
  pl_name :: string
  pl_price_cents :: int
  pl_currency :: string
  pl_interval :: string
  pl_trial_days :: int
  pl_is_public :: bool
  pl_quotas :: "(string, rat) dict"
  pl_overage_rates :: "(string, rat) dict"

datatype subscription_status = SS_TRIALING | SS_ACTIVE | SS_PAST_DUE | SS_CANCELLED | SS_EXPIRED

record subscription = entity +
  sb_organization_id :: nat
  sb_plan_id :: nat
  sb_status :: subscription_status
  sb_current_period_start :: time
  sb_current_period_end :: time
  sb_trial_ends_at :: "time option"
  sb_cancelled_at :: "time option"
  sb_cancel_at_period_end :: bool

datatype invoice_status = IS_DRAFT | IS_OPEN | IS_PAID | IS_VOID | IS_UNCOLLECTIBLE

record line_item =
  li_description :: string
  li_quantity :: rat
  li_unit_price_cents :: rat
  li_amount_cents :: int

record invoice = entity +
  iv_organization_id :: nat
  iv_subscription_id :: nat
  iv_number :: string
  iv_status :: invoice_status
  iv_currency :: string
  iv_subtotal_cents :: int
  iv_tax_cents :: int
  iv_total_cents :: int
  iv_amount_paid_cents :: int
  iv_period_start :: int
  iv_period_end :: int
  iv_due_at :: time
  iv_issued_at :: time
  iv_paid_at :: "time option"
  iv_line_items :: "line_item list"

definition amount_due_cents :: "invoice \<Rightarrow> int" where
  "amount_due_cents iv = max (iv_total_cents iv - iv_amount_paid_cents iv) 0"

datatype payment_status = PS_PENDING | PS_SUCCEEDED | PS_FAILED | PS_REFUNDED

record payment = entity +
  pm_invoice_id :: nat
  pm_organization_id :: nat
  pm_status :: payment_status
  pm_amount_cents :: int
  pm_currency :: string
  pm_provider :: "string option"
  pm_provider_payment_id :: "string option"
  pm_refunded_cents :: int
  pm_processed_at :: time

record usage_record = entity +
  us_organization_id :: nat
  us_subscription_id :: "nat option"
  us_metric :: string
  us_quantity :: rat
  us_recorded_for :: int
  us_invoiced_at :: "time option"

record cost_record = entity +
  co_organization_id :: "nat option"
  co_category :: string
  co_vendor :: "string option"
  co_amount_usd :: rat
  co_incurred_on :: int

record billing_db =
  plans :: "(nat, plan) dict"
  subscriptions :: "(nat, subscription) dict"
  invoices :: "(nat, invoice) dict"
  payments :: "(nat, payment) dict"
  usage :: "(nat, usage_record) dict"
  costs :: "(nat, cost_record) dict"

section \<open>Plans and subscriptions\<close>

definition period_end :: "time \<Rightarrow> string \<Rightarrow> time" where
  "period_end start interval = (if interval = ''yearly'' then start + days 365 else start + days 30)"

definition plan_by_code :: "string \<Rightarrow> billing_db \<Rightarrow> plan option" where
  "plan_by_code code db = find_by (\<lambda>p. pl_code p = code) (plans db)"

definition list_public :: "billing_db \<Rightarrow> plan list" where
  "list_public db = sort_key pl_price_cents (filter pl_is_public (base_query False (plans db)))"

definition get_by_code :: "string \<Rightarrow> billing_db \<Rightarrow> plan db_result" where
  "get_by_code code db = (case plan_by_code code db of None \<Rightarrow> raise_app NotFoundError ''Plan not found.'' | Some p \<Rightarrow> Inr p)"

definition get_active :: "nat \<Rightarrow> billing_db \<Rightarrow> subscription option" where
  \<comment> \<open>\<open>get_active_for_organization\<close>: the newest one that grants access\<close>
  "get_active organization db =
     (case sorted_desc created_at (filter (\<lambda>s. sb_organization_id s = organization \<and> sb_status s \<in> {SS_ACTIVE, SS_TRIALING})
             (base_query False (subscriptions db))) of
        [] \<Rightarrow> None | s # _ \<Rightarrow> Some s)"

definition list_expiring :: "time \<Rightarrow> billing_db \<Rightarrow> subscription list" where
  "list_expiring before db =
     filter (\<lambda>s. sb_current_period_end s \<le> before \<and> sb_status s = SS_ACTIVE) (base_query False (subscriptions db))"

definition subscription_clash :: "subscription \<Rightarrow> billing_db \<Rightarrow> bool" where
  \<comment> \<open>\<open>uq_subscription_organization_id_status\<close>, which soft-deleted rows take part in\<close>
  "subscription_clash s db = list_ex (\<lambda>(k, r). k \<noteq> ent_id s \<and> sb_organization_id r = sb_organization_id s \<and> sb_status r = sb_status s)
     (subscriptions db)"

definition subscription_subscribe :: "nat \<Rightarrow> string \<Rightarrow> time \<Rightarrow> billing_db \<Rightarrow> (subscription \<times> billing_db) db_result" where
  "subscription_subscribe organization plan_code now db =
     (case plan_by_code plan_code db of
        None \<Rightarrow> raise_app NotFoundError ''Plan not found.''
      | Some plan \<Rightarrow>
          (case get_active organization db of
             Some _ \<Rightarrow> raise_app ConflictError ''That organization already has an active subscription.''
           | None \<Rightarrow>
               let trialing = pl_trial_days plan > 0;
                   (s, t) = repo_add \<lparr>ent_id = 0, created_at = now, deleted_at = None, sb_organization_id = organization,
                     sb_plan_id = ent_id plan, sb_status = (if trialing then SS_TRIALING else SS_ACTIVE),
                     sb_current_period_start = now, sb_current_period_end = period_end now (pl_interval plan),
                     sb_trial_ends_at = (if trialing then Some (now + days (pl_trial_days plan)) else None),
                     sb_cancelled_at = None, sb_cancel_at_period_end = False\<rparr> (subscriptions db)
               in if subscription_clash s db then Inl (IntegrityError ''uq_subscription_organization_id_status'')
                  else Inr (s, db\<lparr>subscriptions := t\<rparr>)))"

definition subscription_cancel :: "nat \<Rightarrow> bool \<Rightarrow> time \<Rightarrow> billing_db \<Rightarrow> (subscription \<times> billing_db) db_result" where
  "subscription_cancel i at_period_end now db =
     (case repo_get i (subscriptions db) of
        None \<Rightarrow> raise_app NotFoundError ''Subscription not found.''
      | Some s \<Rightarrow>
          let s1 = s\<lparr>sb_cancelled_at := Some now, sb_cancel_at_period_end := at_period_end\<rparr>;
              s2 = (if at_period_end then s1 else s1\<lparr>sb_status := SS_CANCELLED\<rparr>)
          in if subscription_clash s2 db then Inl (IntegrityError ''uq_subscription_organization_id_status'')
             else Inr (s2, db\<lparr>subscriptions := repo_put s2 (subscriptions db)\<rparr>))"

section \<open>Usage\<close>

definition usage_record_add :: "nat \<Rightarrow> string \<Rightarrow> rat \<Rightarrow> int option \<Rightarrow> time \<Rightarrow> billing_db \<Rightarrow> (usage_record \<times> billing_db) db_result" where
  \<comment> \<open>\<open>UsageService.record\<close>\<close>
  "usage_record_add organization metric quantity on now db =
     (if quantity < 0 then raise_app ValidationError ''Usage quantity cannot be negative.''
      else
        let (r, t) = repo_add \<lparr>ent_id = 0, created_at = now, deleted_at = None, us_organization_id = organization,
              us_subscription_id = map_option ent_id (get_active organization db), us_metric = metric, us_quantity = quantity,
              us_recorded_for = (case on of Some d \<Rightarrow> d | None \<Rightarrow> date_of now), us_invoiced_at = None\<rparr> (usage db)
        in Inr (r, db\<lparr>usage := t\<rparr>))"

definition total_for_metric :: "nat \<Rightarrow> string \<Rightarrow> int \<Rightarrow> billing_db \<Rightarrow> rat" where
  "total_for_metric organization metric since db =
     sum_list (map us_quantity (filter (\<lambda>r. us_organization_id r = organization \<and> us_metric r = metric \<and> us_recorded_for r \<ge> since)
       (base_query False (usage db))))"

definition quota_remaining :: "nat \<Rightarrow> string \<Rightarrow> billing_db \<Rightarrow> rat option" where
  "quota_remaining organization metric db =
     (case get_active organization db of
        None \<Rightarrow> None
      | Some s \<Rightarrow>
          (case repo_get (sb_plan_id s) (plans db) of
             None \<Rightarrow> None
           | Some plan \<Rightarrow>
               (case dict_get (pl_quotas plan) metric of
                  None \<Rightarrow> None
                | Some allowance \<Rightarrow> Some (allowance - total_for_metric organization metric (date_of (sb_current_period_start s)) db))))"

definition is_within_quota :: "nat \<Rightarrow> string \<Rightarrow> billing_db \<Rightarrow> bool" where
  "is_within_quota organization metric db = (case quota_remaining organization metric db of None \<Rightarrow> True | Some r \<Rightarrow> r > 0)"

section \<open>Invoices\<close>

definition zero_pad :: "nat \<Rightarrow> string \<Rightarrow> string" where
  "zero_pad n s = replicate (n - length s) (CHR ''0'') @ s"

definition year_month :: "time \<Rightarrow> string" where
  \<comment> \<open>\<open>%Y%m\<close>\<close>
  "year_month t = int_digits (civil_year (date_of t)) @ zero_pad 2 (int_digits (fst (civil_month_day (date_of t))))"

definition number_for :: "time \<Rightarrow> nat \<Rightarrow> string" where
  "number_for t sequence = ''INV-'' @ year_month t @ ''-'' @ zero_pad 6 (nat_digits sequence)"

definition next_number :: "time \<Rightarrow> billing_db \<Rightarrow> string db_result" where
  \<comment> \<open>the candidate starts with its own prefix, so the assertion on it always passes\<close>
  "next_number now db =
     (let existing = length (base_query False (invoices db)); candidate = number_for now (existing + 1)
      in if find_by (\<lambda>iv. iv_number iv = candidate) (invoices db) \<noteq> None
         then raise_app ConflictError ''Invoice number already used.'' else Inr candidate)"

definition list_uninvoiced :: "nat \<Rightarrow> int \<Rightarrow> billing_db \<Rightarrow> usage_record list" where
  "list_uninvoiced organization until db =
     filter (\<lambda>r. us_organization_id r = organization \<and> us_recorded_for r \<le> until \<and> us_invoiced_at r = None)
       (base_query False (usage db))"

definition round_half_up :: "rat \<Rightarrow> int" where
  \<comment> \<open>\<open>quantize(Decimal("1"), ROUND_HALF_UP)\<close>: ties go away from zero\<close>
  "round_half_up q = (if q \<ge> 0 then \<lfloor>q + 1 / 2\<rfloor> else - \<lfloor>- q + 1 / 2\<rfloor>)"

definition usage_totals :: "usage_record list \<Rightarrow> (string, rat) dict" where
  "usage_totals rows =
     fold (\<lambda>r d. dict_set (us_metric r) ((case dict_get d (us_metric r) of None \<Rightarrow> 0 | Some q \<Rightarrow> q) + us_quantity r) d) rows []"

fun overage_items :: "plan \<Rightarrow> (string \<times> rat) list \<Rightarrow> line_item list" where
  "overage_items plan [] = []"
| "overage_items plan ((metric, used) # rest) =
     (let over = used - (case dict_get (pl_quotas plan) metric of None \<Rightarrow> 0 | Some a \<Rightarrow> a)
      in case dict_get (pl_overage_rates plan) metric of
           None \<Rightarrow> overage_items plan rest
         | Some rate \<Rightarrow>
             if over \<le> 0 then overage_items plan rest
             else \<lparr>li_description = metric @ '' overage'', li_quantity = over, li_unit_price_cents = rate,
                   li_amount_cents = round_half_up (over * rate)\<rparr> # overage_items plan rest)"

definition fee_item :: "plan \<Rightarrow> line_item" where
  "fee_item plan = \<lparr>li_description = pl_name plan @ '' ('' @ pl_interval plan @ '')'', li_quantity = 1,
     li_unit_price_cents = of_int (pl_price_cents plan), li_amount_cents = pl_price_cents plan\<rparr>"

definition close_period :: "nat \<Rightarrow> time \<Rightarrow> billing_db \<Rightarrow> (invoice \<times> billing_db) db_result" where
  "close_period i now db =
     (case repo_get i (subscriptions db) of
        None \<Rightarrow> raise_app NotFoundError ''Subscription not found.''
      | Some s \<Rightarrow>
          (case repo_get (sb_plan_id s) (plans db) of
             None \<Rightarrow> raise_app NotFoundError ''Plan not found.''
           | Some plan \<Rightarrow>
               let until = date_of (sb_current_period_end s);
                   rows = list_uninvoiced (sb_organization_id s) until db;
                   overage = overage_items plan (sort_key fst (usage_totals rows));
                   subtotal = pl_price_cents plan + sum_list (map li_amount_cents overage)
               in case next_number now db of
                    Inl e \<Rightarrow> Inl e
                  | Inr number \<Rightarrow>
                      if list_ex (\<lambda>(k, r). iv_number r = number) (invoices db) then Inl (IntegrityError ''number'')
                      else
                        let (iv, t) = repo_add \<lparr>ent_id = 0, created_at = now, deleted_at = None,
                              iv_organization_id = sb_organization_id s, iv_subscription_id = ent_id s, iv_number = number,
                              iv_status = IS_OPEN, iv_currency = pl_currency plan, iv_subtotal_cents = subtotal,
                              iv_tax_cents = 0, iv_total_cents = subtotal, iv_amount_paid_cents = 0,
                              iv_period_start = date_of (sb_current_period_start s), iv_period_end = until,
                              iv_due_at = now + days 14, iv_issued_at = now, iv_paid_at = None,
                              iv_line_items = fee_item plan # overage\<rparr> (invoices db);
                            stamped = fold (\<lambda>r. repo_put (r\<lparr>us_invoiced_at := Some now\<rparr>)) rows (usage db)
                        in Inr (iv, db\<lparr>invoices := t, usage := stamped\<rparr>)))"

definition invoices_for_organization :: "nat \<Rightarrow> nat \<Rightarrow> billing_db \<Rightarrow> invoice list" where
  "invoices_for_organization organization limit db =
     take limit (sorted_desc created_at (filter (\<lambda>iv. iv_organization_id iv = organization) (base_query False (invoices db))))"

section \<open>Payments\<close>

definition payment_by_provider_id :: "string \<Rightarrow> billing_db \<Rightarrow> payment option" where
  "payment_by_provider_id pid db = find_by (\<lambda>p. pm_provider_payment_id p = Some pid) (payments db)"

definition payments_for_invoice :: "nat \<Rightarrow> billing_db \<Rightarrow> payment list" where
  "payments_for_invoice i db = filter (\<lambda>p. pm_invoice_id p = i) (base_query False (payments db))"

definition provider_clash :: "string option \<Rightarrow> billing_db \<Rightarrow> bool" where
  \<comment> \<open>the unique \<open>provider_payment_id\<close>; null values never clash\<close>
  "provider_clash pid db = (pid \<noteq> None \<and> list_ex (\<lambda>(k, r). pm_provider_payment_id r = pid) (payments db))"

definition settle :: "int \<Rightarrow> time \<Rightarrow> invoice \<Rightarrow> invoice" where
  \<comment> \<open>adding a payment to the invoice's balance\<close>
  "settle amount now iv =
     (let paid = iv_amount_paid_cents iv + amount
      in if paid \<ge> iv_total_cents iv
         then iv\<lparr>iv_amount_paid_cents := paid, iv_status := IS_PAID, iv_paid_at := Some now\<rparr>
         else iv\<lparr>iv_amount_paid_cents := paid\<rparr>)"

definition record_new_payment ::
    "nat \<Rightarrow> int \<Rightarrow> string option \<Rightarrow> string option \<Rightarrow> time \<Rightarrow> billing_db \<Rightarrow> (payment \<times> billing_db) db_result" where
  "record_new_payment i amount provider pid now db =
     (case repo_get i (invoices db) of
        None \<Rightarrow> raise_app NotFoundError ''Invoice not found.''
      | Some iv \<Rightarrow>
          if provider_clash pid db then Inl (IntegrityError ''provider_payment_id'')
          else
            let (p, t) = repo_add \<lparr>ent_id = 0, created_at = now, deleted_at = None, pm_invoice_id = ent_id iv,
                  pm_organization_id = iv_organization_id iv, pm_status = PS_SUCCEEDED, pm_amount_cents = amount,
                  pm_currency = iv_currency iv, pm_provider = provider, pm_provider_payment_id = pid,
                  pm_refunded_cents = 0, pm_processed_at = now\<rparr> (payments db)
            in Inr (p, db\<lparr>payments := t, invoices := repo_put (settle amount now iv) (invoices db)\<rparr>))"

definition record_payment ::
    "nat \<Rightarrow> int \<Rightarrow> string option \<Rightarrow> string option \<Rightarrow> time \<Rightarrow> billing_db \<Rightarrow> (payment \<times> billing_db) db_result" where
  "record_payment i amount provider pid now db =
     (if amount \<le> 0 then raise_app ValidationError ''Payment amount must be positive.''
      else if truthy pid
      then (case payment_by_provider_id (the pid) db of
              Some existing \<Rightarrow> Inr (existing, db)
            | None \<Rightarrow> record_new_payment i amount provider pid now db)
      else record_new_payment i amount provider pid now db)"

definition unsettle :: "int \<Rightarrow> invoice \<Rightarrow> invoice" where
  "unsettle amount iv =
     (let paid = max (iv_amount_paid_cents iv - amount) 0
      in if paid < iv_total_cents iv
         then iv\<lparr>iv_amount_paid_cents := paid, iv_status := IS_OPEN, iv_paid_at := None\<rparr>
         else iv\<lparr>iv_amount_paid_cents := paid\<rparr>)"

definition refund :: "nat \<Rightarrow> int \<Rightarrow> billing_db \<Rightarrow> (payment \<times> billing_db) db_result" where
  "refund i amount db =
     (case repo_get i (payments db) of
        None \<Rightarrow> raise_app NotFoundError ''Payment not found.''
      | Some p \<Rightarrow>
          if amount \<le> 0 then raise_app ValidationError ''Refund amount must be positive.''
          else if pm_refunded_cents p + amount > pm_amount_cents p
          then raise_app ValidationError ''Refund exceeds the amount paid.''
          else
            let refunded = pm_refunded_cents p + amount;
                p1 = p\<lparr>pm_refunded_cents := refunded\<rparr>;
                p2 = (if refunded = pm_amount_cents p then p1\<lparr>pm_status := PS_REFUNDED\<rparr> else p1);
                ivs = (case repo_get (pm_invoice_id p) (invoices db) of
                         None \<Rightarrow> invoices db | Some iv \<Rightarrow> repo_put (unsettle amount iv) (invoices db))
            in Inr (p2, db\<lparr>payments := repo_put p2 (payments db), invoices := ivs\<rparr>))"

section \<open>Costs\<close>

definition cost_record_add :: "string \<Rightarrow> rat \<Rightarrow> nat option \<Rightarrow> string option \<Rightarrow> int option \<Rightarrow> time \<Rightarrow> billing_db
    \<Rightarrow> (cost_record \<times> billing_db) db_result" where
  "cost_record_add category amount organization vendor on now db =
     (if amount < 0 then raise_app ValidationError ''Cost amount cannot be negative.''
      else
        let (r, t) = repo_add \<lparr>ent_id = 0, created_at = now, deleted_at = None, co_organization_id = organization,
              co_category = category, co_vendor = vendor, co_amount_usd = amount,
              co_incurred_on = (case on of Some d \<Rightarrow> d | None \<Rightarrow> date_of now)\<rparr> (costs db)
        in Inr (r, db\<lparr>costs := t\<rparr>))"

definition list_for_day :: "int \<Rightarrow> billing_db \<Rightarrow> cost_record list" where
  "list_for_day day db = filter (\<lambda>r. co_incurred_on r = day) (base_query False (costs db))"

section \<open>Invoice numbers\<close>

definition number_seq :: "string \<Rightarrow> nat" where
  \<comment> \<open>the digits after the last dash\<close>
  "number_seq s = digits_to_nat 0 (rev (takeWhile (\<lambda>c. c \<noteq> CHR ''-'') (rev s)))"

lemma digits_to_nat_zeros: "digits_to_nat 0 (replicate k (CHR ''0'') @ s) = digits_to_nat 0 s"
  by (induction k) (simp_all add: digits_to_nat_append)

lemma number_seq_for [simp]: "number_seq (number_for t n) = n"
proof -
  let ?ds = "zero_pad 6 (nat_digits n)"
  have nd: "\<forall>c \<in> set (rev ?ds). c \<noteq> CHR ''-''"
    using digits_plain(3) [of n] by (auto simp: zero_pad_def)
  have "takeWhile (\<lambda>c. c \<noteq> CHR ''-'') (rev ?ds @ CHR ''-'' # zs) = rev ?ds" for zs
    using nd by (subst takeWhile_append2) auto
  then have "takeWhile (\<lambda>c. c \<noteq> CHR ''-'') (rev (number_for t n)) = rev ?ds"
    by (simp add: number_for_def)
  then show ?thesis
    unfolding number_seq_def rev_rev_ident zero_pad_def by (simp add: digits_to_nat_zeros digits_to_nat_digits)
qed

section \<open>The ledger\<close>

inductive billing_step :: "billing_db \<Rightarrow> billing_db \<Rightarrow> bool" where
  Subscribe: "subscription_subscribe organization code now db = Inr (s, db') \<Longrightarrow> billing_step db db'"
| Cancel: "subscription_cancel i at_end now db = Inr (s, db') \<Longrightarrow> billing_step db db'"
| Use: "usage_record_add organization metric q on now db = Inr (u, db') \<Longrightarrow> billing_step db db'"
| Close: "close_period i now db = Inr (iv, db') \<Longrightarrow> billing_step db db'"
| Pay: "record_payment i amount provider pid now db = Inr (p, db') \<Longrightarrow> billing_step db db'"
| Refund: "refund i amount db = Inr (p, db') \<Longrightarrow> billing_step db db'"
| Cost: "cost_record_add category q organization' vendor on now db = Inr (c, db') \<Longrightarrow> billing_step db db'"

definition fresh_db :: "billing_db \<Rightarrow> bool" where
  "fresh_db db \<longleftrightarrow> table_ok (plans db) \<and> subscriptions db = [] \<and> invoices db = [] \<and> payments db = [] \<and> usage db = [] \<and> costs db = []"

definition net :: "nat \<Rightarrow> payment \<Rightarrow> int" where
  \<comment> \<open>what a payment still contributes to invoice \<open>i\<close>\<close>
  "net i p = (if pm_invoice_id p = i then pm_amount_cents p - pm_refunded_cents p else 0)"

definition payment_row_ok :: "billing_db \<Rightarrow> payment \<Rightarrow> bool" where
  "payment_row_ok db p \<longleftrightarrow> 0 < pm_amount_cents p \<and> 0 \<le> pm_refunded_cents p \<and> pm_refunded_cents p \<le> pm_amount_cents p
     \<and> pm_status p = (if pm_refunded_cents p = pm_amount_cents p then PS_REFUNDED else PS_SUCCEEDED)
     \<and> repo_get (pm_invoice_id p) (invoices db) \<noteq> None"

definition invoice_row_ok :: "billing_db \<Rightarrow> invoice \<Rightarrow> bool" where
  "invoice_row_ok db iv \<longleftrightarrow> iv_amount_paid_cents iv = sum_rows (net (ent_id iv)) (payments db)
     \<and> iv_total_cents iv = sum_list (map li_amount_cents (iv_line_items iv))
     \<and> (if iv_status iv = IS_PAID then iv_total_cents iv \<le> iv_amount_paid_cents iv \<and> iv_paid_at iv \<noteq> None
        else iv_status iv = IS_OPEN \<and> iv_paid_at iv = None \<and> (iv_amount_paid_cents iv < iv_total_cents iv \<or> iv_amount_paid_cents iv = 0))
     \<and> deleted_at iv = None \<and> number_seq (iv_number iv) = Suc (ent_id iv)"

definition ledger_ok :: "billing_db \<Rightarrow> bool" where
  "ledger_ok db \<longleftrightarrow> table_ok (invoices db) \<and> table_ok (payments db) \<and> table_ok (usage db)
     \<and> keys (invoices db) = [0..<length (invoices db)]
     \<and> (\<forall>i p. repo_get i (payments db) = Some p \<longrightarrow> payment_row_ok db p)
     \<and> (\<forall>i iv. repo_get i (invoices db) = Some iv \<longrightarrow> invoice_row_ok db iv)"

lemma invoice_row_cong:
  "sum_rows (net (ent_id iv)) (payments db') = sum_rows (net (ent_id iv)) (payments db) \<Longrightarrow> invoice_row_ok db' iv = invoice_row_ok db iv"
  by (simp add: invoice_row_ok_def)

lemma ledger_frame:
  assumes "invoices db' = invoices db" and "payments db' = payments db" and "table_ok (usage db')" and "ledger_ok db"
  shows "ledger_ok db'"
proof -
  have "payment_row_ok db' p = payment_row_ok db p" "invoice_row_ok db' iv = invoice_row_ok db iv" for p iv
    using assms(1,2) by (simp_all add: payment_row_ok_def invoice_row_ok_def)
  with assms show ?thesis by (simp add: ledger_ok_def)
qed

lemma new_id_upt: "keys t = [0..<n] \<Longrightarrow> new_id t = n"
proof -
  have "foldr (\<lambda>k m. max (Suc k) m) [0..<n] a = max n a" for a
    by (induction n arbitrary: a) (simp_all add: max_def)
  then show "keys t = [0..<n] \<Longrightarrow> new_id t = n" by (simp add: new_id_def)
qed

lemma table_ok_stamp: "table_ok t \<Longrightarrow> table_ok (fold (\<lambda>r. repo_put (g r)) rows t)"
  by (induction rows arbitrary: t) auto

lemma keys_put: "table_ok t \<Longrightarrow> repo_get (ent_id r) t \<noteq> None \<Longrightarrow> keys (repo_put r t) = keys t"
  unfolding repo_put_def repo_get_def dict_get_None_iff by (simp add: keys_set_present)

lemma sum_list_fee: "sum_list (map li_amount_cents (fee_item plan # xs)) = pl_price_cents plan + sum_list (map li_amount_cents xs)"
  by (simp add: fee_item_def)

lemma close_period_Inr:
  assumes "close_period i now db = Inr (iv, db')"
  obtains s plan number t where "repo_get i (subscriptions db) = Some s" "repo_get (sb_plan_id s) (plans db) = Some plan"
    "next_number now db = Inr number" "iv_number iv = number" "repo_add (iv\<lparr>ent_id := 0\<rparr>) (invoices db) = (iv, t)"
    "iv_line_items iv = fee_item plan # overage_items plan (sort_key fst (usage_totals
        (list_uninvoiced (sb_organization_id s) (date_of (sb_current_period_end s)) db)))"
    "iv_total_cents iv = sum_list (map li_amount_cents (iv_line_items iv))" "iv_status iv = IS_OPEN" "iv_amount_paid_cents iv = 0"
    "iv_paid_at iv = None" "deleted_at iv = None" "iv_organization_id iv = sb_organization_id s"
    "db' = db\<lparr>invoices := t, usage := fold (\<lambda>r. repo_put (r\<lparr>us_invoiced_at := Some now\<rparr>))
        (list_uninvoiced (sb_organization_id s) (date_of (sb_current_period_end s)) db) (usage db)\<rparr>"
proof -
  from assms obtain s plan number where a: "repo_get i (subscriptions db) = Some s" "repo_get (sb_plan_id s) (plans db) = Some plan"
    "next_number now db = Inr number"
    by (auto simp: close_period_def Let_def split: option.splits sum.splits)
  define rows where "rows = list_uninvoiced (sb_organization_id s) (date_of (sb_current_period_end s)) db"
  from assms a obtain t where t: "repo_add (iv\<lparr>ent_id := 0\<rparr>) (invoices db) = (iv, t)"
    and db': "db' = db\<lparr>invoices := t, usage := fold (\<lambda>r. repo_put (r\<lparr>us_invoiced_at := Some now\<rparr>)) rows (usage db)\<rparr>"
    and f: "iv_number iv = number" "iv_line_items iv = fee_item plan # overage_items plan (sort_key fst (usage_totals rows))"
      "iv_total_cents iv = pl_price_cents plan + sum_list (map li_amount_cents (overage_items plan (sort_key fst (usage_totals rows))))"
      "iv_status iv = IS_OPEN" "iv_amount_paid_cents iv = 0" "iv_paid_at iv = None" "deleted_at iv = None"
      "iv_organization_id iv = sb_organization_id s"
    by (auto simp: close_period_def Let_def rows_def [symmetric] repo_add_def split: if_splits)
  have "iv_total_cents iv = sum_list (map li_amount_cents (iv_line_items iv))"
    by (simp only: f sum_list_fee)
  with that [OF a f(1) t] f db' show thesis unfolding rows_def by blast
qed

lemma invoice_keys_mem: "keys t = [0..<n] \<Longrightarrow> repo_get i t = Some r \<Longrightarrow> i < n"
  using dict_get_in_keys [of t i r] by (simp add: repo_get_def)

lemma next_number_ok:
  assumes "ledger_ok db"
  shows "next_number now db = Inr (number_for now (Suc (length (invoices db))))"
    "\<not> list_ex (\<lambda>(k, r). iv_number r = number_for now (Suc (length (invoices db)))) (invoices db)"
proof -
  have ok: "table_ok (invoices db)" and k: "keys (invoices db) = [0..<length (invoices db)]"
    and rows: "\<And>i iv. repo_get i (invoices db) = Some iv \<Longrightarrow> invoice_row_ok db iv"
    using assms by (auto simp: ledger_ok_def)
  have mem: "repo_get i (invoices db) = Some r" if "(i, r) \<in> set (invoices db)" for i r
    using that ok by (simp add: repo_get_def table_ok_def dict_ok_def)
  have fresh: "iv_number r \<noteq> number_for now (Suc (length (invoices db)))" if "(i, r) \<in> set (invoices db)" for i r
  proof
    assume n: "iv_number r = number_for now (Suc (length (invoices db)))"
    have "number_seq (iv_number r) = Suc (ent_id r)" using rows [OF mem [OF that]] by (simp add: invoice_row_ok_def)
    with n have "ent_id r = length (invoices db)" by simp
    moreover have "i < length (invoices db)" using invoice_keys_mem [OF k mem [OF that]] .
    ultimately show False using table_ok_get [OF ok, of i r] mem [OF that] by (simp add: repo_get_def)
  qed
  have live: "base_query False (invoices db) = map snd (invoices db)"
    using rows [OF mem] by (auto simp: base_query_def invoice_row_ok_def intro!: filter_True)
  have "find_by (\<lambda>iv. iv_number iv = number_for now (Suc (length (invoices db)))) (invoices db) = None"
    using fresh by (auto simp: find_by_def live find_None_iff)
  then show "next_number now db = Inr (number_for now (Suc (length (invoices db))))"
    by (simp add: next_number_def live)
  show "\<not> list_ex (\<lambda>(k, r). iv_number r = number_for now (Suc (length (invoices db)))) (invoices db)"
    using fresh by (auto simp: list_ex_iff)
qed

lemma no_payments_for_new:
  assumes "ledger_ok db" and "repo_get i (invoices db) = None"
  shows "sum_rows (net i) (payments db) = 0"
proof -
  have "net i p = 0" if "(k, p) \<in> set (payments db)" for k p
  proof -
    have "repo_get k (payments db) = Some p"
      using that assms(1) by (simp add: repo_get_def ledger_ok_def table_ok_def dict_ok_def)
    then have "payment_row_ok db p" using assms(1) by (simp add: ledger_ok_def)
    then show ?thesis using assms(2) by (auto simp: net_def payment_row_ok_def)
  qed
  then have "map (\<lambda>(_, r). net i r) (payments db) = map (\<lambda>_. 0) (payments db)" by auto
  then show ?thesis by (simp add: sum_rows_def del: map_eq_conv)
qed

lemma close_period_ledger:
  assumes l: "ledger_ok db" and c: "close_period i now db = Inr (iv, db')"
  shows "ledger_ok db'"
proof -
  from c obtain number t where n: "next_number now db = Inr number" and inum: "iv_number iv = number"
    and t: "repo_add (iv\<lparr>ent_id := 0\<rparr>) (invoices db) = (iv, t)"
    and iv: "iv_total_cents iv = sum_list (map li_amount_cents (iv_line_items iv))" "iv_status iv = IS_OPEN"
      "iv_amount_paid_cents iv = 0" "iv_paid_at iv = None" "deleted_at iv = None"
    and db': "invoices db' = t" "payments db' = payments db" and us: "table_ok (usage db) \<Longrightarrow> table_ok (usage db')"
    by (rule close_period_Inr) (simp add: table_ok_stamp)
  have k: "keys (invoices db) = [0..<length (invoices db)]" using l by (simp add: ledger_ok_def)
  have id: "ent_id iv = length (invoices db)" "t = invoices db @ [(length (invoices db), iv)]"
    using arg_cong [OF repo_add_new(1) [OF t], of ent_id] repo_add_new(2) [OF t] by (simp_all add: new_id_upt [OF k])
  have "invoice_row_ok db' iv"
    using iv inum n next_number_ok(1) [OF l, of now] number_seq_for [of now "Suc (length (invoices db))"] no_payments_for_new [OF l repo_add_new(3) [OF t]]
    by (simp add: invoice_row_ok_def db' id(1))
  moreover have "invoice_row_ok db' x" if "repo_get j (invoices db) = Some x" for j x
    using l that invoice_row_cong [of x db' db] by (simp add: ledger_ok_def db')
  ultimately have "invoice_row_ok db' x" if "repo_get j (invoices db') = Some x" for j x
    using repo.all_add [OF t, of "invoice_row_ok db'"] that db'(1) by blast
  moreover have "payment_row_ok db' p" if "repo_get j (payments db) = Some p" for j p
    using l that repo.get_add [OF t] by (auto simp: ledger_ok_def payment_row_ok_def db')
  ultimately show ?thesis
    using l us k repo.ok_add [OF _ t] by (simp add: ledger_ok_def db' id(2))
qed

lemma settle_simps [simp]: "ent_id (settle a now iv) = ent_id iv" "deleted_at (settle a now iv) = deleted_at iv"
  "iv_number (settle a now iv) = iv_number iv" "iv_total_cents (settle a now iv) = iv_total_cents iv"
  "iv_line_items (settle a now iv) = iv_line_items iv" "iv_amount_paid_cents (settle a now iv) = iv_amount_paid_cents iv + a"
  by (simp_all add: settle_def Let_def)

lemma unsettle_simps [simp]: "ent_id (unsettle a iv) = ent_id iv" "deleted_at (unsettle a iv) = deleted_at iv"
  "iv_number (unsettle a iv) = iv_number iv" "iv_total_cents (unsettle a iv) = iv_total_cents iv"
  "iv_line_items (unsettle a iv) = iv_line_items iv" "iv_amount_paid_cents (unsettle a iv) = max (iv_amount_paid_cents iv - a) 0"
  by (simp_all add: unsettle_def Let_def)

lemma ledger_update:
  \<comment> \<open>an operation that changes the payments and one invoice \<open>iv\<close>\<close>
  assumes l: "ledger_ok db" and g: "repo_get (ent_id iv) (invoices db) = Some old"
    and pay: "table_ok ps" "\<And>j p. repo_get j ps = Some p \<Longrightarrow> payment_row_ok db p"
    and sums: "\<And>j. j \<noteq> ent_id iv \<Longrightarrow> sum_rows (net j) ps = sum_rows (net j) (payments db)"
    and row: "invoice_row_ok (db\<lparr>payments := ps\<rparr>) iv"
  shows "ledger_ok (db\<lparr>payments := ps, invoices := repo_put iv (invoices db)\<rparr>)" (is "ledger_ok ?db")
proof -
  have ok: "table_ok (invoices db)" "keys (invoices db) = [0..<length (invoices db)]" using l by (auto simp: ledger_ok_def)
  have keys: "keys (repo_put iv (invoices db)) = keys (invoices db)" using keys_put [OF ok(1)] g by simp
  then have len: "length (repo_put iv (invoices db)) = length (invoices db)" by (metis length_map)
  have "invoice_row_ok ?db x" if x: "repo_get j (repo_put iv (invoices db)) = Some x" for j x
  proof (cases "j = ent_id iv")
    case True
    with x row show ?thesis using invoice_row_cong [of x ?db "db\<lparr>payments := ps\<rparr>"] by simp
  next
    case False
    with x have "repo_get j (invoices db) = Some x" by simp
    moreover from this have "ent_id x = j" using ok(1) repo.get_key by blast
    ultimately show ?thesis using l sums [OF False] invoice_row_cong [of x ?db db] by (simp add: ledger_ok_def)
  qed
  moreover have "payment_row_ok ?db p" if "repo_get j ps = Some p" for j p
    using pay(2) [OF that] g by (simp add: payment_row_ok_def)
  ultimately show ?thesis using l pay(1) ok keys len by (simp add: ledger_ok_def)
qed

lemma record_new_payment_Inr:
  assumes "record_new_payment i amount provider pid now db = Inr (p, db')"
  obtains iv t where "repo_get i (invoices db) = Some iv" "repo_add (p\<lparr>ent_id := 0\<rparr>) (payments db) = (p, t)"
    "pm_invoice_id p = ent_id iv" "pm_amount_cents p = amount" "pm_refunded_cents p = 0" "pm_status p = PS_SUCCEEDED"
    "pm_provider_payment_id p = pid" "deleted_at p = None"
    "db' = db\<lparr>payments := t, invoices := repo_put (settle amount now iv) (invoices db)\<rparr>"
  using assms by (auto simp: record_new_payment_def repo_add_def Let_def split: option.splits if_splits)

lemma record_new_payment_ledger:
  assumes l: "ledger_ok db" and a: "0 < amount" and r: "record_new_payment i amount provider pid now db = Inr (p, db')"
  shows "ledger_ok db'"
proof -
  from r obtain iv t where iv: "repo_get i (invoices db) = Some iv" and t: "repo_add (p\<lparr>ent_id := 0\<rparr>) (payments db) = (p, t)"
    and p: "pm_invoice_id p = ent_id iv" "pm_amount_cents p = amount" "pm_refunded_cents p = 0" "pm_status p = PS_SUCCEEDED"
    and db': "db' = db\<lparr>payments := t, invoices := repo_put (settle amount now iv) (invoices db)\<rparr>"
    by (rule record_new_payment_Inr)
  have iok: "table_ok (invoices db)" and pok: "table_ok (payments db)" and iv_ok: "invoice_row_ok db iv"
    and pays: "\<And>j p. repo_get j (payments db) = Some p \<Longrightarrow> payment_row_ok db p"
    using l iv by (auto simp: ledger_ok_def)
  have id: "ent_id iv = i" using repo.get_key [OF iok iv] .
  have sums: "sum_rows (net j) t = sum_rows (net j) (payments db) + (if j = i then amount else 0)" for j
    using p id by (simp add: sum_rows_add [OF t] net_def)
  show ?thesis unfolding db'
  proof (rule ledger_update [OF l])
    show "repo_get (ent_id (settle amount now iv)) (invoices db) = Some iv" using iv id by simp
    show "table_ok t" by (rule repo.ok_add [OF pok t])
    have "payment_row_ok db p" using p a iv id by (simp add: payment_row_ok_def)
    then show "payment_row_ok db q" if "repo_get j t = Some q" for j q
      using repo.all_add [OF t, of "payment_row_ok db"] pays that by blast
    show "sum_rows (net j) t = sum_rows (net j) (payments db)" if "j \<noteq> ent_id (settle amount now iv)" for j
      using that id sums by simp
    show "invoice_row_ok (db\<lparr>payments := t\<rparr>) (settle amount now iv)"
      using iv_ok sums [of i] id a by (auto simp: invoice_row_ok_def settle_def Let_def split: if_splits)
  qed
qed

lemma record_payment_ledger:
  assumes "ledger_ok db" and "record_payment i amount provider pid now db = Inr (p, db')"
  shows "ledger_ok db'"
proof -
  from assms(2) have "db' = db \<or> 0 < amount \<and> record_new_payment i amount provider pid now db = Inr (p, db')"
    by (auto simp: record_payment_def split: if_splits option.splits)
  then show ?thesis using assms(1) record_new_payment_ledger by metis
qed

lemma net_nonneg: "payment_row_ok db p \<Longrightarrow> 0 \<le> net i p"
  by (simp add: net_def payment_row_ok_def)

lemma refund_ledger:
  assumes l: "ledger_ok db" and r: "refund i amount db = Inr (q, db')"
  shows "ledger_ok db'"
proof -
  from r obtain p where g: "repo_get i (payments db) = Some p" and a: "0 < amount" "pm_refunded_cents p + amount \<le> pm_amount_cents p"
    by (auto simp: refund_def split: option.splits if_splits)
  have iok: "table_ok (invoices db)" and pok: "table_ok (payments db)" and p_ok: "payment_row_ok db p"
    and pays: "\<And>j p. repo_get j (payments db) = Some p \<Longrightarrow> payment_row_ok db p"
    using l g by (auto simp: ledger_ok_def)
  have pid: "ent_id p = i" using repo.get_key [OF pok g] .
  from p_ok obtain iv where iv: "repo_get (pm_invoice_id p) (invoices db) = Some iv" by (auto simp: payment_row_ok_def)
  have id: "ent_id iv = pm_invoice_id p" using repo.get_key [OF iok iv] .
  have iv_ok: "invoice_row_ok db iv" using l iv by (auto simp: ledger_ok_def)
  define p' where "p' = (if pm_refunded_cents p + amount = pm_amount_cents p
    then p\<lparr>pm_refunded_cents := pm_refunded_cents p + amount, pm_status := PS_REFUNDED\<rparr>
    else p\<lparr>pm_refunded_cents := pm_refunded_cents p + amount\<rparr>)"
  have db': "db' = db\<lparr>payments := repo_put p' (payments db), invoices := repo_put (unsettle amount iv) (invoices db)\<rparr>"
    using r g a iv by (auto simp: refund_def p'_def Let_def split: if_splits)
  have p'e: "ent_id p' = i" "pm_invoice_id p' = pm_invoice_id p" "pm_amount_cents p' = pm_amount_cents p"
    "pm_refunded_cents p' = pm_refunded_cents p + amount" by (simp_all add: p'_def pid)
  have sums: "sum_rows (net j) (repo_put p' (payments db)) = sum_rows (net j) (payments db) - (if j = ent_id iv then amount else 0)" for j
    using sum_rows_put [OF pok, of p' p "net j"] g p'e id by (simp add: net_def)
  have paid: "amount \<le> iv_amount_paid_cents iv"
  proof -
    have "net (ent_id iv) p \<le> sum_rows (net (ent_id iv)) (payments db)"
      by (rule sum_rows_ge [OF g]) (use pays net_nonneg pok in blast)+
    then show ?thesis using iv_ok a(2) id by (simp add: invoice_row_ok_def net_def)
  qed
  show ?thesis unfolding db'
  proof (rule ledger_update [OF l])
    show "repo_get (ent_id (unsettle amount iv)) (invoices db) = Some iv" using iv id by simp
    show "table_ok (repo_put p' (payments db))" using pok by simp
    have "payment_row_ok db p'" using p_ok a by (simp add: payment_row_ok_def p'_def)
    then show "payment_row_ok db x" if "repo_get j (repo_put p' (payments db)) = Some x" for j x
      using repo.all_put [of "payments db" "payment_row_ok db"] pays that by blast
    show "sum_rows (net j) (repo_put p' (payments db)) = sum_rows (net j) (payments db)" if "j \<noteq> ent_id (unsettle amount iv)" for j
      using that sums by simp
    show "invoice_row_ok (db\<lparr>payments := repo_put p' (payments db)\<rparr>) (unsettle amount iv)"
      using iv_ok sums [of "ent_id iv"] paid a(1) by (auto simp: invoice_row_ok_def unsettle_def Let_def split: if_splits)
  qed
qed

lemma billing_step_ledger: "billing_step db db' \<Longrightarrow> ledger_ok db \<Longrightarrow> ledger_ok db'"
proof (induction rule: billing_step.induct)
  case (Subscribe organization code now db s db')
  then show ?case
    by (intro ledger_frame [of db' db]) (auto simp: subscription_subscribe_def Let_def ledger_ok_def split: option.splits if_splits prod.splits)
next
  case (Cancel i at_end now db s db')
  then show ?case
    by (intro ledger_frame [of db' db]) (auto simp: subscription_cancel_def Let_def ledger_ok_def split: option.splits if_splits)
next
  case (Use organization metric q on now db u db')
  then obtain t where "db' = db\<lparr>usage := t\<rparr>" "\<exists>r. repo_add r (usage db) = (u, t)"
    by (auto simp: usage_record_add_def split: if_splits prod.splits)
  with Use show ?case using repo_add_ok by (intro ledger_frame [of db' db]) (auto simp: ledger_ok_def)
next
  case (Cost category q organization' vendor on now db c db')
  then show ?case
    by (intro ledger_frame [of db' db]) (auto simp: cost_record_add_def ledger_ok_def split: if_splits prod.splits)
qed (auto intro: close_period_ledger record_payment_ledger refund_ledger)

lemma reachable_ledger: "billing_step\<^sup>*\<^sup>* db0 db \<Longrightarrow> fresh_db db0 \<Longrightarrow> ledger_ok db"
proof (induction rule: rtranclp_induct)
  case base
  then show ?case by (simp add: fresh_db_def ledger_ok_def repo_get_def)
next
  case (step db1 db2)
  then show ?case using billing_step_ledger by blast
qed

text \<open>
  C10: in every state the billing operations reach from an empty ledger, an invoice's paid amount
  is the sum of its payments less their refunds, its total is the sum of its line items, it is
  marked paid only when the total is covered and open only when something is owed or nothing was
  paid, and no payment is refunded beyond its amount.
\<close>

theorem ledger_balanced:
  assumes "fresh_db db0" and "billing_step\<^sup>*\<^sup>* db0 db" and "repo_get i (invoices db) = Some iv"
  shows "iv_amount_paid_cents iv = sum_rows (net i) (payments db)
    \<and> iv_total_cents iv = sum_list (map li_amount_cents (iv_line_items iv))
    \<and> (iv_status iv = IS_PAID \<longrightarrow> iv_total_cents iv \<le> iv_amount_paid_cents iv)
    \<and> (iv_status iv \<noteq> IS_PAID \<longrightarrow> iv_status iv = IS_OPEN \<and> (iv_amount_paid_cents iv < iv_total_cents iv \<or> iv_amount_paid_cents iv = 0))
    \<and> (\<forall>j p. repo_get j (payments db) = Some p \<longrightarrow> 0 \<le> pm_refunded_cents p \<and> pm_refunded_cents p \<le> pm_amount_cents p)"
proof -
  have l: "ledger_ok db" by (rule reachable_ledger [OF assms(2,1)])
  then have "invoice_row_ok db iv" "ent_id iv = i" using assms(3) repo.get_key by (auto simp: ledger_ok_def)
  moreover have "\<And>j p. repo_get j (payments db) = Some p \<Longrightarrow> payment_row_ok db p" using l by (simp add: ledger_ok_def)
  ultimately show ?thesis by (auto simp: invoice_row_ok_def payment_row_ok_def split: if_splits)
qed

section \<open>Closing a period\<close>

text \<open>
  Closing the period of a known subscription on a known plan always succeeds in a reachable
  state: the number it takes is unused.
\<close>

theorem close_period_succeeds:
  assumes "fresh_db db0" and "billing_step\<^sup>*\<^sup>* db0 db"
    and "repo_get i (subscriptions db) = Some s" and "repo_get (sb_plan_id s) (plans db) = Some plan"
  shows "\<exists>iv db'. close_period i now db = Inr (iv, db') \<and> number_seq (iv_number iv) = Suc (length (invoices db))"
proof -
  have l: "ledger_ok db" by (rule reachable_ledger [OF assms(2,1)])
  show ?thesis
    using assms(3,4) next_number_ok [OF l, of now] number_seq_for [of now "Suc (length (invoices db))"]
    by (auto simp: close_period_def Let_def repo_add_def)
qed

lemma get_stamped:
  assumes "table_ok t" and "\<And>r. r \<in> set rows \<Longrightarrow> repo_get (ent_id r) t = Some r" and "distinct (map ent_id rows)"
    and "\<And>r. ent_id (g r) = ent_id r"
  shows "repo_get j (fold (\<lambda>r. repo_put (g r)) rows t) = (if j \<in> ent_id ` set rows then map_option g (repo_get j t) else repo_get j t)"
  using assms(1-3)
proof (induction rows arbitrary: t)
  case (Cons r rows)
  have "repo_get (ent_id x) (repo_put (g r) t) = Some x" if "x \<in> set rows" for x
  proof -
    have "ent_id r \<notin> ent_id ` set rows" using Cons.prems(3) by simp
    then have "ent_id x \<noteq> ent_id r" using that by (metis image_eqI)
    then show ?thesis using Cons.prems(2) [of x] that by (simp add: assms(4))
  qed
  with Cons.IH [of "repo_put (g r) t"] Cons.prems
  have "repo_get j (fold (\<lambda>r. repo_put (g r)) (r # rows) t)
      = (if j \<in> ent_id ` set rows then map_option g (repo_get j (repo_put (g r) t)) else repo_get j (repo_put (g r) t))"
    by simp
  then show ?case using Cons.prems(2) [of r] Cons.prems(3) by (auto simp: assms(4))
qed simp

lemma ids_base_query: "table_ok t \<Longrightarrow> distinct (map ent_id (base_query d t))"
proof -
  assume ok: "table_ok t"
  have "map ent_id (map snd t) = keys t" using ok by (auto simp: table_ok_def list_all_iff)
  then have "distinct (map ent_id (map snd t))" using ok unfolding table_ok_def dict_ok_def by metis
  then show ?thesis unfolding base_query_def by (rule distinct_map_filter)
qed

lemma list_uninvoiced_mem:
  "table_ok (usage db) \<Longrightarrow> r \<in> set (list_uninvoiced org until db) \<longleftrightarrow> repo_get (ent_id r) (usage db) = Some r \<and> deleted_at r = None
     \<and> us_organization_id r = org \<and> us_recorded_for r \<le> until \<and> us_invoiced_at r = None"
  using base_query_mem [of "usage db" r] by (auto simp: list_uninvoiced_def)

lemma uninvoiced_after_stamp:
  assumes ok: "table_ok (usage db)"
    and u: "usage db' = fold (\<lambda>r. repo_put (r\<lparr>us_invoiced_at := Some now\<rparr>)) (list_uninvoiced org until db) (usage db)"
  shows "list_uninvoiced org until db' = []"
    "\<And>j. repo_get j (usage db') = (case repo_get j (usage db) of None \<Rightarrow> None | Some r \<Rightarrow>
       Some (if r \<in> set (list_uninvoiced org until db) then r\<lparr>us_invoiced_at := Some now\<rparr> else r))"
proof -
  let ?rows = "list_uninvoiced org until db"
  have g: "repo_get j (usage db') = (if j \<in> ent_id ` set ?rows then map_option (\<lambda>r. r\<lparr>us_invoiced_at := Some now\<rparr>) (repo_get j (usage db))
      else repo_get j (usage db))" for j
    unfolding u
  proof (rule get_stamped [OF ok])
    show "distinct (map ent_id ?rows)"
      unfolding list_uninvoiced_def by (rule distinct_map_filter [OF ids_base_query [OF ok]])
  qed (simp_all add: list_uninvoiced_mem [OF ok])
  have mem: "j \<in> ent_id ` set ?rows \<longleftrightarrow> r \<in> set ?rows" if "repo_get j (usage db) = Some r" for j r
    using that list_uninvoiced_mem [OF ok] repo.get_key [OF ok that] by force
  show get: "repo_get j (usage db') = (case repo_get j (usage db) of None \<Rightarrow> None | Some r \<Rightarrow>
       Some (if r \<in> set ?rows then r\<lparr>us_invoiced_at := Some now\<rparr> else r))" for j
    using g [of j] mem [of j] by (auto split: option.splits)
  have ok': "table_ok (usage db')" unfolding u using ok by (rule table_ok_stamp)
  have "r \<notin> set (list_uninvoiced org until db')" for r
    using get [of "ent_id r"] list_uninvoiced_mem [OF ok', of r] list_uninvoiced_mem [OF ok, of r]
    by (auto split: option.splits if_splits)
  then show "list_uninvoiced org until db' = []" by (cases "list_uninvoiced org until db'") auto
qed


lemma round_half_up_near: "\<bar>of_int (round_half_up q) - q\<bar> \<le> 1 / 2"
  unfolding round_half_up_def by (auto simp: abs_if) linarith+

lemma usage_totals_fold:
  "dict_get (fold (\<lambda>r d. dict_set (us_metric r) ((case dict_get d (us_metric r) of None \<Rightarrow> 0 | Some q \<Rightarrow> q) + us_quantity r) d) rows d0) m
     = (if m \<in> us_metric ` set rows
        then Some ((case dict_get d0 m of None \<Rightarrow> 0 | Some q \<Rightarrow> q) + sum_list (map us_quantity (filter (\<lambda>r. us_metric r = m) rows)))
        else dict_get d0 m)"
proof (induction rows arbitrary: d0)
  case (Cons r rows)
  have "filter (\<lambda>x. us_metric x = us_metric r) rows = []" if "us_metric r \<notin> us_metric ` set rows"
    using that by (metis (mono_tags, lifting) filter_False image_eqI)
  then show ?case by (auto simp: Cons dict_get_set)
qed simp

definition used :: "usage_record list \<Rightarrow> string \<Rightarrow> rat" where
  "used rows m = sum_list (map us_quantity (filter (\<lambda>r. us_metric r = m) rows))"

lemma usage_totals_get: "dict_get (usage_totals rows) m = (if m \<in> us_metric ` set rows then Some (used rows m) else None)"
  unfolding usage_totals_def usage_totals_fold by (simp add: used_def)

lemma dict_ok_usage_totals: "dict_ok (usage_totals rows)"
proof -
  have "dict_ok (fold (\<lambda>r d. dict_set (us_metric r) (f r d) d) rows d0)" if "dict_ok d0" for f :: "usage_record \<Rightarrow> (string, rat) dict \<Rightarrow> rat" and d0
    using that by (induction rows arbitrary: d0) auto
  from this [of "[]" "\<lambda>r d. (case dict_get d (us_metric r) of None \<Rightarrow> 0 | Some q \<Rightarrow> q) + us_quantity r"]
  show ?thesis by (simp add: usage_totals_def)
qed

definition allowance :: "plan \<Rightarrow> string \<Rightarrow> rat" where
  "allowance plan m = (case dict_get (pl_quotas plan) m of None \<Rightarrow> 0 | Some a \<Rightarrow> a)"

definition overage_item :: "plan \<Rightarrow> string \<Rightarrow> rat \<Rightarrow> rat \<Rightarrow> line_item" where
  "overage_item plan m q rate = \<lparr>li_description = m @ '' overage'', li_quantity = q - allowance plan m, li_unit_price_cents = rate,
     li_amount_cents = round_half_up ((q - allowance plan m) * rate)\<rparr>"

lemma overage_items_mem:
  "x \<in> set (overage_items plan ms) \<longleftrightarrow>
     (\<exists>m q rate. (m, q) \<in> set ms \<and> dict_get (pl_overage_rates plan) m = Some rate \<and> allowance plan m < q \<and> x = overage_item plan m q rate)"
proof (induction plan ms rule: overage_items.induct)
  case (2 plan m q ms)
  show ?case
  proof (cases "dict_get (pl_overage_rates plan) m")
    case None
    with 2 show ?thesis by auto
  next
    case (Some rate)
    with 2 show ?thesis by (auto simp: Let_def overage_item_def allowance_def)
  qed
qed simp

text \<open>
  An invoice charges the plan's fee and, for exactly the metrics with unbilled usage above the
  allowance and a rate, the excess times the rate; each such amount is within half a cent of the
  exact product, and the total is the sum of the items.
\<close>

theorem close_period_charges:
  assumes "close_period i now db = Inr (iv, db')" and "repo_get i (subscriptions db) = Some s"
    and "repo_get (sb_plan_id s) (plans db) = Some plan"
    and "rows = list_uninvoiced (sb_organization_id s) (date_of (sb_current_period_end s)) db"
  shows "iv_total_cents iv = sum_list (map li_amount_cents (iv_line_items iv))
    \<and> (\<exists>items. iv_line_items iv = fee_item plan # items
        \<and> (\<forall>x. x \<in> set items \<longleftrightarrow> (\<exists>m rate. m \<in> us_metric ` set rows \<and> dict_get (pl_overage_rates plan) m = Some rate
              \<and> allowance plan m < used rows m \<and> x = overage_item plan m (used rows m) rate))
        \<and> (\<forall>x \<in> set items. \<bar>of_int (li_amount_cents x) - li_quantity x * li_unit_price_cents x\<bar> \<le> 1 / 2))"
proof -
  let ?items = "overage_items plan (sort_key fst (usage_totals rows))"
  have t: "iv_total_cents iv = sum_list (map li_amount_cents (iv_line_items iv))" "iv_line_items iv = fee_item plan # ?items"
    by (rule close_period_Inr [OF assms(1)], use assms(2-4) in simp)+
  have m: "(m, q) \<in> set (usage_totals rows) \<longleftrightarrow> m \<in> us_metric ` set rows \<and> q = used rows m" for m q
    using usage_totals_get [of rows m] dict_ok_usage_totals [of rows]
    by (metis (mono_tags) dict_ok_def map_of_eq_Some_iff option.distinct(1) option.inject)
  have "x \<in> set ?items \<longleftrightarrow> (\<exists>m rate. m \<in> us_metric ` set rows \<and> dict_get (pl_overage_rates plan) m = Some rate
      \<and> allowance plan m < used rows m \<and> x = overage_item plan m (used rows m) rate)" for x
    unfolding overage_items_mem set_sort m by blast
  moreover have "\<bar>of_int (li_amount_cents x) - li_quantity x * li_unit_price_cents x\<bar> \<le> 1 / 2" if "x \<in> set ?items" for x
    using that round_half_up_near unfolding overage_items_mem by (auto simp: overage_item_def)
  ultimately show ?thesis using t by blast
qed

section \<open>Payments are idempotent\<close>

lemma record_payment_found:
  assumes "table_ok (payments db)" and "pid \<noteq> []" and "record_payment i amount provider (Some pid) now db = Inr (p, db')"
  shows "payment_by_provider_id pid db' = Some p \<and> pm_provider_payment_id p = Some pid"
proof (cases "payment_by_provider_id pid db")
  case (Some q)
  then have "db' = db" "p = q" using assms(2,3) by (auto simp: record_payment_def truthy_def split: if_splits)
  with Some show ?thesis using find_by_Some [OF assms(1)] by (auto simp: payment_by_provider_id_def)
next
  case None
  then have n: "record_new_payment i amount provider (Some pid) now db = Inr (p, db')"
    using assms(2,3) by (auto simp: record_payment_def truthy_def split: if_splits)
  from n obtain t where t: "repo_add (p\<lparr>ent_id := 0\<rparr>) (payments db) = (p, t)"
    and p: "pm_provider_payment_id p = Some pid" "deleted_at p = None" and db': "payments db' = t"
    by (rule record_new_payment_Inr) simp
  have "base_query False t = base_query False (payments db) @ [p]"
    using repo_add_new(2) [OF t] p by (simp add: base_query_def)
  moreover have "List.find P (xs @ [y]) = Some y" if "List.find P xs = None" "P y" for P and xs :: "payment list" and y
    using that by (induction xs) (auto split: if_splits)
  ultimately show ?thesis using None p by (simp add: payment_by_provider_id_def find_by_def db')
qed

lemma record_payment_existing:
  "0 < amount \<Longrightarrow> pid \<noteq> [] \<Longrightarrow> payment_by_provider_id pid db = Some p \<Longrightarrow> record_payment i amount provider (Some pid) now db = Inr (p, db)"
  by (simp add: record_payment_def truthy_def)

text \<open>
  Recording a payment again under the same provider id, whatever the invoice and amount named,
  returns the first payment and changes nothing.
\<close>

theorem record_payment_idempotent:
  assumes "table_ok (payments db)" and "pid \<noteq> []" and "record_payment i amount provider (Some pid) now db = Inr (p, db')" and "0 < amount'"
  shows "record_payment i' amount' provider' (Some pid) now' db' = Inr (p, db') \<and> pm_provider_payment_id p = Some pid"
  using record_payment_found [OF assms(1-3)] record_payment_existing [OF assms(4,2)] by blast

section \<open>Where the code and its documents part\<close>

text \<open>
  Refunding any part of a payment of a voided invoice reopens the invoice.
\<close>

theorem refund_reopens_void:
  assumes "repo_get i (payments db) = Some p" and "repo_get (pm_invoice_id p) (invoices db) = Some iv" and "ent_id iv = pm_invoice_id p"
    and "iv_status iv = IS_VOID" and "0 < amount" and "pm_refunded_cents p + amount \<le> pm_amount_cents p"
    and "iv_amount_paid_cents iv - amount < iv_total_cents iv" and "0 < iv_total_cents iv"
  shows "\<exists>q db' iv'. refund i amount db = Inr (q, db') \<and> repo_get (pm_invoice_id p) (invoices db') = Some iv' \<and> iv_status iv' = IS_OPEN"
  using assms by (auto simp: refund_def Let_def unsettle_def)

text \<open>
  An organization can have one immediate cancellation: while a cancelled subscription of the
  organization is kept, cancelling another one violates the unique constraint.
\<close>

theorem second_cancellation_fails:
  assumes "repo_get i (subscriptions db) = Some s" and "ent_id s = i" and "repo_get j (subscriptions db) = Some s'" and "j \<noteq> i"
    and "sb_organization_id s' = sb_organization_id s" and "sb_status s' = SS_CANCELLED"
  shows "subscription_cancel i False now db = Inl (IntegrityError ''uq_subscription_organization_id_status'')"
proof -
  have "(j, s') \<in> set (subscriptions db)" using assms(3) by (auto simp: repo_get_def dest: map_of_SomeD)
  then show ?thesis using assms by (force simp: subscription_cancel_def subscription_clash_def list_ex_iff Let_def)
qed

text \<open>
  A metric without a quota counts as within quota however much was used, and yet is billed
  from the first unit when the plan has a rate for it.
\<close>

theorem absent_quota_is_billed:
  assumes "get_active org db = Some s" and "repo_get (sb_plan_id s) (plans db) = Some plan"
    and "dict_get (pl_quotas plan) m = None" and "dict_get (pl_overage_rates plan) m = Some rate"
    and "r \<in> set rows" and "us_metric r = m" and "0 < used rows m"
  shows "is_within_quota org m db
    \<and> overage_item plan m (used rows m) rate \<in> set (overage_items plan (sort_key fst (usage_totals rows)))
    \<and> li_quantity (overage_item plan m (used rows m) rate) = used rows m"
proof -
  have "(m, used rows m) \<in> set (usage_totals rows)"
    using usage_totals_get [of rows m] assms(5,6) by (auto dest: map_of_SomeD)
  moreover have "allowance plan m = 0" using assms(3) by (simp add: allowance_def)
  ultimately show ?thesis
    using assms by (auto simp: overage_items_mem is_within_quota_def quota_remaining_def overage_item_def)
qed

section \<open>Witnesses\<close>

definition sample_plan :: plan where
  "sample_plan = \<lparr>ent_id = 0, created_at = 0, deleted_at = None, pl_code = ''pro'', pl_name = ''Pro'', pl_price_cents = 1000,
     pl_currency = ''USD'', pl_interval = ''monthly'', pl_trial_days = 0, pl_is_public = True,
     pl_quotas = [(''render'', 10)], pl_overage_rates = [(''render'', 5 / 2), (''api'', 1)]\<rparr>"

definition sample_db :: billing_db where
  "sample_db = \<lparr>plans = [(0, sample_plan)], subscriptions = [], invoices = [], payments = [], usage = [], costs = []\<rparr>"

definition after :: "('a \<times> billing_db) db_result \<Rightarrow> billing_db" where
  "after r = (case r of Inl _ \<Rightarrow> sample_db | Inr (_, db) \<Rightarrow> db)"

definition db_subscribed :: billing_db where "db_subscribed = after (subscription_subscribe 7 ''pro'' 0 sample_db)"
definition db_used :: billing_db where "db_used = after (usage_record_add 7 ''render'' 13 None 0 db_subscribed)"
definition db_closed :: billing_db where "db_closed = after (close_period 0 0 db_used)"
definition db_paid :: billing_db where "db_paid = after (record_payment 0 1008 None (Some ''pay_1'') 0 db_closed)"

definition ok_result :: "'a db_result \<Rightarrow> bool" where
  "ok_result r = (case r of Inl _ \<Rightarrow> False | Inr _ \<Rightarrow> True)"

lemma after_ok: "ok_result r \<Longrightarrow> r = Inr (fst (projr r), after r)"
  by (cases r) (auto simp: ok_result_def after_def)

lemma sample_steps:
  "ok_result (subscription_subscribe 7 ''pro'' 0 sample_db)" "ok_result (usage_record_add 7 ''render'' 13 None 0 db_subscribed)"
  "ok_result (close_period 0 0 db_used)" "ok_result (record_payment 0 1008 None (Some ''pay_1'') 0 db_closed)"
  by code_simp+

lemmas sample_results = sample_steps [THEN after_ok, folded db_subscribed_def db_used_def db_closed_def db_paid_def]

lemma sample_fresh: "fresh_db sample_db"
  by (simp add: fresh_db_def sample_db_def sample_plan_def table_ok_def dict_ok_def)

lemma sample_reach: "billing_step\<^sup>*\<^sup>* sample_db db_used" "billing_step\<^sup>*\<^sup>* sample_db db_paid"
proof -
  show u: "billing_step\<^sup>*\<^sup>* sample_db db_used"
    by (rule rtranclp.rtrancl_into_rtrancl [OF rtranclp.rtrancl_into_rtrancl [OF rtranclp.rtrancl_refl]])
      (rule billing_step.Subscribe [OF sample_results(1)] billing_step.Use [OF sample_results(2)])+
  show "billing_step\<^sup>*\<^sup>* sample_db db_paid"
    by (rule rtranclp.rtrancl_into_rtrancl [OF rtranclp.rtrancl_into_rtrancl [OF u]])
      (rule billing_step.Close [OF sample_results(3)] billing_step.Pay [OF sample_results(4)])+
qed

lemma sample_usage_ok: "table_ok (usage db_used)"
  by code_simp

theorem ledger_balanced_witness:
  "\<exists>iv. repo_get 0 (invoices db_paid) = Some iv \<and> iv_amount_paid_cents iv = sum_rows (net 0) (payments db_paid) \<and> iv_total_cents iv \<le> 1008"
proof -
  have "(case repo_get 0 (invoices db_paid) of None \<Rightarrow> False | Some iv \<Rightarrow> iv_status iv = IS_PAID \<and> iv_amount_paid_cents iv = 1008)"
    by code_simp
  then obtain iv where iv: "repo_get 0 (invoices db_paid) = Some iv" "iv_status iv = IS_PAID" "iv_amount_paid_cents iv = 1008"
    by (auto split: option.splits)
  with ledger_balanced [OF sample_fresh sample_reach(2) iv(1)] show ?thesis by auto
qed

theorem close_period_succeeds_witness: "\<exists>iv db'. close_period 0 5 db_used = Inr (iv, db') \<and> number_seq (iv_number iv) = 1"
proof -
  have "(case repo_get 0 (subscriptions db_used) of None \<Rightarrow> False | Some s \<Rightarrow> repo_get (sb_plan_id s) (plans db_used) = Some sample_plan)"
    "length (invoices db_used) = 0" by code_simp+
  then obtain s where "repo_get 0 (subscriptions db_used) = Some s" "repo_get (sb_plan_id s) (plans db_used) = Some sample_plan"
    by (auto split: option.splits)
  from close_period_succeeds [OF sample_fresh sample_reach(1) this, of 5] show ?thesis
    using \<open>length (invoices db_used) = 0\<close> by simp
qed


theorem close_period_charges_witness:
  "\<exists>iv. fst (projr (close_period 0 0 db_used)) = iv \<and> iv_total_cents iv = 1008
     \<and> iv_total_cents iv = sum_list (map li_amount_cents (iv_line_items iv))"
proof -
  have "(case repo_get 0 (subscriptions db_used) of None \<Rightarrow> False | Some s \<Rightarrow> repo_get (sb_plan_id s) (plans db_used) = Some sample_plan)"
    "iv_total_cents (fst (projr (close_period 0 0 db_used))) = 1008"
    by code_simp+
  then obtain s where s: "repo_get 0 (subscriptions db_used) = Some s" "repo_get (sb_plan_id s) (plans db_used) = Some sample_plan"
    by (auto split: option.splits)
  from close_period_charges [OF sample_results(3) s refl] show ?thesis
    using \<open>iv_total_cents (fst (projr (close_period 0 0 db_used))) = 1008\<close> by blast
qed

theorem record_payment_idempotent_witness:
  "\<exists>p. record_payment 3 9 None (Some ''pay_1'') 8 db_paid = Inr (p, db_paid)"
proof -
  have "table_ok (payments db_closed)" by code_simp
  from record_payment_idempotent [OF this _ sample_results(4), of 9 3 None 8] show ?thesis by auto
qed

definition void_db :: billing_db where
  "void_db = db_paid\<lparr>invoices := map (\<lambda>(k, iv). (k, iv\<lparr>iv_status := IS_VOID\<rparr>)) (invoices db_paid)\<rparr>"

theorem refund_reopens_void_witness:
  "\<exists>q db' iv'. refund 0 1 void_db = Inr (q, db') \<and> repo_get 0 (invoices db') = Some iv' \<and> iv_status iv' = IS_OPEN"
proof -
  have "(case repo_get 0 (payments void_db) of None \<Rightarrow> False | Some p \<Rightarrow> pm_invoice_id p = 0 \<and> pm_refunded_cents p + 1 \<le> pm_amount_cents p)"
    "(case repo_get 0 (invoices void_db) of None \<Rightarrow> False | Some iv \<Rightarrow> ent_id iv = 0 \<and> iv_status iv = IS_VOID
        \<and> iv_amount_paid_cents iv - 1 < iv_total_cents iv \<and> 0 < iv_total_cents iv)"
    by code_simp+
  then obtain p iv where "repo_get 0 (payments void_db) = Some p" "pm_invoice_id p = 0" "pm_refunded_cents p + 1 \<le> pm_amount_cents p"
    "repo_get 0 (invoices void_db) = Some iv" "ent_id iv = 0" "iv_status iv = IS_VOID" "iv_amount_paid_cents iv - 1 < iv_total_cents iv"
    "0 < iv_total_cents iv"
    by (auto split: option.splits)
  then show ?thesis using refund_reopens_void [of 0 void_db p iv 1] by simp
qed

definition two_subscriptions :: billing_db where
  "two_subscriptions = after (subscription_subscribe 7 ''pro'' 0 (after (subscription_cancel 0 False 0 db_subscribed)))"

theorem second_cancellation_fails_witness:
  "subscription_cancel 1 False 0 two_subscriptions = Inl (IntegrityError ''uq_subscription_organization_id_status'')"
proof -
  have "(case repo_get 1 (subscriptions two_subscriptions) of None \<Rightarrow> False | Some s \<Rightarrow> ent_id s = 1 \<and> sb_organization_id s = 7)"
    "(case repo_get 0 (subscriptions two_subscriptions) of None \<Rightarrow> False | Some s \<Rightarrow> sb_organization_id s = 7 \<and> sb_status s = SS_CANCELLED)"
    by code_simp+
  then obtain s s' where "repo_get 1 (subscriptions two_subscriptions) = Some s" "ent_id s = 1" "sb_organization_id s = 7"
    "repo_get 0 (subscriptions two_subscriptions) = Some s'" "sb_organization_id s' = 7" "sb_status s' = SS_CANCELLED"
    by (auto split: option.splits)
  then show ?thesis using second_cancellation_fails [of 1 two_subscriptions s 0 s'] by simp
qed

definition api_usage :: usage_record where
  "api_usage = \<lparr>ent_id = 0, created_at = 0, deleted_at = None, us_organization_id = 7, us_subscription_id = None,
     us_metric = ''api'', us_quantity = 3, us_recorded_for = 0, us_invoiced_at = None\<rparr>"

theorem absent_quota_is_billed_witness:
  "is_within_quota 7 ''api'' db_used \<and> overage_item sample_plan ''api'' 3 1 \<in> set (overage_items sample_plan (sort_key fst (usage_totals [api_usage])))"
proof -
  have "(case get_active 7 db_used of None \<Rightarrow> False | Some s \<Rightarrow> repo_get (sb_plan_id s) (plans db_used) = Some sample_plan)"
    by code_simp
  then obtain s where s: "get_active 7 db_used = Some s" "repo_get (sb_plan_id s) (plans db_used) = Some sample_plan"
    by (auto split: option.splits)
  have u: "used [api_usage] ''api'' = 3" by (simp add: used_def api_usage_def)
  have "dict_get (pl_quotas sample_plan) ''api'' = None" "dict_get (pl_overage_rates sample_plan) ''api'' = Some 1"
    by (simp_all add: sample_plan_def)
  from absent_quota_is_billed [OF s this, of api_usage "[api_usage]"] show ?thesis
    unfolding u by (simp add: api_usage_def)
qed

end
