(* ===== verification/Payments.thy ===== *)
theory Payments
  imports Billing
begin

text \<open>
  Collecting invoices through a payment provider (\<^verbatim>\<open>app/services/payment_gateway.py\<close>), the provider
  contract, the mock provider and the registry (\<^verbatim>\<open>app/core/payments/\<close>). The hash functions and the
  JSON parser of the runtime are parameters; a byte string is a string of its bytes. The state is
  the billing database with the instruments written so far.
\<close>

section \<open>The provider contract\<close>

datatype charge_status = CS_SUCCEEDED | CS_REQUIRES_ACTION | CS_DECLINED

fun charge_status_value :: "charge_status \<Rightarrow> string" where
  "charge_status_value CS_SUCCEEDED = ''succeeded''"
| "charge_status_value CS_REQUIRES_ACTION = ''requires_action''"
| "charge_status_value CS_DECLINED = ''declined''"

record charge_result =
  cr_status :: charge_status
  cr_provider_payment_id :: string
  cr_amount_cents :: int
  cr_currency :: string
  cr_decline_reason :: "string option"
  cr_action_url :: "string option"

record refund_result =
  rr_provider_refund_id :: string
  rr_amount_cents :: int

record webhook_event =
  we_event_id :: string
  we_event_type :: string
  we_provider_payment_id :: pyval
  we_amount_cents :: "int option"
  we_payload :: pydict

datatype gateway_exc =
    Db db_exc
  | PaymentProviderError string
  | AttributeError

record payment_provider =
  pv_slug :: string
  pv_charge :: "int \<Rightarrow> string \<Rightarrow> string \<Rightarrow> string option \<Rightarrow> gateway_exc + charge_result"
  pv_refund :: "string \<Rightarrow> int \<Rightarrow> gateway_exc + refund_result"
  pv_verify_webhook :: "string \<Rightarrow> string option \<Rightarrow> string \<Rightarrow> gateway_exc + webhook_event"

section \<open>The registry\<close>

type_synonym provider_registry = "(string, payment_provider) dict"

definition register_provider :: "string \<Rightarrow> payment_provider \<Rightarrow> provider_registry \<Rightarrow> provider_registry" where
  "register_provider slug p reg = dict_set slug p reg"

definition get_provider :: "provider_registry \<Rightarrow> string \<Rightarrow> string option \<Rightarrow> gateway_exc + payment_provider" where
  \<comment> \<open>\<open>configured\<close> is \<open>settings.payment_provider\<close>\<close>
  "get_provider reg configured slug =
     (let resolved = (if truthy slug then the slug else configured)
      in case dict_get reg resolved of
           None \<Rightarrow> Inl (Db (App (app_error_init ServiceUnavailableError
                       (Some (''No payment provider registered for '' @ [CHR 0x27] @ resolved @ [CHR 0x27] @ ''.'')))))
         | Some p \<Rightarrow> Inr p)"

section \<open>The mock provider\<close>

record crypto =
  sha256_hex :: "string \<Rightarrow> string"
  hmac_hex :: "string \<Rightarrow> string \<Rightarrow> string"
  json_loads :: "string \<Rightarrow> string + pyval"

definition DECLINE_MARKER :: string where "DECLINE_MARKER = ''decline''"
definition ACTION_MARKER :: string where "ACTION_MARKER = ''requires-action''"

definition stable_id :: "crypto \<Rightarrow> string \<Rightarrow> string list \<Rightarrow> string" where
  "stable_id cy prefix parts = prefix @ ''_'' @ take 24 (sha256_hex cy (join ''|'' parts))"

definition mock_payment_id :: "crypto \<Rightarrow> string \<Rightarrow> int \<Rightarrow> string \<Rightarrow> string" where
  "mock_payment_id cy reference amount currency = stable_id cy ''mockpay'' [reference, int_digits amount, currency]"

definition mock_charge :: "crypto \<Rightarrow> int \<Rightarrow> string \<Rightarrow> string \<Rightarrow> string option \<Rightarrow> gateway_exc + charge_result" where
  "mock_charge cy amount currency reference customer =
     (if amount \<le> 0 then Inl (PaymentProviderError ''Charge amount must be positive.'')
      else
        let pid = mock_payment_id cy reference amount currency; lowered = lower reference;
            result = \<lparr>cr_status = CS_SUCCEEDED, cr_provider_payment_id = pid, cr_amount_cents = amount, cr_currency = currency,
                      cr_decline_reason = None, cr_action_url = None\<rparr>
        in if contains DECLINE_MARKER lowered
           then Inr (result\<lparr>cr_status := CS_DECLINED, cr_decline_reason := Some ''card_declined''\<rparr>)
           else if contains ACTION_MARKER lowered
           then Inr (result\<lparr>cr_status := CS_REQUIRES_ACTION, cr_action_url := Some (''https://payments.invalid/confirm/'' @ pid)\<rparr>)
           else Inr result)"

definition mock_refund :: "crypto \<Rightarrow> string \<Rightarrow> int \<Rightarrow> gateway_exc + refund_result" where
  "mock_refund cy pid amount =
     (if amount \<le> 0 then Inl (PaymentProviderError ''Refund amount must be positive.'')
      else Inr \<lparr>rr_provider_refund_id = stable_id cy ''mockref'' [pid, int_digits amount], rr_amount_cents = amount\<rparr>)"

definition get_or_none :: "pydict \<Rightarrow> string \<Rightarrow> pyval" where
  \<comment> \<open>\<open>d.get(k)\<close>\<close>
  "get_or_none d k = (case dict_get d k of None \<Rightarrow> PNone | Some v \<Rightarrow> v)"

fun event_of_body :: "pydict \<Rightarrow> gateway_exc + webhook_event" where
  "event_of_body body =
     (case (get_or_none body ''id'', get_or_none body ''type'') of
        (PStr event_id, PStr event_type) \<Rightarrow>
          let data = (case get_or_none body ''data'' of PDict d \<Rightarrow> d | _ \<Rightarrow> [])
          in Inr \<lparr>we_event_id = event_id, we_event_type = event_type,
                we_provider_payment_id = get_or_none data ''provider_payment_id'',
                we_amount_cents = py_int_of (get_or_none data ''amount_cents''), we_payload = body\<rparr>
      | _ \<Rightarrow> Inl (PaymentProviderError (''Webhook body needs string '' @ quoted ''id'' @ '' and '' @ quoted ''type'' @ ''.'')))"

definition mock_verify_webhook :: "crypto \<Rightarrow> string \<Rightarrow> string option \<Rightarrow> string \<Rightarrow> gateway_exc + webhook_event" where
  "mock_verify_webhook cy payload signature secret =
     (if secret = [] then Inl (PaymentProviderError ''No webhook secret is configured; refusing to accept callbacks.'')
      else if \<not> truthy signature then Inl (PaymentProviderError ''Missing webhook signature.'')
      else if hmac_hex cy secret payload \<noteq> strip (the signature)
      then Inl (PaymentProviderError ''Webhook signature does not match.'')
      else case json_loads cy payload of
             Inl e \<Rightarrow> Inl (PaymentProviderError (''Webhook body is not JSON: '' @ e))
           | Inr (PDict body) \<Rightarrow> event_of_body body
           | Inr _ \<Rightarrow> Inl AttributeError)"

definition mock_sign :: "crypto \<Rightarrow> string \<Rightarrow> string \<Rightarrow> string" where
  "mock_sign cy payload secret = hmac_hex cy secret payload"

definition mock_provider :: "crypto \<Rightarrow> payment_provider" where
  "mock_provider cy = \<lparr>pv_slug = ''mock'', pv_charge = mock_charge cy, pv_refund = mock_refund cy, pv_verify_webhook = mock_verify_webhook cy\<rparr>"

definition reset_providers :: "crypto \<Rightarrow> provider_registry" where
  "reset_providers cy = register_provider ''mock'' (mock_provider cy) []"

section \<open>The gateway\<close>

record gateway =
  gw_db :: billing_db
  gw_metrics :: "metric_event list"

record charge_outcome =
  oc_status :: charge_status
  oc_invoice :: nat
  oc_amount_cents :: int
  oc_payment :: "payment option"
  oc_decline_reason :: "string option"
  oc_action_url :: "string option"

definition amount_due :: "invoice \<Rightarrow> int" where
  "amount_due iv = max (iv_total_cents iv - iv_amount_paid_cents iv) 0"

definition count_metric :: "string \<Rightarrow> string list \<Rightarrow> rat \<Rightarrow> gateway \<Rightarrow> gateway" where
  "count_metric name labels x st = st\<lparr>gw_metrics := gw_metrics st @ [(MInc, name, labels, x)]\<rparr>"

definition charge_invoice ::
    "provider_registry \<Rightarrow> string \<Rightarrow> nat \<Rightarrow> string option \<Rightarrow> string option \<Rightarrow> time \<Rightarrow> gateway
     \<Rightarrow> gateway \<times> (gateway_exc + charge_outcome)" where
  "charge_invoice reg configured i provider_slug customer now st =
     (case repo_get i (invoices (gw_db st)) of
        None \<Rightarrow> (st, Inl (Db (App (app_error_init NotFoundError (Some ''Invoice not found.'')))))
      | Some iv \<Rightarrow>
          if iv_status iv = IS_VOID
          then (st, Inl (Db (App (app_error_init ValidationError (Some ''This invoice was voided and cannot be paid.'')))))
          else if amount_due iv \<le> 0
          then (st, Inl (Db (App (app_error_init ValidationError (Some ''This invoice has nothing left to pay.'')))))
          else (case get_provider reg configured provider_slug of
                  Inl e \<Rightarrow> (st, Inl e)
                | Inr provider \<Rightarrow>
                    (case pv_charge provider (amount_due iv) (iv_currency iv) (iv_number iv) customer of
                       Inl e \<Rightarrow> (st, Inl e)
                     | Inr result \<Rightarrow>
                         let st1 = count_metric ''payments_total'' [pv_slug provider, charge_status_value (cr_status result)] 1 st
                         in if cr_status result \<noteq> CS_SUCCEEDED
                            then (st1, Inr \<lparr>oc_status = cr_status result, oc_invoice = i, oc_amount_cents = amount_due iv, oc_payment = None,
                                          oc_decline_reason = cr_decline_reason result, oc_action_url = cr_action_url result\<rparr>)
                            else (case record_payment (ent_id iv) (cr_amount_cents result) (Some (pv_slug provider))
                                         (Some (cr_provider_payment_id result)) now (gw_db st) of
                                    Inl e \<Rightarrow> (st1, Inl (Db e))
                                  | Inr (p, db) \<Rightarrow>
                                      (count_metric ''payments_collected_cents_total'' [pv_slug provider] (of_int (cr_amount_cents result))
                                         (st1\<lparr>gw_db := db\<rparr>),
                                       Inr \<lparr>oc_status = cr_status result, oc_invoice = i, oc_amount_cents = cr_amount_cents result,
                                           oc_payment = Some p, oc_decline_reason = None, oc_action_url = None\<rparr>)))))"

definition refund_payment ::
    "provider_registry \<Rightarrow> string \<Rightarrow> nat \<Rightarrow> int option \<Rightarrow> gateway \<Rightarrow> gateway \<times> (gateway_exc + payment)" where
  "refund_payment reg configured i amount_cents st =
     (case repo_get i (payments (gw_db st)) of
        None \<Rightarrow> (st, Inl (Db (App (app_error_init NotFoundError (Some ''Payment not found.'')))))
      | Some p \<Rightarrow>
          let refundable = pm_amount_cents p - pm_refunded_cents p;
              amount = (case amount_cents of None \<Rightarrow> refundable | Some a \<Rightarrow> a)
          in if amount \<le> 0 \<or> amount > refundable
             then (st, Inl (Db (App (app_error_init ValidationError
                          (Some (''Refund must be between 1 and '' @ int_digits refundable @ '' cents.''))))))
             else if \<not> truthy (pm_provider_payment_id p)
             then (st, Inl (Db (App (app_error_init ValidationError
                          (Some ''This payment has no provider reference and cannot be refunded automatically.'')))))
             else (case get_provider reg configured (pm_provider p) of
                     Inl e \<Rightarrow> (st, Inl e)
                   | Inr provider \<Rightarrow>
                       (case pv_refund provider (the (pm_provider_payment_id p)) amount of
                          Inl e \<Rightarrow> (st, Inl e)
                        | Inr _ \<Rightarrow>
                            let st1 = count_metric ''payments_total'' [pv_slug provider, ''refunded''] 1 st
                            in case refund (ent_id p) amount (gw_db st) of
                                 Inl e \<Rightarrow> (st1, Inl (Db e))
                               | Inr (q, db) \<Rightarrow> (st1\<lparr>gw_db := db\<rparr>, Inr q))))"

definition invoice_by_number :: "string \<Rightarrow> billing_db \<Rightarrow> invoice option" where
  "invoice_by_number number db = find_by (\<lambda>iv. iv_number iv = number) (invoices db)"

definition apply_settlement ::
    "(pyval \<Rightarrow> string) \<Rightarrow> string \<Rightarrow> webhook_event \<Rightarrow> time \<Rightarrow> gateway \<Rightarrow> gateway \<times> (gateway_exc + unit)" where
  \<comment> \<open>\<open>rep\<close> prints a reference that is not a string\<close>
  "apply_settlement rep slug event now st =
     (if \<not> py_truth (we_provider_payment_id event) \<or> we_amount_cents event = None
      then (st, Inl (Db (App (app_error_init ValidationError
               (Some ''A payment.succeeded callback needs provider_payment_id and amount_cents.'')))))
      else case we_provider_payment_id event of
        PStr pid \<Rightarrow>
          if payment_by_provider_id pid (gw_db st) \<noteq> None then (st, Inr ())
          else (case (case dict_get (we_payload event) ''data'' of None \<Rightarrow> PDict [] | Some d \<Rightarrow> d) of
                  PDict data \<Rightarrow>
                    let reference = get_or_none data ''reference'';
                        number = (if py_truth reference then py_str rep reference else []);
                        found = (if number \<noteq> [] then invoice_by_number number (gw_db st) else None)
                    in (case found of
                          None \<Rightarrow> (st, Inl (Db (App (app_error_init NotFoundError (Some ''The callback references an unknown invoice.'')))))
                        | Some iv \<Rightarrow>
                            (case record_payment (ent_id iv) (the (we_amount_cents event)) (Some slug) (Some pid) now (gw_db st) of
                               Inl e \<Rightarrow> (st, Inl (Db e))
                             | Inr (_, db) \<Rightarrow> (count_metric ''payments_collected_cents_total'' [slug] (of_int (the (we_amount_cents event)))
                                               (st\<lparr>gw_db := db\<rparr>), Inr ())))
                | _ \<Rightarrow> (st, Inl AttributeError))
      | _ \<Rightarrow> (st, Inl (Db DataError)))"

definition handle_webhook ::
    "(pyval \<Rightarrow> string) \<Rightarrow> provider_registry \<Rightarrow> string \<Rightarrow> string \<Rightarrow> string \<Rightarrow> string option \<Rightarrow> string option \<Rightarrow> time \<Rightarrow> gateway
     \<Rightarrow> gateway \<times> (gateway_exc + webhook_event)" where
  \<comment> \<open>\<open>secret\<close> is \<open>settings.payment_webhook_secret\<close>\<close>
  "handle_webhook rep reg configured secret payload signature provider_slug now st =
     (case get_provider reg configured provider_slug of
        Inl e \<Rightarrow> (st, Inl e)
      | Inr provider \<Rightarrow>
          (case pv_verify_webhook provider payload signature secret of
             Inl e \<Rightarrow> (st, Inl e)
           | Inr event \<Rightarrow>
               let st1 = count_metric ''payment_webhooks_total'' [pv_slug provider, we_event_type event] 1 st
               in if we_event_type event = ''payment.succeeded''
                  then (case apply_settlement rep (pv_slug provider) event now st1 of
                          (st2, Inl e) \<Rightarrow> (st2, Inl e)
                        | (st2, Inr _) \<Rightarrow> (st2, Inr event))
                  else (st1, Inr event)))"

section \<open>Interface: a provider that settles what it was asked for\<close>

text \<open>
  What the gateway relies on: a settled charge carries the amount requested and an id, and a
  callback passes verification only under the provider's signature of the very bytes received.
\<close>

locale settling_provider =
  fixes p :: payment_provider
    and mac :: "string \<Rightarrow> string \<Rightarrow> string"
  assumes charge_amount: "pv_charge p a c r cust = Inr res \<Longrightarrow> cr_status res = CS_SUCCEEDED \<Longrightarrow> cr_amount_cents res = a"
    and charge_id: "pv_charge p a c r cust = Inr res \<Longrightarrow> cr_provider_payment_id res \<noteq> []"
    and verify_signed: "pv_verify_webhook p payload signature secret = Inr ev \<Longrightarrow>
      secret \<noteq> [] \<and> (\<exists>s. signature = Some s \<and> strip s = mac secret payload)"
begin

lemma charge_records:
  assumes "charge_invoice reg conf i slug cust now st = (st', Inr oc)" and "get_provider reg conf slug = Inr p"
    and "oc_status oc = CS_SUCCEEDED"
  obtains iv res pay where "repo_get i (invoices (gw_db st)) = Some iv" "0 < amount_due iv" "oc_payment oc = Some pay"
    "pv_charge p (amount_due iv) (iv_currency iv) (iv_number iv) cust = Inr res" "cr_provider_payment_id res \<noteq> []"
    "record_payment (ent_id iv) (amount_due iv) (Some (pv_slug p)) (Some (cr_provider_payment_id res)) now (gw_db st) = Inr (pay, gw_db st')"
proof -
  from assms(1,2) obtain iv res where iv: "repo_get i (invoices (gw_db st)) = Some iv" "0 < amount_due iv"
    and res: "pv_charge p (amount_due iv) (iv_currency iv) (iv_number iv) cust = Inr res"
    by (auto simp: charge_invoice_def split: option.splits if_splits sum.splits)
  have s: "cr_status res = CS_SUCCEEDED"
    using assms iv res by (auto simp: charge_invoice_def Let_def split: if_splits sum.splits prod.splits)
  then have a: "cr_amount_cents res = amount_due iv" using charge_amount [OF res] by simp
  obtain pay where "oc_payment oc = Some pay"
    "record_payment (ent_id iv) (amount_due iv) (Some (pv_slug p)) (Some (cr_provider_payment_id res)) now (gw_db st) = Inr (pay, gw_db st')"
    using assms(1,2) iv res s a by (auto simp: charge_invoice_def count_metric_def Let_def split: if_splits sum.splits prod.splits)
  then show thesis using that iv res charge_id [OF res] by blast
qed

lemma charge_collects:
  assumes "ledger_ok (gw_db st)" and c: "charge_invoice reg conf i slug cust now st = (st', Inr oc)" and "get_provider reg conf slug = Inr p"
    and "oc_status oc = CS_SUCCEEDED" and new: "oc_payment oc \<noteq> None \<Longrightarrow> repo_get (ent_id (the (oc_payment oc))) (payments (gw_db st)) = None"
  shows "\<exists>iv. repo_get i (invoices (gw_db st')) = Some iv \<and> amount_due iv = 0 \<and> iv_status iv = IS_PAID"
proof -
  obtain iv pay and res :: charge_result where iv: "repo_get i (invoices (gw_db st)) = Some iv" "0 < amount_due iv"
    and pay: "oc_payment oc = Some pay" and pid: "cr_provider_payment_id res \<noteq> []"
    and r: "record_payment (ent_id iv) (amount_due iv) (Some (pv_slug p)) (Some (cr_provider_payment_id res)) now (gw_db st) = Inr (pay, gw_db st')"
    by (rule charge_records [OF c assms(3,4)]) blast
  have ok: "table_ok (payments (gw_db st))" "table_ok (invoices (gw_db st))" using assms(1) by (auto simp: ledger_ok_def)
  have id: "ent_id iv = i" using repo.get_key [OF ok(2) iv(1)] .
  have "payment_by_provider_id (cr_provider_payment_id res) (gw_db st) = None"
  proof (rule ccontr)
    assume "payment_by_provider_id (cr_provider_payment_id res) (gw_db st) \<noteq> None"
    then obtain q where q: "payment_by_provider_id (cr_provider_payment_id res) (gw_db st) = Some q" by blast
    with r iv(2) pid have "pay = q" by (auto simp: record_payment_def truthy_def)
    with q new pay find_by_Some [OF ok(1)] show False by (auto simp: payment_by_provider_id_def)
  qed
  with r iv(2) pid have "record_new_payment i (amount_due iv) (Some (pv_slug p)) (Some (cr_provider_payment_id res)) now (gw_db st) = Inr (pay, gw_db st')"
    by (auto simp: record_payment_def truthy_def id)
  then obtain iv' where "repo_get i (invoices (gw_db st)) = Some iv'" "invoices (gw_db st') = repo_put (settle (amount_due iv) now iv') (invoices (gw_db st))"
    by (rule record_new_payment_Inr) simp
  with iv id show ?thesis by (auto simp: settle_def amount_due_def Let_def)
qed

lemma unsigned_refused:
  assumes "get_provider reg conf slug = Inr p" and "secret = [] \<or> signature = None \<or> strip (the signature) \<noteq> mac secret payload"
  shows "\<exists>e. handle_webhook rep reg conf secret payload signature slug now st = (st, Inl e)"
proof (cases "pv_verify_webhook p payload signature secret")
  case (Inl e)
  with assms(1) show ?thesis by (simp add: handle_webhook_def)
next
  case (Inr ev)
  with verify_signed [OF this] assms(2) show ?thesis by auto
qed

end

interpretation mock: settling_provider "mock_provider cy" "hmac_hex cy" for cy
proof unfold_locales
  fix a c r cust res
  assume "pv_charge (mock_provider cy) a c r cust = Inr res"
  then show "cr_provider_payment_id res \<noteq> []" and "cr_status res = CS_SUCCEEDED \<Longrightarrow> cr_amount_cents res = a"
    by (auto simp: mock_provider_def mock_charge_def mock_payment_id_def stable_id_def Let_def split: if_splits)
next
  fix payload signature secret ev
  assume "pv_verify_webhook (mock_provider cy) payload signature secret = Inr ev"
  then show "secret \<noteq> [] \<and> (\<exists>s. signature = Some s \<and> strip s = hmac_hex cy secret payload)"
    by (auto simp: mock_provider_def mock_verify_webhook_def truthy_def split: if_splits option.splits)
qed

text \<open>
  A charge that settles with the mock provider under an id not recorded before leaves the
  invoice paid with nothing due.
\<close>

theorem charge_invoice_collects:
  assumes "ledger_ok (gw_db st)" and "charge_invoice reg conf i slug cust now st = (st', Inr oc)"
    and "get_provider reg conf slug = Inr (mock_provider cy)" and "oc_status oc = CS_SUCCEEDED"
    and "repo_get (ent_id (the (oc_payment oc))) (payments (gw_db st)) = None"
  shows "\<exists>iv. repo_get i (invoices (gw_db st')) = Some iv \<and> amount_due iv = 0 \<and> iv_status iv = IS_PAID"
  using assms by (rule mock.charge_collects)

text \<open>
  Charging again an invoice that was paid and refunded reports a success and counts the amount
  as collected, but records nothing when the provider repeats the id of the first charge, as the
  mock does for the same amount: the invoice stays due.
\<close>

theorem charge_after_refund_collects_nothing:
  assumes "repo_get i (invoices (gw_db st)) = Some iv" and "iv_status iv \<noteq> IS_VOID" and "0 < amount_due iv"
    and "get_provider reg conf slug = Inr (mock_provider cy)"
    and "\<not> contains DECLINE_MARKER (lower (iv_number iv))" and "\<not> contains ACTION_MARKER (lower (iv_number iv))"
    and "payment_by_provider_id (mock_payment_id cy (iv_number iv) (amount_due iv) (iv_currency iv)) (gw_db st) = Some p"
  shows "\<exists>st' oc. charge_invoice reg conf i slug cust now st = (st', Inr oc) \<and> oc_status oc = CS_SUCCEEDED \<and> gw_db st' = gw_db st
    \<and> metric_total ''payments_collected_cents_total'' [''mock''] (gw_metrics st')
        = metric_total ''payments_collected_cents_total'' [''mock''] (gw_metrics st) + of_int (amount_due iv)"
proof -
  let ?pid = "mock_payment_id cy (iv_number iv) (amount_due iv) (iv_currency iv)"
  have "?pid \<noteq> []" by (simp add: mock_payment_id_def stable_id_def)
  note r = record_payment_existing [OF assms(3) this assms(7)]
  show ?thesis
    using assms r by (simp add: charge_invoice_def mock_provider_def mock_charge_def count_metric_def Let_def metric_total_Cons)
qed

section \<open>Callbacks\<close>

text \<open>
  A callback whose signature is missing or is not the provider's MAC of the very bytes
  received is refused and leaves database and instruments as they were.
\<close>

theorem webhook_unsigned_refused:
  assumes "get_provider reg conf slug = Inr (mock_provider cy)"
    and "secret = [] \<or> signature = None \<or> strip (the signature) \<noteq> hmac_hex cy secret payload"
  shows "\<exists>e. handle_webhook rep reg conf secret payload signature slug now st = (st, Inl e)"
  using assms by (rule mock.unsigned_refused)

lemma apply_settlement_recorded:
  assumes "table_ok (payments (gw_db st))" and a: "apply_settlement rep slug ev now st = (st', Inr ())"
  obtains pid where "we_provider_payment_id ev = PStr pid" "pid \<noteq> []" "we_amount_cents ev \<noteq> None" "payment_by_provider_id pid (gw_db st') \<noteq> None"
proof -
  from a obtain pid where pid: "we_provider_payment_id ev = PStr pid" "pid \<noteq> []" "we_amount_cents ev \<noteq> None"
    by (auto simp: apply_settlement_def split: if_splits pyval.splits)
  have "payment_by_provider_id pid (gw_db st') \<noteq> None"
  proof (cases "payment_by_provider_id pid (gw_db st)")
    case (Some q)
    with a pid show ?thesis by (auto simp: apply_settlement_def)
  next
    case None
    then obtain j amount prov p where "record_payment j amount prov (Some pid) now (gw_db st) = Inr (p, gw_db st')"
      using a pid by (auto simp: apply_settlement_def Let_def count_metric_def split: pyval.splits option.splits sum.splits prod.splits if_splits)
    from record_payment_found [OF assms(1) pid(2) this] show ?thesis by simp
  qed
  with pid that show thesis by blast
qed

lemma handle_webhook_Inr:
  assumes "handle_webhook rep reg conf secret payload signature slug now st = (st', Inr ev)"
  obtains p where "get_provider reg conf slug = Inr p" "pv_verify_webhook p payload signature secret = Inr ev"
    "we_event_type ev = ''payment.succeeded'' \<Longrightarrow>
      apply_settlement rep (pv_slug p) ev now (count_metric ''payment_webhooks_total'' [pv_slug p, we_event_type ev] 1 st) = (st', Inr ())"
    "we_event_type ev \<noteq> ''payment.succeeded'' \<Longrightarrow> gw_db st' = gw_db st"
  using assms by (auto simp: handle_webhook_def Let_def count_metric_def split: sum.splits if_splits prod.splits)

text \<open>
  C11: callbacks are idempotent: a callback that was accepted can be delivered again at any time;
  it is acknowledged with the same event and the database stays as the first delivery left it.
\<close>

theorem webhook_replay_idempotent:
  assumes "table_ok (payments (gw_db st))" and h: "handle_webhook rep reg conf secret payload signature slug now st = (st', Inr ev)"
  shows "\<exists>st''. handle_webhook rep reg conf secret payload signature slug now' st' = (st'', Inr ev) \<and> gw_db st'' = gw_db st'"
proof -
  obtain p where p: "get_provider reg conf slug = Inr p" "pv_verify_webhook p payload signature secret = Inr ev"
    and s: "we_event_type ev = ''payment.succeeded'' \<Longrightarrow>
      apply_settlement rep (pv_slug p) ev now (count_metric ''payment_webhooks_total'' [pv_slug p, we_event_type ev] 1 st) = (st', Inr ())"
    by (rule handle_webhook_Inr [OF h]) blast
  show ?thesis
  proof (cases "we_event_type ev = ''payment.succeeded''")
    case True
    have "table_ok (payments (gw_db (count_metric ''payment_webhooks_total'' [pv_slug p, we_event_type ev] 1 st)))"
      using assms(1) by (simp add: count_metric_def)
    from apply_settlement_recorded [OF this s [OF True]] obtain pid where
      "we_provider_payment_id ev = PStr pid" "pid \<noteq> []" "we_amount_cents ev \<noteq> None" "payment_by_provider_id pid (gw_db st') \<noteq> None" .
    with p True show ?thesis by (auto simp: handle_webhook_def apply_settlement_def count_metric_def Let_def)
  next
    case False
    with p show ?thesis by (simp add: handle_webhook_def count_metric_def)
  qed
qed

section \<open>Witnesses\<close>

definition sample_crypto :: crypto where
  \<comment> \<open>concrete functions: the hash keeps its input, the MAC puts the key first\<close>
  "sample_crypto = \<lparr>sha256_hex = (\<lambda>s. s), hmac_hex = (\<lambda>k m. k @ m), json_loads = (\<lambda>s. if s = ''{}'' then Inr (PDict []) else
     Inr (PDict [(''id'', PStr ''e1''), (''type'', PStr ''payment.succeeded''),
       (''data'', PDict [(''provider_payment_id'', PStr ''pp''), (''amount_cents'', PInt 1008), (''reference'', PStr s)])]))\<rparr>"

definition sample_gateway :: gateway where
  "sample_gateway = \<lparr>gw_db = db_closed, gw_metrics = []\<rparr>"

definition sample_registry :: provider_registry where
  "sample_registry = reset_providers sample_crypto"

lemma sample_provider: "get_provider sample_registry ''mock'' None = Inr (mock_provider sample_crypto)"
  by (simp add: sample_registry_def reset_providers_def register_provider_def get_provider_def truthy_def)

lemma sample_ledger: "ledger_ok db_closed"
proof -
  have "billing_step\<^sup>*\<^sup>* sample_db db_closed"
    by (rule rtranclp.rtrancl_into_rtrancl [OF sample_reach(1)]) (rule billing_step.Close [OF sample_results(3)])
  from reachable_ledger [OF this sample_fresh] show ?thesis .
qed

definition charged :: "gateway \<times> (gateway_exc + charge_outcome)" where
  "charged = charge_invoice sample_registry ''mock'' 0 None None 0 sample_gateway"

theorem charge_invoice_collects_witness:
  "\<exists>iv. repo_get 0 (invoices (gw_db (fst charged))) = Some iv \<and> amount_due iv = 0"
proof -
  have "(case snd charged of Inl _ \<Rightarrow> False | Inr oc \<Rightarrow> oc_status oc = CS_SUCCEEDED
      \<and> (case repo_get (ent_id (the (oc_payment oc))) (payments (gw_db sample_gateway)) of None \<Rightarrow> True | Some _ \<Rightarrow> False))"
    by code_simp
  then obtain oc where oc: "snd charged = Inr oc" "oc_status oc = CS_SUCCEEDED"
    "repo_get (ent_id (the (oc_payment oc))) (payments (gw_db sample_gateway)) = None"
    by (auto split: sum.splits option.splits)
  have c: "charge_invoice sample_registry ''mock'' 0 None None 0 sample_gateway = (fst charged, Inr oc)"
    using oc(1) by (metis charged_def prod.collapse)
  have "ledger_ok (gw_db sample_gateway)" using sample_ledger by (simp add: sample_gateway_def)
  from charge_invoice_collects [OF this c sample_provider oc(2,3)] show ?thesis by blast
qed

definition refunded :: gateway where
  "refunded = fst (refund_payment sample_registry ''mock'' 0 None (fst charged))"

theorem charge_after_refund_collects_nothing_witness:
  "\<exists>st' oc. charge_invoice sample_registry ''mock'' 0 None None 9 refunded = (st', Inr oc) \<and> oc_status oc = CS_SUCCEEDED \<and> gw_db st' = gw_db refunded"
proof -
  have "(case repo_get 0 (invoices (gw_db refunded)) of None \<Rightarrow> False | Some iv \<Rightarrow> iv_status iv \<noteq> IS_VOID \<and> 0 < amount_due iv
      \<and> \<not> contains DECLINE_MARKER (lower (iv_number iv)) \<and> \<not> contains ACTION_MARKER (lower (iv_number iv))
      \<and> (case payment_by_provider_id (mock_payment_id sample_crypto (iv_number iv) (amount_due iv) (iv_currency iv)) (gw_db refunded) of
           None \<Rightarrow> False | Some _ \<Rightarrow> True))"
    by code_simp
  then obtain iv p where "repo_get 0 (invoices (gw_db refunded)) = Some iv" "iv_status iv \<noteq> IS_VOID" "0 < amount_due iv"
    "\<not> contains DECLINE_MARKER (lower (iv_number iv))" "\<not> contains ACTION_MARKER (lower (iv_number iv))"
    "payment_by_provider_id (mock_payment_id sample_crypto (iv_number iv) (amount_due iv) (iv_currency iv)) (gw_db refunded) = Some p"
    by (auto split: option.splits)
  from charge_after_refund_collects_nothing [OF this(1-3) sample_provider this(4-6)] show ?thesis by blast
qed

theorem webhook_unsigned_refused_witness:
  "\<exists>e. handle_webhook (\<lambda>_. []) sample_registry ''mock'' ''key'' ''body'' (Some ''forged'') None 0 sample_gateway = (sample_gateway, Inl e)"
  by (rule webhook_unsigned_refused [OF sample_provider]) code_simp

definition delivered :: "gateway \<times> (gateway_exc + webhook_event)" where
  "delivered = handle_webhook (\<lambda>_. []) sample_registry ''mock'' ''key'' ''INV-197001-000001'' (Some ''keyINV-197001-000001'') None 0 sample_gateway"

theorem webhook_replay_idempotent_witness:
  "\<exists>ev st''. snd delivered = Inr ev \<and> handle_webhook (\<lambda>_. []) sample_registry ''mock'' ''key'' ''INV-197001-000001''
      (Some ''keyINV-197001-000001'') None 5 (fst delivered) = (st'', Inr ev) \<and> gw_db st'' = gw_db (fst delivered)"
proof -
  have "(case snd delivered of Inl _ \<Rightarrow> False | Inr _ \<Rightarrow> True)" by code_simp
  then obtain ev where ev: "snd delivered = Inr ev" by (auto split: sum.splits)
  then have "handle_webhook (\<lambda>_. []) sample_registry ''mock'' ''key'' ''INV-197001-000001'' (Some ''keyINV-197001-000001'') None 0 sample_gateway
      = (fst delivered, Inr ev)" by (metis delivered_def prod.collapse)
  moreover have "table_ok (payments (gw_db sample_gateway))" using sample_ledger by (simp add: sample_gateway_def ledger_ok_def)
  ultimately show ?thesis using webhook_replay_idempotent ev by blast
qed

end
