(* ===== verification/Event_Bus.thy ===== *)
theory Event_Bus
  imports Py_Value
begin

text \<open>
  The in-process event bus (\<^verbatim>\<open>app/core/events/bus.py\<close>). A handler is code of the subscriber: a
  function that says, for its \<open>i\<close>-th call with an event, which exception it raises, if any. The
  deliveries of one event are independent of each other; \<^verbatim>\<open>publish\<close> runs them concurrently, and
  here their dead letters are listed in the order of the handlers.
\<close>

record event =
  ev_type :: string
  ev_data :: pydict

record handler =
  h_name :: string
  h_call :: "nat \<Rightarrow> event \<Rightarrow> string option"

record dead_letter =
  dl_event :: event
  dl_handler :: string
  dl_error :: string

record event_bus =
  eb_handlers :: "(string, handler list) dict"
  eb_max_retries :: int
  eb_dead_letters :: "dead_letter list"

definition event_bus_init :: "int \<Rightarrow> event_bus" where
  "event_bus_init max_retries = \<lparr>eb_handlers = [], eb_max_retries = max_retries, eb_dead_letters = []\<rparr>"

definition handlers_for :: "event_bus \<Rightarrow> string \<Rightarrow> handler list" where
  "handlers_for bus ty = (case dict_get (eb_handlers bus) ty of None \<Rightarrow> [] | Some hs \<Rightarrow> hs)"

definition subscribe :: "string \<Rightarrow> handler \<Rightarrow> event_bus \<Rightarrow> event_bus" where
  "subscribe ty h bus = bus\<lparr>eb_handlers := dict_set ty (handlers_for bus ty @ [h]) (eb_handlers bus)\<rparr>"

fun deliver_loop :: "handler \<Rightarrow> event \<Rightarrow> nat \<Rightarrow> nat \<Rightarrow> nat \<times> string option" where
  \<comment> \<open>\<open>n\<close> retries are left after \<open>calls\<close> calls\<close>
  "deliver_loop h e n calls =
     (case h_call h calls e of
        None \<Rightarrow> (Suc calls, None)
      | Some x \<Rightarrow> (case n of 0 \<Rightarrow> (Suc calls, Some x) | Suc m \<Rightarrow> deliver_loop h e m (Suc calls)))"

declare deliver_loop.simps [simp del]

definition deliver :: "event_bus \<Rightarrow> event \<Rightarrow> handler \<Rightarrow> dead_letter list" where
  "deliver bus e h =
     (case deliver_loop h e (nat (eb_max_retries bus)) 0 of
        (_, None) \<Rightarrow> []
      | (_, Some x) \<Rightarrow> [\<lparr>dl_event = e, dl_handler = h_name h, dl_error = x\<rparr>])"

definition publish_event :: "event \<Rightarrow> event_bus \<Rightarrow> event_bus" where
  "publish_event e bus =
     bus\<lparr>eb_dead_letters := eb_dead_letters bus @ concat (map (deliver bus e) (handlers_for bus (ev_type e)))\<rparr>"

section \<open>Delivery is a bounded retry loop\<close>

interpretation delivery: retry_loop "\<lambda>calls. (Suc calls, h_call h calls e)" "\<lambda>r. r \<noteq> None" "\<lambda>_ calls. calls"
    "\<lambda>calls. calls" "deliver_loop h e"
  for h e
proof
  fix s n :: nat
  show "\<not> snd (Suc s, h_call h s e) \<noteq> None \<or> n = 0 \<Longrightarrow> deliver_loop h e n s = (Suc s, h_call h s e)"
    by (subst deliver_loop.simps) (auto split: option.splits)
  show "snd (Suc s, h_call h s e) \<noteq> None \<Longrightarrow>
      deliver_loop h e (Suc n) s = deliver_loop h e n (fst (Suc s, h_call h s e))"
    by (subst deliver_loop.simps) (auto split: option.splits)
qed simp_all

lemma deliver_loop_failed:
  "snd (deliver_loop h e n calls) = Some x \<Longrightarrow>
     fst (deliver_loop h e n calls) = calls + n + 1 \<and> (\<forall>i \<le> n. h_call h (calls + i) e \<noteq> None)
     \<and> h_call h (calls + n) e = Some x"
proof (induction n arbitrary: calls)
  case 0
  then show ?case by (simp add: deliver_loop.simps split: option.splits)
next
  case (Suc n)
  then obtain y where y: "h_call h calls e = Some y"
    by (cases "h_call h calls e") (simp_all add: deliver_loop.simps [of h e "Suc n"])
  then have s: "deliver_loop h e (Suc n) calls = deliver_loop h e n (Suc calls)"
    by (simp add: deliver_loop.simps [of h e "Suc n"])
  from Suc.IH [of "Suc calls"] Suc.prems s
  have IH: "fst (deliver_loop h e n (Suc calls)) = Suc calls + n + 1"
    "\<forall>i \<le> n. h_call h (Suc calls + i) e \<noteq> None" "h_call h (Suc calls + n) e = Some x" by auto
  have "h_call h (calls + i) e \<noteq> None" if "i \<le> Suc n" for i
    using IH(2) y that by (cases i) auto
  with IH s show ?case by auto
qed

lemma deliver_loop_ok:
  "snd (deliver_loop h e n calls) = None \<Longrightarrow> \<exists>i \<le> n. h_call h (calls + i) e = None
     \<and> fst (deliver_loop h e n calls) = calls + i + 1 \<and> (\<forall>j < i. h_call h (calls + j) e \<noteq> None)"
proof (induction n arbitrary: calls)
  case 0
  then show ?case by (simp add: deliver_loop.simps split: option.splits)
next
  case (Suc n)
  show ?case
  proof (cases "h_call h calls e")
    case None
    then show ?thesis by (intro exI [of _ 0]) (simp add: deliver_loop.simps [of h e "Suc n"])
  next
    case (Some y)
    then have s: "deliver_loop h e (Suc n) calls = deliver_loop h e n (Suc calls)"
      by (simp add: deliver_loop.simps [of h e "Suc n"])
    from Suc.IH [of "Suc calls"] Suc.prems s obtain i where i: "i \<le> n" "h_call h (Suc calls + i) e = None"
      "fst (deliver_loop h e n (Suc calls)) = Suc calls + i + 1" "\<forall>j < i. h_call h (Suc calls + j) e \<noteq> None" by auto
    have "h_call h (calls + j) e \<noteq> None" if "j < Suc i" for j
      using i(4) Some that by (cases j) auto
    with i s show ?thesis by (intro exI [of _ "Suc i"]) simp
  qed
qed

definition gives_up :: "event_bus \<Rightarrow> event \<Rightarrow> handler \<Rightarrow> bool" where
  \<comment> \<open>the handler fails on its first call and on every retry\<close>
  "gives_up bus e h \<longleftrightarrow> (\<forall>i \<le> nat (eb_max_retries bus). h_call h i e \<noteq> None)"

lemma deliver_gives_up:
  "deliver bus e h = (if gives_up bus e h
     then [\<lparr>dl_event = e, dl_handler = h_name h, dl_error = the (h_call h (nat (eb_max_retries bus)) e)\<rparr>] else [])"
proof (cases "snd (deliver_loop h e (nat (eb_max_retries bus)) 0)")
  case None
  with deliver_loop_ok [OF None] show ?thesis
    by (auto simp: deliver_def gives_up_def split: prod.splits)
next
  case (Some x)
  with deliver_loop_failed [OF Some] show ?thesis
    by (auto simp: deliver_def gives_up_def split: prod.splits)
qed


lemma subscribe_handlers:
  "handlers_for (subscribe ty h bus) ty' = (if ty' = ty then handlers_for bus ty @ [h] else handlers_for bus ty')"
  by (simp add: subscribe_def handlers_for_def dict_get_set)

end
