(* ===== verification/Jobs.thy ===== *)
theory Jobs
  imports Repository Event_Bus
begin

text \<open>
  Background jobs (\<^verbatim>\<open>app/services/job.py\<close>, \<^verbatim>\<open>app/models/job.py\<close>, \<^verbatim>\<open>app/repositories/job.py\<close>): the durable
  queue records and the media renders. The state holds both tables and the events handed to the
  event bus so far; every operation takes the time it reads from the clock.
\<close>

section \<open>Models\<close>

datatype job_status = JS_QUEUED | JS_RUNNING | JS_SUCCEEDED | JS_FAILED | JS_CANCELLED

definition TERMINAL_STATUSES :: "job_status list" where
  "TERMINAL_STATUSES = [JS_SUCCEEDED, JS_CANCELLED]"

record queue_job = entity +
  qj_organization_id :: "nat option"
  qj_queue :: string
  qj_task_name :: string
  qj_status :: job_status
  qj_priority :: int
  qj_attempts :: int
  qj_max_attempts :: int
  qj_scheduled_for :: "time option"
  qj_started_at :: "time option"
  qj_finished_at :: "time option"
  qj_external_id :: "string option"
  qj_payload :: pydict
  qj_result :: pydict
  qj_error :: "string option"

definition can_retry :: "queue_job \<Rightarrow> bool" where
  "can_retry j = (qj_status j = JS_FAILED \<and> qj_attempts j < qj_max_attempts j)"

record render_job = entity +
  rj_video_id :: nat
  rj_organization_id :: "nat option"
  rj_queue_job_id :: nat
  rj_kind :: string
  rj_status :: job_status
  rj_progress :: int
  rj_output_key :: "string option"
  rj_output_bytes :: "int option"
  rj_duration_seconds :: "int option"
  rj_started_at :: "time option"
  rj_finished_at :: "time option"
  rj_error :: "string option"
  rj_options :: pydict

record job_db =
  queue_jobs :: "(nat, queue_job) dict"
  render_jobs :: "(nat, render_job) dict"
  job_events :: "event list"

section \<open>Queue jobs\<close>

definition job_by_external_id :: "string \<Rightarrow> job_db \<Rightarrow> queue_job option" where
  "job_by_external_id x db = find_by (\<lambda>j. qj_external_id j = Some x) (queue_jobs db)"

definition list_ready :: "time \<Rightarrow> nat \<Rightarrow> job_db \<Rightarrow> queue_job list" where
  "list_ready now limit db =
     take limit (sorted_desc qj_priority (sort_key created_at
       (filter (\<lambda>j. qj_status j = JS_QUEUED \<and> (case qj_scheduled_for j of None \<Rightarrow> True | Some t \<Rightarrow> t \<le> now))
         (base_query False (queue_jobs db)))))"

definition list_retryable :: "nat \<Rightarrow> job_db \<Rightarrow> queue_job list" where
  "list_retryable limit db =
     take limit (filter (\<lambda>j. qj_status j = JS_FAILED \<and> qj_attempts j < qj_max_attempts j) (base_query False (queue_jobs db)))"

definition enqueue ::
    "string \<Rightarrow> pydict \<Rightarrow> string \<Rightarrow> nat option \<Rightarrow> int \<Rightarrow> int \<Rightarrow> time option \<Rightarrow> time \<Rightarrow> job_db \<Rightarrow> (queue_job \<times> job_db) db_result" where
  "enqueue task_name payload queue organization priority max_attempts scheduled_for now db =
     (if max_attempts < 1 then raise_app ValidationError ''max_attempts must be at least 1.''
      else
        let (j, t) = repo_add \<lparr>ent_id = 0, created_at = now, deleted_at = None, qj_organization_id = organization,
              qj_queue = queue, qj_task_name = task_name, qj_status = JS_QUEUED, qj_priority = priority, qj_attempts = 0,
              qj_max_attempts = max_attempts, qj_scheduled_for = scheduled_for, qj_started_at = None, qj_finished_at = None,
              qj_external_id = None, qj_payload = payload, qj_result = [], qj_error = None\<rparr> (queue_jobs db)
        in Inr (j, db\<lparr>queue_jobs := t\<rparr>))"

definition get_job :: "nat \<Rightarrow> job_db \<Rightarrow> queue_job db_result" where
  "get_job i db = (case repo_get i (queue_jobs db) of None \<Rightarrow> raise_app NotFoundError ''Job not found.'' | Some j \<Rightarrow> Inr j)"

definition put_job :: "queue_job \<Rightarrow> job_db \<Rightarrow> queue_job \<times> job_db" where
  "put_job j db = (j, db\<lparr>queue_jobs := repo_put j (queue_jobs db)\<rparr>)"

definition external_clash :: "queue_job \<Rightarrow> job_db \<Rightarrow> bool" where
  \<comment> \<open>the unique \<open>external_id\<close>\<close>
  "external_clash j db = (qj_external_id j \<noteq> None \<and>
     list_ex (\<lambda>(k, r). k \<noteq> ent_id j \<and> qj_external_id r = qj_external_id j) (queue_jobs db))"

definition mark_running :: "nat \<Rightarrow> string option \<Rightarrow> time \<Rightarrow> job_db \<Rightarrow> (queue_job \<times> job_db) db_result" where
  "mark_running i external_id now db =
     (case get_job i db of
        Inl e \<Rightarrow> Inl e
      | Inr j \<Rightarrow>
          if qj_status j \<in> set TERMINAL_STATUSES then raise_app ConflictError ''Job has already finished.''
          else
            let j1 = j\<lparr>qj_status := JS_RUNNING, qj_attempts := qj_attempts j + 1, qj_started_at := Some now\<rparr>;
                j2 = (if truthy external_id then j1\<lparr>qj_external_id := external_id\<rparr> else j1)
            in if external_clash j2 db then Inl (IntegrityError ''external_id'') else Inr (put_job j2 db))"

definition mark_succeeded :: "nat \<Rightarrow> pydict \<Rightarrow> time \<Rightarrow> job_db \<Rightarrow> (queue_job \<times> job_db) db_result" where
  "mark_succeeded i result now db =
     (case get_job i db of
        Inl e \<Rightarrow> Inl e
      | Inr j \<Rightarrow> Inr (put_job (j\<lparr>qj_status := JS_SUCCEEDED, qj_result := result, qj_error := None, qj_finished_at := Some now\<rparr>) db))"

definition mark_failed :: "nat \<Rightarrow> string \<Rightarrow> time \<Rightarrow> job_db \<Rightarrow> (queue_job \<times> job_db) db_result" where
  "mark_failed i error now db =
     (case get_job i db of
        Inl e \<Rightarrow> Inl e
      | Inr j \<Rightarrow> Inr (put_job (j\<lparr>qj_status := JS_FAILED, qj_error := Some error, qj_finished_at := Some now\<rparr>) db))"

definition job_cancel :: "nat \<Rightarrow> time \<Rightarrow> job_db \<Rightarrow> (queue_job \<times> job_db) db_result" where
  "job_cancel i now db =
     (case get_job i db of
        Inl e \<Rightarrow> Inl e
      | Inr j \<Rightarrow>
          if qj_status j = JS_SUCCEEDED then raise_app ConflictError ''Cannot cancel a job that already succeeded.''
          else Inr (put_job (j\<lparr>qj_status := JS_CANCELLED, qj_finished_at := Some now\<rparr>) db))"

definition job_retry :: "nat \<Rightarrow> job_db \<Rightarrow> (queue_job \<times> job_db) db_result" where
  "job_retry i db =
     (case get_job i db of
        Inl e \<Rightarrow> Inl e
      | Inr j \<Rightarrow>
          if \<not> can_retry j then raise_app ConflictError ''Job is not retryable.''
          else Inr (put_job (j\<lparr>qj_status := JS_QUEUED, qj_error := None, qj_finished_at := None\<rparr>) db))"

section \<open>Renders\<close>

definition get_render :: "nat \<Rightarrow> job_db \<Rightarrow> render_job db_result" where
  "get_render i db = (case repo_get i (render_jobs db) of None \<Rightarrow> raise_app NotFoundError ''Render job not found.'' | Some r \<Rightarrow> Inr r)"

definition put_render :: "render_job \<Rightarrow> job_db \<Rightarrow> render_job \<times> job_db" where
  "put_render r db = (r, db\<lparr>render_jobs := repo_put r (render_jobs db)\<rparr>)"

definition render_finished :: "nat \<Rightarrow> bool \<Rightarrow> event" where
  "render_finished video success = \<lparr>ev_type = ''RenderFinished'', ev_data = [(''video_id'', PInt (int video)), (''success'', PBool success)]\<rparr>"

definition render_submit :: "nat \<Rightarrow> string \<Rightarrow> nat option \<Rightarrow> pydict \<Rightarrow> time \<Rightarrow> job_db \<Rightarrow> (render_job \<times> job_db) db_result" where
  "render_submit video kind organization options now db =
     (case enqueue ''render.media'' [(''video_id'', PStr (nat_digits video)), (''kind'', PStr kind)] ''render'' organization 0 3 None now db of
        Inl e \<Rightarrow> Inl e
      | Inr (j, db1) \<Rightarrow>
          let (r, t) = repo_add \<lparr>ent_id = 0, created_at = now, deleted_at = None, rj_video_id = video, rj_organization_id = organization,
                rj_queue_job_id = ent_id j, rj_kind = kind, rj_status = JS_QUEUED, rj_progress = 0, rj_output_key = None,
                rj_output_bytes = None, rj_duration_seconds = None, rj_started_at = None, rj_finished_at = None, rj_error = None,
                rj_options = options\<rparr> (render_jobs db1)
          in Inr (r, db1\<lparr>render_jobs := t\<rparr>))"

definition update_progress :: "nat \<Rightarrow> int \<Rightarrow> time \<Rightarrow> job_db \<Rightarrow> (render_job \<times> job_db) db_result" where
  "update_progress i progress now db =
     (if \<not> (0 \<le> progress \<and> progress \<le> 100) then raise_app ValidationError ''Progress must be between 0 and 100.''
      else case get_render i db of
        Inl e \<Rightarrow> Inl e
      | Inr r \<Rightarrow> Inr (put_render (r\<lparr>rj_status := JS_RUNNING, rj_progress := progress,
            rj_started_at := (case rj_started_at r of None \<Rightarrow> Some now | t \<Rightarrow> t)\<rparr>) db))"

definition render_complete :: "nat \<Rightarrow> string \<Rightarrow> int option \<Rightarrow> int option \<Rightarrow> time \<Rightarrow> job_db \<Rightarrow> (render_job \<times> job_db) db_result" where
  "render_complete i output_key output_bytes duration_seconds now db =
     (case get_render i db of
        Inl e \<Rightarrow> Inl e
      | Inr r \<Rightarrow>
          let (r', db1) = put_render (r\<lparr>rj_status := JS_SUCCEEDED, rj_progress := 100, rj_output_key := Some output_key,
                rj_output_bytes := output_bytes, rj_duration_seconds := duration_seconds, rj_finished_at := Some now, rj_error := None\<rparr>) db
          in Inr (r', db1\<lparr>job_events := job_events db1 @ [render_finished (rj_video_id r) True]\<rparr>))"

definition render_fail :: "nat \<Rightarrow> string \<Rightarrow> time \<Rightarrow> job_db \<Rightarrow> (render_job \<times> job_db) db_result" where
  "render_fail i error now db =
     (case get_render i db of
        Inl e \<Rightarrow> Inl e
      | Inr r \<Rightarrow>
          let (r', db1) = put_render (r\<lparr>rj_status := JS_FAILED, rj_error := Some error, rj_finished_at := Some now\<rparr>) db
          in Inr (r', db1\<lparr>job_events := job_events db1 @ [render_finished (rj_video_id r) False]\<rparr>))"

definition renders_for_video :: "nat \<Rightarrow> job_db \<Rightarrow> render_job list" where
  "renders_for_video video db = sort_key created_at (filter (\<lambda>r. rj_video_id r = video) (base_query False (render_jobs db)))"

definition list_active_renders :: "nat \<Rightarrow> job_db \<Rightarrow> render_job list" where
  "list_active_renders limit db = take limit (filter (\<lambda>r. rj_status r \<in> {JS_QUEUED, JS_RUNNING}) (base_query False (render_jobs db)))"

section \<open>The ready list\<close>

lemma sorted_wrt_lex:
  assumes "sorted_wrt (\<lambda>x y. p x \<ge> (p y :: int)) ys" and "\<And>q. sorted (map c (filter (\<lambda>x. p x = q) ys))"
  shows "sorted_wrt (\<lambda>x y. p x > p y \<or> p x = p y \<and> c x \<le> c y) ys"
  using assms
proof (induction ys)
  case (Cons y ys)
  have "sorted (map c (filter (\<lambda>x. p x = q) ys))" for q
    using Cons.prems(2) [of q] by (auto split: if_splits)
  moreover have "c y \<le> c z" if "z \<in> set ys" "p z = p y" for z
    using Cons.prems(2) [of "p y"] that by auto
  moreover have "p y > p z \<or> p y = p z" if "z \<in> set ys" for z
    using Cons.prems(1) that by (auto simp: le_less)
  moreover have "sorted_wrt (\<lambda>x y. p x \<ge> p y) ys" using Cons.prems(1) by simp
  ultimately have "\<forall>z \<in> set ys. p y > p z \<or> p y = p z \<and> c y \<le> c z"
    and "sorted_wrt (\<lambda>x y. p x > p y \<or> p x = p y \<and> c x \<le> c y) ys"
    using Cons.IH by (metis, blast)
  then show ?case by simp
qed simp

lemma sorted_wrt_take: "sorted_wrt P xs \<Longrightarrow> sorted_wrt P (take n xs)"
  by (metis append_take_drop_id sorted_wrt_append)

definition is_ready :: "time \<Rightarrow> queue_job \<Rightarrow> bool" where
  "is_ready now j \<longleftrightarrow> qj_status j = JS_QUEUED \<and> (case qj_scheduled_for j of None \<Rightarrow> True | Some t \<Rightarrow> t \<le> now) \<and> deleted_at j = None"

definition comes_before :: "queue_job \<Rightarrow> queue_job \<Rightarrow> bool" where
  "comes_before a b \<longleftrightarrow> qj_priority a > qj_priority b \<or> qj_priority a = qj_priority b \<and> created_at a \<le> created_at b"

text \<open>
  The ready list holds queued jobs whose time has come, highest priority first and oldest
  first among equals, at most \<open>limit\<close> of them, and a ready job is left out only when \<open>limit\<close> jobs
  that come before it fill the list.
\<close>

theorem list_ready_spec:
  assumes "table_ok (queue_jobs db)"
  shows "sorted_wrt comes_before (list_ready now limit db)
    \<and> length (list_ready now limit db) \<le> limit
    \<and> (\<forall>j \<in> set (list_ready now limit db). repo_get (ent_id j) (queue_jobs db) = Some j \<and> is_ready now j)
    \<and> (\<forall>i j. repo_get i (queue_jobs db) = Some j \<and> is_ready now j \<and> j \<notin> set (list_ready now limit db)
          \<longrightarrow> length (list_ready now limit db) = limit \<and> (\<forall>k \<in> set (list_ready now limit db). comes_before k j))"
proof -
  define P where "P = (\<lambda>j :: queue_job. qj_status j = JS_QUEUED \<and> (case qj_scheduled_for j of None \<Rightarrow> True | Some t \<Rightarrow> t \<le> now))"
  define xs where "xs = filter P (base_query False (queue_jobs db))"
  define ys where "ys = sorted_desc qj_priority (sort_key created_at xs)"
  have rl: "list_ready now limit db = take limit ys" by (simp add: list_ready_def ys_def xs_def P_def)
  have "sorted (map created_at (filter (\<lambda>x. qj_priority x = q) ys))" for q
    unfolding ys_def sorted_desc_stable by (metis sorted_filter sorted_sort_key)
  then have sorted: "sorted_wrt comes_before ys"
    using sorted_wrt_lex [of qj_priority ys created_at] sorted_desc_sorted unfolding ys_def comes_before_def by blast
  then have "sorted_wrt comes_before (take limit ys)" by (rule sorted_wrt_take)
  moreover have mem: "j \<in> set ys \<longleftrightarrow> repo_get (ent_id j) (queue_jobs db) = Some j \<and> is_ready now j" for j
    using base_query_mem [OF assms, of j] by (auto simp: ys_def xs_def P_def is_ready_def)
  moreover have "length (take limit ys) = limit" if "j \<in> set ys" "j \<notin> set (take limit ys)" for j
    using that by (metis length_take min_def order.refl take_all)
  moreover have "comes_before k j" if "j \<in> set ys" "j \<notin> set (take limit ys)" "k \<in> set (take limit ys)" for j k
  proof -
    have "sorted_wrt comes_before (take limit ys @ drop limit ys)" using sorted by simp
    moreover have "j \<in> set (take limit ys) \<union> set (drop limit ys)" using that(1) by (metis append_take_drop_id set_append)
    ultimately show ?thesis using that(2,3) unfolding sorted_wrt_append by auto
  qed
  moreover have "ent_id j = i" if "repo_get i (queue_jobs db) = Some j" for i j
    using repo.get_key [OF assms that] .
  moreover have "j \<in> set ys" if "j \<in> set (take limit ys)" for j using that by (rule in_set_takeD)
  moreover have "length (take limit ys) \<le> limit" by simp
  ultimately show ?thesis unfolding rl by (intro conjI ballI allI impI) metis+
qed

section \<open>Attempts\<close>

text \<open>
  The life of jobs when workers take their work from the ready list: a job is started only when
  it is on the list; its outcome, a cancellation, a retry and new jobs may come at any time.
\<close>

inductive worker_step :: "job_db \<Rightarrow> job_db \<Rightarrow> bool" where
  Enqueue: "enqueue task payload queue organization priority most due now db = Inr (j, db') \<Longrightarrow> worker_step db db'"
| Start: "j \<in> set (list_ready now limit db) \<Longrightarrow> mark_running (ent_id j) x now' db = Inr (j', db') \<Longrightarrow> worker_step db db'"
| Succeed: "mark_succeeded i result now db = Inr (j, db') \<Longrightarrow> worker_step db db'"
| Fail: "mark_failed i e now db = Inr (j, db') \<Longrightarrow> worker_step db db'"
| Stop: "job_cancel i now db = Inr (j, db') \<Longrightarrow> worker_step db db'"
| Retry: "job_retry i db = Inr (j, db') \<Longrightarrow> worker_step db db'"

definition job_row_ok :: "queue_job \<Rightarrow> bool" where
  "job_row_ok j \<longleftrightarrow> 0 \<le> qj_attempts j \<and> qj_attempts j \<le> qj_max_attempts j \<and> (qj_status j = JS_QUEUED \<longrightarrow> qj_attempts j < qj_max_attempts j)"

definition jobs_ok :: "job_db \<Rightarrow> bool" where
  "jobs_ok db \<longleftrightarrow> table_ok (queue_jobs db) \<and> (\<forall>i j. repo_get i (queue_jobs db) = Some j \<longrightarrow> job_row_ok j)"

lemma get_job_Inr: "get_job i db = Inr j \<longleftrightarrow> repo_get i (queue_jobs db) = Some j"
  by (simp add: get_job_def split: option.split)

lemma jobs_ok_put:
  assumes "jobs_ok db" and "put_job j' db = (x, db')" and "job_row_ok j'"
  shows "jobs_ok db'"
proof -
  have "queue_jobs db' = repo_put j' (queue_jobs db)" using assms(2) by (auto simp: put_job_def)
  then show ?thesis
    using assms(1,3) repo.all_put [of "queue_jobs db" job_row_ok j'] unfolding jobs_ok_def by auto
qed

lemma worker_step_ok: "worker_step db db' \<Longrightarrow> jobs_ok db \<Longrightarrow> jobs_ok db'"
proof (induction rule: worker_step.induct)
  case (Enqueue task payload queue organization priority most due now db j db')
  then obtain r t where t: "repo_add r (queue_jobs db) = (j, t)" "queue_jobs db' = t" "job_row_ok r"
    by (auto simp: enqueue_def Let_def job_row_ok_def split: if_splits prod.splits)
  from repo_add_new(1) [OF t(1)] t(3) have "job_row_ok j" by (simp add: job_row_ok_def)
  with Enqueue.prems t show ?case
    using repo.all_add [OF t(1), of job_row_ok] repo_add_ok [OF _ t(1)] by (auto simp: jobs_ok_def)
next
  case (Start j now limit db x now' j' db')
  have ok: "table_ok (queue_jobs db)" and rows: "\<And>i j. repo_get i (queue_jobs db) = Some j \<Longrightarrow> job_row_ok j"
    using Start.prems by (auto simp: jobs_ok_def)
  have "j \<in> set (base_query False (queue_jobs db))" "qj_status j = JS_QUEUED"
    using Start.hyps(1) by (auto simp: list_ready_def dest!: in_set_takeD)
  then have g: "repo_get (ent_id j) (queue_jobs db) = Some j" and q: "qj_attempts j < qj_max_attempts j" "0 \<le> qj_attempts j"
    using base_query_mem [OF ok, of j] rows [of "ent_id j" j] by (auto simp: job_row_ok_def)
  from Start.hyps(2) g obtain j2 where j2: "put_job j2 db = (j', db')" "qj_status j2 = JS_RUNNING"
    "qj_attempts j2 = qj_attempts j + 1" "qj_max_attempts j2 = qj_max_attempts j"
    by (auto simp: mark_running_def get_job_def Let_def split: if_splits)
  show ?case by (rule jobs_ok_put [OF Start.prems j2(1)]) (use j2 q in \<open>simp add: job_row_ok_def\<close>)
next
  case (Succeed i result now db j db')
  then obtain j0 where "repo_get i (queue_jobs db) = Some j0"
    "put_job (j0\<lparr>qj_status := JS_SUCCEEDED, qj_result := result, qj_error := None, qj_finished_at := Some now\<rparr>) db = (j, db')"
    by (auto simp: mark_succeeded_def get_job_Inr split: sum.splits)
  with Succeed.prems show ?case by (intro jobs_ok_put [of db _ j db']) (auto simp: jobs_ok_def job_row_ok_def)
next
  case (Fail i e now db j db')
  then obtain j0 where "repo_get i (queue_jobs db) = Some j0"
    "put_job (j0\<lparr>qj_status := JS_FAILED, qj_error := Some e, qj_finished_at := Some now\<rparr>) db = (j, db')"
    by (auto simp: mark_failed_def get_job_Inr split: sum.splits)
  with Fail.prems show ?case by (intro jobs_ok_put [of db _ j db']) (auto simp: jobs_ok_def job_row_ok_def)
next
  case (Stop i now db j db')
  then obtain j0 where "repo_get i (queue_jobs db) = Some j0"
    "put_job (j0\<lparr>qj_status := JS_CANCELLED, qj_finished_at := Some now\<rparr>) db = (j, db')"
    by (auto simp: job_cancel_def get_job_Inr split: sum.splits if_splits)
  with Stop.prems show ?case by (intro jobs_ok_put [of db _ j db']) (auto simp: jobs_ok_def job_row_ok_def)
next
  case (Retry i db j db')
  then obtain j0 where "repo_get i (queue_jobs db) = Some j0" "can_retry j0"
    "put_job (j0\<lparr>qj_status := JS_QUEUED, qj_error := None, qj_finished_at := None\<rparr>) db = (j, db')"
    by (auto simp: job_retry_def get_job_Inr split: sum.splits if_splits)
  with Retry.prems show ?case
    by (intro jobs_ok_put [of db _ j db']) (auto simp: jobs_ok_def job_row_ok_def can_retry_def)
qed


text \<open>
  A job that succeeded is not final: reporting a failure afterwards makes it failed, and with
  an attempt left it can be queued again.
\<close>

theorem succeeded_job_requeued:
  assumes "repo_get i (queue_jobs db) = Some j" and "ent_id j = i" and "qj_status j = JS_SUCCEEDED" and "qj_attempts j < qj_max_attempts j"
  shows "JS_SUCCEEDED \<in> set TERMINAL_STATUSES \<and> (\<exists>j1 db1 j2 db2. mark_failed i e now db = Inr (j1, db1) \<and> job_retry i db1 = Inr (j2, db2)
     \<and> repo_get i (queue_jobs db2) = Some j2 \<and> qj_status j2 = JS_QUEUED)"
  using assms by (simp add: TERMINAL_STATUSES_def mark_failed_def job_retry_def get_job_def put_job_def can_retry_def)

text \<open>
  Starting a job does not look at its attempts: a failed job that has used them all, which
  \<open>retry\<close> refuses, is started again by \<open>mark_running\<close>.
\<close>

theorem exhausted_job_restarts:
  assumes "repo_get i (queue_jobs db) = Some j" and "qj_status j = JS_FAILED" and "qj_max_attempts j \<le> qj_attempts j" and "qj_external_id j = None"
  shows "(\<exists>e. job_retry i db = Inl e) \<and> (\<exists>j' db'. mark_running i None now db = Inr (j', db') \<and> qj_max_attempts j' < qj_attempts j')"
  using assms by (simp add: TERMINAL_STATUSES_def mark_running_def job_retry_def get_job_def put_job_def can_retry_def
      external_clash_def truthy_def Let_def)

section \<open>Witnesses\<close>

definition empty_jobs :: job_db where
  "empty_jobs = \<lparr>queue_jobs = [], render_jobs = [], job_events = []\<rparr>"

definition job_after :: "('a \<times> job_db) db_result \<Rightarrow> job_db" where
  "job_after r = (case r of Inl _ \<Rightarrow> empty_jobs | Inr (_, db) \<Rightarrow> db)"

definition one_job :: job_db where "one_job = job_after (enqueue ''t'' [] ''default'' None 0 1 None 0 empty_jobs)"
definition two_jobs :: job_db where "two_jobs = job_after (enqueue ''u'' [] ''default'' None 9 3 None 5 one_job)"

theorem list_ready_spec_witness: "map qj_task_name (list_ready 6 5 two_jobs) = [''u'', ''t''] \<and> length (list_ready 6 1 two_jobs) \<le> 1"
proof -
  have "table_ok (queue_jobs two_jobs)" "map qj_task_name (list_ready 6 5 two_jobs) = [''u'', ''t'']" by code_simp+
  then show ?thesis using list_ready_spec [of two_jobs 6 1] by blast
qed


definition done_job :: job_db where "done_job = job_after (mark_succeeded 1 [] 0 two_jobs)"

theorem succeeded_job_requeued_witness:
  "\<exists>j1 db1 j2 db2. mark_failed 1 ''late'' 0 done_job = Inr (j1, db1) \<and> job_retry 1 db1 = Inr (j2, db2) \<and> qj_status j2 = JS_QUEUED"
proof -
  have "(case repo_get 1 (queue_jobs done_job) of None \<Rightarrow> False
     | Some j \<Rightarrow> ent_id j = 1 \<and> qj_status j = JS_SUCCEEDED \<and> qj_attempts j < qj_max_attempts j)" by code_simp
  then obtain j where "repo_get 1 (queue_jobs done_job) = Some j" "ent_id j = 1" "qj_status j = JS_SUCCEEDED" "qj_attempts j < qj_max_attempts j"
    by (auto split: option.splits)
  from succeeded_job_requeued [OF this, of "''late''" 0] show ?thesis by blast
qed

definition spent_job :: job_db where "spent_job = job_after (mark_failed 0 ''x'' 0 (job_after (mark_running 0 None 0 one_job)))"

theorem exhausted_job_restarts_witness: "\<exists>j' db'. mark_running 0 None 0 spent_job = Inr (j', db') \<and> qj_max_attempts j' < qj_attempts j'"
proof -
  have "(case repo_get 0 (queue_jobs spent_job) of None \<Rightarrow> False
     | Some j \<Rightarrow> qj_status j = JS_FAILED \<and> qj_max_attempts j \<le> qj_attempts j \<and> (case qj_external_id j of None \<Rightarrow> True | Some _ \<Rightarrow> False))"
    by code_simp
  then obtain j where "repo_get 0 (queue_jobs spent_job) = Some j" "qj_status j = JS_FAILED" "qj_max_attempts j \<le> qj_attempts j" "qj_external_id j = None"
    by (auto split: option.splits)
  from exhausted_job_restarts [OF this, of 0] show ?thesis by blast
qed

end
