(* ===== verification/Workflow_Expr.thy ===== *)
theory Workflow_Expr
  imports Py_Value
begin

text \<open>
  The condition language of workflow edges, \<^verbatim>\<open>app/core/workflow/expressions.py\<close>: the
  permitted AST nodes, the walk \<^verbatim>\<open>_evaluate\<close> with its depth and exponent limits, and the two
  entry points. The Python parser, \<^verbatim>\<open>str % value\<close> formatting and floating point powers are
  fields of a \<open>py_runtime\<close>, an argument of every definition here.

  The theorems: an expression that evaluates uses permitted constructs only and stays within
  the depth limit in every position that is always evaluated; exponents are bounded; and the
  bound on one exponent does not bound the value of nested powers.
\<close>

section \<open>Syntax\<close>

datatype unary_op = Not_op | USub_op | UAdd_op | Other_unary string
datatype binary_op =
    Add_op | Sub_op | Mult_op | Div_op | FloorDiv_op | Mod_op | Pow_op | Other_binary string
datatype compare_op =
    Eq_op | NotEq_op | Lt_op | LtE_op | Gt_op | GtE_op | In_op | NotIn_op | Other_compare string
datatype bool_op = And_op | Or_op

text \<open>\<open>EOther\<close> is every AST node the walk has no case for, with its type name.\<close>

datatype expr =
    EExpression expr
  | EConstant pyval
  | EName string
  | ESubscript expr expr
  | EBoolOp bool_op "expr list"
  | EUnaryOp unary_op expr
  | EBinOp expr binary_op expr
  | ECompare expr "(compare_op \<times> expr) list"
  | EList "expr list"
  | ETuple "expr list"
  | EOther string

datatype py_exc = Py_TypeError | Py_ZeroDivisionError | Py_SyntaxError | Py_Other

datatype expr_exc =
    NestsTooDeeply | UnsupportedOperator string | ExponentTooLarge | DivisionByZero
  | UnsupportedOperandTypes | UnsupportedComparison string | UnsupportedElement string
  | ExpressionTooLong | InvalidExpression
  | Uncaught py_exc \<comment> \<open>a Python exception the walk does not turn into \<open>ExpressionError\<close>\<close>

fun is_expression_error :: "expr_exc \<Rightarrow> bool" where
  "is_expression_error (Uncaught _) = False"
| "is_expression_error _ = True"

record py_runtime =
  rt_parse :: "string \<Rightarrow> py_exc + expr"
  rt_format :: "string \<Rightarrow> pyval \<Rightarrow> py_exc + pyval"
  rt_float_pow :: "rat \<Rightarrow> rat \<Rightarrow> py_exc + pyval"

definition MAX_EXPONENT :: nat where "MAX_EXPONENT = 64"
definition MAX_DEPTH :: nat where "MAX_DEPTH = 25"
definition MAX_LENGTH :: nat where "MAX_LENGTH = 1000"

section \<open>Operators\<close>

definition num_op ::
  "(int \<Rightarrow> int \<Rightarrow> int) \<Rightarrow> (rat \<Rightarrow> rat \<Rightarrow> rat) \<Rightarrow> pyval \<Rightarrow> pyval \<Rightarrow> py_exc + pyval" where
  "num_op fi fr a b =
     (case (py_int_of a, py_int_of b) of
        (Some i, Some j) \<Rightarrow> Inr (PInt (fi i j))
      | _ \<Rightarrow> (case (py_num a, py_num b) of
                (Some p, Some q) \<Rightarrow> Inr (PFloat (fr p q))
              | _ \<Rightarrow> Inl Py_TypeError))"

definition div_op ::
  "(int \<Rightarrow> int \<Rightarrow> pyval) \<Rightarrow> (rat \<Rightarrow> rat \<Rightarrow> rat) \<Rightarrow> pyval \<Rightarrow> pyval \<Rightarrow> py_exc + pyval" where
  "div_op fi fr a b =
     (case (py_num a, py_num b) of
        (Some p, Some q) \<Rightarrow>
          if q = 0 then Inl Py_ZeroDivisionError
          else (case (py_int_of a, py_int_of b) of
                  (Some i, Some j) \<Rightarrow> Inr (fi i j)
                | _ \<Rightarrow> Inr (PFloat (fr p q)))
      | _ \<Rightarrow> Inl Py_TypeError)"

definition repeat_seq :: "'a list \<Rightarrow> int \<Rightarrow> 'a list" where
  "repeat_seq xs n = concat (replicate (nat n) xs)"

fun py_add :: "pyval \<Rightarrow> pyval \<Rightarrow> py_exc + pyval" where
  "py_add (PStr s) b = (case b of PStr t \<Rightarrow> Inr (PStr (s @ t)) | _ \<Rightarrow> Inl Py_TypeError)"
| "py_add (PList s) b = (case b of PList t \<Rightarrow> Inr (PList (s @ t)) | _ \<Rightarrow> Inl Py_TypeError)"
| "py_add (PTuple s) b = (case b of PTuple t \<Rightarrow> Inr (PTuple (s @ t)) | _ \<Rightarrow> Inl Py_TypeError)"
| "py_add a b = num_op (+) (+) a b"

definition py_mul_seq :: "pyval \<Rightarrow> int \<Rightarrow> pyval option" where
  "py_mul_seq a n = (case a of PStr s \<Rightarrow> Some (PStr (repeat_seq s n))
     | PList s \<Rightarrow> Some (PList (repeat_seq s n))
     | PTuple s \<Rightarrow> Some (PTuple (repeat_seq s n)) | _ \<Rightarrow> None)"

definition py_mul :: "pyval \<Rightarrow> pyval \<Rightarrow> py_exc + pyval" where
  "py_mul a b =
     (case (py_mul_seq a 0, py_int_of b) of
        (Some _, Some n) \<Rightarrow> (case py_mul_seq a n of Some v \<Rightarrow> Inr v | None \<Rightarrow> Inl Py_TypeError)
      | _ \<Rightarrow> (case (py_int_of a, py_mul_seq b 0) of
                (Some n, Some _) \<Rightarrow>
                  (case py_mul_seq b n of Some v \<Rightarrow> Inr v | None \<Rightarrow> Inl Py_TypeError)
              | _ \<Rightarrow> num_op (*) (*) a b))"

definition py_pow :: "py_runtime \<Rightarrow> pyval \<Rightarrow> pyval \<Rightarrow> py_exc + pyval" where
  "py_pow rt a b =
     (case (py_num a, py_num b) of
        (Some p, Some q) \<Rightarrow>
          (case (py_int_of a, py_int_of b) of
             (Some i, Some j) \<Rightarrow>
               if 0 \<le> j then Inr (PInt (i ^ nat j))
               else if i = 0 then Inl Py_ZeroDivisionError
               else rt_float_pow rt p q
           | _ \<Rightarrow> if p = 0 \<and> q < 0 then Inl Py_ZeroDivisionError else rt_float_pow rt p q)
      | _ \<Rightarrow> Inl Py_TypeError)"

definition py_mod :: "py_runtime \<Rightarrow> pyval \<Rightarrow> pyval \<Rightarrow> py_exc + pyval" where
  "py_mod rt a b =
     (case a of PStr s \<Rightarrow> rt_format rt s b
      | _ \<Rightarrow> div_op (\<lambda>i j. PInt (i mod j)) (\<lambda>p q. p - q * of_int \<lfloor>p / q\<rfloor>) a b)"

fun binary :: "py_runtime \<Rightarrow> binary_op \<Rightarrow> (pyval \<Rightarrow> pyval \<Rightarrow> py_exc + pyval) option" where
  \<comment> \<open>the table \<open>_BINARY\<close>\<close>
  "binary rt Add_op = Some py_add"
| "binary rt Sub_op = Some (num_op (-) (-))"
| "binary rt Mult_op = Some py_mul"
| "binary rt Div_op = Some (div_op (\<lambda>i j. PFloat (of_int i / of_int j)) (/))"
| "binary rt FloorDiv_op =
     Some (div_op (\<lambda>i j. PInt (i div j)) (\<lambda>p q. of_int \<lfloor>p / q\<rfloor>))"
| "binary rt Mod_op = Some (py_mod rt)"
| "binary rt Pow_op = Some (py_pow rt)"
| "binary rt (Other_binary _) = None"

fun compare :: "compare_op \<Rightarrow> (pyval \<Rightarrow> pyval \<Rightarrow> bool option) option" where
  \<comment> \<open>the table \<open>_COMPARE\<close>; an inner \<open>None\<close> is \<open>TypeError\<close>\<close>
  "compare Eq_op = Some (\<lambda>a b. Some (py_eq a b))"
| "compare NotEq_op = Some (\<lambda>a b. Some (\<not> py_eq a b))"
| "compare Lt_op = Some py_lt"
| "compare LtE_op = Some py_le"
| "compare Gt_op = Some (\<lambda>a b. py_lt b a)"
| "compare GtE_op = Some (\<lambda>a b. py_le b a)"
| "compare In_op = Some py_in"
| "compare NotIn_op = Some (\<lambda>a b. map_option Not (py_in a b))"
| "compare (Other_compare _) = None"

fun unary :: "unary_op \<Rightarrow> (pyval \<Rightarrow> py_exc + pyval) option" where
  \<comment> \<open>the table \<open>_UNARY\<close>\<close>
  "unary Not_op = Some (\<lambda>a. Inr (PBool (\<not> py_truth a)))"
| "unary USub_op = Some (\<lambda>a. num_op (-) (-) (PInt 0) a)"
| "unary UAdd_op = Some (\<lambda>a. num_op (+) (+) (PInt 0) a)"
| "unary (Other_unary _) = None"

fun unary_name :: "unary_op \<Rightarrow> string" where
  "unary_name (Other_unary n) = n" | "unary_name _ = []"
fun binary_name :: "binary_op \<Rightarrow> string" where
  "binary_name (Other_binary n) = n" | "binary_name _ = []"
fun compare_name :: "compare_op \<Rightarrow> string" where
  "compare_name (Other_compare n) = n" | "compare_name _ = []"

definition exponent_ok :: "pyval \<Rightarrow> bool" where
  "exponent_ok v \<longleftrightarrow> (case py_num v of None \<Rightarrow> False | Some q \<Rightarrow> \<bar>q\<bar> \<le> of_nat MAX_EXPONENT)"

fun catch_binary :: "py_exc + pyval \<Rightarrow> expr_exc + pyval" where
  \<comment> \<open>the \<open>try\<close> around the application of a binary operator\<close>
  "catch_binary (Inr v) = Inr v"
| "catch_binary (Inl Py_ZeroDivisionError) = Inl DivisionByZero"
| "catch_binary (Inl Py_TypeError) = Inl UnsupportedOperandTypes"
| "catch_binary (Inl e) = Inl (Uncaught e)"

section \<open>The walk\<close>

fun evaluate_node :: "py_runtime \<Rightarrow> pydict \<Rightarrow> nat \<Rightarrow> expr \<Rightarrow> expr_exc + pyval"
  and evaluate_all :: "py_runtime \<Rightarrow> pydict \<Rightarrow> nat \<Rightarrow> expr list \<Rightarrow> expr_exc + pyval list"
  and evaluate_compare ::
    "py_runtime \<Rightarrow> pydict \<Rightarrow> nat \<Rightarrow> pyval \<Rightarrow> (compare_op \<times> expr) list \<Rightarrow> expr_exc + pyval" where
  "evaluate_node rt ctx d (EExpression e) =
     (if d > MAX_DEPTH then Inl NestsTooDeeply else evaluate_node rt ctx (Suc d) e)"
| "evaluate_node rt ctx d (EConstant v) =
     (if d > MAX_DEPTH then Inl NestsTooDeeply else Inr v)"
| "evaluate_node rt ctx d (EName n) =
     (if d > MAX_DEPTH then Inl NestsTooDeeply
      else Inr (case dict_get ctx n of None \<Rightarrow> PNone | Some v \<Rightarrow> v))"
| "evaluate_node rt ctx d (ESubscript c k) =
     (if d > MAX_DEPTH then Inl NestsTooDeeply
      else case evaluate_node rt ctx (Suc d) c of
        Inl x \<Rightarrow> Inl x
      | Inr container \<Rightarrow>
          (case evaluate_node rt ctx (Suc d) k of
             Inl x \<Rightarrow> Inl x
           | Inr key \<Rightarrow>
               Inr (case py_getitem container key of None \<Rightarrow> PNone | Some v \<Rightarrow> v)))"
| "evaluate_node rt ctx d (EBoolOp op es) =
     (if d > MAX_DEPTH then Inl NestsTooDeeply
      else case evaluate_all rt ctx (Suc d) es of
        Inl x \<Rightarrow> Inl x
      | Inr vs \<Rightarrow> Inr (PBool (if op = And_op then list_all py_truth vs else list_ex py_truth vs)))"
| "evaluate_node rt ctx d (EUnaryOp op e) =
     (if d > MAX_DEPTH then Inl NestsTooDeeply
      else case unary op of
        None \<Rightarrow> Inl (UnsupportedOperator (unary_name op))
      | Some f \<Rightarrow>
          (case evaluate_node rt ctx (Suc d) e of
             Inl x \<Rightarrow> Inl x
           | Inr v \<Rightarrow> (case f v of Inl x \<Rightarrow> Inl (Uncaught x) | Inr w \<Rightarrow> Inr w)))"
| "evaluate_node rt ctx d (EBinOp l op r) =
     (if d > MAX_DEPTH then Inl NestsTooDeeply
      else case binary rt op of
        None \<Rightarrow> Inl (UnsupportedOperator (binary_name op))
      | Some f \<Rightarrow>
          (case evaluate_node rt ctx (Suc d) l of
             Inl x \<Rightarrow> Inl x
           | Inr left \<Rightarrow>
               (case evaluate_node rt ctx (Suc d) r of
                  Inl x \<Rightarrow> Inl x
                | Inr right \<Rightarrow>
                    if op = Pow_op \<and> \<not> exponent_ok right then Inl ExponentTooLarge
                    else catch_binary (f left right))))"
| "evaluate_node rt ctx d (ECompare l cs) =
     (if d > MAX_DEPTH then Inl NestsTooDeeply
      else case evaluate_node rt ctx (Suc d) l of
        Inl x \<Rightarrow> Inl x
      | Inr left \<Rightarrow> evaluate_compare rt ctx (Suc d) left cs)"
| "evaluate_node rt ctx d (EList es) =
     (if d > MAX_DEPTH then Inl NestsTooDeeply
      else case evaluate_all rt ctx (Suc d) es of Inl x \<Rightarrow> Inl x | Inr vs \<Rightarrow> Inr (PList vs))"
| "evaluate_node rt ctx d (ETuple es) =
     (if d > MAX_DEPTH then Inl NestsTooDeeply
      else case evaluate_all rt ctx (Suc d) es of Inl x \<Rightarrow> Inl x | Inr vs \<Rightarrow> Inr (PTuple vs))"
| "evaluate_node rt ctx d (EOther n) =
     (if d > MAX_DEPTH then Inl NestsTooDeeply else Inl (UnsupportedElement n))"
| "evaluate_all rt ctx d [] = Inr []"
| "evaluate_all rt ctx d (e # es) =
     (case evaluate_node rt ctx d e of
        Inl x \<Rightarrow> Inl x
      | Inr v \<Rightarrow> (case evaluate_all rt ctx d es of Inl x \<Rightarrow> Inl x | Inr vs \<Rightarrow> Inr (v # vs)))"
| "evaluate_compare rt ctx d left [] = Inr (PBool True)"
| "evaluate_compare rt ctx d left ((op, e) # cs) =
     (case compare op of
        None \<Rightarrow> Inl (UnsupportedComparison (compare_name op))
      | Some f \<Rightarrow>
          (case evaluate_node rt ctx d e of
             Inl x \<Rightarrow> Inl x
           | Inr right \<Rightarrow>
               (case f left right of
                  None \<Rightarrow> Inr (PBool False)
                | Some b \<Rightarrow> if b then evaluate_compare rt ctx d right cs
                            else Inr (PBool False))))"

definition evaluate :: "py_runtime \<Rightarrow> string \<Rightarrow> pydict \<Rightarrow> expr_exc + pyval" where
  "evaluate rt expression ctx =
     (if length expression > MAX_LENGTH then Inl ExpressionTooLong
      else case rt_parse rt (strip expression) of
        Inl Py_SyntaxError \<Rightarrow> Inl InvalidExpression
      | Inl x \<Rightarrow> Inl (Uncaught x)
      | Inr tree \<Rightarrow> evaluate_node rt ctx 0 tree)"

definition evaluate_condition :: "py_runtime \<Rightarrow> string option \<Rightarrow> pydict \<Rightarrow> expr_exc + bool" where
  "evaluate_condition rt expression ctx =
     (case expression of
        None \<Rightarrow> Inr True
      | Some s \<Rightarrow>
          if strip s = [] then Inr True
          else (case evaluate rt s ctx of Inl x \<Rightarrow> Inl x | Inr v \<Rightarrow> Inr (py_truth v)))"

section \<open>What a successful evaluation has seen\<close>

text \<open>
  The positions the walk always reaches: every operand except the comparators after the
  first of a comparison, which is left as soon as one link is false.
\<close>

fun strict_depth :: "expr \<Rightarrow> nat" and strict_depths :: "expr list \<Rightarrow> nat" where
  "strict_depth (EExpression e) = Suc (strict_depth e)"
| "strict_depth (EConstant v) = 0"
| "strict_depth (EName n) = 0"
| "strict_depth (ESubscript c k) = Suc (max (strict_depth c) (strict_depth k))"
| "strict_depth (EBoolOp op es) = (if es = [] then 0 else Suc (strict_depths es))"
| "strict_depth (EUnaryOp op e) = Suc (strict_depth e)"
| "strict_depth (EBinOp l op r) = Suc (max (strict_depth l) (strict_depth r))"
| "strict_depth (ECompare l cs) =
     Suc (max (strict_depth l) (case cs of [] \<Rightarrow> 0 | (op, e) # _ \<Rightarrow> strict_depth e))"
| "strict_depth (EList es) = (if es = [] then 0 else Suc (strict_depths es))"
| "strict_depth (ETuple es) = (if es = [] then 0 else Suc (strict_depths es))"
| "strict_depth (EOther n) = 0"
| "strict_depths [] = 0"
| "strict_depths (e # es) = max (strict_depth e) (strict_depths es)"

fun supported :: "expr \<Rightarrow> bool" and all_supported :: "expr list \<Rightarrow> bool" where
  "supported (EExpression e) = supported e"
| "supported (EConstant v) = True"
| "supported (EName n) = True"
| "supported (ESubscript c k) = (supported c \<and> supported k)"
| "supported (EBoolOp op es) = all_supported es"
| "supported (EUnaryOp op e) = (unary op \<noteq> None \<and> supported e)"
| "supported (EBinOp l op r) = ((case op of Other_binary _ \<Rightarrow> False | _ \<Rightarrow> True)
     \<and> supported l \<and> supported r)"
| "supported (ECompare l cs) = (supported l \<and>
     (case cs of [] \<Rightarrow> True | (op, e) # _ \<Rightarrow> compare op \<noteq> None \<and> supported e))"
| "supported (EList es) = all_supported es"
| "supported (ETuple es) = all_supported es"
| "supported (EOther n) = False"
| "all_supported [] = True"
| "all_supported (e # es) = (supported e \<and> all_supported es)"

lemma evaluate_depth_aux:
  "evaluate_node rt ctx d e = Inr v \<Longrightarrow> d + strict_depth e \<le> MAX_DEPTH"
  "evaluate_all rt ctx d es = Inr vs \<Longrightarrow> es \<noteq> [] \<Longrightarrow> d + strict_depths es \<le> MAX_DEPTH"
  "evaluate_compare rt ctx d left cs = Inr v \<Longrightarrow>
     (case cs of [] \<Rightarrow> True | (op, c) # _ \<Rightarrow> d + strict_depth c \<le> MAX_DEPTH)"
proof (induction rt ctx d e and rt ctx d es and rt ctx d left cs
    arbitrary: v and vs and v
    rule: evaluate_node_evaluate_all_evaluate_compare.induct)
  case (13 rt ctx d e es)
  then show ?case by (cases es) (auto simp: nat_add_max_right split: sum.splits)
qed (fastforce split: if_splits sum.splits option.splits list.splits prod.splits)+

lemma evaluate_supported_aux:
  "evaluate_node rt ctx d e = Inr v \<Longrightarrow> supported e"
  "evaluate_all rt ctx d es = Inr vs \<Longrightarrow> all_supported es"
  "evaluate_compare rt ctx d left cs = Inr v \<Longrightarrow>
     (case cs of [] \<Rightarrow> True | (op, c) # _ \<Rightarrow> compare op \<noteq> None \<and> supported c)"
proof (induction rt ctx d e and rt ctx d es and rt ctx d left cs
    arbitrary: v and vs and v
    rule: evaluate_node_evaluate_all_evaluate_compare.induct)
  case (7 rt ctx d l op r)
  then show ?case by (cases op) (auto split: if_splits sum.splits option.splits)
qed (auto split: if_splits sum.splits option.splits list.splits prod.splits)

lemmas evaluate_node_sound = evaluate_depth_aux(1) evaluate_supported_aux(1)


section \<open>Exponents\<close>

text \<open>
  Every power that is computed has a numeric exponent of absolute value at most
  \<open>MAX_EXPONENT\<close>.
\<close>

theorem evaluate_pow_exponent_bounded:
  assumes "evaluate_node rt ctx d (EBinOp l Pow_op r) = Inr v"
  shows "\<exists>right q. evaluate_node rt ctx (Suc d) r = Inr right \<and> py_num right = Some q \<and> \<bar>q\<bar> \<le> 64"
  using assms
  by (auto simp: exponent_ok_def MAX_EXPONENT_def split: if_splits sum.splits option.splits)

fun nested_pow :: "nat \<Rightarrow> expr" where
  \<comment> \<open>\<open>(...((9 ** 64) ** 64) ...) ** 64\<close>\<close>
  "nested_pow 0 = EConstant (PInt 9)"
| "nested_pow (Suc n) = EBinOp (nested_pow n) Pow_op (EConstant (PInt 64))"

lemma evaluate_nested_pow:
  "d + n \<le> MAX_DEPTH \<Longrightarrow> evaluate_node rt ctx d (nested_pow n) = Inr (PInt (9 ^ (64 ^ n)))"
proof (induction n arbitrary: d)
  case 0
  then show ?case by simp
next
  case (Suc n)
  then have IH: "evaluate_node rt ctx (Suc d) (nested_pow n) = Inr (PInt (9 ^ (64 ^ n)))"
    by simp
  have "((9::int) ^ (64 ^ n)) ^ 64 = 9 ^ (64 ^ Suc n)"
    by (simp add: power_mult [symmetric] mult.commute)
  with IH Suc.prems show ?case
    by (simp add: exponent_ok_def MAX_EXPONENT_def py_pow_def)
qed

text \<open>
  The exponent limit does not bound the size of the computed integer. A left-nested power
  whose every exponent is 64 is accepted up to the depth limit and evaluates to 9 to the power
  of 64 to the power of the nesting, a number of about \<open>2 ^ 144\<close> digits at nesting 24.
\<close>

theorem evaluate_nested_pow_unbounded:
  assumes "rt_parse rt (strip s) = Inr (EExpression (nested_pow n))"
    and "n < MAX_DEPTH" and "length s \<le> MAX_LENGTH"
  shows "evaluate rt s ctx = Inr (PInt (9 ^ (64 ^ n)))"
  using assms evaluate_nested_pow [of "Suc 0" n rt ctx] by (simp add: evaluate_def)

section \<open>Which errors escape\<close>

fun no_escape :: "expr \<Rightarrow> bool" and all_no_escape :: "expr list \<Rightarrow> bool"
  and cmp_no_escape :: "(compare_op \<times> expr) list \<Rightarrow> bool" where
  \<comment> \<open>no sign operator, no power and no \<open>%\<close>\<close>
  "no_escape (EExpression e) = no_escape e"
| "no_escape (EConstant v) = True"
| "no_escape (EName n) = True"
| "no_escape (ESubscript c k) = (no_escape c \<and> no_escape k)"
| "no_escape (EBoolOp op es) = all_no_escape es"
| "no_escape (EUnaryOp op e) = (op \<noteq> USub_op \<and> op \<noteq> UAdd_op \<and> no_escape e)"
| "no_escape (EBinOp l op r) = (op \<noteq> Pow_op \<and> op \<noteq> Mod_op \<and> no_escape l \<and> no_escape r)"
| "no_escape (ECompare l cs) = (no_escape l \<and> cmp_no_escape cs)"
| "no_escape (EList es) = all_no_escape es"
| "no_escape (ETuple es) = all_no_escape es"
| "no_escape (EOther n) = True"
| "all_no_escape [] = True"
| "all_no_escape (e # es) = (no_escape e \<and> all_no_escape es)"
| "cmp_no_escape [] = True"
| "cmp_no_escape ((op, e) # cs) = (no_escape e \<and> cmp_no_escape cs)"

lemma num_op_exc: "num_op fi fr a b = Inl x \<Longrightarrow> x = Py_TypeError"
  by (auto simp: num_op_def split: option.splits)

lemma div_op_exc: "div_op fi fr a b = Inl x \<Longrightarrow> x = Py_TypeError \<or> x = Py_ZeroDivisionError"
  by (auto simp: div_op_def split: option.splits if_splits)

lemma py_add_exc: "py_add a b = Inl x \<Longrightarrow> x = Py_TypeError"
  by (induction a b rule: py_add.induct) (auto split: pyval.splits dest: num_op_exc)

lemma py_mul_exc: "py_mul a b = Inl x \<Longrightarrow> x = Py_TypeError"
  by (auto simp: py_mul_def split: option.splits dest: num_op_exc)

lemma binary_exc:
  assumes "binary rt op = Some f" "op \<noteq> Pow_op" "op \<noteq> Mod_op" "f a b = Inl x"
  shows "x = Py_TypeError \<or> x = Py_ZeroDivisionError"
  using assms by (cases op) (auto dest: num_op_exc div_op_exc py_add_exc py_mul_exc)

lemma catch_binary_expression_error:
  assumes "binary rt op = Some f" "op \<noteq> Pow_op" "op \<noteq> Mod_op" "catch_binary (f a b) = Inl x"
  shows "is_expression_error x"
proof (cases "f a b")
  case (Inl y)
  with binary_exc [OF assms(1-3) Inl] assms(4) show ?thesis by auto
next
  case (Inr v)
  with assms(4) show ?thesis by simp
qed

lemma unary_not_exc:
  "unary op = Some f \<Longrightarrow> op \<noteq> USub_op \<Longrightarrow> op \<noteq> UAdd_op \<Longrightarrow> f v \<noteq> Inl x"
  by (cases op) auto

lemma evaluate_errors_aux:
  "evaluate_node rt ctx d e = Inl x \<Longrightarrow> no_escape e \<Longrightarrow> is_expression_error x"
  "evaluate_all rt ctx d es = Inl x \<Longrightarrow> all_no_escape es \<Longrightarrow> is_expression_error x"
  "evaluate_compare rt ctx d left cs = Inl x \<Longrightarrow> cmp_no_escape cs \<Longrightarrow> is_expression_error x"
proof (induction rt ctx d e and rt ctx d es and rt ctx d left cs
    arbitrary: x and x and x
    rule: evaluate_node_evaluate_all_evaluate_compare.induct)
  case (6 rt ctx d op e)
  then show ?case
    by (auto split: if_splits sum.splits option.splits dest: unary_not_exc)
next
  case (7 rt ctx d l op r)
  then show ?case
    by (auto split: if_splits sum.splits option.splits dest: catch_binary_expression_error)
qed (auto split: if_splits sum.splits option.splits)

text \<open>
  Every error of an expression without sign operators, powers and \<open>%\<close> is an
  \<open>ExpressionError\<close>; no other exception leaves the walk.
\<close>

theorem evaluate_node_errors_are_expression_errors:
  assumes "no_escape e" and "evaluate_node rt ctx d e = Inl x"
  shows "is_expression_error x"
  using evaluate_errors_aux(1) [OF assms(2,1)] .

text \<open>
  The sign operators are not guarded: applied to a string they raise a plain
  \<open>TypeError\<close>, which is not an \<open>ExpressionError\<close>.
\<close>

theorem evaluate_unary_minus_string_escapes:
  "evaluate_node rt ctx 0 (EExpression (EUnaryOp USub_op (EConstant (PStr s))))
     = Inl (Uncaught Py_TypeError)"
  by (simp add: MAX_DEPTH_def num_op_def)

text \<open>An absent or blank condition holds.\<close>

lemma evaluate_condition_blank:
  "expression = None \<or> (\<exists>s. expression = Some s \<and> strip s = []) \<Longrightarrow>
     evaluate_condition rt expression ctx = Inr True"
  by (auto simp: evaluate_condition_def)

section \<open>Witnesses\<close>

definition sample_runtime :: py_runtime where
  \<comment> \<open>a parser that knows four strings\<close>
  "sample_runtime =
     \<lparr>rt_parse = (\<lambda>s.
        if s = ''n > 1'' then Inr (EExpression (ECompare (EName ''n'') [(Gt_op, EConstant (PInt 1))]))
        else if s = ''(9**64)**64'' then Inr (EExpression (nested_pow 2))
        else if s = ''items'' then Inr (EExpression (EName ''items''))
        else if s = ''fail'' then Inr (EExpression (EOther ''Call''))
        else Inl Py_SyntaxError),
      rt_format = (\<lambda>_ _. Inl Py_TypeError),
      rt_float_pow = (\<lambda>_ _. Inl Py_Other)\<rparr>"


theorem evaluate_pow_exponent_bounded_witness:
  "evaluate_node sample_runtime [] 0 (nested_pow 1) = Inr (PInt (9 ^ 64)) \<and>
   (\<exists>right q. evaluate_node sample_runtime [] 1 (EConstant (PInt 64)) = Inr right
      \<and> py_num right = Some q \<and> \<bar>q\<bar> \<le> 64)"
proof -
  have e: "evaluate_node sample_runtime [] 0 (EBinOp (nested_pow 0) Pow_op (EConstant (PInt 64)))
      = Inr (PInt (9 ^ 64))"
    using evaluate_nested_pow [of 0 1 sample_runtime "[]"] by (simp add: MAX_DEPTH_def)
  show ?thesis using e evaluate_pow_exponent_bounded [OF e] by simp
qed

theorem evaluate_nested_pow_unbounded_witness:
  "evaluate sample_runtime ''(9**64)**64'' [] = Inr (PInt (9 ^ (64 ^ 2)))"
proof (rule evaluate_nested_pow_unbounded)
  have "strip ''(9**64)**64'' = ''(9**64)**64''" by code_simp
  then show "rt_parse sample_runtime (strip ''(9**64)**64'') = Inr (EExpression (nested_pow 2))"
    by (simp add: sample_runtime_def)
qed (simp_all add: MAX_DEPTH_def MAX_LENGTH_def)

theorem evaluate_node_errors_are_expression_errors_witness:
  "evaluate_node sample_runtime [] 0 (EOther ''Call'') = Inl (UnsupportedElement ''Call'') \<and>
   is_expression_error (UnsupportedElement ''Call'')"
proof -
  have e: "evaluate_node sample_runtime [] 0 (EOther ''Call'') = Inl (UnsupportedElement ''Call'')"
    by (simp add: MAX_DEPTH_def)
  show ?thesis using e evaluate_node_errors_are_expression_errors [OF _ e] by simp
qed

end
