(* ===== verification/Workflow_Graph.thy ===== *)
theory Workflow_Graph
  imports Py_Value
begin

text \<open>
  \<^verbatim>\<open>WorkflowGraph\<close> of \<^verbatim>\<open>app/core/workflow/engine.py\<close>: construction with its two validity
  checks, and the grouping of the nodes into dependency levels. The theorems: the levels are a
  partition of the nodes, every edge leads from an earlier to a later level, and the cycle error
  is raised exactly when the edges are cyclic.
\<close>

record graph_node =
  gn_key :: string
  gn_type :: string
  gn_config :: pydict

record graph_edge =
  ge_source :: string
  ge_target :: string
  ge_condition :: "string option"

record workflow_graph =
  wg_nodes :: "(string, graph_node) dict"
  wg_edges :: "graph_edge list"

definition incoming :: "workflow_graph \<Rightarrow> string \<Rightarrow> graph_edge list" where
  "incoming g k = filter (\<lambda>e. ge_target e = k) (wg_edges g)"

definition outgoing :: "workflow_graph \<Rightarrow> string \<Rightarrow> graph_edge list" where
  "outgoing g k = filter (\<lambda>e. ge_source e = k) (wg_edges g)"

definition workflow_graph_init :: "graph_node list \<Rightarrow> graph_edge list \<Rightarrow> workflow_graph result" where
  "workflow_graph_init nodes edges =
     (let ns = fold (\<lambda>n d. dict_set (gn_key n) n d) nodes []
      in if length ns \<noteq> length nodes
         then raise WorkflowError ''Duplicate node keys in workflow graph.''
         else if list_ex (\<lambda>e. ge_source e \<notin> set (keys ns) \<or> ge_target e \<notin> set (keys ns)) edges
         then raise WorkflowError ''Edge references an unknown node.''
         else Inr \<lparr>wg_nodes = ns, wg_edges = edges\<rparr>)"

section \<open>Levels\<close>

definition indegree :: "workflow_graph \<Rightarrow> (string, int) dict" where
  "indegree g = map (\<lambda>k. (k, int (length (incoming g k)))) (keys (wg_nodes g))"

definition decrement :: "string \<Rightarrow> (string, int) dict \<Rightarrow> (string, int) dict" where
  \<comment> \<open>\<open>if target in remaining: remaining[target] -= 1\<close>\<close>
  "decrement t r = (case dict_get r t of None \<Rightarrow> r | Some d \<Rightarrow> dict_set t (d - 1) r)"

definition release :: "workflow_graph \<Rightarrow> string \<Rightarrow> (string, int) dict \<Rightarrow> (string, int) dict" where
  \<comment> \<open>delete a placed key and lower the count of each edge that leaves it\<close>
  "release g k r = fold (\<lambda>e. decrement (ge_target e)) (outgoing g k) (dict_pop k r)"

definition ready_keys :: "(string, int) dict \<Rightarrow> string list" where
  "ready_keys r = sort (map fst (filter (\<lambda>(k, d). d = 0) r))"

lemma keys_decrement [simp]: "keys (decrement t r) = keys r"
  by (auto simp: decrement_def split: option.split) (metis dict_get_in_keys keys_set_present)

lemma keys_decrement_fold [simp]: "keys (fold (\<lambda>e. decrement (f e)) es r) = keys r"
  by (induction es arbitrary: r) auto

lemma keys_release: "keys (release g k r) = filter (\<lambda>x. x \<noteq> k) (keys r)"
  by (auto simp: release_def delete_keys removeAll_filter_not_eq intro: filter_cong)

lemma length_release_le: "length (release g k r) \<le> length r"
  using arg_cong [OF keys_release [of g k r], of length]
  by (simp add: le_trans [OF length_filter_le])

lemma length_release_less:
  assumes "k \<in> set (keys r)"
  shows "length (release g k r) < length r"
proof -
  have "length (filter (\<lambda>x. x \<noteq> k) (keys r)) < length (keys r)"
    using assms by (intro length_filter_less) auto
  with arg_cong [OF keys_release [of g k r], of length] show ?thesis by simp
qed

lemma length_release_fold_le: "length (fold (release g) ks r) \<le> length r"
proof (induction ks arbitrary: r)
  case (Cons k ks)
  have "length (fold (release g) ks (release g k r)) \<le> length (release g k r)" by (rule Cons)
  also have "\<dots> \<le> length r" by (rule length_release_le)
  finally show ?case by simp
qed simp

lemma ready_keys_subset: "set (ready_keys r) \<subseteq> set (keys r)"
  by (auto simp: ready_keys_def)

lemma length_release_ready:
  assumes "ready_keys r \<noteq> []"
  shows "length (fold (release g) (ready_keys r) r) < length r"
proof (cases "ready_keys r")
  case (Cons k ks)
  then have "k \<in> set (keys r)" using ready_keys_subset [of r] by auto
  then have "length (release g k r) < length r" by (rule length_release_less)
  with length_release_fold_le [of g ks "release g k r"] Cons show ?thesis by simp
qed (use assms in simp)

function levels_loop :: "workflow_graph \<Rightarrow> (string, int) dict \<Rightarrow> string list list result" where
  "levels_loop g r =
     (if r = [] then Inr []
      else if ready_keys r = [] then raise WorkflowError ''Workflow graph contains a cycle.''
      else case levels_loop g (fold (release g) (ready_keys r) r) of
        Inl x \<Rightarrow> Inl x
      | Inr ls \<Rightarrow> Inr (ready_keys r # ls))"
  by pat_completeness auto
termination
  by (relation "measure (\<lambda>(g, r). length r)") (auto dest: length_release_ready)

declare levels_loop.simps [simp del]

definition levels :: "workflow_graph \<Rightarrow> graph_node list list result" where
  "levels g =
     (case levels_loop g (indegree g) of
        Inl x \<Rightarrow> Inl x
      | Inr ls \<Rightarrow>
          if length (concat ls) \<noteq> length (wg_nodes g)
          then raise WorkflowError ''Workflow graph contains a cycle.''
          else Inr (map (map (\<lambda>k. the (dict_get (wg_nodes g) k))) ls))"

section \<open>Well-formed graphs\<close>

definition nodes_keyed :: "(string, graph_node) dict \<Rightarrow> bool" where
  "nodes_keyed d \<longleftrightarrow> list_all (\<lambda>(k, n). gn_key n = k) d"

definition graph_ok :: "workflow_graph \<Rightarrow> bool" where
  "graph_ok g \<longleftrightarrow> dict_ok (wg_nodes g) \<and> nodes_keyed (wg_nodes g)
     \<and> (\<forall>e \<in> set (wg_edges g). ge_source e \<in> set (keys (wg_nodes g))
          \<and> ge_target e \<in> set (keys (wg_nodes g)))"

lemma nodes_keyed_set: "nodes_keyed d \<Longrightarrow> nodes_keyed (dict_set (gn_key n) n d)"
  by (induction d) (auto simp: nodes_keyed_def)

lemma nodes_keyed_get: "nodes_keyed d \<Longrightarrow> dict_get d k = Some n \<Longrightarrow> gn_key n = k"
  by (auto simp: nodes_keyed_def list_all_iff dest: map_of_SomeD)

lemma build_nodes_ok:
  "dict_ok d \<Longrightarrow> nodes_keyed d \<Longrightarrow>
   dict_ok (fold (\<lambda>n d. dict_set (gn_key n) n d) nodes d) \<and>
   nodes_keyed (fold (\<lambda>n d. dict_set (gn_key n) n d) nodes d)"
  by (induction nodes arbitrary: d) (auto simp: nodes_keyed_set)

lemma nodes_keyed_Nil [simp]: "nodes_keyed []"
  by (simp add: nodes_keyed_def)

lemma workflow_graph_init_ok:
  assumes "workflow_graph_init nodes edges = Inr g"
  shows "graph_ok g"
  using assms build_nodes_ok [of "[]" nodes]
  by (auto simp: workflow_graph_init_def graph_ok_def list_ex_iff Let_def split: if_splits)

lemma set_keys_build:
  "fst ` set (fold (\<lambda>n d. dict_set (gn_key n) n d) nodes d) = gn_key ` set nodes \<union> fst ` set d"
  by (induction nodes arbitrary: d) simp_all

text \<open>
  Construction succeeds exactly on lists of nodes with distinct keys whose edges join
  nodes of the list.
\<close>

theorem workflow_graph_init_succeeds_iff:
  "(\<exists>g. workflow_graph_init nodes edges = Inr g) \<longleftrightarrow>
     distinct (map gn_key nodes) \<and>
     ge_source ` set edges \<union> ge_target ` set edges \<subseteq> gn_key ` set nodes"
proof -
  let ?d = "fold (\<lambda>n d. dict_set (gn_key n) n d) nodes []"
  have "distinct (keys ?d)" using build_nodes_ok [of "[]" nodes] by (simp add: dict_ok_def)
  then have "length ?d = card (set (keys ?d))" using distinct_card [of "keys ?d"] by simp
  then have len: "length ?d = card (set (map gn_key nodes))"
    using set_keys_build [of nodes "[]"] by simp
  have "length ?d = length nodes \<longleftrightarrow> distinct (map gn_key nodes)"
    by (metis len card_distinct distinct_card length_map)
  moreover have ks: "fst ` set ?d = gn_key ` set nodes"
    using set_keys_build [of nodes "[]"] by simp
  ultimately show ?thesis
    by (auto simp: workflow_graph_init_def Let_def list_ex_iff ks)
qed

section \<open>The loop invariant\<close>

definition edges_into :: "workflow_graph \<Rightarrow> string set \<Rightarrow> string \<Rightarrow> nat" where
  "edges_into g R k =
     length (filter (\<lambda>e. ge_target e = k \<and> ge_source e \<in> R) (wg_edges g))"

definition remaining_ok :: "workflow_graph \<Rightarrow> (string, int) dict \<Rightarrow> bool" where
  \<comment> \<open>the count of a remaining key is the number of edges into it from remaining keys\<close>
  "remaining_ok g r \<longleftrightarrow> dict_ok r \<and>
     (\<forall>k d. dict_get r k = Some d \<longrightarrow> d = int (edges_into g (set (keys r)) k))"

lemma dict_get_decrement:
  "dict_get (decrement t r) k = (if k = t then map_option (\<lambda>d. d - 1) else id) (dict_get r k)"
  by (auto simp: decrement_def split: option.split)

lemma dict_get_decrement_fold:
  "dict_get (fold (\<lambda>e. decrement (ge_target e)) es r) k =
     map_option (\<lambda>d. d - int (length (filter (\<lambda>e. ge_target e = k) es))) (dict_get r k)"
proof (induction es arbitrary: r)
  case Nil
  show ?case by (cases "dict_get r k") simp_all
next
  case (Cons e es)
  show ?case by (cases "dict_get r k") (simp_all add: Cons dict_get_decrement)
qed

lemma dict_get_release:
  "dict_get (release g k r) j =
     (if j = k then None
      else map_option (\<lambda>d. d - int (length (filter (\<lambda>e. ge_target e = j) (outgoing g k))))
             (dict_get r j))"
  by (simp add: release_def dict_get_decrement_fold)

lemma length_filter_split:
  "length (filter P xs) = length (filter (\<lambda>x. P x \<and> Q x) xs) + length (filter (\<lambda>x. P x \<and> \<not> Q x) xs)"
  by (induction xs) auto

lemma edges_into_remove:
  assumes "k \<in> R"
  shows "edges_into g R j =
     edges_into g (R - {k}) j + length (filter (\<lambda>e. ge_target e = j) (outgoing g k))"
proof -
  have "filter (\<lambda>e. (ge_target e = j \<and> ge_source e \<in> R) \<and> \<not> ge_source e \<noteq> k) (wg_edges g)
      = filter (\<lambda>e. ge_target e = j) (outgoing g k)"
    using assms by (auto simp: outgoing_def intro!: filter_cong)
  moreover have "filter (\<lambda>e. (ge_target e = j \<and> ge_source e \<in> R) \<and> ge_source e \<noteq> k) (wg_edges g)
      = filter (\<lambda>e. ge_target e = j \<and> ge_source e \<in> R - {k}) (wg_edges g)"
    by (auto intro!: filter_cong)
  ultimately show ?thesis
    using length_filter_split [where P = "\<lambda>e. ge_target e = j \<and> ge_source e \<in> R"
        and Q = "\<lambda>e. ge_source e \<noteq> k" and xs = "wg_edges g"]
    by (simp only: edges_into_def)
qed

lemma remaining_ok_release:
  assumes "remaining_ok g r" and "k \<in> set (keys r)"
  shows "remaining_ok g (release g k r)"
proof -
  have ks: "set (keys (release g k r)) = set (keys r) - {k}" by (auto simp: keys_release)
  have "dict_ok (release g k r)"
    using assms(1) by (simp add: dict_ok_def keys_release remaining_ok_def)
  moreover have "d = int (edges_into g (set (keys r) - {k}) j)"
    if "dict_get (release g k r) j = Some d" for j d
  proof -
    from that obtain c where "dict_get r j = Some c"
      and d: "d = c - int (length (filter (\<lambda>e. ge_target e = j) (outgoing g k)))"
      by (auto simp: dict_get_release split: if_splits)
    then have "c = int (edges_into g (set (keys r)) j)" using assms(1) by (simp add: remaining_ok_def)
    with d show ?thesis using edges_into_remove [OF assms(2), of g j] by simp
  qed
  ultimately show ?thesis by (simp only: remaining_ok_def ks) simp
qed

lemma release_fold_ok:
  assumes "remaining_ok g r" and "set ks \<subseteq> set (keys r)" and "distinct ks"
  shows "remaining_ok g (fold (release g) ks r) \<and>
         set (keys (fold (release g) ks r)) = set (keys r) - set ks"
  using assms
proof (induction ks arbitrary: r)
  case Nil
  then show ?case by simp
next
  case (Cons k ks)
  have ks: "set (keys (release g k r)) = set (keys r) - {k}" by (auto simp: keys_release)
  have "remaining_ok g (release g k r)" using Cons.prems by (intro remaining_ok_release) auto
  moreover have "set ks \<subseteq> set (keys (release g k r))" using Cons.prems ks by auto
  ultimately show ?case using Cons.IH [of "release g k r"] Cons.prems ks by auto
qed

lemma ready_keys_iff:
  "remaining_ok g r \<Longrightarrow>
   k \<in> set (ready_keys r) \<longleftrightarrow> k \<in> set (keys r) \<and> edges_into g (set (keys r)) k = 0"
  by (force simp: ready_keys_def remaining_ok_def dict_ok_def)

lemma distinct_ready_keys: "dict_ok r \<Longrightarrow> distinct (ready_keys r)"
  by (auto simp: ready_keys_def dict_ok_def distinct_map intro: inj_on_subset)

lemma ready_release_ok:
  assumes "remaining_ok g r"
  shows "remaining_ok g (fold (release g) (ready_keys r) r)"
    and "set (keys (fold (release g) (ready_keys r) r)) = set (keys r) - set (ready_keys r)"
  using release_fold_ok [OF assms ready_keys_subset] assms distinct_ready_keys
  by (auto simp: remaining_ok_def)

lemma indegree_ok: "graph_ok g \<Longrightarrow> remaining_ok g (indegree g)"
proof -
  assume ok: "graph_ok g"
  have k: "keys (indegree g) = keys (wg_nodes g)" by (simp add: indegree_def comp_def)
  have "incoming g k = filter (\<lambda>e. ge_target e = k \<and> ge_source e \<in> set (keys (wg_nodes g)))
          (wg_edges g)" for k
    using ok by (auto simp: incoming_def graph_ok_def intro!: filter_cong)
  then have "dict_get (indegree g) k = Some d \<Longrightarrow>
       d = int (edges_into g (set (keys (wg_nodes g))) k)" for k d
    by (auto simp: indegree_def edges_into_def dest!: map_of_SomeD)
  then show ?thesis using ok by (simp add: remaining_ok_def dict_ok_def graph_ok_def k)
qed

section \<open>What the loop returns\<close>

definition placed_before :: "workflow_graph \<Rightarrow> string set \<Rightarrow> string list list \<Rightarrow> bool" where
  \<comment> \<open>an edge between nodes of \<open>R\<close> comes from an earlier level than the one it leads to\<close>
  "placed_before g R ls \<longleftrightarrow>
     (\<forall>i < length ls. \<forall>e \<in> set (wg_edges g).
        ge_target e \<in> set (ls ! i) \<longrightarrow> ge_source e \<in> R \<longrightarrow>
          (\<exists>j < i. ge_source e \<in> set (ls ! j)))"

lemma placed_beforeD:
  "placed_before g R ls \<Longrightarrow> i < length ls \<Longrightarrow> e \<in> set (wg_edges g) \<Longrightarrow>
   ge_target e \<in> set (ls ! i) \<Longrightarrow> ge_source e \<in> R \<Longrightarrow> \<exists>j < i. ge_source e \<in> set (ls ! j)"
  by (simp add: placed_before_def)

lemma edges_into_zero:
  "edges_into g R k = 0 \<longleftrightarrow> (\<forall>e \<in> set (wg_edges g). ge_target e = k \<longrightarrow> ge_source e \<notin> R)"
  by (auto simp: edges_into_def filter_empty_conv)

lemma levels_loop_partition:
  assumes "remaining_ok g r" and "levels_loop g r = Inr ls"
  shows "distinct (concat ls) \<and> set (concat ls) = set (keys r)"
  using assms
proof (induction g r arbitrary: ls rule: levels_loop.induct)
  case (1 g r)
  show ?case
  proof (cases "r = []")
    case True
    with "1.prems" show ?thesis by (simp add: levels_loop.simps [of g "[]"])
  next
    case False
    let ?r = "fold (release g) (ready_keys r) r"
    from False "1.prems"(2) obtain ls' where ne: "ready_keys r \<noteq> []"
      and rec: "levels_loop g ?r = Inr ls'" and ls: "ls = ready_keys r # ls'"
      by (auto simp: levels_loop.simps [of g r] split: if_splits sum.splits)
    have "distinct (concat ls') \<and> set (concat ls') = set (keys ?r)"
      using "1.IH" [OF False ne ready_release_ok(1) [OF "1.prems"(1)] rec] .
    with ls show ?thesis
      using ready_release_ok(2) [OF "1.prems"(1)] ready_keys_subset [of r] "1.prems"(1)
        distinct_ready_keys [of r]
      by (auto simp: remaining_ok_def)
  qed
qed

lemma levels_loop_placed:
  assumes "remaining_ok g r" and "levels_loop g r = Inr ls"
  shows "placed_before g (set (keys r)) ls"
  using assms
proof (induction g r arbitrary: ls rule: levels_loop.induct)
  case (1 g r)
  show ?case
  proof (cases "r = []")
    case True
    with "1.prems" show ?thesis by (simp add: levels_loop.simps [of g "[]"] placed_before_def)
  next
    case False
    let ?r = "fold (release g) (ready_keys r) r"
    from False "1.prems"(2) obtain ls' where ne: "ready_keys r \<noteq> []"
      and rec: "levels_loop g ?r = Inr ls'" and ls: "ls = ready_keys r # ls'"
      by (auto simp: levels_loop.simps [of g r] split: if_splits sum.splits)
    have IH: "placed_before g (set (keys r) - set (ready_keys r)) ls'"
      using "1.IH" [OF False ne ready_release_ok(1) [OF "1.prems"(1)] rec]
        ready_release_ok(2) [OF "1.prems"(1)] by simp
    have "\<exists>j<i. ge_source e \<in> set (ls ! j)"
      if i: "i < length ls" and e: "e \<in> set (wg_edges g)" and t: "ge_target e \<in> set (ls ! i)"
        and s: "ge_source e \<in> set (keys r)" for i e
    proof (cases i)
      case 0
      with t ls have "edges_into g (set (keys r)) (ge_target e) = 0"
        using ready_keys_iff [OF "1.prems"(1)] by simp
      with e s show ?thesis by (auto simp: edges_into_zero)
    next
      case (Suc i')
      show ?thesis
      proof (cases "ge_source e \<in> set (ready_keys r)")
        case True
        with Suc ls show ?thesis by (intro exI [of _ 0]) simp
      next
        case False
        with IH i e t s Suc ls obtain j where "j < i'" "ge_source e \<in> set (ls' ! j)"
          by (auto simp: placed_before_def)
        with Suc ls show ?thesis by (intro exI [of _ "Suc j"]) simp
      qed
    qed
    then show ?thesis by (simp add: placed_before_def)
  qed
qed

lemma levels_loop_error:
  assumes "remaining_ok g r" and "levels_loop g r = Inl x"
  shows "\<exists>R \<subseteq> set (keys r). R \<noteq> {} \<and>
    (\<forall>k \<in> R. \<exists>e \<in> set (wg_edges g). ge_target e = k \<and> ge_source e \<in> R)"
  using assms
proof (induction g r rule: levels_loop.induct)
  case (1 g r)
  show ?case
  proof (cases "ready_keys r = []")
    case True
    have "r \<noteq> []" using "1.prems"(2) by (auto simp: levels_loop.simps [of g r])
    moreover have "\<forall>k \<in> set (keys r). edges_into g (set (keys r)) k \<noteq> 0"
      using True ready_keys_iff [OF "1.prems"(1)] by auto
    ultimately show ?thesis
      by (intro exI [of _ "set (keys r)"]) (auto simp: edges_into_zero)
  next
    case False
    have ne: "r \<noteq> []" using False by (auto simp: ready_keys_def)
    with False "1.prems"(2) have "levels_loop g (fold (release g) (ready_keys r) r) = Inl x"
      by (auto simp: levels_loop.simps [of g r] split: sum.splits)
    from "1.IH" [OF ne False ready_release_ok(1) [OF "1.prems"(1)] this]
    obtain R where R: "R \<subseteq> set (keys r) - set (ready_keys r)" "R \<noteq> {}"
      "\<forall>k \<in> R. \<exists>e \<in> set (wg_edges g). ge_target e = k \<and> ge_source e \<in> R"
      unfolding ready_release_ok(2) [OF "1.prems"(1)] by (elim exE conjE)
    then have "R \<subseteq> set (keys r)" by blast
    with R(2,3) show ?thesis by (intro exI conjI)
  qed
qed

section \<open>Correctness of \<open>levels\<close>\<close>

definition edge_rel :: "workflow_graph \<Rightarrow> (string \<times> string) set" where
  "edge_rel g = (\<lambda>e. (ge_source e, ge_target e)) ` set (wg_edges g)"

lemma map_the_dict_get:
  assumes "distinct (keys d)"
  shows "map (\<lambda>k. the (dict_get d k)) (keys d) = map snd d"
  using assms by (auto simp: map_of_eq_Some_iff intro!: map_cong)

lemma levels_loop_error_value:
  "levels_loop g r = Inl x \<Longrightarrow>
     x = app_error_init WorkflowError (Some ''Workflow graph contains a cycle.'')"
proof (induction g r rule: levels_loop.induct)
  case (1 g r)
  then show ?case by (subst (asm) (2) levels_loop.simps) (auto split: if_splits sum.splits)
qed

lemma levels_cases:
  assumes "graph_ok g"
  obtains (ok) ls where "levels_loop g (indegree g) = Inr ls" "distinct (concat ls)"
      "set (concat ls) = set (keys (wg_nodes g))" "placed_before g (set (keys (wg_nodes g))) ls"
      "levels g = Inr (map (map (\<lambda>k. the (dict_get (wg_nodes g) k))) ls)"
  | (cycle) R where "levels g = raise WorkflowError ''Workflow graph contains a cycle.''"
      "R \<noteq> {}" "\<forall>k \<in> R. \<exists>e \<in> set (wg_edges g). ge_target e = k \<and> ge_source e \<in> R"
proof (cases "levels_loop g (indegree g)")
  case (Inl x)
  then have "x = app_error_init WorkflowError (Some ''Workflow graph contains a cycle.'')"
    by (rule levels_loop_error_value)
  with Inl have "levels g = raise WorkflowError ''Workflow graph contains a cycle.''"
    by (simp add: levels_def)
  with levels_loop_error [OF indegree_ok [OF assms] Inl] cycle show ?thesis by blast
next
  case (Inr ls)
  have ks: "keys (indegree g) = keys (wg_nodes g)" by (simp add: indegree_def comp_def)
  note part = levels_loop_partition [OF indegree_ok [OF assms] Inr, unfolded ks]
  have "length (concat ls) = card (set (concat ls))"
    using part distinct_card [of "concat ls"] by simp
  also have "\<dots> = length (wg_nodes g)"
    using part assms distinct_card [of "keys (wg_nodes g)"] by (simp add: graph_ok_def dict_ok_def)
  finally have "levels g = Inr (map (map (\<lambda>k. the (dict_get (wg_nodes g) k))) ls)"
    using Inr by (simp add: levels_def)
  with ok Inr part levels_loop_placed [OF indegree_ok [OF assms] Inr, unfolded ks] show ?thesis
    by blast
qed

lemma placed_before_acyclic:
  assumes "graph_ok g" "distinct (concat ls)" "set (concat ls) = set (keys (wg_nodes g))"
    and "placed_before g (set (keys (wg_nodes g))) ls"
  shows "acyclic (edge_rel g)"
proof -
  let ?rank = "\<lambda>k. LEAST i. i < length ls \<and> k \<in> set (ls ! i)"
  have "?rank (ge_source e) < ?rank (ge_target e)" if e: "e \<in> set (wg_edges g)" for e
  proof -
    have "ge_target e \<in> set (concat ls)" and s: "ge_source e \<in> set (keys (wg_nodes g))"
      using assms(1,3) e by (auto simp: graph_ok_def)
    then have "\<exists>i. i < length ls \<and> ge_target e \<in> set (ls ! i)"
      by (simp add: set_conv_nth [of ls]) blast
    then have "?rank (ge_target e) < length ls \<and> ge_target e \<in> set (ls ! ?rank (ge_target e))"
      by (rule LeastI_ex)
    with assms(4) e s obtain j where "j < ?rank (ge_target e)" "ge_source e \<in> set (ls ! j)"
      "j < length ls"
      by (auto simp: placed_before_def)
    moreover from this have "?rank (ge_source e) \<le> j" by (intro Least_le) simp
    ultimately show ?thesis by simp
  qed
  then have "edge_rel g \<subseteq> measure ?rank" by (auto simp: edge_rel_def)
  then show ?thesis using acyclic_subset [OF wf_acyclic [OF wf_measure]] by blast
qed

lemma no_source_cyclic:
  assumes "R \<noteq> {}" and "\<forall>k \<in> R. \<exists>e \<in> set (wg_edges g). ge_target e = k \<and> ge_source e \<in> R"
  shows "\<not> acyclic (edge_rel g)"
proof
  assume "acyclic (edge_rel g)"
  then have "wf (edge_rel g)" by (intro finite_acyclic_wf) (simp_all add: edge_rel_def)
  with assms(1) obtain k where "k \<in> R" "\<And>j. (j, k) \<in> edge_rel g \<Longrightarrow> j \<notin> R"
    using wfE_min by (metis ex_in_conv)
  with assms(2) show False by (force simp: edge_rel_def)
qed

text \<open>
  C3: on a well-formed graph, \<open>levels\<close> raises its cycle error exactly when the edge relation
  is cyclic, and returns the levels otherwise.
\<close>

theorem levels_succeeds_iff_acyclic:
  assumes "graph_ok g"
  shows "(\<exists>ls. levels g = Inr ls) \<longleftrightarrow> acyclic (edge_rel g)"
  using assms
proof (cases rule: levels_cases)
  case (ok ls)
  with placed_before_acyclic [OF assms ok(2-4)] show ?thesis by simp
next
  case (cycle R)
  with no_source_cyclic [OF cycle(2,3)] show ?thesis by simp
qed

lemma levels_sound:
  assumes "graph_ok g" and "levels g = Inr ls"
  shows "mset (concat ls) = mset (map snd (wg_nodes g)) \<and>
    (\<forall>e \<in> set (wg_edges g). \<forall>i < length ls. ge_target e \<in> gn_key ` set (ls ! i) \<longrightarrow>
       (\<exists>j < i. ge_source e \<in> gn_key ` set (ls ! j)))"
  using assms(1)
proof (cases rule: levels_cases)
  case (cycle R)
  with assms(2) show ?thesis by simp
next
  case (ok ks)
  let ?n = "\<lambda>k. the (dict_get (wg_nodes g) k)"
  from ok(5) assms(2) have ls: "ls = map (map ?n) ks" by simp
  have key: "gn_key (?n k) = k" if "k \<in> set (keys (wg_nodes g))" for k
  proof -
    from that obtain n where "dict_get (wg_nodes g) k = Some n"
      using dict_get_None_iff [of "wg_nodes g" k] by (cases "dict_get (wg_nodes g) k") auto
    with nodes_keyed_get assms(1) show ?thesis by (auto simp: graph_ok_def)
  qed
  have keyk: "gn_key ` ?n ` set (ks ! i) = set (ks ! i)" if "i < length ks" for i
  proof -
    have "set (ks ! i) \<subseteq> set (keys (wg_nodes g))" using that ok(3) nth_mem [OF that] by auto
    then show ?thesis using key by (force simp: image_image)
  qed
  have dk: "distinct (keys (wg_nodes g))" using assms(1) by (simp add: graph_ok_def dict_ok_def)
  have "mset (concat ks) = mset (keys (wg_nodes g))"
    by (rule set_eq_iff_mset_eq_distinct [THEN iffD1, OF ok(2) dk ok(3)])
  then have "mset (map ?n (concat ks)) = mset (map ?n (keys (wg_nodes g)))"
    by (simp only: mset_map)
  also have "map ?n (keys (wg_nodes g)) = map snd (wg_nodes g)"
    using dk by (rule map_the_dict_get)
  finally have "mset (concat ls) = mset (map snd (wg_nodes g))"
    by (simp only: ls map_concat)
  moreover have "\<exists>j<i. ge_source e \<in> gn_key ` set (ls ! j)"
    if e: "e \<in> set (wg_edges g)" and i: "i < length ls"
      and t: "ge_target e \<in> gn_key ` set (ls ! i)" for e i
  proof -
    have src: "ge_source e \<in> set (keys (wg_nodes g))"
      using assms(1) e by (simp add: graph_ok_def)
    have tgt: "ge_target e \<in> set (ks ! i)" "i < length ks"
      using i t keyk [of i] by (simp_all add: ls)
    obtain j where j: "j < i" "ge_source e \<in> set (ks ! j)"
      using placed_beforeD [OF ok(4) tgt(2) e tgt(1) src] by (elim exE conjE)
    moreover have "gn_key ` set (ls ! j) = set (ks ! j)"
      using keyk [of j] j(1) i by (simp add: ls)
    ultimately show ?thesis by auto
  qed
  ultimately show ?thesis by blast
qed

text \<open>
  C2: the levels of a well-formed graph hold every node exactly once, and an edge always leads
  from a level to a strictly later one, so the nodes of one level are independent.
\<close>

theorem levels_partition_and_order:
  assumes "graph_ok g" and "levels g = Inr ls"
  shows "mset (concat ls) = mset (map snd (wg_nodes g)) \<and>
    (\<forall>e \<in> set (wg_edges g). \<forall>i < length ls. ge_target e \<in> gn_key ` set (ls ! i) \<longrightarrow>
       (\<exists>j < i. ge_source e \<in> gn_key ` set (ls ! j)))"
  using levels_sound [OF assms] .

section \<open>Witnesses\<close>

definition sample_nodes :: "graph_node list" where
  "sample_nodes =
     [\<lparr>gn_key = ''b'', gn_type = ''task'', gn_config = []\<rparr>,
      \<lparr>gn_key = ''a'', gn_type = ''task'', gn_config = []\<rparr>]"

definition sample_edges :: "graph_edge list" where
  "sample_edges = [\<lparr>ge_source = ''a'', ge_target = ''b'', ge_condition = Some ''n > 1''\<rparr>]"

definition sample_graph :: workflow_graph where
  "sample_graph =
     \<lparr>wg_nodes = map (\<lambda>n. (gn_key n, n)) sample_nodes, wg_edges = sample_edges\<rparr>"

lemma sample_graph_init: "workflow_graph_init sample_nodes sample_edges = Inr sample_graph"
  by (simp add: workflow_graph_init_def sample_nodes_def sample_edges_def sample_graph_def)

lemma sample_graph_levels: "levels sample_graph = Inr [[sample_nodes ! 1], [sample_nodes ! 0]]"
  by code_simp

theorem levels_succeeds_iff_acyclic_witness:
  "graph_ok sample_graph \<and> acyclic (edge_rel sample_graph)"
proof -
  have ok: "graph_ok sample_graph" by (rule workflow_graph_init_ok [OF sample_graph_init])
  show ?thesis using ok levels_succeeds_iff_acyclic [OF ok] sample_graph_levels by blast
qed

theorem levels_partition_and_order_witness:
  "mset (concat [[sample_nodes ! 1], [sample_nodes ! 0]]) = mset (map snd (wg_nodes sample_graph))"
proof -
  have ok: "graph_ok sample_graph" by (rule workflow_graph_init_ok [OF sample_graph_init])
  show ?thesis using levels_partition_and_order [OF ok sample_graph_levels] by blast
qed

end
