(* ===== verification/Workflow_Engine.thy ===== *)
theory Workflow_Engine
  imports Workflow_Expr Workflow_Graph
begin

text \<open>
  \<^verbatim>\<open>WorkflowEngine\<close> of \<^verbatim>\<open>app/core/workflow/engine.py\<close>: handler lookup, the decision whether a
  node runs, loop nodes, and the level by level run with its instruments. A node handler is
  registered by the host: it is an argument here, a function of the node and of the context it is
  given that returns the output or the text of the exception it raised. Handlers do not write to
  the context they are given. The concurrent execution of one level by \<^verbatim>\<open>asyncio.gather\<close> is then
  the evaluation of every runnable node in the context of the level's start.
\<close>

datatype node_run_status = NR_PENDING | NR_RUNNING | NR_SUCCEEDED | NR_FAILED | NR_SKIPPED

datatype node_exc =
    HandlerRaised string
  | LoopNeedsOver string
  | LoopExpectedList string string
  | LoopTooLong string
  | LoopExpression expr_exc

record node_outcome =
  no_key :: string
  no_type :: string
  no_status :: node_run_status
  no_iteration :: nat
  no_output :: pyval
  no_error :: "node_exc option"
  no_skip_reason :: "string option"

type_synonym node_handler = "graph_node \<Rightarrow> pydict \<Rightarrow> string + pyval"
type_synonym engine = "(string, node_handler) dict"

definition MAX_LOOP_ITERATIONS :: nat where "MAX_LOOP_ITERATIONS = 1000"

definition default_handler :: node_handler where
  "default_handler n ctx =
     Inr (PDict [(''node'', PStr (gn_key n)), (''type'', PStr (gn_type n))])"

definition register :: "string \<Rightarrow> node_handler \<Rightarrow> engine \<Rightarrow> engine" where
  "register node_type handler eng = dict_set node_type handler eng"

definition handler_for :: "engine \<Rightarrow> graph_node \<Rightarrow> node_handler" where
  "handler_for eng n =
     (case dict_get eng (gn_type n) of None \<Rightarrow> default_handler | Some h \<Rightarrow> h)"

section \<open>Which nodes run\<close>

fun reach_edges ::
  "py_runtime \<Rightarrow> pydict \<Rightarrow> string list \<Rightarrow> string \<Rightarrow> graph_edge list \<Rightarrow> string list
   \<Rightarrow> expr_exc + bool \<times> string option" where
  "reach_edges rt ctx skipped key [] unmet = Inr (False, Some (join ''; '' unmet))"
| "reach_edges rt ctx skipped key (e # es) unmet =
     (if ge_source e \<in> set skipped
      then reach_edges rt ctx skipped key es (unmet @ [ge_source e @ '' was skipped''])
      else case evaluate_condition rt (ge_condition e) ctx of
        Inl x \<Rightarrow> Inl x
      | Inr b \<Rightarrow>
          if b then Inr (True, None)
          else reach_edges rt ctx skipped key es
                 (unmet @ [ge_source e @ '' -> '' @ key @ '' condition was false'']))"

definition is_reachable ::
  "py_runtime \<Rightarrow> workflow_graph \<Rightarrow> graph_node \<Rightarrow> pydict \<Rightarrow> string list
   \<Rightarrow> expr_exc + bool \<times> string option" where
  "is_reachable rt g n ctx skipped =
     (if incoming g (gn_key n) = [] then Inr (True, None)
      else reach_edges rt ctx skipped (gn_key n) (incoming g (gn_key n)) [])"

section \<open>Running one node\<close>

definition succeeded :: "graph_node \<Rightarrow> nat \<Rightarrow> pyval \<Rightarrow> node_outcome" where
  "succeeded n i out =
     \<lparr>no_key = gn_key n, no_type = gn_type n, no_status = NR_SUCCEEDED, no_iteration = i,
      no_output = out, no_error = None, no_skip_reason = None\<rparr>"

fun loop_passes ::
  "node_handler \<Rightarrow> graph_node \<Rightarrow> pydict \<Rightarrow> nat \<Rightarrow> pyval list \<Rightarrow> string + pyval list" where
  \<comment> \<open>the outputs of the passes, or the exception of the first pass that raises\<close>
  "loop_passes h n ctx i [] = Inr []"
| "loop_passes h n ctx i (item # items) =
     (case h n (dict_set ''index'' (PInt (int i)) (dict_set ''item'' item ctx)) of
        Inl x \<Rightarrow> Inl x
      | Inr out \<Rightarrow>
          (case loop_passes h n ctx (Suc i) items of
             Inl x \<Rightarrow> Inl x
           | Inr outs \<Rightarrow> Inr (out # outs)))"

definition loop_outcomes :: "graph_node \<Rightarrow> pyval list \<Rightarrow> node_outcome list" where
  \<comment> \<open>one outcome per pass; the last one's output is the list of all outputs\<close>
  "loop_outcomes n outs =
     (if outs = [] then [succeeded n 0 (PList [])]
      else map (\<lambda>i. succeeded n i (if Suc i = length outs then PList outs else outs ! i))
             [0..<length outs])"

definition run_loop ::
  "py_runtime \<Rightarrow> engine \<Rightarrow> graph_node \<Rightarrow> pydict \<Rightarrow> node_exc + node_outcome list" where
  "run_loop rt eng n ctx =
     (case dict_get (gn_config n) ''over'' of
        Some (PStr source) \<Rightarrow>
          if strip source = [] then Inl (LoopNeedsOver (gn_key n))
          else (case evaluate rt source ctx of
            Inl x \<Rightarrow> Inl (LoopExpression x)
          | Inr v \<Rightarrow>
              (case (case v of PNone \<Rightarrow> Some [] | PList xs \<Rightarrow> Some xs | PTuple xs \<Rightarrow> Some xs
                     | _ \<Rightarrow> None) of
                 None \<Rightarrow> Inl (LoopExpectedList (gn_key n) (type_name v))
               | Some xs \<Rightarrow>
                   if length xs > MAX_LOOP_ITERATIONS then Inl (LoopTooLong (gn_key n))
                   else (case loop_passes (handler_for eng n) n ctx 0 xs of
                           Inl x \<Rightarrow> Inl (HandlerRaised x)
                         | Inr outs \<Rightarrow> Inr (loop_outcomes n outs))))
      | _ \<Rightarrow> Inl (LoopNeedsOver (gn_key n)))"

definition run_node ::
  "py_runtime \<Rightarrow> engine \<Rightarrow> graph_node \<Rightarrow> pydict \<Rightarrow> node_exc + node_outcome list" where
  "run_node rt eng n ctx =
     (if gn_type n = ''loop'' then run_loop rt eng n ctx
      else case handler_for eng n n ctx of
        Inl x \<Rightarrow> Inl (HandlerRaised x)
      | Inr out \<Rightarrow> Inr [succeeded n 0 out])"

section \<open>Running the levels\<close>

record run_state =
  rs_context :: pydict
  rs_outcomes :: "node_outcome list"
  rs_skipped :: "string list"
  rs_metrics :: "metric_event list"

text \<open>
  What ends a run early: a graph error, a condition that raises, or the first failing node of a
  level, whose exception carries the outcomes collected so far in its details.
\<close>

datatype run_exc =
    GraphError app_error
  | ConditionExc expr_exc
  | NodeFailed string node_exc "node_outcome list"

definition node_metric :: "graph_node \<Rightarrow> string \<Rightarrow> metric_event" where
  "node_metric n outcome = (MInc, ''workflow_nodes_total'', [gn_type n, outcome], 1)"

definition mark_skipped :: "graph_node \<Rightarrow> string option \<Rightarrow> run_state \<Rightarrow> run_state" where
  "mark_skipped n reason st =
     st\<lparr>rs_skipped := rs_skipped st @ [gn_key n],
        rs_metrics := rs_metrics st @ [node_metric n ''skipped''],
        rs_outcomes := rs_outcomes st @
          [\<lparr>no_key = gn_key n, no_type = gn_type n, no_status = NR_SKIPPED, no_iteration = 0,
            no_output = PNone, no_error = None, no_skip_reason = reason\<rparr>]\<rparr>"

fun split_level ::
  "py_runtime \<Rightarrow> workflow_graph \<Rightarrow> graph_node list \<Rightarrow> run_state
   \<Rightarrow> run_state \<times> (run_exc + graph_node list)" where
  "split_level rt g [] st = (st, Inr [])"
| "split_level rt g (n # ns) st =
     (case is_reachable rt g n (rs_context st) (rs_skipped st) of
        Inl x \<Rightarrow> (st, Inl (ConditionExc x))
      | Inr (ok, reason) \<Rightarrow>
          if ok
          then (case split_level rt g ns st of
                  (st', Inl x) \<Rightarrow> (st', Inl x)
                | (st', Inr rs) \<Rightarrow> (st', Inr (n # rs)))
          else split_level rt g ns (mark_skipped n reason st))"

definition record_failure :: "graph_node \<Rightarrow> node_exc \<Rightarrow> run_state \<Rightarrow> run_state" where
  "record_failure n x st =
     st\<lparr>rs_metrics := rs_metrics st @ [node_metric n ''failed''],
        rs_outcomes := rs_outcomes st @
          [\<lparr>no_key = gn_key n, no_type = gn_type n, no_status = NR_FAILED, no_iteration = 0,
            no_output = PNone, no_error = Some x, no_skip_reason = None\<rparr>]\<rparr>"

definition record_success :: "graph_node \<Rightarrow> node_outcome list \<Rightarrow> run_state \<Rightarrow> run_state" where
  "record_success n os st =
     st\<lparr>rs_metrics := rs_metrics st @ [node_metric n ''succeeded''],
        rs_outcomes := rs_outcomes st @ os,
        rs_context := dict_set (gn_key n) (if os = [] then PNone else no_output (last os))
                        (rs_context st)\<rparr>"

fun collect ::
  "(graph_node \<times> (node_exc + node_outcome list)) list \<Rightarrow> run_state
   \<Rightarrow> run_state \<times> (run_exc + unit)" where
  "collect [] st = (st, Inr ())"
| "collect ((n, Inl x) # rest) st =
     (let st' = record_failure n x st in (st', Inl (NodeFailed (gn_key n) x (rs_outcomes st'))))"
| "collect ((n, Inr os) # rest) st = collect rest (record_success n os st)"

definition run_level ::
  "py_runtime \<Rightarrow> engine \<Rightarrow> workflow_graph \<Rightarrow> graph_node list \<Rightarrow> run_state
   \<Rightarrow> run_state \<times> (run_exc + unit)" where
  "run_level rt eng g level st =
     (case split_level rt g level st of
        (st', Inl x) \<Rightarrow> (st', Inl x)
      | (st', Inr runnable) \<Rightarrow>
          collect (map (\<lambda>n. (n, run_node rt eng n (rs_context st'))) runnable) st')"

fun run_levels ::
  "py_runtime \<Rightarrow> engine \<Rightarrow> workflow_graph \<Rightarrow> graph_node list list \<Rightarrow> run_state
   \<Rightarrow> run_state \<times> (run_exc + unit)" where
  "run_levels rt eng g [] st = (st, Inr ())"
| "run_levels rt eng g (l # ls) st =
     (case run_level rt eng g l st of
        (st', Inl x) \<Rightarrow> (st', Inl x)
      | (st', Inr _) \<Rightarrow> run_levels rt eng g ls st')"

definition run ::
  "py_runtime \<Rightarrow> engine \<Rightarrow> workflow_graph \<Rightarrow> pydict
   \<Rightarrow> metric_event list \<times> (run_exc + pydict \<times> node_outcome list)" where
  "run rt eng g ctx =
     (let st0 = \<lparr>rs_context = ctx, rs_outcomes = [], rs_skipped = [],
                 rs_metrics = [(MInc, ''workflow_runs_in_progress'', [], 1)]\<rparr>;
          (st, res) = (case levels g of
                         Inl x \<Rightarrow> (st0, Inl (GraphError x))
                       | Inr ls \<Rightarrow> run_levels rt eng g ls st0);
          label = (case res of Inl _ \<Rightarrow> ''failed'' | Inr _ \<Rightarrow> ''succeeded'')
      in (rs_metrics st @
            [(MDec, ''workflow_runs_in_progress'', [], 1),
             (MInc, ''workflow_runs_total'', [label], 1),
             (MObserve, ''workflow_run_duration_seconds'', [], 0)],
          case res of Inl x \<Rightarrow> Inl x | Inr _ \<Rightarrow> Inr (rs_context st, rs_outcomes st)))"

section \<open>Facts about single nodes\<close>

lemma succeeded_simps [simp]:
  "no_key (succeeded n i v) = gn_key n" "no_status (succeeded n i v) = NR_SUCCEEDED"
  "no_iteration (succeeded n i v) = i" "no_output (succeeded n i v) = v"
  "no_type (succeeded n i v) = gn_type n"
  by (simp_all add: succeeded_def)

definition ran_ok :: "graph_node \<Rightarrow> node_outcome list \<Rightarrow> bool" where
  "ran_ok n os \<longleftrightarrow> os \<noteq> [] \<and> (\<forall>o' \<in> set os. no_key o' = gn_key n \<and> no_status o' = NR_SUCCEEDED)"

lemma loop_passes_length: "loop_passes h n ctx i items = Inr outs \<Longrightarrow> length outs = length items"
  by (induction items arbitrary: i outs) (auto split: sum.splits)

lemma loop_passes_nth:
  "loop_passes h n ctx i items = Inr outs \<Longrightarrow> j < length items \<Longrightarrow>
   h n (dict_set ''index'' (PInt (int (i + j))) (dict_set ''item'' (items ! j) ctx)) = Inr (outs ! j)"
proof (induction items arbitrary: i j outs)
  case (Cons x items)
  from Cons.prems(1) obtain out outs' where outs: "outs = out # outs'"
    and rec: "loop_passes h n ctx (Suc i) items = Inr outs'"
    and out: "h n (dict_set ''index'' (PInt (int i)) (dict_set ''item'' x ctx)) = Inr out"
    by (auto split: sum.splits)
  show ?case
  proof (cases j)
    case 0
    with out outs show ?thesis by simp
  next
    case (Suc k)
    with Cons.IH [OF rec, of k] Cons.prems(2) outs show ?thesis by simp
  qed
qed simp

lemma loop_outcomes_ran_ok: "ran_ok n (loop_outcomes n outs)"
  by (auto simp: ran_ok_def loop_outcomes_def)

lemma length_loop_outcomes: "length (loop_outcomes n outs) = max 1 (length outs)"
  by (cases outs) (simp_all add: loop_outcomes_def)

lemma run_loop_cases:
  assumes "run_loop rt eng n ctx = Inr os"
  obtains source v xs outs where "dict_get (gn_config n) ''over'' = Some (PStr source)"
    "evaluate rt source ctx = Inr v" "v = PNone \<and> xs = [] \<or> v = PList xs \<or> v = PTuple xs"
    "length xs \<le> MAX_LOOP_ITERATIONS" "loop_passes (handler_for eng n) n ctx 0 xs = Inr outs"
    "os = loop_outcomes n outs"
  using assms
  by (auto simp: run_loop_def split: option.splits pyval.splits if_splits sum.splits)

lemma run_node_ran_ok: "run_node rt eng n ctx = Inr os \<Longrightarrow> ran_ok n os"
  by (auto simp: run_node_def loop_outcomes_ran_ok split: if_splits sum.splits elim!: run_loop_cases)
     (simp add: ran_ok_def)

text \<open>
  A loop node that succeeds makes one outcome per item of its collection (one in all for an
  empty collection), numbered from 0, never more than \<open>MAX_LOOP_ITERATIONS\<close>; each pass saw its
  item and index, and the output of the last outcome is the list of the outputs of all passes.
\<close>

theorem run_loop_outcomes:
  assumes "run_loop rt eng n ctx = Inr os"
  shows "\<exists>xs outs. length outs = length xs \<and> length os = max 1 (length xs)
    \<and> length os \<le> MAX_LOOP_ITERATIONS
    \<and> map no_iteration os = [0..<length os] \<and> no_output (last os) = PList outs
    \<and> (\<forall>j < length xs. handler_for eng n n
         (dict_set ''index'' (PInt (int j)) (dict_set ''item'' (xs ! j) ctx)) = Inr (outs ! j))"
  using assms
proof (cases rule: run_loop_cases)
  case (1 source v xs outs)
  have len: "length outs = length xs" using 1(5) by (rule loop_passes_length)
  have "length os = max 1 (length xs)" using 1(6) len by (simp add: length_loop_outcomes)
  moreover from this have "length os \<le> MAX_LOOP_ITERATIONS"
    using 1(4) by (simp add: MAX_LOOP_ITERATIONS_def)
  moreover have "map no_iteration os = [0..<length os]"
    unfolding 1(6) by (simp add: loop_outcomes_def comp_def)
  moreover have "no_output (last os) = PList outs"
    unfolding 1(6) by (simp add: loop_outcomes_def last_map)
  ultimately show ?thesis using len loop_passes_nth [OF 1(5)] by (intro exI [of _ xs] exI [of _ outs]) simp
qed

section \<open>The run invariant\<close>

definition ran :: "run_state \<Rightarrow> string set" where
  "ran st = {no_key o' | o'. o' \<in> set (rs_outcomes st) \<and> no_status o' = NR_SUCCEEDED}"

definition skipped_keys :: "run_state \<Rightarrow> string set" where
  "skipped_keys st = {no_key o' | o'. o' \<in> set (rs_outcomes st) \<and> no_status o' = NR_SKIPPED}"

text \<open>
  After the nodes of \<open>D\<close> have been dealt with, each of them ran or was skipped and not both, the
  context holds the given keys \<open>C\<close> and those that ran, and a node that ran is an entry point or
  has an incoming edge from a node that ran.
\<close>

definition run_inv :: "workflow_graph \<Rightarrow> string set \<Rightarrow> string set \<Rightarrow> run_state \<Rightarrow> bool" where
  "run_inv g C D st \<longleftrightarrow>
     set (rs_skipped st) = skipped_keys st \<and> ran st \<union> skipped_keys st = D
     \<and> ran st \<inter> skipped_keys st = {}
     \<and> (\<forall>o' \<in> set (rs_outcomes st). no_status o' \<in> {NR_SUCCEEDED, NR_SKIPPED})
     \<and> fst ` set (rs_context st) = C \<union> ran st
     \<and> (\<forall>k \<in> ran st. incoming g k = [] \<or> (\<exists>e \<in> set (incoming g k). ge_source e \<in> ran st))"

lemma ran_mark_skipped [simp]: "ran (mark_skipped n r st) = ran st"
  by (auto simp: ran_def mark_skipped_def)

lemma skipped_mark_skipped [simp]:
  "skipped_keys (mark_skipped n r st) = insert (gn_key n) (skipped_keys st)"
  by (force simp: skipped_keys_def mark_skipped_def)

lemma mark_skipped_context [simp]: "rs_context (mark_skipped n r st) = rs_context st"
  by (simp add: mark_skipped_def)

lemma run_inv_mark_skipped:
  assumes "run_inv g C D st" and "gn_key n \<notin> D"
  shows "run_inv g C (insert (gn_key n) D) (mark_skipped n r st)"
proof -
  have "set (rs_skipped (mark_skipped n r st)) = insert (gn_key n) (set (rs_skipped st))"
    and "set (rs_outcomes (mark_skipped n r st)) = insert
       \<lparr>no_key = gn_key n, no_type = gn_type n, no_status = NR_SKIPPED, no_iteration = 0,
        no_output = PNone, no_error = None, no_skip_reason = r\<rparr> (set (rs_outcomes st))"
    by (simp_all add: mark_skipped_def)
  with assms show ?thesis unfolding run_inv_def by auto
qed

lemma reach_edges_source:
  "reach_edges rt ctx sk key es unmet = Inr (True, r) \<Longrightarrow>
   \<exists>e \<in> set es. ge_source e \<notin> set sk \<and> evaluate_condition rt (ge_condition e) ctx = Inr True"
  by (induction es arbitrary: unmet) (auto split: if_splits sum.splits)

lemma is_reachable_source:
  "is_reachable rt g n ctx sk = Inr (True, r) \<Longrightarrow>
   incoming g (gn_key n) = [] \<or> (\<exists>e \<in> set (incoming g (gn_key n)). ge_source e \<notin> set sk)"
  by (auto simp: is_reachable_def split: if_splits dest: reach_edges_source)

lemma split_level_inv:
  assumes "split_level rt g ns st = (st', Inr rs)" and "run_inv g C D st"
    and "distinct (map gn_key ns)" and "gn_key ` set ns \<inter> D = {}"
  shows "\<exists>K. set rs \<subseteq> set ns \<and> distinct (map gn_key rs) \<and> run_inv g C (D \<union> K) st'
    \<and> K \<inter> gn_key ` set rs = {} \<and> K \<union> gn_key ` set rs = gn_key ` set ns
    \<and> ran st' = ran st \<and> rs_context st' = rs_context st \<and> set (rs_skipped st) \<subseteq> set (rs_skipped st')
    \<and> (\<forall>n \<in> set rs. incoming g (gn_key n) = [] \<or>
         (\<exists>e \<in> set (incoming g (gn_key n)). ge_source e \<notin> set (rs_skipped st)))"
  using assms
proof (induction ns arbitrary: D st rs)
  case Nil
  then show ?case by (intro exI [of _ "{}"]) auto
next
  case (Cons n ns)
  from Cons.prems(1) obtain ok r where
    reach: "is_reachable rt g n (rs_context st) (rs_skipped st) = Inr (ok, r)"
    by (auto split: sum.splits)
  show ?case
  proof (cases ok)
    case True
    with Cons.prems(1) reach obtain rs' where
      rec: "split_level rt g ns st = (st', Inr rs')" and rs: "rs = n # rs'"
      by (auto split: prod.splits sum.splits)
    from Cons.IH [OF rec Cons.prems(2)] Cons.prems(3,4) obtain K where
      K: "set rs' \<subseteq> set ns" "distinct (map gn_key rs')" "run_inv g C (D \<union> K) st'"
        "K \<inter> gn_key ` set rs' = {}" "K \<union> gn_key ` set rs' = gn_key ` set ns" "ran st' = ran st"
        "rs_context st' = rs_context st" "set (rs_skipped st) \<subseteq> set (rs_skipped st')"
        "\<forall>n \<in> set rs'. incoming g (gn_key n) = [] \<or>
           (\<exists>e \<in> set (incoming g (gn_key n)). ge_source e \<notin> set (rs_skipped st))"
      by auto
    have "gn_key n \<notin> gn_key ` set ns" using Cons.prems(3) by auto
    with K(1,5) have "gn_key n \<notin> K" "gn_key n \<notin> gn_key ` set rs'" by blast+
    moreover have "is_reachable rt g n (rs_context st) (rs_skipped st) = Inr (True, r)"
      using reach True by simp
    ultimately show ?thesis using K rs is_reachable_source [of rt g n "rs_context st" "rs_skipped st" r]
      by (intro exI [of _ K]) (auto simp del: Un_insert_left)
  next
    case False
    let ?st = "mark_skipped n r st"
    from False Cons.prems(1) reach have rec: "split_level rt g ns ?st = (st', Inr rs)" by simp
    have inv: "run_inv g C (insert (gn_key n) D) ?st"
      using Cons.prems(2,4) by (intro run_inv_mark_skipped) auto
    have sk: "set (rs_skipped st) \<subseteq> set (rs_skipped ?st)" by (auto simp: mark_skipped_def)
    from Cons.IH [OF rec inv] Cons.prems(3,4) obtain K where
      K: "set rs \<subseteq> set ns" "distinct (map gn_key rs)" "run_inv g C (insert (gn_key n) D \<union> K) st'"
        "K \<inter> gn_key ` set rs = {}" "K \<union> gn_key ` set rs = gn_key ` set ns" "ran st' = ran st"
        "rs_context st' = rs_context st" "set (rs_skipped ?st) \<subseteq> set (rs_skipped st')"
        "\<forall>n \<in> set rs. incoming g (gn_key n) = [] \<or>
           (\<exists>e \<in> set (incoming g (gn_key n)). ge_source e \<notin> set (rs_skipped ?st))"
      by auto
    have "gn_key n \<notin> gn_key ` set rs" using Cons.prems(3) K(1) by auto
    moreover have "\<forall>n \<in> set rs. incoming g (gn_key n) = [] \<or>
        (\<exists>e \<in> set (incoming g (gn_key n)). ge_source e \<notin> set (rs_skipped st))"
      using K(9) sk by blast
    moreover have "D \<union> insert (gn_key n) K = insert (gn_key n) D \<union> K" by blast
    moreover have "set (rs_skipped st) \<subseteq> set (rs_skipped st')" using sk K(8) by blast
    ultimately show ?thesis using K(1-7)
      by (intro exI [of _ "insert (gn_key n) K"]) (simp add: subset_insertI2)
  qed
qed

lemma ran_record_success:
  "ran_ok n os \<Longrightarrow> ran (record_success n os st) = insert (gn_key n) (ran st)"
  by (force simp: ran_def record_success_def ran_ok_def neq_Nil_conv)

lemma skipped_record_success:
  "ran_ok n os \<Longrightarrow> skipped_keys (record_success n os st) = skipped_keys st"
  by (force simp: skipped_keys_def record_success_def ran_ok_def)

lemma run_inv_record_success:
  assumes "run_inv g C D st" and "gn_key n \<notin> D" and "ran_ok n os"
    and "incoming g (gn_key n) = [] \<or> (\<exists>e \<in> set (incoming g (gn_key n)). ge_source e \<in> ran st)"
  shows "run_inv g C (insert (gn_key n) D) (record_success n os st)"
proof -
  have "rs_skipped (record_success n os st) = rs_skipped st"
    and "fst ` set (rs_context (record_success n os st)) = insert (gn_key n) (fst ` set (rs_context st))"
    and "\<forall>o' \<in> set (rs_outcomes (record_success n os st)). no_status o' \<in> {NR_SUCCEEDED, NR_SKIPPED}"
    using assms(1,3) by (auto simp: record_success_def run_inv_def ran_ok_def)
  with assms ran_record_success [OF assms(3), of st] skipped_record_success [OF assms(3), of st]
  show ?thesis unfolding run_inv_def by auto
qed

lemma collect_inv:
  assumes "collect rs st = (st', Inr ())" and "run_inv g C D st" and "distinct (map (gn_key \<circ> fst) rs)"
    and "(gn_key \<circ> fst) ` set rs \<inter> D = {}" and "\<forall>(n, r) \<in> set rs. \<forall>os. r = Inr os \<longrightarrow> ran_ok n os"
    and "\<forall>(n, r) \<in> set rs. incoming g (gn_key n) = [] \<or>
           (\<exists>e \<in> set (incoming g (gn_key n)). ge_source e \<in> ran st)"
  shows "run_inv g C (D \<union> (gn_key \<circ> fst) ` set rs) st'"
  using assms
proof (induction rs st arbitrary: D rule: collect.induct)
  case (3 n os rest st)
  have ok: "ran_ok n os" using "3.prems"(5) by simp
  have inv: "run_inv g C (insert (gn_key n) D) (record_success n os st)"
    using "3.prems" ok by (intro run_inv_record_success) auto
  have "run_inv g C (insert (gn_key n) D \<union> (gn_key \<circ> fst) ` set rest) st'"
  proof (rule "3.IH" [OF _ inv])
    show "\<forall>(m, r) \<in> set rest. incoming g (gn_key m) = [] \<or>
        (\<exists>e \<in> set (incoming g (gn_key m)). ge_source e \<in> ran (record_success n os st))"
      using "3.prems"(6) by (force simp: ran_record_success [OF ok])
  qed (use "3.prems" in \<open>auto simp: image_iff\<close>)
  then show ?case by simp
qed (auto simp: Let_def)

lemma run_level_inv:
  assumes "run_level rt eng g l st = (st', Inr ())" and "run_inv g C D st"
    and "distinct (map gn_key l)" and "gn_key ` set l \<inter> D = {}"
    and "\<And>n e. n \<in> set l \<Longrightarrow> e \<in> set (incoming g (gn_key n)) \<Longrightarrow> ge_source e \<in> D"
  shows "run_inv g C (D \<union> gn_key ` set l) st'"
proof -
  from assms(1) obtain st1 rs where split: "split_level rt g l st = (st1, Inr rs)"
    and coll: "collect (map (\<lambda>n. (n, run_node rt eng n (rs_context st1))) rs) st1 = (st', Inr ())"
    by (auto simp: run_level_def split: prod.splits sum.splits)
  obtain K where K: "set rs \<subseteq> set l" "distinct (map gn_key rs)" "run_inv g C (D \<union> K) st1"
      "K \<inter> gn_key ` set rs = {}" "K \<union> gn_key ` set rs = gn_key ` set l" "ran st1 = ran st"
      "\<forall>n \<in> set rs. incoming g (gn_key n) = [] \<or>
         (\<exists>e \<in> set (incoming g (gn_key n)). ge_source e \<notin> set (rs_skipped st))"
    using split_level_inv [OF split assms(2-4)] by blast
  have src: "incoming g (gn_key n) = [] \<or> (\<exists>e \<in> set (incoming g (gn_key n)). ge_source e \<in> ran st1)"
    if n: "n \<in> set rs" for n
  proof (cases "incoming g (gn_key n) = []")
    case False
    with K(7) n obtain e where e: "e \<in> set (incoming g (gn_key n))" "ge_source e \<notin> set (rs_skipped st)"
      by blast
    with assms(5) K(1) n have "ge_source e \<in> D" by blast
    with e assms(2) K(6) show ?thesis by (auto simp: run_inv_def)
  qed simp
  have "run_inv g C ((D \<union> K) \<union> (gn_key \<circ> fst) ` set (map (\<lambda>n. (n, run_node rt eng n (rs_context st1))) rs)) st'"
  proof (rule collect_inv [OF coll K(3)])
    show "(gn_key \<circ> fst) ` set (map (\<lambda>n. (n, run_node rt eng n (rs_context st1))) rs) \<inter> (D \<union> K) = {}"
      using K(1,4) assms(4) by (auto simp: image_image)
  qed (use K(2) src run_node_ran_ok in \<open>auto simp: comp_def\<close>)
  then show ?thesis using K(5) by (simp add: image_image Un_assoc)
qed

section \<open>Whole runs\<close>

fun levels_ok :: "workflow_graph \<Rightarrow> string set \<Rightarrow> graph_node list list \<Rightarrow> bool" where
  \<comment> \<open>every edge into a level comes from \<open>D\<close> or an earlier level\<close>
  "levels_ok g D [] = True"
| "levels_ok g D (l # ls) =
     ((\<forall>n \<in> set l. \<forall>e \<in> set (incoming g (gn_key n)). ge_source e \<in> D)
      \<and> levels_ok g (D \<union> gn_key ` set l) ls)"

lemma levels_ok_suffix:
  assumes "\<forall>e \<in> set (wg_edges g). \<forall>i < length (pre @ ls). ge_target e \<in> gn_key ` set ((pre @ ls) ! i) \<longrightarrow>
       (\<exists>j < i. ge_source e \<in> gn_key ` set ((pre @ ls) ! j))"
  shows "levels_ok g (gn_key ` set (concat pre)) ls"
  using assms
proof (induction ls arbitrary: pre)
  case (Cons l ls)
  have "ge_source e \<in> gn_key ` set (concat pre)"
    if n: "n \<in> set l" and e: "e \<in> set (incoming g (gn_key n))" for n e
  proof -
    have "e \<in> set (wg_edges g)" "ge_target e = gn_key n" using e by (auto simp: incoming_def)
    moreover have "length pre < length (pre @ l # ls)" by simp
    moreover have "gn_key n \<in> gn_key ` set ((pre @ l # ls) ! length pre)" using n by simp
    ultimately have "\<exists>j < length pre. ge_source e \<in> gn_key ` set ((pre @ l # ls) ! j)"
      using Cons.prems by metis
    then obtain j where "j < length pre" "ge_source e \<in> gn_key ` set (pre ! j)"
      by (auto simp: nth_append)
    then show ?thesis by (auto dest: nth_mem)
  qed
  moreover have "levels_ok g (gn_key ` set (concat (pre @ [l]))) ls"
    using Cons.prems by (intro Cons.IH) simp
  ultimately show ?case by (simp add: image_Un)
qed simp

lemma run_levels_inv:
  assumes "run_levels rt eng g ls st = (st', Inr ())" and "run_inv g C D st" and "levels_ok g D ls"
    and "distinct (map gn_key (concat ls))" and "gn_key ` set (concat ls) \<inter> D = {}"
  shows "run_inv g C (D \<union> gn_key ` set (concat ls)) st'"
  using assms
proof (induction ls arbitrary: D st)
  case (Cons l ls)
  from Cons.prems(1) obtain st1 where l: "run_level rt eng g l st = (st1, Inr ())"
    and ls: "run_levels rt eng g ls st1 = (st', Inr ())"
    by (auto split: prod.splits sum.splits)
  have disj: "gn_key ` set l \<inter> gn_key ` set (concat ls) = {}"
    and d: "distinct (map gn_key l)" "distinct (map gn_key (concat ls))"
    using Cons.prems(4) by (simp_all only: concat.simps map_append distinct_append set_map)
  have D: "gn_key ` set l \<inter> D = {}" "gn_key ` set (concat ls) \<inter> D = {}"
    using Cons.prems(5) by (simp_all only: concat.simps set_append image_Un Int_Un_distrib2 Un_empty)
  have lv: "levels_ok g (D \<union> gn_key ` set l) ls"
    and src: "\<And>n e. n \<in> set l \<Longrightarrow> e \<in> set (incoming g (gn_key n)) \<Longrightarrow> ge_source e \<in> D"
    using Cons.prems(3) by (simp_all only: levels_ok.simps)
  have inv: "run_inv g C (D \<union> gn_key ` set l) st1"
    by (rule run_level_inv [OF l Cons.prems(2) d(1) D(1) src])
  have "gn_key ` set (concat ls) \<inter> (D \<union> gn_key ` set l) = {}"
    using disj D(2) by (simp only: Int_Un_distrib Int_commute Un_empty simp_thms)
  from Cons.IH [OF ls inv lv d(2) this]
  have "run_inv g C ((D \<union> gn_key ` set l) \<union> gn_key ` set (concat ls)) st'" .
  then show ?case by (simp add: image_Un Un_assoc)
qed simp

lemma run_success_inv:
  assumes "graph_ok g" and "run rt eng g ctx = (ms, Inr (ctx', os))"
  shows "\<exists>st. run_inv g (fst ` set ctx) (fst ` set (wg_nodes g)) st
    \<and> rs_context st = ctx' \<and> rs_outcomes st = os"
proof -
  define st0 where "st0 = \<lparr>rs_context = ctx, rs_outcomes = [], rs_skipped = [],
                 rs_metrics = [(MInc, ''workflow_runs_in_progress'', [], 1)]\<rparr>"
  from assms(2) obtain ls st where ls: "levels g = Inr ls"
    and run: "run_levels rt eng g ls st0 = (st, Inr ())"
    and st: "rs_context st = ctx'" "rs_outcomes st = os"
    by (auto simp: run_def st0_def [symmetric] split: prod.splits sum.splits)
  note sound = levels_sound [OF assms(1) ls]
  have ks: "mset (map gn_key (concat ls)) = mset (map gn_key (map snd (wg_nodes g)))"
    using sound by (simp only: mset_map)
  have "map gn_key (map snd (wg_nodes g)) = keys (wg_nodes g)"
    using assms(1) by (auto simp: graph_ok_def nodes_keyed_def list_all_iff)
  with ks have k: "mset (map gn_key (concat ls)) = mset (keys (wg_nodes g))" by (simp only:)
  then have "distinct (map gn_key (concat ls))"
    using assms(1) mset_eq_imp_distinct_iff [OF k] by (simp only: graph_ok_def dict_ok_def simp_thms)
  moreover have "levels_ok g {} ls" using levels_ok_suffix [of g "[]" ls] sound by simp
  moreover have "run_inv g (fst ` set ctx) {} st0"
    by (simp add: run_inv_def st0_def ran_def skipped_keys_def)
  ultimately have "run_inv g (fst ` set ctx) ({} \<union> gn_key ` set (concat ls)) st"
    using run by (intro run_levels_inv) auto
  moreover have "gn_key ` set (concat ls) = fst ` set (wg_nodes g)"
    using mset_eq_setD [OF k] by simp
  ultimately show ?thesis using st by auto
qed


section \<open>Instruments\<close>

lemma metric_node [simp]:
  "name \<noteq> ''workflow_nodes_total'' \<Longrightarrow> metric_total name ls [node_metric n l] = 0"
  by (simp add: node_metric_def metric_total_Cons)

lemma split_level_metrics:
  "name \<noteq> ''workflow_nodes_total'' \<Longrightarrow>
   metric_total name ls (rs_metrics (fst (split_level rt g ns st))) = metric_total name ls (rs_metrics st)"
proof (induction ns arbitrary: st)
  case (Cons n ns)
  note IH = Cons.IH [OF Cons.prems]
  obtain st1 r where rec: "split_level rt g ns st = (st1, r)" by fastforce
  from IH [of st] rec have "metric_total name ls (rs_metrics st1) = metric_total name ls (rs_metrics st)"
    by simp
  with rec IH Cons.prems show ?case
    by (cases r) (auto simp: mark_skipped_def split: sum.splits)
qed simp

lemma collect_metrics:
  "name \<noteq> ''workflow_nodes_total'' \<Longrightarrow>
   metric_total name ls (rs_metrics (fst (collect rs st))) = metric_total name ls (rs_metrics st)"
  by (induction rs st rule: collect.induct)
     (auto simp: record_failure_def record_success_def Let_def)

lemma run_level_metrics:
  "name \<noteq> ''workflow_nodes_total'' \<Longrightarrow>
   metric_total name ls (rs_metrics (fst (run_level rt eng g l st))) = metric_total name ls (rs_metrics st)"
  using split_level_metrics [of name ls rt g l st]
  by (auto simp: run_level_def collect_metrics split: prod.splits sum.splits)

lemma run_levels_metrics:
  "name \<noteq> ''workflow_nodes_total'' \<Longrightarrow>
   metric_total name ls (rs_metrics (fst (run_levels rt eng g lv st))) = metric_total name ls (rs_metrics st)"
proof (induction lv arbitrary: st)
  case (Cons l lv)
  obtain st1 r where "run_level rt eng g l st = (st1, r)" by fastforce
  with Cons run_level_metrics [OF Cons.prems, of ls rt eng g l st] show ?case
    by (cases r) auto
qed simp

text \<open>
  On every path, success or failure, a run leaves the in-progress gauge where it found it
  and counts itself exactly once, under the label of its outcome.
\<close>

theorem run_metrics_balanced:
  "metric_total ''workflow_runs_in_progress'' [] (fst (run rt eng g ctx)) = 0 \<and>
   metric_total ''workflow_runs_total'' [''succeeded''] (fst (run rt eng g ctx))
     = (case snd (run rt eng g ctx) of Inl _ \<Rightarrow> 0 | Inr _ \<Rightarrow> 1) \<and>
   metric_total ''workflow_runs_total'' [''failed''] (fst (run rt eng g ctx))
     = (case snd (run rt eng g ctx) of Inl _ \<Rightarrow> 1 | Inr _ \<Rightarrow> 0)"
proof -
  define st0 where "st0 = \<lparr>rs_context = ctx, rs_outcomes = [], rs_skipped = [],
                 rs_metrics = [(MInc, ''workflow_runs_in_progress'', [], 1)]\<rparr>"
  obtain st res where r: "(case levels g of Inl x \<Rightarrow> (st0, Inl (GraphError x))
      | Inr ls \<Rightarrow> run_levels rt eng g ls st0) = (st, res)" by fastforce
  have "metric_total name l (rs_metrics st) = metric_total name l (rs_metrics st0)"
    if "name \<noteq> ''workflow_nodes_total''" for name l
    using r run_levels_metrics [OF that, of l rt eng g _ st0]
    by (auto split: sum.splits) (metis fst_conv)
  then show ?thesis
    by (cases res) (simp_all add: run_def st0_def [symmetric] r metric_total_Cons, simp_all add: st0_def metric_total_Cons)
qed

section \<open>Failing runs\<close>

definition no_failures :: "node_outcome list \<Rightarrow> bool" where
  "no_failures os \<longleftrightarrow> (\<forall>o' \<in> set os. no_status o' \<in> {NR_SUCCEEDED, NR_SKIPPED})"

lemma split_level_no_failures:
  "split_level rt g ns st = (st', r) \<Longrightarrow> no_failures (rs_outcomes st) \<Longrightarrow>
   no_failures (rs_outcomes st') \<and> (\<forall>k x os. r \<noteq> Inl (NodeFailed k x os))"
proof (induction ns arbitrary: st st' r)
  case (Cons n ns)
  have sk: "no_failures (rs_outcomes (mark_skipped n q st))" for q
    using Cons.prems(2) by (auto simp: no_failures_def mark_skipped_def)
  obtain st1 r1 where rec: "split_level rt g ns st = (st1, r1)" by fastforce
  note IH = Cons.IH [OF rec Cons.prems(2)]
  show ?case
  proof (cases "is_reachable rt g n (rs_context st) (rs_skipped st)")
    case (Inl x)
    with Cons.prems show ?thesis by auto
  next
    case (Inr p)
    with Cons.prems(1) rec IH Cons.IH [OF _ sk] show ?thesis
      by (cases p; cases r1) (auto split: if_splits)
  qed
qed auto

definition fails_last :: "string \<Rightarrow> node_exc \<Rightarrow> node_outcome list \<Rightarrow> bool" where
  "fails_last k x os \<longleftrightarrow> os \<noteq> [] \<and> no_failures (butlast os) \<and> no_key (last os) = k
     \<and> no_status (last os) = NR_FAILED \<and> no_error (last os) = Some x"

lemma collect_failures:
  assumes "collect rs st = (st', r)" and "no_failures (rs_outcomes st)"
    and "\<forall>(n, r) \<in> set rs. \<forall>os. r = Inr os \<longrightarrow> ran_ok n os"
  shows "case r of Inl (NodeFailed k x os) \<Rightarrow> fails_last k x os
    | Inl _ \<Rightarrow> False | Inr _ \<Rightarrow> no_failures (rs_outcomes st')"
  using assms
proof (induction rs st arbitrary: st' r rule: collect.induct)
  case (3 n os rest st)
  have "no_failures (rs_outcomes (record_success n os st))"
    using "3.prems" by (auto simp: no_failures_def record_success_def ran_ok_def)
  with 3 show ?case by simp
qed (auto simp: Let_def record_failure_def fails_last_def)

lemma run_level_failures:
  assumes "run_level rt eng g l st = (st', r)" and "no_failures (rs_outcomes st)"
  shows "case r of Inl (NodeFailed k x os) \<Rightarrow> fails_last k x os
    | Inl _ \<Rightarrow> True | Inr _ \<Rightarrow> no_failures (rs_outcomes st')"
proof -
  obtain st1 q where split: "split_level rt g l st = (st1, q)" by fastforce
  note nf = split_level_no_failures [OF split assms(2)]
  show ?thesis
  proof (cases q)
    case (Inl y)
    with split assms(1) nf show ?thesis by (cases y) (auto simp: run_level_def)
  next
    case (Inr rs)
    with split assms(1) have "collect (map (\<lambda>n. (n, run_node rt eng n (rs_context st1))) rs) st1 = (st', r)"
      by (simp add: run_level_def)
    from collect_failures [OF this] nf run_node_ran_ok show ?thesis
      by (auto split: sum.splits run_exc.splits)
  qed
qed

lemma run_levels_failures:
  "run_levels rt eng g ls st = (st', Inl (NodeFailed k x os)) \<Longrightarrow> no_failures (rs_outcomes st) \<Longrightarrow>
   fails_last k x os"
proof (induction ls arbitrary: st)
  case (Cons l ls)
  obtain st1 r where l: "run_level rt eng g l st = (st1, r)" by fastforce
  from run_level_failures [OF l Cons.prems(2)] Cons l show ?case by (cases r) auto
qed simp

text \<open>
  When a node fails, the outcomes attached to the exception end with exactly that node's
  failure, recorded with its error, and every outcome before it is a success or a skip.
\<close>

theorem run_failure_outcomes:
  assumes "run rt eng g ctx = (ms, Inl (NodeFailed k x os))"
  shows "\<exists>done failed. os = done @ [failed] \<and> no_key failed = k \<and> no_status failed = NR_FAILED
    \<and> no_error failed = Some x \<and> (\<forall>o' \<in> set done. no_status o' \<in> {NR_SUCCEEDED, NR_SKIPPED})"
proof -
  define st0 where "st0 = \<lparr>rs_context = ctx, rs_outcomes = [], rs_skipped = [],
                 rs_metrics = [(MInc, ''workflow_runs_in_progress'', [], 1)]\<rparr>"
  from assms obtain ls st where "run_levels rt eng g ls st0 = (st, Inl (NodeFailed k x os))"
    by (auto simp: run_def st0_def [symmetric] split: prod.splits sum.splits)
  then have "fails_last k x os" by (rule run_levels_failures) (simp add: st0_def no_failures_def)
  then show ?thesis unfolding fails_last_def no_failures_def
    by (intro exI [of _ "butlast os"] exI [of _ "last os"]) simp
qed

section \<open>Witnesses\<close>

definition sample_loop :: graph_node where
  "sample_loop = \<lparr>gn_key = ''each'', gn_type = ''loop'', gn_config = [(''over'', PStr ''items'')]\<rparr>"

definition sample_engine :: engine where
  \<comment> \<open>loop bodies return the item, \<open>publish\<close> nodes raise\<close>
  "sample_engine =
     register ''publish'' (\<lambda>_ _. Inl ''quota'')
       (register ''loop'' (\<lambda>_ ctx. case dict_get ctx ''item'' of None \<Rightarrow> Inl ''no item'' | Some v \<Rightarrow> Inr v) [])"

theorem run_loop_outcomes_witness:
  "\<exists>os. run_loop sample_runtime sample_engine sample_loop [(''items'', PList [PInt 4, PInt 7])] = Inr os
     \<and> length os = 2 \<and> length os \<le> MAX_LOOP_ITERATIONS \<and> map no_iteration os = [0, 1]"
proof -
  have run: "run_loop sample_runtime sample_engine sample_loop [(''items'', PList [PInt 4, PInt 7])]
      = Inr (loop_outcomes sample_loop [PInt 4, PInt 7])"
    by code_simp
  have "length (loop_outcomes sample_loop [PInt 4, PInt 7]) = 2" by (simp add: length_loop_outcomes)
  with run run_loop_outcomes [OF run] show ?thesis by (auto simp: upt_rec)
qed


definition publish_graph :: workflow_graph where
  "publish_graph =
     \<lparr>wg_nodes = [(''out'', \<lparr>gn_key = ''out'', gn_type = ''publish'', gn_config = []\<rparr>)], wg_edges = []\<rparr>"

theorem run_failure_outcomes_witness:
  "\<exists>ms os failed. run sample_runtime sample_engine publish_graph []
        = (ms, Inl (NodeFailed ''out'' (HandlerRaised ''quota'') os))
     \<and> last os = failed \<and> no_status failed = NR_FAILED"
proof -
  have "snd (run sample_runtime sample_engine publish_graph []) =
      Inl (NodeFailed ''out'' (HandlerRaised ''quota'')
        [\<lparr>no_key = ''out'', no_type = ''publish'', no_status = NR_FAILED, no_iteration = 0,
          no_output = PNone, no_error = Some (HandlerRaised ''quota''), no_skip_reason = None\<rparr>])"
    by code_simp
  then obtain ms os where run: "run sample_runtime sample_engine publish_graph []
        = (ms, Inl (NodeFailed ''out'' (HandlerRaised ''quota'') os))"
    by (metis prod.collapse)
  show ?thesis using run run_failure_outcomes [OF run] by auto
qed

end
