(* ===== verification/Scheduler.thy ===== *)
theory Scheduler
  imports Calendar
begin

text \<open>
  The agent scheduler (\<^verbatim>\<open>app/agents/scheduler/scheduler.py\<close>): cron fields and expressions, when a
  job is due, and the scheduler's table of jobs. A moment is a number of microseconds since
  1970-01-01 UTC; its calendar fields are computed from it in the proleptic Gregorian calendar.
  A field that does not parse raises \<^verbatim>\<open>ValueError\<close>, here \<open>Inl\<close>.
\<close>

section \<open>Cron expressions\<close>

fun matches_parts :: "string list \<Rightarrow> int \<Rightarrow> string + bool" where
  \<comment> \<open>the \<open>for\<close> of \<open>_matches_field\<close>; \<open>Inl\<close> the text \<open>int()\<close> refuses\<close>
  "matches_parts [] value = Inr False"
| "matches_parts (part # parts) value =
     (if part = ''*'' then Inr True
      else if startswith part ''*/'' then
        (case py_int (drop 2 part) of
           None \<Rightarrow> Inl (drop 2 part)
         | Some step \<Rightarrow> if step > 0 \<and> value mod step = 0 then Inr True else matches_parts parts value)
      else if CHR ''-'' \<in> set part then
        (let low = takeWhile (\<lambda>c. c \<noteq> CHR ''-'') part; high = tl (dropWhile (\<lambda>c. c \<noteq> CHR ''-'') part)
         in case py_int low of
              None \<Rightarrow> Inl low
            | Some l \<Rightarrow>
                if l \<le> value then
                  (case py_int high of
                     None \<Rightarrow> Inl high
                   | Some h \<Rightarrow> if value \<le> h then Inr True else matches_parts parts value)
                else matches_parts parts value)
      else if isdigit part then
        (case py_int part of
           None \<Rightarrow> Inl part
         | Some n \<Rightarrow> if n = value then Inr True else matches_parts parts value)
      else matches_parts parts value)"

definition matches_field :: "string \<Rightarrow> int \<Rightarrow> string + bool" where
  "matches_field expr value = matches_parts (split_on (CHR '','') expr) value"

fun all_match :: "(string \<times> int) list \<Rightarrow> string + bool" where
  \<comment> \<open>the chain of \<open>and\<close>, which stops at the first field that does not match\<close>
  "all_match [] = Inr True"
| "all_match ((expr, value) # rest) =
     (case matches_field expr value of
        Inl x \<Rightarrow> Inl x
      | Inr b \<Rightarrow> if b then all_match rest else Inr False)"

definition cron_matches :: "string \<Rightarrow> time \<Rightarrow> string + bool" where
  "cron_matches expression moment =
     (case split_ws expression of
        [minute, hour, day, month, weekday] \<Rightarrow>
          (let c = calendar_of moment
           in all_match [(minute, cal_minute c), (hour, cal_hour c), (day, cal_day c),
                         (month, cal_month c), (weekday, cal_isoweekday c mod 7)])
      | _ \<Rightarrow> Inl ''Cron expression must have 5 fields.'')"

section \<open>Jobs\<close>

datatype schedule_kind = SK_IMMEDIATE | SK_DELAYED | SK_RECURRING | SK_CRON

datatype schedule_priority = SP_LOW | SP_NORMAL | SP_HIGH | SP_CRITICAL

fun schedule_priority_value :: "schedule_priority \<Rightarrow> int" where
  "schedule_priority_value SP_LOW = 0"
| "schedule_priority_value SP_NORMAL = 5"
| "schedule_priority_value SP_HIGH = 10"
| "schedule_priority_value SP_CRITICAL = 20"

record scheduled_job =
  sj_agent_slug :: string
  sj_objective :: string
  sj_kind :: schedule_kind
  sj_priority :: schedule_priority
  sj_run_at :: "time option"
  sj_interval :: "int option"
  sj_cron :: "string option"
  sj_enabled :: bool
  sj_last_run :: "time option"
  sj_id :: nat

definition is_due :: "scheduled_job \<Rightarrow> time \<Rightarrow> string + bool" where
  \<comment> \<open>the interval is in microseconds\<close>
  "is_due j now =
     (if \<not> sj_enabled j then Inr False
      else case sj_kind j of
        SK_IMMEDIATE \<Rightarrow> Inr (sj_last_run j = None)
      | SK_DELAYED \<Rightarrow>
          (case sj_run_at j of
             None \<Rightarrow> Inr False
           | Some run_at \<Rightarrow> Inr (sj_last_run j = None \<and> now \<ge> run_at))
      | SK_RECURRING \<Rightarrow>
          (case sj_interval j of
             None \<Rightarrow> Inr False
           | Some i \<Rightarrow>
               (case sj_last_run j of
                  None \<Rightarrow> Inr True
                | Some prev \<Rightarrow> Inr (now \<ge> prev + i)))
      | SK_CRON \<Rightarrow>
          (case sj_cron j of
             None \<Rightarrow> Inr False
           | Some expr \<Rightarrow>
               if (case sj_last_run j of None \<Rightarrow> False | Some prev \<Rightarrow> now - prev < seconds 60)
               then Inr False else cron_matches expr now))"

type_synonym schedule = "(nat, scheduled_job) dict"

definition schedule_add :: "scheduled_job \<Rightarrow> schedule \<Rightarrow> schedule" where
  "schedule_add j s = dict_set (sj_id j) j s"

definition schedule_cancel :: "nat \<Rightarrow> schedule \<Rightarrow> schedule \<times> bool" where
  "schedule_cancel i s = (dict_pop i s, dict_get s i \<noteq> None)"

fun due_jobs :: "scheduled_job list \<Rightarrow> time \<Rightarrow> string + scheduled_job list" where
  \<comment> \<open>the list comprehension over \<open>is_due\<close>: an exception of one job is the exception of all\<close>
  "due_jobs [] now = Inr []"
| "due_jobs (j # js) now =
     (case is_due j now of
        Inl x \<Rightarrow> Inl x
      | Inr b \<Rightarrow> (case due_jobs js now of Inl x \<Rightarrow> Inl x | Inr ds \<Rightarrow> Inr (if b then j # ds else ds)))"

definition due :: "schedule \<Rightarrow> time \<Rightarrow> string + scheduled_job list" where
  "due s now =
     (case due_jobs (map snd s) now of
        Inl x \<Rightarrow> Inl x
      | Inr ds \<Rightarrow> Inr (sorted_desc (schedule_priority_value \<circ> sj_priority) ds))"

definition mark_run :: "nat \<Rightarrow> time \<Rightarrow> schedule \<Rightarrow> schedule" where
  "mark_run i now s =
     (case dict_get s i of None \<Rightarrow> s | Some j \<Rightarrow> dict_set i (j\<lparr>sj_last_run := Some now\<rparr>) s)"

section \<open>What a field matches\<close>

lemma split_on_plain: "c \<notin> set s \<Longrightarrow> split_on c s = [s]"
  by (induction s) auto

lemma split_on_append: "c \<notin> set s \<Longrightarrow> split_on c (s @ c # t) = s # split_on c t"
  by (induction s) auto

lemma split_on_join:
  "xs \<noteq> [] \<Longrightarrow> list_all (\<lambda>s. c \<notin> set s) xs \<Longrightarrow> split_on c (join [c] xs) = xs"
  by (induction "[c]" xs rule: join.induct) (simp_all add: split_on_plain split_on_append)

lemma matches_parts_numbers: "matches_parts (map nat_digits ns) v = Inr (v \<in> int ` set ns)"
proof (induction ns)
  case (Cons n ns)
  then show ?case using digits_plain [of n] by (auto simp: py_int_digits)
qed simp

text \<open>
  A field that lists numbers matches exactly the numbers it lists, a step field \<open>*/n\<close> the
  multiples of \<open>n\<close>, a range field \<open>a-b\<close> the numbers from \<open>a\<close> to \<open>b\<close>, and \<open>*\<close> everything.
\<close>

theorem matches_field_spec:
  assumes "ns \<noteq> []" and "0 < n"
  shows "matches_field (join '','' (map nat_digits ns)) v = Inr (v \<in> int ` set ns)
    \<and> matches_field (''*/'' @ nat_digits n) v = Inr (int n dvd v)
    \<and> matches_field (nat_digits a @ ''-'' @ nat_digits b) v = Inr (int a \<le> v \<and> v \<le> int b)
    \<and> matches_field ''*'' v = Inr True"
proof -
  have "list_all (\<lambda>s. CHR '','' \<notin> set s) (map nat_digits ns)"
    using digits_plain(4) by (simp add: list_all_iff)
  then have "matches_field (join '','' (map nat_digits ns)) v = Inr (v \<in> int ` set ns)"
    using assms(1) matches_parts_numbers by (simp add: matches_field_def split_on_join)
  moreover have "matches_field (''*/'' @ nat_digits n) v = Inr (int n dvd v)"
    using assms(2) digits_plain(4) [of n]
    by (simp add: matches_field_def split_on_plain startswith_def py_int_digits dvd_eq_mod_eq_0)
  moreover have "matches_field (nat_digits a @ ''-'' @ nat_digits b) v = Inr (int a \<le> v \<and> v \<le> int b)"
  proof -
    obtain c cs where c: "nat_digits a = c # cs" "is_digit c"
      using nat_digits_all [of a] by (cases "nat_digits a") auto
    have tw: "takeWhile (\<lambda>c. c \<noteq> CHR ''-'') (nat_digits a @ CHR ''-'' # nat_digits b) = nat_digits a"
      "dropWhile (\<lambda>c. c \<noteq> CHR ''-'') (nat_digits a @ CHR ''-'' # nat_digits b) = CHR ''-'' # nat_digits b"
      using digits_plain(3) [of a] by (auto simp: takeWhile_append dropWhile_append)
    have "\<not> startswith (nat_digits a @ CHR ''-'' # nat_digits b) ''*/''"
      "nat_digits a @ CHR ''-'' # nat_digits b \<noteq> ''*''"
      using c digit_not_special [of c] by (simp_all add: startswith_def)
    then show ?thesis using digits_plain(4) [of a] digits_plain(4) [of b] tw
      by (simp add: matches_field_def split_on_plain py_int_digits Let_def)
  qed
  moreover have "matches_field ''*'' v = Inr True" by (simp add: matches_field_def)
  ultimately show ?thesis by blast
qed

section \<open>When jobs are due\<close>

lemma due_jobs_Inr:
  "due_jobs js now = Inr ds \<Longrightarrow> (\<forall>j. j \<in> set ds \<longleftrightarrow> j \<in> set js \<and> is_due j now = Inr True)
     \<and> (\<forall>j \<in> set js. \<exists>b. is_due j now = Inr b)"
  by (induction js arbitrary: ds) (auto split: sum.splits if_splits)

lemma due_jobs_error: "j \<in> set js \<Longrightarrow> is_due j now = Inl x \<Longrightarrow> \<exists>y. due_jobs js now = Inl y"
  by (induction js) (auto split: sum.splits)

lemma due_Inr:
  assumes "due s now = Inr ds"
  shows "j \<in> set ds \<longleftrightarrow> j \<in> set (map snd s) \<and> is_due j now = Inr True"
    and "sorted_wrt (\<lambda>a b. schedule_priority_value (sj_priority a) \<ge> schedule_priority_value (sj_priority b)) ds"
proof -
  obtain es where es: "due_jobs (map snd s) now = Inr es"
    and ds: "ds = sorted_desc (schedule_priority_value \<circ> sj_priority) es"
    using assms by (auto simp: due_def split: sum.splits)
  show "j \<in> set ds \<longleftrightarrow> j \<in> set (map snd s) \<and> is_due j now = Inr True"
    using due_jobs_Inr [OF es] ds by simp
  show "sorted_wrt (\<lambda>a b. schedule_priority_value (sj_priority a) \<ge> schedule_priority_value (sj_priority b)) ds"
    using sorted_desc_sorted [of "schedule_priority_value \<circ> sj_priority" es] by (simp add: ds)
qed

lemma is_due_after_run:
  assumes "sj_last_run j = Some t" and "now - t < seconds 60" and "\<And>i. sj_interval j = Some i \<Longrightarrow> now - t < i"
  shows "is_due j now = Inr False"
proof (cases "sj_kind j")
  case SK_RECURRING
  show ?thesis
  proof (cases "sj_interval j")
    case (Some i)
    with assms(3) have "now < t + i" by fastforce
    with SK_RECURRING Some assms(1) show ?thesis by (simp add: is_due_def)
  qed (simp add: is_due_def SK_RECURRING)
qed (use assms in \<open>auto simp: is_due_def split: option.splits\<close>)

definition schedule_ok :: "schedule \<Rightarrow> bool" where
  "schedule_ok s \<longleftrightarrow> dict_ok s \<and> list_all (\<lambda>(i, j). sj_id j = i) s"

lemma schedule_ok_set: "schedule_ok s \<Longrightarrow> sj_id j = i \<Longrightarrow> schedule_ok (dict_set i j s)"
proof -
  have "list_all (\<lambda>(i, j). sj_id j = i) s \<Longrightarrow> sj_id j = i \<Longrightarrow> list_all (\<lambda>(i, j). sj_id j = i) (dict_set i j s)"
    by (induction s) auto
  then show "schedule_ok s \<Longrightarrow> sj_id j = i \<Longrightarrow> schedule_ok (dict_set i j s)" by (simp add: schedule_ok_def)
qed

lemma schedule_ok_get: "schedule_ok s \<Longrightarrow> j \<in> set (map snd s) \<longleftrightarrow> dict_get s (sj_id j) = Some j"
  by (auto simp: schedule_ok_def dict_ok_def list_all_iff intro: map_of_is_SomeI rev_image_eqI dest!: map_of_SomeD)

lemma mark_run_ok: "schedule_ok s \<Longrightarrow> schedule_ok (mark_run i now s)"
proof (cases "dict_get s i")
  case (Some j)
  assume ok: "schedule_ok s"
  with Some have "sj_id j = i" by (auto simp: schedule_ok_def list_all_iff dest!: map_of_SomeD)
  with ok Some show ?thesis by (simp add: mark_run_def schedule_ok_set)
qed (simp add: mark_run_def)

text \<open>
  A job that was marked as run is not reported again within the next minute (within its
  interval when that is shorter), and marking it changes nothing for the other jobs.
\<close>

theorem due_once:
  assumes "schedule_ok s" and "dict_get s i = Some j" and "t \<le> now" and "now - t < seconds 60"
    and "\<And>k. sj_interval j = Some k \<Longrightarrow> now - t < k" and "due (mark_run i t s) now = Inr ds"
  shows "i \<notin> sj_id ` set ds \<and>
    (\<forall>j'. sj_id j' \<noteq> i \<longrightarrow> (j' \<in> set ds \<longleftrightarrow> j' \<in> set (map snd s) \<and> is_due j' now = Inr True))"
proof -
  have ok: "schedule_ok (mark_run i t s)" using assms(1) by (rule mark_run_ok)
  have get: "dict_get (mark_run i t s) k = (if k = i then Some (j\<lparr>sj_last_run := Some t\<rparr>) else dict_get s k)" for k
    using assms(2) by (simp add: mark_run_def dict_get_set)
  have nd: "is_due (j\<lparr>sj_last_run := Some t\<rparr>) now = Inr False"
    using assms(4,5) by (intro is_due_after_run [of _ t]) simp_all
  have mem: "j' \<in> set ds \<longleftrightarrow> dict_get (mark_run i t s) (sj_id j') = Some j' \<and> is_due j' now = Inr True" for j'
    using due_Inr(1) [OF assms(6), of j'] schedule_ok_get [OF ok, of j'] by simp
  have "i \<noteq> sj_id j'" if "j' \<in> set ds" for j'
  proof
    assume "i = sj_id j'"
    with that mem [of j'] get nd show False by (auto split: if_splits)
  qed
  moreover have "j' \<in> set ds \<longleftrightarrow> j' \<in> set (map snd s) \<and> is_due j' now = Inr True" if "sj_id j' \<noteq> i" for j'
    using mem [of j'] get schedule_ok_get [OF assms(1), of j'] that by simp
  ultimately show ?thesis by auto
qed

text \<open>
  One enabled job with a malformed cron expression makes \<open>due\<close> raise, so no job of the
  scheduler is reported while it is there.
\<close>

theorem due_malformed_cron_blocks_all:
  assumes "j \<in> set (map snd s)" and "sj_enabled j" and "sj_kind j = SK_CRON" and "sj_cron j = Some expr"
    and "sj_last_run j = None" and "length (split_ws expr) \<noteq> 5"
  shows "\<exists>x. due s now = Inl x"
proof -
  have "cron_matches expr now = Inl ''Cron expression must have 5 fields.''"
    using assms(6) by (auto simp: cron_matches_def split: list.splits)
  then have "is_due j now = Inl ''Cron expression must have 5 fields.''"
    using assms(2-5) by (simp add: is_due_def)
  from due_jobs_error [OF assms(1) this] show ?thesis by (auto simp: due_def)
qed

section \<open>Witnesses\<close>

definition sample_job :: "nat \<Rightarrow> schedule_kind \<Rightarrow> string option \<Rightarrow> scheduled_job" where
  "sample_job i k c =
     \<lparr>sj_agent_slug = ''echo'', sj_objective = ''x'', sj_kind = k, sj_priority = SP_NORMAL, sj_run_at = None,
      sj_interval = None, sj_cron = c, sj_enabled = True, sj_last_run = None, sj_id = i\<rparr>"

theorem matches_field_spec_witness: "matches_field ''0,30'' 30 = Inr True \<and> matches_field ''*/15'' 45 = Inr True"
proof -
  have t: "join '','' (map nat_digits [0, 30]) = ''0,30''" "''*/'' @ nat_digits 15 = ''*/15''" by code_simp+
  have "int 15 dvd 45" by simp
  then show ?thesis
    using matches_field_spec [of "[0, 30]" 15 30] matches_field_spec [of "[0, 30]" 15 45] unfolding t by simp
qed

theorem due_once_witness:
  "\<exists>ds. due (mark_run 1 0 [(1, sample_job 1 SK_CRON (Some ''* * * * *'')), (2, sample_job 2 SK_IMMEDIATE None)])
      (seconds 30) = Inr ds \<and> 1 \<notin> sj_id ` set ds"
proof -
  let ?s = "[(1, sample_job 1 SK_CRON (Some ''* * * * *'')), (2, sample_job 2 SK_IMMEDIATE None)]"
  have d: "due (mark_run 1 0 ?s) (seconds 30) = Inr [sample_job 2 SK_IMMEDIATE None]" by code_simp
  have ok: "schedule_ok ?s" by (simp add: schedule_ok_def dict_ok_def sample_job_def)
  have "1 \<notin> sj_id ` set [sample_job 2 SK_IMMEDIATE None]"
    using due_once [OF ok _ _ _ _ d, of "sample_job 1 SK_CRON (Some ''* * * * *'')"]
    by (simp add: sample_job_def)
  with d show ?thesis by blast
qed

theorem due_malformed_cron_blocks_all_witness:
  "\<exists>x. due [(1, sample_job 1 SK_CRON (Some ''* *'')), (2, sample_job 2 SK_IMMEDIATE None)] 0 = Inl x"
proof (rule due_malformed_cron_blocks_all [of "sample_job 1 SK_CRON (Some ''* *'')"])
  show "length (split_ws ''* *'') \<noteq> 5" by code_simp
qed (simp_all add: sample_job_def)

lemma calendar_examples:
  \<comment> \<open>2024-02-29 12:30 UTC was a Thursday, 1999-12-31 23:59 UTC a Friday\<close>
  "calendar_of (seconds 1709209800) = \<lparr>cal_minute = 30, cal_hour = 12, cal_day = 29, cal_month = 2, cal_isoweekday = 4\<rparr>"
  "calendar_of (seconds 946684740) = \<lparr>cal_minute = 59, cal_hour = 23, cal_day = 31, cal_month = 12, cal_isoweekday = 5\<rparr>"
  by code_simp+

end
