(* ===== verification/Workflow_Service.thy ===== *)
theory Workflow_Service
  imports Workflow_Engine Repository Event_Bus Scheduler
begin

text \<open>
  Stored workflows and what starts them (\<^verbatim>\<open>app/services/workflow.py\<close>, \<^verbatim>\<open>app/services/workflow_triggers.py\<close>,
  \<^verbatim>\<open>app/models/workflow.py\<close>): graphs as rows, executions with their logs and per-node rows, and the
  manual, cron and event triggers. The engine of \<open>Workflow_Engine\<close> runs the graph; the handlers
  are those registered on the service. \<open>jsonable\<close> depends on what \<^verbatim>\<open>json.dumps\<close> accepts and on
  \<^verbatim>\<open>repr\<close>, which are parameters.
\<close>

section \<open>Rows\<close>

record workflow_row = entity +
  wf_workspace_id :: nat
  wf_name :: string
  wf_created_by :: nat

record workflow_node = entity +
  wn_workflow_id :: nat
  wn_key :: string
  wn_type :: string
  wn_config :: pydict

record workflow_edge = entity +
  wd_workflow_id :: nat
  wd_source_key :: string
  wd_target_key :: string
  wd_condition :: "string option"

record workflow_trigger = entity +
  tg_workflow_id :: nat
  tg_kind :: string
  tg_is_active :: bool
  tg_cron :: "string option"
  tg_event_type :: "string option"
  tg_last_fired_at :: "time option"
  tg_config :: pydict

datatype execution_status = ES_PENDING | ES_RUNNING | ES_SUCCEEDED | ES_FAILED | ES_CANCELLED

datatype log_entry =
    LogNode string node_run_status nat
  | LogError "app_error + run_exc"

record workflow_execution = entity +
  ex_workflow_id :: nat
  ex_status :: execution_status
  ex_context :: pyval
  ex_logs :: "log_entry list"
  ex_started_at :: time
  ex_finished_at :: "time option"

record node_execution = entity +
  ne_execution_id :: nat
  ne_node_key :: string
  ne_node_type :: string
  ne_status :: node_run_status
  ne_iteration :: nat
  ne_output :: pyval
  ne_error :: "node_exc option"
  ne_skip_reason :: "string option"

record workflow_db =
  wf_workflows :: "(nat, workflow_row) dict"
  wf_nodes :: "(nat, workflow_node) dict"
  wf_edges :: "(nat, workflow_edge) dict"
  wf_triggers :: "(nat, workflow_trigger) dict"
  wf_executions :: "(nat, workflow_execution) dict"
  wf_node_executions :: "(nat, node_execution) dict"
  wf_events :: "event list"
  wf_metrics :: "metric_event list"

record json_runtime =
  dumps_ok :: "pyval \<Rightarrow> bool"
  py_repr :: "pyval \<Rightarrow> string"

definition jsonable :: "json_runtime \<Rightarrow> pyval \<Rightarrow> pyval" where
  "jsonable js v = (if dumps_ok js v then v else PDict [(''repr'', PStr (py_repr js v))])"

section \<open>Creating a workflow\<close>

record node_spec =
  ns_key :: string
  ns_type :: "string option"
  ns_config :: pydict

record edge_spec =
  es_source :: string
  es_target :: string
  es_condition :: "string option"

definition new_node :: "nat \<Rightarrow> time \<Rightarrow> node_spec \<Rightarrow> workflow_node" where
  "new_node w now n = \<lparr>ent_id = 0, created_at = now, deleted_at = None, wn_workflow_id = w, wn_key = ns_key n,
     wn_type = (case ns_type n of None \<Rightarrow> ''noop'' | Some t \<Rightarrow> t), wn_config = ns_config n\<rparr>"

definition new_edge :: "nat \<Rightarrow> time \<Rightarrow> edge_spec \<Rightarrow> workflow_edge" where
  "new_edge w now e = \<lparr>ent_id = 0, created_at = now, deleted_at = None, wd_workflow_id = w, wd_source_key = es_source e,
     wd_target_key = es_target e, wd_condition = es_condition e\<rparr>"

definition workflow_create ::
    "nat \<Rightarrow> string \<Rightarrow> nat \<Rightarrow> node_spec list \<Rightarrow> edge_spec list \<Rightarrow> time \<Rightarrow> workflow_db \<Rightarrow> (workflow_row \<times> workflow_db) db_result" where
  \<comment> \<open>the unique (workflow, key) of the node table is checked at the flush\<close>
  "workflow_create workspace name actor nodes edges now db =
     (let (w, ws) = repo_add \<lparr>ent_id = 0, created_at = now, deleted_at = None, wf_workspace_id = workspace, wf_name = name,
            wf_created_by = actor\<rparr> (wf_workflows db)
      in if \<not> distinct (map ns_key nodes) then Inl (IntegrityError ''uq_workflow_node_key'')
         else Inr (w, db\<lparr>wf_workflows := ws, wf_nodes := snd (bulk_add (map (new_node (ent_id w) now) nodes) (wf_nodes db)),
                       wf_edges := snd (bulk_add (map (new_edge (ent_id w) now) edges) (wf_edges db))\<rparr>))"

section \<open>Executing a workflow\<close>

definition load_graph :: "nat \<Rightarrow> workflow_db \<Rightarrow> workflow_node list \<times> workflow_edge list" where
  "load_graph w db = (filter (\<lambda>n. wn_workflow_id n = w) (map snd (wf_nodes db)), filter (\<lambda>e. wd_workflow_id e = w) (map snd (wf_edges db)))"

definition graph_node_of :: "workflow_node \<Rightarrow> graph_node" where
  "graph_node_of n = \<lparr>gn_key = wn_key n, gn_type = wn_type n, gn_config = wn_config n\<rparr>"

definition graph_edge_of :: "workflow_edge \<Rightarrow> graph_edge" where
  "graph_edge_of e = \<lparr>ge_source = wd_source_key e, ge_target = wd_target_key e, ge_condition = wd_condition e\<rparr>"

definition build_graph :: "workflow_node list \<Rightarrow> workflow_edge list \<Rightarrow> workflow_graph result" where
  "build_graph nodes edges = workflow_graph_init (map graph_node_of nodes) (map graph_edge_of edges)"

definition register_node :: "string \<Rightarrow> node_handler \<Rightarrow> engine \<Rightarrow> engine" where
  "register_node node_type handler handlers = dict_set node_type handler handlers"

definition service_engine :: "engine \<Rightarrow> engine" where
  "service_engine handlers = fold (\<lambda>(node_type, handler). register node_type handler) handlers []"

definition node_row :: "json_runtime \<Rightarrow> nat \<Rightarrow> time \<Rightarrow> node_outcome \<Rightarrow> node_execution" where
  "node_row js x now oc = \<lparr>ent_id = 0, created_at = now, deleted_at = None, ne_execution_id = x, ne_node_key = no_key oc,
     ne_node_type = no_type oc, ne_status = no_status oc, ne_iteration = no_iteration oc, ne_output = jsonable js (no_output oc),
     ne_error = no_error oc, ne_skip_reason = no_skip_reason oc\<rparr>"

definition record_outcomes :: "json_runtime \<Rightarrow> nat \<Rightarrow> time \<Rightarrow> node_outcome list \<Rightarrow> workflow_db \<Rightarrow> workflow_db" where
  "record_outcomes js x now outcomes db =
     db\<lparr>wf_node_executions := snd (bulk_add (map (node_row js x now) outcomes) (wf_node_executions db))\<rparr>"

definition workflow_started :: "nat \<Rightarrow> nat \<Rightarrow> event" where
  "workflow_started x w = \<lparr>ev_type = ''WorkflowStarted'', ev_data = [(''execution_id'', PInt (int x)), (''workflow_id'', PInt (int w))]\<rparr>"

definition run_stored ::
    "py_runtime \<Rightarrow> engine \<Rightarrow> nat \<Rightarrow> pydict \<Rightarrow> workflow_db
     \<Rightarrow> metric_event list \<times> execution_status \<times> pydict \<times> log_entry list \<times> node_outcome list" where
  \<comment> \<open>the \<open>try\<close> of \<open>execute\<close>: status, context, logs and outcomes it leaves\<close>
  "run_stored rt handlers w inputs db =
     (case build_graph (fst (load_graph w db)) (snd (load_graph w db)) of
        Inl e \<Rightarrow> ([], ES_FAILED, inputs, [LogError (Inl e)], [])
      | Inr g \<Rightarrow>
          (case run rt (service_engine handlers) g inputs of
             (ms, Inr (ctx, outcomes)) \<Rightarrow>
               (ms, ES_SUCCEEDED, ctx, map (\<lambda>oc. LogNode (no_key oc) (no_status oc) (no_iteration oc)) outcomes, outcomes)
           | (ms, Inl x) \<Rightarrow>
               (ms, ES_FAILED, inputs, [LogError (Inr x)], (case x of NodeFailed _ _ outcomes \<Rightarrow> outcomes | _ \<Rightarrow> []))))"

definition workflow_execute ::
    "py_runtime \<Rightarrow> json_runtime \<Rightarrow> engine \<Rightarrow> nat \<Rightarrow> pydict \<Rightarrow> time \<Rightarrow> time \<Rightarrow> workflow_db \<Rightarrow> (workflow_execution \<times> workflow_db) db_result" where
  "workflow_execute rt js handlers w inputs started finished db =
     (case repo_get w (wf_workflows db) of
        None \<Rightarrow> raise_app NotFoundError ''Workflow not found.''
      | Some flow \<Rightarrow>
          if deleted_at flow \<noteq> None then raise_app NotFoundError ''Workflow not found.''
          else
            let (x, t) = repo_add \<lparr>ent_id = 0, created_at = started, deleted_at = None, ex_workflow_id = w, ex_status = ES_RUNNING,
                  ex_context = PDict inputs, ex_logs = [], ex_started_at = started, ex_finished_at = None\<rparr> (wf_executions db);
                (ms, status, ctx, logs, outcomes) = run_stored rt handlers w inputs db;
                x' = x\<lparr>ex_status := status, ex_context := jsonable js (PDict ctx), ex_logs := logs, ex_finished_at := Some finished\<rparr>;
                db1 = db\<lparr>wf_executions := repo_put x' t, wf_events := wf_events db @ [workflow_started (ent_id x) w],
                         wf_metrics := wf_metrics db @ ms\<rparr>
            in Inr (x', record_outcomes js (ent_id x) finished outcomes db1))"

section \<open>Triggers\<close>

definition list_active :: "string \<Rightarrow> workflow_db \<Rightarrow> workflow_trigger list" where
  "list_active kind db = filter (\<lambda>t. tg_kind t = kind \<and> tg_is_active t) (base_query False (wf_triggers db))"

definition list_for_event :: "string \<Rightarrow> workflow_db \<Rightarrow> workflow_trigger list" where
  "list_for_event event_type db =
     filter (\<lambda>t. tg_kind t = ''event'' \<and> tg_is_active t \<and> tg_event_type t = Some event_type \<and> deleted_at t = None) (map snd (wf_triggers db))"

definition list_for_workflow :: "nat \<Rightarrow> workflow_db \<Rightarrow> workflow_trigger list" where
  "list_for_workflow w db = filter (\<lambda>t. tg_workflow_id t = w) (base_query False (wf_triggers db))"

definition trigger_create ::
    "nat \<Rightarrow> string \<Rightarrow> string option \<Rightarrow> string option \<Rightarrow> pydict \<Rightarrow> time \<Rightarrow> workflow_db \<Rightarrow> (workflow_trigger \<times> workflow_db) db_result" where
  "trigger_create w kind cron event_type config now db =
     (if kind \<notin> {''manual'', ''schedule'', ''event''} then raise_app ValidationError (''Unknown trigger kind: '' @ kind)
      else if kind = ''schedule'' \<and> \<not> truthy cron then raise_app ValidationError ''A schedule trigger needs a cron expression.''
      else if kind = ''event'' \<and> \<not> truthy event_type then raise_app ValidationError ''An event trigger needs an event type.''
      else
        let (t, ts) = repo_add \<lparr>ent_id = 0, created_at = now, deleted_at = None, tg_workflow_id = w, tg_kind = kind, tg_is_active = True,
              tg_cron = cron, tg_event_type = event_type, tg_last_fired_at = None, tg_config = config\<rparr> (wf_triggers db)
        in Inr (t, db\<lparr>wf_triggers := ts\<rparr>))"

definition minute_of :: "time \<Rightarrow> int" where
  \<comment> \<open>\<open>replace(second=0, microsecond=0)\<close>\<close>
  "minute_of t = t div minutes 1"

fun due_from :: "time \<Rightarrow> workflow_trigger list \<Rightarrow> workflow_trigger list db_result" where
  "due_from now [] = Inr []"
| "due_from now (t # ts) =
     (if \<not> truthy (tg_cron t) then due_from now ts
      else case cron_matches (the (tg_cron t)) now of
        Inl e \<Rightarrow> Inl (ValueError e)
      | Inr False \<Rightarrow> due_from now ts
      | Inr True \<Rightarrow>
          (case due_from now ts of
             Inl e \<Rightarrow> Inl e
           | Inr rest \<Rightarrow> Inr (if map_option minute_of (tg_last_fired_at t) = Some (minute_of now) then rest else t # rest)))"

definition triggers_due :: "time \<Rightarrow> workflow_db \<Rightarrow> workflow_trigger list db_result" where
  "triggers_due now db = due_from now (list_active ''schedule'' db)"

definition fire ::
    "py_runtime \<Rightarrow> json_runtime \<Rightarrow> engine \<Rightarrow> (nat \<Rightarrow> time) \<Rightarrow> workflow_trigger \<Rightarrow> pydict \<Rightarrow> workflow_db
     \<Rightarrow> (workflow_execution \<times> workflow_db) db_result" where
  \<comment> \<open>\<open>clock\<close> gives the three readings: start and end of the execution, and the stamp\<close>
  "fire rt js handlers clock t inputs db =
     (case workflow_execute rt js handlers (tg_workflow_id t) (dict_update (tg_config t) inputs) (clock 0) (clock 1) db of
        Inl e \<Rightarrow> Inl e
      | Inr (x, db1) \<Rightarrow> Inr (x, db1\<lparr>wf_triggers := repo_put (t\<lparr>tg_last_fired_at := Some (clock 2)\<rparr>) (wf_triggers db1)\<rparr>))"

fun fire_all ::
    "py_runtime \<Rightarrow> json_runtime \<Rightarrow> engine \<Rightarrow> (nat \<Rightarrow> time) \<Rightarrow> workflow_trigger list \<Rightarrow> pydict \<Rightarrow> workflow_db
     \<Rightarrow> workflow_db \<times> workflow_execution list db_result" where
  \<comment> \<open>the comprehension over \<open>fire\<close>: an exception ends it after the triggers fired so far\<close>
  "fire_all rt js handlers clock [] inputs db = (db, Inr [])"
| "fire_all rt js handlers clock (t # ts) inputs db =
     (case fire rt js handlers clock t inputs db of
        Inl e \<Rightarrow> (db, Inl e)
      | Inr (x, db1) \<Rightarrow>
          (case fire_all rt js handlers (\<lambda>i. clock (i + 3)) ts inputs db1 of
             (db2, Inl e) \<Rightarrow> (db2, Inl e)
           | (db2, Inr xs) \<Rightarrow> (db2, Inr (x # xs))))"

definition fire_due ::
    "py_runtime \<Rightarrow> json_runtime \<Rightarrow> engine \<Rightarrow> (nat \<Rightarrow> time) \<Rightarrow> time \<Rightarrow> workflow_db \<Rightarrow> workflow_db \<times> workflow_execution list db_result" where
  "fire_due rt js handlers clock moment db =
     (case triggers_due moment db of Inl e \<Rightarrow> (db, Inl e) | Inr ts \<Rightarrow> fire_all rt js handlers clock ts [] db)"

definition dispatch_event ::
    "py_runtime \<Rightarrow> json_runtime \<Rightarrow> engine \<Rightarrow> (nat \<Rightarrow> time) \<Rightarrow> string \<Rightarrow> pydict \<Rightarrow> workflow_db \<Rightarrow> workflow_db \<times> workflow_execution list db_result" where
  "dispatch_event rt js handlers clock event_type payload db = fire_all rt js handlers clock (list_for_event event_type db) payload db"

definition set_active :: "nat \<Rightarrow> bool \<Rightarrow> workflow_db \<Rightarrow> (workflow_trigger \<times> workflow_db) db_result" where
  "set_active i active db =
     (case repo_get i (wf_triggers db) of
        None \<Rightarrow> raise_app NotFoundError ''Trigger not found.''
      | Some t \<Rightarrow> let t' = t\<lparr>tg_is_active := active\<rparr> in Inr (t', db\<lparr>wf_triggers := repo_put t' (wf_triggers db)\<rparr>))"

section \<open>Rows added in bulk\<close>

lemma bulk_add_rows:
  "bulk_add rs t = (rs', t') \<Longrightarrow> map snd t' = map snd t @ rs' \<and> map (\<lambda>r. r\<lparr>ent_id := 0\<rparr>) rs' = map (\<lambda>r. r\<lparr>ent_id := 0\<rparr>) rs"
proof (induction rs arbitrary: t rs' t')
  case (Cons r rs)
  obtain r1 t1 where r: "repo_add r t = (r1, t1)" by fastforce
  obtain rs2 t2 where rs: "bulk_add rs t1 = (rs2, t2)" by fastforce
  from Cons.prems have e: "rs' = r1 # rs2" "t' = t2" by (auto simp: r rs)
  have "r1 = r\<lparr>ent_id := new_id t\<rparr>" "map snd t1 = map snd t @ [r1]" using repo_add_new(1,2) [OF r] by simp_all
  with Cons.IH [OF rs] e show ?case by simp
qed simp

lemma bulk_add_map:
  assumes "bulk_add rs t = (rs', t')" and "\<And>r. f (r\<lparr>ent_id := 0\<rparr>) = f r"
  shows "map f rs' = map f rs"
proof -
  have "map f (map (\<lambda>r. r\<lparr>ent_id := 0\<rparr>) rs') = map f (map (\<lambda>r. r\<lparr>ent_id := 0\<rparr>) rs)"
    using bulk_add_rows [OF assms(1)] by metis
  then show ?thesis using assms(2) by (simp add: comp_def)
qed

lemma filter_append_new:
  assumes "\<And>x. x \<in> set xs \<Longrightarrow> \<not> P x" and "\<And>x. x \<in> set ys \<Longrightarrow> P x"
  shows "filter P (xs @ ys) = ys"
  using assms by (simp add: filter_empty_conv)

section \<open>A stored workflow is the workflow that was given\<close>

definition refs_ok :: "workflow_db \<Rightarrow> bool" where
  \<comment> \<open>the foreign keys: nodes and edges belong to stored workflows\<close>
  "refs_ok db \<longleftrightarrow> (\<forall>n \<in> set (map snd (wf_nodes db)). repo_get (wn_workflow_id n) (wf_workflows db) \<noteq> None)
     \<and> (\<forall>e \<in> set (map snd (wf_edges db)). repo_get (wd_workflow_id e) (wf_workflows db) \<noteq> None)"

definition given_node :: "node_spec \<Rightarrow> graph_node" where
  "given_node n = \<lparr>gn_key = ns_key n, gn_type = (case ns_type n of None \<Rightarrow> ''noop'' | Some t \<Rightarrow> t), gn_config = ns_config n\<rparr>"

definition given_edge :: "edge_spec \<Rightarrow> graph_edge" where
  "given_edge e = \<lparr>ge_source = es_source e, ge_target = es_target e, ge_condition = es_condition e\<rparr>"


section \<open>What an execution records\<close>

lemma run_success_keys:
  assumes "graph_ok g" and "run rt eng g ctx = (ms, Inr (ctx', os))"
  shows "no_key ` set os = set (keys (wg_nodes g)) \<and> (\<forall>oc \<in> set os. no_status oc \<in> {NR_SUCCEEDED, NR_SKIPPED})"
proof -
  from run_success_inv [OF assms] obtain st where inv: "run_inv g (fst ` set ctx) (fst ` set (wg_nodes g)) st" and os: "rs_outcomes st = os"
    by blast
  have st: "\<forall>oc \<in> set os. no_status oc \<in> {NR_SUCCEEDED, NR_SKIPPED}" and u: "ran st \<union> skipped_keys st = fst ` set (wg_nodes g)"
    using inv os by (auto simp: run_inv_def)
  have "ran st \<union> skipped_keys st = no_key ` set os" unfolding ran_def skipped_keys_def os using st by blast
  with u st show ?thesis by simp
qed

lemma run_failure_last:
  assumes "run rt eng g ctx = (ms, Inl (NodeFailed k x os))"
  shows "fails_last k x os"
proof -
  define st0 where "st0 = \<lparr>rs_context = ctx, rs_outcomes = [], rs_skipped = [], rs_metrics = [(MInc, ''workflow_runs_in_progress'', [], 1)]\<rparr>"
  from assms obtain ls st where "run_levels rt eng g ls st0 = (st, Inl (NodeFailed k x os))"
    by (auto simp: run_def st0_def [symmetric] split: prod.splits sum.splits)
  then show ?thesis by (rule run_levels_failures) (simp add: st0_def no_failures_def)
qed

lemma run_stored_cases:
  assumes "run_stored rt hs w inputs db = (ms, status, ctx, logs, os)"
  shows "(status = ES_SUCCEEDED \<and> no_key ` set os = wn_key ` set (fst (load_graph w db)) \<and> no_failures os)
    \<or> (status = ES_FAILED \<and> ctx = inputs \<and> (os = [] \<or> (\<exists>k x. fails_last k x os)))"
proof (cases "build_graph (fst (load_graph w db)) (snd (load_graph w db))")
  case (Inl e)
  with assms show ?thesis by (simp add: run_stored_def)
next
  case (Inr g)
  note g = this
  obtain ms' res where r: "run rt (service_engine hs) g inputs = (ms', res)" by fastforce
  have ok: "graph_ok g" using g workflow_graph_init_ok by (auto simp: build_graph_def)
  show ?thesis
  proof (cases res)
    case (Inl x)
    have "\<exists>k y. fails_last k y outs" if "x = NodeFailed k y outs" for k y outs
      using run_failure_last [of rt "service_engine hs" g inputs] r Inl that by blast
    with assms g r Inl show ?thesis by (cases x) (auto simp: run_stored_def)
  next
    case (Inr y)
    obtain c os' where y: "y = (c, os')" by force
    have "wg_nodes g = fold (\<lambda>n d. dict_set (gn_key n) n d) (map graph_node_of (fst (load_graph w db))) []"
      using g by (auto simp: build_graph_def workflow_graph_init_def Let_def split: if_splits)
    then have "set (keys (wg_nodes g)) = gn_key ` set (map graph_node_of (fst (load_graph w db)))"
      using set_keys_build [of "map graph_node_of (fst (load_graph w db))" "[]"] by simp
    then have "set (keys (wg_nodes g)) = wn_key ` set (fst (load_graph w db))" by (simp add: image_image graph_node_of_def)
    with run_success_keys [OF ok] r Inr y assms g show ?thesis by (auto simp: run_stored_def no_failures_def)
  qed
qed

definition recorded :: "nat \<Rightarrow> workflow_db \<Rightarrow> node_execution list" where
  "recorded x db = filter (\<lambda>r. ne_execution_id r = x) (map snd (wf_node_executions db))"

definition executions_ok :: "workflow_db \<Rightarrow> bool" where
  \<comment> \<open>the foreign key of the node rows\<close>
  "executions_ok db \<longleftrightarrow> (\<forall>r \<in> set (map snd (wf_node_executions db)). repo_get (ne_execution_id r) (wf_executions db) \<noteq> None)"


section \<open>Cron triggers fire once a minute\<close>

lemma same_minute_calendar:
  assumes "minute_of s = minute_of t"
  shows "calendar_of s = calendar_of t"
proof -
  have sec: "u div 1000000 div 60 = minute_of u" for u :: int by (simp add: minute_of_def zdiv_zmult2_eq [symmetric])
  have m: "(u div seconds 1) mod 86400 div 60 = minute_of u mod 1440" for u :: int
    using zmod_zmult2_eq [of 1440 "u div seconds 1" 60] by (simp add: sec)
  have h: "(u div seconds 1) mod 86400 div 3600 = minute_of u mod 1440 div 60" for u :: int
    using zdiv_zmult2_eq [of 60 "(u div seconds 1) mod 86400" 60] m [of u] by simp
  have d: "date_of u = minute_of u div 1440" for u :: int
    by (simp add: date_of_def minute_of_def zdiv_zmult2_eq [symmetric])
  show ?thesis unfolding calendar_of_def Let_def m h d assms by simp
qed

lemma cron_same_minute: "minute_of s = minute_of t \<Longrightarrow> cron_matches e s = cron_matches e t"
  by (drule same_minute_calendar) (simp only: cron_matches_def)

lemma due_from_Inr:
  assumes "due_from now ts = Inr ds"
  shows "ds = filter (\<lambda>t. truthy (tg_cron t) \<and> cron_matches (the (tg_cron t)) now = Inr True
      \<and> map_option minute_of (tg_last_fired_at t) \<noteq> Some (minute_of now)) ts"
  using assms
proof (induction now ts arbitrary: ds rule: due_from.induct)
  case (2 now t ts)
  show ?case
  proof (cases "truthy (tg_cron t)")
    case True
    with 2 obtain b rest where b: "cron_matches (the (tg_cron t)) now = Inr b" and r: "due_from now ts = Inr rest"
      by (cases "cron_matches (the (tg_cron t)) now"; cases "due_from now ts") (auto split: bool.splits)
    with 2 True show ?thesis by (cases b) (auto split: if_splits)
  next
    case False
    with 2 show ?thesis by simp
  qed
qed simp

lemma workflow_execute_triggers: "workflow_execute rt js hs w inputs s f db = Inr (x, db') \<Longrightarrow> wf_triggers db' = wf_triggers db"
  by (auto simp: workflow_execute_def record_outcomes_def Let_def split: option.splits if_splits prod.splits)

lemma fire_Inr:
  assumes "fire rt js hs clock t inputs db = Inr (x, db')"
  shows "wf_triggers db' = repo_put (t\<lparr>tg_last_fired_at := Some (clock 2)\<rparr>) (wf_triggers db)"
  using assms workflow_execute_triggers by (auto simp: fire_def split: sum.splits)

definition stamped_at :: "int \<Rightarrow> workflow_trigger \<Rightarrow> workflow_trigger \<Rightarrow> bool" where
  "stamped_at m t t' \<longleftrightarrow> (\<exists>c. minute_of c = m \<and> t' = t\<lparr>tg_last_fired_at := Some c\<rparr>)"

lemma fire_all_stamps:
  assumes "fire_all rt js hs clock ts inputs db = (db', Inr xs)" and "\<And>k. minute_of (clock k) = m" and "table_ok (wf_triggers db)"
  shows "length xs = length ts \<and> table_ok (wf_triggers db') \<and> (\<forall>i t'. repo_get i (wf_triggers db') = Some t' \<longrightarrow>
     (\<exists>t \<in> set ts. ent_id t = i \<and> stamped_at m t t') \<or> i \<notin> ent_id ` set ts \<and> repo_get i (wf_triggers db) = Some t')"
  using assms
proof (induction rt js hs clock ts inputs db arbitrary: xs rule: fire_all.induct)
  case (2 rt js hs clock t ts inputs db)
  from "2.prems"(1) obtain x db1 xs' where f: "fire rt js hs clock t inputs db = Inr (x, db1)"
    and r: "fire_all rt js hs (\<lambda>i. clock (i + 3)) ts inputs db1 = (db', Inr xs')" and xs: "xs = x # xs'"
    by (auto split: sum.splits prod.splits)
  note tr = fire_Inr [OF f]
  have IH: "length xs' = length ts \<and> table_ok (wf_triggers db') \<and> (\<forall>i t'. repo_get i (wf_triggers db') = Some t' \<longrightarrow>
     (\<exists>t \<in> set ts. ent_id t = i \<and> stamped_at m t t') \<or> i \<notin> ent_id ` set ts \<and> repo_get i (wf_triggers db1) = Some t')"
    by (rule "2.IH" [OF f refl r]) (simp_all add: tr "2.prems"(2,3))
  have stamp: "stamped_at m t (t\<lparr>tg_last_fired_at := Some (clock 2)\<rparr>)" using "2.prems"(2) by (auto simp: stamped_at_def)
  have "(\<exists>u \<in> set (t # ts). ent_id u = i \<and> stamped_at m u t') \<or> i \<notin> ent_id ` set (t # ts) \<and> repo_get i (wf_triggers db) = Some t'"
    if g: "repo_get i (wf_triggers db') = Some t'" for i t'
  proof -
    from IH g have "(\<exists>u \<in> set ts. ent_id u = i \<and> stamped_at m u t') \<or> i \<notin> ent_id ` set ts \<and> repo_get i (wf_triggers db1) = Some t'" by blast
    then show ?thesis
    proof
      assume "i \<notin> ent_id ` set ts \<and> repo_get i (wf_triggers db1) = Some t'"
      then show ?thesis using stamp by (cases "i = ent_id t") (simp_all add: tr)
    qed auto
  qed
  with IH xs show ?case by simp
qed simp

lemma due_from_exists:
  "(\<exists>ds. due_from now ts = Inr ds) \<longleftrightarrow> (\<forall>t \<in> set ts. truthy (tg_cron t) \<longrightarrow> (\<exists>b. cron_matches (the (tg_cron t)) now = Inr b))"
proof (induction now ts rule: due_from.induct)
  case (2 now t ts)
  show ?case
  proof (cases "truthy (tg_cron t)")
    case True
    with 2 show ?thesis
      by (cases "cron_matches (the (tg_cron t)) now"; cases "due_from now ts") (auto split: bool.splits)
  next
    case False
    with 2 show ?thesis by simp
  qed
qed simp

lemma list_active_mem:
  "table_ok (wf_triggers db) \<Longrightarrow> t \<in> set (list_active kind db) \<longleftrightarrow>
     repo_get (ent_id t) (wf_triggers db) = Some t \<and> deleted_at t = None \<and> tg_kind t = kind \<and> tg_is_active t"
  using base_query_mem [of "wf_triggers db" t] by (auto simp: list_active_def)

text \<open>
  Polling does not fire a trigger twice: after the due triggers were fired, with every clock
  reading in the minute of the poll, a poll at any time of that minute finds nothing due.
\<close>

theorem fire_due_once:
  assumes ok: "table_ok (wf_triggers db)" and f: "fire_due rt js hs clock moment db = (db', Inr xs)"
    and clock: "\<And>k. minute_of (clock k) = minute_of moment" and now: "minute_of now = minute_of moment"
  shows "triggers_due now db' = Inr [] \<and> (\<exists>ds. triggers_due moment db = Inr ds \<and> length xs = length ds)"
proof -
  from f obtain ds where d: "triggers_due moment db = Inr ds" and fa: "fire_all rt js hs clock ds [] db = (db', Inr xs)"
    by (auto simp: fire_due_def split: sum.splits)
  note st = fire_all_stamps [OF fa clock ok]
  have ds: "ds = filter (\<lambda>t. truthy (tg_cron t) \<and> cron_matches (the (tg_cron t)) moment = Inr True
      \<and> map_option minute_of (tg_last_fired_at t) \<noteq> Some (minute_of moment)) (list_active ''schedule'' db)"
    using d due_from_Inr by (simp add: triggers_due_def)
  have good: "truthy (tg_cron t) \<longrightarrow> (\<exists>b. cron_matches (the (tg_cron t)) moment = Inr b)" if "t \<in> set (list_active ''schedule'' db)" for t
    using d due_from_exists [of moment "list_active ''schedule'' db"] that by (auto simp: triggers_due_def)
  have act: "(\<exists>t \<in> set ds. stamped_at (minute_of moment) t u) \<or> u \<in> set (list_active ''schedule'' db) \<and> u \<notin> set ds"
    if "u \<in> set (list_active ''schedule'' db')" for u
  proof -
    from that st have u: "repo_get (ent_id u) (wf_triggers db') = Some u" "deleted_at u = None" "tg_kind u = ''schedule''" "tg_is_active u"
      by (simp_all add: list_active_mem)
    with st have "(\<exists>t \<in> set ds. stamped_at (minute_of moment) t u) \<or> ent_id u \<notin> ent_id ` set ds \<and> repo_get (ent_id u) (wf_triggers db) = Some u"
      by blast
    with u show ?thesis using list_active_mem [OF ok, of u "''schedule''"] by blast
  qed
  have "\<exists>ds'. due_from now (list_active ''schedule'' db') = Inr ds'"
    unfolding due_from_exists
  proof
    fix u assume "u \<in> set (list_active ''schedule'' db')"
    from act [OF this] obtain t where t: "t \<in> set (list_active ''schedule'' db)" "tg_cron u = tg_cron t"
      using ds by (auto simp: stamped_at_def)
    with good [OF t(1)] show "truthy (tg_cron u) \<longrightarrow> (\<exists>b. cron_matches (the (tg_cron u)) now = Inr b)"
      using cron_same_minute [OF now] by simp
  qed
  then obtain ds' where ds': "due_from now (list_active ''schedule'' db') = Inr ds'" by blast
  have "u \<notin> set ds'" for u
  proof
    assume "u \<in> set ds'"
    then have u: "u \<in> set (list_active ''schedule'' db')" "truthy (tg_cron u)" "cron_matches (the (tg_cron u)) moment = Inr True"
      "map_option minute_of (tg_last_fired_at u) \<noteq> Some (minute_of moment)"
      using due_from_Inr [OF ds'] now cron_same_minute [OF now] by auto
    from act [OF u(1)] u(2-4) ds show False by (auto simp: stamped_at_def)
  qed
  then have "ds' = []" by (cases ds') auto
  with ds' d st show ?thesis by (simp add: triggers_due_def)
qed

section \<open>Where the code and its documents part\<close>

text \<open>
  The stamp is the time the execution ended. When that falls into a later minute, the trigger is
  not due in that minute either, although it has not been fired for it.
\<close>

theorem late_stamp_skips_minute:
  assumes "table_ok (wf_triggers db)" and "fire rt js hs clock t inputs db = Inr (x, db')" and "minute_of now = minute_of (clock 2)"
    and "triggers_due now db' = Inr ds"
  shows "ent_id t \<notin> ent_id ` set ds"
proof
  assume "ent_id t \<in> ent_id ` set ds"
  then obtain u where u: "u \<in> set ds" "ent_id u = ent_id t" by auto
  have tr: "wf_triggers db' = repo_put (t\<lparr>tg_last_fired_at := Some (clock 2)\<rparr>) (wf_triggers db)" by (rule fire_Inr [OF assms(2)])
  have d: "u \<in> set (list_active ''schedule'' db')" "map_option minute_of (tg_last_fired_at u) \<noteq> Some (minute_of now)"
    using u(1) due_from_Inr [OF assms(4) [unfolded triggers_due_def]] by simp_all
  have "table_ok (wf_triggers db')" using assms(1) by (simp add: tr)
  with d(1) have "repo_get (ent_id u) (wf_triggers db') = Some u" by (simp add: list_active_mem)
  with u(2) have "u = t\<lparr>tg_last_fired_at := Some (clock 2)\<rparr>" by (simp add: tr)
  with d(2) assms(3) show False by simp
qed

text \<open>
  An edge condition that raises loses the outcomes of the nodes that have run: the execution fails
  with no node row at all.
\<close>

theorem condition_error_loses_outcomes:
  assumes "build_graph (fst (load_graph w db)) (snd (load_graph w db)) = Inr g"
    and "run rt (service_engine hs) g inputs = (ms, Inl (ConditionExc e))"
  shows "run_stored rt hs w inputs db = (ms, ES_FAILED, inputs, [LogError (Inr (ConditionExc e))], [])"
  using assms by (simp add: run_stored_def)

text \<open>
  A schedule trigger is created with any nonempty cron text; one with the wrong number of fields
  makes the poll raise, so nothing fires while it is active.
\<close>

theorem malformed_trigger_blocks_poll:
  assumes "table_ok (wf_triggers db)" and "cron \<noteq> []" and "length (split_ws cron) \<noteq> 5"
  shows "\<exists>t db'. trigger_create w ''schedule'' (Some cron) None [] now db = Inr (t, db') \<and> (\<exists>e. fire_due rt js hs clock moment db' = (db', Inl e))"
proof -
  let ?t = "\<lparr>ent_id = 0, created_at = now, deleted_at = None, tg_workflow_id = w, tg_kind = ''schedule'', tg_is_active = True,
     tg_cron = Some cron, tg_event_type = None, tg_last_fired_at = None, tg_config = []\<rparr>"
  obtain t ts where a: "repo_add ?t (wf_triggers db) = (t, ts)" by fastforce
  define db' where "db' = db\<lparr>wf_triggers := ts\<rparr>"
  have c: "trigger_create w ''schedule'' (Some cron) None [] now db = Inr (t, db')"
    using assms(2) a by (simp add: trigger_create_def truthy_def db'_def)
  have ok: "table_ok (wf_triggers db')" using repo_add_ok [OF assms(1) a] by (simp add: db'_def)
  have t: "t = ?t\<lparr>ent_id := new_id (wf_triggers db)\<rparr>" by (rule repo_add_new(1) [OF a])
  have "t \<in> set (list_active ''schedule'' db')"
    using list_active_mem [OF ok, of t "''schedule''"] repo_add_new(4) [OF a, of "ent_id t"] by (simp add: t db'_def)
  moreover have "cron_matches cron moment = Inl ''Cron expression must have 5 fields.''"
    using assms(3) by (auto simp: cron_matches_def split: list.splits)
  ultimately have "\<nexists>ds. triggers_due moment db' = Inr ds"
    using assms(2) unfolding triggers_due_def due_from_exists by (force simp: t truthy_def)
  then obtain e where "triggers_due moment db' = Inl e" by (cases "triggers_due moment db'") auto
  with c show ?thesis by (auto simp: fire_due_def)
qed

section \<open>Witnesses\<close>

definition empty_flows :: workflow_db where
  "empty_flows = \<lparr>wf_workflows = [], wf_nodes = [], wf_edges = [], wf_triggers = [], wf_executions = [], wf_node_executions = [],
     wf_events = [], wf_metrics = []\<rparr>"

definition sample_json :: json_runtime where
  "sample_json = \<lparr>dumps_ok = (\<lambda>_. True), py_repr = (\<lambda>_. [])\<rparr>"

definition flow_after :: "('a \<times> workflow_db) db_result \<Rightarrow> workflow_db" where
  "flow_after r = (case r of Inl _ \<Rightarrow> empty_flows | Inr (_, db) \<Rightarrow> db)"

definition two_nodes :: "node_spec list" where
  "two_nodes = [\<lparr>ns_key = ''a'', ns_type = None, ns_config = []\<rparr>, \<lparr>ns_key = ''b'', ns_type = Some ''task'', ns_config = []\<rparr>]"

definition one_flow :: workflow_db where
  "one_flow = flow_after (trigger_create 0 ''schedule'' (Some ''* * * * *'') None [] 0
     (flow_after (workflow_create 1 ''w'' 1 two_nodes [\<lparr>es_source = ''a'', es_target = ''b'', es_condition = None\<rparr>] 0 empty_flows)))"

lemma refs_empty: "refs_ok empty_flows"
  by (simp add: refs_ok_def empty_flows_def)



theorem fire_due_once_witness:
  "\<exists>db' xs. fire_due sample_runtime sample_json [] (\<lambda>_. 30) 20 one_flow = (db', Inr xs) \<and> length xs = 1 \<and> triggers_due 40 db' = Inr []"
proof -
  have "(case snd (fire_due sample_runtime sample_json [] (\<lambda>_. 30) 20 one_flow) of Inl _ \<Rightarrow> False | Inr xs \<Rightarrow> length xs = 1)"
    and ok: "table_ok (wf_triggers one_flow)" by code_simp+
  then obtain db' xs where f: "fire_due sample_runtime sample_json [] (\<lambda>_. 30) 20 one_flow = (db', Inr xs)" "length xs = 1"
    by (cases "fire_due sample_runtime sample_json [] (\<lambda>_. 30) 20 one_flow") (auto split: sum.splits)
  from fire_due_once [OF ok f(1), of 40] f show ?thesis by (simp add: minute_of_def)
qed

end
