(* ===== verification/Storage.thy ===== *)
theory Storage
  imports Repository Event_Bus
begin

text \<open>
  Object storage (\<^verbatim>\<open>app/core/storage/\<close>) and the service that uploads media through it
  (\<^verbatim>\<open>app/services/storage_service.py\<close>). The contract of a storage client is a locale; the local
  provider, which keeps objects as files under a root directory, and the metered wrapper around a
  client are its instances. The directory tree below the root has no symbolic links, so a path is
  resolved by its segments alone, and the operating system sets no limits on names; bytes are
  characters. The cloud providers call their vendors' libraries and are not modelled.
\<close>

section \<open>The contract\<close>

datatype storage_provider = SP_S3 | SP_MINIO | SP_R2 | SP_GCS | SP_AZURE | SP_LOCAL

fun storage_provider_value :: "storage_provider \<Rightarrow> string" where
  "storage_provider_value SP_S3 = ''s3''"
| "storage_provider_value SP_MINIO = ''minio''"
| "storage_provider_value SP_R2 = ''r2''"
| "storage_provider_value SP_GCS = ''gcs''"
| "storage_provider_value SP_AZURE = ''azure''"
| "storage_provider_value SP_LOCAL = ''local''"

record stored_object =
  so_key :: string
  so_size_bytes :: nat
  so_content_type :: string
  so_url :: "string option"

datatype storage_exc = StorageApp app_error | OSErr | BadPath

record 's storage_client =
  sc_put :: "string \<Rightarrow> string \<Rightarrow> string \<Rightarrow> 's \<Rightarrow> (storage_exc + stored_object) \<times> 's"
  sc_get :: "string \<Rightarrow> 's \<Rightarrow> (storage_exc + string) \<times> 's"
  sc_delete :: "string \<Rightarrow> 's \<Rightarrow> (storage_exc + unit) \<times> 's"
  sc_presign_url :: "string \<Rightarrow> int \<Rightarrow> 's \<Rightarrow> (storage_exc + string) \<times> 's"
  sc_health_check :: "'s \<Rightarrow> (storage_exc + bool) \<times> 's"

section \<open>The local provider\<close>

datatype fnode = Dir | File string

type_synonym path = "string list"
type_synonym file_tree = "(path, fnode) dict"   \<comment> \<open>by path from the root, which is a directory\<close>

record local_storage =
  ls_root :: path
  ls_public_base_url :: string

definition is_slash :: "char \<Rightarrow> bool" where "is_slash c \<longleftrightarrow> c = CHR ''/''"

definition local_storage_init :: "path \<Rightarrow> string \<Rightarrow> local_storage" where
  "local_storage_init base url = \<lparr>ls_root = base, ls_public_base_url = rev (dropWhile is_slash (rev url))\<rparr>"

fun walk :: "path \<Rightarrow> path \<Rightarrow> path" where
  \<comment> \<open>\<open>Path.resolve\<close>: empty and dot segments stay, two dots go up\<close>
  "walk p [] = p"
| "walk p (s # ss) = walk (if s = [] \<or> s = ''.'' then p else if s = ''..'' then butlast p else p @ [s]) ss"

definition resolve :: "local_storage \<Rightarrow> string \<Rightarrow> storage_exc + path" where
  \<comment> \<open>the path from the root\<close>
  "resolve st key =
     (if CHR 0x00 \<in> set key then Inl BadPath
      else
        let candidate = walk (ls_root st) (split_on (CHR ''/'') (dropWhile is_slash key)) in
        if take (length (ls_root st)) candidate \<noteq> ls_root st
        then Inl (StorageApp (app_error_init StorageError (Some ''Invalid storage key.'')))
        else Inr (drop (length (ls_root st)) candidate))"

definition parents :: "path \<Rightarrow> path list" where
  "parents p = map (\<lambda>n. take n p) [1..<length p]"

fun is_file :: "fnode option \<Rightarrow> bool" where
  "is_file (Some (File _)) = True"
| "is_file _ = False"

definition blocked :: "file_tree \<Rightarrow> path \<Rightarrow> bool" where
  \<comment> \<open>a file stands where a directory is needed\<close>
  "blocked fs p = list_ex (\<lambda>q. is_file (dict_get fs q)) (parents p)"

definition mkdirs :: "path \<Rightarrow> file_tree \<Rightarrow> file_tree" where
  "mkdirs p fs = fold (\<lambda>q. dict_set q Dir) (parents p) fs"

definition public_url :: "local_storage \<Rightarrow> string \<Rightarrow> string" where
  "public_url st key = ls_public_base_url st @ ''/'' @ dropWhile is_slash key"

definition local_put :: "local_storage \<Rightarrow> string \<Rightarrow> string \<Rightarrow> string \<Rightarrow> file_tree \<Rightarrow> (storage_exc + stored_object) \<times> file_tree" where
  "local_put st key data content_type fs =
     (case resolve st key of
        Inl e \<Rightarrow> (Inl e, fs)
      | Inr p \<Rightarrow>
          if blocked fs p then (Inl OSErr, fs)
          else
            let fs1 = mkdirs p fs in
            if p = [] \<or> dict_get fs1 p = Some Dir then (Inl OSErr, fs1)
            else (Inr \<lparr>so_key = key, so_size_bytes = length data, so_content_type = content_type, so_url = Some (public_url st key)\<rparr>,
                  dict_set p (File data) fs1))"

definition local_get :: "local_storage \<Rightarrow> string \<Rightarrow> file_tree \<Rightarrow> storage_exc + string" where
  "local_get st key fs =
     (case resolve st key of
        Inl e \<Rightarrow> Inl e
      | Inr p \<Rightarrow> (case dict_get fs p of
            Some (File data) \<Rightarrow> Inr data
          | _ \<Rightarrow> Inl (StorageApp (app_error_init NotFoundError (Some ''Stored object not found.'')))))"

definition local_delete :: "local_storage \<Rightarrow> string \<Rightarrow> file_tree \<Rightarrow> (storage_exc + unit) \<times> file_tree" where
  \<comment> \<open>\<open>unlink(missing_ok=True)\<close>\<close>
  "local_delete st key fs =
     (case resolve st key of
        Inl e \<Rightarrow> (Inl e, fs)
      | Inr p \<Rightarrow>
          if blocked fs p \<or> p = [] \<or> dict_get fs p = Some Dir then (Inl OSErr, fs)
          else (Inr (), dict_pop p fs))"

definition local_exists :: "local_storage \<Rightarrow> string \<Rightarrow> file_tree \<Rightarrow> storage_exc + bool" where
  "local_exists st key fs = (case resolve st key of Inl e \<Rightarrow> Inl e | Inr p \<Rightarrow> Inr (is_file (dict_get fs p)))"

definition local_client :: "local_storage \<Rightarrow> file_tree storage_client" where
  "local_client st = \<lparr>sc_put = local_put st, sc_get = (\<lambda>key fs. (local_get st key fs, fs)), sc_delete = local_delete st,
     sc_presign_url = (\<lambda>key expires_in fs. (Inr (public_url st key), fs)), sc_health_check = (\<lambda>fs. (Inr True, fs))\<rparr>"

section \<open>The metered wrapper and the factory\<close>

definition storage_metric :: "string \<Rightarrow> string \<Rightarrow> string \<Rightarrow> metric_event" where
  \<comment> \<open>\<open>_record\<close>, without the duration\<close>
  "storage_metric backend operation outcome = (MInc, ''storage_operations_total'', [backend, operation, outcome], 1)"

definition recorded_as :: "string \<Rightarrow> string \<Rightarrow> ('e + 'a) \<times> 's \<Rightarrow> metric_event list \<Rightarrow> ('e + 'a) \<times> 's \<times> metric_event list" where
  "recorded_as backend operation rs ms =
     (fst rs, snd rs, ms @ [storage_metric backend operation (case fst rs of Inl _ \<Rightarrow> ''error'' | Inr _ \<Rightarrow> ''success'')])"

definition metered :: "'s storage_client \<Rightarrow> string \<Rightarrow> ('s \<times> metric_event list) storage_client" where
  "metered client backend = \<lparr>
     sc_put = (\<lambda>key data content_type (s, ms). recorded_as backend ''put'' (sc_put client key data content_type s) ms),
     sc_get = (\<lambda>key (s, ms). recorded_as backend ''get'' (sc_get client key s) ms),
     sc_delete = (\<lambda>key (s, ms). recorded_as backend ''delete'' (sc_delete client key s) ms),
     sc_presign_url = (\<lambda>key expires_in (s, ms). recorded_as backend ''presign_url'' (sc_presign_url client key expires_in s) ms),
     sc_health_check = (\<lambda>(s, ms). case sc_health_check client s of
         (Inl e, s') \<Rightarrow> (Inl e, s', ms @ [storage_metric backend ''health_check'' ''error''])
       | (Inr healthy, s') \<Rightarrow> (Inr healthy, s', ms @ [storage_metric backend ''health_check'' (if healthy then ''success'' else ''unhealthy'')]))\<rparr>"

type_synonym 's storage_registry = "(storage_provider, 's storage_client) dict"

definition register_storage :: "storage_provider \<Rightarrow> 's storage_client \<Rightarrow> 's storage_registry \<Rightarrow> 's storage_registry" where
  "register_storage p client reg = dict_set p client reg"

definition create_storage_client :: "storage_provider \<Rightarrow> 's storage_registry \<Rightarrow> 's storage_client result" where
  "create_storage_client p reg =
     (case dict_get reg p of
        None \<Rightarrow> raise ServiceUnavailableError (''Storage provider '' @ quoted (storage_provider_value p) @ '' is not implemented yet.'')
      | Some client \<Rightarrow> Inr client)"

definition get_storage :: "storage_provider \<Rightarrow> 's storage_registry \<Rightarrow> ('s \<times> metric_event list) storage_client result" where
  "get_storage backend reg =
     (case create_storage_client backend reg of Inl e \<Rightarrow> Inl e | Inr client \<Rightarrow> Inr (metered client (storage_provider_value backend)))"

section \<open>Media files\<close>

definition ALLOWED_MIME_TYPES :: "string list" where
  "ALLOWED_MIME_TYPES = [''image/png'', ''image/jpeg'', ''image/webp'', ''image/gif'', ''video/mp4'', ''video/webm'', ''audio/mpeg'',
     ''audio/wav'', ''audio/webm'', ''application/pdf'', ''text/plain'', ''application/json'']"

definition guess_mime_type :: "(string \<Rightarrow> string option) \<Rightarrow> string \<Rightarrow> string" where
  \<comment> \<open>\<open>guess\<close> is \<open>mimetypes.guess_type\<close>\<close>
  "guess_mime_type guess filename = (if truthy (guess filename) then the (guess filename) else ''application/octet-stream'')"

definition validate_mime_type :: "string \<Rightarrow> unit result" where
  "validate_mime_type mime = (if mime \<in> set ALLOWED_MIME_TYPES then Inr () else raise ValidationError ''Unsupported file type.'')"

record media_file = entity +
  md_workspace_id :: nat
  md_filename :: string
  md_storage_key :: string
  md_mime_type :: string
  md_size_bytes :: nat
  md_sha256 :: string

record media_db =
  md_files :: "(nat, media_file) dict"
  md_events :: "event list"

datatype upload_exc = UploadStorage storage_exc | UploadDb db_exc

definition media_by_hash :: "nat \<Rightarrow> string \<Rightarrow> media_db \<Rightarrow> media_file option" where
  "media_by_hash w digest db = find_by (\<lambda>m. md_workspace_id m = w \<and> md_sha256 m = digest) (md_files db)"

definition media_clash :: "nat \<Rightarrow> string \<Rightarrow> media_db \<Rightarrow> bool" where
  \<comment> \<open>the unique constraint on workspace and hash, over removed rows too\<close>
  "media_clash w digest db = list_ex (\<lambda>m. md_workspace_id m = w \<and> md_sha256 m = digest) (map snd (md_files db))"

definition upload_mime :: "(string \<Rightarrow> string option) \<Rightarrow> string \<Rightarrow> string option \<Rightarrow> string" where
  "upload_mime guess filename content_type = (if truthy content_type then the content_type else guess_mime_type guess filename)"

definition media_key :: "(string \<Rightarrow> string) \<Rightarrow> nat \<Rightarrow> string \<Rightarrow> string" where
  "media_key sha w data = nat_digits w @ ''/'' @ take 2 (sha data) @ ''/'' @ sha data"

definition new_media :: "nat \<Rightarrow> string \<Rightarrow> string \<Rightarrow> string \<Rightarrow> time \<Rightarrow> stored_object \<Rightarrow> media_file" where
  "new_media w filename mime digest now stored = \<lparr>ent_id = 0, created_at = now, deleted_at = None, md_workspace_id = w, md_filename = filename,
     md_storage_key = so_key stored, md_mime_type = mime, md_size_bytes = so_size_bytes stored, md_sha256 = digest\<rparr>"

definition upload_completed :: "string \<Rightarrow> nat \<Rightarrow> event" where
  "upload_completed key size_bytes = \<lparr>ev_type = ''UploadCompleted'', ev_data = [(''storage_key'', PStr key), (''size_bytes'', PInt (int size_bytes))]\<rparr>"

definition media_upload ::
    "'s storage_client \<Rightarrow> (string \<Rightarrow> string option) \<Rightarrow> (string \<Rightarrow> string) \<Rightarrow> nat \<Rightarrow> string \<Rightarrow> string \<Rightarrow> string option \<Rightarrow> time \<Rightarrow> media_db \<Rightarrow> 's
     \<Rightarrow> (upload_exc + media_file) \<times> media_db \<times> 's" where
  \<comment> \<open>\<open>sha\<close> is the hexadecimal SHA-256 of the runtime\<close>
  "media_upload client guess sha w filename data content_type now db s =
     (let mime = upload_mime guess filename content_type in
      case validate_mime_type mime of
        Inl e \<Rightarrow> (Inl (UploadDb (App e)), db, s)
      | Inr _ \<Rightarrow>
          (case media_by_hash w (sha data) db of
             Some m \<Rightarrow> (Inr m, db, s)
           | None \<Rightarrow>
               (case sc_put client (media_key sha w data) data mime s of
                  (Inl e, s') \<Rightarrow> (Inl (UploadStorage e), db, s')
                | (Inr stored, s') \<Rightarrow>
                    if media_clash w (sha data) db then (Inl (UploadDb (IntegrityError ''uq_media_ws_sha'')), db, s')
                    else
                      let (m, t) = repo_add (new_media w filename mime (sha data) now stored) (md_files db)
                      in (Inr m, db\<lparr>md_files := t, md_events := md_events db @ [upload_completed (so_key stored) (so_size_bytes stored)]\<rparr>, s'))))"

definition media_read :: "'s storage_client \<Rightarrow> media_file \<Rightarrow> 's \<Rightarrow> (storage_exc + string) \<times> 's" where
  "media_read client m s = sc_get client (md_storage_key m) s"

definition hex_chars :: string where "hex_chars = ''0123456789abcdef''"

section \<open>Paths\<close>

lemma walk_plain: "\<forall>s\<in>set ss. s \<noteq> [] \<and> s \<noteq> ''.'' \<and> s \<noteq> ''..'' \<Longrightarrow> walk p ss = p @ ss"
  by (induction ss arbitrary: p) auto

lemma parents_prefix: "q \<in> set (parents p) \<Longrightarrow> q \<noteq> [] \<and> q \<noteq> p \<and> length q < length p"
  by (auto simp: parents_def)

lemma dict_get_mkdirs: "dict_get (mkdirs p fs) q = (if q \<in> set (parents p) then Some Dir else dict_get fs q)"
proof -
  have "dict_get (fold (\<lambda>q. dict_set q Dir) qs fs) q = (if q \<in> set qs then Some Dir else dict_get fs q)" for qs
    by (induction qs arbitrary: fs) auto
  then show ?thesis by (simp add: mkdirs_def)
qed

lemma is_file_mkdirs: "\<not> blocked fs p \<Longrightarrow> is_file (dict_get (mkdirs p fs) q) = is_file (dict_get fs q)
    \<and> (dict_get (mkdirs p fs) q = Some (File d) \<longleftrightarrow> dict_get fs q = Some (File d))"
  by (auto simp: dict_get_mkdirs blocked_def list_ex_iff)

section \<open>What a client may rely on\<close>

locale object_store =
  fixes put :: "string \<Rightarrow> string \<Rightarrow> string \<Rightarrow> 's \<Rightarrow> (storage_exc + stored_object) \<times> 's"
    and get :: "string \<Rightarrow> 's \<Rightarrow> storage_exc + string"
    and same :: "string \<Rightarrow> string \<Rightarrow> bool"
  assumes same_refl: "same k k"
    and put_get: "put k d c s = (Inr ob, s') \<Longrightarrow> same k k' \<Longrightarrow> get k' s' = Inr d"
    and put_frame: "put k d c s = (r, s') \<Longrightarrow> \<not> same k k' \<Longrightarrow> get k' s' = get k' s"
    and put_fails: "put k d c s = (Inl e, s') \<Longrightarrow> get k' s' = get k' s"
    and put_object: "put k d c s = (Inr ob, s') \<Longrightarrow> so_key ob = k \<and> so_size_bytes ob = length d"
begin

lemma read_back: "put k d c s = (Inr ob, s') \<Longrightarrow> get (so_key ob) s' = Inr d"
  using put_get same_refl put_object by metis

lemma put_keeps:
  assumes "put k d c s = (r, s')" "get k' s = Inr d'"
  shows "get k' s' = Inr d' \<or> same k k' \<and> get k' s' = Inr d"
proof (cases r)
  case (Inl e)
  then show ?thesis using put_fails assms by metis
next
  case (Inr ob)
  then show ?thesis using put_get put_frame assms by metis
qed

end

definition same_path :: "local_storage \<Rightarrow> string \<Rightarrow> string \<Rightarrow> bool" where
  "same_path st k k' \<longleftrightarrow> resolve st k = resolve st k'"

lemma local_put_cases:
  obtains (error) e fs' where "local_put st k d c fs = (Inl e, fs')" "\<And>q. is_file (dict_get fs' q) = is_file (dict_get fs q)"
      "\<And>q x. dict_get fs' q = Some (File x) \<longleftrightarrow> dict_get fs q = Some (File x)"
  | (stored) p fs' where "resolve st k = Inr p" "local_put st k d c fs =
        (Inr \<lparr>so_key = k, so_size_bytes = length d, so_content_type = c, so_url = Some (public_url st k)\<rparr>, fs')"
      "\<And>q x. dict_get fs' q = Some (File x) \<longleftrightarrow> (if q = p then x = d else dict_get fs q = Some (File x))"
proof (cases "resolve st k")
  case (Inl e)
  then show ?thesis using error [of e fs] by (simp add: local_put_def)
next
  case (Inr p)
  show ?thesis
  proof (cases "blocked fs p \<or> p = [] \<or> dict_get (mkdirs p fs) p = Some Dir")
    case True
    then show ?thesis
      using error [of OSErr "if blocked fs p then fs else mkdirs p fs"] Inr is_file_mkdirs [of fs p]
      by (auto simp: local_put_def Let_def)
  next
    case False
    then have nb: "\<not> blocked fs p" by simp
    show ?thesis
    proof (rule stored [of p "dict_set p (File d) (mkdirs p fs)"])
      show "resolve st k = Inr p" by (rule Inr)
      show "local_put st k d c fs = (Inr \<lparr>so_key = k, so_size_bytes = length d, so_content_type = c, so_url = Some (public_url st k)\<rparr>,
          dict_set p (File d) (mkdirs p fs))"
        using False Inr by (simp add: local_put_def Let_def)
      show "dict_get (dict_set p (File d) (mkdirs p fs)) q = Some (File x) \<longleftrightarrow> (if q = p then x = d else dict_get fs q = Some (File x))" for q x
        using is_file_mkdirs [OF nb, of q x] by auto
    qed
  qed
qed

lemma local_get_file: "local_get st k fs = (case resolve st k of Inl e \<Rightarrow> Inl e
    | Inr p \<Rightarrow> if \<exists>d. dict_get fs p = Some (File d) then Inr (THE d. dict_get fs p = Some (File d))
               else Inl (StorageApp (app_error_init NotFoundError (Some ''Stored object not found.''))))"
  by (auto simp: local_get_def split: sum.splits option.splits fnode.splits)

lemma local_get_cong:
  "(\<And>p x. resolve st k = Inr p \<Longrightarrow> dict_get fs' p = Some (File x) \<longleftrightarrow> dict_get fs p = Some (File x)) \<Longrightarrow>
     local_get st k fs' = local_get st k fs"
  by (cases "resolve st k") (simp_all add: local_get_file)

interpretation local: object_store "local_put st" "local_get st" "same_path st" for st
proof
  show "same_path st k k" for k by (simp add: same_path_def)
  show "local_get st k' fs' = Inr d" if "local_put st k d c fs = (Inr ob, fs')" "same_path st k k'" for k d c fs ob fs' k'
  proof (cases rule: local_put_cases [of st k d c fs])
    case (stored p fs'')
    then have "resolve st k' = Inr p" "dict_get fs' p = Some (File d)" using that by (auto simp: same_path_def)
    then show ?thesis by (simp add: local_get_def)
  qed (use that in simp)
  show "local_get st k' fs' = local_get st k' fs" if "local_put st k d c fs = (r, fs')" "\<not> same_path st k k'" for k d c fs r fs' k'
    using that by (cases rule: local_put_cases [of st k d c fs]) (auto intro!: local_get_cong simp: same_path_def)
  show "local_get st k' fs' = local_get st k' fs" if "local_put st k d c fs = (Inl e, fs')" for k d c fs e fs' k'
    using that by (cases rule: local_put_cases [of st k d c fs]) (auto intro!: local_get_cong)
  show "so_key ob = k \<and> so_size_bytes ob = length d" if "local_put st k d c fs = (Inr ob, fs')" for k d c fs ob fs'
    using that by (cases rule: local_put_cases [of st k d c fs]) auto
qed

definition metered_get :: "'s storage_client \<Rightarrow> string \<Rightarrow> string \<Rightarrow> 's \<times> metric_event list \<Rightarrow> storage_exc + string" where
  "metered_get client backend key s = fst (sc_get (metered client backend) key s)"

lemma metered_get_local: "metered_get (local_client st) backend k s = local_get st k (fst s)"
  by (simp add: metered_get_def metered_def recorded_as_def local_client_def split: prod.split)

lemma metered_put_local:
  "sc_put (metered (local_client st) backend) k d c s = (r, s') \<Longrightarrow> local_put st k d c (fst s) = (r, fst s')"
  by (cases s) (auto simp: metered_def recorded_as_def local_client_def prod_eq_iff)

interpretation local_metered: object_store "sc_put (metered (local_client st) backend)"
    "metered_get (local_client st) backend" "same_path st" for st backend
  unfolding metered_get_local
  by unfold_locales
    (auto simp: local.same_refl dest!: metered_put_local
      intro: local.put_get local.put_frame local.put_fails dest: local.put_object)


section \<open>Uploaded media\<close>

lemma split_path_append: "c \<notin> set s \<Longrightarrow> split_on c (s @ c # t) = s # split_on c t"
  by (induction s) (auto split: list.split)

lemma split_on_none: "c \<notin> set s \<Longrightarrow> split_on c s = [s]"
  by (induction s) auto

lemma hex_key_path:
  assumes "list_all (\<lambda>c. c \<in> set hex_chars) (sha data)" "2 < length (sha data)" "CHR 0x00 \<notin> set hex_chars"
  shows "resolve st (media_key sha workspace data) = Inr [nat_digits workspace, take 2 (sha data), sha data]"
proof -
  have dig: "c \<notin> set (nat_digits workspace)" if "\<not> is_digit c" for c
    using that nat_digits_all [of workspace] by (auto simp: list_all_iff)
  have slash: "\<not> is_digit (CHR ''/'')" "\<not> is_digit (CHR 0x00)" "\<not> is_digit (CHR ''.'')" by code_simp+
  have hex: "c \<notin> set (sha data)" if "c \<notin> set hex_chars" for c using that assms(1) by (auto simp: list_all_iff)
  have hs: "CHR ''/'' \<notin> set (sha data)" "CHR ''.'' \<notin> set (sha data)" "CHR 0x00 \<notin> set (sha data)"
    by (rule hex, simp add: hex_chars_def)+
  have ne: "nat_digits workspace \<noteq> []" "take 2 (sha data) \<noteq> []" using nat_digits_all assms(2) by auto
  have dots: "s \<noteq> ''.'' \<and> s \<noteq> ''..''" if "CHR ''.'' \<notin> set s" for s using that by auto
  have tk: "CHR ''/'' \<notin> set (take 2 (sha data))" "CHR ''.'' \<notin> set (take 2 (sha data))" "CHR 0x00 \<notin> set (take 2 (sha data))"
    using hs by (auto dest: in_set_takeD)
  have start: "dropWhile is_slash (media_key sha workspace data) = media_key sha workspace data"
    using ne(1) dig [OF slash(1)] by (cases "nat_digits workspace") (auto simp: media_key_def is_slash_def)
  have "split_on (CHR ''/'') (media_key sha workspace data) = [nat_digits workspace, take 2 (sha data), sha data]"
    using dig [OF slash(1)] hs(1) tk(1) by (simp add: media_key_def split_path_append split_on_none)
  moreover have "walk b [nat_digits workspace, take 2 (sha data), sha data] = b @ [nat_digits workspace, take 2 (sha data), sha data]" for b
    using ne dots [OF dig [OF slash(3)]] dots [OF tk(2)] dots [OF hs(2)] assms(2) by (intro walk_plain) auto
  moreover have "CHR 0x00 \<notin> set (media_key sha workspace data)"
    using dig [OF slash(2)] hs(3) tk(3) by (simp add: media_key_def)
  ultimately show ?thesis by (simp add: resolve_def start Let_def)
qed

inductive media_reach :: "local_storage \<Rightarrow> string \<Rightarrow> (string \<Rightarrow> string option) \<Rightarrow> (string \<Rightarrow> string) \<Rightarrow> media_db \<Rightarrow> file_tree \<times> metric_event list \<Rightarrow> bool"
  for st backend guess sha where
  init: "media_reach st backend guess sha \<lparr>md_files = [], md_events = []\<rparr> s"
| upload: "media_reach st backend guess sha db s \<Longrightarrow>
     media_upload (metered (local_client st) backend) guess sha w filename data mime now db s = (r, db', s') \<Longrightarrow> media_reach st backend guess sha db' s'"
| drop: "media_reach st backend guess sha db s \<Longrightarrow> repo_get i (md_files db) = Some m \<Longrightarrow>
     media_reach st backend guess sha (db\<lparr>md_files := soft_delete now m (md_files db)\<rparr>) s"

definition hex_digest :: "(string \<Rightarrow> string) \<Rightarrow> bool" where
  \<comment> \<open>what \<open>hexdigest()\<close> of SHA-256 returns\<close>
  "hex_digest sha \<longleftrightarrow> (\<forall>d. length (sha d) = 64 \<and> list_all (\<lambda>c. c \<in> set hex_chars) (sha d))"

definition media_ok :: "local_storage \<Rightarrow> (string \<Rightarrow> string) \<Rightarrow> media_db \<Rightarrow> file_tree \<Rightarrow> bool" where
  "media_ok st sha db fs \<longleftrightarrow> table_ok (md_files db) \<and> (\<forall>i m. repo_get i (md_files db) = Some m \<longrightarrow>
     (\<exists>d. local_get st (md_storage_key m) fs = Inr d \<and> sha d = md_sha256 m \<and> md_storage_key m = media_key sha (md_workspace_id m) d))"

lemma same_path_media:
  "hex_digest sha \<Longrightarrow> same_path st (media_key sha v c) (media_key sha w d) \<Longrightarrow> v = w \<and> sha c = sha d"
  by (auto simp: same_path_def hex_key_path hex_digest_def hex_chars_def)

lemma media_put_ok:
  assumes sha: "hex_digest sha" and ok: "media_ok st sha db fs" and put: "local_put st (media_key sha w data) data c fs = (r, fs')"
  shows "media_ok st sha db fs'"
  unfolding media_ok_def
proof (intro conjI allI impI)
  show "table_ok (md_files db)" using ok by (simp add: media_ok_def)
  fix i m assume "repo_get i (md_files db) = Some m"
  then obtain d where d: "local_get st (md_storage_key m) fs = Inr d" "sha d = md_sha256 m"
      "md_storage_key m = media_key sha (md_workspace_id m) d"
    using ok unfolding media_ok_def by blast
  from local.put_keeps [OF put d(1)]
  show "\<exists>d. local_get st (md_storage_key m) fs' = Inr d \<and> sha d = md_sha256 m \<and> md_storage_key m = media_key sha (md_workspace_id m) d"
  proof
    assume "local_get st (md_storage_key m) fs' = Inr d"
    with d show ?thesis by blast
  next
    assume *: "same_path st (media_key sha w data) (md_storage_key m) \<and> local_get st (md_storage_key m) fs' = Inr data"
    with same_path_media [OF sha] d(3) have "w = md_workspace_id m" "sha data = sha d" by metis+
    with * d show ?thesis by (auto simp: media_key_def)
  qed
qed

lemma media_upload_ok:
  assumes sha: "hex_digest sha" and ok: "media_ok st sha db (fst s)"
    and up: "media_upload (metered (local_client st) backend) guess sha w filename data mime now db s = (r, db', s')"
  shows "media_ok st sha db' (fst s') \<and> (\<forall>m. r = Inr m \<longrightarrow> (\<exists>d. local_get st (md_storage_key m) (fst s') = Inr d \<and> sha d = sha data))"
proof -
  define mt where "mt = upload_mime guess filename mime"
  note U = up [unfolded media_upload_def mt_def [symmetric] Let_def validate_mime_type_def]
  show ?thesis
  proof (cases "mt \<in> set ALLOWED_MIME_TYPES")
    case False
    with U have "\<exists>e. r = Inl e" "db' = db" "s' = s" by auto
    with ok show ?thesis by auto
  next
    case True
    show ?thesis
    proof (cases "media_by_hash w (sha data) db")
      case (Some m)
      with U True have e: "r = Inr m" "db' = db" "s' = s" by simp_all
      from Some ok have "repo_get (ent_id m) (md_files db) = Some m" "md_sha256 m = sha data"
        unfolding media_by_hash_def media_ok_def by (auto dest: find_by_Some)
      moreover have "\<exists>d. local_get st (md_storage_key m) (fst s) = Inr d \<and> sha d = md_sha256 m"
        using ok calculation(1) unfolding media_ok_def by blast
      ultimately show ?thesis using ok e by auto
    next
      case None
      obtain ro s1 where p: "sc_put (metered (local_client st) backend) (media_key sha w data) data mt s = (ro, s1)" by (metis prod.collapse)
      note put = metered_put_local [OF p]
      note kept = media_put_ok [OF sha ok put]
      from U True None p have V: "(case ro of Inl e \<Rightarrow> (Inl (UploadStorage e), db, s1)
          | Inr stored \<Rightarrow> if media_clash w (sha data) db then (Inl (UploadDb (IntegrityError ''uq_media_ws_sha'')), db, s1)
             else case repo_add (new_media w filename mt (sha data) now stored) (md_files db) of
               (m, t) \<Rightarrow> (Inr m, db\<lparr>md_files := t, md_events := md_events db @ [upload_completed (so_key stored) (so_size_bytes stored)]\<rparr>, s1)) = (r, db', s')"
        by (cases ro) (simp_all add: Let_def split del: if_split)
      show ?thesis
      proof (cases "\<exists>e. r = Inl e")
        case True
        with V have "db' = db" "s' = s1" by (auto split: sum.splits if_splits prod.splits)
        with True kept show ?thesis by auto
      next
        case False
        with V obtain ob where ob: "ro = Inr ob" "\<not> media_clash w (sha data) db" by (auto split: sum.splits if_splits)
        obtain m t where a: "repo_add (new_media w filename mt (sha data) now ob) (md_files db) = (m, t)" by fastforce
        from V ob a have m: "r = Inr m" "md_files db' = t" "s' = s1" by auto
        have g: "local_get st (media_key sha w data) (fst s1) = Inr data" "so_key ob = media_key sha w data"
          using local.read_back [OF put [unfolded ob(1)]] local.put_object [OF put [unfolded ob(1)]] by simp_all
        have mrow: "md_storage_key m = media_key sha w data" "md_sha256 m = sha data" "md_workspace_id m = w"
          using repo_add_new(1) [OF a] g(2) by (simp_all add: new_media_def)
        have "media_ok st sha db' (fst s1)"
          unfolding media_ok_def m(2)
        proof (intro conjI allI impI)
          show "table_ok t" using repo_add_ok [OF _ a] ok by (simp add: media_ok_def)
          fix i x assume "repo_get i t = Some x"
          then have "x = m \<or> repo_get i (md_files db) = Some x"
            using repo_add_new(4) [OF a, of i] by (auto split: if_splits)
          then show "\<exists>d. local_get st (md_storage_key x) (fst s1) = Inr d \<and> sha d = md_sha256 x \<and> md_storage_key x = media_key sha (md_workspace_id x) d"
          proof
            assume "x = m"
            with g(1) mrow show ?thesis by simp
          next
            assume "repo_get i (md_files db) = Some x"
            with kept show ?thesis unfolding media_ok_def by blast
          qed
        qed
        with m mrow g(1) show ?thesis by auto
      qed
    qed
  qed
qed

lemma media_reach_ok: "media_reach st backend guess sha db s \<Longrightarrow> hex_digest sha \<Longrightarrow> media_ok st sha db (fst s)"
proof (induction rule: media_reach.induct)
  case (init s)
  show ?case by (simp add: media_ok_def repo_get_def)
next
  case (upload db s w filename data mime now r db' s')
  then show ?case using media_upload_ok by blast
next
  case (drop db s i m now)
  then have "ent_id m = i" using repo.get_key by (auto simp: media_ok_def)
  with drop show ?case by (auto simp: media_ok_def soft_delete_def)
qed


text \<open>
  A file that was removed (softly) cannot be uploaded again: the hash lookup skips the removed row,
  the unique constraint does not.
\<close>
theorem reupload_after_removal_fails:
  assumes "repo_get i (md_files db) = Some m" "deleted_at m \<noteq> None" "md_workspace_id m = w" "md_sha256 m = sha data"
    and "media_by_hash w (sha data) db = None" "upload_mime guess filename mime \<in> set ALLOWED_MIME_TYPES"
    and "sc_put client (media_key sha w data) data (upload_mime guess filename mime) s = (Inr ob, s')"
  shows "media_upload client guess sha w filename data mime now db s = (Inl (UploadDb (IntegrityError ''uq_media_ws_sha'')), db, s')"
proof -
  have "media_clash w (sha data) db"
    using assms(1,3,4) by (auto simp: media_clash_def repo_get_def list_ex_iff dest!: map_of_SomeD intro!: bexI [of _ "(i, m)"])
  with assms(5-7) show ?thesis by (simp add: media_upload_def validate_mime_type_def Let_def)
qed

section \<open>Witnesses\<close>

definition sample_store :: local_storage where
  "sample_store = local_storage_init [''var'', ''storage''] ''http://files/''"

definition sample_sha :: "string \<Rightarrow> string" where
  "sample_sha d = replicate 64 (if length d mod 2 = 0 then CHR ''a'' else CHR ''b'')"

definition sample_upload :: "(upload_exc + media_file) \<times> media_db \<times> file_tree \<times> metric_event list" where
  "sample_upload = media_upload (metered (local_client sample_store) ''local'') (\<lambda>_. None) sample_sha 7 ''clip.mp4'' ''bytes''
     (Some ''video/mp4'') 0 \<lparr>md_files = [], md_events = []\<rparr> ([], [])"



end
