(* ===== verification/Pipeline_Providers.thy ===== *)
theory Pipeline_Providers
  imports Storage Billing
begin

text \<open>
  The external services of the video pipeline (\<^verbatim>\<open>app/core/pipeline/\<close>): the provider contracts, the
  registry and the deterministic mocks, which write their output through the storage client. A
  provider acts on the state of the outside world, a type parameter; it answers or raises, and an
  exception is its text. SHA-256 is a parameter. Floats are exact. The publication time that a
  publish provider reports is read by no one and left out.
\<close>

section \<open>Contracts\<close>

datatype provider_kind = PK_SPEECH | PK_RENDER | PK_PUBLISH | PK_ANALYTICS

fun provider_kind_value :: "provider_kind \<Rightarrow> string" where
  "provider_kind_value PK_SPEECH = ''speech''"
| "provider_kind_value PK_RENDER = ''render''"
| "provider_kind_value PK_PUBLISH = ''publish''"
| "provider_kind_value PK_ANALYTICS = ''analytics''"

record speech_result =
  sr_storage_key :: string
  sr_duration_seconds :: rat
  sr_voice :: string
  sr_size_bytes :: nat

record render_result =
  rr_storage_key :: string
  rr_duration_seconds :: rat
  rr_width :: int
  rr_height :: int
  rr_size_bytes :: nat

record publish_result =
  pu_external_id :: string
  pu_url :: string

record analytics_snapshot =
  sn_measured_on :: int
  sn_views :: int
  sn_likes :: int
  sn_comments :: int
  sn_watch_time_seconds :: int
  sn_impressions :: int
  sn_extra :: pydict

definition click_through_rate :: "int \<Rightarrow> int \<Rightarrow> rat" where
  \<comment> \<open>of views and impressions\<close>
  "click_through_rate views impressions = (if impressions \<noteq> 0 then of_int views / of_int impressions else 0)"

type_synonym ('a, 's) external = "'s \<Rightarrow> (string + 'a) \<times> 's"

type_synonym 's speech_provider = "string \<Rightarrow> string \<Rightarrow> string \<Rightarrow> (speech_result, 's) external"
  \<comment> \<open>text, voice and storage key\<close>
type_synonym 's render_provider = "string \<Rightarrow> string option \<Rightarrow> string \<Rightarrow> pydict option \<Rightarrow> (render_result, 's) external"
  \<comment> \<open>script, audio key, storage key and options\<close>
type_synonym 's publish_provider =
  "string \<Rightarrow> string \<Rightarrow> string option \<Rightarrow> pyval list \<Rightarrow> pydict option \<Rightarrow> (publish_result, 's) external"
  \<comment> \<open>video key, title, description, tags and options\<close>
type_synonym 's analytics_provider = "string \<Rightarrow> int option \<Rightarrow> (analytics_snapshot, 's) external"
  \<comment> \<open>external id and day\<close>

section \<open>The registry\<close>

record 's pipeline_registry =
  \<comment> \<open>the factories of one kind, by slug\<close>
  pr_speech :: "(string, 's speech_provider) dict"
  pr_render :: "(string, 's render_provider) dict"
  pr_publish :: "(string, 's publish_provider) dict"
  pr_analytics :: "(string, 's analytics_provider) dict"

record pipeline_settings =
  set_speech_provider :: string
  set_render_provider :: string
  set_publish_provider :: string
  set_analytics_provider :: string

definition configured_slug :: "pipeline_settings \<Rightarrow> provider_kind \<Rightarrow> string" where
  "configured_slug cfg kind = (case kind of PK_SPEECH \<Rightarrow> set_speech_provider cfg | PK_RENDER \<Rightarrow> set_render_provider cfg
     | PK_PUBLISH \<Rightarrow> set_publish_provider cfg | PK_ANALYTICS \<Rightarrow> set_analytics_provider cfg)"

definition pipeline_provider :: "pipeline_settings \<Rightarrow> provider_kind \<Rightarrow> (string, 'p) dict \<Rightarrow> string option \<Rightarrow> 'p result" where
  \<comment> \<open>\<open>get_provider\<close>, on the factories registered for the kind\<close>
  "pipeline_provider cfg kind factories slug =
     (let resolved = (if truthy slug then the slug else configured_slug cfg kind) in
      case dict_get factories resolved of
        None \<Rightarrow> raise ServiceUnavailableError (''No '' @ provider_kind_value kind @ '' provider registered for '' @ quoted resolved @ ''.'')
      | Some p \<Rightarrow> Inr p)"

definition available_providers :: "(string, 'p) dict \<Rightarrow> string list" where
  "available_providers factories = sort (keys factories)"

section \<open>The mocks\<close>

definition utf8 :: "string \<Rightarrow> string" where
  \<comment> \<open>\<open>str.encode()\<close> of Latin-1 characters\<close>
  "utf8 s = concat (map (\<lambda>c. let n = (of_char c :: nat) in if n < 128 then [c] else [char_of (192 + n div 64), char_of (128 + n mod 64)]) s)"

definition WORDS_PER_MINUTE :: nat where "WORDS_PER_MINUTE = 150"

definition hex_value :: "string \<Rightarrow> nat" where
  \<comment> \<open>\<open>int(s, 16)\<close> of small hexadecimal digits\<close>
  "hex_value s = foldl (\<lambda>acc c. 16 * acc + length (takeWhile (\<lambda>h. h \<noteq> c) hex_chars)) 0 s"

definition seeded :: "(string \<Rightarrow> string) \<Rightarrow> string \<Rightarrow> nat" where
  "seeded sha v = hex_value (take 8 (sha (utf8 v)))"

definition hex8 :: "nat \<Rightarrow> string" where
  \<comment> \<open>\<open>f"{n:08x}"\<close> of a number below \<open>16 ^ 8\<close>\<close>
  "hex8 n = map (\<lambda>i. hex_chars ! (n div 16 ^ (7 - i) mod 16)) [0..<8]"

definition estimate_duration :: "string \<Rightarrow> rat" where
  "estimate_duration text = py_round 2 (of_nat (max (length (split_ws text)) 1) / of_nat WORDS_PER_MINUTE * 60)"

definition storage_message :: "storage_exc \<Rightarrow> string" where
  \<comment> \<open>the text of an exception; that of an operating system error is not modelled\<close>
  "storage_message e = (case e of StorageApp a \<Rightarrow> err_message a | OSErr \<Rightarrow> ''OSError'' | BadPath \<Rightarrow> ''embedded null byte'')"

definition store_artifact :: "'s storage_client \<Rightarrow> string \<Rightarrow> string \<Rightarrow> string \<Rightarrow> (stored_object \<times> nat, 's) external" where
  \<comment> \<open>\<open>get_storage().put\<close>, with the size of the payload\<close>
  "store_artifact client key payload content_type s =
     (case sc_put client key payload content_type s of
        (Inl e, s') \<Rightarrow> (Inl (storage_message e), s')
      | (Inr stored, s') \<Rightarrow> (Inr (stored, length payload), s'))"

definition speech_payload :: "string \<Rightarrow> string \<Rightarrow> string" where
  "speech_payload voice text = utf8 (''MOCK-AUDIO voice='' @ voice @ [CHR 0x0A] @ text)"

definition mock_speech :: "'s storage_client \<Rightarrow> 's speech_provider" where
  "mock_speech client text voice storage_key s =
     (case store_artifact client storage_key (speech_payload voice text) ''audio/mpeg'' s of
        (Inl e, s') \<Rightarrow> (Inl e, s')
      | (Inr (stored, bytes), s') \<Rightarrow>
          (Inr \<lparr>sr_storage_key = so_key stored, sr_duration_seconds = estimate_duration text, sr_voice = voice, sr_size_bytes = bytes\<rparr>, s'))"

definition int_option :: "pydict \<Rightarrow> string \<Rightarrow> int \<Rightarrow> int option" where
  \<comment> \<open>\<open>int(settings.get(name, default))\<close>; \<open>None\<close> is an exception\<close>
  "int_option opts name otherwise = (case dict_get opts name of
       None \<Rightarrow> Some otherwise
     | Some (PFloat r) \<Rightarrow> Some (if r < 0 then \<lceil>r\<rceil> else \<lfloor>r\<rfloor>)
     | Some (PStr s) \<Rightarrow> py_int s
     | Some v \<Rightarrow> py_int_of v)"

definition render_payload :: "int \<Rightarrow> int \<Rightarrow> string option \<Rightarrow> string \<Rightarrow> string" where
  "render_payload width height audio_key script = utf8 (''MOCK-VIDEO '' @ int_digits width @ ''x'' @ int_digits height @ '' audio=''
     @ (case audio_key of None \<Rightarrow> ''None'' | Some k \<Rightarrow> k) @ [CHR 0x0A] @ script)"

definition mock_render :: "'s storage_client \<Rightarrow> 's render_provider" where
  "mock_render client script audio_key storage_key options s =
     (let opts = (case options of None \<Rightarrow> [] | Some d \<Rightarrow> d) in
      case (int_option opts ''width'' 1920, int_option opts ''height'' 1080) of
        (Some width, Some height) \<Rightarrow>
          (case store_artifact client storage_key (render_payload width height audio_key script) ''video/mp4'' s of
             (Inl e, s') \<Rightarrow> (Inl e, s')
           | (Inr (stored, bytes), s') \<Rightarrow>
               (Inr \<lparr>rr_storage_key = so_key stored, rr_duration_seconds = estimate_duration script, rr_width = width,
                     rr_height = height, rr_size_bytes = bytes\<rparr>, s'))
      | _ \<Rightarrow> (Inl ''invalid size'', s))"

definition mock_publish :: "(string \<Rightarrow> string) \<Rightarrow> 's publish_provider" where
  "mock_publish sha video_key title description tags options s =
     (let external_id = ''mock-'' @ hex8 (seeded sha video_key)
      in (Inr \<lparr>pu_external_id = external_id, pu_url = ''https://example.invalid/watch?v='' @ external_id\<rparr>, s))"

definition iso_date :: "int \<Rightarrow> string" where
  \<comment> \<open>\<open>date.isoformat()\<close>\<close>
  "iso_date day = zero_pad 4 (int_digits (civil_year day)) @ ''-'' @ zero_pad 2 (int_digits (fst (civil_month_day day))) @ ''-''
     @ zero_pad 2 (int_digits (snd (civil_month_day day)))"

definition mock_fetch :: "(string \<Rightarrow> string) \<Rightarrow> int \<Rightarrow> 's analytics_provider" where
  \<comment> \<open>\<open>today\<close> is the clock's day\<close>
  "mock_fetch sha today external_id on s =
     (let measured_on = (case on of None \<Rightarrow> today | Some d \<Rightarrow> d);
          seed = seeded sha (external_id @ '':'' @ iso_date measured_on);
          views = int (seed mod 10000)
      in (Inr \<lparr>sn_measured_on = measured_on, sn_views = views, sn_likes = views div 20, sn_comments = views div 200,
               sn_watch_time_seconds = views * 45, sn_impressions = views * 8 + 1, sn_extra = []\<rparr>, s))"

definition mock_registry :: "'s storage_client \<Rightarrow> (string \<Rightarrow> string) \<Rightarrow> int \<Rightarrow> 's pipeline_registry" where
  \<comment> \<open>\<open>_register_mocks\<close>\<close>
  "mock_registry client sha today = \<lparr>pr_speech = [(''mock'', mock_speech client)], pr_render = [(''mock'', mock_render client)],
     pr_publish = [(''mock'', mock_publish sha)], pr_analytics = [(''mock'', mock_fetch sha today)]\<rparr>"

section \<open>What the mocks promise\<close>

text \<open>
  A provider that produces an artifact returns the key it was asked to write, and the object read
  back under that key has the size it reports. Whatever else a client stores under other paths
  leaves the artifact alone.
\<close>

locale artifact_writer = object_store +
  fixes produce :: "'i \<Rightarrow> string \<Rightarrow> (string \<times> nat, 's) external"
    and payload :: "'i \<Rightarrow> string"
    and mime :: string
  assumes produce_puts: "produce i k s = (Inr (k', n), s') \<Longrightarrow>
      \<exists>ob. put k (payload i) mime s = (Inr ob, s') \<and> k' = so_key ob \<and> n = length (payload i)"
begin

lemma written: "produce i k s = (Inr (k', n), s') \<Longrightarrow> k' = k \<and> get k s' = Inr (payload i) \<and> n = length (payload i)"
  using produce_puts put_object put_get same_refl by metis

lemma written_kept:
  "produce i k s = (Inr (k', n), s') \<Longrightarrow> put k2 d c s' = (r, s2) \<Longrightarrow> \<not> same k2 k \<Longrightarrow> get k s2 = Inr (payload i)"
  using written put_frame by metis

end

definition speech_write :: "'s storage_client \<Rightarrow> string \<times> string \<Rightarrow> string \<Rightarrow> (string \<times> nat, 's) external" where
  "speech_write client i key s = (case mock_speech client (snd i) (fst i) key s of
     (Inl e, s') \<Rightarrow> (Inl e, s') | (Inr r, s') \<Rightarrow> (Inr (sr_storage_key r, sr_size_bytes r), s'))"

definition render_write :: "'s storage_client \<Rightarrow> (int \<times> int) \<times> string option \<times> string \<Rightarrow> string \<Rightarrow> (string \<times> nat, 's) external" where
  "render_write client i key s =
     (case mock_render client (snd (snd i)) (fst (snd i)) key
         (Some [(''width'', PInt (fst (fst i))), (''height'', PInt (snd (fst i)))]) s of
        (Inl e, s') \<Rightarrow> (Inl e, s') | (Inr r, s') \<Rightarrow> (Inr (rr_storage_key r, rr_size_bytes r), s'))"

interpretation speech: artifact_writer "sc_put (metered (local_client st) backend)" "metered_get (local_client st) backend"
    "same_path st" "speech_write (metered (local_client st) backend)" "\<lambda>i. speech_payload (fst i) (snd i)" "''audio/mpeg''" for st backend
  by unfold_locales
    (auto simp: speech_write_def mock_speech_def store_artifact_def split: prod.splits sum.splits)

interpretation video: artifact_writer "sc_put (metered (local_client st) backend)" "metered_get (local_client st) backend"
    "same_path st" "render_write (metered (local_client st) backend)"
    "\<lambda>i. render_payload (fst (fst i)) (snd (fst i)) (fst (snd i)) (snd (snd i))" "''video/mp4''" for st backend
  by unfold_locales
    (auto simp: render_write_def mock_render_def int_option_def store_artifact_def split: prod.splits sum.splits)

text \<open>
  The narration a mock provider reports is in the store: reading the reported key gives exactly
  the reported number of bytes, and storing anything under another path afterwards leaves it alone.
\<close>
theorem mock_speech_stored:
  assumes "mock_speech (metered (local_client st) backend) text voice key s = (Inr res, s')"
  shows "sr_storage_key res = key
    \<and> metered_get (local_client st) backend key s' = Inr (speech_payload voice text)
    \<and> sr_size_bytes res = length (speech_payload voice text)
    \<and> (\<forall>k2 d c r s2. sc_put (metered (local_client st) backend) k2 d c s' = (r, s2) \<and> resolve st k2 \<noteq> resolve st key
         \<longrightarrow> metered_get (local_client st) backend key s2 = Inr (speech_payload voice text))"
proof -
  have w: "speech_write (metered (local_client st) backend) (voice, text) key s = (Inr (sr_storage_key res, sr_size_bytes res), s')"
    using assms by (simp add: speech_write_def)
  from speech.written [OF w] speech.written_kept [OF w] show ?thesis
    by (auto simp: same_path_def)
qed

theorem mock_speech_stored_witness:
  "(case mock_speech (metered (local_client sample_store) ''local'') ''Hi'' ''default'' ''a/v1.mp3'' ([], []) of
      (Inr res, s') \<Rightarrow> sr_storage_key res = ''a/v1.mp3'' \<and> sr_size_bytes res = length (speech_payload ''default'' ''Hi'')
    | _ \<Rightarrow> False)"
proof -
  have "(case fst (mock_speech (metered (local_client sample_store) ''local'') ''Hi'' ''default'' ''a/v1.mp3'' ([], [])) of
      Inr _ \<Rightarrow> True | Inl _ \<Rightarrow> False)" by code_simp
  then obtain res where "fst (mock_speech (metered (local_client sample_store) ''local'') ''Hi'' ''default'' ''a/v1.mp3'' ([], [])) = Inr res"
    by (auto split: sum.splits)
  then obtain s' where u: "mock_speech (metered (local_client sample_store) ''local'') ''Hi'' ''default'' ''a/v1.mp3'' ([], []) = (Inr res, s')"
    by (metis prod.collapse)
  from mock_speech_stored [OF u] show ?thesis unfolding u by simp
qed

end
