(* ===== verification/Plugins.thy ===== *)
theory Plugins
  imports Py_Value "HOL-Library.Product_Lexorder"
begin

text \<open>
  Plugins (\<^verbatim>\<open>app/core/plugins/\<close>): manifests and their validation, the registry with the capabilities
  it grants, hook dispatch, and the built-in plugins. A handler is plugin code, a parameter: it
  answers a context with a value, an exception or not at all, and may change in place the lists and
  dictionaries it finds in the payload, which the host shares with it (the payload is copied one
  level deep). The time an invocation takes is left out. The ellipsis sign is the character 0x85.
\<close>

section \<open>Manifests\<close>

datatype capability = READ_CONTEXT | WRITE_CONTEXT | STORAGE | LLM | NETWORK

definition PRIVILEGED_CAPABILITIES :: "capability set" where
  "PRIVILEGED_CAPABILITIES = {NETWORK, LLM}"

datatype hook_name =
  VIDEO_CREATED | SCRIPT_GENERATED | BEFORE_RENDER | AFTER_RENDER | BEFORE_PUBLISH | AFTER_PUBLISH | ANALYTICS_COLLECTED

fun hook_value :: "hook_name \<Rightarrow> string" where
  "hook_value VIDEO_CREATED = ''video.created''"
| "hook_value SCRIPT_GENERATED = ''script.generated''"
| "hook_value BEFORE_RENDER = ''render.before''"
| "hook_value AFTER_RENDER = ''render.after''"
| "hook_value BEFORE_PUBLISH = ''publish.before''"
| "hook_value AFTER_PUBLISH = ''publish.after''"
| "hook_value ANALYTICS_COLLECTED = ''analytics.collected''"

record plugin_manifest =
  mf_name :: string
  mf_version :: string
  mf_display_name :: string
  mf_description :: string
  mf_author :: string
  mf_hooks :: "hook_name list"
  mf_capabilities :: "capability list"
  mf_priority :: int
  mf_timeout_seconds :: rat

definition in_range :: "char \<Rightarrow> char \<Rightarrow> char \<Rightarrow> bool" where
  "in_range lo hi c \<longleftrightarrow> (of_char lo :: nat) \<le> of_char c \<and> of_char c \<le> (of_char hi :: nat)"

definition is_lower :: "char \<Rightarrow> bool" where "is_lower = in_range (CHR ''a'') (CHR ''z'')"
definition is_upper :: "char \<Rightarrow> bool" where "is_upper = in_range (CHR ''A'') (CHR ''Z'')"
definition is_alnum :: "char \<Rightarrow> bool" where "is_alnum c \<longleftrightarrow> is_lower c \<or> is_upper c \<or> is_digit c"

definition at_end :: "(string \<Rightarrow> bool) \<Rightarrow> string \<Rightarrow> bool" where
  \<comment> \<open>\<open>$\<close>: the end of the string, or before a newline that ends it\<close>
  "at_end P s \<longleftrightarrow> P s \<or> (s \<noteq> [] \<and> last s = CHR 0x0A \<and> P (butlast s))"

definition name_body :: "string \<Rightarrow> bool" where
  "name_body s = (case s of [] \<Rightarrow> False | c # cs \<Rightarrow> is_lower c \<and> 1 \<le> length cs \<and> length cs \<le> 63
     \<and> list_all (\<lambda>d. is_lower d \<or> is_digit d \<or> d \<in> {CHR ''_'', CHR ''-''}) cs)"

definition valid_name :: "string \<Rightarrow> bool" where
  \<comment> \<open>\<open>^[a-z][a-z0-9_-]{1,63}$\<close>\<close>
  "valid_name = at_end name_body"

definition digits_then :: "(string \<Rightarrow> bool) \<Rightarrow> string \<Rightarrow> bool" where
  "digits_then P s \<longleftrightarrow> takeWhile is_digit s \<noteq> [] \<and> P (dropWhile is_digit s)"

definition dot_then :: "(string \<Rightarrow> bool) \<Rightarrow> string \<Rightarrow> bool" where
  "dot_then P s = (case s of [] \<Rightarrow> False | c # cs \<Rightarrow> c = CHR ''.'' \<and> P cs)"

definition version_suffix :: "string \<Rightarrow> bool" where
  "version_suffix s = (case s of [] \<Rightarrow> True | c # cs \<Rightarrow> c \<in> {CHR ''-'', CHR ''+''} \<and> cs \<noteq> []
     \<and> list_all (\<lambda>d. is_alnum d \<or> d \<in> {CHR ''.'', CHR ''-''}) cs)"

definition valid_version :: "string \<Rightarrow> bool" where
  \<comment> \<open>\<open>^\d+\.\d+\.\d+(?:[-+][0-9A-Za-z.-]+)?$\<close>\<close>
  "valid_version = at_end (digits_then (dot_then (digits_then (dot_then (digits_then version_suffix)))))"

definition validate_manifest :: "plugin_manifest \<Rightarrow> bool" where
  "validate_manifest m \<longleftrightarrow> valid_name (mf_name m) \<and> valid_version (mf_version m)
     \<and> 1 \<le> length (mf_display_name m) \<and> length (mf_display_name m) \<le> 128
     \<and> length (mf_description m) \<le> 1000 \<and> length (mf_author m) \<le> 128
     \<and> mf_hooks m \<noteq> [] \<and> distinct (mf_hooks m) \<and> distinct (mf_capabilities m)
     \<and> 0 \<le> mf_priority m \<and> mf_priority m \<le> 1000 \<and> 0 < mf_timeout_seconds m \<and> mf_timeout_seconds m \<le> 60"

definition wants :: "plugin_manifest \<Rightarrow> capability \<Rightarrow> bool" where
  "wants m c = (c \<in> set (mf_capabilities m))"

definition privileged :: "plugin_manifest \<Rightarrow> capability set" where
  "privileged m = set (mf_capabilities m) \<inter> PRIVILEGED_CAPABILITIES"

section \<open>The registry\<close>

record hook_context =
  hc_hook :: hook_name
  hc_payload :: pydict
  hc_organization_id :: "string option"
  hc_granted :: "capability set"

definition can :: "hook_context \<Rightarrow> capability \<Rightarrow> bool" where
  "can ctx c = (c \<in> hc_granted ctx)"

datatype hook_answer = Returns pyval | Raises string string | Hangs

type_synonym hook_handler = "hook_context \<Rightarrow> hook_answer \<times> pydict"

record registered_plugin =
  rp_manifest :: plugin_manifest
  rp_handlers :: "(hook_name, hook_handler) dict"
  rp_granted :: "capability set"

definition rp_name :: "registered_plugin \<Rightarrow> string" where
  "rp_name p = mf_name (rp_manifest p)"

record hook_result =
  hr_plugin :: string
  hr_ok :: bool
  hr_patch :: "pydict option"
  hr_error :: "string option"
  hr_timed_out :: bool

type_synonym plugin_registry = "(string, registered_plugin) dict"

definition allowlist :: "string \<Rightarrow> string set" where
  "allowlist setting = set (filter (\<lambda>n. n \<noteq> []) (map strip (split_on (CHR '','') setting)))"

definition grant :: "string \<Rightarrow> plugin_manifest \<Rightarrow> capability set" where
  \<comment> \<open>\<open>setting\<close> is \<open>settings.plugin_privileged_allowlist\<close>\<close>
  "grant setting m =
     (let requested = set (mf_capabilities m); granted = requested - PRIVILEGED_CAPABILITIES
      in if mf_name m \<in> allowlist setting then granted \<union> (requested \<inter> PRIVILEGED_CAPABILITIES) else granted)"

definition plugin_register ::
    "string \<Rightarrow> plugin_manifest \<Rightarrow> (hook_name, hook_handler) dict \<Rightarrow> plugin_registry \<Rightarrow> (registered_plugin \<times> plugin_registry) result" where
  "plugin_register setting m handlers reg =
     (if dict_get reg (mf_name m) \<noteq> None
      then raise ValidationError (''A plugin named '' @ quoted (mf_name m) @ '' is already registered.'')
      else
        let missing = sort (map hook_value (filter (\<lambda>h. h \<notin> set (keys handlers)) (mf_hooks m)));
            undeclared = sort (map hook_value (filter (\<lambda>h. h \<notin> set (mf_hooks m)) (keys handlers)))
        in if missing \<noteq> []
           then raise ValidationError (''Plugin '' @ quoted (mf_name m) @ '' declares hooks with no handler: '' @ join '', '' missing)
           else if undeclared \<noteq> []
           then raise ValidationError (''Plugin '' @ quoted (mf_name m) @ '' supplies handlers for undeclared hooks: '' @ join '', '' undeclared)
           else let p = \<lparr>rp_manifest = m, rp_handlers = handlers, rp_granted = grant setting m\<rparr>
                in Inr (p, dict_set (mf_name m) p reg))"

definition unregister :: "string \<Rightarrow> plugin_registry \<Rightarrow> plugin_registry" where
  "unregister name reg = dict_pop name reg"

definition plugins_clear :: "plugin_registry \<Rightarrow> plugin_registry" where
  "plugins_clear reg = []"

definition plugin_get :: "plugin_registry \<Rightarrow> string \<Rightarrow> registered_plugin option" where
  "plugin_get reg name = dict_get reg name"

definition all_plugins :: "plugin_registry \<Rightarrow> registered_plugin list" where
  "all_plugins reg = sort_key (\<lambda>p. (mf_priority (rp_manifest p), mf_name (rp_manifest p))) (map snd reg)"

definition for_hook :: "plugin_registry \<Rightarrow> hook_name \<Rightarrow> registered_plugin list" where
  "for_hook reg hook = filter (\<lambda>p. dict_get (rp_handlers p) hook \<noteq> None) (all_plugins reg)"

section \<open>Dispatch\<close>

definition plugin_metric :: "registered_plugin \<Rightarrow> hook_name \<Rightarrow> string \<Rightarrow> metric_event" where
  "plugin_metric p hook outcome = (MInc, ''plugin_invocations_total'', [rp_name p, hook_value hook, outcome], 1)"

definition failed_result :: "registered_plugin \<Rightarrow> string \<Rightarrow> bool \<Rightarrow> hook_result" where
  "failed_result p e timed_out = \<lparr>hr_plugin = rp_name p, hr_ok = False, hr_patch = None, hr_error = Some e, hr_timed_out = timed_out\<rparr>"

definition share :: "pydict \<Rightarrow> pydict \<Rightarrow> pydict" where
  \<comment> \<open>the host's payload after the handler changed shared lists and dictionaries in place\<close>
  "share changes payload = map (\<lambda>(k, v). (k, case v of
       PList _ \<Rightarrow> (case dict_get changes k of Some (PList xs) \<Rightarrow> PList xs | _ \<Rightarrow> v)
     | PDict _ \<Rightarrow> (case dict_get changes k of Some (PDict d) \<Rightarrow> PDict d | _ \<Rightarrow> v)
     | _ \<Rightarrow> v)) payload"

fun answer_result :: "registered_plugin \<Rightarrow> hook_name \<Rightarrow> hook_answer \<Rightarrow> hook_result \<times> metric_event list" where
  "answer_result p hook Hangs = (failed_result p ''timed out'' True, [plugin_metric p hook ''timeout''])"
| "answer_result p hook (Raises ty msg) =
     (if ty = ''TimeoutError'' then (failed_result p ''timed out'' True, [plugin_metric p hook ''timeout''])
      else (failed_result p (ty @ '': '' @ msg) False, [plugin_metric p hook ''error'']))"
| "answer_result p hook (Returns v) =
     (case v of
        PNone \<Rightarrow> \<lparr>hr_plugin = rp_name p, hr_ok = True, hr_patch = None, hr_error = None, hr_timed_out = False\<rparr>
      | PDict patch \<Rightarrow> \<lparr>hr_plugin = rp_name p, hr_ok = True, hr_patch = Some patch, hr_error = None, hr_timed_out = False\<rparr>
      | _ \<Rightarrow> failed_result p (''handler returned '' @ type_name v @ '', expected dict or None'') False,
      [plugin_metric p hook ''succeeded''])"

definition invoke ::
    "registered_plugin \<Rightarrow> hook_name \<Rightarrow> pydict \<Rightarrow> string option \<Rightarrow> hook_result \<times> pydict \<times> metric_event list" where
  \<comment> \<open>with the payload as the host sees it afterwards\<close>
  "invoke p hook payload organization =
     (let (answer, changes) = the (dict_get (rp_handlers p) hook)
            \<lparr>hc_hook = hook, hc_payload = payload, hc_organization_id = organization, hc_granted = rp_granted p\<rparr>;
          (r, ms) = answer_result p hook answer
      in (r, share changes payload, ms))"

fun dispatch_all ::
    "registered_plugin list \<Rightarrow> hook_name \<Rightarrow> string option \<Rightarrow> pydict \<Rightarrow> pydict \<times> hook_result list \<times> metric_event list" where
  "dispatch_all [] hook organization current = (current, [], [])"
| "dispatch_all (p # ps) hook organization current =
     (let (r, shared, ms) = invoke p hook current organization;
          next = (case hr_patch r of Some (kv # patch) \<Rightarrow> dict_update shared (kv # patch) | _ \<Rightarrow> shared);
          (final, rs, ms') = dispatch_all ps hook organization next
      in (final, r # rs, ms @ ms'))"

definition dispatch ::
    "plugin_registry \<Rightarrow> hook_name \<Rightarrow> pydict \<Rightarrow> string option \<Rightarrow> pydict \<times> hook_result list \<times> metric_event list" where
  "dispatch reg hook payload organization = dispatch_all (for_hook reg hook) hook organization payload"

section \<open>A sample registry\<close>

definition sample_plugin :: "string \<Rightarrow> int \<Rightarrow> hook_handler \<Rightarrow> registered_plugin" where
  \<comment> \<open>asks for nothing and attaches to the hook before a publication\<close>
  "sample_plugin name priority h = \<lparr>
     rp_manifest = \<lparr>mf_name = name, mf_version = ''1.0.0'', mf_display_name = name, mf_description = [], mf_author = [],
       mf_hooks = [BEFORE_PUBLISH], mf_capabilities = [], mf_priority = priority, mf_timeout_seconds = 5\<rparr>,
     rp_handlers = [(BEFORE_PUBLISH, h)], rp_granted = {}\<rparr>"

definition raising_handler :: hook_handler where
  "raising_handler ctx = (Raises ''RuntimeError'' ''boom'', hc_payload ctx)"

definition titling_handler :: hook_handler where
  "titling_handler ctx = (Returns (PDict [(''title'', PStr ''Patched'')]), hc_payload ctx)"

definition meddling_handler :: hook_handler where
  \<comment> \<open>\<open>context.payload["tags"].append("spam")\<close>, then an exception\<close>
  "meddling_handler ctx = (Raises ''RuntimeError'' ''boom'', dict_set ''tags'' (case dict_get (hc_payload ctx) ''tags'' of
     Some (PList xs) \<Rightarrow> PList (xs @ [PStr ''spam'']) | _ \<Rightarrow> PNone) (hc_payload ctx))"

definition sample_registry :: "hook_handler \<Rightarrow> plugin_registry" where
  "sample_registry h = [(''broken'', sample_plugin ''broken'' 10 h), (''titler'', sample_plugin ''titler'' 20 titling_handler)]"

section \<open>What a registry holds\<close>

inductive registry_reach :: "string \<Rightarrow> plugin_registry \<Rightarrow> bool" for setting where
  init: "registry_reach setting []"
| register: "registry_reach setting reg \<Longrightarrow> plugin_register setting m handlers reg = Inr (p, reg') \<Longrightarrow> registry_reach setting reg'"
| unregister: "registry_reach setting reg \<Longrightarrow> registry_reach setting (unregister name reg)"
| clear: "registry_reach setting reg \<Longrightarrow> registry_reach setting (plugins_clear reg)"

definition plugin_ok :: "string \<Rightarrow> string \<Rightarrow> registered_plugin \<Rightarrow> bool" where
  "plugin_ok setting name p \<longleftrightarrow> rp_name p = name
     \<and> rp_granted p \<subseteq> set (mf_capabilities (rp_manifest p))
     \<and> (rp_granted p \<inter> PRIVILEGED_CAPABILITIES \<noteq> {} \<longrightarrow> name \<in> allowlist setting)
     \<and> set (keys (rp_handlers p)) = set (mf_hooks (rp_manifest p))"

definition registry_ok :: "string \<Rightarrow> plugin_registry \<Rightarrow> bool" where
  "registry_ok setting reg \<longleftrightarrow> dict_ok reg \<and> (\<forall>name p. dict_get reg name = Some p \<longrightarrow> plugin_ok setting name p)"

lemma sort_Nil_iff: "sort xs = [] \<longleftrightarrow> xs = []"
  by (metis set_empty set_sort)

lemma plugin_register_Inr:
  assumes "plugin_register setting m handlers reg = Inr (p, reg')"
  shows "p = \<lparr>rp_manifest = m, rp_handlers = handlers, rp_granted = grant setting m\<rparr>"
    and "reg' = dict_set (mf_name m) p reg"
    and "dict_get reg (mf_name m) = None"
    and "set (keys handlers) = set (mf_hooks m)"
proof -
  define ms where "ms = sort (map hook_value (filter (\<lambda>h. h \<notin> set (keys handlers)) (mf_hooks m)))"
  define us where "us = sort (map hook_value (filter (\<lambda>h. h \<notin> set (mf_hooks m)) (keys handlers)))"
  have *: "dict_get reg (mf_name m) = None \<and> ms = [] \<and> us = []
      \<and> p = \<lparr>rp_manifest = m, rp_handlers = handlers, rp_granted = grant setting m\<rparr>
      \<and> reg' = dict_set (mf_name m) p reg"
    using assms unfolding plugin_register_def Let_def ms_def [symmetric] us_def [symmetric]
    by (auto split: if_splits)
  then show "p = \<lparr>rp_manifest = m, rp_handlers = handlers, rp_granted = grant setting m\<rparr>"
    and "reg' = dict_set (mf_name m) p reg" and "dict_get reg (mf_name m) = None" by simp_all
  from * have "filter (\<lambda>h. h \<notin> set (keys handlers)) (mf_hooks m) = []"
    and "filter (\<lambda>h. h \<notin> set (mf_hooks m)) (keys handlers) = []"
    by (simp_all add: ms_def us_def sort_Nil_iff del: set_map)
  then show "set (keys handlers) = set (mf_hooks m)"
    by (auto simp: filter_empty_conv simp del: set_map)
qed

lemma grant_ok: "plugin_ok setting (mf_name m) \<lparr>rp_manifest = m, rp_handlers = handlers, rp_granted = grant setting m\<rparr>
    \<longleftrightarrow> set (keys handlers) = set (mf_hooks m)"
  unfolding plugin_ok_def rp_name_def grant_def Let_def
  by (simp add: Int_commute del: set_map)

lemma registry_reach_ok: "registry_reach setting reg \<Longrightarrow> registry_ok setting reg"
proof (induction rule: registry_reach.induct)
  case init
  show ?case by (simp add: registry_ok_def)
next
  case (register reg m handlers p reg')
  note R = plugin_register_Inr [OF register.hyps(2)]
  show ?case
    unfolding registry_ok_def
  proof (intro conjI allI impI)
    show "dict_ok reg'"
      using register.IH R by (simp add: registry_ok_def)
    fix name q
    assume q: "dict_get reg' name = Some q"
    show "plugin_ok setting name q"
    proof (cases "name = mf_name m")
      case True
      with q R(2) have "q = p" by simp
      with True R(1,4) show ?thesis by (simp add: grant_ok del: set_map)
    next
      case False
      with q R(2) have "dict_get reg name = Some q" by simp
      with register.IH show ?thesis by (simp add: registry_ok_def)
    qed
  qed
next
  case (unregister reg name)
  then show ?case by (auto simp: registry_ok_def unregister_def)
next
  case (clear reg)
  show ?case by (simp add: registry_ok_def plugins_clear_def)
qed

lemma for_hook_plugin:
  assumes "registry_ok setting reg" "p \<in> set (for_hook reg hook)"
  shows "dict_get reg (rp_name p) = Some p" "plugin_ok setting (rp_name p) p" "hook \<in> set (mf_hooks (rp_manifest p))"
proof -
  from assms(2) obtain name where "(name, p) \<in> set reg" and h: "dict_get (rp_handlers p) hook \<noteq> None"
    by (auto simp: for_hook_def all_plugins_def)
  then have g: "dict_get reg name = Some p"
    using assms(1) by (simp add: registry_ok_def dict_ok_def)
  with assms(1) have ok: "plugin_ok setting name p" by (simp add: registry_ok_def)
  then show "dict_get reg (rp_name p) = Some p" "plugin_ok setting (rp_name p) p"
    using g by (simp_all add: plugin_ok_def)
  show "hook \<in> set (mf_hooks (rp_manifest p))"
    using h ok by (simp add: plugin_ok_def dict_get_None_iff del: set_map)
qed

section \<open>Containment of failing plugins\<close>

definition shares_nothing :: "hook_handler \<Rightarrow> bool" where
  \<comment> \<open>the handler leaves the lists and dictionaries of its payload as they are\<close>
  "shares_nothing h \<longleftrightarrow> (\<forall>ctx. snd (h ctx) = hc_payload ctx)"

definition always_fails :: "hook_handler \<Rightarrow> bool" where
  "always_fails h \<longleftrightarrow> (\<forall>ctx v. fst (h ctx) = Returns v \<longrightarrow> v \<noteq> PNone \<and> (\<forall>d. v \<noteq> PDict d))"

lemma share_same: "dict_ok d \<Longrightarrow> share d d = d"
  unfolding share_def dict_ok_def
  by (rule map_idI) (auto split: pyval.splits)

lemma keys_share [simp]: "keys (share c d) = keys d"
  by (induction d) (auto simp: share_def)

lemma dict_ok_share [simp]: "dict_ok (share c d) = dict_ok d"
  by (simp add: dict_ok_def del: map_map)

lemma answer_result_plugin [simp]: "hr_plugin (fst (answer_result p hook a)) = rp_name p"
  by (cases a) (auto simp: failed_result_def split: pyval.splits)

lemma answer_result_fails:
  "(\<And>v. a = Returns v \<Longrightarrow> v \<noteq> PNone \<and> (\<forall>d. v \<noteq> PDict d)) \<Longrightarrow>
     hr_ok (fst (answer_result p hook a)) = False \<and> hr_patch (fst (answer_result p hook a)) = None"
  by (cases a) (auto simp: failed_result_def split: pyval.splits)

lemma invoke_plugin [simp]: "hr_plugin (fst (invoke p hook payload org)) = rp_name p"
  by (simp add: invoke_def Let_def split: prod.splits) (metis answer_result_plugin fst_conv)

lemma invoke_fails:
  assumes "always_fails h" "shares_nothing h" "dict_get (rp_handlers p) hook = Some h" "dict_ok payload"
  shows "hr_patch (fst (invoke p hook payload org)) = None" "fst (snd (invoke p hook payload org)) = payload"
proof -
  define ctx where "ctx = \<lparr>hc_hook = hook, hc_payload = payload, hc_organization_id = org, hc_granted = rp_granted p\<rparr>"
  obtain a c where ac: "h ctx = (a, c)" by fastforce
  have "c = payload"
    using assms(2) ac by (auto simp: shares_nothing_def ctx_def dest: spec [of _ ctx])
  moreover have "hr_patch (fst (answer_result p hook a)) = None"
    using assms(1) ac answer_result_fails [of a p hook] by (auto simp: always_fails_def dest: spec [of _ ctx])
  moreover have "invoke p hook payload org = (fst (answer_result p hook a), share c payload, snd (answer_result p hook a))"
    using assms(3) ac by (simp add: invoke_def ctx_def Let_def split: prod.splits)
  ultimately show "hr_patch (fst (invoke p hook payload org)) = None" "fst (snd (invoke p hook payload org)) = payload"
    using share_same [OF assms(4)] by simp_all
qed

lemma dispatch_all_step:
  assumes "invoke p hook current org = (r, shared, ms)"
    and "nxt = (case hr_patch r of Some (kv # patch) \<Rightarrow> dict_update shared (kv # patch) | _ \<Rightarrow> shared)"
  shows "dispatch_all (p # ps) hook org current =
    (fst (dispatch_all ps hook org nxt), r # fst (snd (dispatch_all ps hook org nxt)), ms @ snd (snd (dispatch_all ps hook org nxt)))"
  unfolding dispatch_all.simps assms(1) Let_def prod.case assms(2) [symmetric]
  by (simp split: prod.split)

lemma dispatch_all_skip:
  assumes "dict_ok current"
    and "\<And>p. p \<in> set ps \<Longrightarrow> rp_name p = name \<Longrightarrow>
           \<exists>h. dict_get (rp_handlers p) hook = Some h \<and> always_fails h \<and> shares_nothing h"
  shows "fst (dispatch_all (filter (\<lambda>p. rp_name p \<noteq> name) ps) hook org current) = fst (dispatch_all ps hook org current)
       \<and> fst (snd (dispatch_all (filter (\<lambda>p. rp_name p \<noteq> name) ps) hook org current))
         = filter (\<lambda>r. hr_plugin r \<noteq> name) (fst (snd (dispatch_all ps hook org current)))"
  using assms
proof (induction ps arbitrary: current)
  case Nil
  show ?case by simp
next
  case (Cons p ps)
  obtain r shared ms where i: "invoke p hook current org = (r, shared, ms)" by (metis prod_cases3)
  have r: "hr_plugin r = rp_name p" using invoke_plugin [of p hook current org] i by simp
  have sh: "dict_ok shared"
    using i Cons.prems(1) by (auto simp: invoke_def Let_def split: prod.splits)
  show ?case
  proof (cases "rp_name p = name")
    case True
    then obtain h where "dict_get (rp_handlers p) hook = Some h" "always_fails h" "shares_nothing h"
      using Cons.prems(2) by auto
    then have "hr_patch r = None" "shared = current"
      using invoke_fails [OF _ _ _ Cons.prems(1), of h p hook org] i by simp_all
    with True r Cons.IH [OF Cons.prems(1)] Cons.prems(2) show ?thesis
      by (simp add: dispatch_all_step [OF i refl] del: dispatch_all.simps(2))
  next
    case False
    define nxt where "nxt = (case hr_patch r of Some (kv # patch) \<Rightarrow> dict_update shared (kv # patch) | _ \<Rightarrow> shared)"
    have "dict_ok nxt"
      using sh unfolding nxt_def by (simp split: option.split list.split del: dict_update_Cons)
    from Cons.IH [OF this] Cons.prems(2) False r show ?thesis
      by (simp add: dispatch_all_step [OF i nxt_def] del: dispatch_all.simps(2))
  qed
qed

lemma for_hook_unregister:
  assumes "registry_ok setting reg"
  shows "for_hook (unregister name reg) hook = filter (\<lambda>p. rp_name p \<noteq> name) (for_hook reg hook)"
proof -
  have "map snd (dict_pop name reg) = filter (\<lambda>p. rp_name p \<noteq> name) (map snd reg)"
  proof -
    have "\<forall>(n, p) \<in> set reg. rp_name p = n"
      using assms by (auto simp: registry_ok_def dict_ok_def plugin_ok_def)
    then show ?thesis by (induction reg) (auto simp: AList.delete_eq)
  qed
  then show ?thesis
    by (simp add: for_hook_def all_plugins_def unregister_def filter_sort [symmetric] conj_commute)
qed

text \<open>
  C32: In every registry that registration and removal can build, a plugin holds only capabilities
  its manifest requests, holds a privileged one only if the operator's allow-list names it, and is
  called only for the hooks it declares; its hook context reports exactly these capabilities.
\<close>
theorem capabilities_confined:
  assumes "registry_reach setting reg" "p \<in> set (for_hook reg hook)"
  shows "hook \<in> set (mf_hooks (rp_manifest p))
    \<and> (\<forall>c. can \<lparr>hc_hook = hook, hc_payload = payload, hc_organization_id = org, hc_granted = rp_granted p\<rparr> c
         \<longrightarrow> wants (rp_manifest p) c \<and> (c \<in> privileged (rp_manifest p) \<longrightarrow> rp_name p \<in> allowlist setting))"
  using for_hook_plugin [OF registry_reach_ok [OF assms(1)] assms(2)]
  by (auto simp: plugin_ok_def can_def wants_def privileged_def)

text \<open>
  A plugin whose handler fails on every call (it raises, hangs or returns something else than a
  patch) and does not change its payload in place is contained: the final payload and the results
  of all other plugins are those of a dispatch without it, whatever those plugins do.
\<close>
theorem failing_plugin_contained:
  assumes "registry_reach setting reg" "dict_get reg name = Some p" "dict_ok payload"
    and "\<And>h. dict_get (rp_handlers p) hook = Some h \<Longrightarrow> always_fails h \<and> shares_nothing h"
  shows "fst (dispatch reg hook payload org) = fst (dispatch (unregister name reg) hook payload org)
     \<and> filter (\<lambda>r. hr_plugin r \<noteq> name) (fst (snd (dispatch reg hook payload org)))
       = fst (snd (dispatch (unregister name reg) hook payload org))"
proof -
  note ok = registry_reach_ok [OF assms(1)]
  have "\<exists>h. dict_get (rp_handlers q) hook = Some h \<and> always_fails h \<and> shares_nothing h"
    if q: "q \<in> set (for_hook reg hook)" "rp_name q = name" for q
  proof -
    have "q = p" using for_hook_plugin(1) [OF ok q(1)] q(2) assms(2) by simp
    then show ?thesis using q(1) assms(4) by (auto simp: for_hook_def)
  qed
  from dispatch_all_skip [OF assms(3) this] show ?thesis
    by (simp add: dispatch_def for_hook_unregister [OF ok])
qed

lemma sample_registry_reach: "registry_reach [] (sample_registry h)"
proof -
  have b: "plugin_register [] (rp_manifest (sample_plugin ''broken'' 10 h)) [(BEFORE_PUBLISH, h)] []
      = Inr (sample_plugin ''broken'' 10 h, [(''broken'', sample_plugin ''broken'' 10 h)])"
    by (simp add: plugin_register_def sample_plugin_def grant_def Let_def)
  have t: "plugin_register [] (rp_manifest (sample_plugin ''titler'' 20 titling_handler)) [(BEFORE_PUBLISH, titling_handler)]
        [(''broken'', sample_plugin ''broken'' 10 h)]
      = Inr (sample_plugin ''titler'' 20 titling_handler, sample_registry h)"
    by (simp add: plugin_register_def sample_plugin_def sample_registry_def grant_def Let_def)
  show ?thesis
    by (rule registry_reach.register [OF registry_reach.register [OF registry_reach.init b] t])
qed

lemma sample_for_hook:
  "for_hook (sample_registry h) BEFORE_PUBLISH = [sample_plugin ''broken'' 10 h, sample_plugin ''titler'' 20 titling_handler]"
  by (simp add: for_hook_def all_plugins_def sample_registry_def sample_plugin_def)

theorem capabilities_confined_witness:
  "registry_reach [] (sample_registry raising_handler)
   \<and> sample_plugin ''titler'' 20 titling_handler \<in> set (for_hook (sample_registry raising_handler) BEFORE_PUBLISH)
   \<and> BEFORE_PUBLISH \<in> set (mf_hooks (rp_manifest (sample_plugin ''titler'' 20 titling_handler)))"
  using capabilities_confined [OF sample_registry_reach, of "sample_plugin ''titler'' 20 titling_handler" raising_handler BEFORE_PUBLISH]
  by (simp add: sample_registry_reach sample_for_hook)

theorem failing_plugin_contained_witness:
  "fst (dispatch (sample_registry raising_handler) BEFORE_PUBLISH [(''title'', PStr ''Draft'')] None)
   = fst (dispatch (unregister ''broken'' (sample_registry raising_handler)) BEFORE_PUBLISH [(''title'', PStr ''Draft'')] None)
   \<and> fst (dispatch (sample_registry raising_handler) BEFORE_PUBLISH [(''title'', PStr ''Draft'')] None) = [(''title'', PStr ''Patched'')]"
proof -
  have "always_fails h \<and> shares_nothing h"
    if "dict_get (rp_handlers (sample_plugin ''broken'' 10 raising_handler)) BEFORE_PUBLISH = Some h" for h
    using that by (auto simp: sample_plugin_def raising_handler_def always_fails_def shares_nothing_def)
  then have "fst (dispatch (sample_registry raising_handler) BEFORE_PUBLISH [(''title'', PStr ''Draft'')] None)
      = fst (dispatch (unregister ''broken'' (sample_registry raising_handler)) BEFORE_PUBLISH [(''title'', PStr ''Draft'')] None)"
    using failing_plugin_contained [OF sample_registry_reach, of raising_handler "''broken''" "sample_plugin ''broken'' 10 raising_handler"
        "[(''title'', PStr ''Draft'')]" BEFORE_PUBLISH None]
    by (simp add: sample_registry_def dict_ok_def)
  moreover have "fst (dispatch (sample_registry raising_handler) BEFORE_PUBLISH [(''title'', PStr ''Draft'')] None) = [(''title'', PStr ''Patched'')]"
    by (simp add: dispatch_def sample_for_hook invoke_def sample_plugin_def raising_handler_def titling_handler_def share_def failed_result_def)
  ultimately show ?thesis by blast
qed

section \<open>Limits of the capability model\<close>

text \<open>A plugin that was granted no capability, not even \<open>WRITE_CONTEXT\<close>, still has its patch applied.\<close>
theorem patch_without_write_context:
  "registry_reach [] (sample_registry raising_handler)
   \<and> rp_granted (the (plugin_get (sample_registry raising_handler) ''titler'')) = {}
   \<and> fst (dispatch (sample_registry raising_handler) BEFORE_PUBLISH [(''title'', PStr ''Draft'')] None) = [(''title'', PStr ''Patched'')]"
proof (intro conjI)
  show "registry_reach [] (sample_registry raising_handler)" by (rule sample_registry_reach)
  show "rp_granted (the (plugin_get (sample_registry raising_handler) ''titler'')) = {}"
    by (simp add: plugin_get_def sample_registry_def sample_plugin_def)
  show "fst (dispatch (sample_registry raising_handler) BEFORE_PUBLISH [(''title'', PStr ''Draft'')] None) = [(''title'', PStr ''Patched'')]"
    by (simp add: dispatch_def sample_for_hook invoke_def sample_plugin_def raising_handler_def titling_handler_def share_def failed_result_def)
qed

text \<open>A plugin that raises can still change the payload: the copy it is given shares its nested lists.\<close>
theorem failing_plugin_changes_nested_list:
  "fst (dispatch (sample_registry meddling_handler) BEFORE_PUBLISH [(''tags'', PList [PStr ''news''])] None)
   = [(''tags'', PList [PStr ''news'', PStr ''spam'']), (''title'', PStr ''Patched'')]"
  by (simp add: dispatch_def sample_for_hook invoke_def sample_plugin_def meddling_handler_def titling_handler_def share_def failed_result_def)

text \<open>The pattern's end anchor accepts a name that ends in a newline.\<close>
theorem name_with_newline_accepted: "valid_name (''title-case'' @ [CHR 0x0A]) \<and> \<not> name_body (''title-case'' @ [CHR 0x0A])"
  by code_simp

end
