(* ===== verification/Plugin_Builtins.thy ===== *)
theory Plugin_Builtins
  imports Plugins
begin

text \<open>
  The plugins that ship with the platform (\<^verbatim>\<open>app/core/plugins/builtin.py\<close>): title case, hashtag
  extraction and the description guard, and their registration. Strings are Latin-1: the two small
  letters whose capital lies outside (0xB5 and 0xFF) keep their case, and the ellipsis that the guard
  appends is the character 0x85.
\<close>

section \<open>Title case\<close>

definition MINOR_WORDS :: "string list" where
  "MINOR_WORDS = [''a'', ''an'', ''and'', ''as'', ''at'', ''but'', ''by'', ''for'', ''in'', ''nor'', ''of'', ''on'', ''or'',
     ''the'', ''to'', ''up'', ''via'', ''vs'']"

definition builtin_manifest :: "string \<Rightarrow> string \<Rightarrow> string \<Rightarrow> hook_name \<Rightarrow> int \<Rightarrow> plugin_manifest" where
  \<comment> \<open>what the three manifests have in common\<close>
  "builtin_manifest name display text hook priority = \<lparr>mf_name = name, mf_version = ''1.0.0'', mf_display_name = display,
     mf_description = text, mf_author = ''AI YouTube Factory'', mf_hooks = [hook],
     mf_capabilities = [READ_CONTEXT, WRITE_CONTEXT], mf_priority = priority, mf_timeout_seconds = 5\<rparr>"

definition TITLE_CASE :: plugin_manifest where
  "TITLE_CASE = builtin_manifest ''title-case'' ''Title case'' ''Applies headline capitalisation to video titles.'' VIDEO_CREATED 10"

definition upper_char :: "char \<Rightarrow> string" where
  \<comment> \<open>\<open>str.upper\<close> of one character; the sharp s gives two\<close>
  "upper_char c = (let n = (of_char c :: nat)
     in if (97 \<le> n \<and> n \<le> 122) \<or> (224 \<le> n \<and> n \<le> 254 \<and> n \<noteq> 247) then [char_of (n - 32)]
        else if n = 223 then ''SS'' else [c])"

definition is_cased_lower :: "char \<Rightarrow> bool" where
  "is_cased_lower c = (let n = (of_char c :: nat)
     in (97 \<le> n \<and> n \<le> 122) \<or> n = 170 \<or> n = 181 \<or> n = 186 \<or> (223 \<le> n \<and> n \<noteq> 247))"

definition is_cased_upper :: "char \<Rightarrow> bool" where
  "is_cased_upper c = (let n = (of_char c :: nat) in (65 \<le> n \<and> n \<le> 90) \<or> (192 \<le> n \<and> n \<le> 222 \<and> n \<noteq> 215))"

definition isupper :: "string \<Rightarrow> bool" where
  "isupper s \<longleftrightarrow> list_ex is_cased_upper s \<and> \<not> list_ex is_cased_lower s"

definition capitalise :: "string \<Rightarrow> string" where
  "capitalise w = (case w of [] \<Rightarrow> [] | c # cs \<Rightarrow> upper_char c @ cs)"

definition headline_word :: "bool \<Rightarrow> string \<Rightarrow> string" where
  "headline_word first_or_last w =
     (if lower w \<in> set MINOR_WORDS \<and> \<not> first_or_last then lower w
      else if isupper w \<and> 1 < length w then w
      else capitalise w)"

definition headline_words :: "string list \<Rightarrow> string list" where
  "headline_words ws = map (\<lambda>i. headline_word (i = 0 \<or> i = length ws - 1) (ws ! i)) [0..<length ws]"

definition headline_case :: "string \<Rightarrow> string" where
  "headline_case title = join '' '' (headline_words (split_ws title))"

definition title_case :: hook_handler where
  "title_case ctx =
     (Returns (case dict_get (hc_payload ctx) ''title'' of
          Some (PStr title) \<Rightarrow>
            if strip title = [] then PNone
            else let formatted = headline_case title
                 in if formatted \<noteq> title then PDict [(''title'', PStr formatted)] else PNone
        | _ \<Rightarrow> PNone),
      hc_payload ctx)"

section \<open>Hashtags\<close>

definition HASHTAGS :: plugin_manifest where
  "HASHTAGS = builtin_manifest ''hashtag-extract'' ''Hashtag extraction''
     ''Collects #hashtags from the description into a tag list.'' BEFORE_PUBLISH 20"

definition MAX_TAGS :: nat where "MAX_TAGS = 15"

definition is_letter :: "char \<Rightarrow> bool" where "is_letter c \<longleftrightarrow> is_lower c \<or> is_upper c"

definition tag_at :: "string \<Rightarrow> string option" where
  \<comment> \<open>the group of \<open>#([A-Za-z][A-Za-z0-9_]{1,49})\<close> at the start of the text\<close>
  "tag_at s = (case s of
       h # c # cs \<Rightarrow>
         let rest = take 49 (takeWhile (\<lambda>d. is_alnum d \<or> d = CHR ''_'') cs)
         in if h = CHR ''#'' \<and> is_letter c \<and> rest \<noteq> [] then Some (c # rest) else None
     | _ \<Rightarrow> None)"

function find_tags :: "string \<Rightarrow> string list" where
  \<comment> \<open>\<open>_HASHTAG_RE.finditer\<close>: leftmost matches that do not overlap\<close>
  "find_tags [] = []"
| "find_tags (c # cs) = (case tag_at (c # cs) of
     Some tag \<Rightarrow> tag # find_tags (drop (length tag) cs)
   | None \<Rightarrow> find_tags cs)"
  by pat_completeness auto
termination by (relation "measure length") auto

fun add_unseen :: "'a list \<Rightarrow> 'a list \<Rightarrow> 'a list" where
  "add_unseen seen [] = seen"
| "add_unseen seen (x # xs) = add_unseen (if x \<in> set seen then seen else seen @ [x]) xs"

definition extract_hashtags :: hook_handler where
  "extract_hashtags ctx =
     (Returns (case dict_get (hc_payload ctx) ''description'' of
          Some (PStr description) \<Rightarrow>
            let seen = add_unseen [] (map lower (find_tags description));
                existing = (case dict_get (hc_payload ctx) ''tags'' of Some (PList xs) \<Rightarrow> xs | _ \<Rightarrow> [])
            in if seen = [] then PNone
               else PDict [(''tags'', PList (take MAX_TAGS (add_unseen existing (map PStr seen))))]
        | _ \<Rightarrow> PNone),
      hc_payload ctx)"

section \<open>Description guard\<close>

definition DESCRIPTION_GUARD :: plugin_manifest where
  "DESCRIPTION_GUARD = builtin_manifest ''description-guard'' ''Description guard''
     ''Truncates descriptions to YouTube's limit on a word boundary.'' BEFORE_PUBLISH 30"

definition MAX_DESCRIPTION :: nat where "MAX_DESCRIPTION = 5000"

definition rfind_space :: "string \<Rightarrow> int" where
  \<comment> \<open>\<open>s.rfind(" ")\<close>\<close>
  "rfind_space s = int (length s) - int (length (takeWhile (\<lambda>c. c \<noteq> CHR '' '') (rev s))) - 1"

definition guard_text :: "string \<Rightarrow> string" where
  "guard_text description =
     (let cut = take MAX_DESCRIPTION description; boundary = rfind_space cut;
          cut' = (if boundary > int MAX_DESCRIPTION - 200 then take (nat boundary) cut else cut)
      in rstrip cut' @ [CHR 0x85])"

definition guard_description :: hook_handler where
  "guard_description ctx =
     (Returns (case dict_get (hc_payload ctx) ''description'' of
          Some (PStr description) \<Rightarrow>
            if length description \<le> MAX_DESCRIPTION then PNone
            else PDict [(''description'', PStr (guard_text description))]
        | _ \<Rightarrow> PNone),
      hc_payload ctx)"

section \<open>Registration\<close>

definition register_builtin :: "string \<Rightarrow> plugin_manifest \<Rightarrow> hook_handler \<Rightarrow> plugin_registry \<Rightarrow> plugin_registry result" where
  "register_builtin setting m h reg =
     (if plugin_get reg (mf_name m) = None
      then (case plugin_register setting m [(hd (mf_hooks m), h)] reg of Inl e \<Rightarrow> Inl e | Inr (_, reg') \<Rightarrow> Inr reg')
      else Inr reg)"

definition register_builtin_plugins :: "string \<Rightarrow> plugin_registry \<Rightarrow> plugin_registry result" where
  "register_builtin_plugins setting reg =
     (case register_builtin setting TITLE_CASE title_case reg of
        Inl e \<Rightarrow> Inl e
      | Inr reg1 \<Rightarrow>
        (case register_builtin setting HASHTAGS extract_hashtags reg1 of
           Inl e \<Rightarrow> Inl e
         | Inr reg2 \<Rightarrow> register_builtin setting DESCRIPTION_GUARD guard_description reg2))"

section \<open>Headlines settle\<close>

lemma of_char_lower:
  "(of_char (lower_char c) :: nat) = (let n = of_char c
     in if (65 \<le> n \<and> n \<le> 90) \<or> (192 \<le> n \<and> n \<le> 222 \<and> n \<noteq> 215) then n + 32 else n)"
  by (auto simp: lower_char_def Let_def)

lemma upper_char_cases:
  obtains (letter) d where "upper_char c = [d]" "(of_char d :: nat) = of_char c - 32" "(of_char c :: nat) \<le> 254"
      "(97 \<le> (of_char c :: nat) \<and> (of_char c :: nat) \<le> 122) \<or> (224 \<le> (of_char c :: nat) \<and> (of_char c :: nat) \<noteq> 247)"
  | (sharp) "(of_char c :: nat) = 223" "upper_char c = ''SS''"
  | (other) "upper_char c = [c]"
proof -
  have "(of_char (char_of ((of_char c :: nat) - 32) :: char) :: nat) = of_char c - 32"
    if "(of_char c :: nat) \<le> 254" using that by simp
  then show ?thesis
    using letter [of "char_of ((of_char c :: nat) - 32)"] sharp other
    by (cases "(97 \<le> (of_char c :: nat) \<and> (of_char c :: nat) \<le> 122)
        \<or> (224 \<le> (of_char c :: nat) \<and> (of_char c :: nat) \<le> 254 \<and> (of_char c :: nat) \<noteq> 247)";
      cases "(of_char c :: nat) = 223") (auto simp: upper_char_def Let_def)
qed

lemma lower_char_idem [simp]: "lower_char (lower_char c) = lower_char c"
proof -
  have "(of_char (lower_char (lower_char c)) :: nat) = of_char (lower_char c)"
    unfolding of_char_lower [of "lower_char c"] by (auto simp: of_char_lower Let_def)
  then show ?thesis by simp
qed

lemma lower_idem [simp]: "lower (lower s) = lower s"
  by (simp add: lower_def)

lemma lower_nonspace: "\<not> is_space c \<Longrightarrow> \<not> is_space (lower_char c)"
  by (auto simp: is_space_def of_char_lower Let_def split: if_splits)

lemma upper_nonspace: "\<not> is_space c \<Longrightarrow> list_all (\<lambda>d. \<not> is_space d) (upper_char c)"
  by (cases rule: upper_char_cases [of c]) (auto simp: is_space_def Let_def)

lemma upper_nonempty [simp]: "upper_char c \<noteq> []"
  by (cases rule: upper_char_cases [of c]) auto

lemma upper_upper: "upper_char (hd (upper_char c)) = [hd (upper_char c)]"
proof (cases rule: upper_char_cases [of c])
  case (letter d)
  then show ?thesis by (cases rule: upper_char_cases [of d]) auto
next
  case sharp
  then show ?thesis by (simp add: upper_char_def)
next
  case other
  then show ?thesis by simp
qed

lemma lower_upper: "lower (upper_char c) = ''ss'' \<or> lower (upper_char c) = [lower_char c]"
proof (cases rule: upper_char_cases [of c])
  case (letter d)
  then have "(of_char (lower_char d) :: nat) = of_char (lower_char c)"
    by (auto simp: of_char_lower Let_def)
  with letter show ?thesis by (simp add: lower_def)
next
  case sharp
  have "lower_char (CHR ''S'') = CHR ''s''" by code_simp
  with sharp show ?thesis by (simp add: lower_def)
next
  case other
  then show ?thesis by (simp add: lower_def)
qed

lemma MINOR_WORDS_not_ss: "''ss'' @ s \<notin> set MINOR_WORDS"
  by (simp add: MINOR_WORDS_def)

lemma lower_append [simp]: "lower (s @ t) = lower s @ lower t"
  by (simp add: lower_def)

lemma lower_capitalise:
  assumes "w \<noteq> []" "lower (capitalise w) \<in> set MINOR_WORDS"
  shows "lower w \<in> set MINOR_WORDS"
proof -
  obtain c cs where w: "w = c # cs" using assms(1) by (cases w) auto
  show ?thesis
    using lower_upper [of c] assms(2) w MINOR_WORDS_not_ss [of "lower cs"] by (auto simp: capitalise_def lower_def)
qed

lemma capitalise_idem: "capitalise (capitalise w) = capitalise w"
proof (cases w)
  case (Cons c cs)
  obtain d ds where "upper_char c = d # ds" using upper_nonempty [of c] by (cases "upper_char c") auto
  then show ?thesis
    using Cons upper_upper [of c] by (simp add: capitalise_def)
qed (simp add: capitalise_def)

lemma headline_word_idem: "w \<noteq> [] \<Longrightarrow> headline_word e (headline_word e w) = headline_word e w"
  using lower_capitalise [of w] capitalise_idem [of w] by (auto simp: headline_word_def)

lemma headline_word_clean:
  assumes "w \<noteq> []" "list_all (\<lambda>c. \<not> is_space c) w"
  shows "headline_word e w \<noteq> [] \<and> list_all (\<lambda>c. \<not> is_space c) (headline_word e w)"
proof -
  have "lower w \<noteq> [] \<and> list_all (\<lambda>c. \<not> is_space c) (lower w)"
    using assms lower_nonspace by (auto simp: lower_def list_all_iff)
  moreover have "capitalise w \<noteq> [] \<and> list_all (\<lambda>c. \<not> is_space c) (capitalise w)"
    using assms upper_nonspace [of "hd w"] by (cases w) (auto simp: capitalise_def)
  ultimately show ?thesis using assms by (simp add: headline_word_def)
qed

lemma split_ws_word:
  assumes "w \<noteq> []" "list_all (\<lambda>c. \<not> is_space c) w" "s = [] \<or> is_space (hd s)"
  shows "split_ws (w @ s) = w # split_ws s"
proof -
  obtain c cs where w: "w = c # cs" using assms(1) by (cases w) auto
  have all: "x \<in> set w \<Longrightarrow> \<not> is_space x" for x using assms(2) by (simp add: list_all_iff)
  have "takeWhile (\<lambda>x. \<not> is_space x) (w @ s) = w" "dropWhile (\<lambda>x. \<not> is_space x) (w @ s) = s"
    using all assms(3) by (cases s; simp add: takeWhile_append2 dropWhile_append2)+
  moreover have "lstrip (w @ s) = w @ s" using w all by (simp add: lstrip_def)
  ultimately show ?thesis using w by (subst split_ws.simps) simp
qed

lemma split_ws_space: "is_space c \<Longrightarrow> split_ws (c # s) = split_ws s"
  by (subst (1 2) split_ws.simps) (simp add: lstrip_def)

lemma split_ws_join:
  "\<forall>w\<in>set ws. w \<noteq> [] \<and> list_all (\<lambda>c. \<not> is_space c) w \<Longrightarrow> split_ws (join '' '' ws) = ws"
proof (induction ws rule: induct_list012)
  case 1
  show ?case by (simp add: split_ws.simps lstrip_def)
next
  case (2 w)
  then show ?case using split_ws_word [of w "[]"] by (simp add: split_ws.simps [of "[]"] lstrip_def)
next
  case (3 v w ws)
  have sp: "is_space (CHR '' '')" by code_simp
  show ?case
    using 3 split_ws_word [of v "'' '' @ join '' '' (w # ws)"] split_ws_space [OF sp, of "join '' '' (w # ws)"] sp
    by simp
qed

lemma headline_words_nth [simp]:
  "length (headline_words ws) = length ws"
  "i < length ws \<Longrightarrow> headline_words ws ! i = headline_word (i = 0 \<or> i = length ws - 1) (ws ! i)"
  by (simp_all add: headline_words_def)

lemma headline_words_idem: "\<forall>w\<in>set ws. w \<noteq> [] \<Longrightarrow> headline_words (headline_words ws) = headline_words ws"
  by (rule nth_equalityI) (simp_all add: headline_word_idem)

lemma headline_case_idem: "headline_case (headline_case title) = headline_case title"
proof -
  have clean: "\<forall>w\<in>set (split_ws title). w \<noteq> [] \<and> list_all (\<lambda>c. \<not> is_space c) w"
    using split_ws_no_space by blast
  then have "\<forall>w\<in>set (headline_words (split_ws title)). w \<noteq> [] \<and> list_all (\<lambda>c. \<not> is_space c) w"
    using headline_word_clean by (auto simp: headline_words_def)
  then show ?thesis
    using clean by (simp add: headline_case_def split_ws_join headline_words_idem)
qed

text \<open>
  The title case plugin settles: on a payload whose title it has formatted it has nothing left
  to do, for every title.
\<close>
theorem title_case_settles:
  "fst (title_case (ctx\<lparr>hc_payload := dict_set ''title'' (PStr (headline_case title)) payload\<rparr>)) = Returns PNone"
  by (simp add: title_case_def headline_case_idem)

section \<open>Tags and descriptions\<close>

lemma add_unseen_props:
  "set (add_unseen seen xs) = set seen \<union> set xs"
  "distinct seen \<Longrightarrow> distinct (add_unseen seen xs)"
  "\<exists>ys. add_unseen seen xs = seen @ ys \<and> set ys \<subseteq> set xs"
proof -
  show "set (add_unseen seen xs) = set seen \<union> set xs" by (induction seen xs rule: add_unseen.induct) auto
  show "distinct seen \<Longrightarrow> distinct (add_unseen seen xs)" by (induction seen xs rule: add_unseen.induct) auto
  show "\<exists>ys. add_unseen seen xs = seen @ ys \<and> set ys \<subseteq> set xs"
  proof (induction seen xs rule: add_unseen.induct)
    case (2 seen x xs)
    then obtain ys where ys: "add_unseen (if x \<in> set seen then seen else seen @ [x]) xs
        = (if x \<in> set seen then seen else seen @ [x]) @ ys" "set ys \<subseteq> set xs" by blast
    show ?case
      by (rule exI [of _ "(if x \<in> set seen then ys else x # ys)"]) (use ys in auto)
  qed simp
qed

lemma tag_at_props:
  "tag_at s = Some tag \<Longrightarrow> 2 \<le> length tag \<and> length tag \<le> 50 \<and> is_letter (hd tag)
     \<and> list_all (\<lambda>d. is_alnum d \<or> d = CHR ''_'') tag \<and> (\<exists>rest. s = CHR ''#'' # tag @ rest)"
proof -
  assume "tag_at s = Some tag"
  then obtain c cs rest where s: "s = CHR ''#'' # c # cs" "is_letter c" "rest \<noteq> []" "tag = c # rest"
    and rest: "rest = take 49 (takeWhile (\<lambda>d. is_alnum d \<or> d = CHR ''_'') cs)"
    by (auto simp: tag_at_def Let_def split: list.splits if_splits)
  have "list_all (\<lambda>d. is_alnum d \<or> d = CHR ''_'') rest"
    unfolding rest by (auto simp: list_all_iff dest!: in_set_takeD dest: set_takeWhileD)
  moreover have "\<exists>ys. cs = rest @ ys"
    unfolding rest by (metis append.assoc append_take_drop_id takeWhile_dropWhile_id)
  moreover have "length rest \<le> 49" unfolding rest by simp
  moreover have "1 \<le> length rest" using s(3) by (cases rest) auto
  ultimately show ?thesis using s by (auto simp: is_alnum_def is_letter_def)
qed

lemma find_tags_occur: "tag \<in> set (find_tags s) \<Longrightarrow>
    is_letter (hd tag) \<and> 2 \<le> length tag \<and> length tag \<le> 50 \<and> (\<exists>u v. s = u @ CHR ''#'' # tag @ v)"
proof (induction s rule: find_tags.induct)
  case (2 c cs)
  show ?case
  proof (cases "tag_at (c # cs)")
    case None
    with 2 show ?thesis by (metis (no_types, lifting) append_Cons find_tags.simps(2) option.simps(4))
  next
    case (Some t)
    note t = tag_at_props [OF Some]
    show ?thesis
    proof (cases "tag = t")
      case True
      with t show ?thesis by (metis append_Nil)
    next
      case False
      with Some "2.prems" have "tag \<in> set (find_tags (drop (length t) cs))" by simp
      with "2.IH"(2) [OF Some] obtain u v where "drop (length t) cs = u @ CHR ''#'' # tag @ v"
          "is_letter (hd tag)" "2 \<le> length tag" "length tag \<le> 50" by blast
      then show ?thesis by (metis append_Cons append_assoc append_take_drop_id)
    qed
  qed
qed simp

text \<open>
  The hashtag plugin answers with at most fifteen tags, which keep the tags the payload already
  had in front and in order (as many as fit); every added tag is the small-letter form of a hashtag
  that occurs in the description, and no tag is listed twice unless the payload had it twice.
\<close>
theorem extract_hashtags_spec:
  assumes "dict_get (hc_payload ctx) ''description'' = Some (PStr description)"
    and "dict_get (hc_payload ctx) ''tags'' = Some (PList existing)"
    and "fst (extract_hashtags ctx) = Returns (PDict patch)"
  shows "\<exists>tags. patch = [(''tags'', PList tags)] \<and> length tags \<le> 15
    \<and> take (length existing) tags = take 15 existing
    \<and> (distinct existing \<longrightarrow> distinct tags)
    \<and> (\<forall>v \<in> set (drop (length existing) tags). \<exists>tag u w. v = PStr (lower tag) \<and> description = u @ CHR ''#'' # tag @ w \<and> length tag \<le> 50)"
proof -
  define seen where "seen = add_unseen [] (map lower (find_tags description))"
  obtain ys where ys: "add_unseen existing (map PStr seen) = existing @ ys" "set ys \<subseteq> PStr ` set seen"
    using add_unseen_props(3) [of existing "map PStr seen"] by auto
  define tags where "tags = take 15 (existing @ ys)"
  have "patch = [(''tags'', PList tags)]"
    using assms ys(1) by (auto simp: extract_hashtags_def Let_def seen_def [symmetric] tags_def MAX_TAGS_def split: if_splits)
  moreover have "take (length existing) tags = take 15 existing"
    by (simp add: tags_def min_def)
  moreover have "distinct existing \<Longrightarrow> distinct tags"
    using add_unseen_props(2) [of existing "map PStr seen"] ys(1) by (simp add: tags_def del: take_append)
  moreover have "\<exists>tag u w. v = PStr (lower tag) \<and> description = u @ CHR ''#'' # tag @ w \<and> length tag \<le> 50"
    if v: "v \<in> set (drop (length existing) tags)" for v
  proof -
    have "v \<in> set ys" using v by (auto simp: tags_def dest: in_set_takeD in_set_dropD)
    then obtain tag where "v = PStr (lower tag)" "tag \<in> set (find_tags description)"
      using ys(2) by (auto simp: seen_def add_unseen_props(1))
    then show ?thesis using find_tags_occur by blast
  qed
  ultimately show ?thesis by (auto simp: tags_def)
qed

theorem extract_hashtags_spec_witness:
  "fst (extract_hashtags \<lparr>hc_hook = BEFORE_PUBLISH, hc_payload = [(''description'', PStr ''Go #News #news #x''), (''tags'', PList [PStr ''go''])],
      hc_organization_id = None, hc_granted = {}\<rparr>) = Returns (PDict [(''tags'', PList [PStr ''go'', PStr ''news''])])
   \<and> (\<exists>tags. [(''tags'', PList [PStr ''go'', PStr ''news''])] = [(''tags'', PList tags)] \<and> length tags \<le> 15)"
proof -
  let ?ctx = "\<lparr>hc_hook = BEFORE_PUBLISH, hc_payload = [(''description'', PStr ''Go #News #news #x''), (''tags'', PList [PStr ''go''])],
      hc_organization_id = None, hc_granted = {}\<rparr>"
  have "find_tags ''Go #News #news #x'' = [''News'', ''news'']" by code_simp
  moreover have "lower ''News'' = ''news''" "lower ''news'' = ''news''" by code_simp+
  ultimately have "fst (extract_hashtags ?ctx) = Returns (PDict [(''tags'', PList [PStr ''go'', PStr ''news''])])"
    by (simp add: extract_hashtags_def MAX_TAGS_def)
  then show ?thesis
    using extract_hashtags_spec [of ?ctx "''Go #News #news #x''" "[PStr ''go'']" "[(''tags'', PList [PStr ''go'', PStr ''news''])]"]
    by auto
qed

lemma length_rstrip: "length (rstrip s) \<le> length s"
  using length_dropWhile_le [of is_space "rev s"] by (simp add: rstrip_def)

lemma guard_text_length: "length (guard_text d) \<le> MAX_DESCRIPTION + 1"
proof -
  have "length (rstrip (if b then take n (take MAX_DESCRIPTION d) else take MAX_DESCRIPTION d)) \<le> MAX_DESCRIPTION" for b n
    by (rule order_trans [OF length_rstrip]) (simp add: min.coboundedI2)
  then show ?thesis by (simp add: guard_text_def Let_def)
qed

lemma rfind_space_none: "CHR '' '' \<notin> set s \<Longrightarrow> rfind_space s = -1"
proof -
  assume "CHR '' '' \<notin> set s"
  then have "length (takeWhile (\<lambda>c. c \<noteq> CHR '' '') (rev s)) = length s"
    by (subst takeWhile_eq_all_conv [THEN iffD2]) auto
  then show ?thesis by (simp add: rfind_space_def)
qed

text \<open>A text without white space that is longer than the limit is cut to one character more than the limit.\<close>
theorem guard_exceeds_limit:
  assumes "list_all (\<lambda>c. \<not> is_space c) d" "MAX_DESCRIPTION < length d"
  shows "length (guard_text d) = MAX_DESCRIPTION + 1"
proof -
  have sp: "is_space (CHR '' '')" by code_simp
  have all: "\<not> is_space c" if "c \<in> set (take MAX_DESCRIPTION d)" for c
    using that assms(1) by (auto simp: list_all_iff dest: in_set_takeD)
  then have "rfind_space (take MAX_DESCRIPTION d) = -1" using sp by (metis rfind_space_none)
  moreover have "rstrip (take MAX_DESCRIPTION d) = take MAX_DESCRIPTION d"
    using all by (cases "take MAX_DESCRIPTION d" rule: rev_cases) (auto simp: rstrip_def)
  ultimately show ?thesis using assms(2) by (simp add: guard_text_def MAX_DESCRIPTION_def)
qed

section \<open>Registering the built-ins\<close>

lemma register_builtin_new:
  assumes "mf_hooks m = [hook]"
  shows "\<exists>reg'. register_builtin setting m h reg = Inr reg' \<and> register_builtin setting m h reg' = Inr reg'
    \<and> (\<forall>n. dict_get reg n \<noteq> None \<longrightarrow> dict_get reg' n = dict_get reg n)
    \<and> dict_get reg' (mf_name m) \<noteq> None"
  using assms by (auto simp: register_builtin_def plugin_get_def plugin_register_def Let_def)

lemma register_builtin_present:
  "dict_get reg (mf_name m) \<noteq> None \<Longrightarrow> register_builtin setting m h reg = Inr reg"
  unfolding register_builtin_def plugin_get_def by (rule if_not_P)

text \<open>
  Registering the built-in plugins always succeeds, whatever is registered already, keeps every
  plugin that was there, and registering them again changes nothing.
\<close>
theorem register_builtin_plugins_idempotent:
  "\<exists>reg'. register_builtin_plugins setting reg = Inr reg'
     \<and> register_builtin_plugins setting reg' = Inr reg'
     \<and> (\<forall>n. dict_get reg n = None \<or> dict_get reg' n = dict_get reg n)
     \<and> plugin_get reg' ''title-case'' \<noteq> None \<and> plugin_get reg' ''hashtag-extract'' \<noteq> None
     \<and> plugin_get reg' ''description-guard'' \<noteq> None"
proof -
  note defs = TITLE_CASE_def HASHTAGS_def DESCRIPTION_GUARD_def builtin_manifest_def
  obtain r1 where r1: "register_builtin setting TITLE_CASE title_case reg = Inr r1"
      "\<forall>n. dict_get reg n \<noteq> None \<longrightarrow> dict_get r1 n = dict_get reg n" "dict_get r1 ''title-case'' \<noteq> None"
    using register_builtin_new [of TITLE_CASE VIDEO_CREATED setting title_case reg] by (auto simp: defs)
  obtain r2 where r2: "register_builtin setting HASHTAGS extract_hashtags r1 = Inr r2"
      "\<forall>n. dict_get r1 n \<noteq> None \<longrightarrow> dict_get r2 n = dict_get r1 n" "dict_get r2 ''hashtag-extract'' \<noteq> None"
    using register_builtin_new [of HASHTAGS BEFORE_PUBLISH setting extract_hashtags r1] by (auto simp: defs)
  obtain r3 where r3: "register_builtin setting DESCRIPTION_GUARD guard_description r2 = Inr r3"
      "\<forall>n. dict_get r2 n \<noteq> None \<longrightarrow> dict_get r3 n = dict_get r2 n" "dict_get r3 ''description-guard'' \<noteq> None"
    using register_builtin_new [of DESCRIPTION_GUARD BEFORE_PUBLISH setting guard_description r2] by (auto simp: defs)
  have kept: "\<forall>n. dict_get reg n = None \<or> dict_get r3 n = dict_get reg n" using r1(2) r2(2) r3(2) by metis
  have here: "dict_get r3 ''title-case'' \<noteq> None" "dict_get r3 ''hashtag-extract'' \<noteq> None"
    using r1(3) r2(2,3) r3(2) by metis+
  have "register_builtin_plugins setting reg = Inr r3"
    by (simp add: register_builtin_plugins_def r1(1) r2(1) r3(1))
  moreover have "register_builtin_plugins setting r3 = Inr r3"
    using here r3(3) by (simp add: register_builtin_plugins_def register_builtin_present defs)
  ultimately show ?thesis using kept here r3(3) by (auto simp: plugin_get_def)
qed

end
