(* ===== verification/Pipeline.thy ===== *)
theory Pipeline
  imports Pipeline_Providers Plugin_Builtins
begin

text \<open>
  The video pipeline (\<^verbatim>\<open>app/services/pipeline.py\<close>, \<^verbatim>\<open>app/models/pipeline.py\<close>, \<^verbatim>\<open>app/models/video.py\<close>,
  \<^verbatim>\<open>app/observability/stages.py\<close>): a run takes a video through research, script, voiceover, render,
  publish, analytics and learning. A state is the tables of the session and the outside world the
  providers act on; every operation returns it with its result, an exception included. Rows that
  were added or changed before an exception stay in the session. Free-form columns that no operation
  reads are left out, and so are the durations of the stages.
\<close>

section \<open>Rows\<close>

datatype pipeline_stage =
  PL_RESEARCH | PL_SCRIPT | PL_VOICEOVER | PL_RENDER | PL_PUBLISH | PL_ANALYTICS | PL_LEARNING | PL_DONE | PL_FAILED

datatype video_status = VS_DRAFT | VS_RESEARCHING | VS_SCRIPTING | VS_RENDERING | VS_READY | VS_PUBLISHED | VS_FAILED

datatype publication_status = PB_DRAFT | PB_SCHEDULED | PB_PUBLISHING | PB_PUBLISHED | PB_FAILED

definition STAGE_ORDER :: "pipeline_stage list" where
  "STAGE_ORDER = [PL_RESEARCH, PL_SCRIPT, PL_VOICEOVER, PL_RENDER, PL_PUBLISH, PL_ANALYTICS, PL_LEARNING]"

record video = entity +
  vd_project_id :: nat
  vd_title :: string
  vd_description :: "string option"
  vd_status :: video_status
  vd_current_version_id :: "nat option"

record video_version = entity +
  vv_video_id :: nat
  vv_version_number :: nat
  vv_script :: "string option"

record research_note = entity +
  rn_video_id :: nat
  rn_source_url :: "string option"
  rn_title :: "string option"
  rn_summary :: string
  rn_relevance :: rat

record pipeline_run = entity +
  pn_video_id :: nat
  pn_stage :: pipeline_stage
  pn_error :: "string option"
  pn_started_at :: "time option"
  pn_finished_at :: "time option"
  pn_artifacts :: pydict

record publication = entity +
  pb_video_id :: nat
  pb_platform :: string
  pb_status :: publication_status
  pb_external_id :: "string option"
  pb_url :: "string option"
  pb_title :: string
  pb_description :: "string option"
  pb_tags :: "pyval list"
  pb_published_at :: "time option"
  pb_error :: "string option"

record analytics_record = entity +
  an_publication_id :: nat
  an_measured_on :: int
  an_views :: int
  an_likes :: int
  an_comments :: int
  an_watch_time_seconds :: int
  an_impressions :: int
  an_extra :: pydict

record performance_lesson = entity +
  le_video_id :: "nat option"
  le_dimension :: string
  le_observation :: string
  le_confidence :: rat
  le_evidence :: pydict

record pipeline_db =
  pd_videos :: "(nat, video) dict"
  pd_versions :: "(nat, video_version) dict"
  pd_notes :: "(nat, research_note) dict"
  pd_runs :: "(nat, pipeline_run) dict"
  pd_publications :: "(nat, publication) dict"
  pd_analytics :: "(nat, analytics_record) dict"
  pd_lessons :: "(nat, performance_lesson) dict"
  pd_billing :: billing_db
  pd_events :: "event list"
  pd_metrics :: "metric_event list"

datatype pipe_exc = PipeDb db_exc | PipeProvider string

type_synonym ('a, 's) pipe = "pipeline_db \<times> 's \<Rightarrow> (pipe_exc + 'a) \<times> pipeline_db \<times> 's"

abbreviation pipe_error :: "app_error_kind \<Rightarrow> string \<Rightarrow> ('a, 's) pipe" where
  "pipe_error k m \<equiv> \<lambda>s. (Inl (PipeDb (App (app_error_init k (Some m)))), s)"

definition pipe_update :: "(pipeline_db \<Rightarrow> pipeline_db) \<Rightarrow> (unit, 's) pipe" where
  "pipe_update f s = (Inr (), f (fst s), snd s)"

definition pipe_lift :: "'a db_result \<Rightarrow> ('a, 's) pipe" where
  "pipe_lift r s = ((case r of Inl e \<Rightarrow> Inl (PipeDb e) | Inr x \<Rightarrow> Inr x), s)"

definition pipe_call :: "('a, 's) external \<Rightarrow> ('a, 's) pipe" where
  \<comment> \<open>a call of a provider\<close>
  "pipe_call f s = (case f (snd s) of (Inl m, w) \<Rightarrow> (Inl (PipeProvider m), fst s, w) | (Inr x, w) \<Rightarrow> (Inr x, fst s, w))"

section \<open>Helpers\<close>

definition stage_metric :: "string \<Rightarrow> string \<Rightarrow> metric_event" where
  "stage_metric stage outcome = (MInc, ''pipeline_stages_total'', [stage, outcome], 1)"

definition track_stage :: "string \<Rightarrow> ('a, 's) pipe \<Rightarrow> ('a, 's) pipe" where
  "track_stage stage f s = (case f s of (r, db, w) \<Rightarrow>
     (r, db\<lparr>pd_metrics := pd_metrics db @ [stage_metric stage (case r of Inl _ \<Rightarrow> ''failed'' | Inr _ \<Rightarrow> ''succeeded'')]\<rparr>, w))"

definition record_artifact_size :: "string \<Rightarrow> pyval option \<Rightarrow> metric_event list" where
  "record_artifact_size stage bytes = (case bytes of
       Some v \<Rightarrow> (case py_num v of Some n \<Rightarrow> [(MObserve, ''pipeline_artifact_bytes'', [stage], n)] | None \<Rightarrow> [])
     | None \<Rightarrow> [])"

definition latest_for_video :: "nat \<Rightarrow> pipeline_db \<Rightarrow> pipeline_run option" where
  "latest_for_video v db = (case sorted_desc created_at (filter (\<lambda>r. pn_video_id r = v) (base_query False (pd_runs db))) of
     [] \<Rightarrow> None | r # _ \<Rightarrow> Some r)"

definition for_video :: "nat \<Rightarrow> string \<Rightarrow> pipeline_db \<Rightarrow> publication option" where
  "for_video v platform db = find_by (\<lambda>p. pb_video_id p = v \<and> pb_platform p = platform) (pd_publications db)"

definition get_video :: "nat \<Rightarrow> (video, 's) pipe" where
  "get_video v s = (case repo_get v (pd_videos (fst s)) of
       None \<Rightarrow> pipe_error NotFoundError ''Video not found.'' s
     | Some vid \<Rightarrow> if deleted_at vid \<noteq> None then pipe_error NotFoundError ''Video not found.'' s else (Inr vid, s))"

definition current_version :: "video \<Rightarrow> pipeline_db \<Rightarrow> video_version option" where
  "current_version vid db = (case vd_current_version_id vid of None \<Rightarrow> None | Some i \<Rightarrow> repo_get i (pd_versions db))"

definition pipeline_start :: "nat \<Rightarrow> time \<Rightarrow> (pipeline_run, 's) pipe" where
  "pipeline_start v now = then_do (get_video v) (\<lambda>_ s.
     if (case latest_for_video v (fst s) of Some r \<Rightarrow> pn_finished_at r = None | None \<Rightarrow> False)
     then pipe_error ConflictError ''A pipeline run is already in progress for this video.'' s
     else
       let (run, t) = repo_add \<lparr>ent_id = 0, created_at = now, deleted_at = None, pn_video_id = v, pn_stage = PL_RESEARCH, pn_error = None,
             pn_started_at = Some now, pn_finished_at = None, pn_artifacts = []\<rparr> (pd_runs (fst s))
       in (Inr run, (fst s)\<lparr>pd_runs := t\<rparr>, snd s))"

definition advance :: "pipeline_run \<Rightarrow> pipeline_stage \<Rightarrow> pydict \<Rightarrow> time \<Rightarrow> (pipeline_run, 's) pipe" where
  "advance run stage artifacts now s =
     (let run' = run\<lparr>pn_stage := stage, pn_error := None, pn_artifacts := dict_update (pn_artifacts run) artifacts,
            pn_finished_at := (if stage \<in> {PL_DONE, PL_FAILED} then Some now else pn_finished_at run)\<rparr>;
          ms = concat (map (\<lambda>(name, a). case a of PDict d \<Rightarrow> record_artifact_size name (dict_get d ''size_bytes'') | _ \<Rightarrow> []) artifacts);
          db = fst s
      in (Inr run', db\<lparr>pd_runs := repo_put run' (pd_runs db), pd_metrics := pd_metrics db @ ms\<rparr>, snd s))"

definition pipeline_fail :: "nat \<Rightarrow> string \<Rightarrow> time \<Rightarrow> (pipeline_run, 's) pipe" where
  "pipeline_fail i e now s = (case repo_get i (pd_runs (fst s)) of
       None \<Rightarrow> pipe_error NotFoundError ''Pipeline run not found.'' s
     | Some run \<Rightarrow>
         let run' = run\<lparr>pn_stage := PL_FAILED, pn_error := Some e, pn_finished_at := Some now\<rparr>
         in (Inr run', (fst s)\<lparr>pd_runs := repo_put run' (pd_runs (fst s))\<rparr>, snd s))"

definition artifact :: "pipeline_run \<Rightarrow> string \<Rightarrow> pydict" where
  \<comment> \<open>\<open>run.artifacts.get(stage) or {}\<close>; every artifact is a dictionary\<close>
  "artifact run stage = (case dict_get (pn_artifacts run) stage of Some (PDict d) \<Rightarrow> d | _ \<Rightarrow> [])"

definition str_entry :: "pydict \<Rightarrow> string \<Rightarrow> string option" where
  \<comment> \<open>a storage key in an artifact\<close>
  "str_entry d k = (case dict_get d k of Some (PStr s) \<Rightarrow> Some s | _ \<Rightarrow> None)"

section \<open>Research, script and voiceover\<close>

record note_spec =
  np_source_url :: "string option"
  np_title :: "string option"
  np_summary :: "string option"
  np_relevance :: "rat option"

fun add_notes :: "nat \<Rightarrow> time \<Rightarrow> note_spec list \<Rightarrow> (research_note list, 's) pipe" where
  "add_notes v now [] s = (Inr [], s)"
| "add_notes v now (n # ns) s =
     (let summary = strip (case np_summary n of None \<Rightarrow> [] | Some x \<Rightarrow> x) in
      if summary = [] then pipe_error ValidationError ''A research note needs a summary.'' s
      else
        let (note, t) = repo_add \<lparr>ent_id = 0, created_at = now, deleted_at = None, rn_video_id = v, rn_source_url = np_source_url n,
              rn_title = np_title n, rn_summary = summary, rn_relevance = (case np_relevance n of None \<Rightarrow> 0 | Some q \<Rightarrow> q)\<rparr> (pd_notes (fst s))
        in then_do (add_notes v now ns) (\<lambda>notes. give (note # notes)) ((fst s)\<lparr>pd_notes := t\<rparr>, snd s))"

definition add_research :: "nat \<Rightarrow> note_spec list \<Rightarrow> time \<Rightarrow> (research_note list, 's) pipe" where
  "add_research v notes now = then_do (get_video v) (\<lambda>_. add_notes v now notes)"

definition research :: "pipeline_run \<Rightarrow> time \<Rightarrow> (pipeline_run, 's) pipe" where
  "research run now = track_stage ''research'' (\<lambda>s.
     let count = length (filter (\<lambda>n. rn_video_id n = pn_video_id run) (base_query False (pd_notes (fst s))))
     in advance run PL_SCRIPT [(''research'', PDict [(''note_count'', PInt (int count))])] now s)"

definition version_clash :: "nat \<Rightarrow> nat \<Rightarrow> pipeline_db \<Rightarrow> bool" where
  \<comment> \<open>the unique constraint on video and version number\<close>
  "version_clash v n db = list_ex (\<lambda>x. vv_video_id x = v \<and> vv_version_number x = n) (map snd (pd_versions db))"

definition add_version :: "nat \<Rightarrow> string \<Rightarrow> time \<Rightarrow> (video_version, 's) pipe" where
  "add_version v script now s =
     (let n = length (filter (\<lambda>x. vv_video_id x = v) (map snd (pd_versions (fst s)))) + 1 in
      if version_clash v n (fst s) then (Inl (PipeDb (IntegrityError ''uq_video_version_num'')), s)
      else
        let (version, t) = repo_add \<lparr>ent_id = 0, created_at = now, deleted_at = None, vv_video_id = v, vv_version_number = n,
              vv_script = Some script\<rparr> (pd_versions (fst s))
        in (Inr version, (fst s)\<lparr>pd_versions := t\<rparr>, snd s))"

definition put_video :: "video \<Rightarrow> (unit, 's) pipe" where
  "put_video vid = pipe_update (\<lambda>db. db\<lparr>pd_videos := repo_put vid (pd_videos db)\<rparr>)"

definition script :: "pipeline_run \<Rightarrow> string \<Rightarrow> time \<Rightarrow> (video_version \<times> pipeline_run, 's) pipe" where
  \<comment> \<open>with the run as it is afterwards\<close>
  "script run text now = track_stage ''script'' (
     if strip text = [] then pipe_error ValidationError ''Script cannot be empty.''
     else then_do (get_video (pn_video_id run)) (\<lambda>vid.
       then_do (add_version (ent_id vid) text now) (\<lambda>version.
       then_do (put_video (vid\<lparr>vd_current_version_id := Some (ent_id version), vd_status := VS_SCRIPTING\<rparr>)) (\<lambda>_.
       then_do (advance run PL_VOICEOVER
         [(''script'', PDict [(''version_id'', PStr (nat_digits (ent_id version))), (''characters'', PInt (int (length text)))])] now) (\<lambda>run'.
       give (version, run'))))))"

record 's pipeline_env =
  pe_registry :: "'s pipeline_registry"
  pe_settings :: pipeline_settings
  pe_plugins :: plugin_registry

definition provider :: "'s pipeline_env \<Rightarrow> provider_kind \<Rightarrow> ('s pipeline_registry \<Rightarrow> (string, 'p) dict) \<Rightarrow> ('p, 's) pipe" where
  "provider env kind factories s = ((case pipeline_provider (pe_settings env) kind (factories (pe_registry env)) None of
     Inl e \<Rightarrow> Inl (PipeDb (App e)) | Inr p \<Rightarrow> Inr p), s)"

definition scripted_version :: "video \<Rightarrow> string \<Rightarrow> (video_version \<times> string, 's) pipe" where
  \<comment> \<open>the current version and its script, or the stage's complaint\<close>
  "scripted_version vid complaint s = (case current_version vid (fst s) of
       Some version \<Rightarrow> (if truthy (vv_script version) then (Inr (version, the (vv_script version)), s) else pipe_error ValidationError complaint s)
     | None \<Rightarrow> pipe_error ValidationError complaint s)"

definition artifact_key :: "nat \<Rightarrow> string \<Rightarrow> nat \<Rightarrow> string \<Rightarrow> string" where
  \<comment> \<open>\<open>f"videos/{video}/{folder}/v{number}.{ending}"\<close>\<close>
  "artifact_key v folder n ending = ''videos/'' @ nat_digits v @ ''/'' @ folder @ ''/v'' @ nat_digits n @ ''.'' @ ending"

definition speech_artifact :: "speech_result \<Rightarrow> pydict" where
  "speech_artifact r = [(''storage_key'', PStr (sr_storage_key r)), (''duration_seconds'', PFloat (sr_duration_seconds r)),
     (''voice'', PStr (sr_voice r)), (''size_bytes'', PInt (int (sr_size_bytes r)))]"

definition voiceover :: "'s pipeline_env \<Rightarrow> pipeline_run \<Rightarrow> string option \<Rightarrow> time \<Rightarrow> (pydict \<times> pipeline_run, 's) pipe" where
  "voiceover env run voice now = track_stage ''voiceover'' (
     then_do (get_video (pn_video_id run)) (\<lambda>vid.
     then_do (scripted_version vid ''The video has no script to narrate.'') (\<lambda>(version, text).
     then_do (provider env PK_SPEECH pr_speech) (\<lambda>synthesize.
     then_do (pipe_call (synthesize text (if truthy voice then the voice else ''default'')
         (artifact_key (ent_id vid) ''audio'' (vv_version_number version) ''mp3''))) (\<lambda>result.
     then_do (advance run PL_RENDER [(''voiceover'', PDict (speech_artifact result))] now) (\<lambda>run'.
     give (speech_artifact result, run')))))))"

section \<open>Render and publish\<close>

definition render_artifact :: "render_result \<Rightarrow> pydict" where
  "render_artifact r = [(''storage_key'', PStr (rr_storage_key r)), (''duration_seconds'', PFloat (rr_duration_seconds r)),
     (''width'', PInt (rr_width r)), (''height'', PInt (rr_height r)), (''size_bytes'', PInt (int (rr_size_bytes r)))]"

definition meter_render :: "video \<Rightarrow> time \<Rightarrow> (unit, 's) pipe" where
  \<comment> \<open>\<open>UsageService.record(video.project_id, ...)\<close>\<close>
  "meter_render vid now s = (case usage_record_add (vd_project_id vid) ''video_render'' 1 None now (pd_billing (fst s)) of
       Inl e \<Rightarrow> (Inl (PipeDb e), s)
     | Inr (_, b) \<Rightarrow> (Inr (), (fst s)\<lparr>pd_billing := b\<rparr>, snd s))"

definition render :: "'s pipeline_env \<Rightarrow> pipeline_run \<Rightarrow> pydict option \<Rightarrow> time \<Rightarrow> (pydict \<times> pipeline_run, 's) pipe" where
  "render env run options now = track_stage ''render'' (
     then_do (get_video (pn_video_id run)) (\<lambda>vid.
     then_do (scripted_version vid ''The video has no script to render.'') (\<lambda>(version, text).
     then_do (provider env PK_RENDER pr_render) (\<lambda>produce.
     then_do (pipe_call (produce text (str_entry (artifact run ''voiceover'') ''storage_key'')
         (artifact_key (ent_id vid) ''render'' (vv_version_number version) ''mp4'') options)) (\<lambda>result.
     then_do (put_video (vid\<lparr>vd_status := VS_RENDERING\<rparr>)) (\<lambda>_.
     then_do (advance run PL_PUBLISH [(''render'', PDict (render_artifact result))] now) (\<lambda>run'.
     then_do (meter_render vid now) (\<lambda>_.
     give (render_artifact result, run')))))))))"

definition listing_payload :: "video \<Rightarrow> string \<Rightarrow> string list \<Rightarrow> pydict" where
  "listing_payload vid platform tags = [(''title'', PStr (vd_title vid)),
     (''description'', case vd_description vid of None \<Rightarrow> PNone | Some d \<Rightarrow> PStr d), (''tags'', PList (map PStr tags)), (''platform'', PStr platform)]"

definition listing_title :: "video \<Rightarrow> pydict \<Rightarrow> pyval" where
  "listing_title vid listing = (case dict_get listing ''title'' of
     Some v \<Rightarrow> if py_truth v then v else PStr (vd_title vid) | None \<Rightarrow> PStr (vd_title vid))"

definition listing_description :: "video \<Rightarrow> pydict \<Rightarrow> pyval" where
  "listing_description vid listing = (case dict_get listing ''description'' of
     Some v \<Rightarrow> if v \<noteq> PNone then v else (case vd_description vid of None \<Rightarrow> PNone | Some d \<Rightarrow> PStr d)
   | None \<Rightarrow> (case vd_description vid of None \<Rightarrow> PNone | Some d \<Rightarrow> PStr d))"

definition listing_tags :: "pydict \<Rightarrow> string list \<Rightarrow> pyval list" where
  "listing_tags listing tags = (case dict_get listing ''tags'' of Some (PList xs) \<Rightarrow> xs | _ \<Rightarrow> map PStr tags)"

definition publication_clash :: "nat \<Rightarrow> string \<Rightarrow> pipeline_db \<Rightarrow> bool" where
  "publication_clash v platform db = list_ex (\<lambda>p. pb_video_id p = v \<and> pb_platform p = platform) (map snd (pd_publications db))"

definition add_publication :: "video \<Rightarrow> string \<Rightarrow> pydict \<Rightarrow> string list \<Rightarrow> time \<Rightarrow> (publication, 's) pipe" where
  \<comment> \<open>a title or description that is not text has the wrong type for its column\<close>
  "add_publication vid platform listing tags now s =
     (case (listing_title vid listing, listing_description vid listing) of
        (PStr title, description) \<Rightarrow>
          if (case description of PNone \<Rightarrow> True | PStr _ \<Rightarrow> True | _ \<Rightarrow> False)
          then if publication_clash (ent_id vid) platform (fst s)
               then (Inl (PipeDb (IntegrityError ''uq_publication_video_id_platform'')), s)
               else
                 let (p, t) = repo_add \<lparr>ent_id = 0, created_at = now, deleted_at = None, pb_video_id = ent_id vid, pb_platform = platform,
                       pb_status = PB_DRAFT, pb_external_id = None, pb_url = None, pb_title = title,
                       pb_description = (case description of PStr d \<Rightarrow> Some d | _ \<Rightarrow> None), pb_tags = listing_tags listing tags,
                       pb_published_at = None, pb_error = None\<rparr> (pd_publications (fst s))
                 in (Inr p, (fst s)\<lparr>pd_publications := t\<rparr>, snd s)
          else (Inl (PipeDb DataError), s)
      | _ \<Rightarrow> (Inl (PipeDb DataError), s))"

definition put_publication :: "publication \<Rightarrow> (unit, 's) pipe" where
  "put_publication p = pipe_update (\<lambda>db. db\<lparr>pd_publications := repo_put p (pd_publications db)\<rparr>)"

definition listing :: "'s pipeline_env \<Rightarrow> video \<Rightarrow> string \<Rightarrow> string list \<Rightarrow> (pydict, 's) pipe" where
  \<comment> \<open>what the plugins make of it, with their instruments\<close>
  "listing env vid platform tags s =
     (case Plugins.dispatch (pe_plugins env) BEFORE_PUBLISH (listing_payload vid platform tags) None of
        (final, _, ms) \<Rightarrow> (Inr final, (fst s)\<lparr>pd_metrics := pd_metrics (fst s) @ ms\<rparr>, snd s))"

definition publication_for :: "video \<Rightarrow> string \<Rightarrow> pydict \<Rightarrow> string list \<Rightarrow> time \<Rightarrow> (publication, 's) pipe" where
  "publication_for vid platform final tags now s = (case for_video (ent_id vid) platform (fst s) of
     Some p \<Rightarrow> (Inr p, s) | None \<Rightarrow> add_publication vid platform final tags now s)"

definition upload_video ::
    "'s publish_provider \<Rightarrow> publication \<Rightarrow> string \<Rightarrow> video \<Rightarrow> string list \<Rightarrow> pydict option \<Rightarrow> (publish_result, 's) pipe" where
  \<comment> \<open>the provider call; a failure is noted on the publication and raised again\<close>
  "upload_video send p key vid tags options s =
     (case pipe_call (send key (vd_title vid) (vd_description vid) (if tags \<noteq> [] then map PStr tags else pb_tags p) options) s of
        (Inl (PipeProvider m), s') \<Rightarrow> (Inl (PipeProvider m), snd (put_publication (p\<lparr>pb_status := PB_FAILED, pb_error := Some m\<rparr>) s'))
      | r \<Rightarrow> r)"

definition publish ::
    "'s pipeline_env \<Rightarrow> pipeline_run \<Rightarrow> string \<Rightarrow> string list \<Rightarrow> pydict option \<Rightarrow> time \<Rightarrow> (publication \<times> pipeline_run, 's) pipe" where
  \<comment> \<open>absent tags are the empty list\<close>
  "publish env run platform tags options now = track_stage ''publish'' (
     then_do (get_video (pn_video_id run)) (\<lambda>vid.
     if \<not> truthy (str_entry (artifact run ''render'') ''storage_key'')
     then pipe_error ValidationError ''Nothing has been rendered for this run yet.''
     else
       let key = the (str_entry (artifact run ''render'') ''storage_key'') in
       then_do (listing env vid platform tags) (\<lambda>final.
       then_do (publication_for vid platform final tags now) (\<lambda>p0.
       let p = p0\<lparr>pb_status := PB_PUBLISHING\<rparr> in
       then_do (put_publication p) (\<lambda>_.
       then_do (provider env PK_PUBLISH pr_publish) (\<lambda>send.
       then_do (upload_video send p key vid tags options) (\<lambda>result.
       let p' = p\<lparr>pb_status := PB_PUBLISHED, pb_external_id := Some (pu_external_id result), pb_url := Some (pu_url result),
                  pb_published_at := Some now, pb_error := None\<rparr> in
       then_do (put_publication p') (\<lambda>_.
       then_do (put_video (vid\<lparr>vd_status := VS_PUBLISHED\<rparr>)) (\<lambda>_.
       then_do (advance run PL_ANALYTICS
         [(''publish'', PDict [(''external_id'', PStr (pu_external_id result)), (''url'', PStr (pu_url result))])] now) (\<lambda>run'.
       then_do (pipe_update (\<lambda>db. db\<lparr>pd_events := pd_events db
           @ [upload_completed key (case dict_get (artifact run ''render'') ''size_bytes'' of Some (PInt n) \<Rightarrow> nat n | _ \<Rightarrow> 0)]\<rparr>)) (\<lambda>_.
       give (p', run'))))))))))))"

section \<open>Analytics and learning\<close>

definition snapshot_row :: "nat \<Rightarrow> analytics_snapshot \<Rightarrow> analytics_record \<Rightarrow> analytics_record" where
  "snapshot_row p sn r = r\<lparr>an_publication_id := p, an_measured_on := sn_measured_on sn, an_views := sn_views sn, an_likes := sn_likes sn,
     an_comments := sn_comments sn, an_watch_time_seconds := sn_watch_time_seconds sn, an_impressions := sn_impressions sn,
     an_extra := sn_extra sn\<rparr>"

definition store_snapshot :: "nat \<Rightarrow> analytics_snapshot \<Rightarrow> time \<Rightarrow> (analytics_record, 's) pipe" where
  "store_snapshot p sn now s =
     (let db = fst s in
      case List.find (\<lambda>r. an_publication_id r = p \<and> an_measured_on r = sn_measured_on sn) (map snd (pd_analytics db)) of
        Some r \<Rightarrow> let r' = snapshot_row p sn r in (Inr r', db\<lparr>pd_analytics := repo_put r' (pd_analytics db)\<rparr>, snd s)
      | None \<Rightarrow>
          let (r, t) = repo_add (snapshot_row p sn \<lparr>ent_id = 0, created_at = now, deleted_at = None, an_publication_id = p,
                an_measured_on = sn_measured_on sn, an_views = 0, an_likes = 0, an_comments = 0, an_watch_time_seconds = 0,
                an_impressions = 0, an_extra = []\<rparr>) (pd_analytics db)
          in (Inr r, db\<lparr>pd_analytics := t\<rparr>, snd s))"

definition collect_analytics :: "'s pipeline_env \<Rightarrow> nat \<Rightarrow> int option \<Rightarrow> time \<Rightarrow> (analytics_record, 's) pipe" where
  "collect_analytics env i on now = track_stage ''analytics'' (\<lambda>s.
     case repo_get i (pd_publications (fst s)) of
       None \<Rightarrow> pipe_error NotFoundError ''Publication not found.'' s
     | Some p \<Rightarrow>
         if \<not> truthy (pb_external_id p) then pipe_error ValidationError ''That publication has not been published yet.'' s
         else
           then_do (provider env PK_ANALYTICS pr_analytics) (\<lambda>fetch.
           then_do (pipe_call (fetch (the (pb_external_id p)) on)) (\<lambda>sn.
           store_snapshot (ent_id p) sn now)) s)"

definition percent :: "nat \<Rightarrow> rat \<Rightarrow> string" where
  \<comment> \<open>\<open>f"{x:.n%}"\<close>\<close>
  "percent n q = (if n = 0 then int_digits (round_half_even (q * 100)) else fixed n (q * 100)) @ ''%''"

definition lessons_from :: "pipeline_run \<Rightarrow> analytics_record \<Rightarrow> rat \<Rightarrow> time \<Rightarrow> performance_lesson list" where
  "lessons_from run a ctr_target now =
     (let ctr = click_through_rate (an_views a) (an_impressions a);
          duration = (case dict_get (artifact run ''render'') ''duration_seconds'' of
            Some v \<Rightarrow> (case py_num v of Some q \<Rightarrow> q | None \<Rightarrow> 0) | None \<Rightarrow> 0);
          retention = of_int (an_watch_time_seconds a) / (duration * of_int (an_views a))
      in (if ctr < ctr_target
          then [\<lparr>ent_id = 0, created_at = now, deleted_at = None, le_video_id = Some (pn_video_id run), le_dimension = ''thumbnail_or_title'',
                 le_observation = ''Click-through rate '' @ percent 2 ctr @ '' is below the '' @ percent 0 ctr_target
                   @ '' target; the title or thumbnail is likely the limiting factor.'',
                 le_confidence = 6 / 10, le_evidence = [(''views'', PInt (an_views a)), (''impressions'', PInt (an_impressions a)), (''ctr'', PFloat ctr)]\<rparr>]
          else [])
       @ (if duration \<noteq> 0 \<and> an_views a \<noteq> 0
          then [\<lparr>ent_id = 0, created_at = now, deleted_at = None, le_video_id = Some (pn_video_id run), le_dimension = ''retention'',
                 le_observation = ''Average retention is '' @ percent 0 retention @ '' of a '' @ int_digits (round_half_even duration) @ ''s video.'',
                 le_confidence = 5 / 10, le_evidence = [(''watch_time_seconds'', PInt (an_watch_time_seconds a)),
                   (''duration_seconds'', PFloat duration), (''retention'', PFloat retention)]\<rparr>]
          else []))"

definition latest_analytics :: "nat \<Rightarrow> pipeline_db \<Rightarrow> analytics_record option" where
  "latest_analytics p db = (case sorted_desc an_measured_on (filter (\<lambda>a. an_publication_id a = p) (map snd (pd_analytics db))) of
     [] \<Rightarrow> None | a # _ \<Rightarrow> Some a)"

definition learn :: "pipeline_run \<Rightarrow> rat \<Rightarrow> time \<Rightarrow> (performance_lesson list \<times> pipeline_run, 's) pipe" where
  "learn run ctr_target now = track_stage ''learn'' (\<lambda>s.
     let lessons = (case for_video (pn_video_id run) ''youtube'' (fst s) of
           None \<Rightarrow> []
         | Some p \<Rightarrow> (case latest_analytics (ent_id p) (fst s) of None \<Rightarrow> [] | Some a \<Rightarrow> lessons_from run a ctr_target now));
         (rows, t) = bulk_add lessons (pd_lessons (fst s))
     in then_do (advance run PL_DONE [(''learning'', PDict [(''lesson_count'', PInt (int (length lessons)))])] now)
          (\<lambda>run'. give (rows, run')) ((fst s)\<lparr>pd_lessons := t\<rparr>, snd s))"

section \<open>The whole pipeline\<close>

definition run_to_completion ::
    "'s pipeline_env \<Rightarrow> nat \<Rightarrow> string \<Rightarrow> note_spec list \<Rightarrow> string list \<Rightarrow> (nat \<Rightarrow> time) \<Rightarrow> (pipeline_run, 's) pipe" where
  \<comment> \<open>\<open>clock\<close> gives the reading of each call\<close>
  "run_to_completion env v text notes tags clock =
     then_do (pipeline_start v (clock 0)) (\<lambda>run0.
     then_do (if notes \<noteq> [] then add_research v notes (clock 1) else give []) (\<lambda>_.
     then_do (research run0 (clock 2)) (\<lambda>run1.
     then_do (script run1 text (clock 3)) (\<lambda>(_, run2).
     then_do (voiceover env run2 None (clock 4)) (\<lambda>(_, run3).
     then_do (render env run3 None (clock 5)) (\<lambda>(_, run4).
     then_do (publish env run4 ''youtube'' tags None (clock 6)) (\<lambda>(p, run5).
     then_do (collect_analytics env (ent_id p) None (clock 7)) (\<lambda>_.
     then_do (learn run5 (5 / 100) (clock 8)) (\<lambda>(_, run6).
     give run6)))))))))"

definition artifact_url :: "'s storage_client \<Rightarrow> pipeline_run \<Rightarrow> string \<Rightarrow> 's \<Rightarrow> (storage_exc + string option) \<times> 's" where
  "artifact_url client run stage w =
     (let key = str_entry (artifact run stage) ''storage_key'' in
      if \<not> truthy key then (Inr None, w)
      else (case sc_presign_url client (the key) 3600 w of (Inl e, w') \<Rightarrow> (Inl e, w') | (Inr url, w') \<Rightarrow> (Inr (Some url), w')))"

section \<open>What a stage leaves alone\<close>

definition stage_log :: "pipeline_db \<Rightarrow> metric_event list" where
  "stage_log db = filter (\<lambda>m. fst (snd m) = ''pipeline_stages_total'') (pd_metrics db)"

definition leaves :: "('a, 's) pipe \<Rightarrow> bool" where
  \<comment> \<open>neither the runs nor the stage counters change\<close>
  "leaves f \<longleftrightarrow> (\<forall>s. pd_runs (fst (snd (f s))) = pd_runs (fst s) \<and> stage_log (fst (snd (f s))) = stage_log (fst s))"

named_theorems pipe_intros

lemma leavesI [intro]:
  "(\<And>s. pd_runs (fst (snd (f s))) = pd_runs (fst s) \<and> stage_log (fst (snd (f s))) = stage_log (fst s)) \<Longrightarrow> leaves f"
  by (simp add: leaves_def)

lemma leavesD:
  "leaves f \<Longrightarrow> pd_runs (fst (snd (f s))) = pd_runs (fst s)"
  "leaves f \<Longrightarrow> stage_log (fst (snd (f s))) = stage_log (fst s)"
  unfolding leaves_def by blast+

lemma leaves_bind [pipe_intros]:
  assumes "leaves f" "\<And>x. leaves (g x)"
  shows "leaves (then_do f g)"
proof
  fix s
  obtain r s' where f: "f s = (r, s')" by (cases "f s")
  with assms(1) have "pd_runs (fst s') = pd_runs (fst s) \<and> stage_log (fst s') = stage_log (fst s)"
    unfolding leaves_def by (metis snd_conv)
  with assms(2) f show "pd_runs (fst (snd (then_do f g s))) = pd_runs (fst s) \<and> stage_log (fst (snd (then_do f g s))) = stage_log (fst s)"
    by (cases r) (simp_all add: then_do_def leavesD)
qed

lemma leaves_return [pipe_intros]: "leaves (give x)"
  by (auto simp: give_def)

lemma leaves_error [pipe_intros]: "leaves (\<lambda>s. (Inl e, s))"
  by auto

lemma leaves_case_prod [pipe_intros]: "(\<And>x y. leaves (f x y)) \<Longrightarrow> leaves (case p of (x, y) \<Rightarrow> f x y)"
  by (cases p) simp

lemma leaves_if [pipe_intros]: "leaves f \<Longrightarrow> leaves g \<Longrightarrow> leaves (if b then f else g)"
  by simp

lemma leaves_get_video [pipe_intros]: "leaves (get_video v)"
  by (auto simp: get_video_def split: option.split)

lemma leaves_scripted [pipe_intros]: "leaves (scripted_version vid c)"
  by (auto simp: scripted_version_def split: option.split)

lemma leaves_provider [pipe_intros]: "leaves (provider env kind factories)"
  by (auto simp: provider_def)

lemma leaves_call [pipe_intros]: "leaves (pipe_call f)"
  by (auto simp: pipe_call_def split: prod.split sum.split)

lemma leaves_put_video [pipe_intros]: "leaves (put_video vid)"
  by (auto simp: put_video_def pipe_update_def stage_log_def)

lemma leaves_put_publication [pipe_intros]: "leaves (put_publication p)"
  by (auto simp: put_publication_def pipe_update_def stage_log_def)

lemma leaves_add_version [pipe_intros]: "leaves (add_version v text now)"
  by (auto simp: add_version_def stage_log_def Let_def split: prod.split)

lemma leaves_meter [pipe_intros]: "leaves (meter_render vid now)"
  by (auto simp: meter_render_def stage_log_def split: sum.split prod.split)

lemma plugin_metrics_no_stage: "Plugins.dispatch reg hook payload org = (final, rs, ms) \<Longrightarrow>
    filter (\<lambda>m. fst (snd m) = ''pipeline_stages_total'') ms = []"
proof -
  have a: "snd (answer_result p hook ans) = [plugin_metric p hook oc] \<longrightarrow> True" for p hook ans oc by simp
  have one: "filter (\<lambda>m. fst (snd m) = ''pipeline_stages_total'') (snd (answer_result p hook ans)) = []" for p ans
    by (cases ans) (auto simp: plugin_metric_def)
  have two: "filter (\<lambda>m. fst (snd m) = ''pipeline_stages_total'') (snd (snd (invoke p hook cur org))) = []" for p cur
    using one by (auto simp: invoke_def Let_def split: prod.splits) (metis snd_conv)
  have "filter (\<lambda>m. fst (snd m) = ''pipeline_stages_total'') (snd (snd (dispatch_all ps hook org cur))) = []" for ps cur
  proof (induction ps arbitrary: cur)
    case (Cons p ps)
    obtain r sh m1 where i: "invoke p hook cur org = (r, sh, m1)" by (metis prod_cases3)
    with two [of p cur] Cons show ?case
      by (simp add: dispatch_all_step [OF i refl] del: dispatch_all.simps(2))
  qed simp
  then show "Plugins.dispatch reg hook payload org = (final, rs, ms) \<Longrightarrow> ?thesis"
    by (metis Plugins.dispatch_def snd_conv)
qed

lemma leaves_listing [pipe_intros]: "leaves (listing env vid platform tags)"
  using plugin_metrics_no_stage by (auto simp: listing_def stage_log_def split: prod.split)

lemma leaves_add_publication: "leaves (add_publication vid platform final tags now)"
  by (auto simp: add_publication_def stage_log_def Let_def split: pyval.split prod.split)

lemma leaves_publication_for [pipe_intros]: "leaves (publication_for vid platform final tags now)"
  using leaves_add_publication [of vid platform final tags now] by (auto simp: publication_for_def leaves_def split: option.split)

lemma leaves_upload [pipe_intros]: "leaves (upload_video send p key vid tags options)"
proof
  fix s
  obtain r s' where c: "pipe_call (send key (vd_title vid) (vd_description vid) (if tags \<noteq> [] then map PStr tags else pb_tags p) options) s = (r, s')"
    by (meson surj_pair)
  have "pd_runs (fst s') = pd_runs (fst s) \<and> stage_log (fst s') = stage_log (fst s)"
    using leaves_call c unfolding leaves_def by (metis snd_conv)
  then show "pd_runs (fst (snd (upload_video send p key vid tags options s))) = pd_runs (fst s)
      \<and> stage_log (fst (snd (upload_video send p key vid tags options s))) = stage_log (fst s)"
    unfolding upload_video_def c by (simp add: leavesD [OF leaves_put_publication] split: sum.split pipe_exc.split)
qed

lemma leaves_store_snapshot [pipe_intros]: "leaves (store_snapshot p sn now)"
  by (auto simp: store_snapshot_def stage_log_def Let_def split: option.split prod.split)

lemma leaves_update_events [pipe_intros]: "leaves (pipe_update (\<lambda>db. db\<lparr>pd_events := f db\<rparr>))"
  by (auto simp: pipe_update_def stage_log_def)

lemma leaves_add_notes [pipe_intros]: "leaves (add_notes v now ns :: (research_note list, 's) pipe)"
proof (induction ns)
  case Nil
  show ?case by auto
next
  case (Cons n ns)
  have b: "leaves (then_do (add_notes v now ns :: (research_note list, 's) pipe) (\<lambda>notes. give (x # notes)))" for x
    by (intro pipe_intros Cons.IH)
  show ?case
  proof
    fix s :: "pipeline_db \<times> 's"
    show "pd_runs (fst (snd (add_notes v now (n # ns) s))) = pd_runs (fst s) \<and> stage_log (fst (snd (add_notes v now (n # ns) s))) = stage_log (fst s)"
      using leavesD [OF b] by (simp add: Let_def stage_log_def split: prod.split)
  qed
qed

section \<open>What a stage moves\<close>

definition moved :: "pipeline_run \<Rightarrow> pipeline_stage \<Rightarrow> string \<Rightarrow> pipeline_run \<Rightarrow> bool" where
  "moved run to key run' \<longleftrightarrow> (\<exists>d now. run' = run\<lparr>pn_stage := to, pn_error := None,
     pn_artifacts := dict_update (pn_artifacts run) [(key, PDict d)],
     pn_finished_at := (if to \<in> {PL_DONE, PL_FAILED} then Some now else pn_finished_at run)\<rparr>)"

definition moves :: "pipeline_run \<Rightarrow> pipeline_stage \<Rightarrow> string \<Rightarrow> ('a \<times> pipeline_run, 's) pipe \<Rightarrow> bool" where
  \<comment> \<open>the stage puts the run in the next stage with its artifact, or leaves the runs alone\<close>
  "moves run to key f \<longleftrightarrow> (\<forall>s. stage_log (fst (snd (f s))) = stage_log (fst s)
     \<and> (case fst (f s) of Inl e \<Rightarrow> pd_runs (fst (snd (f s))) = pd_runs (fst s)
        | Inr (x, run') \<Rightarrow> moved run to key run' \<and> pd_runs (fst (snd (f s))) = repo_put run' (pd_runs (fst s))))"

lemma moves_bind [pipe_intros]:
  assumes "leaves f" "\<And>x. moves run to key (g x)"
  shows "moves run to key (then_do f g)"
  unfolding moves_def
proof
  fix s
  obtain r s' where f: "f s = (r, s')" by (cases "f s")
  with assms(1) have l: "pd_runs (fst s') = pd_runs (fst s)" "stage_log (fst s') = stage_log (fst s)"
    unfolding leaves_def by (metis snd_conv)+
  show "stage_log (fst (snd (then_do f g s))) = stage_log (fst s)
     \<and> (case fst (then_do f g s) of Inl e \<Rightarrow> pd_runs (fst (snd (then_do f g s))) = pd_runs (fst s)
        | Inr (x, run') \<Rightarrow> moved run to key run' \<and> pd_runs (fst (snd (then_do f g s))) = repo_put run' (pd_runs (fst s)))"
  proof (cases r)
    case (Inl e)
    with f l show ?thesis by (simp add: then_do_def)
  next
    case (Inr x)
    then have e: "then_do f g s = g x s'" using f by (simp add: then_do_def)
    show ?thesis
      using assms(2) [of x] unfolding e moves_def l [symmetric] by blast
  qed
qed

lemma moves_case_prod [pipe_intros]: "(\<And>x y. moves run to key (f x y)) \<Longrightarrow> moves run to key (case p of (x, y) \<Rightarrow> f x y)"
  by (cases p) simp

lemma moves_if [pipe_intros]: "moves run to key f \<Longrightarrow> moves run to key g \<Longrightarrow> moves run to key (if b then f else g)"
  by simp

lemma moves_error [pipe_intros]: "moves run to key (\<lambda>s. (Inl e, s))"
  by (simp add: moves_def)

lemma size_metrics_no_stage: "filter (\<lambda>m. fst (snd m) = ''pipeline_stages_total'') (record_artifact_size key v) = []"
  by (auto simp: record_artifact_size_def split: option.split)

lemma moves_advance [pipe_intros]:
  fixes h :: "pipeline_run \<Rightarrow> ('a \<times> pipeline_run, 's) pipe"
  assumes "\<And>run'. leaves (h run')" "\<And>run' s. \<exists>x. fst (h run' s) = Inr (x, run')"
  shows "moves run to key (then_do (advance run to [(key, PDict d)] now) h)"
  unfolding moves_def
proof
  fix s :: "pipeline_db \<times> 's"
  define run' where "run' = run\<lparr>pn_stage := to, pn_error := None, pn_artifacts := dict_update (pn_artifacts run) [(key, PDict d)],
            pn_finished_at := (if to \<in> {PL_DONE, PL_FAILED} then Some now else pn_finished_at run)\<rparr>"
  define s1 where "s1 = ((fst s)\<lparr>pd_runs := repo_put run' (pd_runs (fst s)),
      pd_metrics := pd_metrics (fst s) @ record_artifact_size key (dict_get d ''size_bytes'')\<rparr>, snd s)"
  have a: "advance run to [(key, PDict d)] now s = (Inr run', s1)"
    by (simp add: advance_def s1_def run'_def Let_def)
  have m: "moved run to key run'" unfolding moved_def run'_def by blast
  obtain x where x: "fst (h run' s1) = Inr (x, run')" using assms(2) by blast
  have "pd_runs (fst (snd (h run' s1))) = repo_put run' (pd_runs (fst s))" "stage_log (fst (snd (h run' s1))) = stage_log (fst s)"
    using assms(1) [of run'] size_metrics_no_stage by (simp_all add: leaves_def s1_def stage_log_def)
  with a m x show "stage_log (fst (snd (then_do (advance run to [(key, PDict d)] now) h s))) = stage_log (fst s)
     \<and> (case fst (then_do (advance run to [(key, PDict d)] now) h s) of
          Inl e \<Rightarrow> pd_runs (fst (snd (then_do (advance run to [(key, PDict d)] now) h s))) = pd_runs (fst s)
        | Inr (x, run') \<Rightarrow> moved run to key run' \<and> pd_runs (fst (snd (then_do (advance run to [(key, PDict d)] now) h s))) = repo_put run' (pd_runs (fst s)))"
    by (simp add: then_do_def)
qed

lemma meter_render_Inr: "\<exists>s'. meter_render vid now s = (Inr (), s')"
  by (auto simp: meter_render_def usage_record_add_def Let_def split: prod.split)

lemma then_return: "\<exists>x. fst (give (y, run') s) = Inr (x, run')"
  by (simp add: give_def)

lemma meter_then_return: "\<exists>x. fst (then_do (meter_render vid now) (\<lambda>_. give (y, run')) s) = Inr (x, run')"
  using meter_render_Inr [of vid now s] by (auto simp: then_do_def give_def)

lemma update_then_return: "\<exists>x. fst (then_do (pipe_update f) (\<lambda>_. give (y, run')) s) = Inr (x, run')"
  by (simp add: then_do_def pipe_update_def give_def)

section \<open>Every stage moves its run\<close>

definition stage_done :: "string \<Rightarrow> pipeline_run \<Rightarrow> pipeline_stage \<Rightarrow> string \<Rightarrow> pipeline_db \<times> 's \<Rightarrow> pipe_exc + ('a \<times> pipeline_run) \<Rightarrow> pipeline_db \<times> 's \<Rightarrow> bool" where
  "stage_done name run to key s r s' \<longleftrightarrow> (case r of
     Inl e \<Rightarrow> pd_runs (fst s') = pd_runs (fst s) \<and> stage_log (fst s') = stage_log (fst s) @ [stage_metric name ''failed'']
   | Inr (x, run') \<Rightarrow> moved run to key run' \<and> pd_runs (fst s') = repo_put run' (pd_runs (fst s))
       \<and> stage_log (fst s') = stage_log (fst s) @ [stage_metric name ''succeeded''])"

lemma stage_metric_logged: "filter (\<lambda>m. fst (snd m) = ''pipeline_stages_total'') [stage_metric name oc] = [stage_metric name oc]"
  by (simp add: stage_metric_def)

lemma track_stage_log:
  "stage_log (fst (snd (track_stage name f s))) = stage_log (fst (snd (f s)))
     @ [stage_metric name (case fst (f s) of Inl _ \<Rightarrow> ''failed'' | Inr _ \<Rightarrow> ''succeeded'')]"
  "pd_runs (fst (snd (track_stage name f s))) = pd_runs (fst (snd (f s)))"
  "fst (track_stage name f s) = fst (f s)"
  using stage_metric_logged by (simp_all add: track_stage_def stage_log_def split: prod.split)

lemma track_moves:
  assumes "moves run to key f" "track_stage name f s = (r, s')"
  shows "stage_done name run to key s r s'"
  using assms(1)[unfolded moves_def, rule_format, of s] track_stage_log [of name f s] assms(2)
  by (simp add: stage_done_def split: sum.splits prod.splits)

lemma script_done: "script run text now s = (r, s') \<Longrightarrow> stage_done ''script'' run PL_VOICEOVER ''script'' s r s'"
  unfolding script_def by (erule track_moves [rotated], intro pipe_intros then_return)

lemma voiceover_done: "voiceover env run voice now s = (r, s') \<Longrightarrow> stage_done ''voiceover'' run PL_RENDER ''voiceover'' s r s'"
  unfolding voiceover_def by (erule track_moves [rotated], intro pipe_intros then_return)

lemma render_done: "render env run options now s = (r, s') \<Longrightarrow> stage_done ''render'' run PL_PUBLISH ''render'' s r s'"
  unfolding render_def by (erule track_moves [rotated], intro pipe_intros meter_then_return)

lemma publish_done: "publish env run platform tags options now s = (r, s') \<Longrightarrow> stage_done ''publish'' run PL_ANALYTICS ''publish'' s r s'"
  unfolding publish_def Let_def by (erule track_moves [rotated], intro pipe_intros update_then_return)

lemma research_done:
  assumes "research run now s = (r, s')"
  shows "\<exists>run'. r = Inr run' \<and> stage_done ''research'' run PL_SCRIPT ''research'' s (Inr ((), run')) s'"
proof -
  define d where "d = [(''note_count'', PInt (int (length (filter (\<lambda>n. rn_video_id n = pn_video_id run) (base_query False (pd_notes (fst s)))))))]"
  define f :: "(unit \<times> pipeline_run, 'a) pipe" where "f = then_do (advance run PL_SCRIPT [(''research'', PDict d)] now) (\<lambda>run'. give ((), run'))"
  have "moves run PL_SCRIPT ''research'' f" unfolding f_def by (intro pipe_intros then_return)
  from track_moves [OF this, of "''research''" s "fst (track_stage ''research'' f s)" "snd (track_stage ''research'' f s)"]
  have t: "stage_done ''research'' run PL_SCRIPT ''research'' s (fst (track_stage ''research'' f s)) (snd (track_stage ''research'' f s))" by simp
  obtain run' s1 where a: "advance run PL_SCRIPT [(''research'', PDict d)] now s = (Inr run', s1)"
    by (simp add: advance_def Let_def)
  have "r = Inr run'" "track_stage ''research'' f s = (Inr ((), run'), s')"
    using assms a by (auto simp: research_def track_stage_def f_def then_do_def give_def d_def split: prod.splits)
  with t show ?thesis by auto
qed

lemma learn_done:
  assumes "learn run target now s = (r, s')"
  shows "\<exists>rows run'. r = Inr (rows, run') \<and> stage_done ''learn'' run PL_DONE ''learning'' s r s'"
proof -
  define ls where "ls = (case for_video (pn_video_id run) ''youtube'' (fst s) of
           None \<Rightarrow> []
         | Some p \<Rightarrow> (case latest_analytics (ent_id p) (fst s) of None \<Rightarrow> [] | Some a \<Rightarrow> lessons_from run a target now))"
  obtain rows t where b: "bulk_add ls (pd_lessons (fst s)) = (rows, t)" by fastforce
  define s0 where "s0 = ((fst s)\<lparr>pd_lessons := t\<rparr>, snd s)"
  define f :: "(performance_lesson list \<times> pipeline_run, 'a) pipe" where
    "f = then_do (advance run PL_DONE [(''learning'', PDict [(''lesson_count'', PInt (int (length ls)))])] now) (\<lambda>run'. give (rows, run'))"
  have e: "learn run target now s = track_stage ''learn'' f s0"
    by (simp add: learn_def track_stage_def ls_def [symmetric] b f_def s0_def)
  have "moves run PL_DONE ''learning'' f" unfolding f_def by (intro pipe_intros then_return)
  have s0: "pd_runs (fst s0) = pd_runs (fst s)" "stage_log (fst s0) = stage_log (fst s)" by (simp_all add: s0_def stage_log_def)
  from track_moves [OF \<open>moves run PL_DONE ''learning'' f\<close> assms [unfolded e]] have t: "stage_done ''learn'' run PL_DONE ''learning'' s r s'"
    unfolding stage_done_def s0 .
  have "\<exists>rows run'. fst (f s0) = Inr (rows, run')" by (simp add: f_def then_do_def advance_def give_def Let_def)
  then have "\<exists>rows run'. r = Inr (rows, run')" using assms track_stage_log(3) [of "''learn''" f s0] by (simp add: e)
  with t show ?thesis by blast
qed

lemma analytics_done:
  assumes "collect_analytics env i on now s = (r, s')"
  shows "pd_runs (fst s') = pd_runs (fst s)
    \<and> stage_log (fst s') = stage_log (fst s) @ [stage_metric ''analytics'' (case r of Inl _ \<Rightarrow> ''failed'' | Inr _ \<Rightarrow> ''succeeded'')]"
proof -
  let ?go = "\<lambda>p. then_do (provider env PK_ANALYTICS pr_analytics) (\<lambda>fetch.
           then_do (pipe_call (fetch (the (pb_external_id p)) on)) (\<lambda>sn. store_snapshot (ent_id p) sn now))"
  define f where "f = (\<lambda>s. case repo_get i (pd_publications (fst s)) of
       None \<Rightarrow> pipe_error NotFoundError ''Publication not found.'' s
     | Some p \<Rightarrow>
         if \<not> truthy (pb_external_id p) then pipe_error ValidationError ''That publication has not been published yet.'' s
         else ?go p s)"
  have go: "leaves (?go p)" for p by (intro pipe_intros)
  have "pd_runs (fst (snd (f s))) = pd_runs (fst s)" "stage_log (fst (snd (f s))) = stage_log (fst s)"
    unfolding f_def by (simp_all add: leavesD [OF go] split: option.split)
  then show ?thesis
    using assms track_stage_log [of "''analytics''" f s] unfolding collect_analytics_def f_def [symmetric] by simp
qed

section \<open>The whole pipeline, stage by stage\<close>

definition STAGE_NAMES :: "string list" where
  \<comment> \<open>as the stages are counted\<close>
  "STAGE_NAMES = [''research'', ''script'', ''voiceover'', ''render'', ''publish'', ''analytics'', ''learn'']"

definition run_stage :: "nat \<Rightarrow> pipeline_stage" where
  \<comment> \<open>the stage of a run when \<open>k\<close> stages are done\<close>
  "run_stage k = (if k < 6 then STAGE_ORDER ! k else if k = 6 then PL_ANALYTICS else PL_DONE)"

definition ARTIFACTS :: "nat \<Rightarrow> string list" where
  \<comment> \<open>the artifacts of a run when \<open>k\<close> stages are done\<close>
  "ARTIFACTS k = take (min k 5) [''research'', ''script'', ''voiceover'', ''render'', ''publish''] @ (if 6 < k then [''learning''] else [])"

definition progressed :: "metric_event list \<Rightarrow> nat \<Rightarrow> pipeline_run \<Rightarrow> pipeline_db \<Rightarrow> bool" where
  \<comment> \<open>exactly the first \<open>k\<close> stages succeeded since the log was \<open>lg\<close>\<close>
  "progressed lg k run db \<longleftrightarrow> stage_log db = lg @ map (\<lambda>n. stage_metric n ''succeeded'') (take k STAGE_NAMES)
     \<and> repo_get (ent_id run) (pd_runs db) = Some run \<and> pn_stage run = run_stage k
     \<and> (pn_finished_at run = None \<longleftrightarrow> k < 7) \<and> keys (pn_artifacts run) = ARTIFACTS k"

definition stopped :: "metric_event list \<Rightarrow> pipeline_db \<Rightarrow> bool" where
  \<comment> \<open>a stage failed after the ones before it; the run waits in it with their artifacts\<close>
  "stopped lg db \<longleftrightarrow> (\<exists>k run. 0 < k \<and> k < 6
     \<and> stage_log db = lg @ map (\<lambda>n. stage_metric n ''succeeded'') (take k STAGE_NAMES) @ [stage_metric (STAGE_NAMES ! k) ''failed'']
     \<and> repo_get (ent_id run) (pd_runs db) = Some run \<and> pn_stage run = STAGE_ORDER ! k \<and> pn_finished_at run = None
     \<and> keys (pn_artifacts run) = ARTIFACTS k)"

lemma stage_done_progress:
  assumes "progressed lg k run (fst s)" "stage_done (STAGE_NAMES ! k) run (run_stage j) key s r s'" "k < 7"
    and "ARTIFACTS j = ARTIFACTS k @ [key]" "key \<notin> set (ARTIFACTS k)" "j = Suc k" "r = Inr (x, run')"
  shows "progressed lg j run' (fst s')"
proof -
  from assms(2,7) have m: "moved run (run_stage j) key run'" "pd_runs (fst s') = repo_put run' (pd_runs (fst s))"
      "stage_log (fst s') = stage_log (fst s) @ [stage_metric (STAGE_NAMES ! k) ''succeeded'']"
    by (simp_all add: stage_done_def)
  then obtain d now where run': "run' = run\<lparr>pn_stage := run_stage j, pn_error := None,
     pn_artifacts := dict_update (pn_artifacts run) [(key, PDict d)],
     pn_finished_at := (if run_stage j \<in> {PL_DONE, PL_FAILED} then Some now else pn_finished_at run)\<rparr>"
    by (auto simp: moved_def)
  have "take (Suc k) STAGE_NAMES = take k STAGE_NAMES @ [STAGE_NAMES ! k]"
    by (rule take_Suc_conv_app_nth) (use assms(3) in \<open>simp add: STAGE_NAMES_def\<close>)
  moreover have "keys (dict_set key (PDict d) (pn_artifacts run)) = keys (pn_artifacts run) @ [key]"
    using assms(1,5) by (simp add: progressed_def AList.update_keys)
  moreover have "run_stage j \<in> {PL_DONE, PL_FAILED} \<longleftrightarrow> j = 7"
  proof -
    have "\<forall>j \<in> {1..7}. run_stage j \<in> {PL_DONE, PL_FAILED} \<longleftrightarrow> j = 7"
      by (simp add: run_stage_def STAGE_ORDER_def nth_Cons' numeral_nat)
    then show ?thesis using assms(3,6) by simp
  qed
  ultimately show ?thesis
    using assms(1,3,4,6) m(2,3) by (auto simp: progressed_def run')
qed

lemma stage_done_stop:
  assumes "progressed lg k run (fst s)" "stage_done (STAGE_NAMES ! k) run to key s (Inl e) s'" "0 < k" "k < 6"
  shows "stopped lg (fst s')"
  unfolding stopped_def
  using assms by (intro exI [of _ k] exI [of _ run]) (simp add: progressed_def stage_done_def run_stage_def)

lemma pipeline_start_cases:
  assumes "pipeline_start v now s = (r, s')"
  shows "(\<exists>e. r = Inl e \<and> s' = s)
    \<or> (\<exists>run. r = Inr run \<and> progressed (stage_log (fst s)) 0 run (fst s') \<and> stage_log (fst s') = stage_log (fst s))"
proof -
  have "snd (get_video v s) = s" by (simp add: get_video_def split: option.split)
  then obtain g where g: "get_video v s = (g, s)" by (metis surj_pair snd_conv)
  define conflict where "conflict = (case latest_for_video v (fst s) of Some r \<Rightarrow> pn_finished_at r = None | None \<Rightarrow> False)"
  let ?row = "\<lparr>ent_id = 0, created_at = now, deleted_at = None, pn_video_id = v, pn_stage = PL_RESEARCH, pn_error = None,
             pn_started_at = Some now, pn_finished_at = None, pn_artifacts = []\<rparr>"
  obtain run t where a: "repo_add ?row (pd_runs (fst s)) = (run, t)" by fastforce
  show ?thesis
  proof (cases "(\<exists>e. g = Inl e) \<or> conflict")
    case True
    then show ?thesis using assms g by (auto simp: pipeline_start_def then_do_def conflict_def split: sum.splits)
  next
    case False
    then have e: "r = Inr run" "s' = ((fst s)\<lparr>pd_runs := t\<rparr>, snd s)"
      using assms g a by (auto simp: pipeline_start_def then_do_def conflict_def split: sum.splits)
    have "run = ?row\<lparr>ent_id := new_id (pd_runs (fst s))\<rparr>" by (rule repo_add_new(1) [OF a])
    then have "progressed (stage_log (fst s)) 0 run (fst s')"
      using repo_add_new(4) [OF a, of "ent_id run"]
      by (simp add: progressed_def e stage_log_def run_stage_def STAGE_ORDER_def ARTIFACTS_def)
    then show ?thesis by (auto simp: e stage_log_def)
  qed
qed

lemma progressed_leaves:
  "progressed lg k run (fst s) \<Longrightarrow> leaves f \<Longrightarrow> f s = (r, s') \<Longrightarrow> progressed lg k run (fst s')"
  using leavesD [of f s] by (auto simp: progressed_def)

lemma at_names: "STAGE_NAMES ! 0 = ''research''" "STAGE_NAMES ! 1 = ''script''" "STAGE_NAMES ! 2 = ''voiceover''" "STAGE_NAMES ! 3 = ''render''"
  "STAGE_NAMES ! 4 = ''publish''" "STAGE_NAMES ! 5 = ''analytics''" "STAGE_NAMES ! 6 = ''learn''"
  by (simp_all add: STAGE_NAMES_def)

lemma run_stages: "run_stage 1 = PL_SCRIPT" "run_stage 2 = PL_VOICEOVER" "run_stage 3 = PL_RENDER" "run_stage 4 = PL_PUBLISH"
  "run_stage 5 = PL_ANALYTICS" "run_stage 6 = PL_ANALYTICS" "run_stage 7 = PL_DONE"
  by (simp_all add: run_stage_def STAGE_ORDER_def)

definition outcome :: "metric_event list \<Rightarrow> (pipe_exc + pipeline_run) \<times> pipeline_db \<times> 's \<Rightarrow> bool" where
  "outcome lg rs \<longleftrightarrow> (case rs of (Inr run, s') \<Rightarrow> progressed lg 7 run (fst s')
     | (Inl e, s') \<Rightarrow> stopped lg (fst s') \<or> stage_log (fst s') = lg)"

definition good :: "metric_event list \<Rightarrow> nat \<Rightarrow> pipeline_run \<Rightarrow> (pipeline_run, 's) pipe \<Rightarrow> bool" where
  "good lg k run f \<longleftrightarrow> (\<forall>s. progressed lg k run (fst s) \<longrightarrow> outcome lg (f s))"

lemma outcome_bind:
  assumes "\<And>e s'. f s = (Inl e, s') \<Longrightarrow> stopped lg (fst s') \<or> stage_log (fst s') = lg"
    and "\<And>x s'. f s = (Inr x, s') \<Longrightarrow> outcome lg (g x s')"
  shows "outcome lg (then_do f g s)"
  using assms by (cases "f s") (auto simp: then_do_def outcome_def split: sum.split)

lemma goodD: "good lg k run f \<Longrightarrow> progressed lg k run (fst s) \<Longrightarrow> outcome lg (f s)"
  unfolding good_def by blast

lemma ARTIFACTS_at: "ARTIFACTS 0 = []" "ARTIFACTS 1 = [''research'']" "ARTIFACTS 2 = [''research'', ''script'']"
  "ARTIFACTS 3 = [''research'', ''script'', ''voiceover'']" "ARTIFACTS 4 = [''research'', ''script'', ''voiceover'', ''render'']"
  "ARTIFACTS 5 = [''research'', ''script'', ''voiceover'', ''render'', ''publish'']"
  "ARTIFACTS 6 = [''research'', ''script'', ''voiceover'', ''render'', ''publish'']"
  "ARTIFACTS 7 = [''research'', ''script'', ''voiceover'', ''render'', ''publish'', ''learning'']"
  by (simp_all add: ARTIFACTS_def)

lemma good_stage:
  assumes body: "\<And>s r s'. f s = (r, s') \<Longrightarrow> stage_done (STAGE_NAMES ! k) run (run_stage j) key s r s'"
    and k: "0 < k" "k < 6" "j = Suc k" "ARTIFACTS j = ARTIFACTS k @ [key]" "key \<notin> set (ARTIFACTS k)"
    and rest: "\<And>x run'. good lg j run' (g x run')"
  shows "good lg k run (then_do f (\<lambda>(x, run'). g x run'))"
  unfolding good_def
proof (intro allI impI outcome_bind)
  fix s e s' assume p: "progressed lg k run (fst s)" and f: "f s = (Inl e, s')"
  show "stopped lg (fst s') \<or> stage_log (fst s') = lg"
    using stage_done_stop [OF p body [OF f] k(1,2)] by blast
next
  fix s xr s' assume p: "progressed lg k run (fst s)" and f: "f s = (Inr xr, s')"
  obtain x run' where x: "xr = (x, run')" by fastforce
  have "k < 7" using k(2) by simp
  from stage_done_progress [OF p body [OF f] this k(4,5,3)] x have "progressed lg j run' (fst s')" by simp
  then show "outcome lg ((case xr of (x, run') \<Rightarrow> g x run') s')" using goodD [OF rest [of run' x]] by (simp add: x)
qed

lemma good_script: "(\<And>x run'. good lg 2 run' (g x run')) \<Longrightarrow> good lg 1 run (then_do (script run text now) (\<lambda>(x, run'). g x run'))"
  by (rule good_stage [where j = 2 and key = "''script''"]) (simp_all del: One_nat_def add: at_names run_stages ARTIFACTS_at script_done)

lemma good_voiceover:
  "(\<And>x run'. good lg 3 run' (g x run')) \<Longrightarrow> good lg 2 run (then_do (voiceover env run voice now) (\<lambda>(x, run'). g x run'))"
  by (rule good_stage [where j = 3 and key = "''voiceover''"]) (simp_all del: One_nat_def add: at_names run_stages ARTIFACTS_at voiceover_done)

lemma good_render:
  "(\<And>x run'. good lg 4 run' (g x run')) \<Longrightarrow> good lg 3 run (then_do (render env run options now) (\<lambda>(x, run'). g x run'))"
  by (rule good_stage [where j = 4 and key = "''render''"]) (simp_all del: One_nat_def add: at_names run_stages ARTIFACTS_at render_done)

lemma good_publish:
  "(\<And>x run'. good lg 5 run' (g x run')) \<Longrightarrow> good lg 4 run (then_do (publish env run platform tags options now) (\<lambda>(x, run'). g x run'))"
  by (rule good_stage [where j = 5 and key = "''publish''"]) (simp_all del: One_nat_def add: at_names run_stages ARTIFACTS_at publish_done)

lemma good_analytics:
  assumes "\<And>x. good lg 6 run (g x)"
  shows "good lg 5 run (then_do (collect_analytics env i on now) g)"
  unfolding good_def
proof (intro allI impI outcome_bind)
  fix s e s' assume p: "progressed lg 5 run (fst s)" and f: "collect_analytics env i on now s = (Inl e, s')"
  have "stage_done (STAGE_NAMES ! 5) run PL_DONE [] s (Inl e :: pipe_exc + (unit \<times> pipeline_run)) s'"
    using analytics_done [OF f] by (simp add: stage_done_def at_names)
  from stage_done_stop [OF p this] show "stopped lg (fst s') \<or> stage_log (fst s') = lg" by simp
next
  fix s x s' assume p: "progressed lg 5 run (fst s)" and f: "collect_analytics env i on now s = (Inr x, s')"
  have "progressed lg 6 run (fst s')"
    using p analytics_done [OF f] by (simp add: progressed_def run_stages ARTIFACTS_at STAGE_NAMES_def)
  then show "outcome lg (g x s')" by (rule goodD [OF assms])
qed

lemma good_learn: "good lg 6 run (then_do (learn run target now) (\<lambda>(_, run'). give run'))"
  unfolding good_def
proof (intro allI impI outcome_bind)
  fix s e s' assume "learn run target now s = (Inl e, s')"
  then show "stopped lg (fst s') \<or> stage_log (fst s') = lg" using learn_done by fastforce
next
  fix s xr s' assume p: "progressed lg 6 run (fst s)" and f: "learn run target now s = (Inr xr, s')"
  obtain rows run' where x: "xr = (rows, run')" "stage_done ''learn'' run PL_DONE ''learning'' s (Inr (rows, run')) s'"
    using learn_done [OF f] by blast
  have "progressed lg 7 run' (fst s')"
    by (rule stage_done_progress [OF p, where key = "''learning''" and r = "Inr (rows, run')"])
      (use x in \<open>simp_all add: at_names run_stages ARTIFACTS_at\<close>)
  then show "outcome lg ((case xr of (_, run') \<Rightarrow> give run') s')" by (simp add: x outcome_def give_def)
qed

lemma good_research:
  fixes g :: "pipeline_run \<Rightarrow> (pipeline_run, 's) pipe"
  assumes "\<And>run'. good lg 1 run' (g run')"
  shows "good lg 0 run (then_do (research run now) g)"
  unfolding good_def
proof (intro allI impI outcome_bind)
  fix s s' :: "pipeline_db \<times> 's" and e assume "research run now s = (Inl e, s')"
  then show "stopped lg (fst s') \<or> stage_log (fst s') = lg" using research_done by fastforce
next
  fix s s' :: "pipeline_db \<times> 's" and run' assume p: "progressed lg 0 run (fst s)" and f: "research run now s = (Inr run', s')"
  have "stage_done ''research'' run PL_SCRIPT ''research'' s (Inr ((), run')) s'" using research_done [OF f] by auto
  then have "progressed lg 1 run' (fst s')"
    by (intro stage_done_progress [OF p, where key = "''research''" and r = "Inr ((), run')"])
      (simp_all del: One_nat_def add: at_names run_stages ARTIFACTS_at)
  then show "outcome lg (g run' s')" by (rule goodD [OF assms])
qed

lemma good_leaves:
  assumes "leaves f" "\<And>x. good lg 0 run (g x)"
  shows "good lg 0 run (then_do f g)"
  unfolding good_def
proof (intro allI impI outcome_bind)
  fix s e s' assume "progressed lg 0 run (fst s)" and f: "f s = (Inl e, s')"
  then show "stopped lg (fst s') \<or> stage_log (fst s') = lg"
    using leavesD(2) [OF assms(1), of s] by (simp add: progressed_def)
next
  fix s x s' assume "progressed lg 0 run (fst s)" and "f s = (Inr x, s')"
  then show "outcome lg (g x s')" using goodD [OF assms(2)] progressed_leaves [OF _ assms(1)] by blast
qed


section \<open>One run in flight\<close>

text \<open>
  What the service does to the runs of a session whose clock moves on between two starts; a stage is
  called with a run of the session.
\<close>

inductive run_step :: "pipeline_db \<times> 's \<Rightarrow> pipeline_db \<times> 's \<Rightarrow> bool" where
  Start: "(\<And>i q. repo_get i (pd_runs (fst s)) = Some q \<Longrightarrow> created_at q < now) \<Longrightarrow> pipeline_start v now s = (r, s') \<Longrightarrow> run_step s s'"
| Notes: "add_research v ns now s = (rn, s') \<Longrightarrow> run_step s s'"
| Research: "repo_get (ent_id run) (pd_runs (fst s)) = Some run \<Longrightarrow> research run now s = (rr, s') \<Longrightarrow> run_step s s'"
| Script: "repo_get (ent_id run) (pd_runs (fst s)) = Some run \<Longrightarrow> script run text now s = (rs, s') \<Longrightarrow> run_step s s'"
| Voiceover: "repo_get (ent_id run) (pd_runs (fst s)) = Some run \<Longrightarrow> voiceover env run voice now s = (rv, s') \<Longrightarrow> run_step s s'"
| Render: "repo_get (ent_id run) (pd_runs (fst s)) = Some run \<Longrightarrow> render env run options now s = (rv, s') \<Longrightarrow> run_step s s'"
| Publish: "repo_get (ent_id run) (pd_runs (fst s)) = Some run \<Longrightarrow> publish env run platform tags options now s = (rp, s') \<Longrightarrow> run_step s s'"
| Analytics: "collect_analytics env i on now s = (ra, s') \<Longrightarrow> run_step s s'"
| Learn: "repo_get (ent_id run) (pd_runs (fst s)) = Some run \<Longrightarrow> learn run target now s = (rl, s') \<Longrightarrow> run_step s s'"
| Fail: "pipeline_fail i e now s = (rf, s') \<Longrightarrow> run_step s s'"

definition flight_ok :: "(nat, pipeline_run) dict \<Rightarrow> bool" where
  \<comment> \<open>an unfinished run is newer than every other run of its video\<close>
  "flight_ok t \<longleftrightarrow> table_ok t \<and> (\<forall>i r. repo_get i t = Some r \<longrightarrow> deleted_at r = None \<and>
     (pn_finished_at r = None \<longrightarrow> (\<forall>j q. repo_get j t = Some q \<and> j \<noteq> i \<and> pn_video_id q = pn_video_id r \<longrightarrow> created_at q < created_at r)))"

lemma flight_ok_put:
  assumes ok: "flight_ok t" and get: "repo_get (ent_id run) t = Some run"
    and same: "ent_id run' = ent_id run" "created_at run' = created_at run" "deleted_at run' = deleted_at run" "pn_video_id run' = pn_video_id run"
    and fin: "pn_finished_at run' = None \<Longrightarrow> pn_finished_at run = None"
  shows "flight_ok (repo_put run' t)"
  unfolding flight_ok_def
proof (intro conjI allI impI)
  show "table_ok (repo_put run' t)" using ok by (simp add: flight_ok_def)
  fix i r assume r: "repo_get i (repo_put run' t) = Some r"
  obtain r0 where r0: "repo_get i t = Some r0" "created_at r = created_at r0" "deleted_at r = deleted_at r0" "pn_video_id r = pn_video_id r0"
      "pn_finished_at r = None \<longrightarrow> pn_finished_at r0 = None"
    using r get same fin by (cases "i = ent_id run") auto
  show "deleted_at r = None" using ok r0 by (simp add: flight_ok_def)
  fix j q assume u: "pn_finished_at r = None" and q: "repo_get j (repo_put run' t) = Some q \<and> j \<noteq> i \<and> pn_video_id q = pn_video_id r"
  obtain q0 where q0: "repo_get j t = Some q0" "created_at q = created_at q0" "pn_video_id q = pn_video_id q0"
    using q get same by (cases "j = ent_id run") auto
  from ok have "\<forall>j q. repo_get j t = Some q \<and> j \<noteq> i \<and> pn_video_id q = pn_video_id r0 \<longrightarrow> created_at q < created_at r0"
    using r0(1,5) u unfolding flight_ok_def by blast
  moreover have "j \<noteq> i" "pn_video_id q0 = pn_video_id r0" using q q0(3) r0(4) by auto
  ultimately have "created_at q0 < created_at r0" using q0(1) by blast
  then show "created_at q < created_at r" by (simp only: q0(2) r0(2))
qed

lemma flight_ok_stage:
  assumes "flight_ok (pd_runs (fst s))" "repo_get (ent_id run) (pd_runs (fst s)) = Some run" "stage_done name run to key s r s'"
  shows "flight_ok (pd_runs (fst s'))"
proof (cases r)
  case (Inl e)
  with assms show ?thesis by (simp add: stage_done_def)
next
  case (Inr xr)
  obtain x run' where "xr = (x, run')" by fastforce
  with Inr assms(3) have m: "moved run to key run'" "pd_runs (fst s') = repo_put run' (pd_runs (fst s))" by (simp_all add: stage_done_def)
  from m(1) show ?thesis unfolding m(2) moved_def
    by (elim exE) (rule flight_ok_put [OF assms(1,2)]; simp split: if_splits)
qed

lemma latest_is_newest:
  assumes "table_ok (pd_runs db)" "repo_get i (pd_runs db) = Some q" "pn_video_id q = v" "deleted_at q = None"
  shows "\<exists>r. latest_for_video v db = Some r \<and> created_at q \<le> created_at r \<and> repo_get (ent_id r) (pd_runs db) = Some r \<and> pn_video_id r = v"
proof -
  define xs where "xs = sorted_desc created_at (filter (\<lambda>r. pn_video_id r = v) (base_query False (pd_runs db)))"
  have "ent_id q = i" by (rule repo.get_key [OF assms(1,2)])
  then have q: "q \<in> set xs" using base_query_mem [OF assms(1), of q] assms(2-4) by (simp add: xs_def)
  then obtain r rs where xs: "xs = r # rs" by (cases xs) auto
  have "sorted_wrt (\<lambda>x y. created_at x \<ge> created_at y) xs" unfolding xs_def by (rule sorted_desc_sorted)
  with q xs have "created_at q \<le> created_at r" by auto
  moreover have "r \<in> set xs" using xs by simp
  then have "repo_get (ent_id r) (pd_runs db) = Some r" "pn_video_id r = v"
    using base_query_mem [OF assms(1), of r] by (simp_all add: xs_def)
  ultimately show ?thesis using xs by (simp add: latest_for_video_def xs_def [symmetric])
qed

lemma pipeline_start_runs:
  assumes "pipeline_start v now s = (r, s')"
  shows "pd_runs (fst s') = pd_runs (fst s)
    \<or> (\<exists>run. repo_add \<lparr>ent_id = 0, created_at = now, deleted_at = None, pn_video_id = v, pn_stage = PL_RESEARCH, pn_error = None,
             pn_started_at = Some now, pn_finished_at = None, pn_artifacts = []\<rparr> (pd_runs (fst s)) = (run, pd_runs (fst s'))
        \<and> (case latest_for_video v (fst s) of Some q \<Rightarrow> pn_finished_at q \<noteq> None | None \<Rightarrow> True))"
proof -
  have "snd (get_video v s) = s" by (simp add: get_video_def split: option.split)
  then obtain g where g: "get_video v s = (g, s)" by (metis surj_pair snd_conv)
  then show ?thesis
    using assms by (auto simp: pipeline_start_def then_do_def split: sum.splits if_splits prod.splits option.splits)
qed

lemma flight_ok_add:
  assumes ok: "flight_ok t" and a: "repo_add row t = (run, t')" and row: "deleted_at row = None" "pn_video_id row = v"
    and newest: "\<And>i q. repo_get i t = Some q \<Longrightarrow> created_at q < created_at row"
    and finished: "\<And>i q. repo_get i t = Some q \<Longrightarrow> pn_video_id q = v \<Longrightarrow> pn_finished_at q \<noteq> None"
  shows "flight_ok t'"
  unfolding flight_ok_def
proof (intro conjI allI impI)
  show "table_ok t'" using ok repo_add_ok [OF _ a] by (simp add: flight_ok_def)
  have run: "run = row\<lparr>ent_id := new_id t\<rparr>" by (rule repo_add_new(1) [OF a])
  note get = repo_add_new(4) [OF a]
  fix i r assume r: "repo_get i t' = Some r"
  show "deleted_at r = None" using r ok row by (auto simp: get run flight_ok_def split: if_splits)
  fix j q assume u: "pn_finished_at r = None" and q: "repo_get j t' = Some q \<and> j \<noteq> i \<and> pn_video_id q = pn_video_id r"
  show "created_at q < created_at r"
  proof (cases "i = ent_id run")
    case True
    then show ?thesis using r q newest [of j q] by (auto simp: get run split: if_splits)
  next
    case False
    then have ri: "repo_get i t = Some r" using r by (simp add: get)
    then have "pn_video_id r \<noteq> v" using finished u by blast
    then have "repo_get j t = Some q" using q row by (auto simp: get run split: if_splits)
    with ri u q ok show ?thesis unfolding flight_ok_def by blast
  qed
qed

lemma flight_ok_start:
  assumes ok: "flight_ok (pd_runs (fst s))" and st: "pipeline_start v now s = (r, s')"
    and newest: "\<And>i q. repo_get i (pd_runs (fst s)) = Some q \<Longrightarrow> created_at q < now"
  shows "flight_ok (pd_runs (fst s'))"
  using pipeline_start_runs [OF st]
proof (elim disjE exE conjE)
  assume "pd_runs (fst s') = pd_runs (fst s)"
  with ok show ?thesis by simp
next
  fix run assume a: "repo_add \<lparr>ent_id = 0, created_at = now, deleted_at = None, pn_video_id = v, pn_stage = PL_RESEARCH, pn_error = None,
             pn_started_at = Some now, pn_finished_at = None, pn_artifacts = []\<rparr> (pd_runs (fst s)) = (run, pd_runs (fst s'))"
    and l: "case latest_for_video v (fst s) of Some q \<Rightarrow> pn_finished_at q \<noteq> None | None \<Rightarrow> True"
  show ?thesis
  proof (rule flight_ok_add [OF ok a])
    fix i q assume q: "repo_get i (pd_runs (fst s)) = Some q" "pn_video_id q = v"
    have t: "table_ok (pd_runs (fst s))" "deleted_at q = None" using ok q(1) by (auto simp: flight_ok_def)
    obtain r where r: "latest_for_video v (fst s) = Some r" "created_at q \<le> created_at r" "repo_get (ent_id r) (pd_runs (fst s)) = Some r"
        "pn_video_id r = v" using latest_is_newest [OF t(1) q t(2)] by blast
    show "pn_finished_at q \<noteq> None"
    proof
      assume u: "pn_finished_at q = None"
      then have "q \<noteq> r" using l r(1) by auto
      then have "ent_id r \<noteq> i" using q(1) r(3) by auto
      then have "created_at r < created_at q" using ok q r(3,4) u unfolding flight_ok_def by blast
      with r(2) show False by simp
    qed
  qed (use newest in auto)
qed

lemma run_step_flight: "run_step s s' \<Longrightarrow> flight_ok (pd_runs (fst s)) \<Longrightarrow> flight_ok (pd_runs (fst s'))"
proof (induction rule: run_step.induct)
  case (Start s now v r s')
  then show ?case by (intro flight_ok_start [of s v now r s'])
next
  case (Notes v ns now s rn s')
  have "leaves (add_research v ns now :: (research_note list, 'a) pipe)" unfolding add_research_def by (intro pipe_intros)
  from leavesD(1) [OF this, of s] Notes show ?case by simp
next
  case (Research run s now rr s')
  obtain run' where "stage_done ''research'' run PL_SCRIPT ''research'' s (Inr ((), run')) s'"
    using research_done [OF Research.hyps(2)] by blast
  from flight_ok_stage [OF Research.prems Research.hyps(1) this] show ?case .
next
  case (Script run s body now rs s')
  from flight_ok_stage [OF Script.prems Script.hyps(1) script_done [OF Script.hyps(2)]] show ?case .
next
  case (Voiceover run s env voice now rv s')
  from flight_ok_stage [OF Voiceover.prems Voiceover.hyps(1) voiceover_done [OF Voiceover.hyps(2)]] show ?case .
next
  case (Render run s env options now rv s')
  from flight_ok_stage [OF Render.prems Render.hyps(1) render_done [OF Render.hyps(2)]] show ?case .
next
  case (Publish run s env platform tags options now rp s')
  from flight_ok_stage [OF Publish.prems Publish.hyps(1) publish_done [OF Publish.hyps(2)]] show ?case .
next
  case (Analytics env i on now s ra s')
  then show ?case using analytics_done [OF Analytics.hyps(1)] by simp
next
  case (Learn run s target now rl s')
  have "stage_done ''learn'' run PL_DONE ''learning'' s rl s'" using learn_done [OF Learn.hyps(2)] by blast
  from flight_ok_stage [OF Learn.prems Learn.hyps(1) this] show ?case .
next
  case (Fail i e now s rf s')
  show ?case
  proof (cases "repo_get i (pd_runs (fst s))")
    case None
    with Fail show ?thesis by (auto simp: pipeline_fail_def)
  next
    case (Some run)
    have "ent_id run = i" using Fail.prems repo.get_key [OF _ Some] by (simp add: flight_ok_def)
    with Some Fail show ?thesis by (auto simp: pipeline_fail_def Let_def intro!: flight_ok_put [of _ run])
  qed
qed


definition sample_pipeline_db :: pipeline_db where
  \<comment> \<open>one video of project 4, no runs\<close>
  "sample_pipeline_db = \<lparr>pd_videos = [(1, \<lparr>ent_id = 1, created_at = 0, deleted_at = None, vd_project_id = 4, vd_title = ''Tides'',
       vd_description = None, vd_status = VS_DRAFT, vd_current_version_id = None\<rparr>)],
     pd_versions = [], pd_notes = [], pd_runs = [], pd_publications = [], pd_analytics = [], pd_lessons = [],
     pd_billing = \<lparr>plans = [], subscriptions = [], invoices = [], payments = [], usage = [], costs = []\<rparr>, pd_events = [], pd_metrics = []\<rparr>"

definition restarted :: "pipeline_db \<times> unit" where
  \<comment> \<open>a run that was started, marked as failed and started again\<close>
  "restarted = snd (pipeline_start 1 7 (snd (pipeline_fail 0 ''no narration'' 6 (snd (pipeline_start 1 5 (sample_pipeline_db, ()))))))"


section \<open>Where the pipeline and its documents part\<close>

text \<open>
  The stages do not look at the stage of the run: a finished run that is handed to one goes back to
  an earlier stage and still counts as finished.
\<close>
theorem finished_run_reopened:
  assumes "pn_finished_at run = Some t" "research run now s = (r, s')"
  shows "\<exists>run'. r = Inr run' \<and> pn_stage run' = PL_SCRIPT \<and> pn_finished_at run' = Some t"
  using research_done [OF assms(2)] assms(1) by (auto simp: stage_done_def moved_def)

text \<open>
  The uploaded title and description are those of the video: with tags of its own, what a publication
  sends to the platform does not depend on the plugins that shaped the listing.
\<close>
theorem upload_ignores_listing:
  assumes "tags \<noteq> []"
  shows "fst (upload_video send p key vid tags options s) = fst (upload_video send q key vid tags options s)
    \<and> snd (snd (upload_video send p key vid tags options s)) = snd (send key (vd_title vid) (vd_description vid) (map PStr tags) options (snd s))"
  using assms
  by (simp add: upload_video_def pipe_call_def put_publication_def pipe_update_def split: prod.split sum.split)

text \<open>
  A render is metered on the project, not on the organization the plan belongs to: the metered amount
  of any organization whose number is not that of the project stays as it was.
\<close>
theorem render_meters_project:
  assumes "meter_render vid now s = (r, s')" "organization \<noteq> vd_project_id vid"
  shows "total_for_metric organization metric since (pd_billing (fst s')) = total_for_metric organization metric since (pd_billing (fst s))"
proof -
  let ?row = "\<lparr>ent_id = 0, created_at = now, deleted_at = None, us_organization_id = vd_project_id vid,
              us_subscription_id = map_option ent_id (get_active (vd_project_id vid) (pd_billing (fst s))), us_metric = ''video_render'', us_quantity = 1,
              us_recorded_for = date_of now, us_invoiced_at = None\<rparr>"
  obtain u t where a: "repo_add ?row (usage (pd_billing (fst s))) = (u, t)" by fastforce
  have "us_organization_id u = vd_project_id vid" using repo_add_new(1) [OF a] by simp
  moreover have "t = usage (pd_billing (fst s)) @ [(new_id (usage (pd_billing (fst s))), u)]" by (rule repo_add_new(2) [OF a])
  moreover have "pd_billing (fst s') = (pd_billing (fst s))\<lparr>usage := t\<rparr>"
    using assms(1) a by (auto simp: meter_render_def usage_record_add_def Let_def)
  ultimately show ?thesis using assms(2) by (simp add: total_for_metric_def base_query_def)
qed

end
