(* ===== verification/Sessions.thy ===== *)
theory Sessions
  imports Repository
begin

text \<open>
  Users, login sessions and tokens (\<^verbatim>\<open>app/models/user.py\<close>, \<^verbatim>\<open>app/models/auth.py\<close>, \<^verbatim>\<open>app/services/token_service.py\<close>,
  \<^verbatim>\<open>app/services/session_service.py\<close>, \<^verbatim>\<open>app/services/audit.py\<close>, \<^verbatim>\<open>app/security/jwt.py\<close>,
  \<^verbatim>\<open>app/dependencies/auth.py\<close>) and the transaction of a request (\<^verbatim>\<open>app/db/session.py\<close>). Hashing, the
  token library, Argon2 and the random generator are parameters. An operation reads the clock once.
\<close>

section \<open>Rows\<close>

record user = entity +
  usr_email :: string
  usr_username :: string
  usr_display_name :: "string option"
  usr_password_hash :: "string option"
  usr_avatar_url :: "string option"
  usr_is_active :: bool
  usr_is_verified :: bool
  usr_is_superuser :: bool
  usr_last_login :: "time option"

record login_session = entity +
  ss_user_id :: nat
  ss_ip_address :: "string option"
  ss_user_agent :: "string option"
  ss_last_activity :: "time option"
  ss_revoked_at :: "time option"

record refresh_token = entity +
  rt_user_id :: nat
  rt_session_id :: nat
  rt_token_hash :: string
  rt_expires_at :: time
  rt_revoked_at :: "time option"
  rt_rotated_to :: "nat option"

record single_use_token = entity +
  \<comment> \<open>a verification or a reset token\<close>
  su_user_id :: nat
  su_token_hash :: string
  su_expires_at :: time
  su_used_at :: "time option"

record oauth_account = entity +
  oa_user_id :: nat
  oa_provider :: string
  oa_account_id :: string
  oa_email :: "string option"

datatype audit_action =
  USER_REGISTERED | USER_LOGIN | USER_LOGIN_FAILED | USER_LOGOUT | EMAIL_VERIFIED | PASSWORD_CHANGED
  | PASSWORD_RESET_REQUESTED | PASSWORD_RESET | OAUTH_LOGIN | SESSION_REVOKED | SESSIONS_REVOKED_ALL
  | ORG_CREATED | ORG_UPDATED | MEMBER_ROLE_UPDATED | MEMBER_REMOVED | TEAM_CREATED | INVITE_SENT
  | INVITE_ACCEPTED | INVITE_REVOKED | API_KEY_CREATED | API_KEY_REVOKED | API_KEY_USED

record audit_log =
  al_action :: audit_action
  al_actor_id :: "nat option"
  al_organization_id :: "nat option"
  al_target_type :: "string option"
  al_target_id :: "string option"
  al_ip_address :: "string option"

record auth_db =
  ad_users :: "(nat, user) dict"
  ad_sessions :: "(nat, login_session) dict"
  ad_refresh :: "(nat, refresh_token) dict"
  ad_verify :: "(nat, single_use_token) dict"
  ad_reset :: "(nat, single_use_token) dict"
  ad_oauth :: "(nat, oauth_account) dict"
  ad_audit :: "audit_log list"

section \<open>The surroundings\<close>

datatype mail = Verification string string | PasswordReset string string   \<comment> \<open>receiver and raw token\<close>

record auth_state =
  \<comment> \<open>the session, what was mailed, and the failed-login counters in Redis with their expiry\<close>
  as_db :: auth_db
  as_mail :: "mail list"
  as_guard :: "(string, int \<times> time option) dict"

datatype auth_exc = AuthDb db_exc | MultipleResults | MailFailed

type_synonym 'a auth_op = "auth_state \<Rightarrow> (auth_exc + 'a) \<times> auth_state"

abbreviation auth_error :: "app_error_kind \<Rightarrow> string \<Rightarrow> 'a auth_op" where
  "auth_error k m \<equiv> \<lambda>s. (Inl (AuthDb (App (app_error_init k (Some m)))), s)"

definition auth_lift :: "'a result \<Rightarrow> 'a auth_op" where
  "auth_lift r s = ((case r of Inl e \<Rightarrow> Inl (AuthDb (App e)) | Inr x \<Rightarrow> Inr x), s)"

definition on_db :: "(auth_db \<Rightarrow> auth_db) \<Rightarrow> unit auth_op" where
  "on_db f = change (\<lambda>s. s\<lparr>as_db := f (as_db s)\<rparr>)"

record access_payload =
  \<comment> \<open>the claims of an access token; \<open>exp\<close> in seconds\<close>
  jp_sub :: string
  jp_sid :: string
  jp_jti :: string
  jp_exp :: int
  jp_type :: "string option"

datatype jwt_answer = Expired | InvalidToken | Payload access_payload

datatype argon_answer = Verified | Mismatch | InvalidHash

record auth_env =
  ev_sha :: "string \<Rightarrow> string"                              \<comment> \<open>hexadecimal SHA-256\<close>
  ev_argon_hash :: "string \<Rightarrow> string \<Rightarrow> string"              \<comment> \<open>of a salt and a password\<close>
  ev_argon_verify :: "string \<Rightarrow> string \<Rightarrow> argon_answer"      \<comment> \<open>of a hash and a password\<close>
  ev_argon_outdated :: "string \<Rightarrow> bool option"             \<comment> \<open>\<open>None\<close> for an invalid hash\<close>
  ev_jwt_encode :: "access_payload \<Rightarrow> string"
  ev_jwt_decode :: "time \<Rightarrow> string \<Rightarrow> jwt_answer"
  ev_mail_ok :: "mail \<Rightarrow> bool"
  ev_redis_ok :: bool
  ev_rate_limit_enabled :: bool
  ev_access_minutes :: int
  ev_refresh_days :: int
  ev_verification_hours :: int
  ev_reset_hours :: int
  ev_max_attempts :: int
  ev_lockout_seconds :: int

record nonce =
  \<comment> \<open>what the random generators return during a call\<close>
  nc_token :: string
  nc_jti :: nat
  nc_salt :: string
  nc_suffix :: string

record request_context =
  rc_ip_address :: "string option"
  rc_user_agent :: "string option"

record issued_tokens =
  it_access_token :: string
  it_refresh_token :: string
  it_expires_in :: int

definition hash_token :: "auth_env \<Rightarrow> string \<Rightarrow> string" where
  "hash_token env token = ev_sha env token"

definition audit_row ::
    "audit_action \<Rightarrow> nat option \<Rightarrow> nat option \<Rightarrow> string option \<Rightarrow> string option \<Rightarrow> string option \<Rightarrow> audit_log" where
  "audit_row action actor organization target_type target ip = \<lparr>al_action = action, al_actor_id = actor,
     al_organization_id = organization, al_target_type = target_type, al_target_id = target, al_ip_address = ip\<rparr>"

definition audit :: "audit_action \<Rightarrow> nat option \<Rightarrow> string option \<Rightarrow> string option \<Rightarrow> string option \<Rightarrow> unit auth_op" where
  "audit action actor target_type target ip =
     on_db (\<lambda>db. db\<lparr>ad_audit := ad_audit db @ [audit_row action actor None target_type target ip]\<rparr>)"

definition request :: "'a auth_op \<Rightarrow> 'a auth_op" where
  \<comment> \<open>\<open>session_scope\<close>: commit, or roll the tables back when the handler raises; mails and counters stay\<close>
  "request f s = (case f s of (Inl e, s') \<Rightarrow> (Inl e, s'\<lparr>as_db := as_db s\<rparr>) | r \<Rightarrow> r)"

section \<open>Access tokens\<close>

definition create_access_token :: "auth_env \<Rightarrow> nat \<Rightarrow> nat \<Rightarrow> nonce \<Rightarrow> time \<Rightarrow> string" where
  "create_access_token env user_id session_id nonce now = ev_jwt_encode env \<lparr>jp_sub = nat_digits user_id, jp_sid = nat_digits session_id,
     jp_jti = nat_digits (nc_jti nonce), jp_exp = (now + minutes (ev_access_minutes env)) div 1000000, jp_type = Some ''access''\<rparr>"

definition parse_id :: "string \<Rightarrow> nat option" where
  \<comment> \<open>\<open>uuid.UUID\<close>, on the numbers that stand for primary keys\<close>
  "parse_id s = (if s \<noteq> [] \<and> list_all is_digit s then Some (digits_to_nat 0 s) else None)"

definition decode_access_token :: "auth_env \<Rightarrow> string \<Rightarrow> time \<Rightarrow> (nat \<times> nat) result" where
  \<comment> \<open>subject and session\<close>
  "decode_access_token env token now =
     (case ev_jwt_decode env now token of
        Expired \<Rightarrow> raise UnauthorizedError ''Access token has expired.''
      | InvalidToken \<Rightarrow> raise UnauthorizedError ''Invalid access token.''
      | Payload p \<Rightarrow>
          if jp_type p \<noteq> Some ''access'' then raise UnauthorizedError ''Invalid token type.''
          else (case (parse_id (jp_sub p), parse_id (jp_sid p), parse_id (jp_jti p)) of
                  (Some u, Some i, Some _) \<Rightarrow> Inr (u, i)
                | _ \<Rightarrow> raise UnauthorizedError ''Malformed token claims.''))"

definition get_current_user :: "auth_env \<Rightarrow> string option \<Rightarrow> time \<Rightarrow> auth_db \<Rightarrow> user result" where
  "get_current_user env credentials now db =
     (if \<not> truthy credentials then raise UnauthorizedError ''Authentication credentials were not provided.''
      else case decode_access_token env (the credentials) now of
        Inl e \<Rightarrow> Inl e
      | Inr (u, i) \<Rightarrow>
          (case repo_get i (ad_sessions db) of
             None \<Rightarrow> raise UnauthorizedError ''Session has been revoked.''
           | Some ls \<Rightarrow>
               if ss_revoked_at ls \<noteq> None then raise UnauthorizedError ''Session has been revoked.''
               else (case repo_get u (ad_users db) of
                       None \<Rightarrow> raise UnauthorizedError ''User account is not active.''
                     | Some usr \<Rightarrow>
                         if \<not> usr_is_active usr \<or> deleted_at usr \<noteq> None then raise UnauthorizedError ''User account is not active.''
                         else Inr usr)))"

definition require_superuser :: "user \<Rightarrow> user result" where
  "require_superuser usr = (if usr_is_superuser usr then Inr usr else raise ForbiddenError ''Superuser privileges are required.'')"

section \<open>Sessions and refresh tokens\<close>

definition refresh_by_hash :: "string \<Rightarrow> auth_db \<Rightarrow> refresh_token option" where
  "refresh_by_hash h db = row_by (\<lambda>t. rt_token_hash t = h) (ad_refresh db)"

definition list_active_for_user :: "nat \<Rightarrow> auth_db \<Rightarrow> login_session list" where
  "list_active_for_user u db = filter (\<lambda>s. ss_user_id s = u \<and> ss_revoked_at s = None) (all_rows (ad_sessions db))"

definition put_session :: "login_session \<Rightarrow> unit auth_op" where
  "put_session r = on_db (\<lambda>db. db\<lparr>ad_sessions := repo_put r (ad_sessions db)\<rparr>)"

definition put_refresh :: "refresh_token \<Rightarrow> unit auth_op" where
  "put_refresh r = on_db (\<lambda>db. db\<lparr>ad_refresh := repo_put r (ad_refresh db)\<rparr>)"

definition put_user :: "user \<Rightarrow> unit auth_op" where
  "put_user r = on_db (\<lambda>db. db\<lparr>ad_users := repo_put r (ad_users db)\<rparr>)"

definition create_session :: "user \<Rightarrow> request_context \<Rightarrow> time \<Rightarrow> login_session auth_op" where
  "create_session usr ctx now s =
     (let (ls, t) = repo_add \<lparr>ent_id = 0, created_at = now, deleted_at = None, ss_user_id = ent_id usr,
            ss_ip_address = rc_ip_address ctx, ss_user_agent = rc_user_agent ctx, ss_last_activity = Some now,
            ss_revoked_at = None\<rparr> (ad_sessions (as_db s))
      in (Inr ls, s\<lparr>as_db := (as_db s)\<lparr>ad_sessions := t\<rparr>\<rparr>))"

definition add_refresh :: "refresh_token \<Rightarrow> refresh_token auth_op" where
  \<comment> \<open>the hash is unique\<close>
  "add_refresh row s =
     (if refresh_by_hash (rt_token_hash row) (as_db s) \<noteq> None then (Inl (AuthDb (IntegrityError ''refreshtoken_token_hash'')), s)
      else let (r, t) = repo_add row (ad_refresh (as_db s)) in (Inr r, s\<lparr>as_db := (as_db s)\<lparr>ad_refresh := t\<rparr>\<rparr>))"

definition issue_tokens :: "auth_env \<Rightarrow> user \<Rightarrow> login_session \<Rightarrow> nonce \<Rightarrow> time \<Rightarrow> issued_tokens auth_op" where
  "issue_tokens env usr ls nonce now =
     then_do (add_refresh \<lparr>ent_id = 0, created_at = now, deleted_at = None, rt_user_id = ent_id usr, rt_session_id = ent_id ls,
         rt_token_hash = hash_token env (nc_token nonce), rt_expires_at = now + days (ev_refresh_days env),
         rt_revoked_at = None, rt_rotated_to = None\<rparr>) (\<lambda>_.
     give \<lparr>it_access_token = create_access_token env (ent_id usr) (ent_id ls) nonce now, it_refresh_token = nc_token nonce,
           it_expires_in = ev_access_minutes env * 60\<rparr>)"

definition revoke_tokens :: "nat \<Rightarrow> time \<Rightarrow> (nat, refresh_token) dict \<Rightarrow> (nat, refresh_token) dict" where
  "revoke_tokens i now = map_rows (\<lambda>t. if rt_session_id t = i \<and> rt_revoked_at t = None then t\<lparr>rt_revoked_at := Some now\<rparr> else t)"

definition revoke_for_session :: "nat \<Rightarrow> time \<Rightarrow> unit auth_op" where
  "revoke_for_session i now = on_db (\<lambda>db. db\<lparr>ad_refresh := revoke_tokens i now (ad_refresh db)\<rparr>)"

definition replayed :: "refresh_token \<Rightarrow> time \<Rightarrow> 'a auth_op" where
  \<comment> \<open>the branch of \<open>rotate\<close> for a token that was used before\<close>
  "replayed token now =
     then_do (revoke_for_session (rt_session_id token) now) (\<lambda>_ s.
     then_do (case repo_get (rt_session_id token) (ad_sessions (as_db s)) of
         None \<Rightarrow> give () | Some ls \<Rightarrow> put_session (ls\<lparr>ss_revoked_at := Some now\<rparr>)) (\<lambda>_.
     auth_error UnauthorizedError ''Refresh token has already been used.'') s)"

definition active_session :: "nat \<Rightarrow> login_session auth_op" where
  "active_session i s = (case repo_get i (ad_sessions (as_db s)) of
       None \<Rightarrow> auth_error UnauthorizedError ''Session is no longer active.'' s
     | Some ls \<Rightarrow> if ss_revoked_at ls \<noteq> None then auth_error UnauthorizedError ''Session is no longer active.'' s else (Inr ls, s))"

definition active_user :: "nat \<Rightarrow> user auth_op" where
  "active_user u s = (case repo_get u (ad_users (as_db s)) of
       None \<Rightarrow> auth_error UnauthorizedError ''User is no longer active.'' s
     | Some usr \<Rightarrow> if \<not> usr_is_active usr then auth_error UnauthorizedError ''User is no longer active.'' s else (Inr usr, s))"

definition succeed_token :: "auth_env \<Rightarrow> refresh_token \<Rightarrow> login_session \<Rightarrow> issued_tokens \<Rightarrow> time \<Rightarrow> issued_tokens auth_op" where
  \<comment> \<open>link and revoke the old token\<close>
  "succeed_token env token ls issued now s =
     (let successor = refresh_by_hash (hash_token env (it_refresh_token issued)) (as_db s) in
      then_do (put_refresh (token\<lparr>rt_revoked_at := Some now, rt_rotated_to := map_option ent_id successor\<rparr>)) (\<lambda>_.
      then_do (put_session (ls\<lparr>ss_last_activity := Some now\<rparr>)) (\<lambda>_.
      give issued)) s)"

definition rotate_token :: "auth_env \<Rightarrow> string \<Rightarrow> nonce \<Rightarrow> time \<Rightarrow> issued_tokens auth_op" where
  "rotate_token env raw nonce now s =
     (case refresh_by_hash (hash_token env raw) (as_db s) of
        None \<Rightarrow> auth_error UnauthorizedError ''Invalid refresh token.'' s
      | Some token \<Rightarrow>
          if rt_revoked_at token \<noteq> None \<or> rt_rotated_to token \<noteq> None then replayed token now s
          else if rt_expires_at token < now then auth_error UnauthorizedError ''Refresh token has expired.'' s
          else
            then_do (active_session (rt_session_id token)) (\<lambda>ls.
            then_do (active_user (rt_user_id token)) (\<lambda>usr.
            then_do (issue_tokens env usr ls nonce now) (\<lambda>issued.
            succeed_token env token ls issued now))) s)"

definition revoke_session :: "nat \<Rightarrow> time \<Rightarrow> unit auth_op" where
  "revoke_session i now s =
     then_do (case repo_get i (ad_sessions (as_db s)) of
         Some ls \<Rightarrow> if ss_revoked_at ls = None then put_session (ls\<lparr>ss_revoked_at := Some now\<rparr>) else give ()
       | None \<Rightarrow> give ()) (\<lambda>_.
     revoke_for_session i now) s"

fun revoke_sessions :: "nat list \<Rightarrow> time \<Rightarrow> unit auth_op" where
  "revoke_sessions [] now = give ()"
| "revoke_sessions (i # is) now = then_do (revoke_session i now) (\<lambda>_. revoke_sessions is now)"

definition revoke_all_for_user :: "nat \<Rightarrow> time \<Rightarrow> unit auth_op" where
  "revoke_all_for_user u now s = revoke_sessions (map ent_id (list_active_for_user u (as_db s))) now s"

definition terminate_session :: "nat \<Rightarrow> nat \<Rightarrow> time \<Rightarrow> unit auth_op" where
  "terminate_session u i now s =
     (case repo_get i (ad_sessions (as_db s)) of
        None \<Rightarrow> auth_error NotFoundError ''Session not found.'' s
      | Some ls \<Rightarrow>
          if ss_user_id ls \<noteq> u then auth_error NotFoundError ''Session not found.'' s
          else then_do (revoke_session i now) (\<lambda>_. audit SESSION_REVOKED (Some u) None (Some (nat_digits i)) None) s)"

definition terminate_all :: "nat \<Rightarrow> time \<Rightarrow> unit auth_op" where
  "terminate_all u now = then_do (revoke_all_for_user u now) (\<lambda>_. audit SESSIONS_REVOKED_ALL (Some u) None None None)"

section \<open>What the operations keep\<close>

text \<open>
  The invariant of the tables: a token belongs to a session of its user and its hash is its own; a
  session has at most one live token, none once it was revoked; a token with a successor is revoked.
\<close>

definition live_tokens :: "nat \<Rightarrow> auth_db \<Rightarrow> nat set" where
  "live_tokens i db = {k. \<exists>t. repo_get k (ad_refresh db) = Some t \<and> rt_session_id t = i \<and> rt_revoked_at t = None}"

definition tokens_ok :: "auth_db \<Rightarrow> bool" where
  "tokens_ok db \<longleftrightarrow> table_ok (ad_users db) \<and> table_ok (ad_sessions db) \<and> table_ok (ad_refresh db)
     \<and> (\<forall>k t. repo_get k (ad_refresh db) = Some t \<longrightarrow>
          (\<exists>ls. repo_get (rt_session_id t) (ad_sessions db) = Some ls \<and> ss_user_id ls = rt_user_id t
             \<and> (ss_revoked_at ls \<noteq> None \<longrightarrow> rt_revoked_at t \<noteq> None))
          \<and> (rt_rotated_to t \<noteq> None \<longrightarrow> rt_revoked_at t \<noteq> None)
          \<and> (\<forall>k2 t2. repo_get k2 (ad_refresh db) = Some t2 \<and> rt_token_hash t2 = rt_token_hash t \<longrightarrow> k2 = k)
          \<and> (\<forall>k2 t2. repo_get k2 (ad_refresh db) = Some t2 \<and> rt_session_id t2 = rt_session_id t
               \<and> rt_revoked_at t = None \<and> rt_revoked_at t2 = None \<longrightarrow> k2 = k))"

definition lasts :: "auth_db \<Rightarrow> auth_db \<Rightarrow> bool" where
  \<comment> \<open>sessions and tokens stay, with their user, and what is revoked stays revoked\<close>
  "lasts db db' \<longleftrightarrow>
     (\<forall>i ls. repo_get i (ad_sessions db) = Some ls \<longrightarrow> (\<exists>ls'. repo_get i (ad_sessions db') = Some ls'
        \<and> ss_user_id ls' = ss_user_id ls \<and> (ss_revoked_at ls \<noteq> None \<longrightarrow> ss_revoked_at ls' \<noteq> None)))
   \<and> (\<forall>i t. repo_get i (ad_refresh db) = Some t \<longrightarrow> (\<exists>t'. repo_get i (ad_refresh db') = Some t'
        \<and> rt_token_hash t' = rt_token_hash t \<and> rt_session_id t' = rt_session_id t \<and> rt_user_id t' = rt_user_id t
        \<and> (rt_revoked_at t \<noteq> None \<longrightarrow> rt_revoked_at t' \<noteq> None)))"

definition keeps :: "auth_state \<Rightarrow> auth_state \<Rightarrow> bool" where
  "keeps s s' \<longleftrightarrow> (tokens_ok (as_db s) \<longrightarrow> tokens_ok (as_db s') \<and> lasts (as_db s) (as_db s'))"

named_theorems keeps_intros

lemma lasts_refl [simp, intro]: "lasts db db"
  by (auto simp: lasts_def)

lemma lasts_trans: "lasts a b \<Longrightarrow> lasts b c \<Longrightarrow> lasts a c"
  unfolding lasts_def
proof (elim conjE, intro conjI allI impI)
  fix i ls assume s: "\<forall>i ls. repo_get i (ad_sessions a) = Some ls \<longrightarrow> (\<exists>ls'. repo_get i (ad_sessions b) = Some ls'
        \<and> ss_user_id ls' = ss_user_id ls \<and> (ss_revoked_at ls \<noteq> None \<longrightarrow> ss_revoked_at ls' \<noteq> None))"
    "\<forall>i ls. repo_get i (ad_sessions b) = Some ls \<longrightarrow> (\<exists>ls'. repo_get i (ad_sessions c) = Some ls'
        \<and> ss_user_id ls' = ss_user_id ls \<and> (ss_revoked_at ls \<noteq> None \<longrightarrow> ss_revoked_at ls' \<noteq> None))"
    "repo_get i (ad_sessions a) = Some ls"
  from s(1,3) obtain l where l: "repo_get i (ad_sessions b) = Some l" "ss_user_id l = ss_user_id ls" "ss_revoked_at ls \<noteq> None \<longrightarrow> ss_revoked_at l \<noteq> None"
    by blast
  from s(2) l(1) obtain l' where "repo_get i (ad_sessions c) = Some l'" "ss_user_id l' = ss_user_id l" "ss_revoked_at l \<noteq> None \<longrightarrow> ss_revoked_at l' \<noteq> None"
    by blast
  with l show "\<exists>ls'. repo_get i (ad_sessions c) = Some ls' \<and> ss_user_id ls' = ss_user_id ls \<and> (ss_revoked_at ls \<noteq> None \<longrightarrow> ss_revoked_at ls' \<noteq> None)"
    by auto
next
  fix i t assume s: "\<forall>i t. repo_get i (ad_refresh a) = Some t \<longrightarrow> (\<exists>t'. repo_get i (ad_refresh b) = Some t'
        \<and> rt_token_hash t' = rt_token_hash t \<and> rt_session_id t' = rt_session_id t \<and> rt_user_id t' = rt_user_id t
        \<and> (rt_revoked_at t \<noteq> None \<longrightarrow> rt_revoked_at t' \<noteq> None))"
    "\<forall>i t. repo_get i (ad_refresh b) = Some t \<longrightarrow> (\<exists>t'. repo_get i (ad_refresh c) = Some t'
        \<and> rt_token_hash t' = rt_token_hash t \<and> rt_session_id t' = rt_session_id t \<and> rt_user_id t' = rt_user_id t
        \<and> (rt_revoked_at t \<noteq> None \<longrightarrow> rt_revoked_at t' \<noteq> None))"
    "repo_get i (ad_refresh a) = Some t"
  from s(1,3) obtain u where u: "repo_get i (ad_refresh b) = Some u" "rt_token_hash u = rt_token_hash t" "rt_session_id u = rt_session_id t"
      "rt_user_id u = rt_user_id t" "rt_revoked_at t \<noteq> None \<longrightarrow> rt_revoked_at u \<noteq> None" by blast
  from s(2) u(1) obtain v where "repo_get i (ad_refresh c) = Some v" "rt_token_hash v = rt_token_hash u" "rt_session_id v = rt_session_id u"
      "rt_user_id v = rt_user_id u" "rt_revoked_at u \<noteq> None \<longrightarrow> rt_revoked_at v \<noteq> None" by blast
  with u show "\<exists>t'. repo_get i (ad_refresh c) = Some t' \<and> rt_token_hash t' = rt_token_hash t \<and> rt_session_id t' = rt_session_id t
      \<and> rt_user_id t' = rt_user_id t \<and> (rt_revoked_at t \<noteq> None \<longrightarrow> rt_revoked_at t' \<noteq> None)" by auto
qed

lemma keeps_refl [simp, intro]: "keeps s s"
  by (simp add: keeps_def)

lemma keeps_trans: "keeps a b \<Longrightarrow> keeps b c \<Longrightarrow> keeps a c"
  using lasts_trans by (auto simp: keeps_def)

lemma keeps_bind:
  assumes "keeps s (snd (f s))" "\<And>x s'. f s = (Inr x, s') \<Longrightarrow> keeps s' (snd (g x s'))"
  shows "keeps s (snd (then_do f g s))"
  using assms by (fastforce simp: then_do_def split: prod.split sum.split intro: keeps_trans)

lemma keeps_bindI [keeps_intros]:
  "(\<And>s. keeps s (snd (f s))) \<Longrightarrow> (\<And>x s. keeps s (snd (g x s))) \<Longrightarrow> keeps s (snd (then_do f g s))"
  by (rule keeps_bind) auto

lemma keeps_give [keeps_intros]: "keeps s (snd (give x s))"
  by (simp add: give_def)

lemma keeps_error [keeps_intros]: "keeps s (snd (auth_error k m s))"
  by simp

lemma keeps_lift [keeps_intros]: "keeps s (snd (auth_lift r s))"
  by (simp add: auth_lift_def)

lemma keeps_if [keeps_intros]: "keeps s (snd (f s)) \<Longrightarrow> keeps s (snd (g s)) \<Longrightarrow> keeps s (snd ((if b then f else g) s))"
  by simp

lemma keeps_same: "ad_users (as_db s') = ad_users (as_db s) \<Longrightarrow> ad_sessions (as_db s') = ad_sessions (as_db s) \<Longrightarrow>
    ad_refresh (as_db s') = ad_refresh (as_db s) \<Longrightarrow> keeps s s'"
  by (simp add: keeps_def tokens_ok_def lasts_def)

lemma keeps_users: "table_ok (ad_users (as_db s)) \<longrightarrow> table_ok (ad_users (as_db s')) \<Longrightarrow> ad_sessions (as_db s') = ad_sessions (as_db s) \<Longrightarrow>
    ad_refresh (as_db s') = ad_refresh (as_db s) \<Longrightarrow> keeps s s'"
  by (simp add: keeps_def tokens_ok_def lasts_def)

lemma on_db_simp: "on_db f s = (Inr (), s\<lparr>as_db := f (as_db s)\<rparr>)"
  by (simp add: on_db_def change_def)

lemma keeps_audit [keeps_intros]: "keeps s (snd (audit action actor target_type target ip s))"
  by (rule keeps_same) (simp_all add: audit_def on_db_simp)

lemma keeps_put_user [keeps_intros]: "keeps s (snd (put_user usr s))"
  by (rule keeps_users) (auto simp: put_user_def on_db_simp)

lemma keeps_active [keeps_intros]: "keeps s (snd (active_session i s))" "keeps s (snd (active_user u s))"
  by (simp_all add: active_session_def active_user_def split: option.split)

lemma token_D:
  assumes "tokens_ok db" "repo_get k (ad_refresh db) = Some t"
  shows "ent_id t = k"
    "\<exists>ls. repo_get (rt_session_id t) (ad_sessions db) = Some ls \<and> ss_user_id ls = rt_user_id t
       \<and> (ss_revoked_at ls \<noteq> None \<longrightarrow> rt_revoked_at t \<noteq> None)"
    "rt_rotated_to t \<noteq> None \<Longrightarrow> rt_revoked_at t \<noteq> None"
    "\<And>k2 t2. repo_get k2 (ad_refresh db) = Some t2 \<Longrightarrow> rt_token_hash t2 = rt_token_hash t \<Longrightarrow> k2 = k"
    "\<And>k2 t2. repo_get k2 (ad_refresh db) = Some t2 \<Longrightarrow> rt_session_id t2 = rt_session_id t \<Longrightarrow> rt_revoked_at t = None
       \<Longrightarrow> rt_revoked_at t2 = None \<Longrightarrow> k2 = k"
  using assms repo.get_key [of "ad_refresh db" k t] unfolding tokens_ok_def by blast+

lemma session_key: "tokens_ok db \<Longrightarrow> repo_get i (ad_sessions db) = Some ls \<Longrightarrow> ent_id ls = i"
  using repo.get_key unfolding tokens_ok_def by blast

lemma refresh_by_hash_Some: "tokens_ok db \<Longrightarrow> refresh_by_hash h db = Some t \<Longrightarrow> repo_get (ent_id t) (ad_refresh db) = Some t \<and> rt_token_hash t = h"
  using row_by_Some [of "ad_refresh db"] by (auto simp: refresh_by_hash_def tokens_ok_def)

lemma refresh_by_hash_None: "tokens_ok db \<Longrightarrow> refresh_by_hash h db = None \<Longrightarrow> repo_get k (ad_refresh db) = Some t \<Longrightarrow> rt_token_hash t \<noteq> h"
  using row_by_None [of "ad_refresh db"] by (auto simp: refresh_by_hash_def tokens_ok_def)

lemma refresh_by_hash_get:
  assumes "tokens_ok db" "repo_get k (ad_refresh db) = Some t" "rt_token_hash t = h"
  shows "refresh_by_hash h db = Some t"
proof (cases "refresh_by_hash h db")
  case None
  with refresh_by_hash_None [OF assms(1) _ assms(2)] assms(3) show ?thesis by blast
next
  case (Some t2)
  from refresh_by_hash_Some [OF assms(1) this] have "ent_id t2 = k"
    using token_D(4) [OF assms(1,2), of "ent_id t2" t2] assms(3) by simp
  with refresh_by_hash_Some [OF assms(1) Some] assms(2) Some show ?thesis by simp
qed

lemma get_revoke_tokens [simp]:
  "repo_get k (revoke_tokens i now t) = map_option (\<lambda>r. if rt_session_id r = i \<and> rt_revoked_at r = None then r\<lparr>rt_revoked_at := Some now\<rparr> else r) (repo_get k t)"
  by (simp add: revoke_tokens_def)

lemma table_ok_revoke_tokens [simp, intro]: "table_ok t \<Longrightarrow> table_ok (revoke_tokens i now t)"
  unfolding revoke_tokens_def by (rule table_ok_map_rows) simp_all

lemma tokens_okI:
  assumes "table_ok (ad_users db)" "table_ok (ad_sessions db)" "table_ok (ad_refresh db)"
    and "\<And>k t. repo_get k (ad_refresh db) = Some t \<Longrightarrow> \<exists>ls. repo_get (rt_session_id t) (ad_sessions db) = Some ls
       \<and> ss_user_id ls = rt_user_id t \<and> (ss_revoked_at ls \<noteq> None \<longrightarrow> rt_revoked_at t \<noteq> None)"
    and "\<And>k t. repo_get k (ad_refresh db) = Some t \<Longrightarrow> rt_rotated_to t \<noteq> None \<Longrightarrow> rt_revoked_at t \<noteq> None"
    and "\<And>k t k2 t2. repo_get k (ad_refresh db) = Some t \<Longrightarrow> repo_get k2 (ad_refresh db) = Some t2 \<Longrightarrow>
       rt_token_hash t2 = rt_token_hash t \<Longrightarrow> k2 = k"
    and "\<And>k t k2 t2. repo_get k (ad_refresh db) = Some t \<Longrightarrow> repo_get k2 (ad_refresh db) = Some t2 \<Longrightarrow>
       rt_session_id t2 = rt_session_id t \<Longrightarrow> rt_revoked_at t = None \<Longrightarrow> rt_revoked_at t2 = None \<Longrightarrow> k2 = k"
  shows "tokens_ok db"
  unfolding tokens_ok_def
  by (intro conjI allI impI assms(1-3)) (use assms(4) in blast, use assms(5) in simp, use assms(6) in blast, use assms(7) in blast)

lemma tokens_ok_tables: "tokens_ok db \<Longrightarrow> table_ok (ad_users db) \<and> table_ok (ad_sessions db) \<and> table_ok (ad_refresh db)"
  by (simp add: tokens_ok_def)

lemma revoked_tables:
  assumes ok: "tokens_ok db" and ts: "table_ok ts"
    and keep: "\<And>j l. repo_get j (ad_sessions db) = Some l \<Longrightarrow> \<exists>l'. repo_get j ts = Some l' \<and> ss_user_id l' = ss_user_id l
      \<and> (ss_revoked_at l \<noteq> None \<longrightarrow> ss_revoked_at l' \<noteq> None) \<and> (ss_revoked_at l' \<noteq> None \<longrightarrow> ss_revoked_at l \<noteq> None \<or> j = i)"
    and db': "db' = db\<lparr>ad_sessions := ts, ad_refresh := revoke_tokens i now (ad_refresh db)\<rparr>"
  shows "tokens_ok db' \<and> lasts db db'"
proof
  let ?rev = "\<lambda>t0. if rt_session_id t0 = i \<and> rt_revoked_at t0 = None then t0\<lparr>rt_revoked_at := Some now\<rparr> else t0"
  show "tokens_ok db'"
  proof (rule tokens_okI)
    fix k t assume "repo_get k (ad_refresh db') = Some t"
    then obtain t0 where t0: "repo_get k (ad_refresh db) = Some t0" and td: "t = ?rev t0" by (auto simp: db')
    have same: "rt_session_id t = rt_session_id t0" "rt_user_id t = rt_user_id t0" "rt_token_hash t = rt_token_hash t0" "rt_rotated_to t = rt_rotated_to t0"
      and rev: "rt_revoked_at t = None \<longleftrightarrow> rt_revoked_at t0 = None \<and> rt_session_id t0 \<noteq> i" by (auto simp: td)
    show "rt_rotated_to t \<noteq> None \<Longrightarrow> rt_revoked_at t \<noteq> None" using token_D(3) [OF ok t0] same rev by simp
    obtain l where l: "repo_get (rt_session_id t0) (ad_sessions db) = Some l" "ss_user_id l = rt_user_id t0"
        "ss_revoked_at l \<noteq> None \<longrightarrow> rt_revoked_at t0 \<noteq> None" using token_D(2) [OF ok t0] by blast
    from keep [OF l(1)] l(2,3) show "\<exists>l. repo_get (rt_session_id t) (ad_sessions db') = Some l
        \<and> ss_user_id l = rt_user_id t \<and> (ss_revoked_at l \<noteq> None \<longrightarrow> rt_revoked_at t \<noteq> None)"
      by (auto simp: db' same rev)
    fix k2 t2 assume "repo_get k2 (ad_refresh db') = Some t2"
    then obtain t3 where t3: "repo_get k2 (ad_refresh db) = Some t3" and td2: "t2 = ?rev t3" by (auto simp: db')
    have same3: "rt_session_id t2 = rt_session_id t3" "rt_token_hash t2 = rt_token_hash t3"
      and rev3: "rt_revoked_at t2 = None \<longrightarrow> rt_revoked_at t3 = None" by (auto simp: td2)
    show "rt_token_hash t2 = rt_token_hash t \<Longrightarrow> k2 = k" using token_D(4) [OF ok t0 t3] same same3 by simp
    show "rt_session_id t2 = rt_session_id t \<Longrightarrow> rt_revoked_at t = None \<Longrightarrow> rt_revoked_at t2 = None \<Longrightarrow> k2 = k"
      using token_D(5) [OF ok t0 t3] same same3 rev rev3 by simp
  qed (use tokens_ok_tables [OF ok] ts in \<open>auto simp: db'\<close>)
  show "lasts db db'"
    unfolding lasts_def using keep by (fastforce simp: db')
qed

lemma keeps_revoke_session [keeps_intros]: "keeps s (snd (revoke_session i now s))"
  unfolding keeps_def
proof
  assume ok: "tokens_ok (as_db s)"
  let ?ts = "case repo_get i (ad_sessions (as_db s)) of None \<Rightarrow> ad_sessions (as_db s)
    | Some ls \<Rightarrow> if ss_revoked_at ls = None then repo_put (ls\<lparr>ss_revoked_at := Some now\<rparr>) (ad_sessions (as_db s)) else ad_sessions (as_db s)"
  have e: "as_db (snd (revoke_session i now s)) = (as_db s)\<lparr>ad_sessions := ?ts, ad_refresh := revoke_tokens i now (ad_refresh (as_db s))\<rparr>"
    by (simp add: revoke_session_def then_do_def put_session_def revoke_for_session_def on_db_simp give_def split: option.split)
  have k: "\<And>ls. repo_get i (ad_sessions (as_db s)) = Some ls \<Longrightarrow> ent_id ls = i" by (rule session_key [OF ok])
  show "tokens_ok (as_db (snd (revoke_session i now s))) \<and> lasts (as_db s) (as_db (snd (revoke_session i now s)))"
    using tokens_ok_tables [OF ok] k
    by (intro revoked_tables [OF ok _ _ e]) (auto split: option.split)
qed

lemma keeps_revoke_sessions [keeps_intros]: "keeps s (snd (revoke_sessions is now s))"
  by (induction "is" arbitrary: s) (auto intro: keeps_intros)

lemma keeps_revoke_all [keeps_intros]: "keeps s (snd (revoke_all_for_user u now s))"
  unfolding revoke_all_for_user_def by (rule keeps_revoke_sessions)

lemma keeps_terminate [keeps_intros]: "keeps s (snd (terminate_session u i now s))" "keeps s (snd (terminate_all u now s))"
proof -
  show "keeps s (snd (terminate_all u now s))" unfolding terminate_all_def by (intro keeps_intros)
  have "keeps s (snd (then_do (revoke_session i now) (\<lambda>_. audit SESSION_REVOKED (Some u) None (Some (nat_digits i)) None) s))"
    by (intro keeps_intros)
  then show "keeps s (snd (terminate_session u i now s))" by (simp add: terminate_session_def split: option.split)
qed

lemma keeps_replayed: "keeps s (snd (replayed token now s :: (auth_exc + 'a) \<times> auth_state))"
  unfolding keeps_def
proof
  assume ok: "tokens_ok (as_db s)"
  let ?i = "rt_session_id token"
  let ?ts = "case repo_get ?i (ad_sessions (as_db s)) of None \<Rightarrow> ad_sessions (as_db s)
    | Some ls \<Rightarrow> repo_put (ls\<lparr>ss_revoked_at := Some now\<rparr>) (ad_sessions (as_db s))"
  let ?s' = "snd (replayed token now s :: (auth_exc + 'a) \<times> auth_state)"
  have e: "as_db ?s' = (as_db s)\<lparr>ad_sessions := ?ts, ad_refresh := revoke_tokens ?i now (ad_refresh (as_db s))\<rparr>"
    by (simp add: replayed_def then_do_def put_session_def revoke_for_session_def on_db_simp give_def split: option.split)
  have k: "\<And>ls. repo_get ?i (ad_sessions (as_db s)) = Some ls \<Longrightarrow> ent_id ls = ?i" by (rule session_key [OF ok])
  show "tokens_ok (as_db ?s') \<and> lasts (as_db s) (as_db ?s')"
    using tokens_ok_tables [OF ok] k
    by (intro revoked_tables [OF ok _ _ e]) (auto split: option.split)
qed

lemma added_token:
  assumes ok: "tokens_ok db" and tables: "table_ok (ad_users db')" "table_ok (ad_sessions db')" "table_ok (ad_refresh db')"
    and get': "\<And>j. repo_get j (ad_refresh db') = (if j = n then Some new else map_option f (repo_get j (ad_refresh db)))"
    and f: "\<And>t. rt_session_id (f t) = rt_session_id t" "\<And>t. rt_user_id (f t) = rt_user_id t" "\<And>t. rt_token_hash (f t) = rt_token_hash t"
      "\<And>t. rt_revoked_at t \<noteq> None \<Longrightarrow> rt_revoked_at (f t) \<noteq> None"
      "\<And>t. rt_rotated_to (f t) \<noteq> None \<Longrightarrow> rt_rotated_to t \<noteq> None \<or> rt_revoked_at (f t) \<noteq> None"
    and fresh: "repo_get n (ad_refresh db) = None" "\<And>k t. repo_get k (ad_refresh db) = Some t \<Longrightarrow> rt_token_hash t \<noteq> rt_token_hash new"
    and keep: "\<And>j l. repo_get j (ad_sessions db) = Some l \<Longrightarrow> \<exists>l'. repo_get j (ad_sessions db') = Some l' \<and> ss_user_id l' = ss_user_id l
      \<and> (ss_revoked_at l' \<noteq> None \<longleftrightarrow> ss_revoked_at l \<noteq> None)"
    and new: "\<exists>l'. repo_get (rt_session_id new) (ad_sessions db') = Some l' \<and> ss_user_id l' = rt_user_id new \<and> ss_revoked_at l' = None"
      "rt_rotated_to new = None"
    and single: "\<And>k t. repo_get k (ad_refresh db) = Some t \<Longrightarrow> rt_session_id t = rt_session_id new \<Longrightarrow> rt_revoked_at (f t) \<noteq> None"
  shows "tokens_ok db' \<and> lasts db db'"
proof
  have old: "j \<noteq> n \<Longrightarrow> repo_get j (ad_refresh db') = Some t \<Longrightarrow> \<exists>t0. repo_get j (ad_refresh db) = Some t0 \<and> t = f t0" for j t
    by (auto simp: get')
  show "tokens_ok db'"
  proof (rule tokens_okI [OF tables])
    fix k t assume t: "repo_get k (ad_refresh db') = Some t"
    show "\<exists>l. repo_get (rt_session_id t) (ad_sessions db') = Some l \<and> ss_user_id l = rt_user_id t \<and> (ss_revoked_at l \<noteq> None \<longrightarrow> rt_revoked_at t \<noteq> None)"
    proof (cases "k = n")
      case True
      with t new show ?thesis by (auto simp: get')
    next
      case False
      from old [OF False t] obtain t0 where t0: "repo_get k (ad_refresh db) = Some t0" "t = f t0" by blast
      obtain l where l: "repo_get (rt_session_id t0) (ad_sessions db) = Some l" "ss_user_id l = rt_user_id t0"
          "ss_revoked_at l \<noteq> None \<longrightarrow> rt_revoked_at t0 \<noteq> None" using token_D(2) [OF ok t0(1)] by blast
      from keep [OF l(1)] l(2,3) f show ?thesis by (auto simp: t0(2))
    qed
    show "rt_rotated_to t \<noteq> None \<Longrightarrow> rt_revoked_at t \<noteq> None"
    proof (cases "k = n")
      case True
      with t new(2) show "rt_rotated_to t \<noteq> None \<Longrightarrow> rt_revoked_at t \<noteq> None" by (simp add: get')
    next
      case False
      assume "rt_rotated_to t \<noteq> None"
      with old [OF False t] f(5) f(4) token_D(3) [OF ok] show "rt_revoked_at t \<noteq> None" by blast
    qed
    fix k2 t2 assume t2: "repo_get k2 (ad_refresh db') = Some t2"
    have at_n: "k = n \<Longrightarrow> t = new" "k2 = n \<Longrightarrow> t2 = new" using t t2 by (auto simp: get')
    have at_old: "k \<noteq> n \<Longrightarrow> \<exists>t0. repo_get k (ad_refresh db) = Some t0 \<and> t = f t0" "k2 \<noteq> n \<Longrightarrow> \<exists>t0. repo_get k2 (ad_refresh db) = Some t0 \<and> t2 = f t0"
      using old t t2 by blast+
    show "k2 = k" if h: "rt_token_hash t2 = rt_token_hash t"
    proof (cases "k = n \<or> k2 = n")
      case True
      with at_n at_old fresh(2) h f(3) show ?thesis by metis
    next
      case False
      with at_old obtain t0 t3 where "repo_get k (ad_refresh db) = Some t0" "t = f t0" "repo_get k2 (ad_refresh db) = Some t3" "t2 = f t3" by blast
      with token_D(4) [OF ok] h f(3) show ?thesis by metis
    qed
    show "k2 = k" if h: "rt_session_id t2 = rt_session_id t" "rt_revoked_at t = None" "rt_revoked_at t2 = None"
    proof (cases "k = n \<or> k2 = n")
      case True
      with at_n at_old single h f(1) show ?thesis by metis
    next
      case False
      with at_old obtain t0 t3 where o: "repo_get k (ad_refresh db) = Some t0" "t = f t0" "repo_get k2 (ad_refresh db) = Some t3" "t2 = f t3" by blast
      have live: "rt_revoked_at t0 = None" "rt_revoked_at t3 = None" using f(4) [of t0] f(4) [of t3] h(2,3) unfolding o(2,4) by blast+
      have "rt_session_id t3 = rt_session_id t0" using h(1) f(1) o(2,4) by simp
      from token_D(5) [OF ok o(1,3) this live] show ?thesis .
    qed
  qed
  show "lasts db db'"
    unfolding lasts_def
  proof (intro conjI allI impI)
    fix i ls assume "repo_get i (ad_sessions db) = Some ls"
    from keep [OF this] show "\<exists>ls'. repo_get i (ad_sessions db') = Some ls' \<and> ss_user_id ls' = ss_user_id ls
        \<and> (ss_revoked_at ls \<noteq> None \<longrightarrow> ss_revoked_at ls' \<noteq> None)" by blast
  next
    fix i t assume "repo_get i (ad_refresh db) = Some t"
    with fresh(1) have "repo_get i (ad_refresh db') = Some (f t)" by (auto simp: get')
    with f show "\<exists>t'. repo_get i (ad_refresh db') = Some t' \<and> rt_token_hash t' = rt_token_hash t \<and> rt_session_id t' = rt_session_id t
        \<and> rt_user_id t' = rt_user_id t \<and> (rt_revoked_at t \<noteq> None \<longrightarrow> rt_revoked_at t' \<noteq> None)" by auto
  qed
qed

definition new_refresh :: "auth_env \<Rightarrow> nat \<Rightarrow> nat \<Rightarrow> nonce \<Rightarrow> time \<Rightarrow> refresh_token" where
  "new_refresh env u i nonce now = \<lparr>ent_id = 0, created_at = now, deleted_at = None, rt_user_id = u, rt_session_id = i,
     rt_token_hash = hash_token env (nc_token nonce), rt_expires_at = now + days (ev_refresh_days env),
     rt_revoked_at = None, rt_rotated_to = None\<rparr>"

lemma issue_tokens_cases:
  "issue_tokens env usr ls nonce now s =
    (if refresh_by_hash (hash_token env (nc_token nonce)) (as_db s) \<noteq> None
     then (Inl (AuthDb (IntegrityError ''refreshtoken_token_hash'')), s)
     else (Inr \<lparr>it_access_token = create_access_token env (ent_id usr) (ent_id ls) nonce now, it_refresh_token = nc_token nonce,
                 it_expires_in = ev_access_minutes env * 60\<rparr>,
           s\<lparr>as_db := (as_db s)\<lparr>ad_refresh := snd (repo_add (new_refresh env (ent_id usr) (ent_id ls) nonce now) (ad_refresh (as_db s)))\<rparr>\<rparr>))"
  by (simp add: issue_tokens_def add_refresh_def then_do_def give_def new_refresh_def Let_def case_prod_unfold)

lemma rotate_token_cases:
  assumes "rotate_token env raw nonce now s = (r, s')"
  shows "case r of
      Inl _ \<Rightarrow> s' = s \<or> (\<exists>token. refresh_by_hash (hash_token env raw) (as_db s) = Some token
                 \<and> (rt_revoked_at token \<noteq> None \<or> rt_rotated_to token \<noteq> None) \<and> replayed token now s = (r, s'))
    | Inr issued \<Rightarrow> (\<exists>token ls usr x. refresh_by_hash (hash_token env raw) (as_db s) = Some token \<and> rt_revoked_at token = None
          \<and> rt_rotated_to token = None \<and> now \<le> rt_expires_at token
          \<and> repo_get (rt_session_id token) (ad_sessions (as_db s)) = Some ls \<and> ss_revoked_at ls = None
          \<and> repo_get (rt_user_id token) (ad_users (as_db s)) = Some usr \<and> usr_is_active usr
          \<and> refresh_by_hash (hash_token env (nc_token nonce)) (as_db s) = None
          \<and> issued = \<lparr>it_access_token = create_access_token env (ent_id usr) (ent_id ls) nonce now, it_refresh_token = nc_token nonce,
                it_expires_in = ev_access_minutes env * 60\<rparr>
          \<and> s' = s\<lparr>as_db := (as_db s)\<lparr>ad_refresh := repo_put (token\<lparr>rt_revoked_at := Some now, rt_rotated_to := x\<rparr>)
                (snd (repo_add (new_refresh env (ent_id usr) (ent_id ls) nonce now) (ad_refresh (as_db s)))),
              ad_sessions := repo_put (ls\<lparr>ss_last_activity := Some now\<rparr>) (ad_sessions (as_db s))\<rparr>\<rparr>)"
proof -
  have never: "replayed token now s \<noteq> (Inr y, s2)" for token s2 and y :: issued_tokens
    by (auto simp: replayed_def then_do_def on_db_simp revoke_for_session_def put_session_def give_def split: option.splits)
  let ?db = "as_db s"
  show ?thesis
  proof (cases "refresh_by_hash (hash_token env raw) ?db")
    case None
    with assms show ?thesis by (auto simp: rotate_token_def)
  next
    case (Some token)
    show ?thesis
    proof (cases "rt_revoked_at token \<noteq> None \<or> rt_rotated_to token \<noteq> None")
      case True
      with assms Some have "replayed token now s = (r, s')" by (simp add: rotate_token_def)
      with True Some never show ?thesis by (cases r) auto
    next
      case unused: False
      show ?thesis
      proof (cases "rt_expires_at token < now")
        case True
        with assms Some unused show ?thesis by (auto simp: rotate_token_def)
      next
        case False
        with assms Some unused have e: "then_do (active_session (rt_session_id token)) (\<lambda>ls. then_do (active_user (rt_user_id token)) (\<lambda>usr.
            then_do (issue_tokens env usr ls nonce now) (\<lambda>issued. succeed_token env token ls issued now))) s = (r, s')"
          by (simp add: rotate_token_def)
        show ?thesis
        proof (cases "\<exists>ls usr. repo_get (rt_session_id token) (ad_sessions ?db) = Some ls \<and> ss_revoked_at ls = None
            \<and> repo_get (rt_user_id token) (ad_users ?db) = Some usr \<and> usr_is_active usr \<and> refresh_by_hash (hash_token env (nc_token nonce)) ?db = None")
          case True
          then obtain ls usr where c: "repo_get (rt_session_id token) (ad_sessions ?db) = Some ls" "ss_revoked_at ls = None"
              "repo_get (rt_user_id token) (ad_users ?db) = Some usr" "usr_is_active usr" "refresh_by_hash (hash_token env (nc_token nonce)) ?db = None"
            by blast
          from e c have "r = Inr \<lparr>it_access_token = create_access_token env (ent_id usr) (ent_id ls) nonce now, it_refresh_token = nc_token nonce,
                it_expires_in = ev_access_minutes env * 60\<rparr> \<and> (\<exists>x. s' = s\<lparr>as_db := ?db\<lparr>ad_refresh := repo_put (token\<lparr>rt_revoked_at := Some now, rt_rotated_to := x\<rparr>)
                (snd (repo_add (new_refresh env (ent_id usr) (ent_id ls) nonce now) (ad_refresh ?db))),
              ad_sessions := repo_put (ls\<lparr>ss_last_activity := Some now\<rparr>) (ad_sessions ?db)\<rparr>\<rparr>)"
            by (auto simp: then_do_def active_session_def active_user_def issue_tokens_cases succeed_token_def put_refresh_def
                put_session_def on_db_simp give_def Let_def)
          with Some unused False c show ?thesis by auto
        next
          case no: False
          with e have "s' = s \<and> (\<exists>x. r = Inl x)"
            by (auto simp: then_do_def active_session_def active_user_def issue_tokens_cases split: option.splits if_splits)
          then show ?thesis by auto
        qed
      qed
    qed
  qed
qed

lemma rotate_token_Inr:
  assumes "rotate_token env raw nonce now s = (Inr issued, s')"
  obtains token ls usr x where "refresh_by_hash (hash_token env raw) (as_db s) = Some token" "rt_revoked_at token = None"
    "rt_rotated_to token = None" "now \<le> rt_expires_at token" "repo_get (rt_session_id token) (ad_sessions (as_db s)) = Some ls"
    "ss_revoked_at ls = None" "repo_get (rt_user_id token) (ad_users (as_db s)) = Some usr" "usr_is_active usr"
    "refresh_by_hash (hash_token env (nc_token nonce)) (as_db s) = None"
    "issued = \<lparr>it_access_token = create_access_token env (ent_id usr) (ent_id ls) nonce now, it_refresh_token = nc_token nonce,
       it_expires_in = ev_access_minutes env * 60\<rparr>"
    "s' = s\<lparr>as_db := (as_db s)\<lparr>ad_refresh := repo_put (token\<lparr>rt_revoked_at := Some now, rt_rotated_to := x\<rparr>)
       (snd (repo_add (new_refresh env (ent_id usr) (ent_id ls) nonce now) (ad_refresh (as_db s)))),
       ad_sessions := repo_put (ls\<lparr>ss_last_activity := Some now\<rparr>) (ad_sessions (as_db s))\<rparr>\<rparr>"
  using rotate_token_cases [OF assms] unfolding sum.case by (elim exE conjE) (rule that)

lemma repo_put_add_get:
  assumes "repo_get k t = Some r0" "ent_id row' = k"
  shows "repo_get j (repo_put row' (snd (repo_add row t))) =
    (if j = new_id t then Some (row\<lparr>ent_id := new_id t\<rparr>) else if j = k then Some row' else repo_get j t)"
proof -
  have "k \<noteq> new_id t" using assms(1) by (auto simp: repo_get_def)
  moreover have "repo_get j (snd (repo_add row t)) = (if j = new_id t then Some (row\<lparr>ent_id := new_id t\<rparr>) else repo_get j t)"
    by (simp add: repo_add_def repo_get_def Let_def)
  ultimately show ?thesis using assms(2) by auto
qed

lemma keeps_rotate [keeps_intros]: "keeps s (snd (rotate_token env raw nonce now s))"
proof -
  obtain r s' where e: "rotate_token env raw nonce now s = (r, s')" by (cases "rotate_token env raw nonce now s")
  note c = rotate_token_cases [OF e]
  have "keeps s s'"
  proof (cases r)
    case (Inl x)
    with c consider "s' = s" | token where "replayed token now s = (r, s')" by auto
    then show ?thesis
    proof cases
      case (2 token)
      from keeps_replayed [of s token now, where 'a = issued_tokens] show ?thesis unfolding 2 by simp
    qed simp
  next
    case (Inr issued)
    with c obtain token ls usr x where
        t: "refresh_by_hash (hash_token env raw) (as_db s) = Some token" "rt_revoked_at token = None" "rt_rotated_to token = None"
      and ls: "repo_get (rt_session_id token) (ad_sessions (as_db s)) = Some ls" "ss_revoked_at ls = None"
      and usr: "repo_get (rt_user_id token) (ad_users (as_db s)) = Some usr"
      and fresh: "refresh_by_hash (hash_token env (nc_token nonce)) (as_db s) = None"
      and s': "s' = s\<lparr>as_db := (as_db s)\<lparr>ad_refresh := repo_put (token\<lparr>rt_revoked_at := Some now, rt_rotated_to := x\<rparr>)
                (snd (repo_add (new_refresh env (ent_id usr) (ent_id ls) nonce now) (ad_refresh (as_db s)))),
              ad_sessions := repo_put (ls\<lparr>ss_last_activity := Some now\<rparr>) (ad_sessions (as_db s))\<rparr>\<rparr>"
      by auto
    show ?thesis
      unfolding keeps_def
    proof
      assume ok: "tokens_ok (as_db s)"
      note tables = tokens_ok_tables [OF ok]
      let ?new = "new_refresh env (ent_id usr) (ent_id ls) nonce now"
      let ?f = "\<lambda>t0. if ent_id t0 = ent_id token then t0\<lparr>rt_revoked_at := Some now, rt_rotated_to := x\<rparr> else t0"
      from refresh_by_hash_Some [OF ok t(1)] have k: "repo_get (ent_id token) (ad_refresh (as_db s)) = Some token" by simp
      have ids: "ent_id ls = rt_session_id token" "ent_id usr = rt_user_id token"
        using session_key [OF ok ls(1)] tables usr repo.get_key by blast+
      have u: "ss_user_id ls = rt_user_id token" using token_D(2) [OF ok k] ls(1) by auto
      have key: "repo_get j (ad_refresh (as_db s)) = Some t0 \<Longrightarrow> ent_id t0 = j" for j t0 using token_D(1) [OF ok] .
      show "tokens_ok (as_db s') \<and> lasts (as_db s) (as_db s')"
      proof (rule added_token [where n = "new_id (ad_refresh (as_db s))" and new = "?new\<lparr>ent_id := new_id (ad_refresh (as_db s))\<rparr>" and f = ?f, OF ok])
        show "table_ok (ad_users (as_db s'))" "table_ok (ad_sessions (as_db s'))" "table_ok (ad_refresh (as_db s'))"
          using tables repo_add_ok [OF _ surjective_pairing] by (auto simp: s')
        fix j show "repo_get j (ad_refresh (as_db s')) = (if j = new_id (ad_refresh (as_db s)) then Some (?new\<lparr>ent_id := new_id (ad_refresh (as_db s))\<rparr>)
            else map_option ?f (repo_get j (ad_refresh (as_db s))))"
        proof -
          have g: "repo_get j (ad_refresh (as_db s')) = (if j = new_id (ad_refresh (as_db s)) then Some (?new\<lparr>ent_id := new_id (ad_refresh (as_db s))\<rparr>)
              else if j = ent_id token then Some (token\<lparr>rt_revoked_at := Some now, rt_rotated_to := x\<rparr>) else repo_get j (ad_refresh (as_db s)))"
            using repo_put_add_get [OF k, of "token\<lparr>rt_revoked_at := Some now, rt_rotated_to := x\<rparr>" j ?new] by (simp add: s' del: repo_get_put)
          show ?thesis
          proof (cases "repo_get j (ad_refresh (as_db s))")
            case None
            with k have "j \<noteq> ent_id token" by auto
            then show ?thesis unfolding g None by simp
          next
            case (Some t0)
            have "ent_id t0 = j" by (rule key [OF Some])
            moreover have "j = ent_id token \<Longrightarrow> t0 = token" using k Some by simp
            ultimately show ?thesis unfolding g Some by simp
          qed
        qed
      next
        fix j t0 assume j: "repo_get j (ad_refresh (as_db s)) = Some t0"
        show "rt_token_hash t0 \<noteq> rt_token_hash (?new\<lparr>ent_id := new_id (ad_refresh (as_db s))\<rparr>)"
          using refresh_by_hash_None [OF ok fresh j] by (simp add: new_refresh_def)
        assume "rt_session_id t0 = rt_session_id (?new\<lparr>ent_id := new_id (ad_refresh (as_db s))\<rparr>)"
        then have "rt_session_id t0 = rt_session_id token" using ids by (simp add: new_refresh_def)
        then show "rt_revoked_at (?f t0) \<noteq> None" using token_D(5) [OF ok k j] t(2) key [OF j] by auto
      next
        fix j l assume "repo_get j (ad_sessions (as_db s)) = Some l"
        then show "\<exists>l'. repo_get j (ad_sessions (as_db s')) = Some l' \<and> ss_user_id l' = ss_user_id l \<and> (ss_revoked_at l' \<noteq> None \<longleftrightarrow> ss_revoked_at l \<noteq> None)"
          using ls ids by (auto simp: s')
      next
        show "\<exists>l'. repo_get (rt_session_id (?new\<lparr>ent_id := new_id (ad_refresh (as_db s))\<rparr>)) (ad_sessions (as_db s')) = Some l'
            \<and> ss_user_id l' = rt_user_id (?new\<lparr>ent_id := new_id (ad_refresh (as_db s))\<rparr>) \<and> ss_revoked_at l' = None"
          using ls ids u by (simp add: s' new_refresh_def)
      qed (auto simp: new_refresh_def repo_get_def split: if_splits)
    qed
  qed
  with e show ?thesis by simp
qed

definition empty_session :: "nat \<Rightarrow> nat \<Rightarrow> auth_db \<Rightarrow> bool" where
  \<comment> \<open>a live session of the user without tokens\<close>
  "empty_session i u db \<longleftrightarrow> (\<exists>ls. repo_get i (ad_sessions db) = Some ls \<and> ss_user_id ls = u \<and> ss_revoked_at ls = None)
     \<and> (\<forall>k t. repo_get k (ad_refresh db) = Some t \<longrightarrow> rt_session_id t \<noteq> i)"

lemma create_session_keeps:
  assumes ok: "tokens_ok (as_db s)" and c: "create_session usr ctx now s = (r, s')"
  shows "tokens_ok (as_db s')" "lasts (as_db s) (as_db s')"
    "\<exists>ls. r = Inr ls \<and> repo_get (ent_id ls) (ad_sessions (as_db s)) = None \<and> empty_session (ent_id ls) (ent_id usr) (as_db s')"
proof -
  define row where "row = \<lparr>ent_id = 0, created_at = now, deleted_at = None, ss_user_id = ent_id usr,
            ss_ip_address = rc_ip_address ctx, ss_user_agent = rc_user_agent ctx, ss_last_activity = Some now,
            ss_revoked_at = None\<rparr>"
  obtain ls t where a: "repo_add row (ad_sessions (as_db s)) = (ls, t)" by fastforce
  have r: "r = Inr ls" and s': "s' = s\<lparr>as_db := (as_db s)\<lparr>ad_sessions := t\<rparr>\<rparr>"
    using c a by (simp_all add: create_session_def row_def)
  note n = repo_add_new [OF a] and tables = tokens_ok_tables [OF ok]
  have old: "repo_get k (ad_refresh (as_db s)) = Some tk \<Longrightarrow> rt_session_id tk \<noteq> ent_id ls" for k tk
    using token_D(2) [OF ok, of k tk] n(3) by auto
  show "tokens_ok (as_db s')"
    using ok old repo_add_ok [OF _ a] unfolding tokens_ok_def s' by (auto simp: n(4))
  show "lasts (as_db s) (as_db s')" using n(3) by (auto simp: lasts_def s' n(4))
  have "empty_session (ent_id ls) (ent_id usr) (as_db s')"
    using old by (auto simp: empty_session_def s' n(4)) (simp_all add: n(1) row_def)
  with r n(3) show "\<exists>ls. r = Inr ls \<and> repo_get (ent_id ls) (ad_sessions (as_db s)) = None \<and> empty_session (ent_id ls) (ent_id usr) (as_db s')" by blast
qed

lemma issue_tokens_keeps:
  assumes ok: "tokens_ok (as_db s)" and e: "empty_session (ent_id ls) (ent_id usr) (as_db s)" and i: "issue_tokens env usr ls nonce now s = (r, s')"
  shows "tokens_ok (as_db s') \<and> lasts (as_db s) (as_db s')"
proof (cases "refresh_by_hash (hash_token env (nc_token nonce)) (as_db s) = None")
  case False
  with i ok show ?thesis by (auto simp: issue_tokens_cases)
next
  case fresh: True
  let ?new = "new_refresh env (ent_id usr) (ent_id ls) nonce now"
  obtain t' tb where a: "repo_add ?new (ad_refresh (as_db s)) = (t', tb)" by fastforce
  have s': "s' = s\<lparr>as_db := (as_db s)\<lparr>ad_refresh := tb\<rparr>\<rparr>" using i fresh a by (simp add: issue_tokens_cases)
  note n = repo_add_new [OF a] and tables = tokens_ok_tables [OF ok]
  show ?thesis
  proof (rule added_token [where n = "ent_id t'" and new = t' and f = "\<lambda>t. t", OF ok])
    show "table_ok (ad_users (as_db s'))" "table_ok (ad_sessions (as_db s'))" "table_ok (ad_refresh (as_db s'))"
      using tables repo_add_ok [OF _ a] by (auto simp: s')
    fix j show "repo_get j (ad_refresh (as_db s')) = (if j = ent_id t' then Some t' else map_option (\<lambda>t. t) (repo_get j (ad_refresh (as_db s))))"
      by (simp add: s' n(4) option.map_ident)
  next
    fix j t0 assume j: "repo_get j (ad_refresh (as_db s)) = Some t0"
    show "rt_token_hash t0 \<noteq> rt_token_hash t'" using refresh_by_hash_None [OF ok fresh j] by (simp add: n(1) new_refresh_def)
    show "rt_session_id t0 = rt_session_id t' \<Longrightarrow> rt_revoked_at t0 \<noteq> None"
      using e j by (simp add: empty_session_def n(1) new_refresh_def)
  qed (use e n(3) in \<open>auto simp: s' n(1) new_refresh_def empty_session_def\<close>)
qed

end
