(* ===== verification/Auth.thy ===== *)
theory Auth
  imports Sessions
begin

text \<open>
  The authentication flows (\<^verbatim>\<open>app/services/auth.py\<close>) with the password policy
  (\<^verbatim>\<open>app/security/password.py\<close>), the login guard (\<^verbatim>\<open>app/services/login_guard.py\<close>), the user
  repository (\<^verbatim>\<open>app/repositories/user.py\<close>) and slugs (\<^verbatim>\<open>app/utils/slug.py\<close>): registration, email
  verification, login, logout, password reset and change, and OAuth sign-in. The collation of the
  database lowers text as Python does.
\<close>

section \<open>Passwords\<close>

definition MIN_LENGTH :: nat where "MIN_LENGTH = 10"
definition MAX_LENGTH :: nat where "MAX_LENGTH = 128"

definition COMMON_PASSWORDS :: "string list" where
  "COMMON_PASSWORDS = [''password'', ''password1'', ''password123'', ''12345678'', ''123456789'', ''qwerty123'', ''letmein123'',
     ''welcome123'', ''admin1234'', ''iloveyou1'', ''changeme123'']"

definition upper_letter :: "char \<Rightarrow> bool" where "upper_letter c \<longleftrightarrow> of_char c \<in> {65..(90::nat)}"
definition lower_letter :: "char \<Rightarrow> bool" where "lower_letter c \<longleftrightarrow> of_char c \<in> {97..(122::nat)}"
definition special :: "char \<Rightarrow> bool" where "special c \<longleftrightarrow> \<not> upper_letter c \<and> \<not> lower_letter c \<and> \<not> is_digit c"

definition password_problems :: "string \<Rightarrow> string list" where
  "password_problems p =
     (if length p < MIN_LENGTH then [''at least 10 characters''] else [])
   @ (if length p > MAX_LENGTH then [''at most 128 characters''] else [])
   @ (if \<not> list_ex upper_letter p then [''an uppercase letter''] else [])
   @ (if \<not> list_ex lower_letter p then [''a lowercase letter''] else [])
   @ (if \<not> list_ex is_digit p then [''a number''] else [])
   @ (if \<not> list_ex special p then [''a special character''] else [])
   @ (if lower p \<in> set COMMON_PASSWORDS then [''a value that is not a common password''] else [])"

definition validate_password_policy :: "string \<Rightarrow> unit result" where
  "validate_password_policy p =
     (if password_problems p \<noteq> [] then raise ValidationError ''Password does not meet the security policy.'' else Inr ())"

definition hash_password :: "auth_env \<Rightarrow> nonce \<Rightarrow> string \<Rightarrow> string result" where
  "hash_password env nonce p =
     (case validate_password_policy p of Inl e \<Rightarrow> Inl e | Inr _ \<Rightarrow> Inr (ev_argon_hash env (nc_salt nonce) p))"

definition verify_password :: "auth_env \<Rightarrow> string \<Rightarrow> string \<Rightarrow> bool" where
  "verify_password env p h = (case ev_argon_verify env h p of Verified \<Rightarrow> True | Mismatch \<Rightarrow> False | InvalidHash \<Rightarrow> False)"

definition needs_rehash :: "auth_env \<Rightarrow> string \<Rightarrow> bool" where
  "needs_rehash env h = (case ev_argon_outdated env h of None \<Rightarrow> True | Some b \<Rightarrow> b)"

section \<open>The login guard\<close>

definition guard_on :: "auth_env \<Rightarrow> bool" where
  \<comment> \<open>with Redis out of reach every operation of the guard does nothing\<close>
  "guard_on env \<longleftrightarrow> ev_rate_limit_enabled env \<and> ev_redis_ok env"

definition guard_key :: "string \<Rightarrow> string" where
  "guard_key identifier = ''login:attempts:'' @ lower identifier"

definition guard_attempts :: "string \<Rightarrow> time \<Rightarrow> auth_state \<Rightarrow> int option" where
  \<comment> \<open>\<open>GET\<close> of a counter: an expired one is gone\<close>
  "guard_attempts identifier now s = (case dict_get (as_guard s) (guard_key identifier) of
       None \<Rightarrow> None | Some (n, None) \<Rightarrow> Some n | Some (n, Some t) \<Rightarrow> if now < t then Some n else None)"

definition guard_check :: "auth_env \<Rightarrow> string \<Rightarrow> time \<Rightarrow> unit auth_op" where
  "guard_check env identifier now s =
     (if guard_on env \<and> (case guard_attempts identifier now s of None \<Rightarrow> False | Some n \<Rightarrow> ev_max_attempts env \<le> n)
      then auth_error UnauthorizedError ''Too many failed login attempts. Try again later.'' s
      else (Inr (), s))"

definition guard_failure :: "auth_env \<Rightarrow> string \<Rightarrow> time \<Rightarrow> unit auth_op" where
  \<comment> \<open>\<open>INCR\<close> keeps the expiry of a counter; the first failure sets it\<close>
  "guard_failure env identifier now s =
     (if \<not> guard_on env then (Inr (), s)
      else
        let n = (case guard_attempts identifier now s of None \<Rightarrow> 0 | Some n \<Rightarrow> n) + 1;
            expiry = (if n = 1 then Some (now + seconds (ev_lockout_seconds env))
                      else case dict_get (as_guard s) (guard_key identifier) of None \<Rightarrow> None | Some e \<Rightarrow> snd e)
        in (Inr (), s\<lparr>as_guard := dict_set (guard_key identifier) (n, expiry) (as_guard s)\<rparr>))"

definition guard_reset :: "auth_env \<Rightarrow> string \<Rightarrow> unit auth_op" where
  "guard_reset env identifier s =
     (Inr (), if guard_on env then s\<lparr>as_guard := dict_pop (guard_key identifier) (as_guard s)\<rparr> else s)"

section \<open>Users\<close>

definition users_by :: "(user \<Rightarrow> string) \<Rightarrow> string \<Rightarrow> user option auth_op" where
  \<comment> \<open>the live user with this text in a column, up to case; several are an error\<close>
  "users_by column v s = (case filter (\<lambda>u. lower (column u) = lower v) (base_query False (ad_users (as_db s))) of
       [] \<Rightarrow> (Inr None, s) | [u] \<Rightarrow> (Inr (Some u), s) | _ \<Rightarrow> (Inl MultipleResults, s))"

definition get_by_email :: "string \<Rightarrow> user option auth_op" where "get_by_email = users_by usr_email"
definition get_by_username :: "string \<Rightarrow> user option auth_op" where "get_by_username = users_by usr_username"

definition user_clash :: "user \<Rightarrow> auth_db \<Rightarrow> bool" where
  \<comment> \<open>the unique columns, over removed rows too\<close>
  "user_clash u db = list_ex (\<lambda>v. usr_email v = usr_email u \<or> usr_username v = usr_username u) (all_rows (ad_users db))"

definition add_user :: "user \<Rightarrow> user auth_op" where
  "add_user row s =
     (if user_clash row (as_db s) then (Inl (AuthDb (IntegrityError ''user_email_username'')), s)
      else let (u, t) = repo_add row (ad_users (as_db s)) in (Inr u, s\<lparr>as_db := (as_db s)\<lparr>ad_users := t\<rparr>\<rparr>))"

definition send_mail :: "auth_env \<Rightarrow> mail \<Rightarrow> unit auth_op" where
  "send_mail env m s = (if ev_mail_ok env m then (Inr (), s\<lparr>as_mail := as_mail s @ [m]\<rparr>) else (Inl MailFailed, s))"

definition single_use_row :: "nat \<Rightarrow> string \<Rightarrow> time \<Rightarrow> time \<Rightarrow> single_use_token" where
  "single_use_row u h expires now = \<lparr>ent_id = 0, created_at = now, deleted_at = None, su_user_id = u, su_token_hash = h,
     su_expires_at = expires, su_used_at = None\<rparr>"

definition single_use_by_hash :: "string \<Rightarrow> (nat, single_use_token) dict \<Rightarrow> single_use_token option" where
  "single_use_by_hash h t = row_by (\<lambda>r. su_token_hash r = h) t"

definition add_verify :: "single_use_token \<Rightarrow> unit auth_op" where
  "add_verify row s =
     (if single_use_by_hash (su_token_hash row) (ad_verify (as_db s)) \<noteq> None then (Inl (AuthDb (IntegrityError ''token_hash'')), s)
      else (Inr (), s\<lparr>as_db := (as_db s)\<lparr>ad_verify := snd (repo_add row (ad_verify (as_db s)))\<rparr>\<rparr>))"

definition add_reset :: "single_use_token \<Rightarrow> unit auth_op" where
  "add_reset row s =
     (if single_use_by_hash (su_token_hash row) (ad_reset (as_db s)) \<noteq> None then (Inl (AuthDb (IntegrityError ''token_hash'')), s)
      else (Inr (), s\<lparr>as_db := (as_db s)\<lparr>ad_reset := snd (repo_add row (ad_reset (as_db s)))\<rparr>\<rparr>))"

definition usable_token :: "string \<Rightarrow> single_use_token option \<Rightarrow> time \<Rightarrow> single_use_token auth_op" where
  \<comment> \<open>\<open>what\<close> is the kind of token in the messages\<close>
  "usable_token what record_opt now s =
     (case record_opt of
        None \<Rightarrow> auth_error ValidationError (''Invalid or already-used '' @ what @ '' token.'') s
      | Some r \<Rightarrow>
          if su_used_at r \<noteq> None then auth_error ValidationError (''Invalid or already-used '' @ what @ '' token.'') s
          else if su_expires_at r < now
          then auth_error ValidationError ((if what = ''reset'' then ''Reset'' else ''Verification'') @ '' token has expired.'') s
          else (Inr r, s))"

definition user_of :: "string \<Rightarrow> nat \<Rightarrow> user auth_op" where
  "user_of what u s = (case repo_get u (ad_users (as_db s)) of
     None \<Rightarrow> auth_error ValidationError (''Invalid '' @ what @ '' token.'') s | Some usr \<Rightarrow> (Inr usr, s))"

section \<open>Registration and verification\<close>

definition send_verification :: "auth_env \<Rightarrow> user \<Rightarrow> nonce \<Rightarrow> time \<Rightarrow> string auth_op" where
  "send_verification env usr nonce now =
     then_do (add_verify (single_use_row (ent_id usr) (hash_token env (nc_token nonce)) (now + 60 * minutes (ev_verification_hours env)) now)) (\<lambda>_.
     then_do (send_mail env (Verification (usr_email usr) (nc_token nonce))) (\<lambda>_.
     give (nc_token nonce)))"

definition new_user :: "string \<Rightarrow> string \<Rightarrow> string option \<Rightarrow> string option \<Rightarrow> string option \<Rightarrow> bool \<Rightarrow> time \<Rightarrow> user" where
  "new_user email username display password avatar verified now = \<lparr>ent_id = 0, created_at = now, deleted_at = None, usr_email = email,
     usr_username = username, usr_display_name = display, usr_password_hash = password, usr_avatar_url = avatar,
     usr_is_active = True, usr_is_verified = verified, usr_is_superuser = False, usr_last_login = None\<rparr>"

definition register :: "auth_env \<Rightarrow> string \<Rightarrow> string \<Rightarrow> string \<Rightarrow> string option \<Rightarrow> nonce \<Rightarrow> time \<Rightarrow> user auth_op" where
  "register env email username password display nonce now =
     then_do (get_by_email email) (\<lambda>e.
     if e \<noteq> None then auth_error ConflictError ''An account with this email already exists.''
     else then_do (get_by_username username) (\<lambda>n.
     if n \<noteq> None then auth_error ConflictError ''This username is already taken.''
     else then_do (auth_lift (hash_password env nonce password)) (\<lambda>h.
     then_do (add_user (new_user (lower email) username display (Some h) None False now)) (\<lambda>usr.
     then_do (send_verification env usr nonce now) (\<lambda>_.
     then_do (audit USER_REGISTERED (Some (ent_id usr)) None None None) (\<lambda>_.
     give usr))))))"

definition verify_email :: "auth_env \<Rightarrow> string \<Rightarrow> time \<Rightarrow> unit auth_op" where
  "verify_email env token now s =
     then_do (usable_token ''verification'' (single_use_by_hash (hash_token env token) (ad_verify (as_db s))) now) (\<lambda>r.
     then_do (user_of ''verification'' (su_user_id r)) (\<lambda>usr.
     then_do (put_user (usr\<lparr>usr_is_verified := True\<rparr>)) (\<lambda>_.
     then_do (on_db (\<lambda>db. db\<lparr>ad_verify := repo_put (r\<lparr>su_used_at := Some now\<rparr>) (ad_verify db)\<rparr>)) (\<lambda>_.
     audit EMAIL_VERIFIED (Some (ent_id usr)) None None None)))) s"

section \<open>Login and logout\<close>

definition issue_login :: "auth_env \<Rightarrow> user \<Rightarrow> request_context \<Rightarrow> audit_action \<Rightarrow> nonce \<Rightarrow> time \<Rightarrow> issued_tokens auth_op" where
  "issue_login env usr ctx action nonce now =
     then_do (put_user (usr\<lparr>usr_last_login := Some now\<rparr>)) (\<lambda>_.
     then_do (create_session usr ctx now) (\<lambda>ls.
     then_do (issue_tokens env usr ls nonce now) (\<lambda>issued.
     then_do (audit action (Some (ent_id usr)) (Some ''session'') (Some (nat_digits (ent_id ls))) (rc_ip_address ctx)) (\<lambda>_.
     give issued))))"

definition login_valid :: "auth_env \<Rightarrow> string \<Rightarrow> string \<Rightarrow> user option \<Rightarrow> bool" where
  \<comment> \<open>\<open>dummy\<close> is the hash that is verified when there is no account or no password\<close>
  "login_valid env dummy password u =
     verify_password env password (if u \<noteq> None \<and> truthy (usr_password_hash (the u)) then the (usr_password_hash (the u)) else dummy)"

definition upgrade_hash :: "auth_env \<Rightarrow> user \<Rightarrow> string \<Rightarrow> nonce \<Rightarrow> user auth_op" where
  "upgrade_hash env usr password nonce =
     (if needs_rehash env (the (usr_password_hash usr))
      then then_do (auth_lift (hash_password env nonce password)) (\<lambda>h. give (usr\<lparr>usr_password_hash := Some h\<rparr>))
      else give usr)"

definition login_refused :: "auth_env \<Rightarrow> string \<Rightarrow> user option \<Rightarrow> request_context \<Rightarrow> time \<Rightarrow> 'a auth_op" where
  "login_refused env email u ctx now =
     then_do (guard_failure env email now) (\<lambda>_.
     then_do (case u of None \<Rightarrow> give () | Some usr \<Rightarrow> audit USER_LOGIN_FAILED (Some (ent_id usr)) None None (rc_ip_address ctx)) (\<lambda>_.
     auth_error UnauthorizedError ''Invalid email or password.''))"

definition login :: "auth_env \<Rightarrow> string \<Rightarrow> string \<Rightarrow> string \<Rightarrow> request_context \<Rightarrow> nonce \<Rightarrow> time \<Rightarrow> issued_tokens auth_op" where
  "login env dummy email password ctx nonce now =
     then_do (guard_check env email now) (\<lambda>_.
     then_do (get_by_email email) (\<lambda>u.
     if u = None \<or> \<not> login_valid env dummy password u \<or> \<not> truthy (usr_password_hash (the u))
     then login_refused env email u ctx now
     else if \<not> usr_is_active (the u) then auth_error UnauthorizedError ''This account is disabled.''
     else then_do (upgrade_hash env (the u) password nonce) (\<lambda>usr.
     then_do (guard_reset env email) (\<lambda>_.
     issue_login env usr ctx USER_LOGIN nonce now))))"

definition logout :: "auth_env \<Rightarrow> nat \<Rightarrow> string option \<Rightarrow> bool \<Rightarrow> time \<Rightarrow> unit auth_op" where
  "logout env u refresh_token all_devices now s =
     (if all_devices then then_do (revoke_all_for_user u now) (\<lambda>_. audit SESSIONS_REVOKED_ALL (Some u) None None None) s
      else
        then_do (if truthy refresh_token
                 then (case refresh_by_hash (hash_token env (the refresh_token)) (as_db s) of
                         None \<Rightarrow> give () | Some r \<Rightarrow> revoke_session (rt_session_id r) now)
                 else give ()) (\<lambda>_.
        audit USER_LOGOUT (Some u) None None None) s)"

section \<open>Passwords lost and changed\<close>

definition forgot_password :: "auth_env \<Rightarrow> string \<Rightarrow> nonce \<Rightarrow> time \<Rightarrow> unit auth_op" where
  "forgot_password env email nonce now =
     then_do (get_by_email email) (\<lambda>u.
     case u of None \<Rightarrow> give ()
     | Some usr \<Rightarrow>
         then_do (add_reset (single_use_row (ent_id usr) (hash_token env (nc_token nonce)) (now + 60 * minutes (ev_reset_hours env)) now)) (\<lambda>_.
         then_do (send_mail env (PasswordReset (usr_email usr) (nc_token nonce))) (\<lambda>_.
         audit PASSWORD_RESET_REQUESTED (Some (ent_id usr)) None None None)))"

definition reset_password :: "auth_env \<Rightarrow> string \<Rightarrow> string \<Rightarrow> nonce \<Rightarrow> time \<Rightarrow> unit auth_op" where
  "reset_password env token new_password nonce now s =
     then_do (usable_token ''reset'' (single_use_by_hash (hash_token env token) (ad_reset (as_db s))) now) (\<lambda>r.
     then_do (user_of ''reset'' (su_user_id r)) (\<lambda>usr.
     then_do (auth_lift (hash_password env nonce new_password)) (\<lambda>h.
     then_do (put_user (usr\<lparr>usr_password_hash := Some h\<rparr>)) (\<lambda>_.
     then_do (on_db (\<lambda>db. db\<lparr>ad_reset := repo_put (r\<lparr>su_used_at := Some now\<rparr>) (ad_reset db)\<rparr>)) (\<lambda>_.
     then_do (revoke_all_for_user (ent_id usr) now) (\<lambda>_.
     audit PASSWORD_RESET (Some (ent_id usr)) None None None)))))) s"

definition change_password :: "auth_env \<Rightarrow> user \<Rightarrow> string \<Rightarrow> string \<Rightarrow> nonce \<Rightarrow> unit auth_op" where
  "change_password env usr current_password new_password nonce =
     (if \<not> truthy (usr_password_hash usr) \<or> \<not> verify_password env current_password (the (usr_password_hash usr))
      then auth_error UnauthorizedError ''Current password is incorrect.''
      else
        then_do (auth_lift (hash_password env nonce new_password)) (\<lambda>h.
        then_do (put_user (usr\<lparr>usr_password_hash := Some h\<rparr>)) (\<lambda>_.
        audit PASSWORD_CHANGED (Some (ent_id usr)) None None None)))"

section \<open>OAuth\<close>

record oauth_profile =
  op_provider :: string
  op_account_id :: string
  op_email :: "string option"
  op_name :: "string option"
  op_avatar_url :: "string option"

fun slug_runs :: "string \<Rightarrow> string" where
  \<comment> \<open>every run of other characters becomes one hyphen\<close>
  "slug_runs [] = []"
| "slug_runs (c # cs) =
     (if lower_letter c \<or> is_digit c then c # slug_runs cs
      else case slug_runs cs of CHR ''-'' # r \<Rightarrow> CHR ''-'' # r | r \<Rightarrow> CHR ''-'' # r)"

definition slugify :: "string \<Rightarrow> string" where
  "slugify v =
     (let slug = slug_runs (lower (strip v));
          trimmed = rev (dropWhile (\<lambda>c. c = CHR ''-'') (rev (dropWhile (\<lambda>c. c = CHR ''-'') slug)))
      in if trimmed = [] then ''org'' else trimmed)"

definition sync_profile :: "user \<Rightarrow> oauth_profile \<Rightarrow> user" where
  "sync_profile usr p =
     (let u1 = (if truthy (op_avatar_url p) \<and> \<not> truthy (usr_avatar_url usr) then usr\<lparr>usr_avatar_url := op_avatar_url p\<rparr> else usr)
      in if truthy (op_name p) \<and> \<not> truthy (usr_display_name usr) then u1\<lparr>usr_display_name := op_name p\<rparr> else u1)"

definition by_provider :: "string \<Rightarrow> string \<Rightarrow> auth_db \<Rightarrow> oauth_account option" where
  "by_provider prov account db = row_by (\<lambda>a. oa_provider a = prov \<and> oa_account_id a = account) (ad_oauth db)"

definition oauth_username :: "oauth_profile \<Rightarrow> string" where
  "oauth_username p = slugify (if truthy (op_name p) then the (op_name p)
     else hd (split_on (CHR ''@'') (if truthy (op_email p) then the (op_email p) else ''user'')))"

definition create_oauth_user :: "oauth_profile \<Rightarrow> nonce \<Rightarrow> time \<Rightarrow> user auth_op" where
  "create_oauth_user p nonce now =
     then_do (get_by_username (oauth_username p)) (\<lambda>taken.
     let username = (if taken \<noteq> None then oauth_username p @ ''-'' @ nc_suffix nonce else oauth_username p);
         email = (if truthy (op_email p) then the (op_email p) else op_account_id p @ ''@'' @ op_provider p @ ''.oauth'')
     in add_user (new_user email username (op_name p) None (op_avatar_url p) (truthy (op_email p)) now))"

definition add_oauth :: "oauth_account \<Rightarrow> unit auth_op" where
  "add_oauth row s =
     (if by_provider (oa_provider row) (oa_account_id row) (as_db s) \<noteq> None
      then (Inl (AuthDb (IntegrityError ''uq_oauth_provider_account'')), s)
      else (Inr (), s\<lparr>as_db := (as_db s)\<lparr>ad_oauth := snd (repo_add row (ad_oauth (as_db s)))\<rparr>\<rparr>))"

definition link_or_create :: "oauth_profile \<Rightarrow> nonce \<Rightarrow> time \<Rightarrow> user auth_op" where
  "link_or_create p nonce now =
     then_do (if truthy (op_email p) then get_by_email (the (op_email p)) else give None) (\<lambda>u.
     then_do (case u of
         None \<Rightarrow> create_oauth_user p nonce now
       | Some usr \<Rightarrow> then_do (put_user (sync_profile usr p)) (\<lambda>_. give (sync_profile usr p))) (\<lambda>usr.
     then_do (add_oauth \<lparr>ent_id = 0, created_at = now, deleted_at = None, oa_user_id = ent_id usr, oa_provider = op_provider p,
         oa_account_id = op_account_id p, oa_email = op_email p\<rparr>) (\<lambda>_.
     give usr)))"

definition linked_user :: "nat \<Rightarrow> oauth_profile \<Rightarrow> user auth_op" where
  "linked_user u p s = (case repo_get u (ad_users (as_db s)) of
       None \<Rightarrow> auth_error UnauthorizedError ''Linked account no longer exists.'' s
     | Some usr \<Rightarrow> then_do (put_user (sync_profile usr p)) (\<lambda>_. give (sync_profile usr p)) s)"

definition oauth_login :: "auth_env \<Rightarrow> oauth_profile \<Rightarrow> request_context \<Rightarrow> nonce \<Rightarrow> time \<Rightarrow> issued_tokens auth_op" where
  "oauth_login env p ctx nonce now s =
     then_do (case by_provider (op_provider p) (op_account_id p) (as_db s) of
         Some link \<Rightarrow> linked_user (oa_user_id link) p
       | None \<Rightarrow> link_or_create p nonce now) (\<lambda>usr.
     issue_login env usr ctx OAUTH_LOGIN nonce now) s"

section \<open>What every flow keeps\<close>

lemma keeps_case_option [keeps_intros]:
  "(u = None \<Longrightarrow> keeps s (snd (f s))) \<Longrightarrow> (\<And>x. u = Some x \<Longrightarrow> keeps s (snd (g x s))) \<Longrightarrow> keeps s (snd ((case u of None \<Rightarrow> f | Some x \<Rightarrow> g x) s))"
  by (cases u) auto

lemma keeps_guard [keeps_intros]:
  "keeps s (snd (guard_check env email now s))" "keeps s (snd (guard_failure env email now s))" "keeps s (snd (guard_reset env email s))"
  by (rule keeps_same; simp add: guard_check_def guard_failure_def guard_reset_def Let_def)+

lemma keeps_users_by [keeps_intros]: "keeps s (snd (get_by_email e s))" "keeps s (snd (get_by_username e s))"
  by (simp_all add: get_by_email_def get_by_username_def users_by_def split: list.split)

lemma keeps_add_user [keeps_intros]: "keeps s (snd (add_user row s))"
  by (rule keeps_users) (auto simp: add_user_def Let_def case_prod_unfold intro: repo_add_ok [OF _ surjective_pairing])

lemma keeps_add_tokens [keeps_intros]:
  "keeps s (snd (add_verify row s))" "keeps s (snd (add_reset row s))" "keeps s (snd (send_mail env m s))" "keeps s (snd (add_oauth oa s))"
  by (rule keeps_same; simp add: add_verify_def add_reset_def send_mail_def add_oauth_def)+

lemma keeps_usable [keeps_intros]: "keeps s (snd (usable_token what r now s))" "keeps s (snd (user_of what u s))"
  by (simp_all add: usable_token_def user_of_def split: option.split)

lemma keeps_used [keeps_intros]:
  "keeps s (snd (on_db (\<lambda>db. db\<lparr>ad_verify := f db\<rparr>) s))" "keeps s (snd (on_db (\<lambda>db. db\<lparr>ad_reset := g db\<rparr>) s))"
  by (rule keeps_same; simp add: on_db_simp)+

lemma keeps_open_session:
  assumes g: "\<And>ls x s. keeps s (snd (g ls x s))"
  shows "keeps s (snd (then_do (create_session usr ctx now) (\<lambda>ls. then_do (issue_tokens env usr ls nonce now) (g ls)) s))"
proof -
  obtain r s1 where c: "create_session usr ctx now s = (r, s1)" by (cases "create_session usr ctx now s")
  show ?thesis
  proof (cases "tokens_ok (as_db s)")
    case False
    then show ?thesis by (simp add: keeps_def)
  next
    case True
    from create_session_keeps [OF True c] obtain ls where ok1: "tokens_ok (as_db s1)" "lasts (as_db s) (as_db s1)" "r = Inr ls"
        "empty_session (ent_id ls) (ent_id usr) (as_db s1)" by blast
    obtain r2 s2 where i: "issue_tokens env usr ls nonce now s1 = (r2, s2)" by (cases "issue_tokens env usr ls nonce now s1")
    from issue_tokens_keeps [OF ok1(1,4) i] ok1(1,2) True have k: "keeps s s2" by (auto simp: keeps_def intro: lasts_trans)
    show ?thesis
    proof (cases r2)
      case (Inl e)
      with c i ok1(3) k show ?thesis by (simp add: then_do_def)
    next
      case (Inr x)
      from keeps_trans [OF k g] show ?thesis by (simp add: then_do_def c i ok1(3) Inr)
    qed
  qed
qed

lemma keeps_issue_login [keeps_intros]: "keeps s (snd (issue_login env usr ctx action nonce now s))"
  unfolding issue_login_def by (rule keeps_bindI keeps_put_user keeps_open_session keeps_audit keeps_give)+

lemma keeps_send_verification [keeps_intros]: "keeps s (snd (send_verification env usr nonce now s))"
  unfolding send_verification_def by (intro keeps_intros)

lemma keeps_register [keeps_intros]: "keeps s (snd (register env email username password display nonce now s))"
  unfolding register_def by (intro keeps_intros)

lemma keeps_verify_email [keeps_intros]: "keeps s (snd (verify_email env token now s))"
  unfolding verify_email_def by (intro keeps_intros)

lemma keeps_login_refused [keeps_intros]: "keeps s (snd (login_refused env email u ctx now s))"
  unfolding login_refused_def by (intro keeps_intros)

lemma keeps_upgrade [keeps_intros]: "keeps s (snd (upgrade_hash env usr password nonce s))"
  unfolding upgrade_hash_def by (intro keeps_intros)

lemma keeps_login [keeps_intros]: "keeps s (snd (login env dummy email password ctx nonce now s))"
  unfolding login_def by (intro keeps_intros)

lemma keeps_logout [keeps_intros]: "keeps s (snd (logout env u refresh_token all_devices now s))"
proof -
  have "keeps s (snd ((if all_devices then then_do (revoke_all_for_user u now) (\<lambda>_. audit SESSIONS_REVOKED_ALL (Some u) None None None)
      else then_do (if truthy refresh_token
                 then (case refresh_by_hash (hash_token env (the refresh_token)) (as_db s) of
                         None \<Rightarrow> give () | Some r \<Rightarrow> revoke_session (rt_session_id r) now)
                 else give ()) (\<lambda>_. audit USER_LOGOUT (Some u) None None None)) s))"
    by (intro keeps_intros)
  then show ?thesis by (cases all_devices) (simp_all add: logout_def)
qed

lemma keeps_forgot [keeps_intros]: "keeps s (snd (forgot_password env email nonce now s))"
  unfolding forgot_password_def by (intro keeps_intros)

lemma keeps_reset [keeps_intros]: "keeps s (snd (reset_password env token new_password nonce now s))"
  unfolding reset_password_def by (intro keeps_intros)

lemma keeps_change [keeps_intros]: "keeps s (snd (change_password env usr current new nonce s))"
  unfolding change_password_def by (intro keeps_intros)

lemma keeps_oauth [keeps_intros]: "keeps s (snd (oauth_login env p ctx nonce now s))"
proof -
  have c: "keeps s (snd (create_oauth_user p nonce now s))" for s
    unfolding create_oauth_user_def Let_def by (intro keeps_intros)
  have l: "keeps s (snd (link_or_create p nonce now s))" for s
    unfolding link_or_create_def by (intro keeps_intros c)
  have u: "keeps s (snd (linked_user u p s))" for u s
    unfolding linked_user_def by (cases "repo_get u (ad_users (as_db s))") (auto intro: keeps_intros)
  show ?thesis
    unfolding oauth_login_def by (intro keeps_intros l u)
qed

text \<open>
  One request: a flow on its own arguments, with the tables rolled back when it raises.
\<close>

datatype auth_call =
    Register string string string "string option"
  | VerifyEmail string
  | Login string string request_context
  | Logout nat "string option" bool
  | Refresh string
  | ForgotPassword string
  | ResetPassword string string
  | ChangePassword user string string
  | OAuthLogin oauth_profile request_context
  | Terminate nat nat
  | TerminateAll nat

fun drop_result :: "(auth_exc + 'a) \<times> auth_state \<Rightarrow> (auth_exc + unit) \<times> auth_state" where
  "drop_result (Inl e, s) = (Inl e, s)"
| "drop_result (Inr _, s) = (Inr (), s)"

fun call :: "auth_env \<Rightarrow> string \<Rightarrow> auth_call \<Rightarrow> nonce \<Rightarrow> time \<Rightarrow> unit auth_op" where
  "call env dummy (Register email username password display) nonce now s = drop_result (register env email username password display nonce now s)"
| "call env dummy (VerifyEmail token) nonce now s = verify_email env token now s"
| "call env dummy (Login email password ctx) nonce now s = drop_result (login env dummy email password ctx nonce now s)"
| "call env dummy (Logout u refresh_token all_devices) nonce now s = logout env u refresh_token all_devices now s"
| "call env dummy (Refresh raw) nonce now s = drop_result (rotate_token env raw nonce now s)"
| "call env dummy (ForgotPassword email) nonce now s = forgot_password env email nonce now s"
| "call env dummy (ResetPassword token new_password) nonce now s = reset_password env token new_password nonce now s"
| "call env dummy (ChangePassword usr current new_password) nonce now s = change_password env usr current new_password nonce s"
| "call env dummy (OAuthLogin p ctx) nonce now s = drop_result (oauth_login env p ctx nonce now s)"
| "call env dummy (Terminate u i) nonce now s = terminate_session u i now s"
| "call env dummy (TerminateAll u) nonce now s = terminate_all u now s"

inductive auth_step :: "auth_env \<Rightarrow> string \<Rightarrow> auth_state \<Rightarrow> auth_state \<Rightarrow> bool" for env dummy where
  Request: "request (call env dummy c nonce now) s = (r, s') \<Longrightarrow> auth_step env dummy s s'"

lemma snd_drop_result [simp]: "snd (drop_result p) = snd p"
  by (cases p rule: drop_result.cases) auto

lemma keeps_call: "keeps s (snd (call env dummy c nonce now s))"
  by (cases c) (simp_all add: keeps_intros)

lemma keeps_request: "keeps s (snd (f s)) \<Longrightarrow> keeps s (snd (request f s))"
  by (auto simp: request_def split: prod.split sum.split intro: keeps_same)

lemma auth_step_keeps: "auth_step env dummy s s' \<Longrightarrow> keeps s s'"
proof (induction rule: auth_step.induct)
  case (Request c nonce now s r s')
  have "keeps s (snd (request (call env dummy c nonce now) s))" by (rule keeps_request) (rule keeps_call)
  with Request show ?case by simp
qed

lemma auth_steps_keep: "(auth_step env dummy)\<^sup>*\<^sup>* s s' \<Longrightarrow> keeps s s'"
  by (induction rule: rtranclp_induct) (auto intro: keeps_trans auth_step_keeps)

section \<open>Refresh tokens\<close>

definition fresh_auth :: "auth_state \<Rightarrow> bool" where
  "fresh_auth s \<longleftrightarrow> table_ok (ad_users (as_db s)) \<and> ad_sessions (as_db s) = [] \<and> ad_refresh (as_db s) = []"

lemma reached_ok:
  assumes "(auth_step env dummy)\<^sup>*\<^sup>* s0 s" "fresh_auth s0"
  shows "tokens_ok (as_db s)"
  using auth_steps_keep [OF assms(1)] assms(2) by (simp add: keeps_def fresh_auth_def tokens_ok_def repo_get_def)

text \<open>
  C17: in every state the service reaches, a session has at most one refresh token that still works,
  none when it was revoked, and it belongs to the user of the session.
\<close>
theorem one_live_token:
  assumes "(auth_step env dummy)\<^sup>*\<^sup>* s0 s" "fresh_auth s0"
    and "repo_get i (ad_sessions (as_db s)) = Some ls"
    and "repo_get j (ad_refresh (as_db s)) = Some t" "rt_session_id t = i" "rt_revoked_at t = None"
  shows "ss_revoked_at ls = None \<and> rt_user_id t = ss_user_id ls
    \<and> (\<forall>k u. repo_get k (ad_refresh (as_db s)) = Some u \<and> rt_session_id u = i \<and> rt_revoked_at u = None \<longrightarrow> k = j)"
proof -
  note ok = reached_ok [OF assms(1,2)]
  from token_D(2) [OF ok assms(4)] assms(3,5,6) have "ss_revoked_at ls = None" "rt_user_id t = ss_user_id ls" by auto
  moreover have "k = j" if "repo_get k (ad_refresh (as_db s)) = Some u" "rt_session_id u = i" "rt_revoked_at u = None" for k u
    using token_D(5) [OF ok assms(4) that(1)] that assms(5,6) by simp
  ultimately show ?thesis by blast
qed

lemma lasts_session:
  "lasts db db' \<Longrightarrow> repo_get i (ad_sessions db) = Some ls \<Longrightarrow> ss_revoked_at ls \<noteq> None \<Longrightarrow>
     \<exists>ls'. repo_get i (ad_sessions db') = Some ls' \<and> ss_revoked_at ls' \<noteq> None"
  unfolding lasts_def by blast

lemma lasts_token:
  assumes "lasts db db'" "repo_get k (ad_refresh db) = Some t"
  obtains t' where "repo_get k (ad_refresh db') = Some t'" "rt_token_hash t' = rt_token_hash t" "rt_session_id t' = rt_session_id t"
    "rt_revoked_at t \<noteq> None \<longrightarrow> rt_revoked_at t' \<noteq> None"
  using assms unfolding lasts_def by blast

lemma revoked_refused:
  assumes ok: "tokens_ok (as_db s)" and t: "repo_get k (ad_refresh (as_db s)) = Some t" "rt_token_hash t = hash_token env raw" "rt_revoked_at t \<noteq> None"
  shows "rotate_token env raw nonce now s = replayed t now s"
  using refresh_by_hash_get [OF ok t(1,2)] t(3) by (simp add: rotate_token_def)

lemma replayed_effect:
  fixes s :: auth_state
  assumes ls: "repo_get (rt_session_id t) (ad_sessions (as_db s)) = Some ls" and ok: "tokens_ok (as_db s)"
    and r: "replayed t now s = ((r, s') :: (auth_exc + 'a) \<times> auth_state)"
  shows "r = Inl (AuthDb (App (app_error_init UnauthorizedError (Some ''Refresh token has already been used.''))))"
    "repo_get (rt_session_id t) (ad_sessions (as_db s')) = Some (ls\<lparr>ss_revoked_at := Some now\<rparr>)"
    "\<And>k u. repo_get k (ad_refresh (as_db s')) = Some u \<Longrightarrow> rt_session_id u = rt_session_id t \<Longrightarrow> rt_revoked_at u \<noteq> None"
  using r ls session_key [OF ok ls]
  by (auto simp: replayed_def then_do_def on_db_simp revoke_for_session_def put_session_def give_def)


section \<open>Sessions that end\<close>

lemma revoke_sessions_revoked:
  assumes "tokens_ok (as_db s)" "revoke_sessions is now s = (r, s')" "i \<in> set is" "repo_get i (ad_sessions (as_db s)) = Some ls"
  shows "\<exists>ls'. repo_get i (ad_sessions (as_db s')) = Some ls' \<and> ss_revoked_at ls' \<noteq> None"
  using assms
proof (induction "is" arbitrary: s ls)
  case Nil
  then show ?case by simp
next
  case (Cons j js)
  obtain r1 s1 where s1: "revoke_session j now s = (r1, s1)" by (cases "revoke_session j now s")
  have r1: "r1 = Inr ()"
    using s1 by (auto simp: revoke_session_def then_do_def put_session_def revoke_for_session_def on_db_simp give_def split: option.splits if_splits)
  have rest: "revoke_sessions js now s1 = (r, s')" using Cons.prems(2) by (simp add: then_do_def s1 r1)
  have "keeps s s1" using keeps_revoke_session [of s j now] s1 by simp
  then have ok1: "tokens_ok (as_db s1)" "lasts (as_db s) (as_db s1)" using Cons.prems(1) by (auto simp: keeps_def)
  obtain l1 where l1: "repo_get i (ad_sessions (as_db s1)) = Some l1"
    using ok1(2) Cons.prems(4) unfolding lasts_def by blast
  show ?case
  proof (cases "i = j")
    case True
    have "ss_revoked_at l1 \<noteq> None"
      using l1 s1 Cons.prems(4) session_key [OF Cons.prems(1,4)] unfolding True
      by (auto simp: revoke_session_def then_do_def put_session_def revoke_for_session_def on_db_simp give_def split: option.splits if_splits)
    moreover have "keeps s1 s'" using keeps_revoke_sessions [of s1 js now] rest by simp
    ultimately show ?thesis using lasts_session [OF _ l1] ok1(1) by (auto simp: keeps_def)
  next
    case False
    with Cons.prems(3) show ?thesis using Cons.IH [OF ok1(1) rest _ l1] by simp
  qed
qed

lemma revoke_all_revoked:
  assumes ok: "tokens_ok (as_db s)" and r: "revoke_all_for_user u now s = (r, s')"
    and ls: "repo_get i (ad_sessions (as_db s)) = Some ls" "ss_user_id ls = u"
  shows "\<exists>ls'. repo_get i (ad_sessions (as_db s')) = Some ls' \<and> ss_revoked_at ls' \<noteq> None"
proof (cases "ss_revoked_at ls = None")
  case True
  have "ls \<in> set (all_rows (ad_sessions (as_db s)))" using rows_get ls(1) tokens_ok_tables [OF ok] by blast
  with True ls(2) have "i \<in> set (map ent_id (list_active_for_user u (as_db s)))"
    using session_key [OF ok ls(1)] by (force simp: list_active_for_user_def)
  from revoke_sessions_revoked [OF ok _ this ls(1)] r show ?thesis by (simp add: revoke_all_for_user_def)
next
  case False
  have "keeps s s'" using keeps_revoke_all [of s u now] r by simp
  with ok have "lasts (as_db s) (as_db s')" by (simp add: keeps_def)
  from lasts_session [OF this ls(1) False] show ?thesis .
qed

lemma dead_session:
  assumes ok: "tokens_ok (as_db s)" and ls: "repo_get i (ad_sessions (as_db s)) = Some ls" "ss_revoked_at ls \<noteq> None"
  shows "decode_access_token env c now = Inr (u, i) \<Longrightarrow> isl (get_current_user env (Some c) now (as_db s))"
    and "repo_get k (ad_refresh (as_db s)) = Some t \<Longrightarrow> rt_session_id t = i \<Longrightarrow> rt_token_hash t = hash_token env raw
      \<Longrightarrow> isl (fst (rotate_token env raw nonce now s))"
proof -
  show "decode_access_token env c now = Inr (u, i) \<Longrightarrow> isl (get_current_user env (Some c) now (as_db s))"
    using ls by (auto simp: get_current_user_def)
  assume t: "repo_get k (ad_refresh (as_db s)) = Some t" "rt_session_id t = i" "rt_token_hash t = hash_token env raw"
  from token_D(2) [OF ok t(1)] ls t(2) have "rt_revoked_at t \<noteq> None" by auto
  from revoked_refused [OF ok t(1,3) this] have e: "rotate_token env raw nonce now s = replayed t now s" .
  have "isl (fst (replayed t now s :: (auth_exc + issued_tokens) \<times> auth_state))"
    using ls(1) t(2) by (subst replayed_effect(1) [OF _ ok surjective_pairing]) auto
  then show "isl (fst (rotate_token env raw nonce now s))" by (simp add: e)
qed

lemma usable_token_Inr: "usable_token what ro now s = (Inr r, s') \<longleftrightarrow> s' = s \<and> ro = Some r \<and> su_used_at r = None \<and> now \<le> su_expires_at r"
  by (auto simp: usable_token_def split: option.splits)

lemma user_of_Inr: "user_of what u s = (Inr usr, s') \<longleftrightarrow> s' = s \<and> repo_get u (ad_users (as_db s)) = Some usr"
  by (auto simp: user_of_def split: option.splits)

lemma auth_lift_Inr: "auth_lift r s = (Inr x, s') \<longleftrightarrow> s' = s \<and> r = Inr x"
  by (auto simp: auth_lift_def split: sum.splits)

lemma reset_password_Inr:
  assumes "reset_password env token pw nonce now s = (Inr x, s')"
  obtains r usr h s1 s2 where "single_use_by_hash (hash_token env token) (ad_reset (as_db s)) = Some r"
    "repo_get (su_user_id r) (ad_users (as_db s)) = Some usr" "hash_password env nonce pw = Inr h"
    "s1 = s\<lparr>as_db := (as_db s)\<lparr>ad_users := repo_put (usr\<lparr>usr_password_hash := Some h\<rparr>) (ad_users (as_db s)),
       ad_reset := repo_put (r\<lparr>su_used_at := Some now\<rparr>) (ad_reset (as_db s))\<rparr>\<rparr>"
    "revoke_all_for_user (ent_id usr) now s1 = (Inr (), s2)" "snd (audit PASSWORD_RESET (Some (ent_id usr)) None None None s2) = s'"
proof -
  from assms obtain r usr h sa sb where c: "single_use_by_hash (hash_token env token) (ad_reset (as_db s)) = Some r"
      "repo_get (su_user_id r) (ad_users (as_db s)) = Some usr" "hash_password env nonce pw = Inr h"
      "put_user (usr\<lparr>usr_password_hash := Some h\<rparr>) s = (Inr (), sa)"
      "then_do (on_db (\<lambda>db. db\<lparr>ad_reset := repo_put (r\<lparr>su_used_at := Some now\<rparr>) (ad_reset db)\<rparr>))
         (\<lambda>_. then_do (revoke_all_for_user (ent_id usr) now) (\<lambda>_. audit PASSWORD_RESET (Some (ent_id usr)) None None None)) sa = (Inr x, s')"
    unfolding reset_password_def then_do_Inr usable_token_Inr user_of_Inr auth_lift_Inr by auto
  let ?sb = "sa\<lparr>as_db := (as_db sa)\<lparr>ad_reset := repo_put (r\<lparr>su_used_at := Some now\<rparr>) (ad_reset (as_db sa))\<rparr>\<rparr>"
  from c(5) have "then_do (revoke_all_for_user (ent_id usr) now) (\<lambda>_. audit PASSWORD_RESET (Some (ent_id usr)) None None None) ?sb = (Inr x, s')"
    by (simp add: then_do_def [of "on_db _"] on_db_simp)
  then obtain s2 where s2: "revoke_all_for_user (ent_id usr) now ?sb = (Inr (), s2)" "audit PASSWORD_RESET (Some (ent_id usr)) None None None s2 = (Inr x, s')"
    by (auto simp: then_do_Inr)
  from c(4) have "sa = s\<lparr>as_db := (as_db s)\<lparr>ad_users := repo_put (usr\<lparr>usr_password_hash := Some h\<rparr>) (ad_users (as_db s))\<rparr>\<rparr>"
    by (simp add: put_user_def on_db_simp)
  with that [OF c(1-3) _ s2(1)] s2(2) show thesis by simp
qed

text \<open>
  C14: resetting a password ends every session the user had: from then on, in every later state, no
  access token for one of them is accepted and none of their refresh tokens can be rotated.
\<close>
theorem reset_password_ends_sessions:
  assumes "(auth_step env dummy)\<^sup>*\<^sup>* s0 s" "fresh_auth s0"
    and "reset_password env token pw nonce now s = (Inr (), s1)"
    and "single_use_by_hash (hash_token env token) (ad_reset (as_db s)) = Some r"
    and "(auth_step env dummy)\<^sup>*\<^sup>* s1 s2"
    and "repo_get i (ad_sessions (as_db s)) = Some ls" "ss_user_id ls = su_user_id r"
  shows "(\<forall>c u. decode_access_token env c now2 = Inr (u, i) \<longrightarrow> isl (get_current_user env (Some c) now2 (as_db s2)))
    \<and> (\<forall>k t raw. repo_get k (ad_refresh (as_db s2)) = Some t \<and> rt_session_id t = i \<and> rt_token_hash t = hash_token env raw
         \<longrightarrow> isl (fst (rotate_token env raw nonce2 now2 s2)))"
proof -
  note ok = reached_ok [OF assms(1,2)]
  from assms(3) obtain usr h sa sb where usr: "repo_get (su_user_id r) (ad_users (as_db s)) = Some usr"
      and sa: "sa = s\<lparr>as_db := (as_db s)\<lparr>ad_users := repo_put (usr\<lparr>usr_password_hash := Some h\<rparr>) (ad_users (as_db s)),
         ad_reset := repo_put (r\<lparr>su_used_at := Some now\<rparr>) (ad_reset (as_db s))\<rparr>\<rparr>"
      and sb: "revoke_all_for_user (ent_id usr) now sa = (Inr (), sb)" and s1: "snd (audit PASSWORD_RESET (Some (ent_id usr)) None None None sb) = s1"
    using assms(4) by (rule_tac reset_password_Inr) auto
  have id: "ent_id usr = su_user_id r" using usr tokens_ok_tables [OF ok] repo.get_key by blast
  have "keeps s sa" by (rule keeps_users) (auto simp: sa)
  then have oka: "tokens_ok (as_db sa)" using ok by (simp add: keeps_def)
  have "repo_get i (ad_sessions (as_db sa)) = Some ls" using assms(6) by (simp add: sa)
  then obtain lb where lb: "repo_get i (ad_sessions (as_db sb)) = Some lb" "ss_revoked_at lb \<noteq> None"
    using revoke_all_revoked [OF oka sb, of i ls] assms(7) id by auto
  have "keeps sa sb" using keeps_revoke_all [of sa "ent_id usr" now] sb by simp
  moreover have "keeps sb s1" using keeps_audit [of sb] s1 by metis
  ultimately have "keeps sa s2" using auth_steps_keep [OF assms(5)] keeps_trans by blast
  then have ok2: "tokens_ok (as_db s2)" using oka by (simp add: keeps_def)
  have "keeps sb s2" using \<open>keeps sb s1\<close> auth_steps_keep [OF assms(5)] keeps_trans by blast
  moreover have "tokens_ok (as_db sb)" using \<open>keeps sa sb\<close> oka by (simp add: keeps_def)
  ultimately have "lasts (as_db sb) (as_db s2)" by (simp add: keeps_def)
  from lasts_session [OF this lb] obtain l2 where l2: "repo_get i (ad_sessions (as_db s2)) = Some l2" "ss_revoked_at l2 \<noteq> None" by blast
  show ?thesis using dead_session [OF ok2 l2] by blast
qed

section \<open>Signing in\<close>

definition jwt_ok :: "auth_env \<Rightarrow> bool" where
  \<comment> \<open>the token library decodes what it encoded until it expires\<close>
  "jwt_ok env \<longleftrightarrow> (\<forall>p now. now < jp_exp p * 1000000 \<longrightarrow> ev_jwt_decode env now (ev_jwt_encode env p) = Payload p \<and> ev_jwt_encode env p \<noteq> [])"

lemma parse_id_digits [simp]: "parse_id (nat_digits n) = Some n"
  using nat_digits_all [of n] by (simp add: parse_id_def digits_to_nat_digits)

lemma decode_created:
  assumes "jwt_ok env" "now2 < ((now + minutes (ev_access_minutes env)) div 1000000) * 1000000"
  shows "decode_access_token env (create_access_token env u i nonce now) now2 = Inr (u, i)"
  using assms by (simp add: jwt_ok_def create_access_token_def decode_access_token_def)

lemma issue_login_Inr:
  assumes "issue_login env usr ctx action nonce now s = (Inr issued, s')"
  shows "\<exists>ls. repo_get (ent_id ls) (ad_sessions (as_db s')) = Some ls \<and> ss_user_id ls = ent_id usr \<and> ss_revoked_at ls = None
     \<and> repo_get (ent_id ls) (ad_sessions (as_db s)) = None
     \<and> ad_users (as_db s') = repo_put (usr\<lparr>usr_last_login := Some now\<rparr>) (ad_users (as_db s))
     \<and> it_access_token issued = create_access_token env (ent_id usr) (ent_id ls) nonce now \<and> it_refresh_token issued = nc_token nonce
     \<and> refresh_by_hash (hash_token env (nc_token nonce)) (as_db s) = None
     \<and> ad_refresh (as_db s') = snd (repo_add (new_refresh env (ent_id usr) (ent_id ls) nonce now) (ad_refresh (as_db s)))"
proof -
  from assms obtain s1 ls s2 s3 where c: "put_user (usr\<lparr>usr_last_login := Some now\<rparr>) s = (Inr (), s1)" "create_session usr ctx now s1 = (Inr ls, s2)"
      "issue_tokens env usr ls nonce now s2 = (Inr issued, s3)"
      and s': "as_db s' = (as_db s3)\<lparr>ad_audit := ad_audit (as_db s')\<rparr>"
    unfolding issue_login_def then_do_Inr by (auto simp: give_def audit_def on_db_simp)
  have s1: "s1 = s\<lparr>as_db := (as_db s)\<lparr>ad_users := repo_put (usr\<lparr>usr_last_login := Some now\<rparr>) (ad_users (as_db s))\<rparr>\<rparr>"
    using c(1) by (simp add: put_user_def on_db_simp)
  let ?row = "\<lparr>ent_id = 0, created_at = now, deleted_at = None, ss_user_id = ent_id usr,
            ss_ip_address = rc_ip_address ctx, ss_user_agent = rc_user_agent ctx, ss_last_activity = Some now, ss_revoked_at = None\<rparr>"
  obtain l t where a: "repo_add ?row (ad_sessions (as_db s)) = (l, t)" by (cases "repo_add ?row (ad_sessions (as_db s))")
  have ls: "ls = l" "s2 = s1\<lparr>as_db := (as_db s1)\<lparr>ad_sessions := t\<rparr>\<rparr>" using c(2) a by (simp_all add: create_session_def s1)
  note n = repo_add_new [OF a]
  have fresh: "refresh_by_hash (hash_token env (nc_token nonce)) (as_db s2) = None" using c(3) by (auto simp: issue_tokens_cases split: if_splits)
  with c(3) have "issued = \<lparr>it_access_token = create_access_token env (ent_id usr) (ent_id ls) nonce now, it_refresh_token = nc_token nonce,
                 it_expires_in = ev_access_minutes env * 60\<rparr>"
      "ad_sessions (as_db s3) = t" "ad_users (as_db s3) = repo_put (usr\<lparr>usr_last_login := Some now\<rparr>) (ad_users (as_db s))"
      "ad_refresh (as_db s3) = snd (repo_add (new_refresh env (ent_id usr) (ent_id ls) nonce now) (ad_refresh (as_db s)))"
    by (auto simp: issue_tokens_cases ls(2) s1)
  moreover have "ad_sessions (as_db s') = ad_sessions (as_db s3)" "ad_users (as_db s') = ad_users (as_db s3)" "ad_refresh (as_db s') = ad_refresh (as_db s3)"
    by (subst s', simp)+
  moreover have "refresh_by_hash (hash_token env (nc_token nonce)) (as_db s) = None" using fresh by (simp add: refresh_by_hash_def ls(2) s1)
  moreover have "repo_get (ent_id ls) t = Some ls" "repo_get (ent_id ls) (ad_sessions (as_db s)) = None" "ss_user_id ls = ent_id usr" "ss_revoked_at ls = None"
    using n(1,3,4) by (simp_all add: ls(1))
  ultimately show ?thesis by (intro exI [of _ ls]) simp
qed

lemma upgrade_hash_Inr:
  "upgrade_hash env u password nonce s = (Inr usr, s') \<Longrightarrow> s' = s \<and> ent_id usr = ent_id u \<and> usr_email usr = usr_email u
     \<and> usr_is_active usr = usr_is_active u \<and> deleted_at usr = deleted_at u"
  by (auto simp: upgrade_hash_def then_do_Inr auth_lift_Inr give_def split: if_splits)

lemma users_by_Inr:
  "users_by column v s = (Inr (Some u), s') \<Longrightarrow> s' = s \<and> u \<in> set (base_query False (ad_users (as_db s))) \<and> lower (column u) = lower v"
proof -
  assume a: "users_by column v s = (Inr (Some u), s')"
  then have "filter (\<lambda>u. lower (column u) = lower v) (base_query False (ad_users (as_db s))) = [u]" "s' = s"
    by (auto simp: users_by_def split: list.splits)
  then have "u \<in> set (filter (\<lambda>u. lower (column u) = lower v) (base_query False (ad_users (as_db s))))" "s' = s" by auto
  then show ?thesis by auto
qed

lemma login_Inr:
  assumes "login env dummy email password ctx nonce now s = (Inr issued, s')"
  obtains u usr s1 where "u \<in> set (base_query False (ad_users (as_db s)))" "lower (usr_email u) = lower email" "usr_is_active u"
    "truthy (usr_password_hash u)" "verify_password env password (the (usr_password_hash u))" "ent_id usr = ent_id u" "usr_email usr = usr_email u"
    "usr_is_active usr" "deleted_at usr = deleted_at u" "as_db s1 = as_db s" "issue_login env usr ctx USER_LOGIN nonce now s1 = (Inr issued, s')"
proof -
  have check: "guard_check env email now s = (Inr (), s)" and rest: "then_do (get_by_email email) (\<lambda>u.
     if u = None \<or> \<not> login_valid env dummy password u \<or> \<not> truthy (usr_password_hash (the u))
     then login_refused env email u ctx now
     else if \<not> usr_is_active (the u) then auth_error UnauthorizedError ''This account is disabled.''
     else then_do (upgrade_hash env (the u) password nonce) (\<lambda>usr.
     then_do (guard_reset env email) (\<lambda>_.
     issue_login env usr ctx USER_LOGIN nonce now))) s = (Inr issued, s')"
    using assms unfolding login_def then_do_def [of "guard_check _ _ _"] by (auto simp: guard_check_def split: if_splits)
  from rest obtain uo s0 where u: "get_by_email email s = (Inr uo, s0)" and k: "(if uo = None \<or> \<not> login_valid env dummy password uo \<or> \<not> truthy (usr_password_hash (the uo))
     then login_refused env email uo ctx now
     else if \<not> usr_is_active (the uo) then auth_error UnauthorizedError ''This account is disabled.''
     else then_do (upgrade_hash env (the uo) password nonce) (\<lambda>usr.
     then_do (guard_reset env email) (\<lambda>_. issue_login env usr ctx USER_LOGIN nonce now))) s0 = (Inr issued, s')"
    unfolding then_do_Inr [of "get_by_email email"] by blast
  have never: "login_refused env email uo ctx now s0 \<noteq> (Inr issued, s')"
    by (auto simp: login_refused_def then_do_Inr)
  from k never obtain u where uo: "uo = Some u" "login_valid env dummy password (Some u)" "truthy (usr_password_hash u)" "usr_is_active u"
      and k2: "then_do (upgrade_hash env u password nonce) (\<lambda>usr. then_do (guard_reset env email) (\<lambda>_. issue_login env usr ctx USER_LOGIN nonce now)) s0 = (Inr issued, s')"
    by (auto split: if_splits)
  from users_by_Inr u uo(1) have m: "s0 = s" "u \<in> set (base_query False (ad_users (as_db s)))" "lower (usr_email u) = lower email"
    unfolding get_by_email_def by blast+
  from k2 obtain usr s1 s2 where a: "upgrade_hash env u password nonce s0 = (Inr usr, s1)" and g: "guard_reset env email s1 = (Inr (), s2)"
      and i: "issue_login env usr ctx USER_LOGIN nonce now s2 = (Inr issued, s')"
    by (auto simp: then_do_Inr)
  from upgrade_hash_Inr [OF a] m(1) have e: "s1 = s" "ent_id usr = ent_id u" "usr_email usr = usr_email u" "usr_is_active usr = usr_is_active u" "deleted_at usr = deleted_at u"
    by auto
  have "as_db s2 = as_db s" using g e(1) by (auto simp: guard_reset_def split: if_splits)
  with that [of u usr s2] m(2,3) uo(2-4) e(2-5) i show thesis by (auto simp: login_valid_def)
qed

lemma rotate_succeeds:
  assumes "refresh_by_hash (hash_token env raw) (as_db s) = Some t" "rt_revoked_at t = None" "rt_rotated_to t = None" "now \<le> rt_expires_at t"
    and "repo_get (rt_session_id t) (ad_sessions (as_db s)) = Some ls" "ss_revoked_at ls = None"
    and "repo_get (rt_user_id t) (ad_users (as_db s)) = Some usr" "usr_is_active usr"
    and "refresh_by_hash (hash_token env (nc_token nonce)) (as_db s) = None"
  shows "\<not> isl (fst (rotate_token env raw nonce now s))"
  using assms by (simp add: rotate_token_def then_do_def active_session_def active_user_def issue_tokens_cases succeed_token_def
      put_refresh_def put_session_def on_db_simp give_def Let_def)

text \<open>
  C15: a login that succeeds was made with the password of the active account of that address, and
  what it hands out works: the access token names that user until it expires and the refresh token
  can be rotated until it expires.
\<close>
theorem login_grants_access:
  assumes "(auth_step env dummy)\<^sup>*\<^sup>* s0 s" "fresh_auth s0"
    and "login env dummy email password ctx nonce now s = (Inr issued, s')" and "jwt_ok env"
    and "now2 < ((now + minutes (ev_access_minutes env)) div 1000000) * 1000000"
    and "now3 \<le> now + days (ev_refresh_days env)" "refresh_by_hash (hash_token env (nc_token nonce3)) (as_db s') = None"
  shows "\<exists>u. u \<in> set (base_query False (ad_users (as_db s))) \<and> lower (usr_email u) = lower email \<and> usr_is_active u
    \<and> verify_password env password (the (usr_password_hash u))
    \<and> (\<exists>usr. get_current_user env (Some (it_access_token issued)) now2 (as_db s') = Inr usr \<and> ent_id usr = ent_id u \<and> usr_email usr = usr_email u)
    \<and> \<not> isl (fst (rotate_token env (it_refresh_token issued) nonce3 now3 s'))"
proof -
  note ok = reached_ok [OF assms(1,2)]
  from assms(3) obtain u usr s1 where u: "u \<in> set (base_query False (ad_users (as_db s)))" "lower (usr_email u) = lower email" "usr_is_active u"
      "verify_password env password (the (usr_password_hash u))" and usr: "ent_id usr = ent_id u" "usr_email usr = usr_email u"
      "usr_is_active usr" "deleted_at usr = deleted_at u" and s1: "as_db s1 = as_db s" "issue_login env usr ctx USER_LOGIN nonce now s1 = (Inr issued, s')"
    by (rule login_Inr) (rule that)
  from issue_login_Inr [OF s1(2)] obtain ls where ls: "repo_get (ent_id ls) (ad_sessions (as_db s')) = Some ls" "ss_user_id ls = ent_id usr" "ss_revoked_at ls = None"
      and users: "ad_users (as_db s') = repo_put (usr\<lparr>usr_last_login := Some now\<rparr>) (ad_users (as_db s))"
      and tokens: "it_access_token issued = create_access_token env (ent_id usr) (ent_id ls) nonce now" "it_refresh_token issued = nc_token nonce"
      and refresh: "ad_refresh (as_db s') = snd (repo_add (new_refresh env (ent_id usr) (ent_id ls) nonce now) (ad_refresh (as_db s)))"
    using s1(1) by auto
  have live: "deleted_at u = None" using u(1) base_query_mem tokens_ok_tables [OF ok] by blast
  have at: "repo_get (ent_id usr) (ad_users (as_db s')) = Some (usr\<lparr>usr_last_login := Some now\<rparr>)" by (simp add: users)
  have "it_access_token issued \<noteq> []"
    using assms(4,5) by (simp add: tokens(1) create_access_token_def jwt_ok_def)
  then have "get_current_user env (Some (it_access_token issued)) now2 (as_db s') = Inr (usr\<lparr>usr_last_login := Some now\<rparr>)"
    using decode_created [OF assms(4,5)] ls at usr live by (simp add: get_current_user_def tokens(1) truthy_def)
  moreover have "\<not> isl (fst (rotate_token env (nc_token nonce) nonce3 now3 s'))"
  proof (rule rotate_succeeds)
    let ?new = "(new_refresh env (ent_id usr) (ent_id ls) nonce now)\<lparr>ent_id := new_id (ad_refresh (as_db s))\<rparr>"
    have "keeps s s'" using keeps_login [of s env dummy email password ctx nonce now] assms(3) by simp
    then have ok': "tokens_ok (as_db s')" using ok by (simp add: keeps_def)
    have "repo_get (new_id (ad_refresh (as_db s))) (ad_refresh (as_db s')) = Some ?new"
      by (simp add: refresh repo_add_def repo_get_def Let_def)
    from refresh_by_hash_get [OF ok' this] show "refresh_by_hash (hash_token env (nc_token nonce)) (as_db s') = Some ?new"
      by (simp add: new_refresh_def)
    show "repo_get (rt_session_id ?new) (ad_sessions (as_db s')) = Some ls" using ls by (simp add: new_refresh_def)
    show "repo_get (rt_user_id ?new) (ad_users (as_db s')) = Some (usr\<lparr>usr_last_login := Some now\<rparr>)" using at by (simp add: new_refresh_def)
  qed (use ls usr assms(6,7) in \<open>simp_all add: new_refresh_def\<close>)
  ultimately show ?thesis using u usr by (intro exI [of _ u]) (simp add: tokens(2))
qed

section \<open>Locking out\<close>

text \<open>
  A run of failed logins for one address, each in its own request, at the given times.
\<close>

definition bad_credentials :: "auth_exc" where
  "bad_credentials = AuthDb (App (app_error_init UnauthorizedError (Some ''Invalid email or password.'')))"

inductive failed_logins :: "auth_env \<Rightarrow> string \<Rightarrow> string \<Rightarrow> time list \<Rightarrow> auth_state \<Rightarrow> auth_state \<Rightarrow> bool" for env dummy email where
  None: "failed_logins env dummy email [] s s"
| Next: "failed_logins env dummy email ts s s1 \<Longrightarrow> request (login env dummy email password ctx nonce now) s1 = (Inl bad_credentials, s2)
     \<Longrightarrow> failed_logins env dummy email (ts @ [now]) s s2"

lemma login_failed_guard:
  assumes "request (login env dummy email password ctx nonce now) s = (Inl bad_credentials, s')"
  shows "as_guard s' = as_guard (snd (guard_failure env email now s))"
proof -
  obtain s1 where l: "login env dummy email password ctx nonce now s = (Inl bad_credentials, s1)" and g: "as_guard s' = as_guard s1"
    using assms by (auto simp: request_def split: prod.splits sum.splits)
  have refused: "as_guard (snd (login_refused env email u ctx now s :: (auth_exc + issued_tokens) \<times> auth_state)) = as_guard (snd (guard_failure env email now s))" for u s
    by (simp add: login_refused_def then_do_def guard_failure_def audit_def on_db_simp give_def Let_def split: option.split)
  have other: "fst (issue_login env usr ctx USER_LOGIN nonce now t) \<noteq> Inl bad_credentials" for usr t
    by (auto simp: issue_login_def then_do_def put_user_def on_db_simp create_session_def issue_tokens_cases audit_def give_def bad_credentials_def
        Let_def case_prod_unfold)
  have upgrade: "fst (upgrade_hash env usr password nonce t) \<noteq> Inl bad_credentials" for usr t
    by (auto simp: upgrade_hash_def then_do_def auth_lift_def hash_password_def validate_password_policy_def give_def bad_credentials_def app_error_init_def)
  have check: "guard_check env email now s = (Inr (), s)"
    using l by (auto simp: login_def then_do_def guard_check_def bad_credentials_def app_error_init_def split: if_splits)
  obtain r t where u: "get_by_email email s = (r, t)" by (cases "get_by_email email s")
  have t: "t = s" using u by (auto simp: get_by_email_def users_by_def split: list.splits)
  have "r \<noteq> Inl bad_credentials" using u by (auto simp: get_by_email_def users_by_def bad_credentials_def split: list.splits)
  then obtain uo where r: "r = Inr uo" using l check u by (cases r) (auto simp: login_def then_do_def)
  have l2: "(if uo = None \<or> \<not> login_valid env dummy password uo \<or> \<not> truthy (usr_password_hash (the uo))
     then login_refused env email uo ctx now
     else if \<not> usr_is_active (the uo) then auth_error UnauthorizedError ''This account is disabled.''
     else then_do (upgrade_hash env (the uo) password nonce) (\<lambda>usr.
     then_do (guard_reset env email) (\<lambda>_. issue_login env usr ctx USER_LOGIN nonce now))) s = (Inl bad_credentials, s1)"
    using l check u by (simp add: login_def then_do_def [of "guard_check _ _ _"] then_do_def [of "get_by_email _"] t r)
  show ?thesis
  proof (cases "uo = None \<or> \<not> login_valid env dummy password uo \<or> \<not> truthy (usr_password_hash (the uo))")
    case True
    with l2 have "login_refused env email uo ctx now s = (Inl bad_credentials :: auth_exc + issued_tokens, s1)" by simp
    with refused [of uo s] g show ?thesis by simp
  next
    case valid: False
    show ?thesis
    proof (cases "usr_is_active (the uo)")
      case False
      with l2 valid show ?thesis by (auto simp: bad_credentials_def app_error_init_def)
    next
      case True
      obtain u0 where uo: "uo = Some u0" using valid by (cases uo) auto
      from l2 valid True have "then_do (upgrade_hash env (the uo) password nonce) (\<lambda>usr.
         then_do (guard_reset env email) (\<lambda>_. issue_login env usr ctx USER_LOGIN nonce now)) s = (Inl bad_credentials, s1)"
        by (simp add: uo)
      then show ?thesis using other upgrade
        by (auto simp: then_do_def guard_reset_def split: prod.splits sum.splits if_splits) (metis fst_conv)+
    qed
  qed
qed

lemma failed_logins_count:
  assumes "failed_logins env dummy email ts s s'" "guard_on env" "ts \<noteq> []" "guard_attempts email (hd ts) s = None"
    and "\<And>t. t \<in> set ts \<Longrightarrow> t < hd ts + seconds (ev_lockout_seconds env)"
  shows "dict_get (as_guard s') (guard_key email) = Some (int (length ts), Some (hd ts + seconds (ev_lockout_seconds env)))"
  using assms
proof (induction rule: failed_logins.induct)
  case (None s)
  then show ?case by simp
next
  case (Next ts s s1 password ctx nonce now s2)
  note g = login_failed_guard [OF Next.hyps(2)]
  show ?case
  proof (cases "ts = []")
    case True
    with Next.hyps(1) have "s1 = s" by (auto elim: failed_logins.cases)
    with Next.prems True show ?thesis by (simp add: g guard_failure_def)
  next
    case False
    then have hd: "hd (ts @ [now]) = hd ts" by simp
    have ih: "dict_get (as_guard s1) (guard_key email) = Some (int (length ts), Some (hd ts + seconds (ev_lockout_seconds env)))"
      using Next.IH [OF Next.prems(1) False] Next.prems(3,4) unfolding hd by simp
    have "now < hd ts + seconds (ev_lockout_seconds env)" using Next.prems(4) [of now] unfolding hd by simp
    then have "guard_attempts email now s1 = Some (int (length ts))" by (simp add: guard_attempts_def ih)
    then show ?thesis using Next.prems(1) False unfolding hd by (simp add: g guard_failure_def ih)
  qed
qed

text \<open>
  C16: as many failed logins as the limit, all within the lockout window of the first, lock the
  address: until the window has passed every login for it, with whatever password, is refused
  before the password is looked at, and nothing changes; then logins are tried again.
\<close>
theorem lockout:
  assumes "failed_logins env dummy email ts s s'" "guard_on env" "int (length ts) = ev_max_attempts env" "ts \<noteq> []"
    and "guard_attempts email (hd ts) s = None"
    and "\<forall>t\<in>set ts. t < hd ts + seconds (ev_lockout_seconds env)"
  shows "(now < hd ts + seconds (ev_lockout_seconds env) \<longrightarrow> login env dummy email password ctx nonce now s'
        = (Inl (AuthDb (App (app_error_init UnauthorizedError (Some ''Too many failed login attempts. Try again later.'')))), s'))
    \<and> (hd ts + seconds (ev_lockout_seconds env) \<le> now \<longrightarrow> guard_check env email now s' = (Inr (), s'))"
proof -
  have "dict_get (as_guard s') (guard_key email) = Some (int (length ts), Some (hd ts + seconds (ev_lockout_seconds env)))"
    using failed_logins_count [OF assms(1,2,4,5)] assms(6) by blast
  then show ?thesis
    using assms(2,3) by (auto simp: login_def then_do_def guard_check_def guard_attempts_def)
qed

section \<open>Where the flows and their documents part\<close>

lemma special_lower: "list_ex special p \<Longrightarrow> list_ex special (lower p)"
proof -
  have "special c \<Longrightarrow> special (lower_char c)" for c
    by (auto simp: special_def upper_letter_def lower_letter_def is_digit_def lower_char_def Let_def)
  then show "list_ex special p \<Longrightarrow> list_ex special (lower p)" by (auto simp: lower_def list_ex_iff)
qed

text \<open>
  The list of common passwords decides nothing: none of them has a special character, so a password
  that is one of them up to case already fails that rule, and the policy accepts exactly the lengths
  and the four character classes.
\<close>
theorem common_passwords_decide_nothing:
  "validate_password_policy p = Inr () \<longleftrightarrow> MIN_LENGTH \<le> length p \<and> length p \<le> MAX_LENGTH
     \<and> list_ex upper_letter p \<and> list_ex lower_letter p \<and> list_ex is_digit p \<and> list_ex special p"
proof -
  have "list_all (\<lambda>q. \<not> list_ex special q) COMMON_PASSWORDS" by code_simp
  then have "list_ex special p \<Longrightarrow> lower p \<notin> set COMMON_PASSWORDS" using special_lower [of p] by (auto simp: list_all_iff)
  then show ?thesis by (auto simp: validate_password_policy_def password_problems_def)
qed

text \<open>
  A replayed token revokes its session only inside the operation: the request that reports the replay
  rolls its tables back, so the session and every token of it stay as they were.
\<close>
theorem replay_is_rolled_back:
  assumes "refresh_by_hash (hash_token env raw) (as_db s) = Some t" "rt_revoked_at t \<noteq> None"
    and "request (rotate_token env raw nonce now) s = (r, s')"
  shows "isl r \<and> as_db s' = as_db s"
proof -
  have "isl (fst (replayed t now s :: (auth_exc + issued_tokens) \<times> auth_state))"
    by (auto simp: replayed_def then_do_def on_db_simp revoke_for_session_def put_session_def give_def split: option.split)
  then have "isl (fst (rotate_token env raw nonce now s))" using assms(1,2) by (simp add: rotate_token_def)
  with assms(3) show ?thesis by (auto simp: request_def split: prod.splits sum.splits)
qed

text \<open>
  Signing in through a provider does not look at whether the account is active: a disabled user is
  handed a session and tokens.
\<close>
theorem oauth_signs_disabled_user_in:
  assumes "by_provider (op_provider p) (op_account_id p) (as_db s) = Some link"
    and "repo_get (oa_user_id link) (ad_users (as_db s)) = Some usr" "\<not> usr_is_active usr"
    and "refresh_by_hash (hash_token env (nc_token nonce)) (as_db s) = None"
  shows "\<not> isl (fst (oauth_login env p ctx nonce now s))"
  using assms
  by (simp add: oauth_login_def linked_user_def then_do_def put_user_def on_db_simp give_def issue_login_def create_session_def
      issue_tokens_cases audit_def Let_def case_prod_unfold refresh_by_hash_def)

text \<open>
  An account that someone one_account with an address they never verified is taken over, not replaced,
  when the owner of the address signs in through a provider: the password of whoever one_account it
  still opens it afterwards.
\<close>
theorem oauth_keeps_unverified_password:
  assumes "by_provider (op_provider p) (op_account_id p) (as_db s) = None"
    and "op_email p = Some e" "e \<noteq> []" "get_by_email e s = (Inr (Some usr), s)" "\<not> usr_is_verified usr"
    and "link_or_create p nonce now s = (Inr usr', s')"
  shows "ent_id usr' = ent_id usr \<and> usr_password_hash usr' = usr_password_hash usr \<and> \<not> usr_is_verified usr'
    \<and> repo_get (ent_id usr) (ad_users (as_db s')) = Some usr'"
  using assms
  by (auto simp: link_or_create_def then_do_def put_user_def on_db_simp give_def add_oauth_def sync_profile_def Let_def truthy_def split: if_splits)

section \<open>Witnesses\<close>

definition enc :: "string \<Rightarrow> string" where
  \<comment> \<open>a text that can be read back in front of any other\<close>
  "enc x = concat (map (\<lambda>c. [CHR ''1'', c]) x) @ [CHR ''0'']"

fun dec :: "string \<Rightarrow> string \<times> string" where
  "dec (m # c # r) = (if m = CHR ''1'' then (case dec r of (x, r') \<Rightarrow> (c # x, r')) else ([], c # r))"
| "dec _ = ([], [])"

lemma dec_enc: "dec (enc x @ r) = (x, r)"
  by (induction x) (cases r; simp add: enc_def)+

definition sample_encode :: "access_payload \<Rightarrow> string" where
  "sample_encode p = enc (jp_sub p) @ enc (jp_sid p) @ enc (jp_jti p) @ enc ((if jp_exp p < 0 then ''-'' else ''+'') @ replicate (nat \<bar>jp_exp p\<bar>) (CHR ''1''))
     @ enc (case jp_type p of None \<Rightarrow> [] | Some t \<Rightarrow> CHR ''!'' # t)"

definition sample_decode :: "time \<Rightarrow> string \<Rightarrow> jwt_answer" where
  "sample_decode now s = (case dec s of (sub, s1) \<Rightarrow> case dec s1 of (sid, s2) \<Rightarrow> case dec s2 of (jti, s3) \<Rightarrow> case dec s3 of (ex, s4) \<Rightarrow>
     let expiry = (if take 1 ex = ''-'' then - 1 else 1) * int (length (drop 1 ex)) in
     if expiry * 1000000 \<le> now then Expired
     else Payload \<lparr>jp_sub = sub, jp_sid = sid, jp_jti = jti, jp_exp = expiry,
       jp_type = (case fst (dec s4) of [] \<Rightarrow> None | _ # t \<Rightarrow> Some t)\<rparr>)"

definition sample_env :: auth_env where
  "sample_env = \<lparr>ev_sha = (\<lambda>x. x), ev_argon_hash = (\<lambda>salt p. salt @ p), ev_argon_verify = (\<lambda>h p. if h = ''s'' @ p then Verified else Mismatch),
     ev_argon_outdated = (\<lambda>_. Some False), ev_jwt_encode = sample_encode, ev_jwt_decode = sample_decode, ev_mail_ok = (\<lambda>_. True),
     ev_redis_ok = True, ev_rate_limit_enabled = True, ev_access_minutes = 1, ev_refresh_days = 30, ev_verification_hours = 24,
     ev_reset_hours = 2, ev_max_attempts = 2, ev_lockout_seconds = 900\<rparr>"

lemma sample_jwt_ok: "jwt_ok sample_env"
proof -
  have "sample_decode now (sample_encode p) = Payload p" if "now < jp_exp p * 1000000" for p now
  proof -
    obtain sub sid jti ex ty where p: "p = \<lparr>jp_sub = sub, jp_sid = sid, jp_jti = jti, jp_exp = ex, jp_type = ty\<rparr>" by (cases p) auto
    have "fst (dec (enc x)) = x" for x using dec_enc [of x "[]"] by simp
    with that show ?thesis
      by (auto simp: p sample_decode_def sample_encode_def dec_enc Let_def split: option.split)
  qed
  moreover have "sample_encode p \<noteq> []" for p by (simp add: sample_encode_def enc_def)
  ultimately show ?thesis by (simp add: jwt_ok_def sample_env_def)
qed

definition nn :: "nat \<Rightarrow> nonce" where
  "nn i = \<lparr>nc_token = ''t'' @ nat_digits i, nc_jti = 1, nc_salt = ''s'', nc_suffix = ''x''\<rparr>"

definition sample_ctx :: request_context where "sample_ctx = \<lparr>rc_ip_address = None, rc_user_agent = None\<rparr>"

definition one_account :: auth_state where
  "one_account = \<lparr>as_db = \<lparr>ad_users = [(0, \<lparr>ent_id = 0, created_at = 0, deleted_at = None, usr_email = ''A'', usr_username = ''a'',
       usr_display_name = None, usr_password_hash = Some ''sp'', usr_avatar_url = None, usr_is_active = True, usr_is_verified = False,
       usr_is_superuser = False, usr_last_login = None\<rparr>)], ad_sessions = [], ad_refresh = [], ad_verify = [], ad_reset = [], ad_oauth = [], ad_audit = []\<rparr>,
     as_mail = [], as_guard = []\<rparr>"

definition after_call :: "auth_call \<Rightarrow> nat \<Rightarrow> time \<Rightarrow> auth_state \<Rightarrow> auth_state" where
  "after_call c i now s = snd (request (call sample_env ''dummy'' c (nn i) now) s)"

definition signed_in :: auth_state where
  "signed_in = after_call (Login ''a'' ''p'' sample_ctx) 2 1 one_account"

definition refreshed :: auth_state where
  "refreshed = after_call (Refresh ''t2'') 3 2 signed_in"

lemma after_step: "auth_step sample_env ''dummy'' s (after_call c i now s)"
  unfolding after_call_def by (rule auth_step.Request [OF surjective_pairing])

lemma reach_after:
  "(auth_step sample_env ''dummy'')\<^sup>*\<^sup>* s0 s \<Longrightarrow> (auth_step sample_env ''dummy'')\<^sup>*\<^sup>* s0 (after_call c i now s)"
  by (rule rtranclp.rtrancl_into_rtrancl) (assumption, rule after_step)

lemma account_reach:
  "(auth_step sample_env ''dummy'')\<^sup>*\<^sup>* one_account signed_in"
  "(auth_step sample_env ''dummy'')\<^sup>*\<^sup>* one_account refreshed"
  unfolding refreshed_def signed_in_def by (intro reach_after rtranclp.rtrancl_refl)+

lemma account_fresh: "fresh_auth one_account"
  by (simp add: fresh_auth_def one_account_def table_ok_def dict_ok_def)

lemma sample_texts:
  "lower ''a'' = ''a''" "lower ''A'' = ''a''" "password_problems ''Aa1!Aa1!Aa'' = []"
  "nat_digits 0 = ''0''" "nat_digits 1 = ''1''" "nat_digits 2 = ''2''" "nat_digits 3 = ''3''" "nat_digits 4 = ''4''" "nat_digits 5 = ''5''"
  "nat_digits 6 = ''6''" "nat_digits 7 = ''7''" "nat_digits 8 = ''8''"
  by code_simp+

lemmas sample_simps = sample_texts new_id_def truthy_def sample_env_def nn_def sample_ctx_def one_account_def after_call_def call.simps drop_result.simps request_def
  then_do_eval give_def change_def on_db_def auth_lift_def base_query_def repo_add_def repo_put_def repo_get_def Let_def
  guard_check_def guard_failure_def guard_reset_def guard_on_def guard_attempts_def guard_key_def
  get_by_email_def get_by_username_def users_by_def put_user_def create_session_def audit_def audit_row_def
  add_refresh_def refresh_by_hash_def row_by_def all_rows_def hash_token_def create_access_token_def issue_tokens_def issue_login_def
  login_def login_valid_def login_refused_def verify_password_def upgrade_hash_def needs_rehash_def
  rotate_token_def active_session_def active_user_def succeed_token_def put_refresh_def put_session_def replayed_def
  revoke_for_session_def revoke_tokens_def map_rows_def revoke_session_def revoke_all_for_user_def list_active_for_user_def
  forgot_password_def reset_password_def add_reset_def single_use_row_def single_use_by_hash_def usable_token_def user_of_def
  send_mail_def hash_password_def validate_password_policy_def bad_credentials_def

lemma sample_rows:
  "(case repo_get 0 (ad_sessions (as_db refreshed)) of Some ls \<Rightarrow> ss_user_id ls = 0 | None \<Rightarrow> False)"
  "(case repo_get 1 (ad_refresh (as_db refreshed)) of Some t \<Rightarrow> rt_session_id t = 0 \<and> rt_revoked_at t = None | None \<Rightarrow> False)"
  by (simp_all add: refreshed_def signed_in_def sample_simps cong: then_do_freeze)

theorem one_live_token_witness:
  "\<exists>ls t. repo_get 0 (ad_sessions (as_db refreshed)) = Some ls \<and> repo_get 1 (ad_refresh (as_db refreshed)) = Some t
     \<and> rt_revoked_at t = None \<and> ss_revoked_at ls = None \<and> rt_user_id t = ss_user_id ls"
proof -
  obtain ls t where r: "repo_get 0 (ad_sessions (as_db refreshed)) = Some ls" "repo_get 1 (ad_refresh (as_db refreshed)) = Some t"
      "rt_session_id t = 0" "rt_revoked_at t = None"
    using sample_rows by (auto split: option.splits)
  from one_live_token [OF account_reach(2) account_fresh r] r show ?thesis by blast
qed


definition forgotten :: auth_state where
  "forgotten = after_call (ForgotPassword ''a'') 6 5 signed_in"

theorem reset_password_ends_sessions_witness:
  "isl (fst (rotate_token sample_env ''t2'' (nn 8) 7 (snd (reset_password sample_env ''t6'' ''Aa1!Aa1!Aa'' (nn 7) 6 forgotten))))"
proof -
  have reach: "(auth_step sample_env ''dummy'')\<^sup>*\<^sup>* one_account forgotten"
    unfolding forgotten_def by (rule reach_after [OF account_reach(1)])
  let ?s1 = "snd (reset_password sample_env ''t6'' ''Aa1!Aa1!Aa'' (nn 7) 6 forgotten)"
  have c: "fst (reset_password sample_env ''t6'' ''Aa1!Aa1!Aa'' (nn 7) 6 forgotten) = Inr ()"
    "(case single_use_by_hash (hash_token sample_env ''t6'') (ad_reset (as_db forgotten)) of Some r \<Rightarrow> su_user_id r = 0 | None \<Rightarrow> False)"
    "(case repo_get 0 (ad_sessions (as_db forgotten)) of Some ls \<Rightarrow> ss_user_id ls = 0 | None \<Rightarrow> False)"
    "(case repo_get 0 (ad_refresh (as_db ?s1)) of Some t \<Rightarrow> rt_session_id t = 0 \<and> rt_token_hash t = hash_token sample_env ''t2'' | None \<Rightarrow> False)"
    by (simp_all add: forgotten_def signed_in_def sample_simps cong: then_do_freeze)
  have e: "reset_password sample_env ''t6'' ''Aa1!Aa1!Aa'' (nn 7) 6 forgotten = (Inr (), ?s1)" using c(1) by (metis prod.collapse)
  from c(2-4) obtain r ls t where r: "single_use_by_hash (hash_token sample_env ''t6'') (ad_reset (as_db forgotten)) = Some r" "su_user_id r = 0"
      and ls: "repo_get 0 (ad_sessions (as_db forgotten)) = Some ls" "ss_user_id ls = 0"
      and t: "repo_get 0 (ad_refresh (as_db ?s1)) = Some t" "rt_session_id t = 0" "rt_token_hash t = hash_token sample_env ''t2''"
    by (auto split: option.splits)
  have "ss_user_id ls = su_user_id r" using r ls by simp
  from reset_password_ends_sessions [OF reach account_fresh e r(1) rtranclp.rtrancl_refl ls(1) this, of 7 "nn 8"] t show ?thesis by blast
qed

theorem login_grants_access_witness:
  "(case login sample_env ''dummy'' ''A'' ''p'' sample_ctx (nn 2) 1 one_account of
      (Inr issued, s') \<Rightarrow> (case get_current_user sample_env (Some (it_access_token issued)) 5 (as_db s') of Inr u \<Rightarrow> usr_email u = ''A'' | Inl _ \<Rightarrow> False)
    | (Inl _, _) \<Rightarrow> False)"
proof -
  let ?r = "login sample_env ''dummy'' ''A'' ''p'' sample_ctx (nn 2) 1 one_account"
  have c: "(case fst ?r of Inr _ \<Rightarrow> True | Inl _ \<Rightarrow> False)" "refresh_by_hash (hash_token sample_env (nc_token (nn 3))) (as_db (snd ?r)) = None"
    "list_all (\<lambda>u. usr_email u = ''A'') (base_query False (ad_users (as_db one_account)))" by (simp_all add: forgotten_def signed_in_def sample_simps cong: then_do_freeze)
  from c(1) obtain issued where i: "fst ?r = Inr issued" by (auto split: sum.splits)
  then have e: "?r = (Inr issued, snd ?r)" by (metis prod.collapse)
  have "5 < ((1 + minutes (ev_access_minutes sample_env)) div 1000000) * (1000000 :: int)" "5 \<le> 1 + days (ev_refresh_days sample_env)"
    by (simp_all add: sample_env_def)
  from login_grants_access [OF rtranclp.rtrancl_refl account_fresh e sample_jwt_ok this c(2)] c(3)
  have "case (Inr issued :: auth_exc + issued_tokens, snd ?r) of
      (Inr issued, s') \<Rightarrow> (case get_current_user sample_env (Some (it_access_token issued)) 5 (as_db s') of Inr u \<Rightarrow> usr_email u = ''A'' | Inl _ \<Rightarrow> False)
    | (Inl _, _) \<Rightarrow> False" by (auto simp: list_all_iff)
  then show ?thesis unfolding e [symmetric] .
qed

theorem lockout_witness:
  "fst (login sample_env ''dummy'' ''a'' ''p'' sample_ctx (nn 4) 12
      (snd (request (login sample_env ''dummy'' ''a'' ''q'' sample_ctx (nn 3) 11)
        (snd (request (login sample_env ''dummy'' ''a'' ''q'' sample_ctx (nn 2) 10) one_account)))))
    = Inl (AuthDb (App (app_error_init UnauthorizedError (Some ''Too many failed login attempts. Try again later.''))))"
proof -
  let ?s1 = "snd (request (login sample_env ''dummy'' ''a'' ''q'' sample_ctx (nn 2) 10) one_account)"
  let ?s2 = "snd (request (login sample_env ''dummy'' ''a'' ''q'' sample_ctx (nn 3) 11) ?s1)"
  have "fst (request (login sample_env ''dummy'' ''a'' ''q'' sample_ctx (nn 2) 10) one_account) = Inl bad_credentials"
    "fst (request (login sample_env ''dummy'' ''a'' ''q'' sample_ctx (nn 3) 11) ?s1) = Inl bad_credentials" by (simp_all add: forgotten_def signed_in_def sample_simps cong: then_do_freeze)
  then have r: "request (login sample_env ''dummy'' ''a'' ''q'' sample_ctx (nn 2) 10) one_account = (Inl bad_credentials, ?s1)"
    "request (login sample_env ''dummy'' ''a'' ''q'' sample_ctx (nn 3) 11) ?s1 = (Inl bad_credentials, ?s2)" by (metis prod.collapse)+
  have f: "failed_logins sample_env ''dummy'' ''a'' (([] @ [10]) @ [11]) one_account ?s2"
    by (rule failed_logins.Next [OF failed_logins.Next [OF failed_logins.None r(1)] r(2)])
  have g: "guard_on sample_env" "int (length (([] @ [10]) @ [11 :: int])) = ev_max_attempts sample_env" "(([] @ [10]) @ [11 :: int]) \<noteq> []"
    by (simp_all add: guard_on_def sample_env_def)
  have a: "guard_attempts ''a'' (hd (([] @ [10]) @ [11])) one_account = None"
    "\<forall>t\<in>set (([] @ [10]) @ [11]). t < hd (([] @ [10]) @ [11]) + seconds (ev_lockout_seconds sample_env)"
    by (simp_all add: forgotten_def signed_in_def sample_simps cong: then_do_freeze)
  have "12 < hd (([] @ [10]) @ [11]) + seconds (ev_lockout_seconds sample_env)" by (simp add: sample_env_def)
  with lockout [OF f g a] show ?thesis by simp
qed

end
