(* ===== verification/Access.thy ===== *)
theory Access
  imports Auth
begin

text \<open>
  Organizations, roles and permissions, teams, invitations and API keys (\<^verbatim>\<open>app/services/rbac.py\<close>,
  \<^verbatim>\<open>organization.py\<close>, \<^verbatim>\<open>team.py\<close>, \<^verbatim>\<open>invitation.py\<close>, \<^verbatim>\<open>api_key.py\<close> over \<^verbatim>\<open>app/repositories\<close> and
  \<^verbatim>\<open>app/models\<close>), the catalogs (\<^verbatim>\<open>app/security/permissions.py\<close>, \<^verbatim>\<open>api_scopes.py\<close>), the checks of a request
  (\<^verbatim>\<open>app/dependencies/auth.py\<close>, \<^verbatim>\<open>api_auth.py\<close>) and the routes that compose them (\<^verbatim>\<open>app/api/v1/routes\<close>).
  A route gets the user that the access token names; hashing, mail and random tokens are parameters.
\<close>

section \<open>Catalogs\<close>

datatype system_role = OWNER | ADMIN | MANAGER | EDITOR | VIEWER

fun system_role_value :: "system_role \<Rightarrow> string" where
  "system_role_value OWNER = ''owner''"
| "system_role_value ADMIN = ''admin''"
| "system_role_value MANAGER = ''manager''"
| "system_role_value EDITOR = ''editor''"
| "system_role_value VIEWER = ''viewer''"

datatype member_status = MEMBER_ACTIVE | MEMBER_SUSPENDED | MEMBER_PENDING

datatype invitation_status = INVITE_PENDING | INVITE_TAKEN | INVITE_WITHDRAWN | INVITE_EXPIRED
  \<comment> \<open>pending, accepted, revoked and expired\<close>

definition PERMISSIONS :: "(string, string) dict" where
  "PERMISSIONS =
    [(''organization.manage'', ''Manage organization settings''), (''organization.delete'', ''Delete the organization''),
     (''member.manage'', ''Invite, remove, and change member roles''), (''team.manage'', ''Create and manage teams''),
     (''role.manage'', ''Create and manage custom roles''), (''billing.read'', ''View plans, invoices, and usage''),
     (''billing.manage'', ''Manage billing and subscriptions''), (''project.create'', ''Create projects''),
     (''project.delete'', ''Delete projects''), (''channel.manage'', ''Connect and manage YouTube channels''),
     (''video.create'', ''Create videos''), (''video.delete'', ''Delete videos''), (''video.publish'', ''Publish videos''),
     (''prompt.edit'', ''Edit prompts''), (''agent.run'', ''Run AI agents''),
     (''agent.manage'', ''Create, configure, and manage AI agents''), (''analytics.read'', ''Read analytics''),
     (''api_key.manage'', ''Create and revoke API keys''), (''audit.read'', ''Read audit logs'')]"

definition ALL_PERMISSIONS :: "string list" where "ALL_PERMISSIONS = keys PERMISSIONS"

definition MANAGER_PERMISSIONS :: "string list" where
  "MANAGER_PERMISSIONS = [''team.manage'', ''project.create'', ''project.delete'', ''channel.manage'', ''video.create'', ''video.delete'',
     ''video.publish'', ''prompt.edit'', ''agent.run'', ''agent.manage'', ''analytics.read'', ''billing.read'']"

definition EDITOR_PERMISSIONS :: "string list" where
  "EDITOR_PERMISSIONS = [''video.create'', ''video.publish'', ''prompt.edit'', ''agent.run'', ''analytics.read'']"

definition VIEWER_PERMISSIONS :: "string list" where "VIEWER_PERMISSIONS = [''analytics.read'']"

definition DEFAULT_ROLE_PERMISSIONS :: "(system_role, string list) dict" where
  "DEFAULT_ROLE_PERMISSIONS =
    [(OWNER, ALL_PERMISSIONS), (ADMIN, filter (\<lambda>p. p \<notin> {''organization.delete'', ''billing.manage''}) ALL_PERMISSIONS),
     (MANAGER, MANAGER_PERMISSIONS), (EDITOR, EDITOR_PERMISSIONS), (VIEWER, VIEWER_PERMISSIONS)]"

fun ROLE_DISPLAY :: "system_role \<Rightarrow> string" where
  "ROLE_DISPLAY OWNER = ''Owner''"
| "ROLE_DISPLAY ADMIN = ''Admin''"
| "ROLE_DISPLAY MANAGER = ''Manager''"
| "ROLE_DISPLAY EDITOR = ''Editor''"
| "ROLE_DISPLAY VIEWER = ''Viewer''"

definition ALL_SCOPES :: "string list" where
  "ALL_SCOPES = [''video:read'', ''video:write'', ''channel:read'', ''project:read'', ''pipeline:read'', ''pipeline:write'',
     ''analytics:read'', ''usage:read'']"

definition validate_scopes :: "string list \<Rightarrow> string + string list" where
  \<comment> \<open>the left side is the message of \<open>ValueError\<close>\<close>
  "validate_scopes scopes =
     (let unknown = sort (remdups (filter (\<lambda>x. x \<notin> set ALL_SCOPES) scopes))
      in if unknown \<noteq> [] then Inl (''Unknown API scopes: '' @ join '', '' unknown @ ''. Valid scopes: '' @ join '', '' (sort ALL_SCOPES))
         else Inr scopes)"

section \<open>Rows\<close>

record permission = entity +
  pm_slug :: string
  pm_description :: string

record role = entity +
  \<comment> \<open>with its rows of the association table\<close>
  rl_slug :: string
  rl_name :: string
  rl_is_system :: bool
  rl_organization_id :: "nat option"
  rl_permissions :: "nat list"

record organization = entity +
  og_name :: string
  og_slug :: string
  og_owner_id :: nat

record organization_member = entity +
  om_organization_id :: nat
  om_user_id :: nat
  om_role_id :: nat
  om_status :: member_status

record team = entity +
  tm_organization_id :: nat
  tm_name :: string
  tm_slug :: string
  tm_description :: "string option"

record team_member = entity +
  tt_team_id :: nat
  tt_user_id :: nat
  tt_role_id :: nat

record invitation = entity +
  iv_organization :: nat
  iv_email :: string
  iv_role_id :: nat
  iv_invited_by_id :: nat
  iv_token_hash :: string
  iv_state :: invitation_status
  iv_expires_at :: time
  iv_accepted_at :: "time option"

record api_key = entity +
  ak_user_id :: nat
  ak_organization_id :: "nat option"
  ak_name :: string
  ak_prefix :: string
  ak_secret_hash :: string
  ak_scopes :: "string list"
  ak_expires_at :: "time option"
  ak_last_used_at :: "time option"
  ak_revoked_at :: "time option"

record access_state =
  ac_permissions :: "(nat, permission) dict"
  ac_roles :: "(nat, role) dict"
  ac_orgs :: "(nat, organization) dict"
  ac_members :: "(nat, organization_member) dict"
  ac_teams :: "(nat, team) dict"
  ac_team_members :: "(nat, team_member) dict"
  ac_invitations :: "(nat, invitation) dict"
  ac_keys :: "(nat, api_key) dict"
  ac_audit :: "audit_log list"
  ac_mail :: "(string \<times> string \<times> string) list"   \<comment> \<open>receiver, raw token, organization\<close>

record access_env =
  xe_sha :: "string \<Rightarrow> string"
  xe_mail_ok :: "string \<Rightarrow> bool"
  xe_invitation_days :: int

record key_nonce = nonce +
  nc_hex :: string

type_synonym 'a access_op = "access_state \<Rightarrow> (auth_exc + 'a) \<times> access_state"

abbreviation access_error :: "app_error_kind \<Rightarrow> string \<Rightarrow> 'a access_op" where
  "access_error k m \<equiv> \<lambda>s. (Inl (AuthDb (App (app_error_init k (Some m)))), s)"

definition one_or_none :: "'r list \<Rightarrow> 'r option access_op" where
  \<comment> \<open>\<open>scalar_one_or_none\<close>\<close>
  "one_or_none rs s = (case rs of [] \<Rightarrow> (Inr None, s) | [r] \<Rightarrow> (Inr (Some r), s) | _ \<Rightarrow> (Inl MultipleResults, s))"

definition record_access :: "audit_action \<Rightarrow> nat \<Rightarrow> nat option \<Rightarrow> nat \<Rightarrow> unit access_op" where
  "record_access action actor org target = change (\<lambda>s. s\<lparr>ac_audit := ac_audit s @
     [audit_row action (Some actor) org None (Some (nat_digits target)) None]\<rparr>)"

definition access_request :: "'a access_op \<Rightarrow> 'a access_op" where
  \<comment> \<open>\<open>session_scope\<close>: mails stay when the tables are rolled back\<close>
  "access_request f s = (case f s of (Inl e, s') \<Rightarrow> (Inl e, s\<lparr>ac_mail := ac_mail s'\<rparr>) | r \<Rightarrow> r)"

section \<open>Roles and permissions\<close>

definition add_permission :: "string \<Rightarrow> string \<Rightarrow> time \<Rightarrow> permission access_op" where
  \<comment> \<open>the slug is unique\<close>
  "add_permission slug description now s =
     (if list_ex (\<lambda>p. pm_slug p = slug) (all_rows (ac_permissions s)) then (Inl (AuthDb (IntegrityError ''permission_slug'')), s)
      else let (p, t) = repo_add \<lparr>ent_id = 0, created_at = now, deleted_at = None, pm_slug = slug, pm_description = description\<rparr>
             (ac_permissions s) in (Inr p, s\<lparr>ac_permissions := t\<rparr>))"

fun seed_permissions :: "(string \<times> string) list \<Rightarrow> (string, permission) dict \<Rightarrow> time \<Rightarrow> (string, permission) dict access_op" where
  "seed_permissions [] existing now = give existing"
| "seed_permissions ((slug, description) # rest) existing now =
     (if dict_get existing slug = None
      then then_do (add_permission slug description now) (\<lambda>p. seed_permissions rest (dict_set slug p existing) now)
      else seed_permissions rest existing now)"

definition ensure_permissions :: "time \<Rightarrow> (string, permission) dict access_op" where
  "ensure_permissions now s =
     seed_permissions PERMISSIONS (foldl (\<lambda>d p. dict_set (pm_slug p) p d) [] (list_all_rows 1000 0 (ac_permissions s))) now s"

definition add_role :: "role \<Rightarrow> role access_op" where
  \<comment> \<open>organization and slug are unique together\<close>
  "add_role row s =
     (if list_ex (\<lambda>r. rl_organization_id r = rl_organization_id row \<and> rl_organization_id row \<noteq> None \<and> rl_slug r = rl_slug row) (all_rows (ac_roles s))
      then (Inl (AuthDb (IntegrityError ''uq_role_org_slug'')), s)
      else let (r, t) = repo_add row (ac_roles s) in (Inr r, s\<lparr>ac_roles := t\<rparr>))"

fun provision_roles :: "(system_role \<times> string list) list \<Rightarrow> (string, permission) dict \<Rightarrow> nat \<Rightarrow> time \<Rightarrow> (system_role, role) dict access_op" where
  "provision_roles [] catalog org now = give []"
| "provision_roles ((sr, slugs) # rest) catalog org now =
     then_do (add_role \<lparr>ent_id = 0, created_at = now, deleted_at = None, rl_slug = system_role_value sr, rl_name = ROLE_DISPLAY sr,
         rl_is_system = True, rl_organization_id = Some org, rl_permissions = map (\<lambda>x. ent_id (the (dict_get catalog x))) slugs\<rparr>) (\<lambda>r.
     then_do (provision_roles rest catalog org now) (\<lambda>roles.
     give ((sr, r) # roles)))"

definition provision_system_roles :: "nat \<Rightarrow> time \<Rightarrow> (system_role, role) dict access_op" where
  "provision_system_roles org now = then_do (ensure_permissions now) (\<lambda>catalog. provision_roles DEFAULT_ROLE_PERMISSIONS catalog org now)"

definition member_role :: "nat \<Rightarrow> nat \<Rightarrow> access_state \<Rightarrow> role option" where
  \<comment> \<open>the first row of the join of roles and live memberships\<close>
  "member_role usr org s =
     (case filter (\<lambda>r. r \<noteq> None) (map (\<lambda>m. repo_get (om_role_id m) (ac_roles s))
        (filter (\<lambda>m. om_user_id m = usr \<and> om_organization_id m = org) (base_query False (ac_members s)))) of
        [] \<Rightarrow> None | r # _ \<Rightarrow> r)"

definition role_slugs :: "role \<Rightarrow> access_state \<Rightarrow> string list" where
  "role_slugs r s = map pm_slug (List.map_filter (\<lambda>i. repo_get i (ac_permissions s)) (rl_permissions r))"

definition get_permissions_for_user :: "nat \<Rightarrow> nat \<Rightarrow> access_state \<Rightarrow> string list" where
  "get_permissions_for_user usr org s = (case member_role usr org s of None \<Rightarrow> [] | Some r \<Rightarrow> role_slugs r s)"

definition require_permission_in :: "nat \<Rightarrow> nat \<Rightarrow> string \<Rightarrow> unit access_op" where
  "require_permission_in usr org permission s =
     (if permission \<notin> set (get_permissions_for_user usr org s)
      then access_error ForbiddenError ''You do not have permission to perform this action.'' s else (Inr (), s))"

definition require_permission :: "string \<Rightarrow> user \<Rightarrow> nat option \<Rightarrow> user access_op" where
  "require_permission permission usr org =
     (if usr_is_superuser usr then give usr
      else case org of
        None \<Rightarrow> access_error ForbiddenError ''Organization context is required.''
      | Some i \<Rightarrow> then_do (require_permission_in (ent_id usr) i permission) (\<lambda>_. give usr))"

definition get_org_role :: "nat \<Rightarrow> string \<Rightarrow> role option access_op" where
  "get_org_role org slug s = one_or_none (filter (\<lambda>r. rl_organization_id r = Some org \<and> rl_slug r = slug) (all_rows (ac_roles s))) s"

definition role_missing :: "string \<Rightarrow> string" where
  "role_missing slug = ''Role '' @ [CHR 0x27] @ slug @ [CHR 0x27] @ '' not found.''"

section \<open>Organizations\<close>

definition org_slug_exists :: "string \<Rightarrow> bool access_op" where
  "org_slug_exists slug s = then_do (one_or_none (filter (\<lambda>og. og_slug og = slug) (base_query False (ac_orgs s)))) (\<lambda>r. give (r \<noteq> None)) s"

definition add_org :: "organization \<Rightarrow> organization access_op" where
  \<comment> \<open>the slug is unique over removed rows too\<close>
  "add_org row s =
     (if list_ex (\<lambda>og. og_slug og = og_slug row) (all_rows (ac_orgs s)) then (Inl (AuthDb (IntegrityError ''organization_slug'')), s)
      else let (r, t) = repo_add row (ac_orgs s) in (Inr r, s\<lparr>ac_orgs := t\<rparr>))"

definition add_org_member :: "nat \<Rightarrow> nat \<Rightarrow> nat \<Rightarrow> time \<Rightarrow> organization_member access_op" where
  \<comment> \<open>organization and user are unique together over removed rows too\<close>
  "add_org_member org usr r now s =
     (if list_ex (\<lambda>m. om_organization_id m = org \<and> om_user_id m = usr) (all_rows (ac_members s))
      then (Inl (AuthDb (IntegrityError ''uq_org_member_org_user'')), s)
      else let (m, t) = repo_add \<lparr>ent_id = 0, created_at = now, deleted_at = None, om_organization_id = org, om_user_id = usr,
             om_role_id = r, om_status = MEMBER_ACTIVE\<rparr> (ac_members s) in (Inr m, s\<lparr>ac_members := t\<rparr>))"

definition create_organization :: "string \<Rightarrow> nat \<Rightarrow> string option \<Rightarrow> key_nonce \<Rightarrow> time \<Rightarrow> organization access_op" where
  "create_organization name owner slug nonce now =
     (let base = (if truthy slug then the slug else slugify name) in
      then_do (org_slug_exists base) (\<lambda>taken.
      then_do (add_org \<lparr>ent_id = 0, created_at = now, deleted_at = None, og_name = name,
          og_slug = (if taken then base @ ''-'' @ nc_suffix nonce else base), og_owner_id = owner\<rparr>) (\<lambda>org.
      then_do (provision_system_roles (ent_id org) now) (\<lambda>roles.
      then_do (add_org_member (ent_id org) owner (ent_id (the (dict_get roles OWNER))) now) (\<lambda>_.
      give org)))))"

definition org_or_404 :: "nat \<Rightarrow> organization access_op" where
  "org_or_404 i s = (case repo_get i (ac_orgs s) of
       None \<Rightarrow> access_error NotFoundError ''Organization not found.'' s
     | Some og \<Rightarrow> if deleted_at og \<noteq> None then access_error NotFoundError ''Organization not found.'' s else (Inr og, s))"

definition orgs_for_user :: "nat \<Rightarrow> access_state \<Rightarrow> organization list" where
  "orgs_for_user usr s = filter (\<lambda>og. deleted_at og = None)
     (List.map_filter (\<lambda>m. repo_get (om_organization_id m) (ac_orgs s)) (filter (\<lambda>m. om_user_id m = usr) (base_query False (ac_members s))))"

definition get_membership :: "nat \<Rightarrow> nat \<Rightarrow> organization_member option access_op" where
  "get_membership org usr s = one_or_none (filter (\<lambda>m. om_organization_id m = org \<and> om_user_id m = usr) (base_query False (ac_members s))) s"

definition members_for_org :: "nat \<Rightarrow> access_state \<Rightarrow> organization_member list" where
  "members_for_org org s = filter (\<lambda>m. om_organization_id m = org) (base_query False (ac_members s))"

definition add_member :: "nat \<Rightarrow> nat \<Rightarrow> string \<Rightarrow> time \<Rightarrow> organization_member access_op" where
  "add_member org usr role_slug now =
     then_do (get_membership org usr) (\<lambda>m.
     if m \<noteq> None then access_error ConflictError ''User is already a member of this organization.''
     else then_do (get_org_role org role_slug) (\<lambda>r.
     case r of None \<Rightarrow> access_error NotFoundError (role_missing role_slug)
     | Some r \<Rightarrow> add_org_member org usr (ent_id r) now))"

definition update_member_role :: "nat \<Rightarrow> nat \<Rightarrow> string \<Rightarrow> organization_member access_op" where
  "update_member_role org usr role_slug =
     then_do (get_membership org usr) (\<lambda>m.
     case m of None \<Rightarrow> access_error NotFoundError ''Membership not found.''
     | Some m \<Rightarrow>
         then_do (get_org_role org role_slug) (\<lambda>r.
         case r of None \<Rightarrow> access_error NotFoundError (role_missing role_slug)
         | Some r \<Rightarrow> then_do (change (\<lambda>s. s\<lparr>ac_members := repo_put (m\<lparr>om_role_id := ent_id r\<rparr>) (ac_members s)\<rparr>)) (\<lambda>_.
             give (m\<lparr>om_role_id := ent_id r\<rparr>))))"

section \<open>Teams\<close>

definition teams_for_org :: "nat \<Rightarrow> access_state \<Rightarrow> team list" where
  "teams_for_org org s = filter (\<lambda>t. tm_organization_id t = org) (base_query False (ac_teams s))"

definition add_team :: "team \<Rightarrow> team access_op" where
  "add_team row s =
     (if list_ex (\<lambda>t. tm_organization_id t = tm_organization_id row \<and> tm_slug t = tm_slug row) (all_rows (ac_teams s))
      then (Inl (AuthDb (IntegrityError ''uq_team_org_slug'')), s)
      else let (r, t) = repo_add row (ac_teams s) in (Inr r, s\<lparr>ac_teams := t\<rparr>))"

definition put_team_member :: "nat \<Rightarrow> nat \<Rightarrow> nat \<Rightarrow> time \<Rightarrow> team_member access_op" where
  \<comment> \<open>team and user are unique together; the role exists\<close>
  "put_team_member tm usr r now s =
     (if list_ex (\<lambda>m. tt_team_id m = tm \<and> tt_user_id m = usr) (all_rows (ac_team_members s))
      then (Inl (AuthDb (IntegrityError ''uq_team_member_team_user'')), s)
      else if repo_get tm (ac_teams s) = None \<or> repo_get r (ac_roles s) = None then (Inl (AuthDb (IntegrityError ''foreign_key'')), s)
      else let (m, t) = repo_add \<lparr>ent_id = 0, created_at = now, deleted_at = None, tt_team_id = tm, tt_user_id = usr, tt_role_id = r\<rparr>
             (ac_team_members s) in (Inr m, s\<lparr>ac_team_members := t\<rparr>))"

definition create_team :: "nat \<Rightarrow> string \<Rightarrow> nat \<Rightarrow> string option \<Rightarrow> string option \<Rightarrow> key_nonce \<Rightarrow> time \<Rightarrow> team access_op" where
  "create_team org name creator slug description nonce now s =
     (let base = (if truthy slug then the slug else slugify name);
          used = list_ex (\<lambda>t. tm_slug t = base) (teams_for_org org s) in
      then_do (add_team \<lparr>ent_id = 0, created_at = now, deleted_at = None, tm_organization_id = org, tm_name = name,
          tm_slug = (if used then base @ ''-'' @ nc_suffix nonce else base), tm_description = description\<rparr>) (\<lambda>t.
      then_do (get_org_role org (system_role_value MANAGER)) (\<lambda>r.
      case r of None \<Rightarrow> access_error NotFoundError ''Organization roles are not provisioned.''
      | Some r \<Rightarrow>
          then_do (put_team_member (ent_id t) creator (ent_id r) now) (\<lambda>_.
          then_do (record_access TEAM_CREATED creator (Some org) (ent_id t)) (\<lambda>_.
          give t)))) s)"

definition add_team_member :: "nat \<Rightarrow> nat \<Rightarrow> nat \<Rightarrow> time \<Rightarrow> team_member access_op" where
  "add_team_member tm usr r now s =
     then_do (one_or_none (filter (\<lambda>m. tt_team_id m = tm \<and> tt_user_id m = usr) (base_query False (ac_team_members s)))) (\<lambda>m.
     if m \<noteq> None then access_error ConflictError ''User is already a member of this team.''
     else put_team_member tm usr r now) s"

section \<open>Invitations\<close>

definition invitation_by_hash :: "string \<Rightarrow> access_state \<Rightarrow> invitation option" where
  "invitation_by_hash h s = row_by (\<lambda>i. iv_token_hash i = h) (ac_invitations s)"

definition put_invitation :: "invitation \<Rightarrow> unit access_op" where
  "put_invitation i = change (\<lambda>s. s\<lparr>ac_invitations := repo_put i (ac_invitations s)\<rparr>)"

definition add_invitation :: "invitation \<Rightarrow> invitation access_op" where
  "add_invitation row s =
     (if invitation_by_hash (iv_token_hash row) s \<noteq> None then (Inl (AuthDb (IntegrityError ''invitation_token_hash'')), s)
      else let (r, t) = repo_add row (ac_invitations s) in (Inr r, s\<lparr>ac_invitations := t\<rparr>))"

definition send_invitation :: "access_env \<Rightarrow> string \<Rightarrow> string \<Rightarrow> string \<Rightarrow> unit access_op" where
  "send_invitation env receiver token org_name s =
     (if xe_mail_ok env receiver then (Inr (), s\<lparr>ac_mail := ac_mail s @ [(receiver, token, org_name)]\<rparr>) else (Inl MailFailed, s))"

definition invite :: "access_env \<Rightarrow> nat \<Rightarrow> string \<Rightarrow> string \<Rightarrow> nat \<Rightarrow> string \<Rightarrow> key_nonce \<Rightarrow> time \<Rightarrow> (invitation \<times> string) access_op" where
  "invite env org email role_slug inviter org_name nonce now =
     then_do (get_org_role org role_slug) (\<lambda>r.
     case r of None \<Rightarrow> access_error NotFoundError (role_missing role_slug)
     | Some r \<Rightarrow>
         then_do (add_invitation \<lparr>ent_id = 0, created_at = now, deleted_at = None, iv_organization = org, iv_email = lower email,
             iv_role_id = ent_id r, iv_invited_by_id = inviter, iv_token_hash = xe_sha env (nc_token nonce), iv_state = INVITE_PENDING,
             iv_expires_at = now + days (xe_invitation_days env), iv_accepted_at = None\<rparr>) (\<lambda>i.
         then_do (send_invitation env email (nc_token nonce) org_name) (\<lambda>_.
         then_do (record_access INVITE_SENT inviter (Some org) (ent_id i)) (\<lambda>_.
         give (i, nc_token nonce)))))"

definition invitations_for_org :: "nat \<Rightarrow> access_state \<Rightarrow> invitation list" where
  "invitations_for_org org s = filter (\<lambda>i. iv_organization i = org) (base_query False (ac_invitations s))"

definition revoke_invitation :: "nat \<Rightarrow> nat \<Rightarrow> unit access_op" where
  "revoke_invitation i actor s =
     (case repo_get i (ac_invitations s) of
        None \<Rightarrow> access_error NotFoundError ''Invitation not found.'' s
      | Some v \<Rightarrow>
          if deleted_at v \<noteq> None then access_error NotFoundError ''Invitation not found.'' s
          else then_do (put_invitation (v\<lparr>iv_state := INVITE_WITHDRAWN\<rparr>)) (\<lambda>_.
               record_access INVITE_REVOKED actor (Some (iv_organization v)) (ent_id v)) s)"

definition suppress_conflict :: "'a access_op \<Rightarrow> unit access_op" where
  \<comment> \<open>\<open>contextlib.suppress(ConflictError)\<close>\<close>
  "suppress_conflict f s = (case f s of
       (Inr _, s') \<Rightarrow> (Inr (), s')
     | (Inl e, s') \<Rightarrow> ((case e of AuthDb (App a) \<Rightarrow> if err_kind a = ConflictError then Inr () else Inl e | _ \<Rightarrow> Inl e), s'))"

definition accept_invitation :: "access_env \<Rightarrow> string \<Rightarrow> nat \<Rightarrow> time \<Rightarrow> invitation access_op" where
  "accept_invitation env token usr now s =
     (case invitation_by_hash (xe_sha env token) s of
        None \<Rightarrow> access_error ValidationError ''Invalid or already-processed invitation.'' s
      | Some v \<Rightarrow>
          if iv_state v \<noteq> INVITE_PENDING then access_error ValidationError ''Invalid or already-processed invitation.'' s
          else if iv_expires_at v < now
          then then_do (put_invitation (v\<lparr>iv_state := INVITE_EXPIRED\<rparr>)) (\<lambda>_. access_error ValidationError ''Invitation has expired.'') s
          else
            (case repo_get (iv_role_id v) (ac_roles s) of
               None \<Rightarrow> access_error NotFoundError ''Invitation role no longer exists.'' s
             | Some r \<Rightarrow>
                 then_do (suppress_conflict (add_member (iv_organization v) usr (rl_slug r) now)) (\<lambda>_.
                 then_do (put_invitation (v\<lparr>iv_state := INVITE_TAKEN, iv_accepted_at := Some now\<rparr>)) (\<lambda>_.
                 then_do (record_access INVITE_ACCEPTED usr (Some (iv_organization v)) (ent_id v)) (\<lambda>_.
                 give (v\<lparr>iv_state := INVITE_TAKEN, iv_accepted_at := Some now\<rparr>)))) s))"

section \<open>API keys\<close>

definition API_KEY_PREFIX :: string where "API_KEY_PREFIX = ''ayf_''"

definition generate_api_key :: "access_env \<Rightarrow> key_nonce \<Rightarrow> string \<times> string \<times> string" where
  "generate_api_key env nonce =
     (let prefix = API_KEY_PREFIX @ nc_hex nonce
      in (prefix @ ''.'' @ nc_token nonce, prefix, xe_sha env (nc_token nonce)))"

definition keys_by_prefix :: "string \<Rightarrow> access_state \<Rightarrow> api_key option" where
  "keys_by_prefix prefix s = row_by (\<lambda>k. ak_prefix k = prefix) (ac_keys s)"

definition add_key :: "api_key \<Rightarrow> api_key access_op" where
  "add_key row s =
     (if keys_by_prefix (ak_prefix row) s \<noteq> None then (Inl (AuthDb (IntegrityError ''apikey_prefix'')), s)
      else let (r, t) = repo_add row (ac_keys s) in (Inr r, s\<lparr>ac_keys := t\<rparr>))"

definition put_key :: "api_key \<Rightarrow> unit access_op" where
  "put_key k = change (\<lambda>s. s\<lparr>ac_keys := repo_put k (ac_keys s)\<rparr>)"

definition create_api_key :: "access_env \<Rightarrow> nat \<Rightarrow> string \<Rightarrow> string list \<Rightarrow> int option \<Rightarrow> nat option \<Rightarrow> key_nonce \<Rightarrow> time \<Rightarrow> (api_key \<times> string) access_op" where
  "create_api_key env usr name scopes expires_in_days org nonce now =
     (case validate_scopes scopes of
        Inl m \<Rightarrow> access_error ValidationError m
      | Inr valid \<Rightarrow>
          (let (raw, prefix, h) = generate_api_key env nonce in
           then_do (add_key \<lparr>ent_id = 0, created_at = now, deleted_at = None, ak_user_id = usr, ak_organization_id = org, ak_name = name,
               ak_prefix = prefix, ak_secret_hash = h, ak_scopes = valid,
               ak_expires_at = (case expires_in_days of None \<Rightarrow> None | Some d \<Rightarrow> if d = 0 then None else Some (now + days d)),
               ak_last_used_at = None, ak_revoked_at = None\<rparr>) (\<lambda>k.
           then_do (record_access API_KEY_CREATED usr None (ent_id k)) (\<lambda>_.
           give (k, raw)))))"

definition keys_for_user :: "nat \<Rightarrow> access_state \<Rightarrow> api_key list" where
  "keys_for_user usr s = filter (\<lambda>k. ak_user_id k = usr) (base_query False (ac_keys s))"

definition revoke_api_key :: "nat \<Rightarrow> nat \<Rightarrow> time \<Rightarrow> unit access_op" where
  "revoke_api_key usr i now s =
     (case repo_get i (ac_keys s) of
        None \<Rightarrow> access_error NotFoundError ''API key not found.'' s
      | Some k \<Rightarrow>
          if ak_user_id k \<noteq> usr \<or> deleted_at k \<noteq> None then access_error NotFoundError ''API key not found.'' s
          else then_do (put_key (k\<lparr>ak_revoked_at := Some now\<rparr>)) (\<lambda>_. record_access API_KEY_REVOKED usr None (ent_id k)) s)"

definition authenticate_key :: "access_env \<Rightarrow> string \<Rightarrow> time \<Rightarrow> api_key access_op" where
  "authenticate_key env raw now s =
     (if CHR ''.'' \<notin> set raw then access_error UnauthorizedError ''Malformed API key.'' s
      else
        let prefix = takeWhile (\<lambda>c. c \<noteq> CHR ''.'') raw; secret = drop (length prefix + 1) raw in
        (case keys_by_prefix prefix s of
           None \<Rightarrow> access_error UnauthorizedError ''Invalid API key.'' s
         | Some k \<Rightarrow>
             if ak_revoked_at k \<noteq> None \<or> deleted_at k \<noteq> None then access_error UnauthorizedError ''Invalid API key.'' s
             else if (case ak_expires_at k of None \<Rightarrow> False | Some t \<Rightarrow> t < now) then access_error UnauthorizedError ''API key has expired.'' s
             else if xe_sha env secret \<noteq> ak_secret_hash k then access_error UnauthorizedError ''Invalid API key.'' s
             else then_do (put_key (k\<lparr>ak_last_used_at := Some now\<rparr>)) (\<lambda>_. give (k\<lparr>ak_last_used_at := Some now\<rparr>)) s))"

record api_principal =
  ap_key_id :: nat
  ap_user_id :: nat
  ap_organization_id :: "nat option"
  ap_scopes :: "string list"
  ap_name :: string

definition principal_from_key :: "api_key \<Rightarrow> api_principal" where
  "principal_from_key k = \<lparr>ap_key_id = ent_id k, ap_user_id = ak_user_id k, ap_organization_id = ak_organization_id k,
     ap_scopes = filter (\<lambda>x. x \<in> set ALL_SCOPES) (ak_scopes k), ap_name = ak_name k\<rparr>"

definition get_api_principal :: "access_env \<Rightarrow> string option \<Rightarrow> string option \<Rightarrow> time \<Rightarrow> api_principal access_op" where
  \<comment> \<open>the bearer credentials and the \<open>X-API-Key\<close> header\<close>
  "get_api_principal env credentials x_api_key now =
     (let raw = (if credentials \<noteq> None then credentials else x_api_key) in
      if \<not> truthy raw
      then access_error UnauthorizedError (''An API key is required. Send it as '' @ [CHR 0x27] @ ''Authorization: Bearer <key>'' @ [CHR 0x27]
         @ '' or '' @ [CHR 0x27] @ ''X-API-Key: <key>'' @ [CHR 0x27] @ ''.'')
      else then_do (authenticate_key env (strip (the raw)) now) (\<lambda>k. give (principal_from_key k)))"

definition require_scope :: "string \<Rightarrow> api_principal \<Rightarrow> api_principal access_op" where
  \<comment> \<open>for a scope of the catalog; another one is refused when the route is defined\<close>
  "require_scope scope p =
     (if scope \<notin> set (ap_scopes p)
      then access_error ForbiddenError (''This API key does not have the '' @ [CHR 0x27] @ scope @ [CHR 0x27] @ '' scope.'')
      else give p)"

definition require_organization :: "api_principal \<Rightarrow> nat access_op" where
  "require_organization p = (case ap_organization_id p of
       None \<Rightarrow> access_error ForbiddenError (''This API key is not bound to an organization and cannot access organization data. ''
         @ ''Create a key with an organization to use these endpoints.'')
     | Some i \<Rightarrow> give i)"

section \<open>Routes\<close>

definition update_member_role_route :: "user \<Rightarrow> nat \<Rightarrow> nat \<Rightarrow> string \<Rightarrow> organization_member access_op" where
  "update_member_role_route usr org member role_slug =
     then_do (require_permission ''member.manage'' usr (Some org)) (\<lambda>_. update_member_role org member role_slug)"

definition create_team_route :: "user \<Rightarrow> nat \<Rightarrow> string \<Rightarrow> string option \<Rightarrow> string option \<Rightarrow> key_nonce \<Rightarrow> time \<Rightarrow> team access_op" where
  "create_team_route usr org name slug description nonce now =
     then_do (require_permission ''team.manage'' usr (Some org)) (\<lambda>_. create_team org name (ent_id usr) slug description nonce now)"

definition create_invitation_route :: "access_env \<Rightarrow> user \<Rightarrow> nat \<Rightarrow> string \<Rightarrow> string \<Rightarrow> key_nonce \<Rightarrow> time \<Rightarrow> invitation access_op" where
  "create_invitation_route env usr org email role_slug nonce now =
     then_do (require_permission ''member.manage'' usr (Some org)) (\<lambda>_.
     then_do (org_or_404 org) (\<lambda>og.
     then_do (invite env org email role_slug (ent_id usr) (og_name og) nonce now) (\<lambda>r.
     give (fst r))))"

definition revoke_invitation_route :: "user \<Rightarrow> nat \<Rightarrow> nat \<Rightarrow> unit access_op" where
  "revoke_invitation_route usr org i =
     then_do (require_permission ''member.manage'' usr (Some org)) (\<lambda>_. revoke_invitation i (ent_id usr))"

definition accept_invitation_route :: "access_env \<Rightarrow> user \<Rightarrow> string \<Rightarrow> time \<Rightarrow> invitation access_op" where
  "accept_invitation_route env usr token now = accept_invitation env token (ent_id usr) now"

definition create_api_key_route :: "access_env \<Rightarrow> user \<Rightarrow> string \<Rightarrow> string list \<Rightarrow> int option \<Rightarrow> key_nonce \<Rightarrow> time \<Rightarrow> (api_key \<times> string) access_op" where
  \<comment> \<open>the organization of the key is not passed on\<close>
  "create_api_key_route env usr name scopes expires_in_days nonce now =
     create_api_key env (ent_id usr) name scopes expires_in_days None nonce now"

text \<open>The requests that change the tables; \<open>UseKey\<close> is any request to the public API.\<close>

datatype access_call =
    CreateOrganization string "string option"
  | UpdateMemberRole nat nat string
  | CreateTeam nat string "string option" "string option"
  | CreateInvitation nat string string
  | RevokeInvitation nat nat
  | AcceptInvitation string
  | CreateKey string "string list" "int option"
  | RevokeKey nat
  | UseKey "string option" "string option"

fun access_call_op :: "access_env \<Rightarrow> access_call \<Rightarrow> user \<Rightarrow> key_nonce \<Rightarrow> time \<Rightarrow> unit access_op" where
  "access_call_op env (CreateOrganization name slug) usr nonce now = then_do (create_organization name (ent_id usr) slug nonce now) (\<lambda>_. give ())"
| "access_call_op env (UpdateMemberRole org member role_slug) usr nonce now = then_do (update_member_role_route usr org member role_slug) (\<lambda>_. give ())"
| "access_call_op env (CreateTeam org name slug description) usr nonce now = then_do (create_team_route usr org name slug description nonce now) (\<lambda>_. give ())"
| "access_call_op env (CreateInvitation org email role_slug) usr nonce now = then_do (create_invitation_route env usr org email role_slug nonce now) (\<lambda>_. give ())"
| "access_call_op env (RevokeInvitation org i) usr nonce now = revoke_invitation_route usr org i"
| "access_call_op env (AcceptInvitation token) usr nonce now = then_do (accept_invitation_route env usr token now) (\<lambda>_. give ())"
| "access_call_op env (CreateKey name scopes expires_in_days) usr nonce now = then_do (create_api_key_route env usr name scopes expires_in_days nonce now) (\<lambda>_. give ())"
| "access_call_op env (RevokeKey i) usr nonce now = revoke_api_key (ent_id usr) i now"
| "access_call_op env (UseKey credentials x_api_key) usr nonce now = then_do (get_api_principal env credentials x_api_key now) (\<lambda>_. give ())"

inductive access_step :: "access_env \<Rightarrow> access_state \<Rightarrow> access_state \<Rightarrow> bool" for env where
  Request: "access_request (access_call_op env c usr nonce now) s = (r, s') \<Longrightarrow> access_step env s s'"

definition no_organizations :: access_state where
  "no_organizations = \<lparr>ac_permissions = [], ac_roles = [], ac_orgs = [], ac_members = [], ac_teams = [], ac_team_members = [],
     ac_invitations = [], ac_keys = [], ac_audit = [], ac_mail = []\<rparr>"

section \<open>The invariant of the tables\<close>

text \<open>
  The foreign keys point to rows of the right organization, and what is unique in the schema is
  unique. \<open>after s s'\<close> is what every later state keeps of an earlier one.
\<close>

definition unique :: "('a entity_scheme \<Rightarrow> 'a entity_scheme \<Rightarrow> bool) \<Rightarrow> 'a table \<Rightarrow> bool" where
  "unique C t \<longleftrightarrow> (\<forall>k x k2 x2. repo_get k t = Some x \<and> repo_get k2 t = Some x2 \<and> C x x2 \<longrightarrow> k = k2)"

definition roles_ok :: "access_state \<Rightarrow> bool" where
  "roles_ok s \<longleftrightarrow> table_ok (ac_permissions s) \<and> table_ok (ac_roles s)
     \<and> (\<forall>k r. repo_get k (ac_roles s) = Some r \<longrightarrow> (\<forall>p \<in> set (rl_permissions r). repo_get p (ac_permissions s) \<noteq> None))
     \<and> unique (\<lambda>r r2. rl_organization_id r = rl_organization_id r2 \<and> rl_organization_id r \<noteq> None \<and> rl_slug r = rl_slug r2) (ac_roles s)"

definition role_in :: "nat \<Rightarrow> nat \<Rightarrow> access_state \<Rightarrow> bool" where
  "role_in i org s \<longleftrightarrow> (\<exists>r. repo_get i (ac_roles s) = Some r \<and> rl_organization_id r = Some org)"

definition members_ok :: "access_state \<Rightarrow> bool" where
  "members_ok s \<longleftrightarrow> table_ok (ac_orgs s) \<and> table_ok (ac_members s)
     \<and> (\<forall>k m. repo_get k (ac_members s) = Some m \<longrightarrow> role_in (om_role_id m) (om_organization_id m) s \<and> repo_get (om_organization_id m) (ac_orgs s) \<noteq> None)
     \<and> unique (\<lambda>m m2. om_organization_id m = om_organization_id m2 \<and> om_user_id m = om_user_id m2) (ac_members s)"

definition invitations_ok :: "access_state \<Rightarrow> bool" where
  "invitations_ok s \<longleftrightarrow> table_ok (ac_invitations s)
     \<and> (\<forall>k v. repo_get k (ac_invitations s) = Some v \<longrightarrow> role_in (iv_role_id v) (iv_organization v) s \<and> repo_get (iv_organization v) (ac_orgs s) \<noteq> None)
     \<and> unique (\<lambda>v v2. iv_token_hash v = iv_token_hash v2) (ac_invitations s)"

definition keys_ok :: "access_state \<Rightarrow> bool" where
  "keys_ok s \<longleftrightarrow> table_ok (ac_keys s) \<and> unique (\<lambda>k k2. ak_prefix k = ak_prefix k2) (ac_keys s)"

definition access_ok :: "access_state \<Rightarrow> bool" where
  "access_ok s \<longleftrightarrow> roles_ok s \<and> members_ok s \<and> invitations_ok s \<and> keys_ok s"

definition same_invitation :: "invitation \<Rightarrow> invitation \<Rightarrow> bool" where
  "same_invitation v v' \<longleftrightarrow> iv_token_hash v' = iv_token_hash v \<and> iv_organization v' = iv_organization v \<and> iv_role_id v' = iv_role_id v
     \<and> (iv_state v \<noteq> INVITE_PENDING \<longrightarrow> iv_state v' \<noteq> INVITE_PENDING)"

definition same_key :: "api_key \<Rightarrow> api_key \<Rightarrow> bool" where
  "same_key k k' \<longleftrightarrow> ak_user_id k' = ak_user_id k \<and> ak_organization_id k' = ak_organization_id k \<and> ak_name k' = ak_name k \<and> ak_prefix k' = ak_prefix k
     \<and> ak_secret_hash k' = ak_secret_hash k \<and> ak_scopes k' = ak_scopes k \<and> ak_expires_at k' = ak_expires_at k \<and> deleted_at k' = deleted_at k
     \<and> (ak_revoked_at k \<noteq> None \<longrightarrow> ak_revoked_at k' \<noteq> None)"

definition stays :: "'a table \<Rightarrow> ('a entity_scheme \<Rightarrow> 'a entity_scheme \<Rightarrow> bool) \<Rightarrow> 'a table \<Rightarrow> bool" where
  "stays t R t' \<longleftrightarrow> (\<forall>k r. repo_get k t = Some r \<longrightarrow> (\<exists>r'. repo_get k t' = Some r' \<and> R r r'))"

definition after :: "access_state \<Rightarrow> access_state \<Rightarrow> bool" where
  "after s s' \<longleftrightarrow> stays (ac_permissions s) (=) (ac_permissions s') \<and> stays (ac_roles s) (=) (ac_roles s') \<and> stays (ac_orgs s) (=) (ac_orgs s')
     \<and> stays (ac_invitations s) same_invitation (ac_invitations s') \<and> stays (ac_keys s) same_key (ac_keys s')"

definition grows :: "access_state \<Rightarrow> access_state \<Rightarrow> bool" where
  \<comment> \<open>what a successful operation does to a sound state\<close>
  "grows s s' \<longleftrightarrow> (access_ok s \<longrightarrow> access_ok s' \<and> after s s')"


lemma stays_refl [simp, intro]: "(\<And>r. R r r) \<Longrightarrow> stays t R t"
  by (auto simp: stays_def)

lemma stays_trans: "stays a R b \<Longrightarrow> stays b R c \<Longrightarrow> (\<And>x y z. R x y \<Longrightarrow> R y z \<Longrightarrow> R x z) \<Longrightarrow> stays a R c"
  unfolding stays_def by meson

lemma stays_add: "repo_add row t = (r, t') \<Longrightarrow> (\<And>r. R r r) \<Longrightarrow> stays t R t'"
  by (auto simp: stays_def repo_add_new(4)) (metis option.distinct(1) repo_add_new(3) repo_add_new(4))

lemma stays_put: "repo_get (ent_id r) t = Some r0 \<Longrightarrow> R r0 r \<Longrightarrow> (\<And>r. R r r) \<Longrightarrow> stays t R (repo_put r t)"
  by (auto simp: stays_def)

lemma same_invitation_refl [simp]: "same_invitation v v" and same_key_refl [simp]: "same_key k k"
  by (simp_all add: same_invitation_def same_key_def)

lemma same_invitation_trans: "same_invitation a b \<Longrightarrow> same_invitation b c \<Longrightarrow> same_invitation a c"
  and same_key_trans: "same_key x y \<Longrightarrow> same_key y z \<Longrightarrow> same_key x z"
  by (auto simp: same_invitation_def same_key_def)

lemma after_refl [simp, intro]: "after s s"
  by (simp add: after_def)

lemma after_trans: "after a b \<Longrightarrow> after b c \<Longrightarrow> after a c"
  unfolding after_def by (auto intro: stays_trans same_invitation_trans same_key_trans)

lemma grows_refl [simp, intro]: "grows s s"
  by (simp add: grows_def)

lemma grows_trans: "grows a b \<Longrightarrow> grows b c \<Longrightarrow> grows a c"
  unfolding grows_def using after_trans by blast

lemma growsD: "grows s s' \<Longrightarrow> access_ok s \<Longrightarrow> access_ok s' \<and> after s s'"
  by (simp add: grows_def)

lemma no_row: "table_ok t \<Longrightarrow> \<not> list_ex P (all_rows t) \<Longrightarrow> repo_get k t = Some x \<Longrightarrow> \<not> P x"
  using rows_get by (auto simp: list_ex_iff)

lemma unique_add:
  assumes "repo_add row t = (r, t')" "unique C t" "\<And>k x. repo_get k t = Some x \<Longrightarrow> \<not> C x r \<and> \<not> C r x"
  shows "unique C t'"
  using assms(2,3) unfolding unique_def by (auto simp: repo_add_new(4) [OF assms(1)] split: if_splits)

lemma unique_put:
  assumes "repo_get (ent_id r) t = Some r0" "unique C t" "\<And>x. C x r = C x r0" "\<And>x. C r x = C r0 x"
  shows "unique C (repo_put r t)"
  unfolding unique_def
proof (intro allI impI, elim conjE)
  fix k x k2 x2 assume h: "repo_get k (repo_put r t) = Some x" "repo_get k2 (repo_put r t) = Some x2" "C x x2"
  define old where "old i y = (if i = ent_id r then r0 else y)" for i y
  have g: "repo_get i t = Some (old i y)" "y = (if i = ent_id r then r else old i y)" if "repo_get i (repo_put r t) = Some y" for i y
    using that assms(1) by (auto simp: old_def split: if_splits)
  have "C (old k x) (old k2 x2)" using h(3) g(2) [OF h(1)] g(2) [OF h(2)] assms(3,4) by (metis old_def)
  with assms(2) g(1) [OF h(1)] g(1) [OF h(2)] show "k = k2" unfolding unique_def by blast
qed

lemma role_in_stays: "role_in i org s \<Longrightarrow> stays (ac_roles s) (=) (ac_roles s') \<Longrightarrow> role_in i org s'"
  unfolding role_in_def stays_def by metis

lemma role_in_same: "ac_roles s' = ac_roles s \<Longrightarrow> role_in i org s' = role_in i org s"
  by (simp add: role_in_def)

lemma roles_ok_same: "ac_permissions s' = ac_permissions s \<Longrightarrow> ac_roles s' = ac_roles s \<Longrightarrow> roles_ok s' = roles_ok s"
  by (simp add: roles_ok_def)

lemma members_ok_same: "ac_orgs s' = ac_orgs s \<Longrightarrow> ac_members s' = ac_members s \<Longrightarrow> ac_roles s' = ac_roles s \<Longrightarrow> members_ok s' = members_ok s"
  by (simp add: members_ok_def role_in_def)

lemma invitations_ok_same: "ac_invitations s' = ac_invitations s \<Longrightarrow> ac_roles s' = ac_roles s \<Longrightarrow> ac_orgs s' = ac_orgs s \<Longrightarrow> invitations_ok s' = invitations_ok s"
  by (simp add: invitations_ok_def role_in_def)

lemma keys_ok_same: "ac_keys s' = ac_keys s \<Longrightarrow> keys_ok s' = keys_ok s"
  by (simp add: keys_ok_def)

lemma members_ok_stays:
  "members_ok s \<Longrightarrow> ac_members s' = ac_members s \<Longrightarrow> stays (ac_roles s) (=) (ac_roles s') \<Longrightarrow> stays (ac_orgs s) (=) (ac_orgs s')
   \<Longrightarrow> table_ok (ac_orgs s') \<Longrightarrow> members_ok s'"
  unfolding members_ok_def by (auto intro: role_in_stays) (metis option.distinct(1) stays_def)

lemma invitations_ok_stays:
  "invitations_ok s \<Longrightarrow> ac_invitations s' = ac_invitations s \<Longrightarrow> stays (ac_roles s) (=) (ac_roles s') \<Longrightarrow> stays (ac_orgs s) (=) (ac_orgs s')
   \<Longrightarrow> invitations_ok s'"
  unfolding invitations_ok_def by (auto intro: role_in_stays) (metis option.distinct(1) stays_def)

lemmas same_tables = roles_ok_same members_ok_same invitations_ok_same keys_ok_same

lemma grows_same:
  assumes "ac_permissions s' = ac_permissions s" "ac_roles s' = ac_roles s" "ac_orgs s' = ac_orgs s" "ac_members s' = ac_members s"
    "ac_invitations s' = ac_invitations s" "ac_keys s' = ac_keys s"
  shows "grows s s'"
  using assms same_tables [of s' s] by (simp add: grows_def access_ok_def after_def)

section \<open>Every operation keeps it\<close>

lemma add_permission_Inr:
  assumes "add_permission slug description now s = (Inr p, s')"
  shows "grows s s'" "repo_get (ent_id p) (ac_permissions s') = Some p" "pm_slug p = slug" "s' = s\<lparr>ac_permissions := ac_permissions s'\<rparr>"
    "repo_get (ent_id p) (ac_permissions s) = None"
proof -
  let ?row = "\<lparr>ent_id = 0, created_at = now, deleted_at = None, pm_slug = slug, pm_description = description\<rparr>"
  from assms obtain t where t: "repo_add ?row (ac_permissions s) = (p, t)" "s' = s\<lparr>ac_permissions := t\<rparr>"
    by (auto simp: add_permission_def split: if_splits prod.splits)
  have st: "stays (ac_permissions s) (=) t" using stays_add [OF t(1)] by simp
  show "grows s s'" unfolding grows_def
  proof (intro impI conjI)
    assume ok: "access_ok s"
    have "roles_ok s'" using ok repo_add_ok [OF _ t(1)] st unfolding access_ok_def roles_ok_def t(2) stays_def by fastforce
    with ok t(2) same_tables [of s' s] show "access_ok s'" by (simp add: access_ok_def)
    show "after s s'" using st by (simp add: after_def t(2))
  qed
  show "repo_get (ent_id p) (ac_permissions s') = Some p" by (simp add: t(2) repo_add_new(4) [OF t(1)])
  show "pm_slug p = slug" using repo_add_new(1) [OF t(1)] by simp
  show "s' = s\<lparr>ac_permissions := ac_permissions s'\<rparr>" using t(2) by simp
  show "repo_get (ent_id p) (ac_permissions s) = None" using repo_add_new(3) [OF t(1)] .
qed

lemma add_role_Inr:
  assumes "add_role row s = (Inr r, s')"
  shows "(\<And>p. p \<in> set (rl_permissions row) \<Longrightarrow> repo_get p (ac_permissions s) \<noteq> None) \<Longrightarrow> grows s s'"
    "repo_get (ent_id r) (ac_roles s') = Some r" "r = row\<lparr>ent_id := ent_id r\<rparr>" "s' = s\<lparr>ac_roles := ac_roles s'\<rparr>"
    "repo_get (ent_id r) (ac_roles s) = None" "stays (ac_roles s) (=) (ac_roles s')"
proof -
  let ?c = "\<lambda>r. rl_organization_id r = rl_organization_id row \<and> rl_organization_id row \<noteq> None \<and> rl_slug r = rl_slug row"
  from assms obtain t where t: "repo_add row (ac_roles s) = (r, t)" "s' = s\<lparr>ac_roles := t\<rparr>" "\<not> list_ex ?c (all_rows (ac_roles s))"
    by (auto simp: add_role_def split: if_splits prod.splits)
  show st: "stays (ac_roles s) (=) (ac_roles s')" using stays_add [OF t(1)] t(2) by simp
  show r: "r = row\<lparr>ent_id := ent_id r\<rparr>" using repo_add_new(1) [OF t(1)] by (metis entity.select_convs(1) entity.surjective entity.update_convs(1))
  show get: "repo_get (ent_id r) (ac_roles s') = Some r" by (simp add: t(2) repo_add_new(4) [OF t(1)])
  show "s' = s\<lparr>ac_roles := ac_roles s'\<rparr>" using t(2) by simp
  show "repo_get (ent_id r) (ac_roles s) = None" using repo_add_new(3) [OF t(1)] .
  assume p: "\<And>p. p \<in> set (rl_permissions row) \<Longrightarrow> repo_get p (ac_permissions s) \<noteq> None"
  show "grows s s'" unfolding grows_def
  proof (intro impI conjI)
    assume ok: "access_ok s"
    then have tk: "table_ok (ac_roles s)" by (simp add: access_ok_def roles_ok_def)
    have u: "unique (\<lambda>r r2. rl_organization_id r = rl_organization_id r2 \<and> rl_organization_id r \<noteq> None \<and> rl_slug r = rl_slug r2) t"
    proof (rule unique_add [OF t(1)])
      fix k x assume "repo_get k (ac_roles s) = Some x"
      from no_row [OF tk t(3) this] show "\<not> (rl_organization_id x = rl_organization_id r \<and> rl_organization_id x \<noteq> None \<and> rl_slug x = rl_slug r)
        \<and> \<not> (rl_organization_id r = rl_organization_id x \<and> rl_organization_id r \<noteq> None \<and> rl_slug r = rl_slug x)"
        by (subst (1 2 3 4 5) r) auto
    qed (use ok in \<open>simp add: access_ok_def roles_ok_def\<close>)
    have "roles_ok s'" using ok repo_add_ok [OF tk t(1)] u p r unfolding access_ok_def roles_ok_def t(2)
      by (auto simp: repo_add_new(4) [OF t(1)] split: if_splits) (metis role.select_convs(5) role.surjective role.update_convs(5) entity.update_convs(1))
    moreover have "members_ok s'" using ok st t(2) by (intro members_ok_stays [of s s']) (simp_all add: access_ok_def members_ok_def)
    moreover have "invitations_ok s'" using ok st t(2) by (intro invitations_ok_stays [of s s']) (simp_all add: access_ok_def)
    ultimately show "access_ok s'" using ok t(2) keys_ok_same [of s' s] by (simp add: access_ok_def)
    show "after s s'" using st t(2) by (simp add: after_def)
  qed
qed

lemma add_org_Inr:
  assumes "add_org row s = (Inr og, s')"
  shows "grows s s'" "repo_get (ent_id og) (ac_orgs s') = Some og" "s' = s\<lparr>ac_orgs := ac_orgs s'\<rparr>" "repo_get (ent_id og) (ac_orgs s) = None"
proof -
  from assms obtain t where t: "repo_add row (ac_orgs s) = (og, t)" "s' = s\<lparr>ac_orgs := t\<rparr>"
    by (auto simp: add_org_def split: if_splits prod.splits)
  have st: "stays (ac_orgs s) (=) (ac_orgs s')" using stays_add [OF t(1)] t(2) by simp
  show "repo_get (ent_id og) (ac_orgs s') = Some og" by (simp add: t(2) repo_add_new(4) [OF t(1)])
  show "s' = s\<lparr>ac_orgs := ac_orgs s'\<rparr>" using t(2) by simp
  show "repo_get (ent_id og) (ac_orgs s) = None" using repo_add_new(3) [OF t(1)] .
  show "grows s s'" unfolding grows_def
  proof (intro impI conjI)
    assume ok: "access_ok s"
    then have "table_ok t" using repo_add_ok [OF _ t(1)] by (simp add: access_ok_def members_ok_def)
    then have "members_ok s'" using ok st t(2) by (intro members_ok_stays [of s s']) (simp_all add: access_ok_def)
    moreover have "invitations_ok s'" using ok st t(2) by (intro invitations_ok_stays [of s s']) (simp_all add: access_ok_def)
    ultimately show "access_ok s'" using ok t(2) same_tables [of s' s] by (simp add: access_ok_def)
    show "after s s'" using st t(2) by (simp add: after_def)
  qed
qed

lemma add_org_member_Inr:
  assumes "add_org_member org usr i now s = (Inr m, s')"
  shows "role_in i org s \<Longrightarrow> repo_get org (ac_orgs s) \<noteq> None \<Longrightarrow> grows s s'" "s' = s\<lparr>ac_members := ac_members s'\<rparr>"
    "base_query False (ac_members s') = base_query False (ac_members s) @ [m]"
    "om_organization_id m = org" "om_user_id m = usr" "om_role_id m = i"
    "\<And>m'. m' \<in> set (base_query False (ac_members s)) \<Longrightarrow> om_organization_id m' \<noteq> org \<or> om_user_id m' \<noteq> usr"
proof -
  let ?row = "\<lparr>ent_id = 0, created_at = now, deleted_at = None, om_organization_id = org, om_user_id = usr, om_role_id = i, om_status = MEMBER_ACTIVE\<rparr>"
  from assms obtain t where t: "repo_add ?row (ac_members s) = (m, t)" "s' = s\<lparr>ac_members := t\<rparr>"
      "\<not> list_ex (\<lambda>m. om_organization_id m = org \<and> om_user_id m = usr) (all_rows (ac_members s))"
    by (auto simp: add_org_member_def split: if_splits prod.splits)
  note m = repo_add_new(1) [OF t(1)]
  show "s' = s\<lparr>ac_members := ac_members s'\<rparr>" using t(2) by simp
  show "om_organization_id m = org" "om_user_id m = usr" "om_role_id m = i" by (simp_all add: m)
  show "base_query False (ac_members s') = base_query False (ac_members s) @ [m]"
    using repo_add_new(2) [OF t(1)] by (simp add: t(2) base_query_def m)
  show "om_organization_id m' \<noteq> org \<or> om_user_id m' \<noteq> usr" if "m' \<in> set (base_query False (ac_members s))" for m'
    using that t(3) by (auto simp: base_query_def all_rows_def list_ex_iff)
  assume r: "role_in i org s" "repo_get org (ac_orgs s) \<noteq> None"
  show "grows s s'" unfolding grows_def
  proof (intro impI conjI)
    assume ok: "access_ok s"
    then have tk: "table_ok (ac_members s)" by (simp add: access_ok_def members_ok_def)
    have "unique (\<lambda>m m2. om_organization_id m = om_organization_id m2 \<and> om_user_id m = om_user_id m2) t"
    proof (rule unique_add [OF t(1)])
      fix k x assume "repo_get k (ac_members s) = Some x"
      from no_row [OF tk t(3) this] show "\<not> (om_organization_id x = om_organization_id m \<and> om_user_id x = om_user_id m)
        \<and> \<not> (om_organization_id m = om_organization_id x \<and> om_user_id m = om_user_id x)" by (auto simp: m)
    qed (use ok in \<open>simp add: access_ok_def members_ok_def\<close>)
    moreover have "role_in (om_role_id x) (om_organization_id x) s' \<and> repo_get (om_organization_id x) (ac_orgs s') \<noteq> None" if "repo_get k t = Some x" for k x
    proof (cases "k = ent_id m")
      case True
      with that have "x = m" by (simp add: repo_add_new(4) [OF t(1)])
      with r show ?thesis using role_in_same [of s' s] by (simp add: t(2) m)
    next
      case False
      with that have "repo_get k (ac_members s) = Some x" by (simp add: repo_add_new(4) [OF t(1)])
      then show ?thesis using ok role_in_same [of s' s] unfolding access_ok_def members_ok_def by (auto simp: t(2))
    qed
    ultimately have "members_ok s'" using ok repo_add_ok [OF tk t(1)] by (simp add: members_ok_def access_ok_def t(2))
    with ok t(2) same_tables [of s' s] show "access_ok s'" by (simp add: access_ok_def)
    show "after s s'" using t(2) by (simp add: after_def)
  qed
qed

lemma put_member_grows:
  assumes "access_ok s" "repo_get (ent_id m) (ac_members s) = Some m" "role_in i (om_organization_id m) s"
  shows "grows s (s\<lparr>ac_members := repo_put (m\<lparr>om_role_id := i\<rparr>) (ac_members s)\<rparr>)"
  unfolding grows_def
proof (intro impI conjI)
  let ?s = "s\<lparr>ac_members := repo_put (m\<lparr>om_role_id := i\<rparr>) (ac_members s)\<rparr>"
  have g: "repo_get (ent_id (m\<lparr>om_role_id := i\<rparr>)) (ac_members s) = Some m" using assms(2) by simp
  have "unique (\<lambda>m m2. om_organization_id m = om_organization_id m2 \<and> om_user_id m = om_user_id m2) (ac_members ?s)"
    using unique_put [OF g] assms(1) by (simp add: access_ok_def members_ok_def)
  moreover have "role_in (om_role_id x) (om_organization_id x) ?s \<and> repo_get (om_organization_id x) (ac_orgs ?s) \<noteq> None"
    if "repo_get k (ac_members ?s) = Some x" for k x
    using that assms role_in_same [of ?s s] unfolding access_ok_def members_ok_def by (auto split: if_splits)
  ultimately have "members_ok ?s" using assms(1) by (simp add: access_ok_def members_ok_def)
  with assms(1) same_tables [of ?s s] show "access_ok ?s" by (simp add: access_ok_def)
  show "after s ?s" by (simp add: after_def)
qed

lemma put_invitation_grows:
  assumes "repo_get (ent_id v') (ac_invitations s) = Some v" "same_invitation v v'"
  shows "grows s (s\<lparr>ac_invitations := repo_put v' (ac_invitations s)\<rparr>)"
  unfolding grows_def
proof (intro impI conjI)
  let ?s = "s\<lparr>ac_invitations := repo_put v' (ac_invitations s)\<rparr>"
  assume ok: "access_ok s"
  have "unique (\<lambda>v v2. iv_token_hash v = iv_token_hash v2) (ac_invitations ?s)"
    using unique_put [OF assms(1)] assms(2) ok by (simp add: access_ok_def invitations_ok_def same_invitation_def)
  moreover have "role_in (iv_role_id x) (iv_organization x) ?s \<and> repo_get (iv_organization x) (ac_orgs ?s) \<noteq> None" if "repo_get k (ac_invitations ?s) = Some x" for k x
    using that assms ok role_in_same [of ?s s] unfolding access_ok_def invitations_ok_def same_invitation_def by (auto split: if_splits)
  ultimately have "invitations_ok ?s" using ok by (simp add: access_ok_def invitations_ok_def)
  with ok same_tables [of ?s s] show "access_ok ?s" by (simp add: access_ok_def)
  show "after s ?s" using stays_put [OF assms(1), of same_invitation] assms(2) by (simp add: after_def)
qed

lemma put_key_grows:
  assumes "repo_get (ent_id k') (ac_keys s) = Some k" "same_key k k'"
  shows "grows s (s\<lparr>ac_keys := repo_put k' (ac_keys s)\<rparr>)"
  unfolding grows_def
proof (intro impI conjI)
  let ?s = "s\<lparr>ac_keys := repo_put k' (ac_keys s)\<rparr>"
  assume ok: "access_ok s"
  have "unique (\<lambda>k k2. ak_prefix k = ak_prefix k2) (ac_keys ?s)"
    using unique_put [OF assms(1)] assms(2) ok by (simp add: access_ok_def keys_ok_def same_key_def)
  then have "keys_ok ?s" using ok by (simp add: access_ok_def keys_ok_def)
  with ok same_tables [of ?s s] show "access_ok ?s" by (simp add: access_ok_def)
  show "after s ?s" using stays_put [OF assms(1), of same_key] assms(2) by (simp add: after_def)
qed

lemma add_invitation_Inr:
  assumes "add_invitation row s = (Inr v, s')"
  shows "role_in (iv_role_id row) (iv_organization row) s \<Longrightarrow> repo_get (iv_organization row) (ac_orgs s) \<noteq> None \<Longrightarrow> grows s s'" "s' = s\<lparr>ac_invitations := ac_invitations s'\<rparr>"
    "repo_get (ent_id v) (ac_invitations s') = Some v" "v = row\<lparr>ent_id := ent_id v\<rparr>"
proof -
  from assms obtain t where t: "repo_add row (ac_invitations s) = (v, t)" "s' = s\<lparr>ac_invitations := t\<rparr>"
      "invitation_by_hash (iv_token_hash row) s = None"
    by (auto simp: add_invitation_def split: if_splits prod.splits)
  show "s' = s\<lparr>ac_invitations := ac_invitations s'\<rparr>" using t(2) by simp
  show "repo_get (ent_id v) (ac_invitations s') = Some v" by (simp add: t(2) repo_add_new(4) [OF t(1)])
  show v: "v = row\<lparr>ent_id := ent_id v\<rparr>" using repo_add_new(1) [OF t(1)] by (metis entity.select_convs(1) entity.surjective entity.update_convs(1))
  assume r: "role_in (iv_role_id row) (iv_organization row) s" "repo_get (iv_organization row) (ac_orgs s) \<noteq> None"
  show "grows s s'" unfolding grows_def
  proof (intro impI conjI)
    assume ok: "access_ok s"
    then have tk: "table_ok (ac_invitations s)" by (simp add: access_ok_def invitations_ok_def)
    have "unique (\<lambda>v v2. iv_token_hash v = iv_token_hash v2) t"
    proof (rule unique_add [OF t(1)])
      fix k x assume "repo_get k (ac_invitations s) = Some x"
      from row_by_None [OF tk t(3) [unfolded invitation_by_hash_def] this]
      show "\<not> iv_token_hash x = iv_token_hash v \<and> \<not> iv_token_hash v = iv_token_hash x" by (subst (1 2) v) auto
    qed (use ok in \<open>simp add: access_ok_def invitations_ok_def\<close>)
    moreover have "role_in (iv_role_id x) (iv_organization x) s' \<and> repo_get (iv_organization x) (ac_orgs s') \<noteq> None" if "repo_get k t = Some x" for k x
    proof (cases "k = ent_id v")
      case True
      with that have "x = v" by (simp add: repo_add_new(4) [OF t(1)])
      with r show ?thesis using role_in_same [of s' s] by (simp add: t(2) repo_add_new(1) [OF t(1)])
    next
      case False
      with that have "repo_get k (ac_invitations s) = Some x" by (simp add: repo_add_new(4) [OF t(1)])
      then show ?thesis using ok role_in_same [of s' s] unfolding access_ok_def invitations_ok_def by (auto simp: t(2))
    qed
    ultimately have "invitations_ok s'" using ok repo_add_ok [OF tk t(1)] by (simp add: invitations_ok_def t(2))
    with ok t(2) same_tables [of s' s] show "access_ok s'" by (simp add: access_ok_def)
    show "after s s'" using stays_add [OF t(1), of same_invitation] t(2) by (simp add: after_def)
  qed
qed

lemma add_key_Inr:
  assumes "add_key row s = (Inr k, s')"
  shows "grows s s'" "s' = s\<lparr>ac_keys := ac_keys s'\<rparr>" "repo_get (ent_id k) (ac_keys s') = Some k" "k = row\<lparr>ent_id := ent_id k\<rparr>"
proof -
  from assms obtain t where t: "repo_add row (ac_keys s) = (k, t)" "s' = s\<lparr>ac_keys := t\<rparr>" "keys_by_prefix (ak_prefix row) s = None"
    by (auto simp: add_key_def split: if_splits prod.splits)
  show "s' = s\<lparr>ac_keys := ac_keys s'\<rparr>" using t(2) by simp
  show "repo_get (ent_id k) (ac_keys s') = Some k" by (simp add: t(2) repo_add_new(4) [OF t(1)])
  show k: "k = row\<lparr>ent_id := ent_id k\<rparr>" using repo_add_new(1) [OF t(1)] by (metis entity.select_convs(1) entity.surjective entity.update_convs(1))
  show "grows s s'" unfolding grows_def
  proof (intro impI conjI)
    assume ok: "access_ok s"
    then have tk: "table_ok (ac_keys s)" by (simp add: access_ok_def keys_ok_def)
    have "unique (\<lambda>k k2. ak_prefix k = ak_prefix k2) t"
    proof (rule unique_add [OF t(1)])
      fix i x assume "repo_get i (ac_keys s) = Some x"
      from row_by_None [OF tk t(3) [unfolded keys_by_prefix_def] this]
      show "\<not> ak_prefix x = ak_prefix k \<and> \<not> ak_prefix k = ak_prefix x" by (subst (1 2) k) auto
    qed (use ok in \<open>simp add: access_ok_def keys_ok_def\<close>)
    then have "keys_ok s'" using repo_add_ok [OF tk t(1)] by (simp add: keys_ok_def t(2))
    with ok t(2) same_tables [of s' s] show "access_ok s'" by (simp add: access_ok_def)
    show "after s s'" using stays_add [OF t(1), of same_key] t(2) by (simp add: after_def)
  qed
qed

lemma then_do_access:
  assumes "then_do f g s = (Inr y, s2)"
  obtains x s1 where "f s = (Inr x, s1)" "g x s1 = (Inr y, s2)"
  using assms by (auto simp: then_do_Inr)

definition catalog_ok :: "(string, permission) dict \<Rightarrow> access_state \<Rightarrow> bool" where
  "catalog_ok d s \<longleftrightarrow> (\<forall>slug p. dict_get d slug = Some p \<longrightarrow> repo_get (ent_id p) (ac_permissions s) = Some p \<and> pm_slug p = slug)"

lemma seed_permissions_Inr:
  assumes "seed_permissions l existing now s = (Inr d, s')" "catalog_ok existing s"
  shows "grows s s' \<and> s' = s\<lparr>ac_permissions := ac_permissions s'\<rparr> \<and> stays (ac_permissions s) (=) (ac_permissions s') \<and> catalog_ok d s'
    \<and> (\<forall>x. dict_get existing x \<noteq> None \<or> x \<in> fst ` set l \<longrightarrow> dict_get d x \<noteq> None)"
  using assms
proof (induction l existing now arbitrary: s rule: seed_permissions.induct)
  case (1 existing now)
  then show ?case by (simp add: give_def)
next
  case (2 slug description rest existing now)
  show ?case
  proof (cases "dict_get existing slug = None")
    case False
    with "2.prems"(1) have "seed_permissions rest existing now s = (Inr d, s')" by simp
    from "2.IH"(2) [OF False this "2.prems"(2)] False show ?thesis by auto
  next
    case True
    with "2.prems"(1) obtain p s1 where p: "add_permission slug description now s = (Inr p, s1)"
        and r: "seed_permissions rest (dict_set slug p existing) now s1 = (Inr d, s')"
      by (auto elim: then_do_access)
    note a = add_permission_Inr [OF p]
    have st: "stays (ac_permissions s) (=) (ac_permissions s1)"
      using p stays_add by (fastforce simp: add_permission_def split: if_splits prod.splits)
    have "catalog_ok (dict_set slug p existing) s1"
      using "2.prems"(2) a(2,3) st unfolding catalog_ok_def stays_def by (auto simp: dict_get_set)
    from "2.IH"(1) [OF True r this] a(1) st a(4) show ?thesis
      by (auto simp: dict_get_set intro: grows_trans stays_trans) (metis access_state.surjective access_state.update_convs(1) access_state.select_convs(1))+
  qed
qed

lemma catalog_foldl:
  assumes "\<forall>p \<in> set ps. repo_get (ent_id p) (ac_permissions s) = Some p" "catalog_ok d s"
  shows "catalog_ok (foldl (\<lambda>d p. dict_set (pm_slug p) p d) d ps) s"
  using assms
proof (induction ps arbitrary: d)
  case (Cons p ps)
  have "catalog_ok (dict_set (pm_slug p) p d) s" using Cons.prems by (auto simp: catalog_ok_def dict_get_set)
  with Cons show ?case by simp
qed simp

lemma ensure_permissions_Inr:
  assumes "ensure_permissions now s = (Inr d, s')" "access_ok s"
  shows "grows s s'" "s' = s\<lparr>ac_permissions := ac_permissions s'\<rparr>" "stays (ac_permissions s) (=) (ac_permissions s')" "catalog_ok d s'"
    "\<forall>x \<in> set ALL_PERMISSIONS. dict_get d x \<noteq> None"
proof -
  have "table_ok (ac_permissions s)" using assms(2) by (simp add: access_ok_def roles_ok_def)
  moreover have "set (list_all_rows 1000 0 (ac_permissions s)) \<subseteq> set (all_rows (ac_permissions s))"
    unfolding list_all_rows_def all_rows_def drop_0 by (rule set_take_subset)
  ultimately have "\<forall>p \<in> set (list_all_rows 1000 0 (ac_permissions s)). repo_get (ent_id p) (ac_permissions s) = Some p"
    by (metis rows_mem subsetD)
  then have c: "catalog_ok (foldl (\<lambda>d p. dict_set (pm_slug p) p d) [] (list_all_rows 1000 0 (ac_permissions s))) s"
    by (rule catalog_foldl) (simp add: catalog_ok_def)
  note r = seed_permissions_Inr [OF assms(1) [unfolded ensure_permissions_def] c]
  note r2 = conjunct2 [OF r] note r3 = conjunct2 [OF r2] note r4 = conjunct2 [OF r3]
  show "grows s s'" "s' = s\<lparr>ac_permissions := ac_permissions s'\<rparr>" "stays (ac_permissions s) (=) (ac_permissions s')" "catalog_ok d s'"
    by (rule conjunct1 [OF r] conjunct1 [OF r2] conjunct1 [OF r3] conjunct1 [OF r4])+
  show "\<forall>x \<in> set ALL_PERMISSIONS. dict_get d x \<noteq> None" using conjunct2 [OF r4] by (auto simp: ALL_PERMISSIONS_def)
qed

lemma provision_roles_Inr:
  assumes "provision_roles l d org now s = (Inr rs, s')" "catalog_ok d s" "\<forall>(sr, slugs) \<in> set l. \<forall>x \<in> set slugs. dict_get d x \<noteq> None"
  shows "grows s s' \<and> s' = s\<lparr>ac_roles := ac_roles s'\<rparr> \<and> stays (ac_roles s) (=) (ac_roles s')
    \<and> list_all2 (\<lambda>(sr, slugs) (sr', r). sr' = sr \<and> repo_get (ent_id r) (ac_roles s') = Some r \<and> rl_organization_id r = Some org
         \<and> rl_slug r = system_role_value sr \<and> rl_permissions r = map (\<lambda>x. ent_id (the (dict_get d x))) slugs) l rs"
  using assms
proof (induction l d org now arbitrary: s rs rule: provision_roles.induct)
  case (1 d org now)
  then show ?case by (simp add: give_def)
next
  case (2 sr slugs rest d org now)
  let ?row = "\<lparr>ent_id = 0, created_at = now, deleted_at = None, rl_slug = system_role_value sr, rl_name = ROLE_DISPLAY sr,
         rl_is_system = True, rl_organization_id = Some org, rl_permissions = map (\<lambda>x. ent_id (the (dict_get d x))) slugs\<rparr>"
  from "2.prems"(1) obtain r s1 roles where r: "add_role ?row s = (Inr r, s1)" and p: "provision_roles rest d org now s1 = (Inr roles, s')"
      and rs: "rs = (sr, r) # roles"
    by (auto simp: give_def elim!: then_do_access)
  note a = add_role_Inr [OF r]
  have g: "grows s s1"
  proof (rule a(1))
    fix p assume "p \<in> set (rl_permissions ?row)"
    then obtain x where "x \<in> set slugs" "p = ent_id (the (dict_get d x))" by auto
    with "2.prems"(2,3) show "repo_get p (ac_permissions s) \<noteq> None" by (fastforce simp: catalog_ok_def)
  qed
  have "catalog_ok d s1" using "2.prems"(2) by (subst a(4)) (simp add: catalog_ok_def)
  from "2.IH" [OF p this] "2.prems"(3)
  have ih: "grows s1 s'" "s' = s1\<lparr>ac_roles := ac_roles s'\<rparr>" "stays (ac_roles s1) (=) (ac_roles s')"
    "list_all2 (\<lambda>(sr, slugs) (sr', r). sr' = sr \<and> repo_get (ent_id r) (ac_roles s') = Some r \<and> rl_organization_id r = Some org
         \<and> rl_slug r = system_role_value sr \<and> rl_permissions r = map (\<lambda>x. ent_id (the (dict_get d x))) slugs) rest roles" by auto
  have "repo_get (ent_id r) (ac_roles s') = Some r" using ih(3) a(2) unfolding stays_def by blast
  moreover have "rl_organization_id r = Some org" "rl_slug r = system_role_value sr" "rl_permissions r = map (\<lambda>x. ent_id (the (dict_get d x))) slugs"
    by (subst a(3), simp)+
  moreover have "s' = s\<lparr>ac_roles := ac_roles s'\<rparr>" using ih(2) a(4)
    by (metis (no_types, lifting) access_state.surjective access_state.update_convs(2))
  moreover have "stays (ac_roles s) (=) (ac_roles s')" using stays_trans [OF a(6) ih(3)] by simp
  ultimately show ?case using grows_trans [OF g ih(1)] ih(4) by (simp add: rs)
qed

lemma role_slugs_catalog:
  assumes "catalog_ok d s" "\<forall>x \<in> set slugs. dict_get d x \<noteq> None" "rl_permissions r = map (\<lambda>x. ent_id (the (dict_get d x))) slugs"
  shows "role_slugs r s = slugs"
  using assms(1,2) unfolding role_slugs_def assms(3)
  by (induction slugs) (auto simp: List.map_filter_def catalog_ok_def o_assoc)

lemma role_slugs_after:
  assumes "access_ok s" "repo_get i (ac_roles s) = Some r" "stays (ac_permissions s) (=) (ac_permissions s')"
  shows "role_slugs r s' = role_slugs r s"
proof -
  have e: "repo_get p (ac_permissions s') = repo_get p (ac_permissions s)" if "p \<in> set (rl_permissions r)" for p
  proof -
    have "repo_get p (ac_permissions s) \<noteq> None" using assms(1,2) that unfolding access_ok_def roles_ok_def by blast
    then obtain x where "repo_get p (ac_permissions s) = Some x" by blast
    then show ?thesis using assms(3) unfolding stays_def by metis
  qed
  have "List.map_filter (\<lambda>i. repo_get i (ac_permissions s')) l = List.map_filter (\<lambda>i. repo_get i (ac_permissions s)) l"
    if "set l \<subseteq> set (rl_permissions r)" for l
    using that by (induction l) (simp_all add: map_filter_simps e split: option.split)
  then show ?thesis by (simp add: role_slugs_def)
qed

lemma member_role_live:
  assumes "access_ok s" "m \<in> set (base_query False (ac_members s))"
  shows "\<exists>r. repo_get (om_role_id m) (ac_roles s) = Some r \<and> rl_organization_id r = Some (om_organization_id m)"
    "repo_get (om_organization_id m) (ac_orgs s) \<noteq> None" "repo_get (ent_id m) (ac_members s) = Some m"
proof -
  have "table_ok (ac_members s)" using assms(1) by (simp add: access_ok_def members_ok_def)
  with assms(2) show g: "repo_get (ent_id m) (ac_members s) = Some m" by (simp add: base_query_mem)
  with assms(1) show "\<exists>r. repo_get (om_role_id m) (ac_roles s) = Some r \<and> rl_organization_id r = Some (om_organization_id m)"
    "repo_get (om_organization_id m) (ac_orgs s) \<noteq> None" unfolding access_ok_def members_ok_def role_in_def by blast+
qed

lemma uniqueD: "unique C t \<Longrightarrow> repo_get k t = Some x \<Longrightarrow> repo_get k2 t = Some x2 \<Longrightarrow> C x x2 \<Longrightarrow> k = k2"
  unfolding unique_def by blast

lemma membership_unique:
  assumes "access_ok s" "m \<in> set (base_query False (ac_members s))" "m' \<in> set (base_query False (ac_members s))"
    "om_organization_id m = om_organization_id m'" "om_user_id m = om_user_id m'"
  shows "m = m'"
proof -
  have "ent_id m = ent_id m'"
    by (rule uniqueD [where C = "\<lambda>m m2. om_organization_id m = om_organization_id m2 \<and> om_user_id m = om_user_id m2", OF _ member_role_live(3) [OF assms(1,2)] member_role_live(3) [OF assms(1,3)]])
      (use assms(1,4,5) in \<open>simp_all add: access_ok_def members_ok_def\<close>)
  with member_role_live(3) [OF assms(1,2)] member_role_live(3) [OF assms(1,3)] show ?thesis by (metis option.inject)
qed

text \<open>What a user holds in an organization depends on the one live membership only.\<close>

lemma permissions_spec:
  assumes "access_ok s"
  shows "p \<in> set (get_permissions_for_user u i s) \<longleftrightarrow>
    (\<exists>m \<in> set (base_query False (ac_members s)). om_user_id m = u \<and> om_organization_id m = i
       \<and> (\<exists>r. repo_get (om_role_id m) (ac_roles s) = Some r \<and> p \<in> set (role_slugs r s)))"
proof (cases "\<exists>m \<in> set (base_query False (ac_members s)). om_user_id m = u \<and> om_organization_id m = i")
  case False
  then have "filter (\<lambda>m. om_user_id m = u \<and> om_organization_id m = i) (base_query False (ac_members s)) = []" by (auto simp: filter_empty_conv)
  then have "member_role u i s = None" by (simp only: member_role_def) simp
  with False show ?thesis by (auto simp: get_permissions_for_user_def)
next
  case True
  then obtain m where m: "m \<in> set (base_query False (ac_members s))" "om_user_id m = u" "om_organization_id m = i" by blast
  obtain r where r: "repo_get (om_role_id m) (ac_roles s) = Some r" using member_role_live(1) [OF assms m(1)] by blast
  let ?l = "filter (\<lambda>m. om_user_id m = u \<and> om_organization_id m = i) (base_query False (ac_members s))"
  have all: "x = m" if "x \<in> set ?l" for x
    by (rule membership_unique [OF assms _ m(1)]) (use that m in simp_all)
  have "m \<in> set ?l" using m by simp
  then obtain rest where l: "?l = m # rest" using all by (cases ?l) auto
  then have "member_role u i s = Some r" unfolding member_role_def l by (simp add: r)
  then have g: "get_permissions_for_user u i s = role_slugs r s" by (simp add: get_permissions_for_user_def)
  show ?thesis
  proof
    assume "p \<in> set (get_permissions_for_user u i s)"
    with g have "p \<in> set (role_slugs r s)" by simp
    with r m show "\<exists>m \<in> set (base_query False (ac_members s)). om_user_id m = u \<and> om_organization_id m = i
       \<and> (\<exists>r. repo_get (om_role_id m) (ac_roles s) = Some r \<and> p \<in> set (role_slugs r s))" by (intro bexI [of _ m]) auto
  next
    assume "\<exists>m \<in> set (base_query False (ac_members s)). om_user_id m = u \<and> om_organization_id m = i
       \<and> (\<exists>r. repo_get (om_role_id m) (ac_roles s) = Some r \<and> p \<in> set (role_slugs r s))"
    then obtain m' r' where m': "m' \<in> set (base_query False (ac_members s))" "om_user_id m' = u" "om_organization_id m' = i"
        "repo_get (om_role_id m') (ac_roles s) = Some r'" "p \<in> set (role_slugs r' s)" by blast
    have "m' = m" by (rule all) (simp add: m')
    with m'(4,5) r g show "p \<in> set (get_permissions_for_user u i s)" by simp
  qed
qed

lemma permissions_same:
  assumes "access_ok s" "access_ok s'" "stays (ac_permissions s) (=) (ac_permissions s')" "stays (ac_roles s) (=) (ac_roles s')"
    "\<And>m. m \<in> set (base_query False (ac_members s')) \<Longrightarrow> om_user_id m = u \<Longrightarrow> om_organization_id m = i \<Longrightarrow> m \<in> set (base_query False (ac_members s))"
    "p \<in> set (get_permissions_for_user u i s')"
  shows "p \<in> set (get_permissions_for_user u i s)"
proof -
  from assms(6) obtain m r where m: "m \<in> set (base_query False (ac_members s'))" "om_user_id m = u" "om_organization_id m = i"
      and r: "repo_get (om_role_id m) (ac_roles s') = Some r" "p \<in> set (role_slugs r s')"
    unfolding permissions_spec [OF assms(2)] by blast
  have m': "m \<in> set (base_query False (ac_members s))" by (rule assms(5)) (rule m)+
  obtain r' where r': "repo_get (om_role_id m) (ac_roles s) = Some r'" using member_role_live(1) [OF assms(1) m'] by blast
  then have "r' = r" using assms(4) r(1) unfolding stays_def by fastforce
  with role_slugs_after [OF assms(1) r' assms(3)] r(2) r' m m' show ?thesis unfolding permissions_spec [OF assms(1)] by metis
qed

lemma list_all2_mem: "list_all2 P xs ys \<Longrightarrow> x \<in> set xs \<Longrightarrow> \<exists>y \<in> set ys. P x y"
  by (induction rule: list_all2_induct) auto

lemma create_organization_Inr:
  assumes "create_organization name owner slug nonce now s = (Inr og, s')" "access_ok s"
  shows "grows s s'" "repo_get (ent_id og) (ac_orgs s) = None" "repo_get (ent_id og) (ac_orgs s') = Some og"
    "\<exists>m r. base_query False (ac_members s') = base_query False (ac_members s) @ [m] \<and> om_organization_id m = ent_id og \<and> om_user_id m = owner
       \<and> repo_get (om_role_id m) (ac_roles s') = Some r \<and> rl_slug r = ''owner'' \<and> role_slugs r s' = ALL_PERMISSIONS"
    "\<forall>(sr, slugs) \<in> set DEFAULT_ROLE_PERMISSIONS. \<exists>r. repo_get (ent_id r) (ac_roles s') = Some r \<and> rl_organization_id r = Some (ent_id og)
       \<and> rl_slug r = system_role_value sr \<and> role_slugs r s' = slugs"
    "ac_invitations s' = ac_invitations s" "ac_keys s' = ac_keys s"
proof -
  let ?slug = "if truthy slug then the slug else slugify name"
  obtain taken s0 where t: "org_slug_exists ?slug s = (Inr taken, s0)"
      and c1: "then_do (add_org \<lparr>ent_id = 0, created_at = now, deleted_at = None, og_name = name,
          og_slug = (if taken then ?slug @ ''-'' @ nc_suffix nonce else ?slug), og_owner_id = owner\<rparr>) (\<lambda>og.
      then_do (provision_system_roles (ent_id og) now) (\<lambda>roles.
      then_do (add_org_member (ent_id og) owner (ent_id (the (dict_get roles OWNER))) now) (\<lambda>_. give og))) s0 = (Inr og, s')"
    using assms(1) unfolding create_organization_def Let_def by (rule then_do_access)
  from c1 obtain row og1 s1 where o: "add_org row s0 = (Inr og1, s1)"
      and c2: "then_do (provision_system_roles (ent_id og1) now) (\<lambda>roles.
      then_do (add_org_member (ent_id og1) owner (ent_id (the (dict_get roles OWNER))) now) (\<lambda>_. give og1)) s1 = (Inr og, s')"
    by (rule then_do_access)
  from c2 obtain roles s2 where p: "provision_system_roles (ent_id og1) now s1 = (Inr roles, s2)"
      and c3: "then_do (add_org_member (ent_id og1) owner (ent_id (the (dict_get roles OWNER))) now) (\<lambda>_. give og1) s2 = (Inr og, s')"
    by (rule then_do_access)
  from c3 obtain m where "og1 = og" and m: "add_org_member (ent_id og) owner (ent_id (the (dict_get roles OWNER))) now s2 = (Inr m, s')"
    by (rule then_do_access) (simp add: give_def)
  note o = o [unfolded \<open>og1 = og\<close>] and p = p [unfolded \<open>og1 = og\<close>]
  have s0: "s0 = s" using t by (auto simp: org_slug_exists_def one_or_none_def give_def then_do_Inr split: list.splits)
  note o = o [unfolded s0]
  note a = add_org_Inr [OF o]
  have ok1: "access_ok s1" using growsD [OF a(1) assms(2)] by blast
  from p obtain d s3 where d: "ensure_permissions now s1 = (Inr d, s3)" and r: "provision_roles DEFAULT_ROLE_PERMISSIONS d (ent_id og) now s3 = (Inr roles, s2)"
    by (auto simp: provision_system_roles_def elim!: then_do_access)
  note e = ensure_permissions_Inr [OF d ok1]
  have known: "\<forall>(sr, slugs) \<in> set DEFAULT_ROLE_PERMISSIONS. \<forall>x \<in> set slugs. dict_get d x \<noteq> None"
  proof -
    have "\<forall>(sr, slugs) \<in> set DEFAULT_ROLE_PERMISSIONS. set slugs \<subseteq> set ALL_PERMISSIONS" by code_simp
    with e(5) show ?thesis by fastforce
  qed
  note q = provision_roles_Inr [OF r e(4) known]
  have q2: "s2 = s3\<lparr>ac_roles := ac_roles s2\<rparr>" using q by blast
  have s2: "ac_permissions s2 = ac_permissions s3" "ac_orgs s2 = ac_orgs s3" "ac_members s2 = ac_members s3"
      "ac_invitations s2 = ac_invitations s3" "ac_keys s2 = ac_keys s3"
    by (subst q2, simp)+
  have s3: "ac_orgs s3 = ac_orgs s1" "ac_members s3 = ac_members s1" "ac_invitations s3 = ac_invitations s1" "ac_keys s3 = ac_keys s1"
    by (subst e(2), simp)+
  have s1: "ac_members s1 = ac_members s" "ac_invitations s1 = ac_invitations s" "ac_keys s1 = ac_keys s"
    by (subst a(3), simp)+
  have cat: "catalog_ok d s2" using e(4) by (simp add: catalog_ok_def s2)
  have g2: "grows s s2" using grows_trans [OF grows_trans [OF a(1) e(1)]] q by blast
  have slugs: "role_slugs r s2 = slugs" if "(sr, slugs) \<in> set DEFAULT_ROLE_PERMISSIONS" "rl_permissions r = map (\<lambda>x. ent_id (the (dict_get d x))) slugs" for r sr slugs
    using role_slugs_catalog [OF cat _ that(2)] known that(1) by fastforce
  from q have l2: "list_all2 (\<lambda>(sr, slugs) (sr', r). sr' = sr \<and> repo_get (ent_id r) (ac_roles s2) = Some r \<and> rl_organization_id r = Some (ent_id og)
         \<and> rl_slug r = system_role_value sr \<and> rl_permissions r = map (\<lambda>x. ent_id (the (dict_get d x))) slugs) DEFAULT_ROLE_PERMISSIONS roles" by blast
  then obtain r0 where r0: "dict_get roles OWNER = Some r0" "repo_get (ent_id r0) (ac_roles s2) = Some r0" "rl_organization_id r0 = Some (ent_id og)"
      "rl_slug r0 = ''owner''" "rl_permissions r0 = map (\<lambda>x. ent_id (the (dict_get d x))) ALL_PERMISSIONS"
    by (auto simp: DEFAULT_ROLE_PERMISSIONS_def list_all2_Cons1)
  note w = add_org_member_Inr [OF m]
  have org2: "repo_get (ent_id og) (ac_orgs s2) = Some og" using a(2) by (simp add: s2 s3)
  have g: "grows s2 s'" by (rule w(1)) (use r0 org2 in \<open>auto simp: role_in_def\<close>)
  show "grows s s'" using grows_trans [OF g2 g] .
  show "repo_get (ent_id og) (ac_orgs s) = None" by (rule a(4))
  have roles: "ac_roles s' = ac_roles s2" "ac_permissions s' = ac_permissions s2" "ac_orgs s' = ac_orgs s2" "ac_invitations s' = ac_invitations s2"
      "ac_keys s' = ac_keys s2"
    by (subst w(2), simp)+
  then have rs: "role_slugs r s' = role_slugs r s2" for r by (simp add: role_slugs_def)
  show "repo_get (ent_id og) (ac_orgs s') = Some og" using org2 roles by simp
  show "ac_invitations s' = ac_invitations s" "ac_keys s' = ac_keys s" using roles s1 s2 s3 by simp_all
  have ow: "(OWNER, ALL_PERMISSIONS) \<in> set DEFAULT_ROLE_PERMISSIONS" by (simp add: DEFAULT_ROLE_PERMISSIONS_def)
  show "\<exists>m r. base_query False (ac_members s') = base_query False (ac_members s) @ [m] \<and> om_organization_id m = ent_id og \<and> om_user_id m = owner
       \<and> repo_get (om_role_id m) (ac_roles s') = Some r \<and> rl_slug r = ''owner'' \<and> role_slugs r s' = ALL_PERMISSIONS"
    using w(3,4,5,6) r0 roles s1(1) s2(3) s3(2) slugs [OF ow r0(5)] rs [of r0] by (intro exI [of _ m] exI [of _ r0]) simp
  show "\<forall>(sr, slugs) \<in> set DEFAULT_ROLE_PERMISSIONS. \<exists>r. repo_get (ent_id r) (ac_roles s') = Some r \<and> rl_organization_id r = Some (ent_id og)
       \<and> rl_slug r = system_role_value sr \<and> role_slugs r s' = slugs"
  proof (intro ballI, clarsimp simp only: split_paired_all prod.case)
    fix sr sl assume i: "(sr, sl) \<in> set DEFAULT_ROLE_PERMISSIONS"
    with l2 obtain r where "repo_get (ent_id r) (ac_roles s2) = Some r" "rl_organization_id r = Some (ent_id og)"
         "rl_slug r = system_role_value sr" "rl_permissions r = map (\<lambda>x. ent_id (the (dict_get d x))) sl"
      by (auto dest!: list_all2_mem)
    then show "\<exists>r. repo_get (ent_id r) (ac_roles s') = Some r \<and> rl_organization_id r = Some (ent_id og)
       \<and> rl_slug r = system_role_value sr \<and> role_slugs r s' = sl" using slugs [OF i] rs roles by metis
  qed
qed

lemma one_or_none_Inr: "one_or_none rs s = (Inr x, s') \<Longrightarrow> s' = s \<and> (case x of None \<Rightarrow> rs = [] | Some r \<Rightarrow> rs = [r])"
  by (auto simp: one_or_none_def split: list.splits)

lemma require_permission_Inr:
  assumes "require_permission p usr (Some i) s = (Inr u, s')"
  shows "s' = s \<and> u = usr \<and> (usr_is_superuser usr \<or> p \<in> set (get_permissions_for_user (ent_id usr) i s))"
  using assms by (auto simp: require_permission_def require_permission_in_def give_def then_do_Inr split: if_splits)

lemma get_org_role_Inr:
  assumes "get_org_role org slug s = (Inr x, s')" "access_ok s"
  shows "s' = s" "x = Some r \<Longrightarrow> role_in (ent_id r) org s \<and> rl_slug r = slug"
proof -
  note o = one_or_none_Inr [OF assms(1) [unfolded get_org_role_def]]
  then show "s' = s" by simp
  assume x: "x = Some r"
  with o have f: "filter (\<lambda>r. rl_organization_id r = Some org \<and> rl_slug r = slug) (all_rows (ac_roles s)) = [r]" by simp
  have "r \<in> set (filter (\<lambda>r. rl_organization_id r = Some org \<and> rl_slug r = slug) (all_rows (ac_roles s)))" unfolding f by simp
  then have r: "r \<in> set (all_rows (ac_roles s))" "rl_organization_id r = Some org" "rl_slug r = slug" by simp_all
  have "table_ok (ac_roles s)" using assms(2) by (simp add: access_ok_def roles_ok_def)
  with r show "role_in (ent_id r) org s \<and> rl_slug r = slug" by (simp add: role_in_def rows_mem)
qed

lemma get_membership_Inr:
  assumes "get_membership org usr s = (Inr x, s')"
  shows "s' = s" "x = Some m \<Longrightarrow> m \<in> set (base_query False (ac_members s)) \<and> om_organization_id m = org \<and> om_user_id m = usr"
proof -
  note o = one_or_none_Inr [OF assms [unfolded get_membership_def]]
  then show "s' = s" by simp
  assume "x = Some m"
  with o have f: "filter (\<lambda>m. om_organization_id m = org \<and> om_user_id m = usr) (base_query False (ac_members s)) = [m]" by simp
  have "m \<in> set (filter (\<lambda>m. om_organization_id m = org \<and> om_user_id m = usr) (base_query False (ac_members s)))" unfolding f by simp
  then show "m \<in> set (base_query False (ac_members s)) \<and> om_organization_id m = org \<and> om_user_id m = usr" by simp
qed

lemma add_member_Inr:
  assumes "add_member org usr slug now s = (Inr m, s')" "access_ok s" "repo_get org (ac_orgs s) \<noteq> None"
  shows "grows s s'" "s' = s\<lparr>ac_members := ac_members s'\<rparr>" "base_query False (ac_members s') = base_query False (ac_members s) @ [m]"
    "om_organization_id m = org" "om_user_id m = usr"
proof -
  obtain x s1 where x: "get_membership org usr s = (Inr x, s1)" and c: "(if x \<noteq> None then access_error ConflictError ''User is already a member of this organization.''
     else then_do (get_org_role org slug) (\<lambda>r. case r of None \<Rightarrow> access_error NotFoundError (role_missing slug) | Some r \<Rightarrow> add_org_member org usr (ent_id r) now)) s1 = (Inr m, s')"
    using assms(1) unfolding add_member_def by (rule then_do_access)
  have "x = None" using c by (auto split: if_splits)
  with c get_membership_Inr(1) [OF x] have "then_do (get_org_role org slug) (\<lambda>r. case r of None \<Rightarrow> access_error NotFoundError (role_missing slug)
      | Some r \<Rightarrow> add_org_member org usr (ent_id r) now) s = (Inr m, s')" by simp
  then obtain y s2 where y: "get_org_role org slug s = (Inr y, s2)" and c2: "(case y of None \<Rightarrow> access_error NotFoundError (role_missing slug)
      | Some r \<Rightarrow> add_org_member org usr (ent_id r) now) s2 = (Inr m, s')" by (rule then_do_access)
  then obtain r where r: "y = Some r" "add_org_member org usr (ent_id r) now s = (Inr m, s')"
    using get_org_role_Inr(1) [OF y assms(2)] by (cases y) auto
  note a = add_org_member_Inr [OF r(2)]
  show "grows s s'" using a(1) get_org_role_Inr(2) [OF y assms(2) r(1)] assms(3) by blast
  show "s' = s\<lparr>ac_members := ac_members s'\<rparr>" "base_query False (ac_members s') = base_query False (ac_members s) @ [m]"
    "om_organization_id m = org" "om_user_id m = usr" by (rule a)+
qed

lemma update_member_role_Inr:
  assumes "update_member_role org usr slug s = (Inr x, s')" "access_ok s"
  obtains m and r :: role where "m \<in> set (base_query False (ac_members s))" "om_organization_id m = org" "om_user_id m = usr" "role_in (ent_id r) org s"
    "rl_slug r = slug" "s' = s\<lparr>ac_members := repo_put (m\<lparr>om_role_id := ent_id r\<rparr>) (ac_members s)\<rparr>" "grows s s'"
proof -
  obtain y s1 where y: "get_membership org usr s = (Inr y, s1)" and c: "(case y of None \<Rightarrow> access_error NotFoundError ''Membership not found.''
     | Some m \<Rightarrow> then_do (get_org_role org slug) (\<lambda>r. case r of None \<Rightarrow> access_error NotFoundError (role_missing slug)
         | Some r \<Rightarrow> then_do (change (\<lambda>s. s\<lparr>ac_members := repo_put (m\<lparr>om_role_id := ent_id r\<rparr>) (ac_members s)\<rparr>)) (\<lambda>_.
             give (m\<lparr>om_role_id := ent_id r\<rparr>)))) s1 = (Inr x, s')"
    using assms(1) unfolding update_member_role_def by (rule then_do_access)
  then obtain m where m: "y = Some m" by (cases y) auto
  note g = get_membership_Inr(1) [OF y] get_membership_Inr(2) [OF y m]
  from c [unfolded m g(1)] obtain z s2 where z: "get_org_role org slug s = (Inr z, s2)"
      and c2: "(case z of None \<Rightarrow> access_error NotFoundError (role_missing slug)
         | Some r \<Rightarrow> then_do (change (\<lambda>s. s\<lparr>ac_members := repo_put (m\<lparr>om_role_id := ent_id r\<rparr>) (ac_members s)\<rparr>)) (\<lambda>_.
             give (m\<lparr>om_role_id := ent_id r\<rparr>))) s2 = (Inr x, s')"
    by (simp only: option.case) (rule then_do_access)
  then obtain r where r: "z = Some r" by (cases z) auto
  note h = get_org_role_Inr(1) [OF z assms(2)] get_org_role_Inr(2) [OF z assms(2) r]
  have s': "s' = s\<lparr>ac_members := repo_put (m\<lparr>om_role_id := ent_id r\<rparr>) (ac_members s)\<rparr>"
    using c2 [unfolded r h(1)] by (auto simp: then_do_def change_def give_def)
  have "grows s s'" unfolding s' by (rule put_member_grows [OF assms(2) member_role_live(3) [OF assms(2)]]) (use g(2) h(2) in simp_all)
  then show ?thesis using that [of m r] g(2) h(2) s' by blast
qed

lemma record_access_grows: "record_access action actor org target s = (Inr x, s') \<Longrightarrow> grows s s' \<and> ac_members s' = ac_members s
   \<and> ac_roles s' = ac_roles s \<and> ac_permissions s' = ac_permissions s \<and> ac_invitations s' = ac_invitations s \<and> ac_keys s' = ac_keys s"
  by (auto simp: record_access_def change_def intro!: grows_same)

lemma invitation_by_hash_Some:
  assumes "access_ok s" "invitation_by_hash h s = Some v"
  shows "repo_get (ent_id v) (ac_invitations s) = Some v" "iv_token_hash v = h"
  using assms row_by_Some [of "ac_invitations s"] unfolding access_ok_def invitations_ok_def invitation_by_hash_def by blast+

lemma invitation_by_hash_eq:
  assumes "access_ok s" "repo_get i (ac_invitations s) = Some v"
  shows "invitation_by_hash (iv_token_hash v) s = Some v"
proof (cases "invitation_by_hash (iv_token_hash v) s")
  case None
  then show ?thesis using row_by_None [OF _ _ assms(2)] assms(1) by (auto simp: invitation_by_hash_def access_ok_def invitations_ok_def)
next
  case (Some w)
  note w = invitation_by_hash_Some [OF assms(1) Some]
  have "ent_id w = i"
    by (rule uniqueD [where C = "\<lambda>v v2. iv_token_hash v = iv_token_hash v2", OF _ w(1) assms(2)])
      (use assms(1) w(2) in \<open>simp_all add: access_ok_def invitations_ok_def\<close>)
  with w(1) assms(2) Some show ?thesis by simp
qed

lemma suppress_conflict_Inr:
  assumes "suppress_conflict f s = (Inr x, s')"
  obtains y where "f s = (Inr y, s')" | a where "f s = (Inl (AuthDb (App a)), s')" "err_kind a = ConflictError"
proof (cases "f s")
  case (Pair r t)
  then show ?thesis using assms that by (cases r) (auto simp: suppress_conflict_def split: auth_exc.splits db_exc.splits if_splits)
qed

lemma add_member_conflict:
  assumes "add_member org usr slug now s = (Inl (AuthDb (App a)), s')"
  shows "s' = s"
proof (cases "get_membership org usr s")
  case (Pair x s1)
  then have "s1 = s" by (auto simp: get_membership_def one_or_none_def split: list.splits)
  moreover have "s2 = s1" if "get_org_role org slug s1 = (y, s2)" for y s2
    using that by (auto simp: get_org_role_def one_or_none_def split: list.splits)
  ultimately show ?thesis using assms Pair
    by (cases "get_org_role org slug s1") (auto simp: add_member_def then_do_def add_org_member_def split: sum.splits option.splits if_splits prod.splits)
qed

lemma accept_invitation_Inr:
  assumes "accept_invitation env token usr now s = (Inr w, s')" "access_ok s"
  obtains v where "invitation_by_hash (xe_sha env token) s = Some v" "iv_state v = INVITE_PENDING" "now \<le> iv_expires_at v" "grows s s'"
    "invitation_by_hash (xe_sha env token) s' = Some w" "iv_state w = INVITE_TAKEN" "ac_roles s' = ac_roles s" "ac_permissions s' = ac_permissions s"
    "\<And>m. m \<in> set (base_query False (ac_members s')) \<Longrightarrow> m \<in> set (base_query False (ac_members s)) \<or> om_user_id m = usr \<and> om_organization_id m = iv_organization v"
proof -
  obtain v where v: "invitation_by_hash (xe_sha env token) s = Some v" "iv_state v = INVITE_PENDING" "now \<le> iv_expires_at v"
    using assms(1) by (auto simp: accept_invitation_def then_do_Inr split: option.splits if_splits)
  let ?w = "v\<lparr>iv_state := INVITE_TAKEN, iv_accepted_at := Some now\<rparr>"
  note i = invitation_by_hash_Some [OF assms(2) v(1)]
  have ri: "role_in (iv_role_id v) (iv_organization v) s" using assms(2) i(1) unfolding access_ok_def invitations_ok_def by blast
  obtain r where r: "repo_get (iv_role_id v) (ac_roles s) = Some r" using ri by (auto simp: role_in_def)
  have "then_do (suppress_conflict (add_member (iv_organization v) usr (rl_slug r) now)) (\<lambda>_. then_do (put_invitation ?w) (\<lambda>_.
      then_do (record_access INVITE_ACCEPTED usr (Some (iv_organization v)) (ent_id v)) (\<lambda>_. give ?w))) s = (Inr w, s')"
    using assms(1) v r by (simp add: accept_invitation_def)
  then obtain x0 s1 where sc: "suppress_conflict (add_member (iv_organization v) usr (rl_slug r) now) s = (Inr x0, s1)"
      and c: "then_do (put_invitation ?w) (\<lambda>_. then_do (record_access INVITE_ACCEPTED usr (Some (iv_organization v)) (ent_id v)) (\<lambda>_. give ?w)) s1 = (Inr w, s')"
    by (rule then_do_access)
  have f: "grows s s1 \<and> s1 = s\<lparr>ac_members := ac_members s1\<rparr>
    \<and> (\<forall>m \<in> set (base_query False (ac_members s1)). m \<in> set (base_query False (ac_members s)) \<or> om_user_id m = usr \<and> om_organization_id m = iv_organization v)"
    using sc
  proof (cases rule: suppress_conflict_Inr)
    case (1 y)
    have "repo_get (iv_organization v) (ac_orgs s) \<noteq> None" using assms(2) i(1) unfolding access_ok_def invitations_ok_def by blast
    note a = add_member_Inr [OF 1 assms(2) this]
    show ?thesis by (intro conjI, rule a(1), rule a(2)) (simp add: a(3,4,5))
  next
    case (2 a)
    from add_member_conflict [OF 2(1)] show ?thesis by simp
  qed
  note f1 = conjunct1 [OF f] and f3 = conjunct2 [OF conjunct2 [OF f]]
  have inv: "ac_invitations s1 = ac_invitations s" "ac_roles s1 = ac_roles s" "ac_permissions s1 = ac_permissions s"
    by (subst conjunct1 [OF conjunct2 [OF f]], simp)+
  define s2 where p: "s2 = s1\<lparr>ac_invitations := repo_put ?w (ac_invitations s1)\<rparr>"
  have "then_do (record_access INVITE_ACCEPTED usr (Some (iv_organization v)) (ent_id v)) (\<lambda>_. give ?w) s2 = (Inr w, s')"
    using c by (simp add: put_invitation_def change_def then_do_eval(1) p)
  then obtain x s3 where ra: "record_access INVITE_ACCEPTED usr (Some (iv_organization v)) (ent_id v) s2 = (Inr x, s3)" and "give ?w s3 = (Inr w :: auth_exc + invitation, s')"
    by (rule then_do_access)
  then have w: "w = ?w" "s3 = s'" by (simp_all add: give_def)
  note ra = ra [unfolded w(2)]
  have g2: "grows s1 s2" unfolding p
    by (rule put_invitation_grows [of _ _ v]) (use i(1) v(2) in \<open>simp_all add: inv same_invitation_def\<close>)
  note g3 = record_access_grows [OF ra]
  have g: "grows s s'" using grows_trans [OF grows_trans [OF f1 g2]] g3 by blast
  have ok': "access_ok s'" using growsD [OF g assms(2)] by blast
  have "repo_get (ent_id v) (ac_invitations s') = Some ?w" using g3 by (simp add: p)
  from invitation_by_hash_eq [OF ok' this] have "invitation_by_hash (xe_sha env token) s' = Some w" by (simp add: i(2) w(1))
  moreover have "ac_members s' = ac_members s1" using g3 by (simp add: p)
  ultimately show ?thesis using that [OF v g] f3 g3 inv by (simp add: p w(1))
qed

definition same_access :: "access_state \<Rightarrow> access_state \<Rightarrow> bool" where
  "same_access s s' \<longleftrightarrow> ac_permissions s' = ac_permissions s \<and> ac_roles s' = ac_roles s \<and> ac_orgs s' = ac_orgs s \<and> ac_members s' = ac_members s
     \<and> ac_invitations s' = ac_invitations s \<and> ac_keys s' = ac_keys s"

lemma same_access_grows: "same_access s s' \<Longrightarrow> grows s s'"
  unfolding same_access_def by (intro grows_same) blast+

lemma same_access_trans: "same_access a b \<Longrightarrow> same_access b c \<Longrightarrow> same_access a c"
  by (simp add: same_access_def)

lemma create_team_same:
  assumes "create_team org name creator slug description nonce now s = (Inr t, s')"
  shows "same_access s s'"
proof -
  from assms obtain row t1 s1 where t1: "add_team row s = (Inr t1, s1)" and c: "then_do (get_org_role org (system_role_value MANAGER)) (\<lambda>r.
      case r of None \<Rightarrow> access_error NotFoundError ''Organization roles are not provisioned.''
      | Some r \<Rightarrow> then_do (put_team_member (ent_id t1) creator (ent_id r) now) (\<lambda>_.
          then_do (record_access TEAM_CREATED creator (Some org) (ent_id t1)) (\<lambda>_. give t1))) s1 = (Inr t, s')"
    unfolding create_team_def Let_def by (rule then_do_access)
  have "same_access s s1" using t1 by (auto simp: add_team_def same_access_def split: if_splits prod.splits)
  moreover from c obtain r s2 where r: "get_org_role org (system_role_value MANAGER) s1 = (Inr (Some r), s2)" and c2: "then_do (put_team_member (ent_id t1) creator (ent_id r) now) (\<lambda>_.
          then_do (record_access TEAM_CREATED creator (Some org) (ent_id t1)) (\<lambda>_. give t1)) s2 = (Inr t, s')"
    by (rule then_do_access) (auto split: option.splits)
  moreover have "s2 = s1" using one_or_none_Inr [OF r [unfolded get_org_role_def]] by simp
  moreover from c2 obtain m s3 where m: "put_team_member (ent_id t1) creator (ent_id r) now s2 = (Inr m, s3)"
      and c3: "then_do (record_access TEAM_CREATED creator (Some org) (ent_id t1)) (\<lambda>_. give t1) s3 = (Inr t, s')"
    by (rule then_do_access)
  moreover have "same_access s2 s3" using m by (auto simp: put_team_member_def same_access_def split: if_splits prod.splits)
  moreover have "same_access s3 s'" using c3 by (auto simp: record_access_def change_def give_def then_do_def same_access_def)
  ultimately show ?thesis using same_access_trans by blast
qed

lemma invite_Inr:
  assumes "invite env org email slug inviter org_name nonce now s = (Inr x, s')" "access_ok s" "repo_get org (ac_orgs s) \<noteq> None"
  shows "grows s s'" "ac_members s' = ac_members s" "ac_roles s' = ac_roles s" "ac_permissions s' = ac_permissions s"
proof -
  let ?row = "\<lambda>r :: role. \<lparr>ent_id = 0, created_at = now, deleted_at = None, iv_organization = org, iv_email = lower email,
             iv_role_id = ent_id r, iv_invited_by_id = inviter, iv_token_hash = xe_sha env (nc_token nonce), iv_state = INVITE_PENDING,
             iv_expires_at = now + days (xe_invitation_days env), iv_accepted_at = None\<rparr>"
  obtain r s1 where r: "get_org_role org slug s = (Inr (Some r), s1)" and c: "then_do (add_invitation (?row r)) (\<lambda>i.
         then_do (send_invitation env email (nc_token nonce) org_name) (\<lambda>_.
         then_do (record_access INVITE_SENT inviter (Some org) (ent_id i)) (\<lambda>_. give (i, nc_token nonce)))) s1 = (Inr x, s')"
    using assms(1) unfolding invite_def by (rule then_do_access) (auto split: option.splits)
  have s1: "s1 = s" and ri: "role_in (ent_id r) org s" using get_org_role_Inr [OF r assms(2)] by simp_all
  from c [unfolded s1] obtain i s2 where i: "add_invitation (?row r) s = (Inr i, s2)"
      and c2: "then_do (send_invitation env email (nc_token nonce) org_name) (\<lambda>_.
         then_do (record_access INVITE_SENT inviter (Some org) (ent_id i)) (\<lambda>_. give (i, nc_token nonce))) s2 = (Inr x, s')"
    by (rule then_do_access)
  note a = add_invitation_Inr [OF i]
  have g: "grows s s2" by (rule a(1)) (use ri assms(3) in simp_all)
  have s: "same_access s2 s'" using c2
    by (auto simp: send_invitation_def record_access_def change_def give_def then_do_def same_access_def split: if_splits)
  show "grows s s'" using grows_trans [OF g same_access_grows [OF s]] .
  have "ac_members s2 = ac_members s" "ac_roles s2 = ac_roles s" "ac_permissions s2 = ac_permissions s" by (subst a(2), simp)+
  with s show "ac_members s' = ac_members s" "ac_roles s' = ac_roles s" "ac_permissions s' = ac_permissions s" by (simp_all add: same_access_def)
qed

lemma revoke_invitation_Inr:
  assumes "revoke_invitation i actor s = (Inr x, s')" "access_ok s"
  shows "grows s s'" "ac_members s' = ac_members s"
proof -
  from assms(1) obtain v where v: "repo_get i (ac_invitations s) = Some v" and c: "then_do (put_invitation (v\<lparr>iv_state := INVITE_WITHDRAWN\<rparr>)) (\<lambda>_.
               record_access INVITE_REVOKED actor (Some (iv_organization v)) (ent_id v)) s = (Inr x, s')"
    by (auto simp: revoke_invitation_def split: option.splits if_splits)
  have i: "ent_id v = i" using assms(2) v table_ok_get [of "ac_invitations s" i v] by (simp add: access_ok_def invitations_ok_def repo_get_def)
  let ?s = "s\<lparr>ac_invitations := repo_put (v\<lparr>iv_state := INVITE_WITHDRAWN\<rparr>) (ac_invitations s)\<rparr>"
  have g: "grows s ?s" by (rule put_invitation_grows [of _ _ v]) (use v i in \<open>simp_all add: same_invitation_def\<close>)
  have "record_access INVITE_REVOKED actor (Some (iv_organization v)) (ent_id v) ?s = (Inr x, s')"
    using c by (simp add: put_invitation_def change_def then_do_eval(1))
  note ra = record_access_grows [OF this]
  show "grows s s'" using grows_trans [OF g] ra by blast
  show "ac_members s' = ac_members s" using ra by simp
qed

lemma create_api_key_Inr:
  assumes "create_api_key env usr name scopes expires org nonce now s = (Inr (k, raw), s')"
  shows "grows s s'" "ac_members s' = ac_members s" "repo_get (ent_id k) (ac_keys s') = Some k" "ak_user_id k = usr" "ak_organization_id k = org"
    "ak_name k = name" "ak_prefix k = ''ayf_'' @ nc_hex nonce" "ak_secret_hash k = xe_sha env (nc_token nonce)" "ak_scopes k = scopes"
    "ak_expires_at k = (case expires of None \<Rightarrow> None | Some d \<Rightarrow> if d = 0 then None else Some (now + days d))" "deleted_at k = None" "ak_revoked_at k = None"
    "raw = ''ayf_'' @ nc_hex nonce @ ''.'' @ nc_token nonce" "set scopes \<subseteq> set ALL_SCOPES"
proof -
  let ?row = "\<lparr>ent_id = 0, created_at = now, deleted_at = None, ak_user_id = usr, ak_organization_id = org, ak_name = name,
               ak_prefix = ''ayf_'' @ nc_hex nonce, ak_secret_hash = xe_sha env (nc_token nonce), ak_scopes = scopes,
               ak_expires_at = (case expires of None \<Rightarrow> None | Some d \<Rightarrow> if d = 0 then None else Some (now + days d)),
               ak_last_used_at = None, ak_revoked_at = None\<rparr>"
  from assms have v: "validate_scopes scopes = Inr scopes" by (auto simp: create_api_key_def validate_scopes_def Let_def split: if_splits)
  then have "sort (remdups (filter (\<lambda>x. x \<notin> set ALL_SCOPES) scopes)) = []" by (auto simp: validate_scopes_def Let_def split: if_splits)
  then have "set (sort (remdups (filter (\<lambda>x. x \<notin> set ALL_SCOPES) scopes))) = {}" by (simp only: set_empty)
  then show "set scopes \<subseteq> set ALL_SCOPES" by auto
  have "then_do (add_key ?row) (\<lambda>k. then_do (record_access API_KEY_CREATED usr None (ent_id k)) (\<lambda>_. give (k, ''ayf_'' @ nc_hex nonce @ ''.'' @ nc_token nonce))) s = (Inr (k, raw), s')"
    using assms by (simp add: create_api_key_def v generate_api_key_def API_KEY_PREFIX_def Let_def)
  then obtain k1 s1 where k1: "add_key ?row s = (Inr k1, s1)" and c: "then_do (record_access API_KEY_CREATED usr None (ent_id k1))
      (\<lambda>_. give (k1, ''ayf_'' @ nc_hex nonce @ ''.'' @ nc_token nonce)) s1 = (Inr (k, raw), s')" by (rule then_do_access)
  have e: "k1 = k" and raw: "raw = ''ayf_'' @ nc_hex nonce @ ''.'' @ nc_token nonce" and s: "same_access s1 s'"
    using c by (auto simp: record_access_def change_def give_def then_do_def same_access_def)
  note a = add_key_Inr [OF k1 [unfolded e]]
  show "raw = ''ayf_'' @ nc_hex nonce @ ''.'' @ nc_token nonce" by (rule raw)
  show "grows s s'" using grows_trans [OF a(1) same_access_grows [OF s]] .
  have "ac_members s1 = ac_members s" by (subst a(2), simp)
  with s show "ac_members s' = ac_members s" by (simp add: same_access_def)
  show "repo_get (ent_id k) (ac_keys s') = Some k" using a(3) s by (simp add: same_access_def)
  show "ak_user_id k = usr" "ak_organization_id k = org" "ak_name k = name" "ak_prefix k = ''ayf_'' @ nc_hex nonce"
    "ak_secret_hash k = xe_sha env (nc_token nonce)" "ak_scopes k = scopes"
    "ak_expires_at k = (case expires of None \<Rightarrow> None | Some d \<Rightarrow> if d = 0 then None else Some (now + days d))" "deleted_at k = None" "ak_revoked_at k = None"
    by (subst a(4), simp)+
qed

lemma keys_by_prefix_Some:
  assumes "access_ok s" "keys_by_prefix h s = Some k"
  shows "repo_get (ent_id k) (ac_keys s) = Some k" "ak_prefix k = h"
  using assms row_by_Some [of "ac_keys s"] unfolding access_ok_def keys_ok_def keys_by_prefix_def by blast+

lemma keys_by_prefix_eq:
  assumes "access_ok s" "repo_get i (ac_keys s) = Some k"
  shows "keys_by_prefix (ak_prefix k) s = Some k"
proof (cases "keys_by_prefix (ak_prefix k) s")
  case None
  then show ?thesis using row_by_None [OF _ _ assms(2)] assms(1) by (auto simp: keys_by_prefix_def access_ok_def keys_ok_def)
next
  case (Some w)
  note w = keys_by_prefix_Some [OF assms(1) Some]
  have "ent_id w = i"
    by (rule uniqueD [where C = "\<lambda>k k2. ak_prefix k = ak_prefix k2", OF _ w(1) assms(2)])
      (use assms(1) w(2) in \<open>simp_all add: access_ok_def keys_ok_def\<close>)
  with w(1) assms(2) Some show ?thesis by simp
qed

lemma revoke_api_key_Inr:
  assumes "revoke_api_key usr i now s = (Inr x, s')" "access_ok s"
  shows "grows s s'" "ac_members s' = ac_members s" "\<exists>k. repo_get i (ac_keys s') = Some k \<and> ak_revoked_at k = Some now"
proof -
  from assms(1) obtain k where k: "repo_get i (ac_keys s) = Some k" and c: "then_do (put_key (k\<lparr>ak_revoked_at := Some now\<rparr>)) (\<lambda>_.
      record_access API_KEY_REVOKED usr None (ent_id k)) s = (Inr x, s')"
    by (auto simp: revoke_api_key_def split: option.splits if_splits)
  have i: "ent_id k = i" using assms(2) k table_ok_get [of "ac_keys s" i k] by (simp add: access_ok_def keys_ok_def repo_get_def)
  let ?s = "s\<lparr>ac_keys := repo_put (k\<lparr>ak_revoked_at := Some now\<rparr>) (ac_keys s)\<rparr>"
  have g: "grows s ?s" by (rule put_key_grows [of _ _ k]) (use k i in \<open>simp_all add: same_key_def\<close>)
  have "record_access API_KEY_REVOKED usr None (ent_id k) ?s = (Inr x, s')"
    using c by (simp add: put_key_def change_def then_do_eval(1))
  note ra = record_access_grows [OF this]
  show "grows s s'" using grows_trans [OF g] ra by blast
  show "ac_members s' = ac_members s" "\<exists>k. repo_get i (ac_keys s') = Some k \<and> ak_revoked_at k = Some now" using ra i by simp_all
qed

lemma authenticate_key_Inr:
  assumes "authenticate_key env raw now s = (Inr k', s')" "access_ok s"
  obtains k where "keys_by_prefix (takeWhile (\<lambda>c. c \<noteq> CHR ''.'') raw) s = Some k" "ak_revoked_at k = None" "deleted_at k = None"
    "k' = k\<lparr>ak_last_used_at := Some now\<rparr>" "grows s s'" "ac_members s' = ac_members s"
proof -
  from assms(1) obtain k where k: "keys_by_prefix (takeWhile (\<lambda>c. c \<noteq> CHR ''.'') raw) s = Some k" "ak_revoked_at k = None" "deleted_at k = None"
      and c: "then_do (put_key (k\<lparr>ak_last_used_at := Some now\<rparr>)) (\<lambda>_. give (k\<lparr>ak_last_used_at := Some now\<rparr>)) s = (Inr k', s')"
    by (auto simp: authenticate_key_def Let_def split: option.splits if_splits)
  have s': "s' = s\<lparr>ac_keys := repo_put (k\<lparr>ak_last_used_at := Some now\<rparr>) (ac_keys s)\<rparr>" "k' = k\<lparr>ak_last_used_at := Some now\<rparr>"
    using c by (auto simp: put_key_def change_def give_def then_do_eval(1))
  have "grows s s'" unfolding s'(1)
    by (rule put_key_grows [of _ _ k]) (use keys_by_prefix_Some [OF assms(2) k(1)] k in \<open>simp_all add: same_key_def\<close>)
  then show ?thesis using that [OF k s'(2)] s'(1) by simp
qed

lemma get_api_principal_Inr:
  assumes "get_api_principal env credentials x now s = (Inr p, s')" "access_ok s"
  shows "grows s s'" "ac_members s' = ac_members s"
proof -
  from assms(1) obtain raw k s1 where k: "authenticate_key env raw now s = (Inr k, s1)" "s1 = s'"
    by (auto simp: get_api_principal_def Let_def give_def then_do_Inr split: if_splits)
  from k(1) assms(2) show "grows s s'" unfolding k(2) by (rule authenticate_key_Inr)
  from k(1) assms(2) show "ac_members s' = ac_members s" unfolding k(2) by (rule authenticate_key_Inr)
qed

definition entitled :: "access_env \<Rightarrow> access_call \<Rightarrow> user \<Rightarrow> time \<Rightarrow> access_state \<Rightarrow> organization_member \<Rightarrow> bool" where
  \<comment> \<open>the memberships a call may add or change\<close>
  "entitled env c usr now s m \<longleftrightarrow> (case c of
       CreateOrganization name slug \<Rightarrow> om_user_id m = ent_id usr \<and> repo_get (om_organization_id m) (ac_orgs s) = None
     | UpdateMemberRole org member role_slug \<Rightarrow> om_user_id m = member \<and> om_organization_id m = org
         \<and> (usr_is_superuser usr \<or> ''member.manage'' \<in> set (get_permissions_for_user (ent_id usr) org s))
     | AcceptInvitation token \<Rightarrow> om_user_id m = ent_id usr
         \<and> (\<exists>v. invitation_by_hash (xe_sha env token) s = Some v \<and> iv_state v = INVITE_PENDING \<and> now \<le> iv_expires_at v \<and> om_organization_id m = iv_organization v)
     | _ \<Rightarrow> False)"

lemma then_give_unit:
  assumes "then_do f (\<lambda>_. give ()) s = (Inr (), s')"
  obtains x where "f s = (Inr x, s')"
  using assms by (auto simp: then_do_def give_def split: prod.splits sum.splits)

lemma after_permission:
  assumes "then_do (require_permission p usr (Some org)) (\<lambda>_. f) s = (Inr x, s')"
  shows "f s = (Inr x, s')" "usr_is_superuser usr \<or> p \<in> set (get_permissions_for_user (ent_id usr) org s)"
proof -
  obtain u s1 where u: "require_permission p usr (Some org) s = (Inr u, s1)" and f: "f s1 = (Inr x, s')"
    using assms by (rule then_do_access)
  from require_permission_Inr [OF u] f show "f s = (Inr x, s')" "usr_is_superuser usr \<or> p \<in> set (get_permissions_for_user (ent_id usr) org s)" by auto
qed

lemma call_Inr:
  assumes "access_call_op env c usr nonce now s = (Inr (), s')" "access_ok s"
  shows "grows s s' \<and> (\<forall>m \<in> set (base_query False (ac_members s')). m \<in> set (base_query False (ac_members s)) \<or> entitled env c usr now s m)"
proof (cases c)
  case (CreateOrganization name slug)
  with assms(1) obtain og where o: "create_organization name (ent_id usr) slug nonce now s = (Inr og, s')"
    by (auto elim: then_give_unit)
  note a = create_organization_Inr [OF o assms(2)]
  show ?thesis using a(1,2,4) by (auto simp: entitled_def CreateOrganization)
next
  case (UpdateMemberRole org member slug)
  with assms(1) obtain x where "update_member_role_route usr org member slug s = (Inr x, s')" by (auto elim: then_give_unit)
  note p = after_permission [OF this [unfolded update_member_role_route_def]]
  from update_member_role_Inr [OF p(1) assms(2)] obtain m and r :: role where m: "m \<in> set (base_query False (ac_members s))"
      "om_organization_id m = org" "om_user_id m = member" and s': "s' = s\<lparr>ac_members := repo_put (m\<lparr>om_role_id := ent_id r\<rparr>) (ac_members s)\<rparr>" and g: "grows s s'"
    by blast
  have "x \<in> set (base_query False (ac_members s)) \<or> x = m\<lparr>om_role_id := ent_id r\<rparr>" if x: "x \<in> set (base_query False (ac_members s'))" for x
  proof -
    have "table_ok (ac_members s)" using assms(2) by (simp add: access_ok_def members_ok_def)
    then show ?thesis using x unfolding s' by (auto simp: base_query_mem split: if_splits)
  qed
  with m p(2) g show ?thesis by (fastforce simp: entitled_def UpdateMemberRole)
next
  case (CreateTeam org name slug description)
  with assms(1) obtain x where "create_team_route usr org name slug description nonce now s = (Inr x, s')" by (auto elim: then_give_unit)
  note t = create_team_same [OF after_permission(1) [OF this [unfolded create_team_route_def]]]
  then show ?thesis using same_access_grows [OF t] by (simp add: same_access_def)
next
  case (CreateInvitation org email slug)
  with assms(1) obtain x where "create_invitation_route env usr org email slug nonce now s = (Inr x, s')" by (auto elim: then_give_unit)
  note p = after_permission(1) [OF this [unfolded create_invitation_route_def]]
  then obtain og s1 y s2 where og: "org_or_404 org s = (Inr og, s1)" and i: "invite env org email slug (ent_id usr) (og_name og) nonce now s1 = (Inr y, s2)"
      and g: "give (fst y) s2 = (Inr x :: auth_exc + invitation, s')"
    by (elim then_do_access) (rule that)
  have s: "s1 = s" "repo_get org (ac_orgs s) \<noteq> None" "s2 = s'" using og g by (auto simp: org_or_404_def give_def split: option.splits if_splits)
  note a = invite_Inr [OF i [unfolded s(1) s(3)] assms(2) s(2)]
  show ?thesis using a(1,2) by simp
next
  case (RevokeInvitation org i)
  with assms(1) have "revoke_invitation_route usr org i s = (Inr (), s')" by simp
  note a = revoke_invitation_Inr [OF after_permission(1) [OF this [unfolded revoke_invitation_route_def]] assms(2)]
  then show ?thesis by simp
next
  case (AcceptInvitation token)
  with assms(1) obtain w where "accept_invitation env token (ent_id usr) now s = (Inr w, s')"
    by (auto elim: then_give_unit simp: accept_invitation_route_def)
  from accept_invitation_Inr [OF this assms(2)] obtain v where v: "invitation_by_hash (xe_sha env token) s = Some v" "iv_state v = INVITE_PENDING" "now \<le> iv_expires_at v"
      "grows s s'" "\<And>m. m \<in> set (base_query False (ac_members s')) \<Longrightarrow> m \<in> set (base_query False (ac_members s)) \<or> om_user_id m = ent_id usr \<and> om_organization_id m = iv_organization v"
    by blast
  then show ?thesis by (auto simp: entitled_def AcceptInvitation)
next
  case (CreateKey name scopes expires)
  with assms(1) obtain x where x: "create_api_key env (ent_id usr) name scopes expires None nonce now s = (Inr x, s')"
    by (auto elim: then_give_unit simp: create_api_key_route_def)
  then have "create_api_key env (ent_id usr) name scopes expires None nonce now s = (Inr (fst x, snd x), s')" by simp
  from create_api_key_Inr(1,2) [OF this] show ?thesis by simp
next
  case (RevokeKey i)
  with assms(1) have "revoke_api_key (ent_id usr) i now s = (Inr (), s')" by simp
  from revoke_api_key_Inr(1,2) [OF this assms(2)] show ?thesis by simp
next
  case (UseKey credentials x)
  with assms(1) obtain p where "get_api_principal env credentials x now s = (Inr p, s')" by (auto elim: then_give_unit)
  from get_api_principal_Inr [OF this assms(2)] show ?thesis by simp
qed

lemma request_grows:
  assumes "access_request (access_call_op env c usr nonce now) s = (r, s')" "access_ok s"
  shows "grows s s' \<and> (\<forall>m \<in> set (base_query False (ac_members s')). m \<in> set (base_query False (ac_members s)) \<or> entitled env c usr now s m)"
proof (cases "access_call_op env c usr nonce now s")
  case (Pair x t)
  show ?thesis
  proof (cases x)
    case (Inr u)
    with Pair have "access_call_op env c usr nonce now s = (Inr (), t)" "s' = t" using assms(1) by (auto simp: access_request_def)
    with call_Inr [OF _ assms(2)] show ?thesis by blast
  next
    case (Inl e)
    with Pair assms(1) have "s' = s\<lparr>ac_mail := ac_mail t\<rparr>" by (simp add: access_request_def)
    then show ?thesis by (simp add: same_access_grows same_access_def)
  qed
qed

lemma steps_grow: "(access_step env)\<^sup>*\<^sup>* s s' \<Longrightarrow> access_ok s \<Longrightarrow> access_ok s' \<and> after s s'"
proof (induction rule: rtranclp_induct)
  case (step t u)
  then have t: "access_ok t" "after s t" by simp_all
  from step.hyps(2) obtain c usr nonce now r where "access_request (access_call_op env c usr nonce now) t = (r, u)" by (auto elim: access_step.cases)
  from growsD [OF conjunct1 [OF request_grows [OF this t(1)]] t(1)] after_trans [OF t(2)] show ?case by blast
qed simp

lemma no_organizations_ok: "access_ok no_organizations"
  by (simp add: access_ok_def roles_ok_def members_ok_def invitations_ok_def keys_ok_def no_organizations_def unique_def repo_get_def table_ok_def dict_ok_def)

lemma reached_access_ok: "(access_step env)\<^sup>*\<^sup>* no_organizations s \<Longrightarrow> access_ok s"
  using steps_grow no_organizations_ok by blast

lemma takeWhile_before: "c \<notin> set xs \<Longrightarrow> takeWhile (\<lambda>x. x \<noteq> c) (xs @ c # ys) = xs"
  by (induction xs) auto

end
