(* ===== verification/Access_Control.thy ===== *)
theory Access_Control
  imports Access
begin

text \<open>
  What the model of organizations, roles, invitations and API keys guarantees over every sequence of
  requests: who holds a permission and how it can be gained, the typing of the references between the
  tables, the single use of an invitation, the life of an API key, and what the checks miss.
\<close>

section \<open>Who may do what\<close>

text \<open>
  A permission check on an organization lets a user through exactly if the user is a superuser,
  or has a live membership whose role carries the permission, and otherwise raises and changes nothing.
\<close>

theorem permission_check:
  assumes "(access_step env)\<^sup>*\<^sup>* no_organizations s"
  shows "require_permission p usr (Some i) s =
    (if usr_is_superuser usr \<or> (\<exists>m \<in> set (members_for_org i s). om_user_id m = ent_id usr
         \<and> (\<exists>r. repo_get (om_role_id m) (ac_roles s) = Some r \<and> p \<in> set (role_slugs r s)))
     then (Inr usr, s)
     else access_error ForbiddenError ''You do not have permission to perform this action.'' s)"
  using permissions_spec [OF reached_access_ok [OF assms], of p "ent_id usr" i]
  by (auto simp: require_permission_def require_permission_in_def give_def then_do_def members_for_org_def)


text \<open>
  C21: the references between the tables are well typed in every reachable state: a member belongs
  to an organization that exists, in a role of that organization, a role's permissions exist, and so
  do the organization and the role of an invitation.
\<close>

theorem references_typed:
  assumes "(access_step env)\<^sup>*\<^sup>* no_organizations s"
  shows "(repo_get k (ac_members s) = Some m \<longrightarrow> repo_get (om_organization_id m) (ac_orgs s) \<noteq> None \<and> role_in (om_role_id m) (om_organization_id m) s)
    \<and> (repo_get k (ac_roles s) = Some r \<longrightarrow> (\<forall>p \<in> set (rl_permissions r). repo_get p (ac_permissions s) \<noteq> None))
    \<and> (repo_get k (ac_invitations s) = Some v \<longrightarrow> repo_get (iv_organization v) (ac_orgs s) \<noteq> None \<and> role_in (iv_role_id v) (iv_organization v) s)"
  using reached_access_ok [OF assms] unfolding access_ok_def roles_ok_def members_ok_def invitations_ok_def by blast

text \<open>
  Creating an organization gives it the five system roles with exactly the permissions of the
  catalog; its creator holds every permission there, and nobody else holds any.
\<close>

theorem created_organization:
  assumes "(access_step env)\<^sup>*\<^sup>* no_organizations s" "create_organization name owner slug nonce now s = (Inr og, s')"
  shows "get_permissions_for_user u (ent_id og) s' = (if u = owner then ALL_PERMISSIONS else [])
    \<and> (\<forall>(sr, slugs) \<in> set DEFAULT_ROLE_PERMISSIONS. \<exists>r. repo_get (ent_id r) (ac_roles s') = Some r \<and> rl_organization_id r = Some (ent_id og)
         \<and> rl_slug r = system_role_value sr \<and> role_slugs r s' = slugs)"
proof -
  note ok = reached_access_ok [OF assms(1)]
  note a = create_organization_Inr [OF assms(2) ok]
  from a(4) obtain m r where m: "base_query False (ac_members s') = base_query False (ac_members s) @ [m]" "om_organization_id m = ent_id og"
      "om_user_id m = owner" "repo_get (om_role_id m) (ac_roles s') = Some r" "role_slugs r s' = ALL_PERMISSIONS" by blast
  have "om_organization_id x \<noteq> ent_id og" if "x \<in> set (base_query False (ac_members s))" for x
    using member_role_live(2) [OF ok that] a(2) by metis
  then have n: "filter (\<lambda>m. om_user_id m = u \<and> om_organization_id m = ent_id og) (base_query False (ac_members s)) = []"
    by (simp add: filter_empty_conv)
  have "member_role u (ent_id og) s' = (if u = owner then Some r else None)"
    unfolding member_role_def m(1) filter_append n using m(2,3,4) by simp
  then show ?thesis using m(5) a(5) by (simp add: get_permissions_for_user_def)
qed

text \<open>
  C19: an invitation is accepted at most once: after an acceptance every further one fails, in
  whatever state later requests lead to.
\<close>

theorem invitation_single_use:
  assumes "(access_step env)\<^sup>*\<^sup>* no_organizations s" "accept_invitation env token usr now s = (Inr w, s1)" "(access_step env)\<^sup>*\<^sup>* s1 s2"
  shows "fst (accept_invitation env token usr2 now2 s2) =
    Inl (AuthDb (App (app_error_init ValidationError (Some ''Invalid or already-processed invitation.''))))"
proof -
  note ok = reached_access_ok [OF assms(1)]
  from accept_invitation_Inr [OF assms(2) ok] have g: "grows s s1" and w: "invitation_by_hash (xe_sha env token) s1 = Some w" "iv_state w = INVITE_TAKEN" by blast+
  have ok1: "access_ok s1" using growsD [OF g ok] by blast
  note i = invitation_by_hash_Some [OF ok1 w(1)]
  from steps_grow [OF assms(3) ok1] have ok2: "access_ok s2" and "after s1 s2" by blast+
  with i(1) obtain w' where w': "repo_get (ent_id w) (ac_invitations s2) = Some w'" "same_invitation w w'" unfolding after_def stays_def by blast
  then have "iv_token_hash w' = xe_sha env token" "iv_state w' \<noteq> INVITE_PENDING" using i(2) w(2) by (simp_all add: same_invitation_def)
  with invitation_by_hash_eq [OF ok2 w'(1)] show ?thesis by (simp add: accept_invitation_def)
qed

text \<open>
  C20: an API key authenticates as what was created: from its creation on, whatever requests come
  between, the raw key is accepted exactly while the key is neither revoked nor expired, and then the
  principal is the creating user with the requested scopes, organization and name.
\<close>

theorem api_key_roundtrip:
  assumes "(access_step env)\<^sup>*\<^sup>* no_organizations s" "create_api_key env usr name scopes expires org nonce now s = (Inr (k, raw), s1)"
    and "(access_step env)\<^sup>*\<^sup>* s1 s2" "CHR ''.'' \<notin> set (nc_hex nonce)"
  shows "\<exists>k2. repo_get (ent_id k) (ac_keys s2) = Some k2 \<and>
    (case authenticate_key env raw now2 s2 of
       (Inl e, s3) \<Rightarrow> ak_revoked_at k2 \<noteq> None \<or> (\<exists>t. ak_expires_at k = Some t \<and> t < now2)
     | (Inr k3, s3) \<Rightarrow> ak_revoked_at k2 = None \<and> (\<forall>t. ak_expires_at k = Some t \<longrightarrow> now2 \<le> t)
         \<and> principal_from_key k3 = \<lparr>ap_key_id = ent_id k, ap_user_id = usr, ap_organization_id = org, ap_scopes = scopes, ap_name = name\<rparr>)"
proof -
  note ok = reached_access_ok [OF assms(1)]
  note a = create_api_key_Inr [OF assms(2)]
  have ok1: "access_ok s1" using growsD [OF a(1) ok] by blast
  from steps_grow [OF assms(3) ok1] have ok2: "access_ok s2" and af: "after s1 s2" by blast+
  from af a(3) obtain k2 where k2: "repo_get (ent_id k) (ac_keys s2) = Some k2" "same_key k k2" unfolding after_def stays_def by blast
  have same: "ak_user_id k2 = usr" "ak_organization_id k2 = org" "ak_name k2 = name" "ak_prefix k2 = ''ayf_'' @ nc_hex nonce"
    "ak_secret_hash k2 = xe_sha env (nc_token nonce)" "ak_scopes k2 = scopes" "ak_expires_at k2 = ak_expires_at k" "deleted_at k2 = None"
    using k2(2) a(4-9,11) by (simp_all add: same_key_def)
  have t: "takeWhile (\<lambda>c. c \<noteq> CHR ''.'') raw = ''ayf_'' @ nc_hex nonce"
    using takeWhile_before [of "CHR ''.''" "''ayf_'' @ nc_hex nonce" "nc_token nonce"] assms(4) by (simp add: a(13))
  have d: "drop (length (''ayf_'' @ nc_hex nonce) + 1) raw = nc_token nonce" "CHR ''.'' \<in> set raw" unfolding a(13) by simp_all
  have e: "ent_id k2 = ent_id k" using ok2 k2(1) table_ok_get [of "ac_keys s2"] by (simp add: access_ok_def keys_ok_def repo_get_def)
  have f: "filter (\<lambda>x. x \<in> set ALL_SCOPES) scopes = scopes" using a(14) by (auto simp: filter_id_conv)
  note b = keys_by_prefix_eq [OF ok2 k2(1)]
  show ?thesis
    using k2(1) b d f same e
    by (auto simp: authenticate_key_def t Let_def put_key_def change_def give_def then_do_eval(1) principal_from_key_def split: option.splits)
qed

text \<open>
  A revoked API key never authenticates again, with whatever raw key, in whatever state later
  requests lead to.
\<close>

theorem revoked_key_dead:
  assumes "(access_step env)\<^sup>*\<^sup>* no_organizations s" "revoke_api_key usr i now s = (Inr (), s1)" "(access_step env)\<^sup>*\<^sup>* s1 s2"
    and "authenticate_key env raw now2 s2 = (Inr k, s3)"
  shows "ent_id k \<noteq> i"
proof
  assume e: "ent_id k = i"
  note ok = reached_access_ok [OF assms(1)]
  note a = revoke_api_key_Inr [OF assms(2) ok]
  have ok1: "access_ok s1" using growsD [OF a(1) ok] by blast
  from steps_grow [OF assms(3) ok1] have ok2: "access_ok s2" and af: "after s1 s2" by blast+
  from a(3) obtain k1 where k1: "repo_get i (ac_keys s1) = Some k1" "ak_revoked_at k1 = Some now" by blast
  from af k1(1) obtain k2 where k2: "repo_get i (ac_keys s2) = Some k2" "same_key k1 k2" unfolding after_def stays_def by blast
  from authenticate_key_Inr [OF assms(4) ok2] obtain k0 where k0: "keys_by_prefix (takeWhile (\<lambda>c. c \<noteq> CHR ''.'') raw) s2 = Some k0"
      "ak_revoked_at k0 = None" "k = k0\<lparr>ak_last_used_at := Some now2\<rparr>" by blast
  from keys_by_prefix_Some(1) [OF ok2 k0(1)] k0 e k1 k2 show False by (simp add: same_key_def)
qed

section \<open>What the checks miss\<close>

lemma distinct_single: "distinct xs \<Longrightarrow> set xs = {r} \<Longrightarrow> xs = [r]"
  by (cases xs; cases "tl xs") auto

lemma filter_single:
  assumes "table_ok t" "repo_get i t = Some r" "P r" "\<And>k x. repo_get k t = Some x \<Longrightarrow> P x \<Longrightarrow> k = i"
  shows "filter P (all_rows t) = [r]"
proof -
  have k: "map fst t = map ent_id (all_rows t)" using assms(1) by (auto simp: table_ok_def all_rows_def list_all_iff)
  then have "distinct (map ent_id (all_rows t))" using assms(1) unfolding table_ok_def dict_ok_def by simp
  then have "distinct (filter P (all_rows t))" by (simp add: distinct_map)
  moreover have "set (filter P (all_rows t)) = {r}"
  proof -
    have only: "x = r" if "x \<in> set (all_rows t)" "P x" for x
    proof -
      have g: "repo_get (ent_id x) t = Some x" using that(1) by (simp add: rows_mem [OF assms(1)])
      have "ent_id x = i" by (rule assms(4) [OF g that(2)])
      with g assms(2) show ?thesis by (metis option.inject)
    qed
    show ?thesis
    proof (intro equalityI subsetI)
      show "x \<in> {r}" if "x \<in> set (filter P (all_rows t))" for x using only [of x] that by simp
      show "x \<in> set (filter P (all_rows t))" if "x \<in> {r}" for x using rows_get [OF assms(1,2)] assms(3) that by simp
    qed
  qed
  ultimately show ?thesis by (rule distinct_single)
qed

text \<open>
  Whoever may manage the members of an organization may give themselves the role of its owner: the
  role given is not compared with the roles of the giver.
\<close>

theorem manager_becomes_owner:
  assumes "access_ok s" "m \<in> set (members_for_org i s)" "''member.manage'' \<in> set (get_permissions_for_user (om_user_id m) i s)"
    and "ent_id usr = om_user_id m" "repo_get k (ac_roles s) = Some r" "rl_organization_id r = Some i" "rl_slug r = ''owner''"
  shows "update_member_role_route usr i (ent_id usr) ''owner'' s =
    (Inr (m\<lparr>om_role_id := k\<rparr>), s\<lparr>ac_members := repo_put (m\<lparr>om_role_id := k\<rparr>) (ac_members s)\<rparr>)"
proof -
  have tk: "table_ok (ac_roles s)" "table_ok (ac_members s)" using assms(1) by (simp_all add: access_ok_def roles_ok_def members_ok_def)
  have rk: "ent_id r = k" using table_ok_get [OF tk(1)] assms(5) by (simp add: repo_get_def)
  have "filter (\<lambda>r. rl_organization_id r = Some i \<and> rl_slug r = ''owner'') (all_rows (ac_roles s)) = [r]"
  proof (rule filter_single [OF tk(1) assms(5)])
    fix k2 x assume x: "repo_get k2 (ac_roles s) = Some x" "rl_organization_id x = Some i \<and> rl_slug x = ''owner''"
    show "k2 = k"
      by (rule uniqueD [where C = "\<lambda>r r2. rl_organization_id r = rl_organization_id r2 \<and> rl_organization_id r \<noteq> None \<and> rl_slug r = rl_slug r2", OF _ x(1) assms(5)])
        (use assms(1,6,7) x(2) in \<open>simp_all add: access_ok_def roles_ok_def\<close>)
  qed (use assms in simp)
  then have ro: "get_org_role i ''owner'' s = (Inr (Some r), s)" by (simp add: get_org_role_def one_or_none_def)
  have m: "m \<in> set (base_query False (ac_members s))" "om_organization_id m = i" using assms(2) by (simp_all add: members_for_org_def)
  have "filter (\<lambda>x. deleted_at x = None \<and> om_organization_id x = i \<and> om_user_id x = ent_id usr) (all_rows (ac_members s)) = [m]"
  proof (rule filter_single [OF tk(2) member_role_live(3) [OF assms(1) m(1)]])
    fix k2 x assume x: "repo_get k2 (ac_members s) = Some x" "deleted_at x = None \<and> om_organization_id x = i \<and> om_user_id x = ent_id usr"
    show "k2 = ent_id m"
      by (rule uniqueD [where C = "\<lambda>m m2. om_organization_id m = om_organization_id m2 \<and> om_user_id m = om_user_id m2", OF _ x(1) member_role_live(3) [OF assms(1) m(1)]])
        (use assms(1,4) m(2) x(2) in \<open>simp_all add: access_ok_def members_ok_def\<close>)
  qed (use m assms(4) in \<open>simp add: base_query_def\<close>)
  then have me: "get_membership i (ent_id usr) s = (Inr (Some m), s)"
    by (simp add: get_membership_def base_query_def one_or_none_def all_rows_def)
  have pe: "require_permission ''member.manage'' usr (Some i) s = (Inr usr, s)"
    using assms(3,4) by (simp add: require_permission_def require_permission_in_def give_def then_do_def)
  have "update_member_role_route usr i (ent_id usr) ''owner'' s = update_member_role i (ent_id usr) ''owner'' s"
    by (simp add: update_member_role_route_def then_do_eval(1) pe)
  also have "\<dots> = (Inr (m\<lparr>om_role_id := k\<rparr>), s\<lparr>ac_members := repo_put (m\<lparr>om_role_id := k\<rparr>) (ac_members s)\<rparr>)"
    by (simp add: update_member_role_def then_do_eval(1) me ro change_def give_def rk cong: then_do_freeze)
  finally show ?thesis .
qed

text \<open>
  The route that revokes an invitation checks the permission on the organization of its path and then
  revokes whatever invitation it is given, of any organization and in any status.
\<close>

theorem revokes_any_invitation:
  assumes "access_ok s" "''member.manage'' \<in> set (get_permissions_for_user (ent_id usr) i s)" "repo_get k (ac_invitations s) = Some v" "deleted_at v = None"
  shows "\<exists>s'. revoke_invitation_route usr i k s = (Inr (), s') \<and> repo_get k (ac_invitations s') = Some (v\<lparr>iv_state := INVITE_WITHDRAWN\<rparr>)"
proof -
  have pe: "require_permission ''member.manage'' usr (Some i) s = (Inr usr, s)"
    using assms(2) by (simp add: require_permission_def require_permission_in_def give_def then_do_def)
  have "ent_id v = k" using assms(1,3) table_ok_get [of "ac_invitations s" k v] by (simp add: access_ok_def invitations_ok_def repo_get_def)
  then show ?thesis
    by (simp add: revoke_invitation_route_def pe revoke_invitation_def assms(3,4) put_invitation_def record_access_def change_def then_do_eval(1))
qed

text \<open>Accepting an expired invitation marks it expired, raises, and the request rolls the mark back.\<close>

theorem expiry_is_rolled_back:
  assumes "invitation_by_hash (xe_sha env token) s = Some v" "iv_state v = INVITE_PENDING" "iv_expires_at v < now"
  shows "access_request (accept_invitation_route env usr token now) s =
    (Inl (AuthDb (App (app_error_init ValidationError (Some ''Invitation has expired.'')))), s)"
  using assms by (simp add: access_request_def accept_invitation_route_def accept_invitation_def then_do_def put_invitation_def change_def)

text \<open>A key created through the route has no organization, so the public API refuses it all organization data.\<close>

theorem keys_are_never_bound:
  assumes "create_api_key_route env usr name scopes expires nonce now s = (Inr (k, raw), s')"
  shows "fst (require_organization (principal_from_key k) s2) = Inl (AuthDb (App (app_error_init ForbiddenError
    (Some (''This API key is not bound to an organization and cannot access organization data. ''
         @ ''Create a key with an organization to use these endpoints.'')))))"
  using create_api_key_Inr(5) [OF assms [unfolded create_api_key_route_def]] by (simp add: principal_from_key_def require_organization_def)

text \<open>Who was removed from an organization cannot be added again: the old row is skipped by the lookup and hit by the constraint.\<close>

theorem removed_member_stays_out:
  assumes "get_membership org usr s = (Inr None, s)" "get_org_role org slug s = (Inr (Some r), s)"
    and "repo_get k (ac_members s) = Some m" "om_organization_id m = org" "om_user_id m = usr" "access_ok s"
  shows "add_member org usr slug now s = (Inl (AuthDb (IntegrityError ''uq_org_member_org_user'')), s)"
proof -
  have "table_ok (ac_members s)" using assms(6) by (simp add: access_ok_def members_ok_def)
  from rows_get [OF this assms(3)] assms(4,5) have "list_ex (\<lambda>m. om_organization_id m = org \<and> om_user_id m = usr) (all_rows (ac_members s))"
    by (auto simp: list_ex_iff)
  then show ?thesis by (simp add: add_member_def then_do_eval(1) assms(1,2) add_org_member_def cong: then_do_freeze)
qed

section \<open>Witnesses\<close>

definition sample_user :: "nat \<Rightarrow> user" where
  "sample_user i = \<lparr>ent_id = i, created_at = 0, deleted_at = None, usr_email = ''a'', usr_username = ''a'', usr_display_name = None,
     usr_password_hash = None, usr_avatar_url = None, usr_is_active = True, usr_is_verified = True, usr_is_superuser = False, usr_last_login = None\<rparr>"

definition sample_access_env :: access_env where
  "sample_access_env = \<lparr>xe_sha = (\<lambda>x. x), xe_mail_ok = (\<lambda>_. True), xe_invitation_days = 7\<rparr>"

definition key_nonce :: "string \<Rightarrow> key_nonce" where
  "key_nonce t = \<lparr>nc_token = t, nc_jti = 0, nc_salt = ''s'', nc_suffix = ''x'', nc_hex = t\<rparr>"

definition access_after :: "access_call \<Rightarrow> nat \<Rightarrow> string \<Rightarrow> time \<Rightarrow> access_state \<Rightarrow> access_state" where
  "access_after c i t now s = snd (access_request (access_call_op sample_access_env c (sample_user i) (key_nonce t) now) s)"

definition founded :: access_state where
  "founded = access_after (CreateOrganization ''o'' (Some ''o'')) 0 ''t'' 0 no_organizations"

definition invited :: access_state where
  "invited = access_after (CreateInvitation 0 ''b'' ''viewer'') 0 ''u'' 0 founded"

definition joined :: access_state where
  "joined = snd (accept_invitation sample_access_env ''u'' 1 1 invited)"

definition one_key :: access_state where
  "one_key = access_after (CreateKey ''n'' [''video:read''] None) 0 ''t'' 0 no_organizations"

definition two_keys :: access_state where
  "two_keys = access_after (CreateKey ''n'' [''video:read''] None) 0 ''u'' 0 one_key"

definition sample_role :: "(string, permission) dict \<Rightarrow> nat \<Rightarrow> system_role \<Rightarrow> string list \<Rightarrow> nat \<times> role" where
  "sample_role d i sr slugs = (i, \<lparr>ent_id = i, created_at = 0, deleted_at = None, rl_slug = system_role_value sr, rl_name = ROLE_DISPLAY sr,
     rl_is_system = True, rl_organization_id = Some 0, rl_permissions = map (\<lambda>x. ent_id (the (dict_get d x))) slugs\<rparr>)"

lemmas access_calls = access_call_op.simps [THEN fun_cong] create_organization_def [THEN fun_cong] provision_system_roles_def [THEN fun_cong]
  provision_roles.simps [THEN fun_cong] seed_permissions.simps [THEN fun_cong] create_invitation_route_def [THEN fun_cong]
  invite_def [THEN fun_cong] accept_invitation_route_def add_member_def [THEN fun_cong] record_access_def [THEN fun_cong]
  put_invitation_def [THEN fun_cong] create_api_key_def [THEN fun_cong] create_api_key_route_def put_key_def [THEN fun_cong]

lemmas access_simps = access_calls sample_user_def sample_access_env_def key_nonce_def access_after_def no_organizations_def access_request_def
  then_do_eval then_do_bool give_def change_def Let_def base_query_def all_rows_def repo_add_def repo_put_def repo_get_def new_id_def truthy_def
  org_slug_exists_def one_or_none_def add_org_def
  add_role_def add_org_member_def DEFAULT_ROLE_PERMISSIONS_def sample_role_def org_or_404_def get_org_role_def add_invitation_def
  invitation_by_hash_def row_by_def send_invitation_def accept_invitation_def suppress_conflict_def get_membership_def
  generate_api_key_def API_KEY_PREFIX_def add_key_def keys_by_prefix_def revoke_api_key_def authenticate_key_def

lemmas no_calls = access_call_op.simps provision_roles.simps seed_permissions.simps

lemma ensure_first:
  assumes "ac_permissions s = []"
  shows "\<exists>d t. ensure_permissions now s = (Inr d, s\<lparr>ac_permissions := t\<rparr>)"
  by (simp add: ensure_permissions_def list_all_rows_def assms PERMISSIONS_def add_permission_def access_simps cong: then_do_freeze del: no_calls) blast


lemma founded_shape:
  "\<exists>d t. founded = \<lparr>ac_permissions = t,
     ac_roles = [sample_role d 0 OWNER ALL_PERMISSIONS,
       sample_role d 1 ADMIN (filter (\<lambda>p. p \<notin> {''organization.delete'', ''billing.manage''}) ALL_PERMISSIONS),
       sample_role d 2 MANAGER MANAGER_PERMISSIONS, sample_role d 3 EDITOR EDITOR_PERMISSIONS, sample_role d 4 VIEWER VIEWER_PERMISSIONS],
     ac_orgs = [(0, \<lparr>ent_id = 0, created_at = 0, deleted_at = None, og_name = ''o'', og_slug = ''o'', og_owner_id = 0\<rparr>)],
     ac_members = [(0, \<lparr>ent_id = 0, created_at = 0, deleted_at = None, om_organization_id = 0, om_user_id = 0, om_role_id = 0, om_status = MEMBER_ACTIVE\<rparr>)],
     ac_teams = [], ac_team_members = [], ac_invitations = [], ac_keys = [], ac_audit = [], ac_mail = []\<rparr>
   \<and> (\<exists>og. create_organization ''o'' 0 (Some ''o'') (key_nonce ''t'') 0 no_organizations = (Inr og, founded) \<and> ent_id og = 0)"
proof -
  let ?s = "no_organizations\<lparr>ac_orgs := [(0, \<lparr>ent_id = 0, created_at = 0, deleted_at = None, og_name = ''o'', og_slug = ''o'', og_owner_id = 0\<rparr>)]\<rparr>"
  obtain d t where e: "ensure_permissions 0 ?s = (Inr d, ?s\<lparr>ac_permissions := t\<rparr>)" using ensure_first [of ?s 0] by (auto simp: no_organizations_def)
  show ?thesis
    by (intro exI [of _ d] exI [of _ t])
      (simp add: founded_def e [unfolded no_organizations_def, simplified] access_simps cong: then_do_freeze del: no_calls)
qed

lemma access_after_step: "access_step sample_access_env s (access_after c i t now s)"
  unfolding access_after_def by (rule access_step.Request [OF surjective_pairing])

lemma reach_access:
  "(access_step sample_access_env)\<^sup>*\<^sup>* no_organizations s \<Longrightarrow> (access_step sample_access_env)\<^sup>*\<^sup>* no_organizations (access_after c i t now s)"
  by (rule rtranclp.rtrancl_into_rtrancl) (assumption, rule access_after_step)

lemma sample_reached:
  "(access_step sample_access_env)\<^sup>*\<^sup>* no_organizations founded" "(access_step sample_access_env)\<^sup>*\<^sup>* no_organizations invited"
  "(access_step sample_access_env)\<^sup>*\<^sup>* no_organizations one_key" "(access_step sample_access_env)\<^sup>*\<^sup>* no_organizations two_keys"
  unfolding invited_def founded_def two_keys_def one_key_def by (intro reach_access rtranclp.rtrancl_refl)+

lemma founded_facts:
  "\<exists>og. create_organization ''o'' 0 (Some ''o'') (key_nonce ''t'') 0 no_organizations = (Inr og, founded) \<and> ent_id og = 0"
  "ac_members founded = [(0, \<lparr>ent_id = 0, created_at = 0, deleted_at = None, om_organization_id = 0, om_user_id = 0, om_role_id = 0, om_status = MEMBER_ACTIVE\<rparr>)]"
  subgoal using founded_shape by force
  subgoal using founded_shape by (elim exE conjE) (erule ssubst, simp)
  done

lemma founded_manager: "''member.manage'' \<in> set (get_permissions_for_user 0 0 founded)"
proof -
  obtain og where og: "create_organization ''o'' 0 (Some ''o'') (key_nonce ''t'') 0 no_organizations = (Inr og, founded)" "ent_id og = 0"
    using founded_facts(1) by blast
  have "''member.manage'' \<in> set ALL_PERMISSIONS" by code_simp
  with create_organization_Inr(4) [OF og(1) no_organizations_ok] og(2) show ?thesis
    unfolding permissions_spec [OF reached_access_ok [OF sample_reached(1)]] by fastforce
qed

lemma invited_accept: "\<exists>w. accept_invitation sample_access_env ''u'' 1 1 invited = (Inr w, joined)"
proof -
  have p: "require_permission ''member.manage'' (sample_user 0) (Some 0) founded = (Inr (sample_user 0), founded)"
    using founded_manager by (simp add: require_permission_def require_permission_in_def give_def then_do_def sample_user_def)
  obtain d t where f: "founded = \<lparr>ac_permissions = t,
     ac_roles = [sample_role d 0 OWNER ALL_PERMISSIONS,
       sample_role d 1 ADMIN (filter (\<lambda>p. p \<notin> {''organization.delete'', ''billing.manage''}) ALL_PERMISSIONS),
       sample_role d 2 MANAGER MANAGER_PERMISSIONS, sample_role d 3 EDITOR EDITOR_PERMISSIONS, sample_role d 4 VIEWER VIEWER_PERMISSIONS],
     ac_orgs = [(0, \<lparr>ent_id = 0, created_at = 0, deleted_at = None, og_name = ''o'', og_slug = ''o'', og_owner_id = 0\<rparr>)],
     ac_members = [(0, \<lparr>ent_id = 0, created_at = 0, deleted_at = None, om_organization_id = 0, om_user_id = 0, om_role_id = 0, om_status = MEMBER_ACTIVE\<rparr>)],
     ac_teams = [], ac_team_members = [], ac_invitations = [], ac_keys = [], ac_audit = [], ac_mail = []\<rparr>"
    using founded_shape by blast
  show ?thesis
    by (simp add: joined_def invited_def f p [unfolded f sample_user_def sample_role_def, simplified] access_simps cong: then_do_freeze del: no_calls)
qed

theorem permission_check_witness:
  "require_permission ''member.manage'' (sample_user 1) (Some 0) founded
    = access_error ForbiddenError ''You do not have permission to perform this action.'' founded"
  unfolding permission_check [OF sample_reached(1), of "''member.manage''" "sample_user 1" 0]
  by (simp add: members_for_org_def base_query_def founded_facts(2) sample_user_def)


theorem references_typed_witness: "repo_get 0 (ac_orgs founded) \<noteq> None \<and> role_in 0 0 founded"
proof -
  have "repo_get 0 (ac_members founded) = Some \<lparr>ent_id = 0, created_at = 0, deleted_at = None, om_organization_id = 0, om_user_id = 0, om_role_id = 0,
     om_status = MEMBER_ACTIVE\<rparr>" by (simp add: founded_facts(2) repo_get_def)
  with references_typed [OF sample_reached(1)] show ?thesis by fastforce
qed

theorem created_organization_witness:
  "get_permissions_for_user 0 0 founded = ALL_PERMISSIONS \<and> get_permissions_for_user 1 0 founded = []"
proof -
  obtain og where og: "create_organization ''o'' 0 (Some ''o'') (key_nonce ''t'') 0 no_organizations = (Inr og, founded)" "ent_id og = 0"
    using founded_facts(1) by blast
  from created_organization [OF rtranclp.rtrancl_refl og(1), of 0] created_organization [OF rtranclp.rtrancl_refl og(1), of 1] og(2)
  show ?thesis by simp
qed

theorem invitation_single_use_witness:
  "fst (accept_invitation sample_access_env ''u'' 2 2 joined) =
    Inl (AuthDb (App (app_error_init ValidationError (Some ''Invalid or already-processed invitation.''))))"
proof -
  obtain w where "accept_invitation sample_access_env ''u'' 1 1 invited = (Inr w, joined)" using invited_accept by blast
  from invitation_single_use [OF sample_reached(2) this rtranclp.rtrancl_refl] show ?thesis .
qed

theorem api_key_roundtrip_witness:
  "(case authenticate_key sample_access_env ''ayf_t.t'' 5 one_key of
      (Inr k, _) \<Rightarrow> principal_from_key k = \<lparr>ap_key_id = 0, ap_user_id = 0, ap_organization_id = None, ap_scopes = [''video:read''], ap_name = ''n''\<rparr>
    | (Inl _, _) \<Rightarrow> False)"
proof -
  have v: "validate_scopes [''video:read''] = Inr [''video:read'']" by code_simp
  let ?k = "\<lparr>ent_id = 0, created_at = 0, deleted_at = None, ak_user_id = 0, ak_organization_id = None, ak_name = ''n'', ak_prefix = ''ayf_t'',
    ak_secret_hash = ''t'', ak_scopes = [''video:read''], ak_expires_at = None, ak_last_used_at = None, ak_revoked_at = None\<rparr>"
  have c: "create_api_key sample_access_env 0 ''n'' [''video:read''] None None (key_nonce ''t'') 0 no_organizations = (Inr (?k, ''ayf_t.t''), one_key)"
    "repo_get 0 (ac_keys one_key) = Some ?k"
    by (simp_all add: one_key_def v access_simps cong: then_do_freeze del: no_calls)
  from api_key_roundtrip [OF rtranclp.rtrancl_refl c(1) rtranclp.rtrancl_refl, of 5] c(2) show ?thesis
    by (auto simp: key_nonce_def split: prod.splits sum.splits)
qed

theorem revoked_key_dead_witness:
  "(case authenticate_key sample_access_env ''ayf_u.u'' 5 (snd (revoke_api_key 0 0 1 two_keys)) of (Inr k, _) \<Rightarrow> ent_id k \<noteq> 0 | (Inl _, _) \<Rightarrow> False)"
proof -
  have v: "validate_scopes [''video:read''] = Inr [''video:read'']" by code_simp
  have c: "revoke_api_key 0 0 1 two_keys = (Inr (), snd (revoke_api_key 0 0 1 two_keys))"
    "(case authenticate_key sample_access_env ''ayf_u.u'' 5 (snd (revoke_api_key 0 0 1 two_keys)) of (Inr k, _) \<Rightarrow> True | (Inl _, _) \<Rightarrow> False)"
    by (simp_all add: two_keys_def one_key_def v access_simps cong: then_do_freeze del: no_calls)
  from c(2) obtain k s3 where k: "authenticate_key sample_access_env ''ayf_u.u'' 5 (snd (revoke_api_key 0 0 1 two_keys)) = (Inr k, s3)"
    by (auto split: prod.splits sum.splits)
  from revoked_key_dead [OF sample_reached(4) c(1) rtranclp.rtrancl_refl k] show ?thesis unfolding k by simp
qed

end
