(* ===== verification/Notifications.thy ===== *)
theory Notifications
  imports Repository
begin

text \<open>
  User notifications and webhooks: \<^verbatim>\<open>app/services/notification.py\<close> over the rows of
  \<^verbatim>\<open>app/models/notification.py\<close> and the queries of \<^verbatim>\<open>app/repositories/notification.py\<close>. The random
  token of a new webhook is an argument and the digest it is stored under a parameter, as are the
  HMAC and the JSON writer of a signature. Foreign keys and column widths are left to the database.
\<close>

section \<open>Rows\<close>

datatype notification_status = NS_PENDING | NS_SENT | NS_READ | NS_FAILED
datatype delivery_status = WD_PENDING | WD_DELIVERED | WD_FAILED | WD_EXHAUSTED

record notification = entity +
  nt_user_id :: nat
  nt_organization_id :: "nat option"
  nt_channel :: string
  nt_status :: notification_status
  nt_category :: string
  nt_title :: string
  nt_body :: "string option"
  nt_action_url :: "string option"
  nt_read_at :: "time option"
  nt_sent_at :: "time option"
  nt_payload :: pydict

record preference = entity +
  pr_user_id :: nat
  pr_category :: string
  pr_channel :: string
  pr_enabled :: bool

record webhook = entity +
  wh_organization_id :: nat
  wh_name :: string
  wh_url :: string
  wh_secret_hash :: string
  wh_events :: "string list"
  wh_is_active :: bool
  wh_failure_count :: int
  wh_last_success_at :: "time option"
  wh_last_failure_at :: "time option"

record delivery = entity +
  dl_webhook_id :: nat
  dl_event_type :: string
  dl_status :: delivery_status
  dl_attempt :: nat
  dl_response_status :: "int option"
  dl_response_body :: "string option"
  dl_error :: "string option"
  dl_next_retry_at :: "time option"
  dl_delivered_at :: "time option"
  dl_payload :: pydict

record notify_db =
  nd_notifications :: "unit notification_ext table"
  nd_preferences :: "unit preference_ext table"
  nd_webhooks :: "unit webhook_ext table"
  nd_deliveries :: "unit delivery_ext table"

section \<open>Queries\<close>

definition unread_of :: "nat \<Rightarrow> notification \<Rightarrow> bool" where
  "unread_of u n \<longleftrightarrow> nt_user_id n = u \<and> nt_read_at n = None"

definition notifications_of :: "nat \<Rightarrow> bool \<Rightarrow> nat \<Rightarrow> notify_db \<Rightarrow> notification list" where
  "notifications_of u unread_only limit db =
     take limit (sorted_desc created_at
       (filter (\<lambda>n. nt_user_id n = u \<and> (unread_only \<longrightarrow> nt_read_at n = None)) (base_query False (nd_notifications db))))"

definition count_unread :: "nat \<Rightarrow> notify_db \<Rightarrow> nat" where
  "count_unread u db = length (filter (unread_of u) (base_query False (nd_notifications db)))"

definition concerns :: "nat \<Rightarrow> string \<Rightarrow> string \<Rightarrow> preference \<Rightarrow> bool" where
  "concerns u category channel p \<longleftrightarrow> pr_user_id p = u \<and> pr_category p = category \<and> pr_channel p = channel"

definition preference_for :: "nat \<Rightarrow> string \<Rightarrow> string \<Rightarrow> notify_db \<Rightarrow> preference option" where
  "preference_for u category channel db = find_by (concerns u category channel) (nd_preferences db)"

definition webhooks_of :: "nat \<Rightarrow> notify_db \<Rightarrow> webhook list" where
  "webhooks_of g db = sorted_desc created_at (filter (\<lambda>w. wh_organization_id w = g) (base_query False (nd_webhooks db)))"

definition subscribes :: "string \<Rightarrow> webhook \<Rightarrow> bool" where
  "subscribes event_type w \<longleftrightarrow> event_type \<in> set (wh_events w) \<or> ''*'' \<in> set (wh_events w)"

definition list_active_for_event :: "nat \<Rightarrow> string \<Rightarrow> notify_db \<Rightarrow> webhook list" where
  "list_active_for_event g event_type db =
     filter (subscribes event_type) (filter (\<lambda>w. wh_organization_id w = g \<and> wh_is_active w) (base_query False (nd_webhooks db)))"

fun is_due :: "time \<Rightarrow> delivery \<Rightarrow> bool" where
  "is_due now d = (dl_status d = WD_FAILED \<and> (case dl_next_retry_at d of None \<Rightarrow> False | Some t \<Rightarrow> t \<le> now))"

definition due_retries :: "time \<Rightarrow> nat \<Rightarrow> notify_db \<Rightarrow> delivery list" where
  "due_retries now limit db =
     take limit (sort_key (\<lambda>d. the (dl_next_retry_at d)) (filter (is_due now) (base_query False (nd_deliveries db))))"

definition deliveries_of :: "nat \<Rightarrow> nat \<Rightarrow> notify_db \<Rightarrow> delivery list" where
  "deliveries_of w limit db =
     take limit (sorted_desc created_at (filter (\<lambda>d. dl_webhook_id d = w) (base_query False (nd_deliveries db))))"

section \<open>Notifications\<close>

definition notification_init :: "time \<Rightarrow> nat \<Rightarrow> string \<Rightarrow> string \<Rightarrow> string option \<Rightarrow> string \<Rightarrow> nat option \<Rightarrow> string option \<Rightarrow> notification" where
  "notification_init now u category title body channel organization_id action_url =
     \<lparr>ent_id = 0, created_at = now, deleted_at = None, nt_user_id = u, nt_organization_id = organization_id,
      nt_channel = channel, nt_status = NS_PENDING, nt_category = category, nt_title = title, nt_body = body,
      nt_action_url = action_url, nt_read_at = None, nt_sent_at = None, nt_payload = []\<rparr>"

definition notify :: "time \<Rightarrow> nat \<Rightarrow> string \<Rightarrow> string \<Rightarrow> string option \<Rightarrow> string \<Rightarrow> nat option \<Rightarrow> string option \<Rightarrow> notify_db
    \<Rightarrow> notification option \<times> notify_db" where
  "notify now u category title body channel organization_id action_url db =
     (if (case preference_for u category channel db of None \<Rightarrow> False | Some p \<Rightarrow> \<not> pr_enabled p) then (None, db)
      else
        let (n, t) = repo_add (notification_init now u category title body channel organization_id action_url) (nd_notifications db)
        in (Some n, db\<lparr>nd_notifications := t\<rparr>))"

definition set_read :: "time \<Rightarrow> notification \<Rightarrow> notification" where
  "set_read now n = n\<lparr>nt_read_at := Some now, nt_status := NS_READ\<rparr>"

definition mark_read :: "time \<Rightarrow> nat \<Rightarrow> notify_db \<Rightarrow> notification db_result \<times> notify_db" where
  "mark_read now i db =
     (case repo_get i (nd_notifications db) of
        None \<Rightarrow> (raise_app NotFoundError ''Notification not found.'', db)
      | Some n \<Rightarrow>
          if nt_read_at n = None
          then (Inr (set_read now n), db\<lparr>nd_notifications := repo_put (set_read now n) (nd_notifications db)\<rparr>)
          else (Inr n, db))"

definition mark_all_read :: "time \<Rightarrow> nat \<Rightarrow> notify_db \<Rightarrow> nat \<times> notify_db" where
  "mark_all_read now u db =
     (let unread = notifications_of u True 1000 db
      in (length unread, db\<lparr>nd_notifications := fold (\<lambda>n. repo_put (set_read now n)) unread (nd_notifications db)\<rparr>))"

definition set_preference :: "time \<Rightarrow> nat \<Rightarrow> string \<Rightarrow> string \<Rightarrow> bool \<Rightarrow> notify_db \<Rightarrow> preference \<times> notify_db" where
  "set_preference now u category channel enabled db =
     (case preference_for u category channel db of
        None \<Rightarrow>
          let (p, t) = repo_add \<lparr>ent_id = 0, created_at = now, deleted_at = None, pr_user_id = u, pr_category = category,
                                  pr_channel = channel, pr_enabled = enabled\<rparr> (nd_preferences db)
          in (p, db\<lparr>nd_preferences := t\<rparr>)
      | Some p \<Rightarrow>
          let p' = p\<lparr>pr_enabled := enabled\<rparr> in (p', db\<lparr>nd_preferences := repo_put p' (nd_preferences db)\<rparr>))"

datatype notification_op =
    Notify time nat string string "string option" string "nat option" "string option"
  | MarkRead time nat
  | MarkAllRead time nat
  | SetPreference time nat string string bool

fun run_op :: "notification_op \<Rightarrow> notify_db \<Rightarrow> notify_db" where
  "run_op (Notify now u category title body channel g url) db = snd (notify now u category title body channel g url db)"
| "run_op (MarkRead now i) db = snd (mark_read now i db)"
| "run_op (MarkAllRead now u) db = snd (mark_all_read now u db)"
| "run_op (SetPreference now u category channel enabled) db = snd (set_preference now u category channel enabled db)"

section \<open>Webhooks\<close>

definition RETRY_BACKOFF_SECONDS :: "int list" where "RETRY_BACKOFF_SECONDS = [60, 300, 1800, 7200]"
definition MAX_RESPONSE_BODY :: nat where "MAX_RESPONSE_BODY = 2048"

definition webhook_create :: "(string \<Rightarrow> string) \<Rightarrow> string \<Rightarrow> time \<Rightarrow> nat \<Rightarrow> string \<Rightarrow> string \<Rightarrow> string list \<Rightarrow> notify_db
    \<Rightarrow> (webhook \<times> string) db_result \<times> notify_db" where
  "webhook_create hash_token secret now g name url events db =
     (if \<not> (startswith url ''http://'' \<or> startswith url ''https://'')
      then (raise_app ValidationError ''Webhook URL must be http or https.'', db)
      else if events = [] then (raise_app ValidationError ''Subscribe to at least one event.'', db)
      else
        let (w, t) = repo_add \<lparr>ent_id = 0, created_at = now, deleted_at = None, wh_organization_id = g, wh_name = name,
               wh_url = url, wh_secret_hash = hash_token secret, wh_events = events, wh_is_active = True,
               wh_failure_count = 0, wh_last_success_at = None, wh_last_failure_at = None\<rparr> (nd_webhooks db)
        in (Inr (w, secret), db\<lparr>nd_webhooks := t\<rparr>))"

definition delivery_init :: "time \<Rightarrow> nat \<Rightarrow> string \<Rightarrow> pydict \<Rightarrow> delivery" where
  "delivery_init now w event_type payload =
     \<lparr>ent_id = 0, created_at = now, deleted_at = None, dl_webhook_id = w, dl_event_type = event_type, dl_status = WD_PENDING,
      dl_attempt = 0, dl_response_status = None, dl_response_body = None, dl_error = None, dl_next_retry_at = None,
      dl_delivered_at = None, dl_payload = payload\<rparr>"

definition enqueue_event :: "time \<Rightarrow> nat \<Rightarrow> string \<Rightarrow> pydict \<Rightarrow> notify_db \<Rightarrow> delivery list \<times> notify_db" where
  "enqueue_event now g event_type payload db =
     (let (ds, t) = bulk_add (map (\<lambda>w. delivery_init now (ent_id w) event_type payload) (list_active_for_event g event_type db))
                      (nd_deliveries db)
      in (ds, db\<lparr>nd_deliveries := t\<rparr>))"

definition touch_webhook :: "nat \<Rightarrow> (webhook \<Rightarrow> webhook) \<Rightarrow> notify_db \<Rightarrow> notify_db" where
  \<comment> \<open>a change of the subscription a delivery belongs to, when it is there\<close>
  "touch_webhook w f db =
     (case repo_get w (nd_webhooks db) of None \<Rightarrow> db | Some h \<Rightarrow> db\<lparr>nd_webhooks := repo_put (f h) (nd_webhooks db)\<rparr>)"

definition record_success :: "time \<Rightarrow> nat \<Rightarrow> int \<Rightarrow> string \<Rightarrow> notify_db \<Rightarrow> delivery db_result \<times> notify_db" where
  "record_success now i response_status body db =
     (case repo_get i (nd_deliveries db) of
        None \<Rightarrow> (raise_app NotFoundError ''Webhook delivery not found.'', db)
      | Some d \<Rightarrow>
          let d' = d\<lparr>dl_attempt := dl_attempt d + 1, dl_status := WD_DELIVERED, dl_response_status := Some response_status,
                     dl_response_body := Some (take MAX_RESPONSE_BODY body), dl_delivered_at := Some now, dl_next_retry_at := None\<rparr>
          in (Inr d', touch_webhook (dl_webhook_id d) (\<lambda>w. w\<lparr>wh_failure_count := 0, wh_last_success_at := Some now\<rparr>)
                        (db\<lparr>nd_deliveries := repo_put d' (nd_deliveries db)\<rparr>)))"

definition after_failure :: "time \<Rightarrow> string \<Rightarrow> int option \<Rightarrow> delivery \<Rightarrow> delivery" where
  "after_failure now error response_status d =
     (let d1 = d\<lparr>dl_attempt := dl_attempt d + 1, dl_response_status := response_status, dl_error := Some (take 512 error)\<rparr>
      in if dl_attempt d1 \<ge> length RETRY_BACKOFF_SECONDS then d1\<lparr>dl_status := WD_EXHAUSTED, dl_next_retry_at := None\<rparr>
         else d1\<lparr>dl_status := WD_FAILED, dl_next_retry_at := Some (now + seconds (RETRY_BACKOFF_SECONDS ! dl_attempt d1))\<rparr>)"

definition record_failure :: "time \<Rightarrow> nat \<Rightarrow> string \<Rightarrow> int option \<Rightarrow> notify_db \<Rightarrow> delivery db_result \<times> notify_db" where
  "record_failure now i error response_status db =
     (case repo_get i (nd_deliveries db) of
        None \<Rightarrow> (raise_app NotFoundError ''Webhook delivery not found.'', db)
      | Some d \<Rightarrow>
          let d' = after_failure now error response_status d
          in (Inr d', touch_webhook (dl_webhook_id d) (\<lambda>w. w\<lparr>wh_failure_count := wh_failure_count w + 1, wh_last_failure_at := Some now\<rparr>)
                        (db\<lparr>nd_deliveries := repo_put d' (nd_deliveries db)\<rparr>)))"

definition sign_payload :: "(string \<Rightarrow> string \<Rightarrow> string) \<Rightarrow> string \<Rightarrow> string \<Rightarrow> string" where
  "sign_payload hmac secret payload = hmac secret payload"

definition signature_for :: "(string \<Rightarrow> string \<Rightarrow> string) \<Rightarrow> (pydict \<Rightarrow> string) \<Rightarrow> string \<Rightarrow> pydict \<Rightarrow> string" where
  \<comment> \<open>\<open>dumps\<close> writes the object with its keys sorted\<close>
  "signature_for hmac dumps secret payload = sign_payload hmac secret (dumps payload)"

section \<open>Marking everything as read\<close>

lemma fold_put:
  fixes t :: "'a table"
  assumes "table_ok t" and "distinct rs" and "set rs \<subseteq> set (all_rows t)" and f: "\<And>r. ent_id (f r) = ent_id r"
  shows "fold (\<lambda>r. repo_put (f r)) rs t = map_rows (\<lambda>r. if r \<in> set rs then f r else r) t"
  using assms(1-3)
proof (induction rs arbitrary: t)
  case Nil
  show ?case by (simp add: map_rows_def case_prod_unfold)
next
  case (Cons r rs)
  let ?g = "\<lambda>x. if x = r then f r else x"
  from Cons.prems have r: "repo_get (ent_id r) t = Some r" by (simp add: rows_mem)
  have one: "repo_put (f r) t = map_rows ?g t"
    using \<open>table_ok t\<close> r unfolding repo_put_def f
  proof (induction t)
    case (Cons x t)
    obtain k y where x: "x = (k, y)" by force
    from Cons.prems x have t: "table_ok t" "k \<notin> set (keys t)" "ent_id y = k"
      by (auto simp: table_ok_def dict_ok_def)
    show ?case
    proof (cases "k = ent_id r")
      case True
      with Cons.prems x have y: "y = r" by (simp add: repo_get_def)
      have "z \<noteq> r" if "(j, z) \<in> set t" for j z
        using that t True by (force simp: table_ok_def list_all_iff)
      then have "map (\<lambda>(k, z). (k, ?g z)) t = t" by (intro map_idI) auto
      with True y x show ?thesis by (simp add: map_rows_def)
    next
      case False
      with Cons x t have "dict_set (ent_id r) (f r) t = map_rows ?g t" by (simp add: repo_get_def)
      with False t x show ?thesis by (auto simp: map_rows_def)
    qed
  qed (simp add: repo_get_def)
  have other: "x \<in> set (all_rows (map_rows ?g t))" if "x \<in> set rs" for x
  proof -
    from that Cons.prems have "x \<in> set (all_rows t)" "x \<noteq> r" by auto
    then show ?thesis by (force simp: all_rows_def map_rows_def)
  qed
  have notin: "x = r" if "x \<in> set (all_rows t)" "ent_id x = ent_id r" for x
    using that r rows_mem [OF \<open>table_ok t\<close>, of x] by simp
  have fr: "f r \<in> set rs \<Longrightarrow> f r = r" using notin [of "f r"] Cons.prems f by auto
  have ok: "table_ok (map_rows ?g t)" using \<open>table_ok t\<close> f by (intro table_ok_map_rows) auto
  have "fold (\<lambda>r. repo_put (f r)) (r # rs) t = map_rows (\<lambda>x. if x \<in> set rs then f x else x) (map_rows ?g t)"
    using Cons.IH [OF ok] Cons.prems other by (auto simp: one)
  also have "\<dots> = map_rows (\<lambda>x. if x \<in> set (r # rs) then f x else x) t"
    using fr Cons.prems(2) by (auto simp: map_rows_def)
  finally show ?case .
qed

lemma base_query_map_rows:
  "(\<And>r. deleted_at (f r) = deleted_at r) \<Longrightarrow> base_query False (map_rows f t) = map f (base_query False t)"
  by (induction t) (auto simp: base_query_def map_rows_def)

lemma base_query_distinct: "table_ok t \<Longrightarrow> distinct (base_query d t)"
proof (induction t)
  case (Cons x t)
  obtain k y where x: "x = (k, y)" by force
  from Cons.prems x have "table_ok t" "k \<notin> set (keys t)" "ent_id y = k" by (auto simp: table_ok_def dict_ok_def)
  moreover from this have "y \<notin> set (base_query d t)" by (force simp: base_query_def table_ok_def list_all_iff)
  ultimately show ?case using Cons.IH x by (auto simp: base_query_def)
qed (simp add: base_query_def)

lemma set_read_fields [simp]:
  "ent_id (set_read now n) = ent_id n" "deleted_at (set_read now n) = deleted_at n" "nt_user_id (set_read now n) = nt_user_id n"
  "created_at (set_read now n) = created_at n" "nt_read_at (set_read now n) = Some now" "nt_status (set_read now n) = NS_READ"
  "nt_category (set_read now n) = nt_category n" "nt_channel (set_read now n) = nt_channel n"
  by (simp_all add: set_read_def)

lemma length_filter_read:
  assumes "distinct xs" and "distinct S" and "set S \<subseteq> set (filter P xs)" and "\<And>x. \<not> P (f x)"
  shows "length (filter P (map (\<lambda>x. if x \<in> set S then f x else x) xs)) = length (filter P xs) - length S"
proof -
  have "length (filter P (map (\<lambda>x. if x \<in> set S then f x else x) xs)) = length (filter (\<lambda>x. P x \<and> x \<notin> set S) xs)"
    using assms(4) by (induction xs) auto
  also have "\<dots> = card ({x \<in> set xs. P x} - set S)"
    using assms(1) by (simp flip: distinct_card) (rule arg_cong [where f = card], auto)
  also have "\<dots> = card {x \<in> set xs. P x} - card (set S)"
    using assms(3) by (intro card_Diff_subset) auto
  also have "\<dots> = length (filter P xs) - length S"
    using assms(1,2) by (simp flip: distinct_card)
  finally show ?thesis .
qed

lemma filter_map_same:
  assumes "\<And>x. P (f x) = P x" and "\<And>x. P x \<Longrightarrow> f x = x"
  shows "filter P (map f xs) = filter P xs"
  using assms by (induction xs) auto

lemma notifications_unread:
  assumes "table_ok (nd_notifications db)"
  shows "distinct (notifications_of u True n db)"
    and "set (notifications_of u True n db) \<subseteq> set (filter (unread_of u) (base_query False (nd_notifications db)))"
    and "length (notifications_of u True n db) = min n (count_unread u db)"
proof -
  have "distinct (sorted_desc created_at (filter (unread_of u) (base_query False (nd_notifications db))))"
    using base_query_distinct [OF assms] by (simp add: sorted_desc_def)
  then show "distinct (notifications_of u True n db)"
    by (simp add: notifications_of_def unread_of_def [abs_def])
  show "set (notifications_of u True n db) \<subseteq> set (filter (unread_of u) (base_query False (nd_notifications db)))"
    by (auto simp: notifications_of_def unread_of_def dest!: in_set_takeD)
  show "length (notifications_of u True n db) = min n (count_unread u db)"
    by (simp add: notifications_of_def count_unread_def unread_of_def [abs_def] min.commute)
qed

lemma mark_all_read_table:
  assumes "table_ok (nd_notifications db)"
  shows "nd_notifications (snd (mark_all_read now u db))
    = map_rows (\<lambda>r. if r \<in> set (notifications_of u True 1000 db) then set_read now r else r) (nd_notifications db)"
proof -
  have "set (notifications_of u True 1000 db) \<subseteq> set (all_rows (nd_notifications db))"
    using notifications_unread(2) [OF assms, of u 1000] by (auto simp: base_query_def all_rows_def)
  with fold_put [OF assms notifications_unread(1) [OF assms], of u 1000 "set_read now"]
  show ?thesis by (simp add: mark_all_read_def Let_def)
qed

text \<open>
  Marking everything as read takes exactly the unread notifications of one user, at most a
  thousand at a time: that many are reported, the rest stay unread, and no other user's inbox moves.
\<close>

theorem mark_all_read_counts:
  assumes "table_ok (nd_notifications db)"
  shows "fst (mark_all_read now u db) = min 1000 (count_unread u db)
    \<and> count_unread u (snd (mark_all_read now u db)) = count_unread u db - 1000
    \<and> (v \<noteq> u \<longrightarrow> notifications_of v only n (snd (mark_all_read now u db)) = notifications_of v only n db)"
proof (intro conjI impI)
  let ?S = "notifications_of u True 1000 db" and ?xs = "base_query False (nd_notifications db)"
  let ?g = "\<lambda>r. if r \<in> set ?S then set_read now r else r"
  note S = notifications_unread [OF assms, of u 1000]
  have q: "base_query False (nd_notifications (snd (mark_all_read now u db))) = map ?g ?xs"
    unfolding mark_all_read_table [OF assms] by (rule base_query_map_rows) simp
  show "fst (mark_all_read now u db) = min 1000 (count_unread u db)"
    using S(3) by (simp add: mark_all_read_def Let_def)
  have "count_unread u (snd (mark_all_read now u db)) = length (filter (unread_of u) ?xs) - length ?S"
    unfolding count_unread_def q
    by (rule length_filter_read) (use base_query_distinct [OF assms] S in \<open>auto simp: unread_of_def\<close>)
  then show "count_unread u (snd (mark_all_read now u db)) = count_unread u db - 1000"
    using S(3) by (simp add: count_unread_def)
  assume "v \<noteq> u"
  have other: "nt_user_id r = u" if "r \<in> set ?S" for r using that S(2) by (auto simp: unread_of_def)
  have "filter (\<lambda>n. nt_user_id n = v \<and> (only \<longrightarrow> nt_read_at n = None)) (map ?g ?xs)
      = filter (\<lambda>n. nt_user_id n = v \<and> (only \<longrightarrow> nt_read_at n = None)) ?xs"
    by (rule filter_map_same) (use other \<open>v \<noteq> u\<close> in auto)
  then show "notifications_of v only n (snd (mark_all_read now u db)) = notifications_of v only n db"
    by (simp only: notifications_of_def q)
qed

section \<open>Opting out\<close>

definition one_preference :: "unit preference_ext table \<Rightarrow> bool" where
  \<comment> \<open>at most one live preference for a user, a category and a channel\<close>
  "one_preference t \<longleftrightarrow> (\<forall>i j p q. repo_get i t = Some p \<longrightarrow> repo_get j t = Some q \<longrightarrow> deleted_at p = None \<longrightarrow> deleted_at q = None
     \<longrightarrow> concerns (pr_user_id q) (pr_category q) (pr_channel q) p \<longrightarrow> i = j)"

lemma one_preferenceD:
  "\<lbrakk>one_preference t; repo_get i t = Some p; repo_get j t = Some q; deleted_at p = None; deleted_at q = None;
    concerns u c ch p; concerns u c ch q\<rbrakk> \<Longrightarrow> i = j"
  by (simp add: one_preference_def concerns_def)

definition notify_ok :: "notify_db \<Rightarrow> bool" where
  "notify_ok db \<longleftrightarrow> table_ok (nd_notifications db) \<and> table_ok (nd_preferences db) \<and> one_preference (nd_preferences db)"

lemma notify_ok_empty: "nd_notifications db = [] \<Longrightarrow> nd_preferences db = [] \<Longrightarrow> notify_ok db"
  by (simp add: notify_ok_def one_preference_def repo_get_def)

lemma table_ok_fold_put: "table_ok t \<Longrightarrow> table_ok (fold (\<lambda>n. repo_put (f n)) rs t)"
  by (induction rs arbitrary: t) auto

lemma one_preference_put:
  assumes "one_preference t" and "repo_get (ent_id p) t = Some p" and "deleted_at p = None"
  shows "one_preference (repo_put (p\<lparr>pr_enabled := b\<rparr>) t)"
  unfolding one_preference_def
proof (intro allI impI)
  fix i j x y
  assume x: "repo_get i (repo_put (p\<lparr>pr_enabled := b\<rparr>) t) = Some x" "deleted_at x = None"
    and y: "repo_get j (repo_put (p\<lparr>pr_enabled := b\<rparr>) t) = Some y" "deleted_at y = None"
    and c: "concerns (pr_user_id y) (pr_category y) (pr_channel y) x"
  have old: "\<exists>z'. repo_get k t = Some z' \<and> deleted_at z' = None \<and> pr_user_id z' = pr_user_id z \<and> pr_category z' = pr_category z
      \<and> pr_channel z' = pr_channel z"
    if "repo_get k (repo_put (p\<lparr>pr_enabled := b\<rparr>) t) = Some z" "deleted_at z = None" for k z
    using that assms by (auto split: if_splits)
  from old [OF x] old [OF y] c assms(1) show "i = j"
    unfolding one_preference_def concerns_def by metis
qed

lemma one_preference_add:
  assumes "table_ok t" and "one_preference t" and "repo_add p t = (p', t')"
    and "find_by (concerns (pr_user_id p) (pr_category p) (pr_channel p)) t = None"
  shows "one_preference t'"
proof -
  have p': "pr_user_id p' = pr_user_id p" "pr_category p' = pr_category p" "pr_channel p' = pr_channel p"
    by (simp_all add: repo_add_new(1) [OF assms(3)])
  have none: "\<not> concerns (pr_user_id p) (pr_category p) (pr_channel p) q" if "repo_get i t = Some q" "deleted_at q = None" for i q
    using find_by_None [OF assms(1) assms(4) that] .
  have get: "repo_get i t' = (if i = ent_id p' then Some p' else repo_get i t)" for i
    by (rule repo_add_new(4) [OF assms(3)])
  show ?thesis
    unfolding one_preference_def get
    using assms(2) none p' by (auto simp: one_preference_def concerns_def split: if_splits) metis+
qed

lemma set_preference_ok:
  assumes "notify_ok db" shows "notify_ok (snd (set_preference now u c ch b db))"
proof (cases "preference_for u c ch db")
  case None
  define r where "r = \<lparr>ent_id = 0, created_at = now, deleted_at = None, pr_user_id = u, pr_category = c, pr_channel = ch, pr_enabled = b\<rparr>"
  obtain p t where p: "repo_add r (nd_preferences db) = (p, t)" by force
  have "one_preference t"
    by (rule one_preference_add [OF _ _ p])
       (use assms None in \<open>auto simp: notify_ok_def preference_for_def r_def\<close>)
  with None assms p repo_add_ok [OF _ p] show ?thesis
    by (simp add: set_preference_def notify_ok_def flip: r_def)
next
  case (Some p)
  with assms find_by_Some [of "nd_preferences db" "concerns u c ch" p] one_preference_put [of "nd_preferences db" p b]
  show ?thesis by (simp add: set_preference_def notify_ok_def preference_for_def Let_def)
qed

lemma notify_preferences [simp]:
  "nd_preferences (snd (notify now u c title body ch g url db)) = nd_preferences db"
  "nd_preferences (snd (mark_read now i db)) = nd_preferences db"
  "nd_preferences (snd (mark_all_read now u db)) = nd_preferences db"
  by (auto simp: notify_def mark_read_def mark_all_read_def Let_def split: prod.splits option.splits)

lemma run_op_ok: "notify_ok db \<Longrightarrow> notify_ok (run_op op db)"
proof (cases op)
  case (Notify now u c title body ch g url)
  then show "notify_ok db \<Longrightarrow> ?thesis"
    by (auto simp: notify_ok_def notify_def Let_def repo_add_ok split: prod.splits)
next
  case (SetPreference now u c ch b)
  then show "notify_ok db \<Longrightarrow> ?thesis" by (simp add: set_preference_ok)
qed (auto simp: notify_ok_def mark_read_def mark_all_read_def Let_def table_ok_fold_put split: option.splits)

lemma fold_run_op_ok: "notify_ok db \<Longrightarrow> notify_ok (fold run_op ops db)"
  by (induction ops arbitrary: db) (auto simp: run_op_ok)

definition opted_out :: "nat \<Rightarrow> string \<Rightarrow> string \<Rightarrow> notify_db \<Rightarrow> bool" where
  "opted_out u c ch db \<longleftrightarrow> (case preference_for u c ch db of None \<Rightarrow> False | Some p \<Rightarrow> \<not> pr_enabled p)"

lemma preference_found:
  "notify_ok db \<Longrightarrow> preference_for u c ch db = Some p
     \<longleftrightarrow> repo_get (ent_id p) (nd_preferences db) = Some p \<and> deleted_at p = None \<and> concerns u c ch p"
proof
  assume ok: "notify_ok db"
  then have t: "table_ok (nd_preferences db)" by (simp add: notify_ok_def)
  assume "preference_for u c ch db = Some p"
  with find_by_Some [OF t] show "repo_get (ent_id p) (nd_preferences db) = Some p \<and> deleted_at p = None \<and> concerns u c ch p"
    by (auto simp: preference_for_def)
next
  assume ok: "notify_ok db" and p: "repo_get (ent_id p) (nd_preferences db) = Some p \<and> deleted_at p = None \<and> concerns u c ch p"
  from p have p1: "repo_get (ent_id p) (nd_preferences db) = Some p" and p2: "deleted_at p = None" and p3: "concerns u c ch p"
    by blast+
  from ok have t: "table_ok (nd_preferences db)" by (simp add: notify_ok_def)
  show "preference_for u c ch db = Some p"
  proof (cases "preference_for u c ch db")
    case None
    with find_by_None [OF t _ p1 p2, of "concerns u c ch"] p3 show ?thesis by (simp add: preference_for_def)
  next
    case (Some q)
    then have q: "repo_get (ent_id q) (nd_preferences db) = Some q" "deleted_at q = None" "concerns u c ch q"
      using find_by_Some [OF t] by (auto simp: preference_for_def)
    from ok have one: "one_preference (nd_preferences db)" by (simp add: notify_ok_def)
    have "ent_id p = ent_id q"
      by (rule one_preferenceD [OF one p1 q(1) p2 q(2) p3 q(3)])
    then have "Some p = Some q" by (simp only: p1 [symmetric] q(1) [symmetric])
    with Some show ?thesis by simp
  qed
qed

lemma set_preference_sets:
  assumes "notify_ok db"
  shows "\<exists>p. preference_for u c ch (snd (set_preference now u c ch b db)) = Some p \<and> pr_enabled p = b"
proof -
  obtain p db' where s: "set_preference now u c ch b db = (p, db')" by force
  have ok: "notify_ok db'" using set_preference_ok [OF assms, of now u c ch b] s by simp
  have "repo_get (ent_id p) (nd_preferences db') = Some p \<and> deleted_at p = None \<and> concerns u c ch p \<and> pr_enabled p = b"
  proof (cases "preference_for u c ch db")
    case None
    with s show ?thesis
      by (auto simp: set_preference_def Let_def concerns_def repo_add_def repo_get_def split: prod.splits)
  next
    case (Some q)
    with s preference_found [OF assms, of u c ch q]
    show ?thesis by (auto simp: set_preference_def Let_def concerns_def)
  qed
  with preference_found [OF ok, of u c ch p] s show ?thesis by auto
qed

lemma set_preference_other:
  assumes "notify_ok db" and "(v, c', ch') \<noteq> (u, c, ch)"
  shows "preference_for u c ch (snd (set_preference now v c' ch' b db)) = Some p \<longleftrightarrow> preference_for u c ch db = Some p"
proof -
  have ok: "notify_ok (snd (set_preference now v c' ch' b db))" using assms(1) by (rule set_preference_ok)
  show ?thesis
  proof (cases "preference_for v c' ch' db")
    case None
    define r where "r = \<lparr>ent_id = 0, created_at = now, deleted_at = None, pr_user_id = v, pr_category = c', pr_channel = ch', pr_enabled = b\<rparr>"
    obtain q t where q: "repo_add r (nd_preferences db) = (q, t)" by force
    have t: "nd_preferences (snd (set_preference now v c' ch' b db)) = t"
      using None q by (simp add: set_preference_def flip: r_def)
    have "\<not> concerns u c ch q"
      using assms(2) by (auto simp: repo_add_new(1) [OF q] r_def concerns_def)
    moreover have "repo_get (ent_id q) (nd_preferences db) = None" by (rule repo_add_new(3) [OF q])
    ultimately show ?thesis
      unfolding preference_found [OF ok] preference_found [OF assms(1)] t repo_add_new(4) [OF q]
      by (cases "ent_id p = ent_id q") auto
  next
    case (Some q)
    have q: "repo_get (ent_id q) (nd_preferences db) = Some q" "concerns v c' ch' q"
      using preference_found [OF assms(1), of v c' ch' q] Some by auto
    have t: "nd_preferences (snd (set_preference now v c' ch' b db)) = repo_put (q\<lparr>pr_enabled := b\<rparr>) (nd_preferences db)"
      using Some by (simp add: set_preference_def Let_def)
    have "\<not> concerns u c ch q" "\<not> concerns u c ch (q\<lparr>pr_enabled := b\<rparr>)" using q(2) assms(2) by (auto simp: concerns_def)
    then show ?thesis
      unfolding preference_found [OF ok] preference_found [OF assms(1)] t
      using q by (cases "ent_id p = ent_id q") auto
  qed
qed

fun opts_in :: "nat \<Rightarrow> string \<Rightarrow> string \<Rightarrow> notification_op \<Rightarrow> bool" where
  "opts_in u c ch (SetPreference now v c' ch' b) = (b \<and> v = u \<and> c' = c \<and> ch' = ch)"
| "opts_in u c ch _ = False"

definition addressed :: "nat \<Rightarrow> string \<Rightarrow> string \<Rightarrow> notify_db \<Rightarrow> nat set" where
  "addressed u c ch db = {i. \<exists>n. repo_get i (nd_notifications db) = Some n \<and> nt_user_id n = u \<and> nt_category n = c \<and> nt_channel n = ch}"

lemma addressed_iff:
  "i \<in> addressed u c ch db \<longleftrightarrow> (case repo_get i (nd_notifications db) of None \<Rightarrow> False
     | Some n \<Rightarrow> nt_user_id n = u \<and> nt_category n = c \<and> nt_channel n = ch)"
  by (auto simp: addressed_def split: option.splits)

lemma opted_out_step:
  assumes "notify_ok db" and "opted_out u c ch db" and "\<not> opts_in u c ch op"
  shows "opted_out u c ch (run_op op db)"
proof (cases op)
  case (SetPreference now v c' ch' b)
  show ?thesis
  proof (cases "(v, c', ch') = (u, c, ch)")
    case True
    with SetPreference assms set_preference_sets [OF assms(1), of u c ch now b] show ?thesis by (auto simp: opted_out_def)
  next
    case False
    from assms(2) obtain p where "preference_for u c ch db = Some p" "\<not> pr_enabled p"
      by (auto simp: opted_out_def split: option.splits)
    with set_preference_other [OF assms(1) False, of now b p] SetPreference show ?thesis by (simp add: opted_out_def)
  qed
qed (use assms in \<open>simp_all add: opted_out_def preference_for_def\<close>)

lemma opted_out_silent:
  assumes "notify_ok db" and "opted_out u c ch db"
  shows "addressed u c ch (run_op op db) = addressed u c ch db"
proof (cases op)
  case (Notify now v c' title body ch' g url)
  show ?thesis
  proof (cases "opted_out v c' ch' db")
    case True
    then show ?thesis using Notify by (simp add: notify_def opted_out_def)
  next
    case False
    obtain n t where n: "repo_add (notification_init now v c' title body ch' g url) (nd_notifications db) = (n, t)" by force
    have "\<not> (nt_user_id n = u \<and> nt_category n = c \<and> nt_channel n = ch)"
      using False assms(2) by (auto simp: repo_add_new(1) [OF n] notification_init_def)
    moreover have "run_op op db = db\<lparr>nd_notifications := t\<rparr>"
      using False n Notify by (simp add: notify_def opted_out_def [symmetric])
    ultimately show ?thesis
      using repo_add_new(3,4) [OF n] by (auto simp: addressed_def split: if_splits)
  qed
next
  case (MarkRead now i)
  then show ?thesis
    using assms(1) by (auto simp: mark_read_def addressed_def notify_ok_def split: option.splits if_splits dest: repo.get_key)
next
  case (MarkAllRead now v)
  have "table_ok (nd_notifications db)" using assms(1) by (simp add: notify_ok_def)
  from mark_all_read_table [OF this, of now v] MarkAllRead show ?thesis
    by (intro set_eqI) (simp add: addressed_iff split: option.splits)
next
  case (SetPreference now v c' ch' b)
  have "nd_notifications (snd (set_preference now v c' ch' b db)) = nd_notifications db"
    by (auto simp: set_preference_def Let_def split: option.splits prod.splits)
  with SetPreference show ?thesis by (simp add: addressed_def)
qed

text \<open>
  C38: an opt-out is respected: once a user has turned a category off on a channel, no sequence of
  operations of the service creates a notification of that kind for them until they turn it on
  again.
\<close>

theorem opt_out_respected:
  assumes "notify_ok db" and "\<forall>op\<in>set ops. \<not> opts_in u c ch op"
  shows "addressed u c ch (fold run_op ops (snd (set_preference now u c ch False db))) = addressed u c ch db"
proof -
  let ?db = "snd (set_preference now u c ch False db)"
  have ok: "notify_ok ?db" using assms(1) by (rule set_preference_ok)
  have out: "opted_out u c ch ?db"
    using set_preference_sets [OF assms(1), of u c ch now False] by (auto simp: opted_out_def)
  have "addressed u c ch (fold run_op ops d) = addressed u c ch d" if "notify_ok d" "opted_out u c ch d" for d
    using that assms(2)
  proof (induction ops arbitrary: d)
    case (Cons x xs)
    then show ?case using opted_out_silent [of d u c ch x] opted_out_step [of d u c ch x] run_op_ok [of d x] by simp
  qed simp
  with ok out have "addressed u c ch (fold run_op ops ?db) = addressed u c ch ?db" by blast
  also have "nd_notifications ?db = nd_notifications db"
    by (auto simp: set_preference_def Let_def split: option.splits prod.splits)
  then have "addressed u c ch ?db = addressed u c ch db" by (simp add: addressed_def)
  finally show ?thesis .
qed

section \<open>Deliveries\<close>

lemma bulk_add_appends:
  "bulk_add rs t = (rs', t') \<Longrightarrow> table_ok t \<Longrightarrow>
     t' = t @ map (\<lambda>r. (ent_id r, r)) rs' \<and> table_ok t' \<and> list_all2 (\<lambda>r r'. \<exists>i. r' = r\<lparr>ent_id := i\<rparr>) rs rs'"
proof (induction rs arbitrary: t rs' t')
  case (Cons r rs)
  obtain r1 t1 where r: "repo_add r t = (r1, t1)" by force
  obtain rs2 t2 where rs: "bulk_add rs t1 = (rs2, t2)" by force
  from Cons.prems r rs have eq: "rs' = r1 # rs2" "t' = t2" by auto
  have "ent_id r1 = new_id t" by (simp add: repo_add_new(1) [OF r])
  moreover note Cons.IH [OF rs repo_add_ok [OF Cons.prems(2) r]] repo_add_new(1,2) [OF r]
  ultimately show ?case by (auto simp: eq)
qed auto

lemma list_all2_new: "list_all2 (\<lambda>r r'. \<exists>i. r' = r\<lparr>ent_id := i\<rparr>) (map f xs) ys \<Longrightarrow> ys = map2 (\<lambda>x y. (f x)\<lparr>ent_id := ent_id y\<rparr>) xs ys"
  by (induction xs arbitrary: ys) (auto simp: list_all2_Cons1)

text \<open>
  An event is queued once for each live, active webhook of the organization that subscribes to
  it or to everything, in their order, as a fresh pending delivery without attempts; nothing that
  was queued before moves, and no other table does.
\<close>

theorem enqueue_event_fans_out:
  assumes "table_ok (nd_deliveries db)" and "enqueue_event now g ev payload db = (ds, db')"
  shows "map dl_webhook_id ds = map ent_id (filter (\<lambda>w. wh_organization_id w = g \<and> wh_is_active w \<and> subscribes ev w)
             (base_query False (nd_webhooks db)))
    \<and> (\<forall>d\<in>set ds. dl_status d = WD_PENDING \<and> dl_attempt d = 0 \<and> dl_payload d = payload \<and> dl_event_type d = ev
         \<and> repo_get (ent_id d) (nd_deliveries db) = None)
    \<and> distinct (map ent_id ds)
    \<and> db' = db\<lparr>nd_deliveries := nd_deliveries db @ map (\<lambda>d. (ent_id d, d)) ds\<rparr>"
proof -
  let ?hooks = "list_active_for_event g ev db" and ?new = "\<lambda>w. delivery_init now (ent_id w) ev payload"
  obtain t where b: "bulk_add (map ?new ?hooks) (nd_deliveries db) = (ds, t)" and db': "db' = db\<lparr>nd_deliveries := t\<rparr>"
    using assms(2) by (auto simp: enqueue_event_def Let_def split: prod.splits)
  from bulk_add_appends [OF b assms(1)] have t: "t = nd_deliveries db @ map (\<lambda>d. (ent_id d, d)) ds" and ok: "table_ok t"
    and eq: "list_all2 (\<lambda>r r'. \<exists>i. r' = r\<lparr>ent_id := i\<rparr>) (map ?new ?hooks) ds" by auto
  from eq have l: "length ?hooks = length ds" by (auto dest: list_all2_lengthD)
  have d: "ds ! n = (?new (?hooks ! n))\<lparr>ent_id := ent_id (ds ! n)\<rparr>" if "n < length ds" for n
    using list_all2_nthD2 [OF eq that] that l by auto
  have w: "dl_webhook_id (ds ! n) = ent_id (?hooks ! n)" if "n < length ds" for n
    by (subst d [OF that]) (simp add: delivery_init_def)
  have keys: "distinct (map fst (nd_deliveries db) @ map ent_id ds)"
    using ok by (simp add: t table_ok_def dict_ok_def comp_def)
  have "map dl_webhook_id ds = map ent_id ?hooks"
    using w l by (simp add: list_eq_iff_nth_eq)
  moreover have "dl_status d = WD_PENDING \<and> dl_attempt d = 0 \<and> dl_payload d = payload \<and> dl_event_type d = ev
      \<and> repo_get (ent_id d) (nd_deliveries db) = None" if "d \<in> set ds" for d
  proof -
    from that obtain n where n: "n < length ds" "ds ! n = d" by (auto simp: in_set_conv_nth)
    have "ent_id d \<notin> set (keys (nd_deliveries db))" using keys that by auto
    then have "repo_get (ent_id d) (nd_deliveries db) = None" by (simp add: repo_get_def dict_get_None_iff)
    moreover from d [OF n(1)] n(2) obtain i w where "d = (delivery_init now w ev payload)\<lparr>ent_id := i\<rparr>" by metis
    ultimately show ?thesis by (auto simp: delivery_init_def)
  qed
  ultimately show ?thesis
    using keys by (simp add: t db' list_active_for_event_def conj_assoc)
qed

text \<open>
  A dispatcher attempts a delivery when it is pending or due for a retry; the service itself does
  not check this.
\<close>

inductive webhook_step :: "notify_db \<Rightarrow> notify_db \<Rightarrow> bool" where
  create: "webhook_create hash_token secret now g name url events db = (r, db') \<Longrightarrow> webhook_step db db'"
| enqueue: "enqueue_event now g ev payload db = (ds, db') \<Longrightarrow> webhook_step db db'"
| delivered: "repo_get i (nd_deliveries db) = Some d \<Longrightarrow> dl_status d = WD_PENDING \<or> d \<in> set (due_retries now limit db) \<Longrightarrow>
    record_success now i status body db = (r, db') \<Longrightarrow> webhook_step db db'"
| failed: "repo_get i (nd_deliveries db) = Some d \<Longrightarrow> dl_status d = WD_PENDING \<or> d \<in> set (due_retries now limit db) \<Longrightarrow>
    record_failure now i error status db = (r, db') \<Longrightarrow> webhook_step db db'"

fun delivery_ok :: "delivery \<Rightarrow> bool" where
  "delivery_ok d = (case dl_status d of
       WD_PENDING \<Rightarrow> dl_attempt d = 0 \<and> dl_next_retry_at d = None \<and> dl_delivered_at d = None
     | WD_FAILED \<Rightarrow> 1 \<le> dl_attempt d \<and> dl_attempt d \<le> 3 \<and> dl_next_retry_at d \<noteq> None \<and> dl_delivered_at d = None
     | WD_DELIVERED \<Rightarrow> 1 \<le> dl_attempt d \<and> dl_attempt d \<le> 4 \<and> dl_next_retry_at d = None \<and> dl_delivered_at d \<noteq> None
     | WD_EXHAUSTED \<Rightarrow> dl_attempt d = 4 \<and> dl_next_retry_at d = None \<and> dl_delivered_at d = None)"

definition webhooks_ok :: "notify_db \<Rightarrow> bool" where
  "webhooks_ok db \<longleftrightarrow> table_ok (nd_webhooks db) \<and> table_ok (nd_deliveries db)
     \<and> (\<forall>i d. repo_get i (nd_deliveries db) = Some d \<longrightarrow> delivery_ok d)"

definition settled :: "delivery \<Rightarrow> bool" where
  "settled d \<longleftrightarrow> dl_status d = WD_DELIVERED \<or> dl_status d = WD_EXHAUSTED"

definition attemptable :: "delivery \<Rightarrow> bool" where
  "attemptable d \<longleftrightarrow> dl_status d = WD_PENDING \<or> dl_status d = WD_FAILED"

lemma due_retries_failed: "d \<in> set (due_retries now limit db) \<Longrightarrow> dl_status d = WD_FAILED"
  by (auto simp: due_retries_def dest!: in_set_takeD)

lemma touch_webhook_frame [simp]: "nd_deliveries (touch_webhook w f db) = nd_deliveries db"
  by (simp add: touch_webhook_def split: option.split)

lemma touch_webhook_ok: "table_ok (nd_webhooks db) \<Longrightarrow> table_ok (nd_webhooks (touch_webhook w f db))"
  by (simp add: touch_webhook_def split: option.split)

lemma after_failure_ok:
  assumes "delivery_ok d" and "attemptable d"
  shows "delivery_ok (after_failure now e st d)"
  using assms by (cases "dl_status d") (auto simp: attemptable_def after_failure_def RETRY_BACKOFF_SECONDS_def Let_def)

lemma after_failure_id [simp]: "ent_id (after_failure now e st d) = ent_id d" "dl_webhook_id (after_failure now e st d) = dl_webhook_id d"
  by (simp_all add: after_failure_def Let_def)

text \<open>What a recorded attempt does to the delivery table, and to nothing else of it.\<close>

lemma record_success_table:
  assumes "record_success now i st body db = (r, db')" and "table_ok (nd_deliveries db)"
    and "repo_get i (nd_deliveries db) = Some d"
  shows "\<exists>d'. r = Inr d' \<and> repo_get j (nd_deliveries db') = (if j = i then Some d' else repo_get j (nd_deliveries db))
    \<and> dl_status d' = WD_DELIVERED \<and> dl_attempt d' = dl_attempt d + 1 \<and> dl_next_retry_at d' = None \<and> dl_delivered_at d' = Some now
    \<and> table_ok (nd_deliveries db')"
  using assms repo.get_key [OF assms(2,3)] by (auto simp: record_success_def Let_def)

lemma record_failure_table:
  assumes "record_failure now i e st db = (r, db')" and "table_ok (nd_deliveries db)"
    and "repo_get i (nd_deliveries db) = Some d"
  shows "repo_get j (nd_deliveries db') = (if j = i then Some (after_failure now e st d) else repo_get j (nd_deliveries db))
    \<and> r = Inr (after_failure now e st d) \<and> table_ok (nd_deliveries db')"
  using assms repo.get_key [OF assms(2,3)] by (auto simp: record_failure_def Let_def)

lemma webhook_create_frame:
  "webhook_create h s now g n url ev db = (r, db') \<Longrightarrow> nd_deliveries db' = nd_deliveries db"
  by (auto simp: webhook_create_def Let_def split: if_splits prod.splits)

lemma webhook_tables:
  "webhook_create h s now g n url ev db = (r, db') \<Longrightarrow> table_ok (nd_webhooks db) \<Longrightarrow> table_ok (nd_webhooks db')"
  by (auto simp: webhook_create_def Let_def repo_add_ok split: if_splits prod.splits)

lemma enqueue_event_table:
  assumes "enqueue_event now g ev payload db = (ds, db')" and "table_ok (nd_deliveries db)"
  shows "table_ok (nd_deliveries db')" "nd_webhooks db' = nd_webhooks db"
    and "repo_get i (nd_deliveries db) = Some d \<Longrightarrow> repo_get i (nd_deliveries db') = Some d"
    and "repo_get i (nd_deliveries db') = Some d \<Longrightarrow>
           repo_get i (nd_deliveries db) = Some d \<or> (dl_status d = WD_PENDING \<and> delivery_ok d)"
proof -
  let ?new = "\<lambda>w. delivery_init now (ent_id w) ev payload"
  obtain t where b: "bulk_add (map ?new (list_active_for_event g ev db)) (nd_deliveries db) = (ds, t)" and db': "db' = db\<lparr>nd_deliveries := t\<rparr>"
    using assms(1) by (auto simp: enqueue_event_def Let_def split: prod.splits)
  from bulk_add_appends [OF b assms(2)] have t: "t = nd_deliveries db @ map (\<lambda>d. (ent_id d, d)) ds" and ok: "table_ok t"
    and eq: "list_all2 (\<lambda>r r'. \<exists>i. r' = r\<lparr>ent_id := i\<rparr>) (map ?new (list_active_for_event g ev db)) ds" by auto
  show "table_ok (nd_deliveries db')" "nd_webhooks db' = nd_webhooks db" using ok by (simp_all add: db')
  show "repo_get i (nd_deliveries db') = Some d" if "repo_get i (nd_deliveries db) = Some d"
    using that by (simp add: db' t repo_get_def map_add_Some_iff)
  have new: "dl_status d = WD_PENDING \<and> delivery_ok d" if "d \<in> set ds"
  proof -
    from that obtain n where "n < length ds" "ds ! n = d" by (auto simp: in_set_conv_nth)
    with list_all2_nthD2 [OF eq, of n] list_all2_lengthD [OF eq] obtain k where
      "d = (?new (list_active_for_event g ev db ! n))\<lparr>ent_id := k\<rparr>" by auto
    then show ?thesis by (simp add: delivery_init_def)
  qed
  show "repo_get i (nd_deliveries db) = Some d \<or> (dl_status d = WD_PENDING \<and> delivery_ok d)" if "repo_get i (nd_deliveries db') = Some d"
  proof -
    from that consider "map_of (map (\<lambda>d. (ent_id d, d)) ds) i = Some d" | "repo_get i (nd_deliveries db) = Some d"
      by (auto simp: db' t repo_get_def map_add_Some_iff)
    then show ?thesis
    proof cases
      case 1
      then have "d \<in> set ds" by (auto dest: map_of_SomeD)
      with new show ?thesis by blast
    qed blast
  qed
qed

lemma attempt_step:
  assumes "webhooks_ok db" and "repo_get i (nd_deliveries db) = Some d" and "attemptable d"
    and "record_success now i st body db = (r, db') \<or> record_failure now i e st' db = (r, db')"
  shows "webhooks_ok db' \<and> (\<forall>j x. settled x \<longrightarrow> repo_get j (nd_deliveries db) = Some x \<longrightarrow> repo_get j (nd_deliveries db') = Some x)"
proof -
  from assms(1) have t: "table_ok (nd_deliveries db)" "table_ok (nd_webhooks db)" and d: "delivery_ok d"
    and all: "\<And>j x. repo_get j (nd_deliveries db) = Some x \<Longrightarrow> delivery_ok x"
    using assms(2) by (auto simp: webhooks_ok_def)
  have ns: "\<not> settled d" using assms(3) by (auto simp: settled_def attemptable_def)
  have w: "table_ok (nd_webhooks db')"
    using assms(2,4) t(2) by (auto simp: record_success_def record_failure_def Let_def intro!: touch_webhook_ok)
  have "\<exists>d'. delivery_ok d' \<and> table_ok (nd_deliveries db') \<and>
      (\<forall>j. repo_get j (nd_deliveries db') = (if j = i then Some d' else repo_get j (nd_deliveries db)))"
    using assms(4)
  proof
    assume s: "record_success now i st body db = (r, db')"
    from record_success_table [OF s t(1) assms(2)] obtain d' where d': "r = Inr d'" "dl_status d' = WD_DELIVERED"
      "dl_attempt d' = dl_attempt d + 1" "dl_next_retry_at d' = None" "dl_delivered_at d' = Some now" "table_ok (nd_deliveries db')"
      by blast
    have "delivery_ok d'" using d d' assms(3) by (cases "dl_status d") (auto simp: attemptable_def)
    moreover have "\<forall>j. repo_get j (nd_deliveries db') = (if j = i then Some d' else repo_get j (nd_deliveries db))"
      using record_success_table [OF s t(1) assms(2)] d'(1) by auto
    ultimately show ?thesis using d'(6) by blast
  next
    assume f: "record_failure now i e st' db = (r, db')"
    with record_failure_table [OF f t(1) assms(2)] after_failure_ok [OF d assms(3)] show ?thesis by blast
  qed
  then obtain d' where d': "delivery_ok d'" "table_ok (nd_deliveries db')"
    and get: "\<And>j. repo_get j (nd_deliveries db') = (if j = i then Some d' else repo_get j (nd_deliveries db))" by blast
  show ?thesis
    unfolding webhooks_ok_def get using w d' all ns assms(2) by auto
qed

lemma webhook_step_ok:
  assumes "webhook_step db db'" and "webhooks_ok db"
  shows "webhooks_ok db' \<and> (\<forall>j x. settled x \<longrightarrow> repo_get j (nd_deliveries db) = Some x \<longrightarrow> repo_get j (nd_deliveries db') = Some x)"
  using assms(1)
proof cases
  case create
  with assms(2) webhook_create_frame webhook_tables show ?thesis unfolding webhooks_ok_def by metis
next
  case enqueue
  with assms(2) enqueue_event_table [OF enqueue] show ?thesis unfolding webhooks_ok_def by metis
next
  case (delivered i d now limit st body r)
  then have "attemptable d" using due_retries_failed by (auto simp: attemptable_def)
  with attempt_step [OF assms(2)] delivered show ?thesis by blast
next
  case (failed i d now limit e st r)
  then have "attemptable d" using due_retries_failed by (auto simp: attemptable_def)
  with attempt_step [OF assms(2)] failed show ?thesis by blast
qed

lemma webhook_steps_ok:
  assumes "webhook_step\<^sup>*\<^sup>* db db'" and "webhooks_ok db"
  shows "webhooks_ok db' \<and> (\<forall>j x. settled x \<longrightarrow> repo_get j (nd_deliveries db) = Some x \<longrightarrow> repo_get j (nd_deliveries db') = Some x)"
  using assms
proof (induction rule: rtranclp_induct)
  case (step y z)
  with webhook_step_ok [OF step(2)] show ?case by blast
qed simp

lemma webhooks_ok_empty: "nd_webhooks db = [] \<Longrightarrow> nd_deliveries db = [] \<Longrightarrow> webhooks_ok db"
  by (simp add: webhooks_ok_def repo_get_def)


section \<open>What the schedule really is\<close>

text \<open>The delay is read after the attempt is counted: the first entry of the schedule is never used.\<close>

theorem first_delay_unused:
  assumes "dl_attempt d = 0"
  shows "dl_next_retry_at (after_failure t1 e1 s1 d) = Some (t1 + seconds 300)
    \<and> dl_next_retry_at (after_failure t2 e2 s2 (after_failure t1 e1 s1 d)) = Some (t2 + seconds 1800)
    \<and> dl_next_retry_at (after_failure t3 e3 s3 (after_failure t2 e2 s2 (after_failure t1 e1 s1 d))) = Some (t3 + seconds 7200)
    \<and> dl_status (after_failure t4 e4 s4 (after_failure t3 e3 s3 (after_failure t2 e2 s2 (after_failure t1 e1 s1 d)))) = WD_EXHAUSTED"
  using assms by (simp add: after_failure_def RETRY_BACKOFF_SECONDS_def)

text \<open>Failures are counted on the subscription, and no number of them turns it off.\<close>

theorem failures_never_disable:
  assumes "record_failure now i e st db = (r, db')" and "table_ok (nd_webhooks db)" and "repo_get w (nd_webhooks db) = Some h"
  shows "\<exists>h'. repo_get w (nd_webhooks db') = Some h' \<and> wh_is_active h' = wh_is_active h"
  using assms repo.get_key [OF assms(2)]
  by (auto simp: record_failure_def touch_webhook_def Let_def split: option.splits)

text \<open>Recording a failure of a delivery that is already exhausted counts a fifth attempt.\<close>

theorem exhausted_not_guarded:
  "record_failure now i e st db = (Inr d', db') \<Longrightarrow> repo_get i (nd_deliveries db) = Some d \<Longrightarrow> dl_status d = WD_EXHAUSTED
     \<Longrightarrow> dl_attempt d = 4 \<Longrightarrow> dl_attempt d' = 5"
  by (auto simp: record_failure_def after_failure_def Let_def split: if_splits)

section \<open>Witnesses\<close>

definition no_rows :: notify_db where
  "no_rows = \<lparr>nd_notifications = [], nd_preferences = [], nd_webhooks = [], nd_deliveries = []\<rparr>"

definition one_unread :: notify_db where "one_unread = snd (notify 5 1 ''c'' ''t'' None ''in_app'' None None no_rows)"

definition one_hook :: notify_db where
  "one_hook = snd (webhook_create (\<lambda>s. s) ''s'' 0 1 ''n'' ''http://a'' [''*''] no_rows)"

definition one_queued :: notify_db where "one_queued = snd (enqueue_event 1 1 ''e'' [] one_hook)"

definition one_failed :: notify_db where "one_failed = snd (record_failure 2 0 ''x'' None one_queued)"

lemmas sample_defs = no_rows_def one_unread_def one_hook_def one_queued_def one_failed_def

lemma no_rows_ok: "notify_ok no_rows"
  by (rule notify_ok_empty) (simp_all add: no_rows_def)

theorem mark_all_read_counts_witness:
  "fst (mark_all_read 9 1 one_unread) = 1 \<and> count_unread 1 (snd (mark_all_read 9 1 one_unread)) = 0"
proof -
  have t: "table_ok (nd_notifications one_unread)" and c: "count_unread 1 one_unread = 1" by code_simp+
  from mark_all_read_counts [OF t, of 9 1 2 True 0] show ?thesis unfolding c by simp
qed

theorem opt_out_respected_witness:
  "addressed 1 ''c'' ''in_app'' (fold run_op [Notify 6 1 ''c'' ''t'' None ''in_app'' None None]
     (snd (set_preference 5 1 ''c'' ''in_app'' False no_rows))) = addressed 1 ''c'' ''in_app'' no_rows"
  by (rule opt_out_respected [OF no_rows_ok]) simp

theorem enqueue_event_fans_out_witness:
  "map dl_webhook_id (fst (enqueue_event 1 1 ''e'' [] one_hook)) = [0]"
proof -
  have t: "table_ok (nd_deliveries one_hook)" by code_simp
  have w: "map ent_id (filter (\<lambda>w. wh_organization_id w = 1 \<and> wh_is_active w \<and> subscribes ''e'' w) (base_query False (nd_webhooks one_hook))) = [0]"
    by code_simp
  show ?thesis using enqueue_event_fans_out [OF t surjective_pairing, of 1 1 "''e''" "[]"] by (simp only: w)
qed

lemma sample_webhook_steps: "webhook_step\<^sup>*\<^sup>* no_rows one_failed"
proof -
  have d: "map_option dl_status (repo_get 0 (nd_deliveries one_queued)) = Some WD_PENDING" by code_simp
  then obtain d where d: "repo_get 0 (nd_deliveries one_queued) = Some d" "dl_status d = WD_PENDING" by auto
  have "webhook_step no_rows one_hook"
    unfolding one_hook_def by (rule webhook_step.create [OF surjective_pairing])
  moreover have "webhook_step one_hook one_queued"
    unfolding one_queued_def by (rule webhook_step.enqueue [OF surjective_pairing])
  moreover have "webhook_step one_queued one_failed"
    unfolding one_failed_def by (rule webhook_step.failed [OF d(1) disjI1 [OF d(2)] surjective_pairing])
  ultimately show ?thesis by (meson rtranclp.rtrancl_refl rtranclp.rtrancl_into_rtrancl)
qed


end
