(* ===== verification/Cache.thy ===== *)
theory Cache
  imports Py_Value
begin

text \<open>
  The cache (\<^verbatim>\<open>app/core/cache/\<close>): the in-process backend with an expiry per key, and the service
  with its namespaces over it. A JSON text is represented by the value it denotes, so writing a value
  turns tuples into lists and reading is the identity. The Redis backend only calls its client.
\<close>

section \<open>The in-process backend\<close>

type_synonym memory_cache = "(string, pyval \<times> time option) dict"

definition cache_read :: "time \<Rightarrow> string \<Rightarrow> memory_cache \<Rightarrow> pyval option \<times> memory_cache" where
  "cache_read now key c =
     (case dict_get c key of
        None \<Rightarrow> (None, c)
      | Some (v, expires) \<Rightarrow>
          if (case expires of None \<Rightarrow> False | Some e \<Rightarrow> e < now) then (None, dict_pop key c) else (Some v, c))"

definition cache_write :: "time \<Rightarrow> string \<Rightarrow> pyval \<Rightarrow> int option \<Rightarrow> memory_cache \<Rightarrow> memory_cache" where
  "cache_write now key v ttl c =
     dict_set key (v, case ttl of None \<Rightarrow> None | Some n \<Rightarrow> if n = 0 then None else Some (now + seconds n)) c"

definition cache_remove :: "string list \<Rightarrow> memory_cache \<Rightarrow> memory_cache" where
  "cache_remove ks c = fold dict_pop ks c"

definition scan_keys :: "string \<Rightarrow> memory_cache \<Rightarrow> string list" where
  "scan_keys pattern c =
     (let prefix = rev (dropWhile (\<lambda>x. x = CHR ''*'') (rev pattern)) in filter (\<lambda>k. startswith k prefix) (keys c))"

section \<open>The service\<close>

definition DEFAULT_TTL :: int where "DEFAULT_TTL = 300"

fun json_form :: "pyval \<Rightarrow> pyval" where
  "json_form (PList xs) = PList (map json_form xs)"
| "json_form (PTuple xs) = PList (map json_form xs)"
| "json_form (PDict d) = PDict (map (\<lambda>(k, v). (k, json_form v)) d)"
| "json_form v = v"

definition cache_key :: "string \<Rightarrow> string \<Rightarrow> string \<Rightarrow> string" where
  "cache_key prefix namespace key = join '':'' [prefix, namespace, key]"

definition cache_get :: "string \<Rightarrow> time \<Rightarrow> string \<Rightarrow> string \<Rightarrow> memory_cache \<Rightarrow> pyval \<times> memory_cache" where
  "cache_get prefix now namespace key c =
     (case cache_read now (cache_key prefix namespace key) c of
        (None, c') \<Rightarrow> (PNone, c')
      | (Some raw, c') \<Rightarrow> (raw, c'))"

definition cache_set :: "string \<Rightarrow> time \<Rightarrow> string \<Rightarrow> string \<Rightarrow> pyval \<Rightarrow> int option \<Rightarrow> memory_cache \<Rightarrow> memory_cache" where
  "cache_set prefix now namespace key v ttl c = cache_write now (cache_key prefix namespace key) (json_form v) ttl c"

definition cache_delete :: "string \<Rightarrow> string \<Rightarrow> string \<Rightarrow> memory_cache \<Rightarrow> memory_cache" where
  "cache_delete prefix namespace key c = cache_remove [cache_key prefix namespace key] c"

definition invalidate_namespace :: "string \<Rightarrow> string \<Rightarrow> memory_cache \<Rightarrow> memory_cache" where
  "invalidate_namespace prefix namespace c =
     (let ks = scan_keys (cache_key prefix namespace ''*'') c in if ks \<noteq> [] then cache_remove ks c else c)"

definition get_or_set :: "string \<Rightarrow> time \<Rightarrow> string \<Rightarrow> string \<Rightarrow> pyval \<Rightarrow> int option \<Rightarrow> memory_cache \<Rightarrow> pyval \<times> memory_cache" where
  \<comment> \<open>\<open>v\<close> is what the factory returns when it is called\<close>
  "get_or_set prefix now namespace key v ttl c =
     (case cache_get prefix now namespace key c of
        (cached, c') \<Rightarrow> if cached \<noteq> PNone then (cached, c') else (v, cache_set prefix now namespace key v ttl c'))"

section \<open>Laws\<close>

lemma cache_read_other: "k \<noteq> k' \<Longrightarrow> dict_get (snd (cache_read now k' c)) k = dict_get c k"
  by (auto simp: cache_read_def split: option.splits prod.splits)

lemma cache_remove_get: "dict_get (cache_remove ks c) k = (if k \<in> set ks then None else dict_get c k)"
  by (induction ks arbitrary: c) (auto simp: cache_remove_def)

lemma cache_read_write:
  "fst (cache_read t k (cache_write s k v ttl c))
     = (case ttl of None \<Rightarrow> Some v | Some n \<Rightarrow> if n = 0 \<or> t \<le> s + seconds n then Some v else None)"
  by (auto simp: cache_read_def cache_write_def split: option.split)

lemma cache_read_write_other:
  "k' \<noteq> k \<Longrightarrow> fst (cache_read t k' (cache_write s k v ttl c)) = fst (cache_read t k' c)"
  by (auto simp: cache_read_def cache_write_def split: option.split)

text \<open>At one point in time, writing without an expiry is a table of rows.\<close>

interpretation live: row_store "\<lambda>c k. fst (cache_read now k c)" "\<lambda>k v. cache_write now k v None" dict_ok for now
proof unfold_locales
  show "dict_ok (cache_write now k v None c)" if "dict_ok c" for k v c using that by (simp add: cache_write_def)
qed (simp_all add: cache_read_write cache_read_write_other)

datatype cache_op =
    CGet time string string
  | CSet time string string pyval "int option"
  | CDelete string string
  | CInvalidate string

fun run_cache :: "string \<Rightarrow> cache_op \<Rightarrow> memory_cache \<Rightarrow> memory_cache" where
  "run_cache p (CGet now n k) c = snd (cache_get p now n k c)"
| "run_cache p (CSet now n k v ttl) c = cache_set p now n k v ttl c"
| "run_cache p (CDelete n k) c = cache_delete p n k c"
| "run_cache p (CInvalidate n) c = invalidate_namespace p n c"

fun spares :: "string \<Rightarrow> string \<Rightarrow> time \<Rightarrow> cache_op \<Rightarrow> bool" where
  \<comment> \<open>the operation writes neither the key nor its namespace, and reads no later than the time\<close>
  "spares p key t (CGet now n k) = (now \<le> t)"
| "spares p key t (CSet now n k v ttl) = (cache_key p n k \<noteq> key)"
| "spares p key t (CDelete n k) = (cache_key p n k \<noteq> key)"
| "spares p key t (CInvalidate n) = (\<not> startswith key (cache_key p n []))"

lemma scan_namespace: "scan_keys (cache_key p n ''*'') c = filter (\<lambda>k. startswith k (cache_key p n [])) (keys c)"
  by (simp add: scan_keys_def cache_key_def)

lemma invalidate_get:
  "dict_get (invalidate_namespace p n c) k = (if startswith k (cache_key p n []) then None else dict_get c k)"
proof -
  have "invalidate_namespace p n c = cache_remove (filter (\<lambda>k. startswith k (cache_key p n [])) (keys c)) c"
    unfolding invalidate_namespace_def Let_def scan_namespace cache_remove_def
    by (cases "filter (\<lambda>k. startswith k (cache_key p n [])) (keys c)") simp_all
  then show ?thesis using dict_get_in_keys [of c k] by (cases "dict_get c k") (auto simp: cache_remove_get)
qed

definition value_at :: "time \<Rightarrow> string \<Rightarrow> memory_cache \<Rightarrow> pyval option" where
  "value_at t key c = fst (cache_read t key c)"

lemma value_at_eq: "dict_get c' k = dict_get c k \<Longrightarrow> value_at t k c' = value_at t k c"
  by (simp add: value_at_def cache_read_def split: option.split)

lemma spared:
  assumes "spares p key t op"
  shows "value_at t key (run_cache p op c) = value_at t key c"
proof (cases op)
  case (CGet now n k)
  have s: "snd (cache_get p now n k c) = snd (cache_read now (cache_key p n k) c)"
    by (simp add: cache_get_def split: prod.split option.split)
  show ?thesis
  proof (cases "cache_key p n k = key")
    case True
    have "value_at t key (snd (cache_read now key c)) = value_at t key c"
      using assms CGet by (auto simp: value_at_def cache_read_def split: option.splits)
    then show ?thesis by (simp add: CGet s True)
  next
    case False
    then show ?thesis unfolding CGet run_cache.simps s by (intro value_at_eq cache_read_other) simp
  qed
next
  case (CSet now n k v ttl)
  with assms show ?thesis by (intro value_at_eq) (auto simp: cache_set_def cache_write_def)
next
  case (CDelete n k)
  with assms show ?thesis by (intro value_at_eq) (auto simp: cache_delete_def cache_remove_get)
next
  case (CInvalidate n)
  with assms show ?thesis by (intro value_at_eq) (simp add: invalidate_get)
qed

lemma spared_all: "list_all (spares p key t) ops \<Longrightarrow> value_at t key (fold (run_cache p) ops c) = value_at t key c"
  by (induction ops arbitrary: c) (auto simp: spared)

text \<open>
  A cached value is read back, in its JSON form, exactly until its time to live has passed,
  whatever operations on other keys and other namespaces come in between.
\<close>

theorem cache_roundtrip:
  assumes "list_all (spares p (cache_key p n k) t) ops"
  shows "fst (cache_get p t n k (fold (run_cache p) ops (cache_set p s n k v (Some ttl) c)))
    = (if ttl = 0 \<or> t \<le> s + seconds ttl then json_form v else PNone)"
proof -
  let ?c = "fold (run_cache p) ops (cache_set p s n k v (Some ttl) c)"
  have "fst (cache_get p t n k ?c) = (case value_at t (cache_key p n k) ?c of None \<Rightarrow> PNone | Some raw \<Rightarrow> raw)"
    by (simp add: cache_get_def value_at_def split: prod.split option.split)
  also have "value_at t (cache_key p n k) ?c = value_at t (cache_key p n k) (cache_set p s n k v (Some ttl) c)"
    by (rule spared_all [OF assms(1)])
  also have "\<dots> = (if ttl = 0 \<or> t \<le> s + seconds ttl then Some (json_form v) else None)"
    by (simp add: value_at_def cache_set_def cache_read_write)
  finally show ?thesis by simp
qed

text \<open>A namespace that is invalidated keeps none of its keys, and every other key stays.\<close>

lemma invalidate_exact:
  "cache_get p t n k (invalidate_namespace p n c) = (PNone, invalidate_namespace p n c)"
proof -
  have "startswith (cache_key p n k) (cache_key p n [])" by (simp add: startswith_def cache_key_def)
  then have "dict_get (invalidate_namespace p n c) (cache_key p n k) = None" by (simp add: invalidate_get)
  then show ?thesis by (simp add: cache_get_def cache_read_def)
qed

section \<open>Where the names and the time to live surprise\<close>

text \<open>
  The separator is not escaped: a key of one namespace is a key of another, so the namespaces that
  contain a colon (\<^verbatim>\<open>llm:response\<close>) are part of the one before it.
\<close>

theorem namespaces_overlap:
  "cache_get p t ''llm:response'' k (invalidate_namespace p ''llm'' c) = (PNone, invalidate_namespace p ''llm'' c)"
proof -
  have "startswith (cache_key p ''llm:response'' k) (cache_key p ''llm'' [])"
    by (simp add: startswith_def cache_key_def)
  then have "dict_get (invalidate_namespace p ''llm'' c) (cache_key p ''llm:response'' k) = None" by (simp add: invalidate_get)
  then show ?thesis by (simp add: cache_get_def cache_read_def)
qed

text \<open>A time to live of zero keeps the value forever.\<close>

theorem zero_ttl_never_expires: "v \<noteq> PNone \<Longrightarrow> fst (cache_get p t n k (cache_set p s n k v (Some 0) c)) = json_form v"
  by (cases v) (simp_all add: cache_get_def cache_set_def cache_write_def cache_read_def)

text \<open>What a factory returns is not cached when it is \<open>None\<close>: it is called again every time.\<close>

theorem none_not_cached: "fst (cache_get p t n k (snd (get_or_set p s n k PNone ttl c))) = PNone \<or> fst (cache_get p s n k c) \<noteq> PNone"
  by (auto simp: get_or_set_def cache_get_def cache_set_def cache_write_def cache_read_def split: option.splits prod.splits)

section \<open>Witnesses\<close>

theorem cache_roundtrip_witness:
  "fst (cache_get ''a'' 5 ''n'' ''k'' (fold (run_cache ''a'') [CDelete ''n'' ''x'', CInvalidate ''m'']
     (cache_set ''a'' 0 ''n'' ''k'' (PTuple [PInt 1]) (Some 9) []))) = PList [PInt 1]"
proof -
  have "list_all (spares ''a'' (cache_key ''a'' ''n'' ''k'') 5) [CDelete ''n'' ''x'', CInvalidate ''m'']" by code_simp
  from cache_roundtrip [OF this, of 0 "PTuple [PInt 1]" 9 "[]"] show ?thesis by simp
qed

end
