(* ===== verification/Platform.thy ===== *)
theory Platform
  imports Repository Cache
begin

text \<open>
  Two guards of the platform: feature flags (\<^verbatim>\<open>app/services/feature_flags.py\<close>) and the request
  limiter (\<^verbatim>\<open>app/middleware/rate_limit.py\<close>). The digest a subject or a key is hashed to is a
  parameter, and so is what the Redis client answers; the clocks are arguments.
\<close>

section \<open>Feature flags\<close>

datatype flag_scope = FS_GLOBAL | FS_ORGANIZATION | FS_USER

record feature_flag = entity +
  ff_key :: string
  ff_description :: "string option"
  ff_enabled :: bool
  ff_scope :: flag_scope
  ff_rollout_percentage :: int
  ff_targets :: "string list"

record flag_db =
  fd_flags :: "unit feature_flag_ext table"
  fd_cache :: memory_cache

definition flag_by_key :: "string \<Rightarrow> flag_db \<Rightarrow> feature_flag option" where
  "flag_by_key key db = find_by (\<lambda>f. ff_key f = key) (fd_flags db)"

definition configure_flag :: "bool \<Rightarrow> flag_scope \<Rightarrow> int \<Rightarrow> string list option \<Rightarrow> string option \<Rightarrow> feature_flag \<Rightarrow> feature_flag" where
  "configure_flag enabled scope percentage targets description f =
     f\<lparr>ff_enabled := enabled, ff_scope := scope, ff_rollout_percentage := max 0 (min percentage 100),
       ff_targets := (case targets of None \<Rightarrow> [] | Some ts \<Rightarrow> ts), ff_description := description\<rparr>"

definition set_flag :: "time \<Rightarrow> string \<Rightarrow> bool \<Rightarrow> flag_scope \<Rightarrow> int \<Rightarrow> string list option \<Rightarrow> string option \<Rightarrow> flag_db
    \<Rightarrow> feature_flag db_result \<times> flag_db" where
  \<comment> \<open>the key is unique, among removed rows too\<close>
  "set_flag now key enabled scope percentage targets description db =
     (let configure = configure_flag enabled scope percentage targets description;
          clear = (\<lambda>db. db\<lparr>fd_cache := cache_delete ''ayf'' ''feature_flags'' key (fd_cache db)\<rparr>)
      in case flag_by_key key db of
        None \<Rightarrow>
          if list_ex (\<lambda>f. ff_key f = key) (all_rows (fd_flags db)) then (Inl (IntegrityError ''feature_flag.key''), db)
          else
            let (f, t) = repo_add (configure \<lparr>ent_id = 0, created_at = now, deleted_at = None, ff_key = key, ff_description = None,
                   ff_enabled = False, ff_scope = FS_GLOBAL, ff_rollout_percentage = 0, ff_targets = []\<rparr>) (fd_flags db)
            in (Inr f, clear (db\<lparr>fd_flags := t\<rparr>))
      | Some f \<Rightarrow> (Inr (configure f), clear (db\<lparr>fd_flags := repo_put (configure f) (fd_flags db)\<rparr>)))"

definition in_rollout :: "(string \<Rightarrow> nat) \<Rightarrow> string \<Rightarrow> string \<Rightarrow> int \<Rightarrow> bool" where
  \<comment> \<open>\<open>h\<close> is the number the first eight digits of the digest denote\<close>
  "in_rollout h key subject percentage =
     (if percentage \<ge> 100 then True
      else if percentage \<le> 0 then False
      else int (h (key @ '':'' @ subject) mod 100) < percentage)"

definition is_enabled :: "(string \<Rightarrow> nat) \<Rightarrow> string \<Rightarrow> string option \<Rightarrow> string option \<Rightarrow> flag_db \<Rightarrow> bool" where
  "is_enabled h key organization_id user_id db =
     (case flag_by_key key db of
        None \<Rightarrow> False
      | Some f \<Rightarrow>
          if \<not> ff_enabled f then False
          else if ff_scope f = FS_GLOBAL then in_rollout h key ''global'' (ff_rollout_percentage f)
          else
            (case if ff_scope f = FS_ORGANIZATION then organization_id else user_id of
               None \<Rightarrow> False
             | Some subject \<Rightarrow>
                 if ff_targets f \<noteq> [] then subject \<in> set (ff_targets f)
                 else in_rollout h key subject (ff_rollout_percentage f)))"

definition evaluate_flag_route :: "(string \<Rightarrow> nat) \<Rightarrow> string \<Rightarrow> string \<Rightarrow> flag_db \<Rightarrow> bool" where
  "evaluate_flag_route h key user_id db = is_enabled h key None (Some user_id) db"

section \<open>What a flag means\<close>

definition flags_ok :: "flag_db \<Rightarrow> bool" where
  "flags_ok db \<longleftrightarrow> table_ok (fd_flags db)
     \<and> (\<forall>i j g g'. repo_get i (fd_flags db) = Some g \<longrightarrow> repo_get j (fd_flags db) = Some g' \<longrightarrow> ff_key g = ff_key g' \<longrightarrow> i = j)"

lemma flags_okD: "flags_ok db \<Longrightarrow> repo_get i (fd_flags db) = Some g \<Longrightarrow> repo_get j (fd_flags db) = Some g' \<Longrightarrow> ff_key g = ff_key g' \<Longrightarrow> i = j"
  unfolding flags_ok_def by blast

definition sets_flag :: "string \<Rightarrow> bool \<Rightarrow> flag_scope \<Rightarrow> int \<Rightarrow> string list option \<Rightarrow> feature_flag \<Rightarrow> bool" where
  "sets_flag key en sc pc ts f \<longleftrightarrow> deleted_at f = None \<and> ff_key f = key \<and> ff_enabled f = en \<and> ff_scope f = sc
     \<and> ff_rollout_percentage f = max 0 (min pc 100) \<and> ff_targets f = (case ts of None \<Rightarrow> [] | Some xs \<Rightarrow> xs)"

lemma set_flag_rows:
  assumes "flags_ok db" and "set_flag now key en sc pc ts de db = (Inr f, db')"
  shows "sets_flag key en sc pc ts f" "table_ok (fd_flags db')"
    and "repo_get j (fd_flags db') = (if j = ent_id f then Some f else repo_get j (fd_flags db))"
    and "repo_get j (fd_flags db) = Some g \<Longrightarrow> ff_key g = key \<Longrightarrow> j = ent_id f"
proof -
  have ok: "table_ok (fd_flags db)" using assms(1) by (simp add: flags_ok_def)
  have "sets_flag key en sc pc ts f \<and> table_ok (fd_flags db') \<and> (\<forall>j. repo_get j (fd_flags db') = (if j = ent_id f then Some f else repo_get j (fd_flags db)))
    \<and> (\<forall>j g. repo_get j (fd_flags db) = Some g \<longrightarrow> ff_key g = key \<longrightarrow> j = ent_id f)"
  proof (cases "flag_by_key key db")
    case None
    let ?r = "configure_flag en sc pc ts de \<lparr>ent_id = 0, created_at = now, deleted_at = None, ff_key = key, ff_description = None,
        ff_enabled = False, ff_scope = FS_GLOBAL, ff_rollout_percentage = 0, ff_targets = []\<rparr>"
    obtain t where r: "repo_add ?r (fd_flags db) = (f, t)" and t: "fd_flags db' = t"
      and no: "\<not> list_ex (\<lambda>f. ff_key f = key) (all_rows (fd_flags db))"
      using assms(2) None by (auto simp: set_flag_def Let_def split: if_splits prod.splits)
    have nokey: "ff_key g \<noteq> key" if "repo_get j (fd_flags db) = Some g" for j g
      using no rows_get [OF ok that] by (auto simp: list_ex_iff)
    have "sets_flag key en sc pc ts f" by (simp add: repo_add_new(1) [OF r] sets_flag_def configure_flag_def)
    with nokey repo_add_new(4) [OF r] repo_add_ok [OF ok r] show ?thesis unfolding t by blast
  next
    case (Some g)
    with find_by_Some [OF ok] have g: "repo_get (ent_id g) (fd_flags db) = Some g" "ff_key g = key" "deleted_at g = None"
      by (auto simp: flag_by_key_def)
    have f: "f = configure_flag en sc pc ts de g" and t: "fd_flags db' = repo_put f (fd_flags db)"
      using assms(2) Some by (auto simp: set_flag_def Let_def)
    have i: "ent_id f = ent_id g" by (simp add: f configure_flag_def)
    have "j = ent_id f" if "repo_get j (fd_flags db) = Some g'" "ff_key g' = key" for j g'
      unfolding i by (rule flags_okD [OF assms(1) that(1) g(1)]) (simp add: that(2) g(2))
    moreover have "sets_flag key en sc pc ts f" using g by (simp add: f sets_flag_def configure_flag_def)
    ultimately show ?thesis using ok unfolding t by simp
  qed
  then show "sets_flag key en sc pc ts f" "table_ok (fd_flags db')"
    and "repo_get j (fd_flags db') = (if j = ent_id f then Some f else repo_get j (fd_flags db))"
    and "repo_get j (fd_flags db) = Some g \<Longrightarrow> ff_key g = key \<Longrightarrow> j = ent_id f" by blast+
qed

lemma set_flag_ok:
  assumes "flags_ok db" and "set_flag now key en sc pc ts de db = (Inr f, db')"
  shows "flags_ok db'"
proof -
  note rows = set_flag_rows [OF assms]
  have k: "ff_key f = key" using rows(1) by (simp add: sets_flag_def)
  have "i = j" if "repo_get i (fd_flags db') = Some g" "repo_get j (fd_flags db') = Some g'" "ff_key g = ff_key g'" for i j g g'
  proof (cases "i = ent_id f \<or> j = ent_id f")
    case True
    then show ?thesis using that k rows(4) unfolding rows(3) by (auto split: if_splits)
  next
    case False
    then have "repo_get i (fd_flags db) = Some g" "repo_get j (fd_flags db) = Some g'" using that(1,2) by (simp_all add: rows(3))
    then show ?thesis using flags_okD [OF assms(1) _ _ that(3)] by blast
  qed
  with rows(2) show ?thesis unfolding flags_ok_def by blast
qed

lemma flag_after_set:
  assumes "flags_ok db" and "set_flag now key en sc pc ts de db = (Inr f, db')"
  shows "flag_by_key key db' = Some f \<and> sets_flag key en sc pc ts f"
proof -
  note rows = set_flag_rows [OF assms]
  have f: "repo_get (ent_id f) (fd_flags db') = Some f" "deleted_at f = None" "ff_key f = key"
    using rows(1,3) by (simp_all add: sets_flag_def)
  obtain g where g: "find_by (\<lambda>f. ff_key f = key) (fd_flags db') = Some g"
    using find_by_None [OF rows(2) _ f(1,2), of "\<lambda>f. ff_key f = key"] f(3)
    by (cases "find_by (\<lambda>f. ff_key f = key) (fd_flags db')") auto
  with find_by_Some [OF rows(2) g] have gi: "repo_get (ent_id g) (fd_flags db') = Some g" and gk: "ff_key g = key" by auto
  have "ent_id g = ent_id f" by (rule flags_okD [OF set_flag_ok [OF assms] gi f(1)]) (simp add: gk f(3))
  then have "Some g = Some f" by (simp only: gi [symmetric] f(1) [symmetric])
  then have "g = f" by simp
  with g rows(1) show ?thesis by (simp add: flag_by_key_def)
qed

text \<open>
  A flag that was set does what it says: nobody has a disabled one; a user flag with a list of
  targets is on for exactly these users; without one it is on for the users whose bucket lies below
  the percentage, so that nobody has it at 0, everybody at 100, and raising the percentage only
  adds users.
\<close>

theorem flag_rollout:
  assumes "flags_ok db" and "set_flag now key en FS_USER pc ts de db = (Inr f, db1)" and "set_flag now key en FS_USER pc' ts de db = (Inr f', db2)"
  shows "(is_enabled h key g (Some u) db1 \<longleftrightarrow> en \<and> (case ts of
            Some (x # xs) \<Rightarrow> u \<in> set (x # xs) | _ \<Rightarrow> int (h (key @ '':'' @ u) mod 100) < pc))
    \<and> (pc \<le> pc' \<longrightarrow> is_enabled h key g (Some u) db1 \<longrightarrow> is_enabled h key g (Some u) db2)"
proof -
  have b: "int (h (key @ '':'' @ u) mod 100) < 100" "0 \<le> int (h (key @ '':'' @ u) mod 100)" by simp_all
  have ev: "is_enabled h key g (Some u) db' \<longleftrightarrow> en \<and> (case ts of
            Some (x # xs) \<Rightarrow> u \<in> set (x # xs) | _ \<Rightarrow> int (h (key @ '':'' @ u) mod 100) < p)"
    if s: "set_flag now key en FS_USER p ts de db = (Inr x, db')" for p x db'
  proof -
    from flag_after_set [OF assms(1) s] have "flag_by_key key db' = Some x" "ff_enabled x = en" "ff_scope x = FS_USER"
      "ff_rollout_percentage x = max 0 (min p 100)" "ff_targets x = (case ts of None \<Rightarrow> [] | Some xs \<Rightarrow> xs)"
      by (simp_all add: sets_flag_def)
    with b show ?thesis by (auto simp: is_enabled_def in_rollout_def split: option.splits list.splits)
  qed
  show ?thesis unfolding ev [OF assms(2)] ev [OF assms(3)] by (auto split: option.splits list.splits)
qed

text \<open>A global flag is rolled out to the one subject \<^verbatim>\<open>global\<close>: all users have it or none.\<close>

theorem global_rollout_all_or_none:
  assumes "flag_by_key key db = Some f" and "ff_scope f = FS_GLOBAL"
  shows "is_enabled h key g u db = is_enabled h key g' u' db"
  using assms by (simp add: is_enabled_def)

text \<open>The route passes no organization, so a flag with that scope is off for everybody there.\<close>

theorem organization_flag_off_in_route:
  assumes "flag_by_key key db = Some f" and "ff_scope f = FS_ORGANIZATION"
  shows "\<not> evaluate_flag_route h key u db"
  using assms by (simp add: evaluate_flag_route_def is_enabled_def)

section \<open>The request limiter\<close>

definition WINDOW_SECONDS :: int where "WINDOW_SECONDS = 60"
definition MAX_REQUESTS :: int where "MAX_REQUESTS = 300"
definition API_KEY_MAX_REQUESTS :: int where "API_KEY_MAX_REQUESTS = 120"
definition COOLDOWN_SECONDS :: int where "COOLDOWN_SECONDS = 30"
definition KEY_PREFIX :: string where "KEY_PREFIX = ''ayf_''"

record rate_limiter =
  rl_client :: bool            \<comment> \<open>a Redis client has been made\<close>
  rl_cooldown_until :: time

record http_request =
  hr_header :: "string \<Rightarrow> string option"   \<comment> \<open>by name in lower case\<close>
  hr_host :: "string option"

datatype redis_call = R_Connect | R_Incr string | R_Expire string int

text \<open>What Redis does to the calls of one request: \<open>None\<close> is an exception.\<close>

record redis_answers =
  ra_connect :: bool
  ra_incr :: "string \<Rightarrow> int option"
  ra_expire :: bool

datatype verdict = Passed | Refused int | Counted int int   \<comment> \<open>budget and requests that remain\<close>

definition limiter_init :: rate_limiter where "limiter_init = \<lparr>rl_client = False, rl_cooldown_until = 0\<rparr>"

definition degrade :: "time \<Rightarrow> rate_limiter \<Rightarrow> rate_limiter" where
  "degrade now l = l\<lparr>rl_cooldown_until := now + seconds COOLDOWN_SECONDS, rl_client := False\<rparr>"

definition get_client :: "bool \<Rightarrow> redis_answers \<Rightarrow> time \<Rightarrow> rate_limiter \<Rightarrow> bool \<times> rate_limiter \<times> redis_call list" where
  "get_client enabled ra now l =
     (if \<not> enabled then (False, l, [])
      else if now < rl_cooldown_until l then (False, l, [])
      else if rl_client l then (True, l, [])
      else if ra_connect ra then (True, l\<lparr>rl_client := True\<rparr>, [R_Connect])
      else (False, degrade now l, [R_Connect]))"

definition partition_space :: "string \<Rightarrow> string \<times> string" where
  \<comment> \<open>\<open>s.partition(" ")\<close>, without the separator\<close>
  "partition_space s = (takeWhile (\<lambda>c. c \<noteq> CHR '' '') s, drop 1 (dropWhile (\<lambda>c. c \<noteq> CHR '' '') s))"

definition presented_key :: "http_request \<Rightarrow> string option" where
  "presented_key r =
     (case hr_header r ''x-api-key'' of
        Some e \<Rightarrow> if e \<noteq> [] \<and> startswith e KEY_PREFIX then Some (strip e) else
          (let (scheme, token) = partition_space (case hr_header r ''authorization'' of None \<Rightarrow> [] | Some h \<Rightarrow> h)
           in if lower scheme = ''bearer'' \<and> startswith (strip token) KEY_PREFIX then Some (strip token) else None)
      | None \<Rightarrow>
          (let (scheme, token) = partition_space (case hr_header r ''authorization'' of None \<Rightarrow> [] | Some h \<Rightarrow> h)
           in if lower scheme = ''bearer'' \<and> startswith (strip token) KEY_PREFIX then Some (strip token) else None))"

definition bucket_of :: "(string \<Rightarrow> string) \<Rightarrow> http_request \<Rightarrow> string \<times> int" where
  "bucket_of sha256_hex r =
     (case presented_key r of
        Some (c # cs) \<Rightarrow> (''ratelimit:key:'' @ take 32 (sha256_hex (c # cs)), API_KEY_MAX_REQUESTS)
      | _ \<Rightarrow> (''ratelimit:ip:'' @ (case hr_host r of None \<Rightarrow> ''anonymous'' | Some ip \<Rightarrow> ip), MAX_REQUESTS))"

definition dispatch :: "(string \<Rightarrow> string) \<Rightarrow> bool \<Rightarrow> redis_answers \<Rightarrow> time \<Rightarrow> http_request \<Rightarrow> rate_limiter
    \<Rightarrow> verdict \<times> rate_limiter \<times> redis_call list" where
  "dispatch sha256_hex enabled ra now r l =
     (case get_client enabled ra now l of
        (False, l', calls) \<Rightarrow> (Passed, l', calls)
      | (True, l', calls) \<Rightarrow>
          let (key, budget) = bucket_of sha256_hex r in
          case ra_incr ra key of
            None \<Rightarrow> (Passed, degrade now l', calls @ [R_Incr key])
          | Some n \<Rightarrow>
              let calls' = calls @ [R_Incr key] @ (if n = 1 then [R_Expire key WINDOW_SECONDS] else []) in
              if n = 1 \<and> \<not> ra_expire ra then (Passed, degrade now l', calls')
              else if n > budget then (Refused budget, l', calls')
              else (Counted budget (max (budget - n) 0), l', calls'))"

definition counted_call :: "redis_call list \<Rightarrow> bool" where
  "counted_call calls \<longleftrightarrow> list_ex (\<lambda>c. case c of R_Incr _ \<Rightarrow> True | _ \<Rightarrow> False) calls"

fun serve :: "(string \<Rightarrow> string) \<Rightarrow> bool \<Rightarrow> (redis_answers \<times> time \<times> http_request) list \<Rightarrow> rate_limiter \<Rightarrow> rate_limiter" where
  "serve h enabled [] l = l"
| "serve h enabled ((ra, now, r) # rs) l = serve h enabled rs (fst (snd (dispatch h enabled ra now r l)))"

lemma bucket_budget: "snd (bucket_of h r) = (if presented_key r \<in> {None, Some []} then 300 else 120)"
  by (auto simp: bucket_of_def MAX_REQUESTS_def API_KEY_MAX_REQUESTS_def split: option.splits list.splits)

text \<open>
  C40: a request is refused exactly if the limiter is on, is not cooling down, reaches Redis, and the
  counter of its bucket, that of its API key if it shows one and of its address otherwise, is above
  the budget of 120 or 300; whatever Redis fails at, the request passes.
\<close>

theorem refused_iff_over_budget:
  "fst (dispatch h enabled ra now r l) = Refused b \<longleftrightarrow>
     enabled \<and> rl_cooldown_until l \<le> now \<and> (rl_client l \<or> ra_connect ra)
     \<and> b = (if presented_key r \<in> {None, Some []} then 300 else 120)
     \<and> (\<exists>n. ra_incr ra (fst (bucket_of h r)) = Some n \<and> n > b)"
proof -
  obtain key budget where bu: "bucket_of h r = (key, budget)" by force
  have "budget = (if presented_key r \<in> {None, Some []} then 300 else 120)" using bucket_budget [of h r] bu by simp
  moreover from this have "1 \<le> budget" by (simp split: if_splits)
  ultimately show ?thesis
    by (auto simp: dispatch_def get_client_def bu Let_def split: option.splits if_splits)
qed

lemma dispatch_cooldown:
  "rl_cooldown_until (fst (snd (dispatch h enabled ra now r l))) \<in> {rl_cooldown_until l, now + seconds 30}"
  by (auto simp: dispatch_def get_client_def Let_def degrade_def COOLDOWN_SECONDS_def split: option.splits prod.splits if_splits)

lemma serve_cooldown:
  "list_all (\<lambda>(_, s, _). s \<le> t) rs \<Longrightarrow> rl_cooldown_until l \<le> t + seconds 30 \<Longrightarrow> rl_cooldown_until (serve h enabled rs l) \<le> t + seconds 30"
proof (induction rs arbitrary: l)
  case (Cons x rs)
  obtain ra s r where x: "x = (ra, s, r)" by (cases x) auto
  from dispatch_cooldown [of h enabled ra s r l] Cons.prems x
  have "rl_cooldown_until (fst (snd (dispatch h enabled ra s r l))) \<le> t + seconds 30" by auto
  with Cons x show ?case by simp
qed simp

text \<open>
  The limiter never stays off: whatever failures it has seen, a request that comes thirty
  seconds after the last of them calls Redis again.
\<close>

theorem limiter_recovers:
  assumes "list_all (\<lambda>(_, s, _). s \<le> t) rs" and "0 \<le> t" and "t + seconds 30 \<le> now"
  shows "snd (snd (dispatch h True ra now r (serve h True rs limiter_init))) \<noteq> []"
proof -
  have "rl_cooldown_until (serve h True rs limiter_init) \<le> t + seconds 30"
    by (rule serve_cooldown [OF assms(1)]) (use assms(2) in \<open>simp add: limiter_init_def\<close>)
  with assms(3) have "\<not> now < rl_cooldown_until (serve h True rs limiter_init)" by simp
  then show ?thesis
    by (auto simp: dispatch_def get_client_def Let_def split: option.splits prod.splits)
qed

text \<open>
  The expiry of a counter is only ever set by the request that finds it at 1: if that call fails,
  no later request sets it, and the counter grows for good.
\<close>

theorem expiry_set_once:
  assumes "ra_incr ra (fst (bucket_of h r)) = Some n" and "n \<noteq> 1"
  shows "R_Expire k w \<notin> set (snd (snd (dispatch h enabled ra now r l)))"
  using assms by (auto simp: dispatch_def get_client_def Let_def split: option.splits prod.splits if_splits)

section \<open>Witnesses\<close>

definition no_flags :: flag_db where "no_flags = \<lparr>fd_flags = [], fd_cache = []\<rparr>"

theorem flag_rollout_witness:
  "is_enabled (\<lambda>_. 142) ''k'' None (Some ''u'') (snd (set_flag 0 ''k'' True FS_USER 43 None None no_flags))
    \<and> \<not> is_enabled (\<lambda>_. 142) ''k'' None (Some ''u'') (snd (set_flag 0 ''k'' True FS_USER 42 None None no_flags))"
proof -
  have t: "flags_ok no_flags" by (simp add: flags_ok_def no_flags_def repo_get_def)
  have s: "\<exists>f db. set_flag 0 ''k'' True FS_USER p None None no_flags = (Inr f, db)" for p
    by (simp add: set_flag_def flag_by_key_def find_by_def base_query_def no_flags_def all_rows_def split: prod.split)
  obtain f db f' db' where a: "set_flag 0 ''k'' True FS_USER 43 None None no_flags = (Inr f, db)"
    and b: "set_flag 0 ''k'' True FS_USER 42 None None no_flags = (Inr f', db')" using s by metis
  have "is_enabled (\<lambda>_. 142) ''k'' None (Some ''u'') db"
    using flag_rollout [OF t a a, of "\<lambda>_. 142" None "''u''"] by simp
  moreover have "\<not> is_enabled (\<lambda>_. 142) ''k'' None (Some ''u'') db'"
    using flag_rollout [OF t b b, of "\<lambda>_. 142" None "''u''"] by simp
  ultimately show ?thesis by (simp add: a b)
qed

definition failing :: redis_answers where "failing = \<lparr>ra_connect = True, ra_incr = (\<lambda>_. None), ra_expire = True\<rparr>"
definition plain_request :: http_request where "plain_request = \<lparr>hr_header = (\<lambda>_. None), hr_host = None\<rparr>"

theorem limiter_recovers_witness:
  "snd (snd (dispatch (\<lambda>s. s) True failing (seconds 40) plain_request
     (serve (\<lambda>s. s) True [(failing, seconds 10, plain_request)] limiter_init))) \<noteq> []"
  by (rule limiter_recovers [of "seconds 10"]) simp_all

end
