(* ===== verification/Metrics.thy ===== *)
theory Metrics
  imports Py_Value
begin

text \<open>
  The metrics registry (\<^verbatim>\<open>app/observability/metrics.py\<close>): counters, gauges and histograms with a cap
  on the number of their series, and the text a scrape returns. Label values are the strings the
  code converts them to; a sample is a rational number, so infinities other than the last bucket
  bound and NaN are left out, and the writer of a float that is not whole is a parameter. The locks
  make each operation atomic. Every error below is a \<^verbatim>\<open>ValueError\<close>.
\<close>

section \<open>Names\<close>

datatype metric_error =
    InvalidName string | InvalidLabel string | ReservedLabel string | DuplicateLabels string
  | LabelMismatch string | CannotDecrease string | LeReserved | NoBuckets string
  | NotAscending string | AlreadyRegistered string

definition MAX_SERIES_PER_METRIC :: nat where "MAX_SERIES_PER_METRIC = 2000"

definition is_alpha :: "char \<Rightarrow> bool" where
  \<comment> \<open>an ASCII letter\<close>
  "is_alpha c \<longleftrightarrow> (let n = (of_char c :: nat) in (65 \<le> n \<and> n \<le> 90) \<or> (97 \<le> n \<and> n \<le> 122))"

definition newline :: char where "newline = CHR 0x0A"

definition before_dollar :: "string \<Rightarrow> string" where
  \<comment> \<open>the part a pattern has to match when it ends in a dollar sign: it may stand before a final newline\<close>
  "before_dollar s = (if s \<noteq> [] \<and> List.last s = newline then butlast s else s)"

definition matches :: "(char \<Rightarrow> bool) \<Rightarrow> (char \<Rightarrow> bool) \<Rightarrow> string \<Rightarrow> bool" where
  "matches first rest s = (case before_dollar s of [] \<Rightarrow> False | c # cs \<Rightarrow> first c \<and> list_all rest cs)"

definition name_ok :: "string \<Rightarrow> bool" where
  "name_ok = matches (\<lambda>c. is_alpha c \<or> c = CHR ''_'' \<or> c = CHR '':'')
                     (\<lambda>c. is_alpha c \<or> is_digit c \<or> c = CHR ''_'' \<or> c = CHR '':'')"

definition label_ok :: "string \<Rightarrow> bool" where
  "label_ok = matches (\<lambda>c. is_alpha c \<or> c = CHR ''_'') (\<lambda>c. is_alpha c \<or> is_digit c \<or> c = CHR ''_'')"

section \<open>Series\<close>

type_synonym label_key = "string list"

record 'v series =
  sr_name :: string
  sr_documentation :: string
  sr_labelnames :: "string list"
  sr_overflowed :: bool
  sr_values :: "(label_key, 'v) dict"

fun labels_error :: "string list \<Rightarrow> metric_error option" where
  "labels_error [] = None"
| "labels_error (l # ls) =
     (if \<not> label_ok l then Some (InvalidLabel l)
      else if startswith l ''__'' then Some (ReservedLabel l)
      else labels_error ls)"

definition metric_init :: "string \<Rightarrow> string \<Rightarrow> string list \<Rightarrow> metric_error + 'v series" where
  "metric_init name documentation labelnames =
     (if \<not> name_ok name then Inl (InvalidName name)
      else case labels_error labelnames of
        Some e \<Rightarrow> Inl e
      | None \<Rightarrow>
          if \<not> distinct labelnames then Inl (DuplicateLabels name)
          else Inr \<lparr>sr_name = name, sr_documentation = documentation, sr_labelnames = labelnames,
                    sr_overflowed = False, sr_values = []\<rparr>)"

definition series_key :: "(string, string) dict \<Rightarrow> 'v series \<Rightarrow> metric_error + label_key" where
  "series_key labels s =
     (if set (keys labels) \<noteq> set (sr_labelnames s) then Inl (LabelMismatch (sr_name s))
      else Inr (map (\<lambda>n. the (dict_get labels n)) (sr_labelnames s)))"

definition admit :: "'v series \<Rightarrow> bool \<times> 'v series" where
  \<comment> \<open>the error is logged when the flag is first raised\<close>
  "admit s = (if length (sr_values s) < MAX_SERIES_PER_METRIC then (True, s) else (False, s\<lparr>sr_overflowed := True\<rparr>))"

definition put_value :: "label_key \<Rightarrow> 'v \<Rightarrow> 'v series \<Rightarrow> 'v series" where
  "put_value k v s = s\<lparr>sr_values := dict_set k v (sr_values s)\<rparr>"

section \<open>Counters and gauges\<close>

definition counter_init :: "string \<Rightarrow> string \<Rightarrow> string list \<Rightarrow> metric_error + rat series" where
  "counter_init name documentation labelnames =
     (case metric_init name documentation labelnames of
        Inl e \<Rightarrow> Inl e
      | Inr s \<Rightarrow> Inr (if labelnames = [] then s\<lparr>sr_values := [([], 0)]\<rparr> else s))"

definition add_to :: "label_key \<Rightarrow> rat \<Rightarrow> rat series \<Rightarrow> rat series" where
  "add_to k amount s =
     (case dict_get (sr_values s) k of
        Some v \<Rightarrow> put_value k (v + amount) s
      | None \<Rightarrow> (let (ok, s') = admit s in if ok then put_value k amount s' else s'))"

definition counter_inc :: "rat \<Rightarrow> (string, string) dict \<Rightarrow> rat series \<Rightarrow> (metric_error + unit) \<times> rat series" where
  "counter_inc amount labels s =
     (if amount < 0 then (Inl (CannotDecrease (sr_name s)), s)
      else case series_key labels s of
        Inl e \<Rightarrow> (Inl e, s)
      | Inr k \<Rightarrow> (Inr (), add_to k amount s))"

definition series_value :: "(string, string) dict \<Rightarrow> rat series \<Rightarrow> metric_error + rat" where
  "series_value labels s =
     (case series_key labels s of
        Inl e \<Rightarrow> Inl e
      | Inr k \<Rightarrow> Inr (case dict_get (sr_values s) k of None \<Rightarrow> 0 | Some v \<Rightarrow> v))"

definition gauge_set :: "rat \<Rightarrow> (string, string) dict \<Rightarrow> rat series \<Rightarrow> (metric_error + unit) \<times> rat series" where
  "gauge_set v labels s =
     (case series_key labels s of
        Inl e \<Rightarrow> (Inl e, s)
      | Inr k \<Rightarrow>
          if dict_get (sr_values s) k \<noteq> None then (Inr (), put_value k v s)
          else (let (ok, s') = admit s in (Inr (), if ok then put_value k v s' else s')))"

definition gauge_inc :: "rat \<Rightarrow> (string, string) dict \<Rightarrow> rat series \<Rightarrow> (metric_error + unit) \<times> rat series" where
  "gauge_inc amount labels s =
     (case series_key labels s of
        Inl e \<Rightarrow> (Inl e, s)
      | Inr k \<Rightarrow> (Inr (), add_to k amount s))"

definition gauge_dec :: "rat \<Rightarrow> (string, string) dict \<Rightarrow> rat series \<Rightarrow> (metric_error + unit) \<times> rat series" where
  "gauge_dec amount labels s = gauge_inc (- amount) labels s"

section \<open>Histograms\<close>

datatype bound = Fin rat | PlusInf

fun below :: "rat \<Rightarrow> bound \<Rightarrow> bool" where
  "below v (Fin b) = (v \<le> b)"
| "below v PlusInf = True"

fun finite_bound :: "bound \<Rightarrow> rat list" where
  "finite_bound (Fin b) = [b]"
| "finite_bound PlusInf = []"

record bucketed =
  bk_counts :: "nat list"
  bk_sum :: rat
  bk_count :: nat

record histogram =
  hg_series :: "bucketed series"
  hg_buckets :: "bound list"

definition for_buckets :: "bound list \<Rightarrow> bucketed" where
  "for_buckets bs = \<lparr>bk_counts = replicate (length bs) 0, bk_sum = 0, bk_count = 0\<rparr>"

definition histogram_init :: "string \<Rightarrow> string \<Rightarrow> string list \<Rightarrow> bound list \<Rightarrow> metric_error + histogram" where
  "histogram_init name documentation labelnames buckets =
     (case metric_init name documentation labelnames of
        Inl e \<Rightarrow> Inl e
      | Inr s \<Rightarrow>
          if ''le'' \<in> set labelnames then Inl LeReserved
          else if buckets = [] then Inl (NoBuckets name)
          else
            let finite = concat (map finite_bound buckets) in
            if finite \<noteq> sort finite then Inl (NotAscending name)
            else
              let bs = map Fin finite @ [PlusInf]
              in Inr \<lparr>hg_series = (if labelnames = [] then s\<lparr>sr_values := [([], for_buckets bs)]\<rparr> else s), hg_buckets = bs\<rparr>)"

definition observed :: "bound list \<Rightarrow> rat \<Rightarrow> bucketed \<Rightarrow> bucketed" where
  "observed bs v b = b\<lparr>bk_sum := bk_sum b + v, bk_count := bk_count b + 1,
     bk_counts := map2 (\<lambda>bd n. if below v bd then n + 1 else n) bs (bk_counts b)\<rparr>"

definition observe :: "rat \<Rightarrow> (string, string) dict \<Rightarrow> histogram \<Rightarrow> (metric_error + unit) \<times> histogram" where
  "observe v labels h =
     (case series_key labels (hg_series h) of
        Inl e \<Rightarrow> (Inl e, h)
      | Inr k \<Rightarrow>
          case dict_get (sr_values (hg_series h)) k of
            Some b \<Rightarrow> (Inr (), h\<lparr>hg_series := put_value k (observed (hg_buckets h) v b) (hg_series h)\<rparr>)
          | None \<Rightarrow>
              let (ok, s') = admit (hg_series h)
              in (Inr (), h\<lparr>hg_series := (if ok then put_value k (observed (hg_buckets h) v (for_buckets (hg_buckets h))) s' else s')\<rparr>))"

definition histogram_count :: "(string, string) dict \<Rightarrow> histogram \<Rightarrow> metric_error + nat" where
  "histogram_count labels h =
     (case series_key labels (hg_series h) of
        Inl e \<Rightarrow> Inl e
      | Inr k \<Rightarrow> Inr (case dict_get (sr_values (hg_series h)) k of None \<Rightarrow> 0 | Some b \<Rightarrow> bk_count b))"

definition histogram_sum :: "(string, string) dict \<Rightarrow> histogram \<Rightarrow> metric_error + rat" where
  "histogram_sum labels h =
     (case series_key labels (hg_series h) of
        Inl e \<Rightarrow> Inl e
      | Inr k \<Rightarrow> Inr (case dict_get (sr_values (hg_series h)) k of None \<Rightarrow> 0 | Some b \<Rightarrow> bk_sum b))"

section \<open>The exposition format\<close>

definition format_float :: "(rat \<Rightarrow> string) \<Rightarrow> rat \<Rightarrow> string" where
  "format_float repr v = (if v = of_int \<lfloor>v\<rfloor> \<and> \<bar>v\<bar> < 1000000000000000 then int_digits \<lfloor>v\<rfloor> else repr v)"

fun format_bound :: "(rat \<Rightarrow> string) \<Rightarrow> bound \<Rightarrow> string" where
  "format_bound repr (Fin b) = format_float repr b"
| "format_bound repr PlusInf = ''+Inf''"

definition backslash :: char where "backslash = CHR 0x5C"
definition quote :: char where "quote = CHR 0x22"

definition replace_char :: "char \<Rightarrow> string \<Rightarrow> string \<Rightarrow> string" where
  "replace_char c w s = concat (map (\<lambda>x. if x = c then w else [x]) s)"

definition escape_label_value :: "string \<Rightarrow> string" where
  "escape_label_value v =
     replace_char newline [backslash, CHR ''n''] (replace_char quote [backslash, quote] (replace_char backslash [backslash, backslash] v))"

definition label_part :: "string \<Rightarrow> string \<Rightarrow> string" where
  "label_part n v = n @ ''='' @ [quote] @ escape_label_value v @ [quote]"

definition render_labels :: "string list \<Rightarrow> label_key \<Rightarrow> string \<Rightarrow> string" where
  "render_labels names vs extra =
     (let parts = map2 label_part names vs @ (if extra \<noteq> [] then [extra] else [])
      in if parts \<noteq> [] then ''{'' @ join '','' parts @ ''}'' else [])"

record sample =
  sm_name :: string
  sm_labels :: string
  sm_value :: rat

definition render_sample :: "(rat \<Rightarrow> string) \<Rightarrow> sample \<Rightarrow> string" where
  "render_sample repr s = sm_name s @ sm_labels s @ '' '' @ format_float repr (sm_value s)"

definition sorted_items :: "(label_key, 'v) dict \<Rightarrow> (label_key \<times> 'v) list" where
  "sorted_items d = sort_key fst d"

definition collect_series :: "rat series \<Rightarrow> sample list" where
  "collect_series s = map (\<lambda>(k, v). \<lparr>sm_name = sr_name s, sm_labels = render_labels (sr_labelnames s) k [], sm_value = v\<rparr>)
     (sorted_items (sr_values s))"

definition collect_histogram :: "(rat \<Rightarrow> string) \<Rightarrow> histogram \<Rightarrow> sample list" where
  "collect_histogram repr h = concat (map (\<lambda>(k, b).
     map2 (\<lambda>bd n. \<lparr>sm_name = sr_name (hg_series h) @ ''_bucket'',
         sm_labels = render_labels (sr_labelnames (hg_series h)) k (''le='' @ [quote] @ format_bound repr bd @ [quote]),
         sm_value = of_nat n\<rparr>) (hg_buckets h) (bk_counts b)
     @ [\<lparr>sm_name = sr_name (hg_series h) @ ''_sum'', sm_labels = render_labels (sr_labelnames (hg_series h)) k [], sm_value = bk_sum b\<rparr>,
        \<lparr>sm_name = sr_name (hg_series h) @ ''_count'', sm_labels = render_labels (sr_labelnames (hg_series h)) k [], sm_value = of_nat (bk_count b)\<rparr>])
     (sorted_items (sr_values (hg_series h))))"

section \<open>The registry\<close>

datatype metric = Counter "rat series" | Gauge "rat series" | Histogram histogram

fun metric_name :: "metric \<Rightarrow> string" where
  "metric_name (Counter s) = sr_name s"
| "metric_name (Gauge s) = sr_name s"
| "metric_name (Histogram h) = sr_name (hg_series h)"

fun metric_labelnames :: "metric \<Rightarrow> string list" where
  "metric_labelnames (Counter s) = sr_labelnames s"
| "metric_labelnames (Gauge s) = sr_labelnames s"
| "metric_labelnames (Histogram h) = sr_labelnames (hg_series h)"

fun metric_documentation :: "metric \<Rightarrow> string" where
  "metric_documentation (Counter s) = sr_documentation s"
| "metric_documentation (Gauge s) = sr_documentation s"
| "metric_documentation (Histogram h) = sr_documentation (hg_series h)"

fun metric_type :: "metric \<Rightarrow> string" where
  "metric_type (Counter _) = ''counter''"
| "metric_type (Gauge _) = ''gauge''"
| "metric_type (Histogram _) = ''histogram''"

fun metric_collect :: "(rat \<Rightarrow> string) \<Rightarrow> metric \<Rightarrow> sample list" where
  "metric_collect repr (Counter s) = collect_series s"
| "metric_collect repr (Gauge s) = collect_series s"
| "metric_collect repr (Histogram h) = collect_histogram repr h"

definition metric_render :: "(rat \<Rightarrow> string) \<Rightarrow> metric \<Rightarrow> string" where
  "metric_render repr m = join [newline]
     ([''# HELP '' @ metric_name m @ '' '' @ metric_documentation m, ''# TYPE '' @ metric_name m @ '' '' @ metric_type m]
      @ map (render_sample repr) (metric_collect repr m))"

type_synonym registry = "(string, metric) dict"

definition register_metric :: "metric \<Rightarrow> registry \<Rightarrow> (metric_error + metric) \<times> registry" where
  "register_metric m reg =
     (case dict_get reg (metric_name m) of
        None \<Rightarrow> (Inr m, dict_set (metric_name m) m reg)
      | Some existing \<Rightarrow>
          if metric_type existing \<noteq> metric_type m \<or> metric_labelnames existing \<noteq> metric_labelnames m
          then (Inl (AlreadyRegistered (metric_name m)), reg)
          else (Inr existing, reg))"

definition unregister_metric :: "string \<Rightarrow> registry \<Rightarrow> registry" where
  "unregister_metric name reg = dict_pop name reg"

definition clear_metrics :: "registry \<Rightarrow> registry" where
  "clear_metrics reg = []"

definition metric_names :: "registry \<Rightarrow> string list" where
  "metric_names reg = sort (keys reg)"

definition render_metrics :: "(rat \<Rightarrow> string) \<Rightarrow> registry \<Rightarrow> string" where
  "render_metrics repr reg =
     (let blocks = map (\<lambda>n. metric_render repr (the (dict_get reg n))) (metric_names reg)
      in if blocks \<noteq> [] then join [newline] blocks @ [newline] else [])"

section \<open>Capped tables of series\<close>

text \<open>
  Every instrument changes its table in the same way: a known series is updated, a new one starts
  from an initial value if the cap admits it, and is dropped otherwise.
\<close>

definition bump :: "'v \<Rightarrow> ('v \<Rightarrow> 'v) \<Rightarrow> label_key \<Rightarrow> 'v series \<Rightarrow> 'v series" where
  "bump init g k s =
     (case dict_get (sr_values s) k of
        Some v \<Rightarrow> put_value k (g v) s
      | None \<Rightarrow> (let (ok, s') = admit s in if ok then put_value k (g init) s' else s'))"

definition replay :: "'v \<Rightarrow> label_key \<Rightarrow> (label_key \<times> ('v \<Rightarrow> 'v)) list \<Rightarrow> 'v" where
  "replay init k ops = fold (\<lambda>(k', g) v. if k' = k then g v else v) ops init"

definition capped :: "'v series \<Rightarrow> bool" where
  "capped s \<longleftrightarrow> length (sr_values s) \<le> MAX_SERIES_PER_METRIC"

lemma put_value_fields [simp]:
  "sr_name (put_value k v s) = sr_name s" "sr_labelnames (put_value k v s) = sr_labelnames s"
  "sr_values (put_value k v s) = dict_set k v (sr_values s)" "sr_overflowed (put_value k v s) = sr_overflowed s"
  by (simp_all add: put_value_def)

lemma length_dict_set: "length (dict_set k v d) = (if dict_get d k = None then Suc (length d) else length d)"
  by (induction d) auto

lemma admit_True: "length (sr_values s) < MAX_SERIES_PER_METRIC \<Longrightarrow> admit s = (True, s)"
  by (simp add: admit_def)

lemma admit_False: "\<not> length (sr_values s) < MAX_SERIES_PER_METRIC \<Longrightarrow> admit s = (False, s\<lparr>sr_overflowed := True\<rparr>)"
  by (simp add: admit_def)

lemma bump_known: "dict_get (sr_values s) k = Some v \<Longrightarrow> bump i g k s = put_value k (g v) s"
  by (simp add: bump_def)

lemma bump_new: "dict_get (sr_values s) k = None \<Longrightarrow> length (sr_values s) < MAX_SERIES_PER_METRIC \<Longrightarrow> bump i g k s = put_value k (g i) s"
  by (simp add: bump_def admit_def)

lemma bump_full: "dict_get (sr_values s) k = None \<Longrightarrow> \<not> length (sr_values s) < MAX_SERIES_PER_METRIC \<Longrightarrow>
    bump i g k s = s\<lparr>sr_overflowed := True\<rparr>"
  by (simp add: bump_def admit_def)

lemma bump_cases:
  obtains v where "dict_get (sr_values s) k = Some v" "bump i g k s = put_value k (g v) s"
  | "dict_get (sr_values s) k = None" "length (sr_values s) < MAX_SERIES_PER_METRIC" "bump i g k s = put_value k (g i) s"
  | "dict_get (sr_values s) k = None" "\<not> length (sr_values s) < MAX_SERIES_PER_METRIC" "bump i g k s = s\<lparr>sr_overflowed := True\<rparr>"
  using bump_known bump_new bump_full by (metis option.exhaust)

lemma bump_fields [simp]: "sr_name (bump i g k s) = sr_name s" "sr_labelnames (bump i g k s) = sr_labelnames s"
  by (rule bump_cases [of s k i g]; simp)+

lemma bump_capped: "capped s \<Longrightarrow> capped (bump i g k s)"
  by (rule bump_cases [of s k i g]) (auto simp: capped_def length_dict_set)

lemma replay_snoc [simp]: "replay i k (ops @ [(k', g)]) = (if k' = k then g (replay i k ops) else replay i k ops)"
  by (simp add: replay_def)

lemma replay_Nil [simp]: "replay i k [] = i"
  by (simp add: replay_def)

lemma replay_other: "k \<notin> fst ` set ops \<Longrightarrow> replay i k ops = i"
  by (induction ops rule: rev_induct) auto

definition bumps :: "'v \<Rightarrow> (label_key \<times> ('v \<Rightarrow> 'v)) list \<Rightarrow> 'v series \<Rightarrow> 'v series" where
  "bumps i ops s = fold (\<lambda>(k, g). bump i g k) ops s"

lemma bumps_snoc [simp]: "bumps i (ops @ [(k, g)]) s = bump i g k (bumps i ops s)"
  by (simp add: bumps_def)

lemma bumps_fields [simp]: "sr_name (bumps i ops s) = sr_name s" "sr_labelnames (bumps i ops s) = sr_labelnames s"
  by (induction ops rule: rev_induct) (auto simp: bumps_def)

lemma bumps_replay:
  assumes start: "\<And>k v. dict_get (sr_values s) k = Some v \<Longrightarrow> v = i"
  shows "(dict_get (sr_values (bumps i ops s)) k = Some v \<longrightarrow> v = replay i k ops)
    \<and> (dict_get (sr_values (bumps i ops s)) k = None \<longrightarrow> k \<in> fst ` set ops \<longrightarrow> MAX_SERIES_PER_METRIC \<le> length (sr_values (bumps i ops s)))"
proof (induction ops arbitrary: v rule: rev_induct)
  case Nil
  then show ?case using start by (simp add: bumps_def)
next
  case (snoc x ops)
  obtain k' g where x: "x = (k', g)" by force
  let ?s = "bumps i ops s"
  from bump_cases [of ?s k' i g] show ?case
  proof cases
    case (1 w)
    then show ?thesis using snoc.IH x by (auto simp: length_dict_set)
  next
    case 2
    then have "k' \<notin> fst ` set ops" if "k' = k" using snoc.IH that by auto
    then show ?thesis using 2 snoc.IH x by (auto simp: length_dict_set replay_other)
  next
    case 3
    then show ?thesis using snoc.IH x by auto
  qed
qed

lemma bumps_capped: "capped s \<Longrightarrow> capped (bumps i ops s)"
  by (induction ops rule: rev_induct) (auto simp: bumps_def bump_capped)

lemma bumps_keys: "fst ` set (sr_values (bumps i ops s)) \<subseteq> fst ` set (sr_values s) \<union> fst ` set ops"
proof (induction ops rule: rev_induct)
  case (snoc x ops)
  obtain k g where x: "x = (k, g)" by force
  from bump_cases [of "bumps i ops s" k i g] show ?case
    by cases (use snoc x in auto)
qed (simp add: bumps_def)

lemma add_to_bump: "add_to k a s = bump 0 (\<lambda>v. v + a) k s"
  by (auto simp: add_to_def bump_def split: option.split prod.split)

section \<open>Counters\<close>

text \<open>The increments of a counter that are accepted, as the trace of instrument calls has them.\<close>

type_synonym labelled = "(string, string) dict"

definition counter_run :: "(rat \<times> labelled) list \<Rightarrow> rat series \<Rightarrow> rat series" where
  \<comment> \<open>calls one after the other; the caller of one that raises goes on\<close>
  "counter_run calls s = fold (\<lambda>(a, ls) s. snd (counter_inc a ls s)) calls s"

definition accepted :: "rat series \<Rightarrow> (rat \<times> labelled) list \<Rightarrow> (label_key \<times> rat) list" where
  "accepted s calls = concat (map (\<lambda>(a, ls). case series_key ls s of Inl _ \<Rightarrow> [] | Inr k \<Rightarrow> if a < 0 then [] else [(k, a)]) calls)"

definition trace_of :: "rat series \<Rightarrow> (rat \<times> labelled) list \<Rightarrow> metric_event list" where
  "trace_of s calls = map (\<lambda>(k, a). (MInc, sr_name s, k, a)) (accepted s calls)"

lemma series_key_cong: "sr_name s = sr_name s' \<Longrightarrow> sr_labelnames s = sr_labelnames s' \<Longrightarrow> series_key ls s = series_key ls s'"
  by (simp add: series_key_def)

lemma counter_run_bumps: "counter_run calls s = bumps 0 (map (\<lambda>(k, a). (k, \<lambda>v. v + a)) (accepted s calls)) s"
proof (induction calls rule: rev_induct)
  case (snoc x calls)
  obtain a ls where x: "x = (a, ls)" by force
  let ?s = "counter_run calls s"
  have k: "series_key ls ?s = series_key ls s" by (rule series_key_cong) (simp_all add: snoc)
  show ?case
  proof (cases "a < 0 \<or> (\<exists>e. series_key ls s = Inl e)")
    case True
    then have "counter_run (calls @ [x]) s = ?s" "accepted s (calls @ [x]) = accepted s calls"
      using x k by (auto simp: counter_run_def counter_inc_def accepted_def split: sum.splits)
    then show ?thesis using snoc by simp
  next
    case False
    then obtain key where key: "series_key ls s = Inr key" by (cases "series_key ls s") auto
    with False x k have "counter_run (calls @ [x]) s = add_to key a ?s" "accepted s (calls @ [x]) = accepted s calls @ [(key, a)]"
      by (auto simp: counter_run_def counter_inc_def accepted_def)
    then show ?thesis using snoc by (simp add: add_to_bump)
  qed
qed (simp add: counter_run_def accepted_def bumps_def)

lemma replay_trace: "replay 0 k (map (\<lambda>(k, a). (k, \<lambda>v. v + a)) xs) = metric_total n k (map (\<lambda>(k, a). (MInc, n, k, a)) xs)"
proof (induction xs rule: rev_induct)
  case (snoc x xs)
  obtain k' a where "x = (k', a)" by force
  with snoc show ?case by (simp add: metric_total_Cons)
qed simp

lemma counter_init_values: "counter_init n doc ls = Inr s \<Longrightarrow> capped s \<and> (\<forall>k v. dict_get (sr_values s) k = Some v \<longrightarrow> v = 0)"
  by (auto simp: counter_init_def metric_init_def capped_def MAX_SERIES_PER_METRIC_def split: sum.splits option.splits if_splits)

text \<open>
  C39: a counter refines its trace: whatever calls are made, refused ones included, a series that is
  known has the sum of the accepted increments of its labels, and so has every series while there
  are fewer than 2,000; there are never more.
\<close>

theorem counter_refines_trace:
  assumes "counter_init n doc ls = Inr s"
  shows "length (sr_values (counter_run calls s)) \<le> 2000
    \<and> (dict_get (sr_values (counter_run calls s)) k = Some v \<longrightarrow> v = metric_total n k (trace_of s calls))
    \<and> (length (sr_values (counter_run calls s)) < 2000 \<longrightarrow> series_key labels s = Inr k \<longrightarrow>
         series_value labels (counter_run calls s) = Inr (metric_total n k (trace_of s calls)))"
proof -
  let ?ops = "map (\<lambda>(k, a). (k, \<lambda>v. v + a)) (accepted s calls)"
  note init = counter_init_values [OF assms]
  have n: "sr_name s = n"
    using assms by (auto simp: counter_init_def metric_init_def split: sum.splits option.splits if_splits)
  have r: "replay 0 k ?ops = metric_total n k (trace_of s calls)"
    by (simp only: trace_of_def n replay_trace)
  have b: "(dict_get (sr_values (counter_run calls s)) k = Some v \<longrightarrow> v = metric_total n k (trace_of s calls))
      \<and> (dict_get (sr_values (counter_run calls s)) k = None \<longrightarrow> k \<in> fst ` set ?ops
          \<longrightarrow> MAX_SERIES_PER_METRIC \<le> length (sr_values (counter_run calls s)))" for v
    using bumps_replay [where s = s and i = 0 and k = k and ops = ?ops and v = v] init unfolding counter_run_bumps r by blast
  have "capped (counter_run calls s)" unfolding counter_run_bumps using init by (blast intro: bumps_capped)
  then have "length (sr_values (counter_run calls s)) \<le> 2000" by (simp add: capped_def MAX_SERIES_PER_METRIC_def)
  moreover have "series_value labels (counter_run calls s) = Inr (metric_total n k (trace_of s calls))"
    if "length (sr_values (counter_run calls s)) < 2000" "series_key labels s = Inr k"
  proof -
    have key: "series_key labels (counter_run calls s) = Inr k"
      using that(2) series_key_cong [of "counter_run calls s" s labels] by (simp add: counter_run_bumps)
    show ?thesis
    proof (cases "dict_get (sr_values (counter_run calls s)) k")
      case None
      with b that(1) have "k \<notin> fst ` set ?ops" by (auto simp: MAX_SERIES_PER_METRIC_def)
      then have "metric_total n k (trace_of s calls) = 0" using replay_other [where k = k and ops = ?ops and i = 0] r by simp
      with None key show ?thesis by (simp add: series_value_def)
    next
      case (Some v)
      with b [of v] key show ?thesis by (simp add: series_value_def)
    qed
  qed
  ultimately show ?thesis using b by blast
qed

section \<open>Histograms\<close>

definition observe_run :: "(rat \<times> labelled) list \<Rightarrow> histogram \<Rightarrow> histogram" where
  "observe_run calls h = fold (\<lambda>(v, ls) h. snd (observe v ls h)) calls h"

definition observed_values :: "'v series \<Rightarrow> (rat \<times> labelled) list \<Rightarrow> (label_key \<times> rat) list" where
  "observed_values s calls = concat (map (\<lambda>(v, ls). case series_key ls s of Inl _ \<Rightarrow> [] | Inr k \<Rightarrow> [(k, v)]) calls)"

definition summary :: "bound list \<Rightarrow> rat list \<Rightarrow> bucketed" where
  \<comment> \<open>what the series of these observations has to be\<close>
  "summary bs xs = \<lparr>bk_counts = map (\<lambda>bd. length (filter (\<lambda>v. below v bd) xs)) bs, bk_sum = sum_list xs, bk_count = length xs\<rparr>"

lemma observe_bump:
  "series_key ls (hg_series h) = Inr k \<Longrightarrow>
     snd (observe v ls h) = h\<lparr>hg_series := bump (for_buckets (hg_buckets h)) (observed (hg_buckets h) v) k (hg_series h)\<rparr>"
  by (auto simp: observe_def bump_def Let_def split: option.split prod.split)

lemma observe_error: "series_key ls (hg_series h) = Inl e \<Longrightarrow> observe v ls h = (Inl e, h)"
  by (simp add: observe_def)

lemma observe_run_bumps:
  "observe_run calls h = h\<lparr>hg_series := bumps (for_buckets (hg_buckets h))
     (map (\<lambda>(k, v). (k, observed (hg_buckets h) v)) (observed_values (hg_series h) calls)) (hg_series h)\<rparr>"
proof (induction calls rule: rev_induct)
  case (snoc x calls)
  obtain v ls where x: "x = (v, ls)" by force
  let ?h = "observe_run calls h"
  have k: "series_key ls (hg_series ?h) = series_key ls (hg_series h)" by (rule series_key_cong) (simp_all add: snoc)
  have run: "observe_run (calls @ [x]) h = snd (observe v ls ?h)" by (simp add: observe_run_def x)
  have b: "hg_buckets ?h = hg_buckets h" by (subst snoc) simp
  show ?case
  proof (cases "series_key ls (hg_series h)")
    case (Inl e)
    then have "observed_values (hg_series h) (calls @ [x]) = observed_values (hg_series h) calls"
      by (simp add: observed_values_def x)
    with Inl k snoc show ?thesis by (simp add: run observe_error)
  next
    case (Inr key)
    then have "observed_values (hg_series h) (calls @ [x]) = observed_values (hg_series h) calls @ [(key, v)]"
      by (simp add: observed_values_def x)
    moreover have "snd (observe v ls ?h) = ?h\<lparr>hg_series := bump (for_buckets (hg_buckets h)) (observed (hg_buckets h) v) key (hg_series ?h)\<rparr>"
      using observe_bump [of ls ?h key v] k Inr b by simp
    ultimately show ?thesis by (simp add: run) (simp add: snoc)
  qed
qed (simp add: observe_run_def observed_values_def bumps_def)

lemma observed_summary: "observed bs v (summary bs xs) = summary bs (xs @ [v])"
  by (auto simp: observed_def summary_def list_eq_iff_nth_eq)

lemma replay_observed:
  "replay (for_buckets bs) k (map (\<lambda>(k, v). (k, observed bs v)) xs) = summary bs (map snd (filter (\<lambda>x. fst x = k) xs))"
proof (induction xs rule: rev_induct)
  case Nil
  show ?case by (simp add: for_buckets_def summary_def map_replicate_const)
next
  case (snoc x xs)
  then show ?case by (cases x) (simp add: observed_summary)
qed

lemma histogram_init_values:
  assumes "histogram_init n doc ls bs = Inr h"
  shows "capped (hg_series h) \<and> (\<forall>k v. dict_get (sr_values (hg_series h)) k = Some v \<longrightarrow> v = for_buckets (hg_buckets h))
    \<and> (\<exists>fin. sorted fin \<and> hg_buckets h = map Fin fin @ [PlusInf])"
proof -
  define fin where "fin = concat (map finite_bound bs)"
  from assms have "fin = sort fin" and h: "hg_buckets h = map Fin fin @ [PlusInf]"
    by (auto simp: histogram_init_def Let_def fin_def split: sum.splits if_splits)
  then have "sorted fin" using sorted_sort [of fin] by simp
  moreover have "capped (hg_series h) \<and> (\<forall>k v. dict_get (sr_values (hg_series h)) k = Some v \<longrightarrow> v = for_buckets (hg_buckets h))"
    using assms
    by (auto simp: histogram_init_def metric_init_def Let_def capped_def MAX_SERIES_PER_METRIC_def
          split: sum.splits option.splits if_splits)
  ultimately show ?thesis using h by blast
qed

lemma below_trans: "below v (Fin a) \<Longrightarrow> a \<le> b \<Longrightarrow> below v (Fin b)"
  by simp

lemma filter_length_mono: "(\<And>x. P x \<Longrightarrow> Q x) \<Longrightarrow> length (filter P xs) \<le> length (filter Q xs)"
  by (induction xs) auto

lemma summary_cumulative:
  assumes "sorted fin"
  shows "sorted (bk_counts (summary (map Fin fin @ [PlusInf]) xs))"
    and "List.last (bk_counts (summary (map Fin fin @ [PlusInf]) xs)) = length xs"
proof -
  have "sorted (map (\<lambda>a. length (filter (\<lambda>v. v \<le> a) xs)) fin)"
    unfolding sorted_map by (rule sorted_wrt_mono_rel [OF _ assms]) (auto intro!: filter_length_mono)
  then show "sorted (bk_counts (summary (map Fin fin @ [PlusInf]) xs))"
    by (auto simp: summary_def sorted_append comp_def)
  show "List.last (bk_counts (summary (map Fin fin @ [PlusInf]) xs)) = length xs"
    by (simp add: summary_def)
qed

text \<open>
  A histogram counts its observations: whatever is observed, with wrong labels now and then, a
  known series has the number and the sum of the values observed under its labels and, for each
  bound, the number of them that do not exceed it; the buckets never decrease along the bounds, the
  last one is the count, and there are never more than 2,000 series.
\<close>

theorem histogram_counts:
  assumes "histogram_init n doc ls bs = Inr h" and "dict_get (sr_values (hg_series (observe_run calls h))) k = Some b"
  shows "b = summary (hg_buckets h) (map snd (filter (\<lambda>x. fst x = k) (observed_values (hg_series h) calls)))
    \<and> sorted (bk_counts b) \<and> List.last (bk_counts b) = bk_count b
    \<and> length (sr_values (hg_series (observe_run calls h))) \<le> 2000"
proof -
  let ?ops = "map (\<lambda>(k, v). (k, observed (hg_buckets h) v)) (observed_values (hg_series h) calls)"
  from histogram_init_values [OF assms(1)] obtain fin where c: "capped (hg_series h)"
    and init: "\<And>k v. dict_get (sr_values (hg_series h)) k = Some v \<Longrightarrow> v = for_buckets (hg_buckets h)"
    and f: "sorted fin" "hg_buckets h = map Fin fin @ [PlusInf]" by blast
  have run: "hg_series (observe_run calls h) = bumps (for_buckets (hg_buckets h)) ?ops (hg_series h)"
    by (simp add: observe_run_bumps)
  have b: "b = summary (hg_buckets h) (map snd (filter (\<lambda>x. fst x = k) (observed_values (hg_series h) calls)))"
    using bumps_replay [where s = "hg_series h" and i = "for_buckets (hg_buckets h)" and k = k and ops = ?ops and v = b] init assms(2)
    unfolding run replay_observed by blast
  have "length (sr_values (hg_series (observe_run calls h))) \<le> 2000"
    using bumps_capped [OF c, of "for_buckets (hg_buckets h)" ?ops] unfolding run by (simp add: capped_def MAX_SERIES_PER_METRIC_def)
  moreover have "sorted (bk_counts b)" "List.last (bk_counts b) = bk_count b"
    unfolding b f(2) by (simp_all only: summary_cumulative [OF f(1)]) (simp add: summary_def)
  ultimately show ?thesis using b by blast
qed

section \<open>The labels of a scrape\<close>

definition escape_char :: "char \<Rightarrow> string" where
  "escape_char c = (if c = backslash then [backslash, backslash] else if c = quote then [backslash, quote]
                    else if c = newline then [backslash, CHR ''n''] else [c])"

lemmas char_defs = backslash_def quote_def newline_def

lemma replace_char_append [simp]: "replace_char c w (xs @ ys) = replace_char c w xs @ replace_char c w ys"
  by (simp add: replace_char_def)

lemma escape_by_char: "escape_label_value v = concat (map escape_char v)"
proof (induction v)
  case (Cons c v)
  have "escape_label_value (c # v) = escape_label_value [c] @ escape_label_value v"
    unfolding escape_label_value_def by (metis append_Cons append_Nil replace_char_append)
  moreover have "escape_label_value [c] = escape_char c"
    by (simp add: escape_label_value_def escape_char_def replace_char_def char_defs)
  ultimately show ?case using Cons by simp
qed (simp add: escape_label_value_def replace_char_def)

fun read_value :: "string \<Rightarrow> (string \<times> string) option" where
  \<comment> \<open>a reader of the format: the value up to the closing quote, and what follows\<close>
  "read_value [] = None"
| "read_value (c # cs) =
     (if c = quote then Some ([], cs)
      else if c = backslash
      then (case cs of [] \<Rightarrow> None
            | d # ds \<Rightarrow> map_option (\<lambda>(v, r). ((if d = CHR ''n'' then newline else d) # v, r)) (read_value ds))
      else map_option (\<lambda>(v, r). (c # v, r)) (read_value cs))"

lemma read_escaped: "read_value (escape_label_value v @ quote # r) = Some (v, r)"
proof (induction v)
  case (Cons c v)
  have "read_value (escape_char c @ s) = map_option (\<lambda>(v, r). (c # v, r)) (read_value s)" for s
    by (auto simp: escape_char_def char_defs)
  with Cons show ?case by (simp add: escape_by_char)
qed (simp add: escape_by_char)

lemma join_Cons: "join sep (p # ps) = p @ (if ps = [] then [] else sep @ join sep ps)"
  by (cases ps) auto

lemma join_label_part:
  "join '','' (map2 label_part (n # names) (v # vs) @ ext) = n @ ''='' @ quote # (escape_label_value v @ quote #
     (if map2 label_part names vs @ ext = [] then [] else '','' @ join '','' (map2 label_part names vs @ ext)))"
  by (simp add: join_Cons label_part_def [of n v])

lemma join_parts_inj:
  "length vs = length names \<Longrightarrow> length ws = length names \<Longrightarrow>
     join '','' (map2 label_part names vs @ ext) = join '','' (map2 label_part names ws @ ext) \<Longrightarrow> vs = ws"
proof (induction names arbitrary: vs ws)
  case (Cons n names)
  from Cons.prems obtain v vs' w ws' where vw: "vs = v # vs'" "ws = w # ws'"
    and l: "length vs' = length names" "length ws' = length names"
    by (cases vs; cases ws; auto)
  let ?t = "\<lambda>us. if map2 label_part names us @ ext = [] then [] else '','' @ join '','' (map2 label_part names us @ ext)"
  from Cons.prems(3) have "escape_label_value v @ quote # ?t vs' = escape_label_value w @ quote # ?t ws'"
    unfolding vw join_label_part by (simp only: same_append_eq append_Cons append_Nil list.inject)
  then have "Some (v, ?t vs') = Some (w, ?t ws')" by (metis read_escaped)
  then have t: "v = w" "?t vs' = ?t ws'" by auto
  show ?case
  proof (cases "names = []")
    case True
    with l t vw show ?thesis by simp
  next
    case False
    with l have "map2 label_part names vs' \<noteq> []" "map2 label_part names ws' \<noteq> []" by (auto simp: zip_eq_Nil_iff)
    with t(2) have "join '','' (map2 label_part names vs' @ ext) = join '','' (map2 label_part names ws' @ ext)" by simp
    with Cons.IH [OF l] t(1) vw show ?thesis by simp
  qed
qed simp

lemma render_labels_inj:
  assumes "length vs = length names" and "length ws = length names" and "render_labels names vs extra = render_labels names ws extra"
  shows "vs = ws"
proof (cases "names = []")
  case False
  let ?ext = "if extra \<noteq> [] then [extra] else []"
  from False assms(1,2) have "map2 label_part names vs @ ?ext \<noteq> []" "map2 label_part names ws @ ?ext \<noteq> []"
    by (auto simp: zip_eq_Nil_iff)
  then have "join '','' (map2 label_part names vs @ ?ext) = join '','' (map2 label_part names ws @ ?ext)"
    using assms(3) unfolding render_labels_def Let_def by simp
  then show ?thesis by (rule join_parts_inj [OF assms(1,2)])
qed (use assms in simp)

lemma series_key_length: "series_key labels s = Inr k \<Longrightarrow> length k = length (sr_labelnames s)"
  by (auto simp: series_key_def split: if_splits)

lemma dict_ok_bumps: "dict_ok (sr_values s) \<Longrightarrow> dict_ok (sr_values (bumps i ops s))"
proof (induction ops rule: rev_induct)
  case (snoc x ops)
  obtain k g where x: "x = (k, g)" by force
  from bump_cases [of "bumps i ops s" k i g] show ?case by cases (use snoc x in auto)
qed (simp add: bumps_def)

lemma sorted_items_keys: "dict_ok d \<Longrightarrow> distinct (map fst (sorted_items d)) \<and> set (sorted_items d) = set d"
  by (simp add: sorted_items_def dict_ok_def) (metis distinct_map distinct_sort set_sort)

lemma accepted_keys: "k \<in> fst ` set (accepted s calls) \<Longrightarrow> length k = length (sr_labelnames s)"
  by (auto simp: accepted_def split: sum.splits if_splits dest: series_key_length [OF sym])

lemma counter_run_keys:
  assumes "counter_init n doc ls = Inr s" and "k \<in> fst ` set (sr_values (counter_run calls s))"
  shows "length k = length (sr_labelnames s)"
proof -
  have "fst ` set (map (\<lambda>(k, a). (k, \<lambda>v. v + a)) xs) = fst ` set xs" for xs :: "(label_key \<times> rat) list"
    by (simp add: image_image case_prod_unfold)
  then have "k \<in> fst ` set (sr_values s) \<or> k \<in> fst ` set (accepted s calls)"
    using assms(2) bumps_keys [of 0 "map (\<lambda>(k, a). (k, \<lambda>v. v + a)) (accepted s calls)" s]
    unfolding counter_run_bumps by blast
  moreover have "k \<in> fst ` set (sr_values s) \<Longrightarrow> k = [] \<and> sr_labelnames s = []"
    using assms(1) by (auto simp: counter_init_def metric_init_def split: sum.splits option.splits if_splits)
  ultimately show ?thesis using accepted_keys by (metis list.size(3))
qed

text \<open>
  A scrape is unambiguous: whatever label values were passed, quotes, backslashes and newlines
  included, no two lines of a counter carry the same labels, and a reader gets every value back.
\<close>

theorem scrape_unambiguous:
  assumes "counter_init n doc ls = Inr s"
  shows "distinct (map sm_labels (collect_series (counter_run calls s)))
    \<and> read_value (escape_label_value v @ quote # rest) = Some (v, rest)"
proof -
  let ?s = "counter_run calls s"
  have names: "sr_labelnames ?s = sr_labelnames s" by (simp add: counter_run_bumps)
  have "dict_ok (sr_values s)"
    using assms by (auto simp: counter_init_def metric_init_def dict_ok_def split: sum.splits option.splits if_splits)
  then have "dict_ok (sr_values ?s)" unfolding counter_run_bumps by (rule dict_ok_bumps)
  then have keys: "distinct (map fst (sorted_items (sr_values ?s)))" "set (sorted_items (sr_values ?s)) = set (sr_values ?s)"
    using sorted_items_keys by blast+
  have "inj_on (\<lambda>k. render_labels (sr_labelnames s) k []) (fst ` set (sr_values ?s))"
    using counter_run_keys [OF assms] by (intro inj_onI) (rule render_labels_inj)
  moreover have "map sm_labels (collect_series ?s) = map (\<lambda>k. render_labels (sr_labelnames s) k []) (map fst (sorted_items (sr_values ?s)))"
    by (simp add: collect_series_def names comp_def case_prod_unfold)
  moreover have "distinct (map (\<lambda>k. render_labels (sr_labelnames s) k []) (map fst (sorted_items (sr_values ?s))))"
    using keys(1) calculation(1) by (subst distinct_map) (simp add: keys(2) del: map_map)
  ultimately show ?thesis using read_escaped by simp
qed

section \<open>The registry keeps the live instrument\<close>

lemma register_metric_idempotent:
  assumes "register_metric m reg = (Inr m', reg')"
  shows "dict_get reg' (metric_name m) = Some m' \<and> (\<forall>n. n \<noteq> metric_name m \<longrightarrow> dict_get reg' n = dict_get reg n)
    \<and> register_metric m reg' = (Inr m', reg')"
  using assms by (auto simp: register_metric_def split: option.splits if_splits)

text \<open>Only the kind and the labels are compared: a histogram asked for with other buckets is the old one.\<close>

theorem buckets_not_compared:
  assumes "dict_get reg (metric_name (Histogram h)) = Some (Histogram h')"
    and "sr_labelnames (hg_series h) = sr_labelnames (hg_series h')"
  shows "register_metric (Histogram h) reg = (Inr (Histogram h'), reg)"
  using assms by (simp add: register_metric_def)

text \<open>
  The patterns end in a dollar sign, which also matches before a final newline: such a name is
  accepted, and breaks the line it is printed on. Bounds may be equal, which repeats a line.
\<close>

theorem newline_name_accepted: "name_ok (''requests_total'' @ [newline])"
  by code_simp

theorem equal_bounds_accepted:
  "case histogram_init ''h'' ''d'' [] [Fin 1, Fin 1] of Inl _ \<Rightarrow> False
   | Inr h \<Rightarrow> \<not> distinct (map sm_labels (collect_histogram (\<lambda>_. []) h))"
  by code_simp

section \<open>Witnesses\<close>

definition sample_counter :: "rat series" where
  "sample_counter = (case counter_init ''c'' ''d'' [''l''] of Inl _ \<Rightarrow> undefined | Inr s \<Rightarrow> s)"

definition sample_calls :: "(rat \<times> labelled) list" where
  "sample_calls = [(2, [(''l'', ''a'')]), (-1, [(''l'', ''a'')]), (3, [(''l'', ''b'')]), (5, [(''x'', ''a'')]), (1, [(''l'', ''a'')])]"

lemma sample_counter_init: "counter_init ''c'' ''d'' [''l''] = Inr sample_counter"
  by (simp add: sample_counter_def) code_simp

definition sample_histogram :: histogram where
  "sample_histogram = (case histogram_init ''h'' ''d'' [] [Fin 1, Fin 2] of Inl _ \<Rightarrow> undefined | Inr h \<Rightarrow> h)"

theorem counter_refines_trace_witness:
  "dict_get (sr_values (counter_run sample_calls sample_counter)) [''a''] = Some 3
    \<and> metric_total ''c'' [''a''] (trace_of sample_counter sample_calls) = 3"
proof -
  have "dict_get (sr_values (counter_run sample_calls sample_counter)) [''a''] = Some 3" by code_simp
  with counter_refines_trace [OF sample_counter_init, of sample_calls "[''a'']" 3 "[]"] show ?thesis by simp
qed

theorem histogram_counts_witness:
  "\<exists>b. dict_get (sr_values (hg_series (observe_run [(1, []), (2, []), (7, [])] sample_histogram))) [] = Some b
    \<and> bk_counts b = [1, 2, 3] \<and> List.last (bk_counts b) = bk_count b"
proof -
  have i: "histogram_init ''h'' ''d'' [] [Fin 1, Fin 2] = Inr sample_histogram"
    by (simp add: sample_histogram_def) code_simp
  have "map_option bk_counts (dict_get (sr_values (hg_series (observe_run [(1, []), (2, []), (7, [])] sample_histogram))) []) = Some [1, 2, 3]"
    by code_simp
  then obtain b where b: "dict_get (sr_values (hg_series (observe_run [(1, []), (2, []), (7, [])] sample_histogram))) [] = Some b"
    "bk_counts b = [1, 2, 3]" by blast
  from histogram_counts [OF i b(1)] b show ?thesis by blast
qed

theorem scrape_unambiguous_witness:
  "distinct (map sm_labels (collect_series (counter_run sample_calls sample_counter)))"
  using scrape_unambiguous [OF sample_counter_init, of sample_calls] by blast

end
