(* ===== verification/LLM_Retry.thy ===== *)
theory LLM_Retry
  imports Py_Value
begin

text \<open>
  The retry engine of the LLM layer (\<^verbatim>\<open>app/core/llm/retry.py\<close>): the circuit breaker and
  \<^verbatim>\<open>with_retry\<close>. The operation that is retried and the clock are arguments: \<open>op i\<close> is what the
  \<open>i\<close>-th call does, \<open>clock i\<close> the time after it. The random jitter of a delay is an argument of the
  delay; sleeping has no other effect.
\<close>

record retry_policy =
  rp_max_retries :: int
  rp_base_delay :: rat
  rp_max_delay :: rat
  rp_jitter :: rat

record circuit_breaker =
  cb_failure_threshold :: int
  cb_reset_after :: int
  cb_failures :: "(string, int) dict"
  cb_opened_at :: "(string, time) dict"

definition breaker_init :: circuit_breaker where
  "breaker_init = \<lparr>cb_failure_threshold = 5, cb_reset_after = seconds 30, cb_failures = [], cb_opened_at = []\<rparr>"

definition is_open :: "string \<Rightarrow> time \<Rightarrow> circuit_breaker \<Rightarrow> circuit_breaker \<times> bool" where
  "is_open key now cb =
     (case dict_get (cb_opened_at cb) key of
        None \<Rightarrow> (cb, False)
      | Some opened \<Rightarrow>
          if now - opened \<ge> cb_reset_after cb
          then (cb\<lparr>cb_opened_at := dict_pop key (cb_opened_at cb), cb_failures := dict_set key 0 (cb_failures cb)\<rparr>, False)
          else (cb, True))"

datatype retry_exc = CircuitOpen | Retryable string | Fatal string

definition breaker_check :: "string \<Rightarrow> time \<Rightarrow> circuit_breaker \<Rightarrow> circuit_breaker \<times> retry_exc option" where
  "breaker_check key now cb =
     (case is_open key now cb of (cb', b) \<Rightarrow> (cb', if b then Some CircuitOpen else None))"

definition breaker_success :: "string \<Rightarrow> circuit_breaker \<Rightarrow> circuit_breaker" where
  "breaker_success key cb =
     cb\<lparr>cb_failures := dict_set key 0 (cb_failures cb), cb_opened_at := dict_pop key (cb_opened_at cb)\<rparr>"

definition failures_of :: "string \<Rightarrow> circuit_breaker \<Rightarrow> int" where
  "failures_of key cb = (case dict_get (cb_failures cb) key of None \<Rightarrow> 0 | Some n \<Rightarrow> n)"

definition breaker_failure :: "string \<Rightarrow> time \<Rightarrow> circuit_breaker \<Rightarrow> circuit_breaker" where
  "breaker_failure key now cb =
     (let count = failures_of key cb + 1;
          cb' = cb\<lparr>cb_failures := dict_set key count (cb_failures cb)\<rparr>
      in if count \<ge> cb_failure_threshold cb
         then cb'\<lparr>cb_opened_at := dict_set key now (cb_opened_at cb')\<rparr> else cb')"

definition backoff :: "retry_policy \<Rightarrow> nat \<Rightarrow> rat \<Rightarrow> rat" where
  \<comment> \<open>the delay after the given number of failed attempts\<close>
  "backoff p attempt jitter = min (rp_base_delay p * 2 ^ (attempt - 1)) (rp_max_delay p) + jitter"

datatype 'a op_result = Op_Ok 'a | Op_Retryable string | Op_Fatal string

fun is_transient :: "'a op_result \<Rightarrow> bool" where
  "is_transient (Op_Retryable _) = True" | "is_transient _ = False"

type_synonym retry_state = "circuit_breaker \<times> nat"

definition try_op ::
  "(nat \<Rightarrow> 'a op_result) \<Rightarrow> (nat \<Rightarrow> time) \<Rightarrow> string \<Rightarrow> retry_state \<Rightarrow> retry_state \<times> 'a op_result" where
  \<comment> \<open>one pass of the \<open>while\<close>: call the operation and tell the breaker\<close>
  "try_op op clock key s =
     (case s of (cb, i) \<Rightarrow>
        ((case op i of Op_Ok _ \<Rightarrow> breaker_success key cb | _ \<Rightarrow> breaker_failure key (clock i) cb, Suc i), op i))"

fun retry_passes ::
  "(nat \<Rightarrow> 'a op_result) \<Rightarrow> (nat \<Rightarrow> time) \<Rightarrow> string \<Rightarrow> nat \<Rightarrow> retry_state \<Rightarrow> retry_state \<times> 'a op_result" where
  "retry_passes op clock key n s =
     (case try_op op clock key s of
        (s', Op_Retryable e) \<Rightarrow>
          (case n of 0 \<Rightarrow> (s', Op_Retryable e) | Suc m \<Rightarrow> retry_passes op clock key m s')
      | res \<Rightarrow> res)"

declare retry_passes.simps [simp del]

definition with_retry ::
  "(nat \<Rightarrow> 'a op_result) \<Rightarrow> (nat \<Rightarrow> time) \<Rightarrow> retry_policy \<Rightarrow> string \<Rightarrow> time \<Rightarrow> circuit_breaker
   \<Rightarrow> retry_state \<times> (retry_exc + 'a)" where
  \<comment> \<open>with a breaker; the second component of the state counts the calls of the operation\<close>
  "with_retry op clock p key now cb =
     (case breaker_check key now cb of
        (cb', Some x) \<Rightarrow> ((cb', 0), Inl x)
      | (cb', None) \<Rightarrow>
          (case retry_passes op clock key (nat (rp_max_retries p)) (cb', 0) of
             (s, Op_Ok v) \<Rightarrow> (s, Inr v)
           | (s, Op_Retryable e) \<Rightarrow> (s, Inl (Retryable e))
           | (s, Op_Fatal e) \<Rightarrow> (s, Inl (Fatal e))))"

section \<open>The passes are a bounded retry loop\<close>

interpretation passes: retry_loop "try_op op clock key" is_transient "\<lambda>_ s. s" snd "retry_passes op clock key"
  for op clock key
proof
  fix s and n :: nat
  show "\<not> is_transient (snd (try_op op clock key s)) \<or> n = 0 \<Longrightarrow>
      retry_passes op clock key n s = try_op op clock key s"
    by (subst retry_passes.simps) (auto split: prod.splits op_result.splits)
  show "is_transient (snd (try_op op clock key s)) \<Longrightarrow>
      retry_passes op clock key (Suc n) s = retry_passes op clock key n (fst (try_op op clock key s))"
    by (subst retry_passes.simps) (auto split: prod.splits op_result.splits)
  show "snd (fst (try_op op clock key s)) = Suc (snd s)" by (auto simp: try_op_def split: prod.splits)
qed simp

lemma retry_passes_result:
  "snd (retry_passes op clock key n s) = op (snd (fst (retry_passes op clock key n s)) - 1)
   \<and> (\<forall>i. snd s \<le> i \<longrightarrow> i < snd (fst (retry_passes op clock key n s)) - 1 \<longrightarrow> is_transient (op i))"
proof (induction n arbitrary: s)
  case 0
  obtain cb i where "s = (cb, i)" by fastforce
  then show ?case by (simp add: passes.loop_stop try_op_def)
next
  case (Suc n)
  obtain cb i where s: "s = (cb, i)" by fastforce
  have t: "snd (try_op op clock key s) = op i" "snd (fst (try_op op clock key s)) = Suc i"
    using s by (simp_all add: try_op_def)
  show ?case
  proof (cases "is_transient (op i)")
    case True
    with t have e: "retry_passes op clock key (Suc n) s = retry_passes op clock key n (fst (try_op op clock key s))"
      by (simp add: passes.loop_again)
    have "is_transient (op j)" if "snd s \<le> j" "j < snd (fst (retry_passes op clock key n (fst (try_op op clock key s)))) - 1" for j
      using Suc [of "fst (try_op op clock key s)"] that True t s by (cases "j = i") auto
    with Suc [of "fst (try_op op clock key s)"] show ?thesis unfolding e by blast
  next
    case False
    with t s show ?thesis by (simp add: passes.loop_stop)
  qed
qed

text \<open>
  \<open>with_retry\<close> calls the operation not at all when the breaker is open, and otherwise between
  once and \<open>max_retries + 1\<close> times; every call before the last failed with a transient error; a
  value or a fatal error ends it at once, and a transient error is raised only after the last
  call allowed.
\<close>

theorem with_retry_calls:
  assumes "with_retry op clock p key now cb = ((cb', k), res)"
  shows "(snd (breaker_check key now cb) \<noteq> None \<longrightarrow> k = 0 \<and> res = Inl CircuitOpen)
    \<and> (snd (breaker_check key now cb) = None \<longrightarrow>
         1 \<le> k \<and> k \<le> nat (rp_max_retries p) + 1
         \<and> (\<forall>i < k - 1. is_transient (op i))
         \<and> res = (case op (k - 1) of Op_Ok v \<Rightarrow> Inr v | Op_Retryable e \<Rightarrow> Inl (Retryable e) | Op_Fatal e \<Rightarrow> Inl (Fatal e))
         \<and> (is_transient (op (k - 1)) \<longrightarrow> k = nat (rp_max_retries p) + 1))"
proof (cases "snd (breaker_check key now cb)")
  case (Some x)
  then have "x = CircuitOpen" by (auto simp: breaker_check_def split: prod.splits if_splits)
  with Some assms show ?thesis by (auto simp: with_retry_def split: prod.splits)
next
  case None
  then obtain cb1 where c: "breaker_check key now cb = (cb1, None)" by (metis prod.collapse)
  let ?n = "nat (rp_max_retries p)"
  obtain s r where l: "retry_passes op clock key ?n (cb1, 0) = (s, r)" by fastforce
  with assms c have s: "s = (cb', k)"
    and res: "res = (case r of Op_Ok v \<Rightarrow> Inr v | Op_Retryable e \<Rightarrow> Inl (Retryable e) | Op_Fatal e \<Rightarrow> Inl (Fatal e))"
    by (auto simp: with_retry_def split: op_result.splits)
  note rr = retry_passes_result [of op clock key ?n "(cb1, 0)", unfolded l s fst_conv snd_conv]
  have "1 \<le> k" "k \<le> ?n + 1"
    using passes.loop_attempts_positive [of "(cb1, 0)" op clock key ?n]
      passes.loop_attempts_bounded [of op clock key ?n "(cb1, 0)"] l s by simp_all
  moreover have "k = ?n + 1" if "is_transient (op (k - 1))"
    using passes.loop_exhausted [of op clock key ?n "(cb1, 0)"] l s rr that by simp
  ultimately show ?thesis using None rr res by auto
qed

section \<open>The breaker\<close>

definition breaker_ok :: "circuit_breaker \<Rightarrow> bool" where
  \<comment> \<open>an open key has reached the threshold\<close>
  "breaker_ok cb \<longleftrightarrow> dict_ok (cb_opened_at cb) \<and>
     (\<forall>key t. dict_get (cb_opened_at cb) key = Some t \<longrightarrow> failures_of key cb \<ge> cb_failure_threshold cb)"

lemma failures_of_set:
  "failures_of key (cb\<lparr>cb_failures := dict_set k n (cb_failures cb)\<rparr>) = (if key = k then n else failures_of key cb)"
  by (simp add: failures_of_def dict_get_set)

lemma failures_of_opened [simp]: "failures_of key (cb\<lparr>cb_opened_at := d\<rparr>) = failures_of key cb"
  by (simp add: failures_of_def)

lemma breaker_failure_opened:
  "dict_get (cb_opened_at (breaker_failure key now cb)) k =
     (if k = key \<and> failures_of key cb + 1 \<ge> cb_failure_threshold cb then Some now else dict_get (cb_opened_at cb) k)"
  by (simp add: breaker_failure_def Let_def dict_get_set)

lemma breaker_failure_failures:
  "failures_of k (breaker_failure key now cb) = (if k = key then failures_of key cb + 1 else failures_of k cb)"
  by (simp add: breaker_failure_def Let_def failures_of_def dict_get_set)

lemma breaker_failure_ok: "breaker_ok cb \<Longrightarrow> breaker_ok (breaker_failure key now cb)"
proof -
  assume ok: "breaker_ok cb"
  have th: "cb_failure_threshold (breaker_failure key now cb) = cb_failure_threshold cb"
    by (simp add: breaker_failure_def Let_def)
  have "dict_ok (cb_opened_at (breaker_failure key now cb))"
    using ok by (simp add: breaker_ok_def breaker_failure_def Let_def)
  with ok th show ?thesis
    by (force simp: breaker_ok_def breaker_failure_opened breaker_failure_failures split: if_splits)
qed

lemma breaker_success_ok: "breaker_ok cb \<Longrightarrow> breaker_ok (breaker_success key cb)"
  by (auto simp: breaker_ok_def breaker_success_def dict_get_pop failures_of_def dict_get_set split: if_splits)

lemma is_open_ok: "breaker_ok cb \<Longrightarrow> breaker_ok (fst (is_open key now cb))"
  by (auto simp: breaker_ok_def is_open_def dict_get_pop failures_of_def dict_get_set split: option.splits if_splits)

lemma try_op_ok: "breaker_ok (fst s) \<Longrightarrow> breaker_ok (fst (fst (try_op op clock key s)))"
  by (auto simp: try_op_def breaker_success_ok breaker_failure_ok split: prod.splits op_result.splits)

lemma with_retry_breaker_ok:
  assumes "breaker_ok cb"
  shows "breaker_ok (fst (fst (with_retry op clock p key now cb)))"
proof -
  obtain cb1 x where c: "breaker_check key now cb = (cb1, x)" by fastforce
  have ok: "breaker_ok cb1" using is_open_ok [OF assms, of key now] c
    by (auto simp: breaker_check_def split: prod.splits)
  have "breaker_ok (fst (fst (retry_passes op clock key n (cb1, 0))))" for n
    by (rule passes.loop_invariant [where I = "\<lambda>s. breaker_ok (fst s)"]) (simp_all add: try_op_ok ok)
  from this [of "nat (rp_max_retries p)"] ok c show ?thesis
    by (auto simp: with_retry_def split: option.splits prod.splits op_result.splits)
qed

fun fail_many :: "string \<Rightarrow> time list \<Rightarrow> circuit_breaker \<Rightarrow> circuit_breaker" where
  "fail_many key [] cb = cb"
| "fail_many key (t # ts) cb = fail_many key ts (breaker_failure key t cb)"

lemma fail_many_failures: "failures_of key (fail_many key ts cb) = failures_of key cb + int (length ts)"
  by (induction key ts cb rule: fail_many.induct) (simp_all add: breaker_failure_failures)

lemma fail_many_threshold [simp]:
  "cb_failure_threshold (fail_many key ts cb) = cb_failure_threshold cb" "cb_reset_after (fail_many key ts cb) = cb_reset_after cb"
  by (induction key ts cb rule: fail_many.induct) (simp_all add: breaker_failure_def Let_def)

lemma fail_many_append: "fail_many key (ts @ us) cb = fail_many key us (fail_many key ts cb)"
  by (induction key ts cb rule: fail_many.induct) simp_all

text \<open>
  After failures without a success in between have reached the threshold, the breaker
  refuses every call on the key until \<open>reset_after\<close> has passed since the last failure, and lets
  the first call after that through.
\<close>

theorem breaker_trips_and_resets:
  assumes "cb_failure_threshold cb \<le> failures_of key cb + int (length ts) + 1"
  shows "snd (breaker_check key now (fail_many key (ts @ [t]) cb)) = (if now - t < cb_reset_after cb then Some CircuitOpen else None)"
proof -
  define cb' where "cb' = fail_many key (ts @ [t]) cb"
  have f: "cb' = breaker_failure key t (fail_many key ts cb)" by (simp add: cb'_def fail_many_append)
  have "dict_get (cb_opened_at cb') key = Some t"
    using assms(1) unfolding f breaker_failure_opened by (simp add: fail_many_failures)
  moreover have "cb_reset_after cb' = cb_reset_after cb" by (simp add: cb'_def)
  ultimately show ?thesis unfolding cb'_def [symmetric]
    by (simp add: breaker_check_def is_open_def split: prod.splits)
qed

lemma backoff_bounds:
  assumes "0 \<le> rp_base_delay p" "0 \<le> rp_max_delay p" "0 \<le> j" "j \<le> rp_jitter p"
  shows "0 \<le> backoff p k j \<and> backoff p k j \<le> rp_max_delay p + rp_jitter p"
  using assms by (simp add: backoff_def min_def)

section \<open>Witnesses\<close>

definition sample_policy :: retry_policy where
  "sample_policy = \<lparr>rp_max_retries = 3, rp_base_delay = 1 / 2, rp_max_delay = 8, rp_jitter = 1 / 10\<rparr>"

theorem with_retry_calls_witness:
  "\<exists>cb'. with_retry (\<lambda>i. if i < 2 then Op_Retryable ''429'' else Op_Ok PNone) (\<lambda>_. 0) sample_policy ''k'' 0 breaker_init
      = ((cb', 3), Inr PNone)"
proof -
  let ?op = "\<lambda>i::nat. if i < 2 then Op_Retryable ''429'' else Op_Ok PNone"
  obtain cb' k res where w: "with_retry ?op (\<lambda>_. 0) sample_policy ''k'' 0 breaker_init = ((cb', k), res)"
    by (metis prod.exhaust)
  have closed: "snd (breaker_check ''k'' 0 breaker_init) = None"
    by (simp add: breaker_check_def is_open_def breaker_init_def)
  note c = with_retry_calls [OF w, unfolded closed]
  have n: "nat (rp_max_retries sample_policy) + 1 = 4" by (simp add: sample_policy_def)
  have k: "1 \<le> k" "k \<le> 4" "\<forall>i < k - 1. is_transient (?op i)"
    and last: "is_transient (?op (k - 1)) \<Longrightarrow> k = 4"
    using c n by auto
  have "k = 3"
  proof -
    have "\<not> 2 < k - 1" using k(3) by force
    moreover have "\<not> k - 1 < 2" using last k by force
    ultimately show ?thesis by simp
  qed
  with w c show ?thesis by auto
qed

theorem breaker_trips_and_resets_witness:
  "snd (breaker_check ''k'' 9 (fail_many ''k'' [1, 2, 3, 4, 5] breaker_init)) = Some CircuitOpen"
  using breaker_trips_and_resets [of breaker_init "''k''" "[1, 2, 3, 4]" 9 5]
  by (simp add: breaker_init_def failures_of_def)

end
