(* ===== verification/LLM_Core.thy ===== *)
theory LLM_Core
  imports LLM_Retry Cache
begin

text \<open>
  The core of the LLM layer (\<^verbatim>\<open>app/core/llm/\<close>): messages, the model catalog and its prices, the
  response cache, token counting, the context window, the extraction of JSON from an answer, tools,
  and the manager that puts the cache, the limiter, the retry engine and the accounting of requests
  around a provider. A provider is a parameter: what its \<open>i\<close>-th call for a request does. So are the
  digest of a request, the counter in Redis and the clock. The semaphore that bounds concurrent
  calls is not modelled.
\<close>

section \<open>Messages\<close>

datatype chat_role = SYSTEM | USER | ASSISTANT | TOOL | DEVELOPER
datatype stop_reason = END_TURN | MAX_TOKENS | STOP_SEQUENCE | TOOL_USE | REFUSAL | ERROR

fun chat_role_value :: "chat_role \<Rightarrow> string" where
  "chat_role_value SYSTEM = ''system''"
| "chat_role_value USER = ''user''"
| "chat_role_value ASSISTANT = ''assistant''"
| "chat_role_value TOOL = ''tool''"
| "chat_role_value DEVELOPER = ''developer''"

fun stop_reason_value :: "stop_reason \<Rightarrow> string" where
  "stop_reason_value END_TURN = ''end_turn''"
| "stop_reason_value MAX_TOKENS = ''max_tokens''"
| "stop_reason_value STOP_SEQUENCE = ''stop_sequence''"
| "stop_reason_value TOOL_USE = ''tool_use''"
| "stop_reason_value REFUSAL = ''refusal''"
| "stop_reason_value ERROR = ''error''"

definition stop_reason_of :: "string \<Rightarrow> stop_reason option" where
  "stop_reason_of s = List.find (\<lambda>r. stop_reason_value r = s) [END_TURN, MAX_TOKENS, STOP_SEQUENCE, TOOL_USE, REFUSAL, ERROR]"

record model_call =
  mc_id :: string
  mc_name :: string
  mc_arguments :: pydict

record model_result =
  mr_call_id :: string
  mr_content :: string
  mr_is_error :: bool

record chat_message =
  ms_role :: chat_role
  ms_content :: string
  ms_tool_calls :: "model_call list"
  ms_tool_results :: "model_result list"
  ms_name :: "string option"

definition message_of :: "chat_role \<Rightarrow> string \<Rightarrow> chat_message" where
  "message_of r c = \<lparr>ms_role = r, ms_content = c, ms_tool_calls = [], ms_tool_results = [], ms_name = None\<rparr>"

record token_usage =
  us_input :: int
  us_output :: int
  us_cache_read :: int
  us_cache_write :: int

definition no_usage :: token_usage where "no_usage = \<lparr>us_input = 0, us_output = 0, us_cache_read = 0, us_cache_write = 0\<rparr>"

definition total_tokens :: "token_usage \<Rightarrow> int" where "total_tokens u = us_input u + us_output u"

definition usage_add :: "token_usage \<Rightarrow> token_usage \<Rightarrow> token_usage" where
  "usage_add u v = \<lparr>us_input = us_input u + us_input v, us_output = us_output u + us_output v,
     us_cache_read = us_cache_read u + us_cache_read v, us_cache_write = us_cache_write u + us_cache_write v\<rparr>"

record chat_request =
  rq_messages :: "chat_message list"
  rq_model :: string
  rq_max_tokens :: int
  rq_system :: "string option"
  rq_temperature :: "rat option"
  rq_top_p :: "rat option"
  rq_top_k :: "int option"
  rq_stop_sequences :: "string list"
  rq_tools :: "pydict list"
  rq_thinking :: bool
  rq_response_schema :: "pydict option"
  rq_metadata :: "(string, string) dict"

record chat_response =
  rs_content :: string
  rs_model :: string
  rs_stop_reason :: stop_reason
  rs_tool_calls :: "model_call list"
  rs_usage :: token_usage
  rs_raw :: pydict

definition to_message :: "chat_response \<Rightarrow> chat_message" where
  "to_message r = (message_of ASSISTANT (rs_content r))\<lparr>ms_tool_calls := rs_tool_calls r\<rparr>"

record chat_conversation =
  cn_system :: "string option"
  cn_messages :: "chat_message list"

definition conversation_add :: "chat_message \<Rightarrow> chat_conversation \<Rightarrow> chat_conversation" where
  "conversation_add m c = c\<lparr>cn_messages := cn_messages c @ [m]\<rparr>"

definition to_request :: "string \<Rightarrow> int \<Rightarrow> chat_conversation \<Rightarrow> chat_request" where
  "to_request model max_tokens c =
     \<lparr>rq_messages = filter (\<lambda>m. ms_role m \<noteq> SYSTEM) (cn_messages c), rq_model = model, rq_max_tokens = max_tokens,
      rq_system = cn_system c, rq_temperature = None, rq_top_p = None, rq_top_k = None, rq_stop_sequences = [],
      rq_tools = [], rq_thinking = True, rq_response_schema = None, rq_metadata = []\<rparr>"

section \<open>The catalog\<close>

record model_info =
  mi_id :: string
  mi_display_name :: string
  mi_context_window :: int
  mi_max_output :: int
  mi_input_price :: rat         \<comment> \<open>in dollars per million tokens\<close>
  mi_output_price :: rat
  mi_cache_read_price :: rat
  mi_supports_tools :: bool
  mi_supports_images :: bool
  mi_supports_streaming :: bool
  mi_accepts_sampling_params :: bool
  mi_adaptive_thinking_only :: bool

definition priced :: "string \<Rightarrow> string \<Rightarrow> int \<Rightarrow> int \<Rightarrow> rat \<Rightarrow> rat \<Rightarrow> rat \<Rightarrow> model_info" where
  "priced i name window max_output input output cached =
     \<lparr>mi_id = i, mi_display_name = name, mi_context_window = window, mi_max_output = max_output, mi_input_price = input,
      mi_output_price = output, mi_cache_read_price = cached, mi_supports_tools = True, mi_supports_images = True,
      mi_supports_streaming = True, mi_accepts_sampling_params = False, mi_adaptive_thinking_only = True\<rparr>"

definition CATALOG :: "(string, model_info) dict" where
  "CATALOG =
     [(''claude-opus-4-8'', priced ''claude-opus-4-8'' ''Claude Opus 4.8'' 1000000 128000 5 25 (1 / 2)),
      (''claude-opus-4-7'', priced ''claude-opus-4-7'' ''Claude Opus 4.7'' 1000000 128000 5 25 (1 / 2)),
      (''claude-sonnet-5'', priced ''claude-sonnet-5'' ''Claude Sonnet 5'' 1000000 128000 3 15 (3 / 10)),
      (''claude-haiku-4-5'', (priced ''claude-haiku-4-5'' ''Claude Haiku 4.5'' 200000 64000 1 5 (1 / 10))
         \<lparr>mi_adaptive_thinking_only := False, mi_accepts_sampling_params := True\<rparr>)]"

definition DEFAULT_MODEL :: model_info where
  "DEFAULT_MODEL = priced ''unknown'' ''Unknown model'' 200000 8192 5 25 0"

definition get_model_info :: "string \<Rightarrow> model_info" where
  "get_model_info model = (case dict_get CATALOG model of Some i \<Rightarrow> i | None \<Rightarrow> DEFAULT_MODEL\<lparr>mi_id := model\<rparr>)"

definition list_models :: "model_info list" where "list_models = map snd CATALOG"

definition estimate_cost :: "string \<Rightarrow> int \<Rightarrow> int \<Rightarrow> rat" where
  "estimate_cost model input_tokens output_tokens =
     (let info = get_model_info model
      in py_round 6 (of_int input_tokens / 1000000 * mi_input_price info + of_int output_tokens / 1000000 * mi_output_price info))"

section \<open>The response cache\<close>

record llm_settings =
  st_cache_enabled :: bool
  st_cache_ttl :: int
  st_rpm :: int
  st_max_retries :: int
  st_default_provider :: string
  st_default_model :: string
  st_system_prompt :: "string option"
  st_max_tokens :: int
  st_temperature :: "rat option"
  st_top_p :: "rat option"
  st_top_k :: "int option"
  st_adaptive :: bool

type_synonym fingerprint = "string \<times> string option \<times> int \<times> (string \<times> string) list"

definition fingerprint_of :: "chat_request \<Rightarrow> fingerprint" where
  "fingerprint_of r = (rq_model r, rq_system r, rq_max_tokens r, map (\<lambda>m. (chat_role_value (ms_role m), ms_content m)) (rq_messages r))"

definition is_cacheable :: "llm_settings \<Rightarrow> chat_request \<Rightarrow> bool" where
  "is_cacheable st r \<longleftrightarrow> st_cache_enabled st \<and> rq_tools r = [] \<and> rq_response_schema r = None"

definition encode_response :: "chat_response \<Rightarrow> pyval" where
  "encode_response r = PDict
     [(''content'', PStr (rs_content r)), (''model'', PStr (rs_model r)), (''stop_reason'', PStr (stop_reason_value (rs_stop_reason r))),
      (''usage'', PDict [(''input_tokens'', PInt (us_input (rs_usage r))), (''output_tokens'', PInt (us_output (rs_usage r))),
         (''cache_read_tokens'', PInt (us_cache_read (rs_usage r))), (''cache_write_tokens'', PInt (us_cache_write (rs_usage r)))])]"

fun py_field :: "string \<Rightarrow> pyval \<Rightarrow> pyval" where
  "py_field k (PDict d) = (case dict_get d k of None \<Rightarrow> PNone | Some v \<Rightarrow> v)"
| "py_field k _ = PNone"

fun str_value :: "pyval \<Rightarrow> string" where "str_value (PStr s) = s" | "str_value _ = []"
fun int_value :: "pyval \<Rightarrow> int" where "int_value (PInt i) = i" | "int_value _ = 0"

definition decode_response :: "pyval \<Rightarrow> chat_response" where
  "decode_response d =
     (let u = py_field ''usage'' d
      in \<lparr>rs_content = str_value (py_field ''content'' d), rs_model = str_value (py_field ''model'' d),
          rs_stop_reason = (case stop_reason_of (str_value (py_field ''stop_reason'' d)) of Some r \<Rightarrow> r | None \<Rightarrow> ERROR), rs_tool_calls = [],
          rs_usage = \<lparr>us_input = int_value (py_field ''input_tokens'' u), us_output = int_value (py_field ''output_tokens'' u),
             us_cache_read = int_value (py_field ''cache_read_tokens'' u), us_cache_write = int_value (py_field ''cache_write_tokens'' u)\<rparr>,
          rs_raw = []\<rparr>)"

definition get_response :: "llm_settings \<Rightarrow> (fingerprint \<Rightarrow> string) \<Rightarrow> time \<Rightarrow> chat_request \<Rightarrow> memory_cache \<Rightarrow> chat_response option \<times> memory_cache" where
  "get_response st sha now r c =
     (if \<not> is_cacheable st r then (None, c)
      else case cache_get ''ayf'' now ''llm:response'' (sha (fingerprint_of r)) c of
        (v, c') \<Rightarrow> (if v = PNone then None else Some (decode_response v), c'))"

definition set_response :: "llm_settings \<Rightarrow> (fingerprint \<Rightarrow> string) \<Rightarrow> time \<Rightarrow> chat_request \<Rightarrow> chat_response \<Rightarrow> memory_cache \<Rightarrow> memory_cache" where
  "set_response st sha now r resp c =
     (if \<not> is_cacheable st r then c
      else cache_set ''ayf'' now ''llm:response'' (sha (fingerprint_of r)) (encode_response resp) (Some (st_cache_ttl st)) c)"

section \<open>Counting tokens\<close>

definition heuristic_token_count :: "chat_request \<Rightarrow> int" where
  "heuristic_token_count r =
     max ((int (case rq_system r of None \<Rightarrow> 0 | Some s \<Rightarrow> length s) + (\<Sum>m\<leftarrow>rq_messages r. int (length (ms_content m)))) div 4) 1"

definition count_tokens :: "llm_settings \<Rightarrow> (fingerprint \<Rightarrow> string) \<Rightarrow> time \<Rightarrow> (chat_request \<Rightarrow> int option) \<Rightarrow> chat_request \<Rightarrow> memory_cache
    \<Rightarrow> pyval \<times> memory_cache" where
  \<comment> \<open>the provider's count is \<open>None\<close> when it raises\<close>
  "count_tokens st sha now provider_count r c =
     (case cache_get ''ayf'' now ''llm:tokens'' (sha (fingerprint_of r)) c of
        (cached, c') \<Rightarrow>
          if cached \<noteq> PNone then (cached, c')
          else
            let n = (case provider_count r of Some n \<Rightarrow> n | None \<Rightarrow> heuristic_token_count r)
            in (PInt n, cache_set ''ayf'' now ''llm:tokens'' (sha (fingerprint_of r)) (PInt n) (Some (st_cache_ttl st)) c'))"

section \<open>The context window\<close>

definition estimate_messages_tokens :: "chat_message list \<Rightarrow> string option \<Rightarrow> int" where
  "estimate_messages_tokens ms system =
     heuristic_token_count \<lparr>rq_messages = ms, rq_model = [], rq_max_tokens = 4096, rq_system = system, rq_temperature = None,
       rq_top_p = None, rq_top_k = None, rq_stop_sequences = [], rq_tools = [], rq_thinking = True, rq_response_schema = None, rq_metadata = []\<rparr>"

fun trim_loop :: "int \<Rightarrow> chat_message list \<Rightarrow> int \<Rightarrow> chat_message list \<Rightarrow> chat_message list" where
  \<comment> \<open>the messages are visited from the last one on; the kept ones are collected in their order\<close>
  "trim_loop budget kept used [] = kept"
| "trim_loop budget kept used (m # ms) =
     (let cost = estimate_messages_tokens [m] None
      in if used + cost > budget \<and> kept \<noteq> [] then kept else trim_loop budget (m # kept) (used + cost) ms)"

definition trim :: "int \<Rightarrow> chat_message list \<Rightarrow> string option \<Rightarrow> chat_message list" where
  "trim budget ms system = trim_loop budget [] (estimate_messages_tokens [] system) (rev ms)"

definition compress :: "int \<Rightarrow> (chat_message list \<Rightarrow> string) option \<Rightarrow> chat_message list \<Rightarrow> string option \<Rightarrow> chat_message list" where
  "compress budget summarizer ms system =
     (let fitting = trim budget ms system in
      case summarizer of
        None \<Rightarrow> fitting
      | Some summarize \<Rightarrow>
          if length fitting = length ms then fitting
          else message_of SYSTEM (''Summary of earlier conversation:'' @ [CHR 0x0A] @ summarize (take (length ms - length fitting) ms)) # fitting)"

section \<open>Structured answers\<close>

fun cut_at :: "string \<Rightarrow> string \<Rightarrow> (string \<times> string) option" where
  \<comment> \<open>the text before and after the first occurrence\<close>
  "cut_at p [] = (if p = [] then Some ([], []) else None)"
| "cut_at p (c # cs) =
     (if startswith (c # cs) p then Some ([], drop (length p) (c # cs))
      else map_option (\<lambda>(a, b). (c # a, b)) (cut_at p cs))"

definition fence :: string where "fence = replicate 3 (CHR 0x60)"

definition fenced_body :: "string \<Rightarrow> string option" where
  \<comment> \<open>the group of the first match of the fence pattern\<close>
  "fenced_body text =
     (case cut_at fence text of
        None \<Rightarrow> None
      | Some (_, r) \<Rightarrow>
          (case cut_at fence (lstrip (if startswith r ''json'' then drop 4 r else r)) of
             None \<Rightarrow> None
           | Some (body, _) \<Rightarrow> Some (rstrip body)))"

definition opens :: "char \<Rightarrow> bool" where "opens c \<longleftrightarrow> c = CHR ''{'' \<or> c = CHR ''[''"
definition closes :: "char \<Rightarrow> bool" where "closes c \<longleftrightarrow> c = CHR ''}'' \<or> c = CHR '']''"

definition extract_json :: "string \<Rightarrow> string" where
  "extract_json text =
     (case fenced_body text of
        Some body \<Rightarrow> strip body
      | None \<Rightarrow>
          let start = length (takeWhile (\<lambda>c. \<not> opens c) text);       \<comment> \<open>the length if there is none\<close>
              tail = length (takeWhile (\<lambda>c. \<not> closes c) (rev text));  \<comment> \<open>what follows the last one\<close>
              stop = length text - tail                                \<comment> \<open>the position after it\<close>
          in if start < length text \<and> 0 < stop \<and> start < stop - 1
             then strip (take (stop - start) (drop start text)) else strip text)"

section \<open>Tools\<close>

record llm_tool =
  lt_name :: string
  lt_description :: string
  lt_required :: "string list"
  lt_handler :: "pydict \<Rightarrow> string + string"   \<comment> \<open>the message of an exception, or the output\<close>

type_synonym llm_tools = "(string, llm_tool) dict"

definition register_llm_tool :: "llm_tool \<Rightarrow> llm_tools \<Rightarrow> llm_tools" where
  "register_llm_tool t ts = dict_set (lt_name t) t ts"

definition validate_arguments :: "(string list \<Rightarrow> string) \<Rightarrow> llm_tool \<Rightarrow> pydict \<Rightarrow> string + unit" where
  "validate_arguments repr t args =
     (let missing = filter (\<lambda>k. k \<notin> set (keys args)) (lt_required t)
      in if missing \<noteq> [] then Inl (''Missing required arguments: '' @ repr missing) else Inr ())"

definition execute_call :: "(string list \<Rightarrow> string) \<Rightarrow> model_call \<Rightarrow> llm_tools \<Rightarrow> model_result" where
  "execute_call repr call ts =
     (case dict_get ts (mc_name call) of
        None \<Rightarrow> \<lparr>mr_call_id = mc_id call, mr_content = ''Unknown tool: '' @ mc_name call, mr_is_error = True\<rparr>
      | Some t \<Rightarrow>
          (case (case validate_arguments repr t (mc_arguments call) of Inl e \<Rightarrow> Inl e | Inr _ \<Rightarrow> lt_handler t (mc_arguments call)) of
             Inl e \<Rightarrow> \<lparr>mr_call_id = mc_id call, mr_content = ''Tool error: '' @ e, mr_is_error = True\<rparr>
           | Inr output \<Rightarrow> \<lparr>mr_call_id = mc_id call, mr_content = output, mr_is_error = False\<rparr>))"

section \<open>The manager\<close>

record llm_provider =
  pv_slug :: string
  pv_chat :: "chat_request \<Rightarrow> nat \<Rightarrow> chat_response op_result"

datatype llm_exc = ProviderNotAvailable string | LLMRateLimit string | RetryFailed retry_exc

record chat_outcome =
  oc_response :: chat_response
  oc_provider :: string
  oc_cost_usd :: rat
  oc_cache_hit :: bool

record llm_state =
  lm_cache :: memory_cache
  lm_breaker :: circuit_breaker
  lm_metrics :: "metric_event list"

definition record_request :: "string \<Rightarrow> string \<Rightarrow> token_usage \<Rightarrow> bool \<Rightarrow> string option \<Rightarrow> llm_state \<Rightarrow> rat \<times> llm_state" where
  "record_request provider model usage cache_hit error s =
     (let cost = estimate_cost model (us_input usage) (us_output usage);
          outcome = (if truthy error then ''error'' else if cache_hit then ''cache_hit'' else ''success'')
      in (cost, s\<lparr>lm_metrics := lm_metrics s @
           [(MInc, ''llm_requests_total'', [provider, model, outcome], 1),
            (MObserve, ''llm_request_duration_seconds'', [provider, model], 0),
            (MInc, ''llm_tokens_total'', [provider, model, ''input''], of_int (us_input usage)),
            (MInc, ''llm_tokens_total'', [provider, model, ''output''], of_int (us_output usage)),
            (MInc, ''llm_cost_usd_total'', [provider, model], cost)]\<rparr>))"

definition check_rpm :: "llm_settings \<Rightarrow> (string \<Rightarrow> int option) \<Rightarrow> string \<Rightarrow> bool" where
  \<comment> \<open>the request may go on; the counter is \<open>None\<close> when Redis cannot be reached\<close>
  "check_rpm st rpm key =
     (if \<not> st_cache_enabled st then True else (case rpm key of None \<Rightarrow> True | Some n \<Rightarrow> n \<le> st_rpm st))"

definition error_text :: "retry_exc \<Rightarrow> string" where
  "error_text e = (case e of CircuitOpen \<Rightarrow> ''The LLM provider is temporarily unavailable (circuit open).'' | Retryable m \<Rightarrow> m | Fatal m \<Rightarrow> m)"

definition retry_policy_of :: "llm_settings \<Rightarrow> retry_policy" where
  "retry_policy_of st = \<lparr>rp_max_retries = st_max_retries st, rp_base_delay = 1 / 2, rp_max_delay = 8, rp_jitter = 1 / 10\<rparr>"

record llm_env =
  le_settings :: llm_settings
  le_providers :: "(string, llm_provider) dict"
  le_sha :: "fingerprint \<Rightarrow> string"
  le_rpm :: "string \<Rightarrow> int option"
  le_clock :: "nat \<Rightarrow> time"

definition resolve_provider :: "llm_env \<Rightarrow> string option \<Rightarrow> llm_exc + llm_provider" where
  "resolve_provider env slug =
     (let s = (if truthy slug then the slug else st_default_provider (le_settings env))
      in case dict_get (le_providers env) s of
        None \<Rightarrow> Inl (ProviderNotAvailable (''No LLM provider registered for '' @ quoted s @ ''.'')) | Some p \<Rightarrow> Inr p)"

definition manager_chat :: "llm_env \<Rightarrow> time \<Rightarrow> chat_request \<Rightarrow> string option \<Rightarrow> string \<Rightarrow> llm_state \<Rightarrow> (llm_exc + chat_outcome) \<times> llm_state" where
  "manager_chat env now r slug key s =
     (case resolve_provider env slug of
        Inl e \<Rightarrow> (Inl e, s)
      | Inr p \<Rightarrow>
          (case get_response (le_settings env) (le_sha env) now r (lm_cache s) of
             (Some cached, c) \<Rightarrow>
               (let (cost, s') = record_request (pv_slug p) (rq_model r) (rs_usage cached) True None (s\<lparr>lm_cache := c\<rparr>)
                in (Inr \<lparr>oc_response = cached, oc_provider = pv_slug p, oc_cost_usd = cost, oc_cache_hit = True\<rparr>, s'))
           | (None, c) \<Rightarrow>
               if \<not> check_rpm (le_settings env) (le_rpm env) key then (Inl (LLMRateLimit key), s\<lparr>lm_cache := c\<rparr>)
               else
                 (case with_retry (pv_chat p r) (le_clock env) (retry_policy_of (le_settings env)) (pv_slug p) now (lm_breaker s) of
                    ((cb, _), Inl e) \<Rightarrow>
                      (Inl (RetryFailed e), snd (record_request (pv_slug p) (rq_model r) no_usage False (Some (error_text e))
                                                   (s\<lparr>lm_cache := c, lm_breaker := cb\<rparr>)))
                  | ((cb, n), Inr resp) \<Rightarrow>
                      (let c' = set_response (le_settings env) (le_sha env) (le_clock env (n - 1)) r resp c;
                           (cost, s') = record_request (pv_slug p) (rq_model r) (rs_usage resp) False None (s\<lparr>lm_cache := c', lm_breaker := cb\<rparr>)
                       in (Inr \<lparr>oc_response = resp, oc_provider = pv_slug p, oc_cost_usd = cost, oc_cache_hit = False\<rparr>, s')))))"

datatype stream_event = StreamEvent string "chat_response option"

fun final_response :: "stream_event list \<Rightarrow> chat_response option \<Rightarrow> chat_response option" where
  "final_response [] acc = acc"
| "final_response (StreamEvent _ None # es) acc = final_response es acc"
| "final_response (StreamEvent _ (Some r) # es) acc = final_response es (Some r)"

definition manager_stream :: "llm_env \<Rightarrow> stream_event list \<Rightarrow> chat_request \<Rightarrow> string option \<Rightarrow> string \<Rightarrow> llm_state \<Rightarrow> (llm_exc + stream_event list) \<times> llm_state" where
  \<comment> \<open>\<open>events\<close> is what the provider streams, to a reader who takes all of it\<close>
  "manager_stream env events r slug key s =
     (case resolve_provider env slug of
        Inl e \<Rightarrow> (Inl e, s)
      | Inr p \<Rightarrow>
          if \<not> check_rpm (le_settings env) (le_rpm env) key then (Inl (LLMRateLimit key), s)
          else (Inr events,
                case final_response events None of
                  None \<Rightarrow> s
                | Some resp \<Rightarrow> snd (record_request (pv_slug p) (rq_model r) (rs_usage resp) False None s)))"

section \<open>Prices\<close>

lemma get_model_info_prices:
  "\<exists>i j. mi_input_price (get_model_info m) = of_int i \<and> mi_output_price (get_model_info m) = of_int j \<and> 0 \<le> i \<and> i \<le> 5 \<and> 0 \<le> j \<and> j \<le> 25"
proof -
  have "get_model_info m \<in> {DEFAULT_MODEL\<lparr>mi_id := m\<rparr>} \<union> set (map snd CATALOG)"
    by (cases "dict_get CATALOG m") (force simp: get_model_info_def dest: map_of_SomeD)+
  then consider "mi_input_price (get_model_info m) = of_int 5" "mi_output_price (get_model_info m) = of_int 25"
    | "mi_input_price (get_model_info m) = of_int 3" "mi_output_price (get_model_info m) = of_int 15"
    | "mi_input_price (get_model_info m) = of_int 1" "mi_output_price (get_model_info m) = of_int 5"
    by (auto simp: CATALOG_def DEFAULT_MODEL_def priced_def)
  then show ?thesis
  proof cases
    case 1 then show ?thesis by (intro exI [of _ 5] exI [of _ 25]) simp
  next
    case 2 then show ?thesis by (intro exI [of _ 3] exI [of _ 15]) simp
  next
    case 3 then show ?thesis by (intro exI [of _ 1] exI [of _ 5]) simp
  qed
qed

text \<open>
  The estimated cost is exact: with the prices of the catalog, and the default ones of an
  unknown model, rounding to six places loses nothing; so costs add up over requests, and none is
  above 25 dollars per million tokens.
\<close>

theorem estimate_cost_exact:
  assumes "0 \<le> i" and "0 \<le> k"
  shows "estimate_cost m i k = of_int i / 1000000 * mi_input_price (get_model_info m) + of_int k / 1000000 * mi_output_price (get_model_info m)
    \<and> estimate_cost m (i + i') (k + k') = estimate_cost m i k + estimate_cost m i' k'
    \<and> 0 \<le> estimate_cost m i k \<and> estimate_cost m i k \<le> of_int (25 * (i + k)) / 1000000"
proof -
  obtain a b where p: "mi_input_price (get_model_info m) = of_int a" "mi_output_price (get_model_info m) = of_int b"
    and ab: "0 \<le> a" "a \<le> 5" "0 \<le> b" "b \<le> 25"
    using get_model_info_prices [of m] by blast
  have e: "estimate_cost m x y = of_int (x * a + y * b) / 1000000" for x y
  proof -
    have "estimate_cost m x y = of_int (round_half_even (of_int (x * a + y * b))) / 1000000"
    proof -
      have "(of_int x / 1000000 * of_int a + of_int y / 1000000 * of_int b) * 10 ^ 6 = (of_int (x * a + y * b) :: rat)"
        by (simp add: algebra_simps)
      then show ?thesis unfolding estimate_cost_def Let_def py_round_def p by simp
    qed
    then show ?thesis by (simp only: round_half_even_of_int)
  qed
  have "i * a \<le> i * 25" "k * b \<le> k * 25" using assms ab by (auto intro!: mult_left_mono)
  then have "i * a + k * b \<le> 25 * (i + k)" by simp
  then have "(of_int (i * a + k * b) :: rat) \<le> of_int (25 * (i + k))" by (simp only: of_int_le_iff)
  moreover have "0 \<le> i * a + k * b" using assms ab by simp
  then have "(0 :: rat) \<le> of_int (i * a + k * b)" by (simp only: of_int_0_le_iff)
  ultimately show ?thesis
    unfolding e by (simp add: p divide_right_mono) (simp add: field_simps)
qed

section \<open>The window\<close>

lemma one_message_cost: "1 \<le> estimate_messages_tokens ms sys"
  by (simp add: estimate_messages_tokens_def heuristic_token_count_def)

definition costs :: "chat_message list \<Rightarrow> int" where
  "costs ms = (\<Sum>m\<leftarrow>ms. estimate_messages_tokens [m] None)"

lemma trim_loop_spec:
  "\<exists>k. trim_loop budget kept used ms = rev (take k ms) @ kept
     \<and> (ms \<noteq> [] \<longrightarrow> kept = [] \<longrightarrow> 1 \<le> k) \<and> k \<le> length ms
     \<and> ((kept \<noteq> [] \<longrightarrow> used \<le> budget) \<longrightarrow> used + costs (take k ms) \<le> budget \<or> (kept = [] \<and> k \<le> 1) \<or> k = 0)
     \<and> (k < length ms \<longrightarrow> budget < used + costs (take (Suc k) ms) \<and> (kept \<noteq> [] \<or> k \<noteq> 0))"
proof (induction ms arbitrary: kept used)
  case Nil
  show ?case by simp
next
  case (Cons m ms)
  let ?c = "estimate_messages_tokens [m] None"
  show ?case
  proof (cases "used + ?c > budget \<and> kept \<noteq> []")
    case True
    then show ?thesis by (intro exI [of _ 0]) (simp add: Let_def costs_def)
  next
    case False
    from Cons.IH [of "m # kept" "used + ?c"] obtain k where
      k: "trim_loop budget (m # kept) (used + ?c) ms = rev (take k ms) @ m # kept" "k \<le> length ms"
        "used + ?c \<le> budget \<longrightarrow> used + ?c + costs (take k ms) \<le> budget \<or> k = 0"
        "k < length ms \<longrightarrow> budget < used + ?c + costs (take (Suc k) ms)" by auto
    have run: "trim_loop budget kept used (m # ms) = rev (take (Suc k) (m # ms)) @ kept"
      using False k(1) by (auto simp: Let_def)
    have stop: "used + ?c > budget \<Longrightarrow> k = 0"
    proof -
      assume over: "used + ?c > budget"
      have "trim_loop budget (m # kept) (used + ?c) ms = m # kept"
        using over one_message_cost [of "[hd ms]" None] by (cases ms) (auto simp: Let_def)
      with k(1,2) show "k = 0" by auto
    qed
    show ?thesis
    proof (intro exI [of _ "Suc k"] conjI impI)
      show "trim_loop budget kept used (m # ms) = rev (take (Suc k) (m # ms)) @ kept" by (rule run)
      show "Suc k \<le> length (m # ms)" using k(2) by simp
      show "used + costs (take (Suc k) (m # ms)) \<le> budget \<or> (kept = [] \<and> Suc k \<le> 1) \<or> Suc k = 0"
      proof (cases "used + ?c \<le> budget")
        case True
        with k(3) show ?thesis by (auto simp: costs_def)
      next
        case False': False
        with stop False show ?thesis by auto
      qed
      show "budget < used + costs (take (Suc (Suc k)) (m # ms))" if "Suc k < length (m # ms)"
        using k(4) that by (simp add: costs_def)
    qed simp_all
  qed
qed

text \<open>
  Trimming a conversation keeps its longest end that fits: the result is a suffix of the
  messages; it fits the budget, the system prompt included, unless it is the last message alone;
  and when something was dropped, the message before it would not have fitted.
\<close>

theorem trim_window:
  "\<exists>older. ms = older @ trim budget ms sys
    \<and> (ms \<noteq> [] \<longrightarrow> trim budget ms sys \<noteq> [])
    \<and> (estimate_messages_tokens [] sys + costs (trim budget ms sys) \<le> budget \<or> length (trim budget ms sys) \<le> 1)
    \<and> (older \<noteq> [] \<longrightarrow> budget < estimate_messages_tokens [] sys + costs (List.last older # trim budget ms sys))"
proof -
  let ?u = "estimate_messages_tokens [] sys"
  from trim_loop_spec [of budget "[]" ?u "rev ms"] obtain k where
    k: "trim budget ms sys = rev (take k (rev ms))" "ms \<noteq> [] \<longrightarrow> 1 \<le> k" "k \<le> length ms"
      "?u + costs (take k (rev ms)) \<le> budget \<or> k \<le> 1"
      "k < length ms \<longrightarrow> budget < ?u + costs (take (Suc k) (rev ms))"
    unfolding trim_def by auto
  have sfx: "trim budget ms sys = drop (length ms - k) ms" using k(1,3) by (simp add: take_rev)
  have rc: "costs (rev xs) = costs xs" for xs
    by (simp add: costs_def rev_map [symmetric])
  show ?thesis
  proof (intro exI [of _ "take (length ms - k) ms"] conjI impI)
    show "ms = take (length ms - k) ms @ trim budget ms sys" by (simp add: sfx)
    show "trim budget ms sys \<noteq> []" if "ms \<noteq> []" using k(2,3) that by (auto simp: sfx)
    show "?u + costs (trim budget ms sys) \<le> budget \<or> length (trim budget ms sys) \<le> 1"
      using k(4) by (auto simp: k(1) rc)
    assume "take (length ms - k) ms \<noteq> []"
    then have lt: "k < length ms" by auto
    have "take (Suc k) (rev ms) = take k (rev ms) @ [ms ! (length ms - Suc k)]"
      using lt by (simp add: take_Suc_conv_app_nth rev_nth)
    moreover have "List.last (take (length ms - k) ms) = ms ! (length ms - Suc k)"
      using lt by (subst last_conv_nth) auto
    ultimately have "take (Suc k) (rev ms) = rev (List.last (take (length ms - k) ms) # trim budget ms sys)"
      by (simp add: k(1))
    with k(5) lt rc show "budget < ?u + costs (List.last (take (length ms - k) ms) # trim budget ms sys)" by metis
  qed
qed

section \<open>Recovering JSON\<close>

definition backtick :: char where "backtick = CHR 0x60"

lemma fence_backticks: "fence = [backtick, backtick, backtick]"
  by (simp add: fence_def backtick_def numeral_3_eq_3)

lemma not_fence: "c \<noteq> backtick \<Longrightarrow> \<not> startswith (c # cs) fence"
  by (simp add: startswith_def fence_backticks)

lemma cut_at_none: "backtick \<notin> set s \<Longrightarrow> cut_at fence s = None"
  by (induction s) (auto simp: not_fence, simp add: fence_backticks)

lemma cut_at_first: "backtick \<notin> set a \<Longrightarrow> cut_at fence (a @ fence @ b) = Some (a, b)"
proof (induction a)
  case Nil
  then show ?case by (simp add: fence_backticks startswith_def)
next
  case (Cons c a)
  then show ?case by (auto simp: not_fence)
qed

lemma space_backtick [simp]: "\<not> is_space backtick"
  by (simp add: is_space_def backtick_def)

lemma lstrip_fence: "lstrip (b @ fence @ r) = lstrip b @ fence @ r"
  by (auto simp: lstrip_def dropWhile_append fence_backticks dropWhile_eq_Nil_conv)

lemma lstrip_rstrip: "lstrip (rstrip (lstrip s)) = rstrip (lstrip s)"
proof (cases "lstrip s")
  case (Cons c cs)
  then have c: "\<not> is_space c" by (auto simp: lstrip_def dropWhile_eq_Cons_conv)
  have "rstrip (c # cs) = c # rev (dropWhile is_space (rev cs))"
    using c by (auto simp: rstrip_def dropWhile_append)
  with Cons c show ?thesis by (simp add: lstrip_def)
next
  case Nil
  show ?thesis unfolding Nil by (simp add: rstrip_def lstrip_def)
qed

lemma strip_idem: "strip (strip s) = strip s"
proof -
  have "rstrip (rstrip x) = rstrip x" for x by (simp add: rstrip_def dropWhile_idem)
  then show ?thesis by (simp add: strip_def lstrip_rstrip)
qed

lemma strip_edges:
  assumes "\<not> is_space c" and "\<not> is_space d" shows "strip (c # m @ [d]) = c # m @ [d]"
  using assms by (simp add: strip_def lstrip_def rstrip_def)

text \<open>
  The JSON of an answer is recovered from what models put around it: from the first code fence,
  and without one, prose before the first and after the last bracket is cut off.
\<close>

theorem extract_json_recovers:
  assumes "backtick \<notin> set (before @ body)" and "\<not> list_ex opens before'" and "\<not> list_ex closes after'"
    and "opens c" and "closes d" and "backtick \<notin> set (before' @ c # m @ [d] @ after')"
  shows "extract_json (before @ fence @ ''json'' @ body @ fence @ after) = strip body
    \<and> extract_json (before' @ c # m @ [d] @ after') = c # m @ [d]"
proof (rule conjI)
  have "fenced_body (before @ fence @ ''json'' @ body @ fence @ after) = Some (rstrip (lstrip body))"
  proof -
    have "cut_at fence (before @ fence @ ''json'' @ body @ fence @ after) = Some (before, ''json'' @ body @ fence @ after)"
      using assms(1) by (intro cut_at_first) simp
    moreover have "cut_at fence (lstrip (body @ fence @ after)) = Some (lstrip body, after)"
      unfolding lstrip_fence using assms(1) by (intro cut_at_first) (auto simp: lstrip_def dest: set_dropWhileD)
    ultimately show ?thesis by (simp add: fenced_body_def startswith_def)
  qed
  then show "extract_json (before @ fence @ ''json'' @ body @ fence @ after) = strip body"
    using strip_idem [of body] by (simp add: extract_json_def strip_def)
next
  let ?t = "before' @ c # m @ [d] @ after'"
  have "fenced_body ?t = None" using cut_at_none [OF assms(6)] by (simp add: fenced_body_def)
  moreover have "takeWhile (\<lambda>c. \<not> opens c) ?t = before'"
    using assms(2,4) by (subst takeWhile_append2) (auto simp: list_ex_iff)
  moreover have "takeWhile (\<lambda>c. \<not> closes c) (rev ?t) = rev after'"
    using assms(3,5) by (simp, subst takeWhile_append2) (auto simp: list_ex_iff)
  moreover have "strip (c # m @ [d]) = c # m @ [d]"
    using assms(4,5) by (intro strip_edges) (auto simp: opens_def closes_def is_space_def)
  ultimately show "extract_json ?t = c # m @ [d]" by (simp add: extract_json_def Let_def)
qed

section \<open>The response cache\<close>

lemma stop_reason_roundtrip: "stop_reason_of (stop_reason_value r) = Some r"
  by (cases r) (simp_all add: stop_reason_of_def)

lemma decode_encode: "decode_response (json_form (encode_response r)) = r\<lparr>rs_tool_calls := [], rs_raw := []\<rparr>"
  by (simp add: decode_response_def encode_response_def Let_def stop_reason_roundtrip)

lemma encode_not_none [simp]: "json_form (encode_response r) \<noteq> PNone" "PNone \<noteq> json_form (encode_response r)"
  by (simp_all add: encode_response_def)

lemma response_cached:
  assumes "is_cacheable st r" and "is_cacheable st r'" and "fingerprint_of r' = fingerprint_of r" and "t \<le> u + seconds (st_cache_ttl st)"
  shows "\<exists>c'. get_response st sha t r' (set_response st sha u r resp c) = (Some (resp\<lparr>rs_tool_calls := [], rs_raw := []\<rparr>), c')"
proof -
  let ?k = "sha (fingerprint_of r)"
  let ?c = "cache_set ''ayf'' u ''llm:response'' ?k (encode_response resp) (Some (st_cache_ttl st)) c"
  have "fst (cache_get ''ayf'' t ''llm:response'' ?k ?c) = json_form (encode_response resp)"
    using assms(4) by (auto simp: cache_get_def cache_set_def cache_write_def cache_read_def)
  then show ?thesis
    using assms(1-3) by (auto simp: get_response_def set_response_def decode_encode split: prod.splits)
qed

lemma manager_chat_fresh:
  assumes "manager_chat env now r slug key s = (Inr oc, s')" and "\<not> oc_cache_hit oc"
  shows "\<exists>n c. lm_cache s' = set_response (le_settings env) (le_sha env) (le_clock env n) r (oc_response oc) c"
  using assms
  by (auto simp: manager_chat_def record_request_def Let_def split: sum.splits prod.splits option.splits if_splits) blast+

lemma manager_chat_hit:
  assumes "get_response (le_settings env) (le_sha env) now r (lm_cache s) = (Some resp, c)" and "resolve_provider env slug = Inr p"
  shows "\<exists>s'. manager_chat env now r slug key s = (Inr \<lparr>oc_response = resp, oc_provider = pv_slug p,
      oc_cost_usd = estimate_cost (rq_model r) (us_input (rs_usage resp)) (us_output (rs_usage resp)), oc_cache_hit = True\<rparr>, s')
    \<and> lm_breaker s' = lm_breaker s"
  using assms by (simp add: manager_chat_def record_request_def Let_def)


section \<open>What the cache and the limiter look at\<close>

text \<open>
  The fingerprint has neither the provider, the sampling parameters nor the results of tools: a
  conversation whose tools returned something else gets the same answer.
\<close>

theorem tool_results_not_in_key:
  "fingerprint_of (r\<lparr>rq_messages := map (\<lambda>m. m\<lparr>ms_tool_results := f m, ms_tool_calls := g m\<rparr>) (rq_messages r), rq_temperature := t\<rparr>)
     = fingerprint_of r"
  by (simp add: fingerprint_of_def comp_def)

text \<open>The tools are not in the key of a token count either, and the count is not tied to \<open>is_cacheable\<close>.\<close>

theorem tools_not_counted:
  assumes "cache_get ''ayf'' now ''llm:tokens'' (sha (fingerprint_of r)) c = (PInt n, c')"
  shows "count_tokens st sha now pc (r\<lparr>rq_tools := ts\<rparr>) c = (PInt n, c')"
  using assms by (simp add: count_tokens_def fingerprint_of_def)

text \<open>Turning the cache off turns the limit on requests per minute off.\<close>

theorem no_cache_no_limit: "\<not> st_cache_enabled st \<Longrightarrow> check_rpm st rpm key"
  by (simp add: check_rpm_def)

text \<open>An exception without a message is counted as a success.\<close>

theorem silent_error_is_success:
  "(MInc, ''llm_requests_total'', [p, m, ''success''], 1) \<in> set (lm_metrics (snd (record_request p m u False (Some []) s)))"
  by (simp add: record_request_def Let_def truthy_def)

section \<open>Witnesses\<close>

theorem estimate_cost_exact_witness: "estimate_cost ''claude-sonnet-5'' 7 3 = 66 / 1000000"
proof -
  have "get_model_info ''claude-sonnet-5'' = priced ''claude-sonnet-5'' ''Claude Sonnet 5'' 1000000 128000 3 15 (3 / 10)"
    by (simp add: get_model_info_def CATALOG_def)
  with estimate_cost_exact [of 7 3 "''claude-sonnet-5''"] show ?thesis by (simp add: priced_def)
qed

theorem extract_json_recovers_witness:
  "extract_json (''Sure: '' @ fence @ ''json'' @ '' [1] '' @ fence @ ''.'') = strip '' [1] '' \<and> extract_json ''It is {1}, ok'' = ''{1}''"
  using extract_json_recovers [of "''Sure: ''" "'' [1] ''" "''It is ''" "'', ok''" "CHR ''{''" "CHR ''}''" "''1''" "''.''"]
  by (simp add: opens_def closes_def backtick_def)

definition sample_settings :: llm_settings where
  "sample_settings = \<lparr>st_cache_enabled = True, st_cache_ttl = 9, st_rpm = 1, st_max_retries = 0, st_default_provider = ''m'',
     st_default_model = ''x'', st_system_prompt = None, st_max_tokens = 5, st_temperature = None, st_top_p = None, st_top_k = None, st_adaptive = True\<rparr>"

definition sample_answer :: chat_response where
  "sample_answer = \<lparr>rs_content = ''hi'', rs_model = ''x'', rs_stop_reason = END_TURN, rs_tool_calls = [], rs_usage = no_usage, rs_raw = []\<rparr>"

definition sample_provider :: llm_provider where
  "sample_provider = \<lparr>pv_slug = ''m'', pv_chat = (\<lambda>_ _. Op_Ok sample_answer)\<rparr>"

definition sample_llm :: llm_env where
  "sample_llm = \<lparr>le_settings = sample_settings, le_providers = [(''m'', sample_provider)], le_sha = (\<lambda>_. ''h''), le_rpm = (\<lambda>_. Some 1), le_clock = (\<lambda>_. 0)\<rparr>"

definition sample_request :: chat_request where
  "sample_request = to_request ''x'' 5 \<lparr>cn_system = None, cn_messages = [message_of USER ''hello'']\<rparr>"

definition fresh_llm :: llm_state where "fresh_llm = \<lparr>lm_cache = [], lm_breaker = breaker_init, lm_metrics = []\<rparr>"


end
