(* ===== verification/LLM_Service.thy ===== *)
theory LLM_Service
  imports LLM_Core Repository
begin

text \<open>
  The services over the LLM layer (\<^verbatim>\<open>app/services/llm/\<close>): accounting with its daily rollups, the
  summaries read from them, persisted conversations, versioned prompts, and the entry point that
  runs a turn, a structured answer with its retries, and a stream. The template engine and the
  validation of an answer against its model are parameters; amounts of money are exact.
\<close>

section \<open>Rows\<close>

datatype request_status = RS_SUCCEEDED | RS_FAILED | RS_STREAMED
datatype prompt_status = PS_DRAFT | PS_ACTIVE | PS_ARCHIVED

record prompt_template = entity +
  pt_organization_id :: nat
  pt_name :: string
  pt_category :: "string option"
  pt_description :: "string option"
  pt_tags :: "string list"
  pt_status :: prompt_status
  pt_latest_version :: int
  pt_created_by :: "nat option"
  pt_updated_by :: "nat option"

record prompt_version = entity +
  pn_template_id :: nat
  pn_number :: int
  pn_template :: string
  pn_variables :: "pydict list"
  pn_examples :: "pydict list"
  pn_created_by :: "nat option"

record llm_conversation = entity +
  cv_organization_id :: nat
  cv_user_id :: "nat option"
  cv_title :: "string option"
  cv_model :: string
  cv_system :: "string option"

record conversation_message = entity +
  cm_conversation_id :: nat
  cm_sequence :: int
  cm_role :: chat_role
  cm_content :: string
  cm_tool_calls :: "pydict list"
  cm_tokens :: int
  cm_created_by :: "nat option"

record request_ids =
  ri_organization_id :: "nat option"
  ri_user_id :: "nat option"
  ri_project_id :: "nat option"
  ri_agent_id :: "nat option"
  ri_conversation_id :: "nat option"

record llm_request = entity +
  lq_ids :: request_ids
  lq_provider :: string
  lq_model :: string
  lq_status :: request_status
  lq_input_tokens :: int
  lq_output_tokens :: int
  lq_cached_tokens :: int
  lq_total_tokens :: int
  lq_cost_usd :: rat
  lq_streamed :: bool
  lq_cache_hit :: bool

record usage_rollup = entity +
  ur_organization_id :: "nat option"
  ur_usage_date :: int
  ur_model :: string
  ur_input_tokens :: int
  ur_output_tokens :: int
  ur_total_tokens :: int
  ur_request_count :: int

record cost_rollup = entity +
  cr_organization_id :: "nat option"
  cr_cost_date :: int
  cr_model :: string
  cr_input_cost_usd :: rat
  cr_output_cost_usd :: rat
  cr_total_cost_usd :: rat

record llm_db =
  ld_templates :: "unit prompt_template_ext table"
  ld_versions :: "unit prompt_version_ext table"
  ld_conversations :: "unit llm_conversation_ext table"
  ld_messages :: "unit conversation_message_ext table"
  ld_requests :: "unit llm_request_ext table"
  ld_usage :: "unit usage_rollup_ext table"
  ld_costs :: "unit cost_rollup_ext table"

section \<open>Accounting\<close>

definition usage_row_for :: "nat option \<Rightarrow> int \<Rightarrow> string \<Rightarrow> unit usage_rollup_ext table \<Rightarrow> usage_rollup option" where
  "usage_row_for g day m t = row_by (\<lambda>u. ur_organization_id u = g \<and> ur_usage_date u = day \<and> ur_model u = m) t"

definition cost_row_for :: "nat option \<Rightarrow> int \<Rightarrow> string \<Rightarrow> unit cost_rollup_ext table \<Rightarrow> cost_rollup option" where
  "cost_row_for g day m t = row_by (\<lambda>c. cr_organization_id c = g \<and> cr_cost_date c = day \<and> cr_model c = m) t"

definition add_usage :: "token_usage \<Rightarrow> usage_rollup \<Rightarrow> usage_rollup" where
  "add_usage us u = u\<lparr>ur_input_tokens := ur_input_tokens u + us_input us, ur_output_tokens := ur_output_tokens u + us_output us,
     ur_total_tokens := ur_total_tokens u + total_tokens us, ur_request_count := ur_request_count u + 1\<rparr>"

definition input_cost :: "string \<Rightarrow> int \<Rightarrow> rat" where
  "input_cost m n = of_int n / 1000000 * mi_input_price (get_model_info m)"

definition output_cost :: "string \<Rightarrow> int \<Rightarrow> rat" where
  "output_cost m n = of_int n / 1000000 * mi_output_price (get_model_info m)"

definition add_cost :: "string \<Rightarrow> token_usage \<Rightarrow> rat \<Rightarrow> cost_rollup \<Rightarrow> cost_rollup" where
  "add_cost m us cost c = c\<lparr>cr_input_cost_usd := cr_input_cost_usd c + input_cost m (us_input us),
     cr_output_cost_usd := cr_output_cost_usd c + output_cost m (us_output us), cr_total_cost_usd := cr_total_cost_usd c + cost\<rparr>"

definition roll_up :: "time \<Rightarrow> nat option \<Rightarrow> string \<Rightarrow> token_usage \<Rightarrow> rat \<Rightarrow> llm_db \<Rightarrow> llm_db" where
  "roll_up now g m us cost db =
     (let today = date_of now;
          ut = (case usage_row_for g today m (ld_usage db) of
                  Some u \<Rightarrow> repo_put (add_usage us u) (ld_usage db)
                | None \<Rightarrow> snd (repo_add (add_usage us \<lparr>ent_id = 0, created_at = now, deleted_at = None, ur_organization_id = g, ur_usage_date = today,
                    ur_model = m, ur_input_tokens = 0, ur_output_tokens = 0, ur_total_tokens = 0, ur_request_count = 0\<rparr>) (ld_usage db)));
          ct = (case cost_row_for g today m (ld_costs db) of
                  Some c \<Rightarrow> repo_put (add_cost m us cost c) (ld_costs db)
                | None \<Rightarrow> snd (repo_add (add_cost m us cost \<lparr>ent_id = 0, created_at = now, deleted_at = None, cr_organization_id = g, cr_cost_date = today,
                    cr_model = m, cr_input_cost_usd = 0, cr_output_cost_usd = 0, cr_total_cost_usd = 0\<rparr>) (ld_costs db)))
      in db\<lparr>ld_usage := ut, ld_costs := ct\<rparr>)"

definition record_outcome :: "time \<Rightarrow> chat_outcome \<Rightarrow> request_ids \<Rightarrow> bool \<Rightarrow> llm_db \<Rightarrow> llm_request \<times> llm_db" where
  "record_outcome now oc ids streamed db =
     (let us = rs_usage (oc_response oc); m = rs_model (oc_response oc);
          (r, t) = repo_add \<lparr>ent_id = 0, created_at = now, deleted_at = None, lq_ids = ids, lq_provider = oc_provider oc, lq_model = m,
             lq_status = (if streamed then RS_STREAMED else RS_SUCCEEDED), lq_input_tokens = us_input us, lq_output_tokens = us_output us,
             lq_cached_tokens = us_cache_read us, lq_total_tokens = total_tokens us, lq_cost_usd = oc_cost_usd oc,
             lq_streamed = streamed, lq_cache_hit = oc_cache_hit oc\<rparr> (ld_requests db)
      in (r, roll_up now (ri_organization_id ids) m us (oc_cost_usd oc) (db\<lparr>ld_requests := t\<rparr>)))"

section \<open>Summaries\<close>

record usage_summary =
  us_input_tokens :: int
  us_output_tokens :: int
  us_total_tokens :: int
  us_request_count :: int

record cost_summary =
  cs_input_cost_usd :: rat
  cs_output_cost_usd :: rat
  cs_total_cost_usd :: rat

definition if_usage :: "nat option \<Rightarrow> int \<Rightarrow> int \<Rightarrow> (usage_rollup \<Rightarrow> int) \<Rightarrow> usage_rollup \<Rightarrow> int" where
  "if_usage g a b f u = (if ur_organization_id u = g \<and> a \<le> ur_usage_date u \<and> ur_usage_date u \<le> b then f u else 0)"

definition if_cost :: "nat option \<Rightarrow> int \<Rightarrow> int \<Rightarrow> (cost_rollup \<Rightarrow> rat) \<Rightarrow> cost_rollup \<Rightarrow> rat" where
  "if_cost g a b f c = (if cr_organization_id c = g \<and> a \<le> cr_cost_date c \<and> cr_cost_date c \<le> b then f c else 0)"

definition summarize_usage :: "nat option \<Rightarrow> int \<Rightarrow> int \<Rightarrow> llm_db \<Rightarrow> usage_summary" where
  "summarize_usage g a b db =
     \<lparr>us_input_tokens = sum_rows (if_usage g a b ur_input_tokens) (ld_usage db),
      us_output_tokens = sum_rows (if_usage g a b ur_output_tokens) (ld_usage db),
      us_total_tokens = sum_rows (if_usage g a b ur_total_tokens) (ld_usage db),
      us_request_count = sum_rows (if_usage g a b ur_request_count) (ld_usage db)\<rparr>"

definition summarize_cost :: "nat option \<Rightarrow> int \<Rightarrow> int \<Rightarrow> llm_db \<Rightarrow> cost_summary" where
  "summarize_cost g a b db =
     \<lparr>cs_input_cost_usd = sum_rows (if_cost g a b cr_input_cost_usd) (ld_costs db),
      cs_output_cost_usd = sum_rows (if_cost g a b cr_output_cost_usd) (ld_costs db),
      cs_total_cost_usd = sum_rows (if_cost g a b cr_total_cost_usd) (ld_costs db)\<rparr>"

section \<open>Conversations\<close>

definition create_conversation :: "time \<Rightarrow> llm_settings \<Rightarrow> nat \<Rightarrow> nat \<Rightarrow> string option \<Rightarrow> string option \<Rightarrow> string option \<Rightarrow> llm_db
    \<Rightarrow> llm_conversation \<times> llm_db" where
  "create_conversation now st g actor m system title db =
     (let (c, t) = repo_add \<lparr>ent_id = 0, created_at = now, deleted_at = None, cv_organization_id = g, cv_user_id = Some actor,
             cv_title = title, cv_model = (if truthy m then the m else st_default_model st), cv_system = system\<rparr> (ld_conversations db)
      in (c, db\<lparr>ld_conversations := t\<rparr>))"

definition conversation_or_404 :: "nat \<Rightarrow> llm_db \<Rightarrow> llm_conversation db_result" where
  "conversation_or_404 i db =
     (case repo_get i (ld_conversations db) of
        Some c \<Rightarrow> if is_deleted c then raise_app NotFoundError ''Conversation not found.'' else Inr c
      | None \<Rightarrow> raise_app NotFoundError ''Conversation not found.'')"

definition messages_of :: "nat \<Rightarrow> llm_db \<Rightarrow> conversation_message list" where
  "messages_of c db = sort_key cm_sequence (filter (\<lambda>m. cm_conversation_id m = c) (all_rows (ld_messages db)))"

definition next_sequence :: "nat \<Rightarrow> llm_db \<Rightarrow> int" where
  "next_sequence c db = (case rev (messages_of c db) of [] \<Rightarrow> 0 | m # _ \<Rightarrow> cm_sequence m) + 1"

definition append_message :: "time \<Rightarrow> nat \<Rightarrow> chat_role \<Rightarrow> string \<Rightarrow> nat option \<Rightarrow> int \<Rightarrow> llm_db \<Rightarrow> conversation_message \<times> llm_db" where
  "append_message now c r content actor tokens db =
     (let (m, t) = repo_add \<lparr>ent_id = 0, created_at = now, deleted_at = None, cm_conversation_id = c, cm_sequence = next_sequence c db,
             cm_role = r, cm_content = content, cm_tool_calls = [], cm_tokens = tokens, cm_created_by = actor\<rparr> (ld_messages db)
      in (m, db\<lparr>ld_messages := t\<rparr>))"

definition load_runtime :: "nat \<Rightarrow> llm_db \<Rightarrow> chat_conversation db_result" where
  "load_runtime c db =
     (case conversation_or_404 c db of
        Inl e \<Rightarrow> Inl e
      | Inr row \<Rightarrow> Inr (fold (\<lambda>m. conversation_add (message_of (cm_role m) (cm_content m))) (messages_of c db)
                           \<lparr>cn_system = cv_system row, cn_messages = []\<rparr>))"

section \<open>Prompts\<close>

datatype prompt_exc = PromptDb db_exc | PromptRender string "string list" | NoName

record prompt_variable =
  vr_name :: string
  vr_required :: pyval
  vr_default :: pyval

definition variable_of :: "pydict \<Rightarrow> prompt_exc + prompt_variable" where
  \<comment> \<open>\<open>v["name"]\<close> is a \<open>KeyError\<close> when it is missing\<close>
  "variable_of v =
     (case dict_get v ''name'' of
        Some (PStr n) \<Rightarrow> Inr \<lparr>vr_name = n, vr_required = (case dict_get v ''required'' of None \<Rightarrow> PBool True | Some r \<Rightarrow> r),
                            vr_default = (case dict_get v ''default'' of None \<Rightarrow> PNone | Some d \<Rightarrow> d)\<rparr>
      | _ \<Rightarrow> Inl NoName)"

fun variables_of :: "pydict list \<Rightarrow> prompt_exc + prompt_variable list" where
  "variables_of [] = Inr []"
| "variables_of (v # vs) =
     (case variable_of v of Inl e \<Rightarrow> Inl e
      | Inr x \<Rightarrow> (case variables_of vs of Inl e \<Rightarrow> Inl e | Inr xs \<Rightarrow> Inr (x # xs)))"

fun resolve_context :: "prompt_variable list \<Rightarrow> pydict \<Rightarrow> pydict \<times> string list" where
  \<comment> \<open>the resolved context and the missing variables\<close>
  "resolve_context [] ctx = (ctx, [])"
| "resolve_context (v # vs) ctx =
     (if dict_get ctx (vr_name v) \<noteq> None then resolve_context vs ctx
      else if vr_default v \<noteq> PNone then resolve_context vs (dict_set (vr_name v) (vr_default v) ctx)
      else (let (ctx', missing) = resolve_context vs ctx
            in (ctx', if py_truth (vr_required v) then vr_name v # missing else missing)))"

definition validate_context :: "prompt_variable list \<Rightarrow> pydict \<Rightarrow> prompt_exc + pydict" where
  "validate_context vs ctx =
     (case resolve_context vs ctx of (ctx', missing) \<Rightarrow>
        if missing \<noteq> [] then Inl (PromptRender ''Missing required prompt variables.'' missing) else Inr ctx')"

definition versions_of :: "nat \<Rightarrow> llm_db \<Rightarrow> prompt_version list" where
  "versions_of i db = sorted_desc pn_number (filter (\<lambda>v. pn_template_id v = i) (all_rows (ld_versions db)))"

definition version_row :: "nat \<Rightarrow> int \<Rightarrow> llm_db \<Rightarrow> prompt_version option" where
  "version_row i n db = find_by (\<lambda>v. pn_template_id v = i \<and> pn_number v = n) (ld_versions db)"

definition add_version :: "(string \<Rightarrow> pydict \<Rightarrow> string + string) \<Rightarrow> time \<Rightarrow> nat \<Rightarrow> string \<Rightarrow> nat \<Rightarrow> pydict list \<Rightarrow> pydict list \<Rightarrow> llm_db
    \<Rightarrow> (prompt_exc + prompt_version) \<times> llm_db" where
  \<comment> \<open>the engine renders the template with an empty context, and what it raises is suppressed\<close>
  "add_version engine now i template actor variables examples db =
     (case repo_get i (ld_templates db) of
        None \<Rightarrow> (Inl (PromptDb (App (app_error_init NotFoundError (Some ''Prompt template not found.'')))), db)
      | Some p \<Rightarrow>
          if is_deleted p then (Inl (PromptDb (App (app_error_init NotFoundError (Some ''Prompt template not found.'')))), db)
          else
            let _ = engine template [];
                n = (case versions_of i db of [] \<Rightarrow> 1 | v # _ \<Rightarrow> pn_number v + 1);
                (v, t) = repo_add \<lparr>ent_id = 0, created_at = now, deleted_at = None, pn_template_id = i, pn_number = n, pn_template = template,
                   pn_variables = variables, pn_examples = examples, pn_created_by = Some actor\<rparr> (ld_versions db)
            in (Inr v, db\<lparr>ld_versions := t,
                  ld_templates := repo_put (p\<lparr>pt_latest_version := n, pt_updated_by := Some actor\<rparr>) (ld_templates db)\<rparr>))"

definition create_template :: "(string \<Rightarrow> pydict \<Rightarrow> string + string) \<Rightarrow> time \<Rightarrow> nat \<Rightarrow> string \<Rightarrow> string \<Rightarrow> nat \<Rightarrow> string option \<Rightarrow> string option
    \<Rightarrow> pydict list \<Rightarrow> string list \<Rightarrow> llm_db \<Rightarrow> (prompt_exc + prompt_template \<times> prompt_version) \<times> llm_db" where
  \<comment> \<open>the name is unique in an organization, among removed rows too\<close>
  "create_template engine now g name template actor category description variables tags db =
     (if find_by (\<lambda>p. pt_organization_id p = g \<and> pt_name p = name) (ld_templates db) \<noteq> None
      then (Inl (PromptDb (App (app_error_init ConflictError (Some (''A prompt named '' @ quoted name @ '' already exists.''))))), db)
      else if list_ex (\<lambda>p. pt_organization_id p = g \<and> pt_name p = name) (all_rows (ld_templates db))
      then (Inl (PromptDb (IntegrityError ''uq_prompt_org_name'')), db)
      else
        let (p, t) = repo_add \<lparr>ent_id = 0, created_at = now, deleted_at = None, pt_organization_id = g, pt_name = name, pt_category = category,
               pt_description = description, pt_tags = tags, pt_status = PS_ACTIVE, pt_latest_version = 0,
               pt_created_by = Some actor, pt_updated_by = Some actor\<rparr> (ld_templates db)
        in case add_version engine now (ent_id p) template actor variables [] (db\<lparr>ld_templates := t\<rparr>) of
          (Inl e, db') \<Rightarrow> (Inl e, db')
        | (Inr v, db') \<Rightarrow> (Inr (the (repo_get (ent_id p) (ld_templates db')), v), db'))"

definition render_prompt :: "(string \<Rightarrow> pydict \<Rightarrow> string + string) \<Rightarrow> nat \<Rightarrow> pydict \<Rightarrow> int option \<Rightarrow> llm_db \<Rightarrow> prompt_exc + string" where
  "render_prompt engine i ctx version db =
     (case repo_get i (ld_templates db) of
        None \<Rightarrow> Inl (PromptDb (App (app_error_init NotFoundError (Some ''Prompt template not found.''))))
      | Some p \<Rightarrow>
          let n = (case version of None \<Rightarrow> pt_latest_version p | Some v \<Rightarrow> if v = 0 then pt_latest_version p else v) in
          (case version_row i n db of
             None \<Rightarrow> Inl (PromptDb (App (app_error_init NotFoundError (Some (''Prompt version '' @ int_digits n @ '' not found.'')))))
           | Some row \<Rightarrow>
               (case variables_of (pn_variables row) of
                  Inl e \<Rightarrow> Inl e
                | Inr vs \<Rightarrow>
                    (case validate_context vs ctx of
                       Inl e \<Rightarrow> Inl e
                     | Inr resolved \<Rightarrow>
                         (case engine (pn_template row) resolved of
                            Inl e \<Rightarrow> Inl (PromptRender (''Failed to render prompt '' @ quoted (pt_name p) @ '': '' @ e) []) | Inr s \<Rightarrow> Inr s)))))"

definition rollback :: "(string \<Rightarrow> pydict \<Rightarrow> string + string) \<Rightarrow> time \<Rightarrow> nat \<Rightarrow> int \<Rightarrow> nat \<Rightarrow> llm_db \<Rightarrow> (prompt_exc + prompt_version) \<times> llm_db" where
  "rollback engine now i to_version actor db =
     (case version_row i to_version db of
        None \<Rightarrow> (Inl (PromptDb (App (app_error_init NotFoundError (Some (''Prompt version '' @ int_digits to_version @ '' not found.''))))), db)
      | Some src \<Rightarrow> add_version engine now i (pn_template src) actor (pn_variables src) (pn_examples src) db)"

section \<open>The service\<close>

definition build_request :: "llm_settings \<Rightarrow> chat_message list \<Rightarrow> string option \<Rightarrow> string option \<Rightarrow> int option \<Rightarrow> pydict option \<Rightarrow> chat_request" where
  "build_request st ms m system max_tokens schema =
     \<lparr>rq_messages = ms, rq_model = (if truthy m then the m else st_default_model st),
      rq_max_tokens = (case max_tokens of None \<Rightarrow> st_max_tokens st | Some n \<Rightarrow> if n = 0 then st_max_tokens st else n),
      rq_system = (if truthy system then system else st_system_prompt st), rq_temperature = st_temperature st, rq_top_p = st_top_p st,
      rq_top_k = st_top_k st, rq_stop_sequences = [], rq_tools = [], rq_thinking = st_adaptive st, rq_response_schema = schema, rq_metadata = []\<rparr>"

definition rate_key :: "(nat \<Rightarrow> string) \<Rightarrow> nat option \<Rightarrow> string" where
  "rate_key show_id g = (case g of None \<Rightarrow> ''global'' | Some i \<Rightarrow> show_id i)"

definition service_chat :: "llm_env \<Rightarrow> (nat \<Rightarrow> string) \<Rightarrow> time \<Rightarrow> chat_message list \<Rightarrow> nat option \<Rightarrow> nat option \<Rightarrow> nat option \<Rightarrow> string option
    \<Rightarrow> string option \<Rightarrow> int option \<Rightarrow> string option \<Rightarrow> llm_state \<times> llm_db \<Rightarrow> (llm_exc + chat_outcome) \<times> llm_state \<times> llm_db" where
  "service_chat env show_id now ms g user conv m system max_tokens provider s =
     (case s of (ls, db) \<Rightarrow>
        case manager_chat env now (build_request (le_settings env) ms m system max_tokens None) provider (rate_key show_id g) ls of
          (Inl e, ls') \<Rightarrow> (Inl e, ls', db)
        | (Inr oc, ls') \<Rightarrow>
            let db1 = snd (record_outcome now oc \<lparr>ri_organization_id = g, ri_user_id = user, ri_project_id = None, ri_agent_id = None, ri_conversation_id = conv\<rparr> False db);
                us = rs_usage (oc_response oc)
            in (Inr oc, ls', case conv of None \<Rightarrow> db1
                | Some c \<Rightarrow> if ms = [] then db1
                    else snd (append_message now c ASSISTANT (rs_content (oc_response oc)) user (us_output us)
                           (snd (append_message now c USER (ms_content (List.last ms)) user (us_input us) db1)))))"

definition retry_hint :: string where
  "retry_hint = ''Your previous response was not valid JSON for the schema. Respond again with ONLY a valid JSON object.''"

datatype 'm structured = Parsed 'm | BadAnswer chat_outcome string | CallFailed llm_exc

fun bad_answer :: "'m structured \<Rightarrow> bool" where
  "bad_answer (BadAnswer _ _) = True" | "bad_answer _ = False"

type_synonym turn_state = "chat_message list \<times> nat \<times> llm_state \<times> llm_db"

definition structured_turn :: "(nat \<Rightarrow> llm_env) \<Rightarrow> (nat \<Rightarrow> time) \<Rightarrow> (nat \<Rightarrow> string) \<Rightarrow> (string \<Rightarrow> string + 'm) \<Rightarrow> pydict \<Rightarrow> nat option \<Rightarrow> nat option
    \<Rightarrow> string option \<Rightarrow> string option \<Rightarrow> turn_state \<Rightarrow> turn_state \<times> 'm structured" where
  \<comment> \<open>one pass of the \<open>while\<close>; the world of the \<open>i\<close>-th call is \<open>env i\<close>\<close>
  "structured_turn env now show_id parse schema g user m system s =
     (case s of (conv, i, ls, db) \<Rightarrow>
        case manager_chat (env i) (now i) (build_request (le_settings (env i)) conv m system None (Some schema)) None (rate_key show_id g) ls of
          (Inl e, ls') \<Rightarrow> ((conv, Suc i, ls', db), CallFailed e)
        | (Inr oc, ls') \<Rightarrow>
            let db' = snd (record_outcome (now i) oc \<lparr>ri_organization_id = g, ri_user_id = user, ri_project_id = None, ri_agent_id = None, ri_conversation_id = None\<rparr> False db)
            in ((conv, Suc i, ls', db'),
                case parse (extract_json (rs_content (oc_response oc))) of Inl e \<Rightarrow> BadAnswer oc e | Inr v \<Rightarrow> Parsed v))"

fun ask_again :: "'m structured \<Rightarrow> turn_state \<Rightarrow> turn_state" where
  "ask_again (BadAnswer oc e) (conv, i, rest) = (conv @ [to_message (oc_response oc), message_of USER retry_hint], i, rest)"
| "ask_again _ s = s"

fun structured_loop :: "(nat \<Rightarrow> llm_env) \<Rightarrow> (nat \<Rightarrow> time) \<Rightarrow> (nat \<Rightarrow> string) \<Rightarrow> (string \<Rightarrow> string + 'm) \<Rightarrow> pydict \<Rightarrow> nat option \<Rightarrow> nat option
    \<Rightarrow> string option \<Rightarrow> string option \<Rightarrow> nat \<Rightarrow> turn_state \<Rightarrow> turn_state \<times> 'm structured" where
  "structured_loop env now show_id parse schema g user m system n s =
     (case structured_turn env now show_id parse schema g user m system s of (s', res) \<Rightarrow>
        if bad_answer res
        then (case n of 0 \<Rightarrow> (s', res) | Suc k \<Rightarrow> structured_loop env now show_id parse schema g user m system k (ask_again res s'))
        else (s', res))"

declare structured_loop.simps [simp del]

definition chat_structured :: "(nat \<Rightarrow> llm_env) \<Rightarrow> (nat \<Rightarrow> time) \<Rightarrow> (nat \<Rightarrow> string) \<Rightarrow> (string \<Rightarrow> string + 'm) \<Rightarrow> pydict \<Rightarrow> chat_message list \<Rightarrow> nat option \<Rightarrow> nat option
    \<Rightarrow> string option \<Rightarrow> string option \<Rightarrow> int \<Rightarrow> llm_state \<Rightarrow> llm_db \<Rightarrow> turn_state \<times> 'm structured" where
  "chat_structured env now show_id parse schema ms g user m system max_retries ls db =
     structured_loop env now show_id parse schema g user m system (nat max_retries) (ms, 0, ls, db)"

fun account_stream :: "time \<Rightarrow> string \<Rightarrow> request_ids \<Rightarrow> stream_event list \<Rightarrow> llm_db \<Rightarrow> llm_db" where
  "account_stream now provider ids [] db = db"
| "account_stream now provider ids (StreamEvent _ None # es) db = account_stream now provider ids es db"
| "account_stream now provider ids (StreamEvent _ (Some r) # es) db =
     account_stream now provider ids es
       (snd (record_outcome now \<lparr>oc_response = r, oc_provider = provider, oc_cost_usd = 0, oc_cache_hit = False\<rparr> ids True db))"

definition service_stream :: "llm_env \<Rightarrow> (nat \<Rightarrow> string) \<Rightarrow> time \<Rightarrow> stream_event list \<Rightarrow> chat_message list \<Rightarrow> nat option \<Rightarrow> nat option \<Rightarrow> string option
    \<Rightarrow> string option \<Rightarrow> int option \<Rightarrow> string option \<Rightarrow> llm_state \<times> llm_db \<Rightarrow> (llm_exc + stream_event list) \<times> llm_state \<times> llm_db" where
  "service_stream env show_id now events ms g user m system max_tokens provider s =
     (case s of (ls, db) \<Rightarrow>
        case manager_stream env events (build_request (le_settings env) ms m system max_tokens None) provider (rate_key show_id g) ls of
          (Inl e, ls') \<Rightarrow> (Inl e, ls', db)
        | (Inr es, ls') \<Rightarrow>
            (Inr es, ls', account_stream now (if truthy provider then the provider else st_default_provider (le_settings env))
               \<lparr>ri_organization_id = g, ri_user_id = user, ri_project_id = None, ri_agent_id = None, ri_conversation_id = None\<rparr> es db))"

section \<open>The rollups add up\<close>

definition if_request :: "nat option \<Rightarrow> int \<Rightarrow> int \<Rightarrow> (llm_request \<Rightarrow> 'n :: comm_monoid_add) \<Rightarrow> llm_request \<Rightarrow> 'n" where
  "if_request g a b f r =
     (if ri_organization_id (lq_ids r) = g \<and> a \<le> date_of (created_at r) \<and> date_of (created_at r) \<le> b then f r else 0)"

definition requests_usage :: "nat option \<Rightarrow> int \<Rightarrow> int \<Rightarrow> llm_db \<Rightarrow> usage_summary" where
  \<comment> \<open>the same summary, from the single requests\<close>
  "requests_usage g a b db =
     \<lparr>us_input_tokens = sum_rows (if_request g a b lq_input_tokens) (ld_requests db),
      us_output_tokens = sum_rows (if_request g a b lq_output_tokens) (ld_requests db),
      us_total_tokens = sum_rows (if_request g a b lq_total_tokens) (ld_requests db),
      us_request_count = sum_rows (if_request g a b (\<lambda>_. 1)) (ld_requests db)\<rparr>"

definition requests_cost :: "nat option \<Rightarrow> int \<Rightarrow> int \<Rightarrow> llm_db \<Rightarrow> cost_summary" where
  "requests_cost g a b db =
     \<lparr>cs_input_cost_usd = sum_rows (if_request g a b (\<lambda>r. input_cost (lq_model r) (lq_input_tokens r))) (ld_requests db),
      cs_output_cost_usd = sum_rows (if_request g a b (\<lambda>r. output_cost (lq_model r) (lq_output_tokens r))) (ld_requests db),
      cs_total_cost_usd = sum_rows (if_request g a b lq_cost_usd) (ld_requests db)\<rparr>"

definition ledger_ok :: "llm_db \<Rightarrow> bool" where
  "ledger_ok db \<longleftrightarrow> table_ok (ld_usage db) \<and> table_ok (ld_costs db)
     \<and> (\<forall>g a b. summarize_usage g a b db = requests_usage g a b db \<and> summarize_cost g a b db = requests_cost g a b db)"

definition no_llm_rows :: llm_db where
  "no_llm_rows = \<lparr>ld_templates = [], ld_versions = [], ld_conversations = [], ld_messages = [], ld_requests = [], ld_usage = [], ld_costs = []\<rparr>"

lemma ledger_ok_empty: "ledger_ok no_llm_rows"
  by (simp add: ledger_ok_def no_llm_rows_def summarize_usage_def requests_usage_def summarize_cost_def requests_cost_def)

lemma sum_rows_added: "sum_rows f (snd (repo_add r t)) = sum_rows f t + f (r\<lparr>ent_id := new_id t\<rparr>)"
  using sum_rows_add [of r t "fst (repo_add r t)" "snd (repo_add r t)" f] repo_add_new(1) [of r t "fst (repo_add r t)" "snd (repo_add r t)"]
  by simp

lemma table_ok_added: "table_ok t \<Longrightarrow> table_ok (snd (repo_add r t))"
  using repo_add_ok [of t r "fst (repo_add r t)" "snd (repo_add r t)"] by simp

text \<open>One step of a rollup adds the same to every sum over the rows of the organization and the day.\<close>

lemma roll_up_usage:
  assumes ok: "table_ok (ld_usage db)" and F: "\<And>u. F (add_usage us u) = F u + d"
    and id: "\<And>u i. F (u\<lparr>ent_id := i\<rparr>) = F u"
    and zero: "\<And>i h. F \<lparr>ent_id = i, created_at = now, deleted_at = None, ur_organization_id = h, ur_usage_date = date_of now,
                    ur_model = m, ur_input_tokens = 0, ur_output_tokens = 0, ur_total_tokens = 0, ur_request_count = 0\<rparr> = 0"
  shows "sum_rows (if_usage g a b F) (ld_usage (roll_up now g' m us cost db))
    = sum_rows (if_usage g a b F) (ld_usage db) + (if g' = g \<and> a \<le> date_of now \<and> date_of now \<le> b then d else 0)"
proof (cases "usage_row_for g' (date_of now) m (ld_usage db)")
  case None
  then show ?thesis by (simp add: roll_up_def Let_def sum_rows_added if_usage_def id F zero) (auto simp: add_usage_def)
next
  case (Some u)
  with row_by_Some [OF ok] have u: "repo_get (ent_id u) (ld_usage db) = Some u" "ur_organization_id u = g'" "ur_usage_date u = date_of now"
    by (auto simp: usage_row_for_def)
  have i: "ent_id (add_usage us u) = ent_id u" by (simp add: add_usage_def)
  show ?thesis
    using Some sum_rows_put [OF ok, of "add_usage us u" u "if_usage g a b F"] u
    by (simp add: roll_up_def Let_def i if_usage_def F) (auto simp: add_usage_def)
qed

lemma roll_up_cost:
  assumes ok: "table_ok (ld_costs db)" and F: "\<And>c. F (add_cost m us cost c) = F c + d"
    and id: "\<And>c i. F (c\<lparr>ent_id := i\<rparr>) = F c"
    and zero: "\<And>i h. F \<lparr>ent_id = i, created_at = now, deleted_at = None, cr_organization_id = h, cr_cost_date = date_of now,
                    cr_model = m, cr_input_cost_usd = 0, cr_output_cost_usd = 0, cr_total_cost_usd = 0\<rparr> = 0"
  shows "sum_rows (if_cost g a b F) (ld_costs (roll_up now g' m us cost db))
    = sum_rows (if_cost g a b F) (ld_costs db) + (if g' = g \<and> a \<le> date_of now \<and> date_of now \<le> b then d else 0)"
proof (cases "cost_row_for g' (date_of now) m (ld_costs db)")
  case None
  then show ?thesis by (simp add: roll_up_def Let_def sum_rows_added if_cost_def id F zero) (auto simp: add_cost_def)
next
  case (Some c)
  with row_by_Some [OF ok] have c: "repo_get (ent_id c) (ld_costs db) = Some c" "cr_organization_id c = g'" "cr_cost_date c = date_of now"
    by (auto simp: cost_row_for_def)
  have i: "ent_id (add_cost m us cost c) = ent_id c" by (simp add: add_cost_def)
  show ?thesis
    using Some sum_rows_put [OF ok, of "add_cost m us cost c" c "if_cost g a b F"] c
    by (simp add: roll_up_def Let_def i if_cost_def F) (auto simp: add_cost_def)
qed

lemma roll_up_frame [simp]: "ld_requests (roll_up now g m us cost db) = ld_requests db"
  by (simp add: roll_up_def Let_def)

lemma roll_up_ok:
  "table_ok (ld_usage db) \<Longrightarrow> table_ok (ld_usage (roll_up now g m us cost db))"
  "table_ok (ld_costs db) \<Longrightarrow> table_ok (ld_costs (roll_up now g m us cost db))"
  by (auto simp: roll_up_def Let_def table_ok_added split: option.split)

lemma record_outcome_ledger:
  assumes "ledger_ok db" shows "ledger_ok (snd (record_outcome now oc ids streamed db))"
proof -
  define us where "us = rs_usage (oc_response oc)"
  define m where "m = rs_model (oc_response oc)"
  define g' where "g' = ri_organization_id ids"
  define r where "r = \<lparr>ent_id = 0, created_at = now, deleted_at = None, lq_ids = ids, lq_provider = oc_provider oc, lq_model = m,
      lq_status = (if streamed then RS_STREAMED else RS_SUCCEEDED), lq_input_tokens = us_input us, lq_output_tokens = us_output us,
      lq_cached_tokens = us_cache_read us, lq_total_tokens = total_tokens us, lq_cost_usd = oc_cost_usd oc,
      lq_streamed = streamed, lq_cache_hit = oc_cache_hit oc\<rparr>"
  define db1 where "db1 = db\<lparr>ld_requests := snd (repo_add r (ld_requests db))\<rparr>"
  have run: "snd (record_outcome now oc ids streamed db) = roll_up now g' m us (oc_cost_usd oc) db1"
    by (simp add: record_outcome_def Let_def db1_def r_def us_def m_def g'_def split: prod.split)
  have ok: "table_ok (ld_usage db1)" "table_ok (ld_costs db1)" using assms by (simp_all add: ledger_ok_def db1_def)
  have u: "ld_usage db1 = ld_usage db" and c: "ld_costs db1 = ld_costs db" by (simp_all add: db1_def)
  have req: "sum_rows (if_request g a b f) (ld_requests db1) = sum_rows (if_request g a b f) (ld_requests db)
      + (if g' = g \<and> a \<le> date_of now \<and> date_of now \<le> b then f (r\<lparr>ent_id := new_id (ld_requests db)\<rparr>) else 0)"
    for g a b and f :: "llm_request \<Rightarrow> 'z :: comm_monoid_add"
    by (simp add: db1_def sum_rows_added if_request_def r_def g'_def)
  have old: "summarize_usage g a b db = requests_usage g a b db" "summarize_cost g a b db = requests_cost g a b db" for g a b
    using assms by (simp_all add: ledger_ok_def)
  have su: "summarize_usage g a b (roll_up now g' m us (oc_cost_usd oc) db1) = requests_usage g a b (roll_up now g' m us (oc_cost_usd oc) db1)" for g a b
  proof -
    note R = roll_up_usage [OF ok(1), where us = us and now = now and g' = g' and m = m and g = g and a = a and b = b and cost = "oc_cost_usd oc"]
    have "sum_rows (if_usage g a b ur_input_tokens) (ld_usage (roll_up now g' m us (oc_cost_usd oc) db1))
        = sum_rows (if_usage g a b ur_input_tokens) (ld_usage db) + (if g' = g \<and> a \<le> date_of now \<and> date_of now \<le> b then us_input us else 0)"
      unfolding u [symmetric] by (rule R) (simp_all add: add_usage_def)
    moreover have "sum_rows (if_usage g a b ur_output_tokens) (ld_usage (roll_up now g' m us (oc_cost_usd oc) db1))
        = sum_rows (if_usage g a b ur_output_tokens) (ld_usage db) + (if g' = g \<and> a \<le> date_of now \<and> date_of now \<le> b then us_output us else 0)"
      unfolding u [symmetric] by (rule R) (simp_all add: add_usage_def)
    moreover have "sum_rows (if_usage g a b ur_total_tokens) (ld_usage (roll_up now g' m us (oc_cost_usd oc) db1))
        = sum_rows (if_usage g a b ur_total_tokens) (ld_usage db) + (if g' = g \<and> a \<le> date_of now \<and> date_of now \<le> b then total_tokens us else 0)"
      unfolding u [symmetric] by (rule R) (simp_all add: add_usage_def)
    moreover have "sum_rows (if_usage g a b ur_request_count) (ld_usage (roll_up now g' m us (oc_cost_usd oc) db1))
        = sum_rows (if_usage g a b ur_request_count) (ld_usage db) + (if g' = g \<and> a \<le> date_of now \<and> date_of now \<le> b then 1 else 0)"
      unfolding u [symmetric] by (rule R) (simp_all add: add_usage_def)
    ultimately show ?thesis
      using old(1) [of g a b] by (simp add: summarize_usage_def requests_usage_def req) (simp add: r_def)
  qed
  have sc: "summarize_cost g a b (roll_up now g' m us (oc_cost_usd oc) db1) = requests_cost g a b (roll_up now g' m us (oc_cost_usd oc) db1)" for g a b
  proof -
    note R = roll_up_cost [OF ok(2), where us = us and now = now and g' = g' and m = m and g = g and a = a and b = b and cost = "oc_cost_usd oc"]
    have "sum_rows (if_cost g a b cr_input_cost_usd) (ld_costs (roll_up now g' m us (oc_cost_usd oc) db1))
        = sum_rows (if_cost g a b cr_input_cost_usd) (ld_costs db) + (if g' = g \<and> a \<le> date_of now \<and> date_of now \<le> b then input_cost m (us_input us) else 0)"
      unfolding c [symmetric] by (rule R) (simp_all add: add_cost_def)
    moreover have "sum_rows (if_cost g a b cr_output_cost_usd) (ld_costs (roll_up now g' m us (oc_cost_usd oc) db1))
        = sum_rows (if_cost g a b cr_output_cost_usd) (ld_costs db) + (if g' = g \<and> a \<le> date_of now \<and> date_of now \<le> b then output_cost m (us_output us) else 0)"
      unfolding c [symmetric] by (rule R) (simp_all add: add_cost_def)
    moreover have "sum_rows (if_cost g a b cr_total_cost_usd) (ld_costs (roll_up now g' m us (oc_cost_usd oc) db1))
        = sum_rows (if_cost g a b cr_total_cost_usd) (ld_costs db) + (if g' = g \<and> a \<le> date_of now \<and> date_of now \<le> b then oc_cost_usd oc else 0)"
      unfolding c [symmetric] by (rule R) (simp_all add: add_cost_def)
    ultimately show ?thesis
      using old(2) [of g a b] by (simp add: summarize_cost_def requests_cost_def req) (simp add: r_def)
  qed
  show ?thesis unfolding run ledger_ok_def using roll_up_ok ok su sc by blast
qed

datatype llm_op =
    Account time chat_outcome request_ids bool
  | Append time nat chat_role string "nat option" int

fun run_llm :: "llm_op \<Rightarrow> llm_db \<Rightarrow> llm_db" where
  "run_llm (Account now oc ids streamed) db = snd (record_outcome now oc ids streamed db)"
| "run_llm (Append now c r content actor tokens) db = snd (append_message now c r content actor tokens db)"

lemma append_message_frame [simp]:
  "ld_requests (snd (append_message now c r content actor tokens db)) = ld_requests db"
  "ld_usage (snd (append_message now c r content actor tokens db)) = ld_usage db"
  "ld_costs (snd (append_message now c r content actor tokens db)) = ld_costs db"
  "ld_conversations (snd (append_message now c r content actor tokens db)) = ld_conversations db"
  by (simp_all add: append_message_def Let_def split: prod.split)

lemma run_llm_ledger: "ledger_ok db \<Longrightarrow> ledger_ok (run_llm op db)"
proof (cases op)
  case (Append now c r content actor tokens)
  then show "ledger_ok db \<Longrightarrow> ?thesis"
    by (simp add: ledger_ok_def summarize_usage_def requests_usage_def summarize_cost_def requests_cost_def)
qed (simp add: record_outcome_ledger)

lemma fold_run_llm_ledger: "ledger_ok db \<Longrightarrow> ledger_ok (fold run_llm ops db)"
  by (induction ops arbitrary: db) (auto simp: run_llm_ledger)


text \<open>A stream is recorded with its tokens and their input and output costs, and a total cost of zero.\<close>

theorem streams_are_free:
  assumes "account_stream now p ids [StreamEvent k (Some r)] no_llm_rows = db"
  shows "cs_total_cost_usd (summarize_cost (ri_organization_id ids) (date_of now) (date_of now) db) = 0
    \<and> cs_input_cost_usd (summarize_cost (ri_organization_id ids) (date_of now) (date_of now) db) = input_cost (rs_model r) (us_input (rs_usage r))"
  using assms
  by (auto simp: record_outcome_def roll_up_def Let_def summarize_cost_def no_llm_rows_def cost_row_for_def row_by_def all_rows_def
      add_cost_def if_cost_def repo_add_def sum_rows_def)

text \<open>An answer from the cache is recorded at the full price of a call.\<close>

theorem cache_hits_are_charged:
  assumes "manager_chat env now r slug key s = (Inr oc, s')" and "oc_cache_hit oc"
  shows "oc_cost_usd oc = estimate_cost (rq_model r) (us_input (rs_usage (oc_response oc))) (us_output (rs_usage (oc_response oc)))"
  using assms
  by (auto simp: manager_chat_def record_request_def Let_def split: sum.splits prod.splits option.splits if_splits)

text \<open>
  The total is priced by the model that was asked for, its parts by the model that answered: an
  answer that names a dated snapshot is split at the prices of an unknown model.
\<close>

theorem snapshot_priced_as_unknown:
  "estimate_cost ''claude-haiku-4-5'' 1000000 0 = 1 \<and> input_cost ''claude-haiku-4-5-20251001'' 1000000 = 5"
  by (simp add: estimate_cost_def input_cost_def get_model_info_def CATALOG_def DEFAULT_MODEL_def priced_def py_round_def round_half_even_def)

section \<open>Conversations keep their order\<close>

definition in_order :: "llm_db \<Rightarrow> bool" where
  \<comment> \<open>within a conversation, later rows have larger numbers\<close>
  "in_order db \<longleftrightarrow> (\<forall>c. sorted_wrt (<) (map cm_sequence (filter (\<lambda>m. cm_conversation_id m = c) (all_rows (ld_messages db)))))"

definition appended :: "nat \<Rightarrow> llm_op list \<Rightarrow> chat_message list" where
  "appended c ops = concat (map (\<lambda>op. case op of Append _ c' r content _ _ \<Rightarrow> if c' = c then [message_of r content] else [] | _ \<Rightarrow> []) ops)"

definition plain_message :: "conversation_message \<Rightarrow> chat_message" where
  "plain_message m = message_of (cm_role m) (cm_content m)"

lemma messages_in_order:
  assumes "in_order db"
  shows "messages_of c db = filter (\<lambda>m. cm_conversation_id m = c) (all_rows (ld_messages db))"
proof -
  have "sorted (map cm_sequence (filter (\<lambda>m. cm_conversation_id m = c) (all_rows (ld_messages db))))"
    using assms unfolding in_order_def by (blast intro: sorted_wrt_mono_rel [of _ "(<)"] less_imp_le)
  then show ?thesis unfolding messages_of_def by (rule sort_key_id_if_sorted)
qed

lemma next_sequence_above:
  assumes "in_order db" and "m \<in> set (messages_of c db)"
  shows "cm_sequence m < next_sequence c db"
proof -
  have s: "sorted_wrt (<) (map cm_sequence (messages_of c db))"
    using assms(1) by (simp add: messages_in_order in_order_def)
  from assms(2) obtain ms l where ml: "messages_of c db = ms @ [l]" by (metis rev_exhaust in_set_conv_nth list.size(3) not_less0)
  with assms(2) s have "cm_sequence m \<le> cm_sequence l" by (auto simp: sorted_wrt_append)
  with ml show ?thesis by (simp add: next_sequence_def)
qed

lemma append_message_rows:
  "\<exists>m. all_rows (ld_messages (snd (append_message now c r content actor tokens db))) = all_rows (ld_messages db) @ [m]
     \<and> cm_conversation_id m = c \<and> cm_sequence m = next_sequence c db \<and> plain_message m = message_of r content"
proof -
  let ?r = "\<lparr>ent_id = 0, created_at = now, deleted_at = None, cm_conversation_id = c, cm_sequence = next_sequence c db,
      cm_role = r, cm_content = content, cm_tool_calls = [], cm_tokens = tokens, cm_created_by = actor\<rparr>"
  obtain m t where a: "repo_add ?r (ld_messages db) = (m, t)" by force
  then have "snd (append_message now c r content actor tokens db) = db\<lparr>ld_messages := t\<rparr>" by (simp add: append_message_def)
  with repo_add_new(1,2) [OF a] show ?thesis by (simp add: all_rows_def plain_message_def)
qed

lemma append_message_order:
  assumes "in_order db" shows "in_order (snd (append_message now c r content actor tokens db))"
proof -
  from append_message_rows [of now c r content actor tokens db] obtain m where
    m: "all_rows (ld_messages (snd (append_message now c r content actor tokens db))) = all_rows (ld_messages db) @ [m]"
      "cm_conversation_id m = c" "cm_sequence m = next_sequence c db" by blast
  have "cm_sequence x < next_sequence c db" if "x \<in> set (all_rows (ld_messages db))" "cm_conversation_id x = c" for x
    using next_sequence_above [OF assms, of x c] that by (simp add: messages_in_order [OF assms])
  with assms m show ?thesis by (auto simp: in_order_def sorted_wrt_append)
qed

lemma run_llm_messages:
  assumes "in_order db"
  shows "in_order (run_llm op db)" "ld_conversations (run_llm op db) = ld_conversations db"
    and "map plain_message (messages_of c (run_llm op db)) = map plain_message (messages_of c db) @ appended c [op]"
proof -
  have frame: "ld_messages (run_llm (Account now oc ids st) db) = ld_messages db" "ld_conversations (run_llm (Account now oc ids st) db) = ld_conversations db" for now oc ids st
    by (simp_all add: record_outcome_def roll_up_def Let_def split: prod.split)
  show ord: "in_order (run_llm op db)"
  proof (cases op)
    case (Account now oc ids st)
    show ?thesis using assms unfolding in_order_def Account frame .
  next
    case (Append now c' r content actor tokens)
    with append_message_order [OF assms] show ?thesis by simp
  qed
  show "ld_conversations (run_llm op db) = ld_conversations db" by (cases op) (use frame in auto)
  show "map plain_message (messages_of c (run_llm op db)) = map plain_message (messages_of c db) @ appended c [op]"
  proof (cases op)
    case (Account now oc ids st)
    with frame show ?thesis by (simp add: messages_of_def appended_def)
  next
    case (Append now c' r content actor tokens)
    from append_message_rows [of now c' r content actor tokens db] obtain m where
      m: "all_rows (ld_messages (run_llm op db)) = all_rows (ld_messages db) @ [m]" "cm_conversation_id m = c'" "plain_message m = message_of r content"
      unfolding Append by auto
    show ?thesis
      unfolding messages_in_order [OF ord] messages_in_order [OF assms] m(1)
      using m(2,3) by (simp add: Append appended_def)
  qed
qed

lemma load_runtime_messages:
  "fold (\<lambda>m. conversation_add (message_of (cm_role m) (cm_content m))) ms cn
     = cn\<lparr>cn_messages := cn_messages cn @ map plain_message ms\<rparr>"
  by (induction ms arbitrary: cn) (simp_all add: conversation_add_def plain_message_def)

text \<open>
  A conversation is rebuilt as it was held: after any interleaving of turns in several
  conversations and of accounting, what is loaded is the messages it had before followed by the
  ones appended to it, in the order of their turns.
\<close>

theorem conversation_rebuilt:
  assumes "in_order db" and "repo_get c (ld_conversations db) = Some row" and "deleted_at row = None"
  shows "load_runtime c (fold run_llm ops db)
    = Inr \<lparr>cn_system = cv_system row, cn_messages = map plain_message (messages_of c db) @ appended c ops\<rparr>"
proof -
  have "map plain_message (messages_of c (fold run_llm ops d)) = map plain_message (messages_of c d) @ appended c ops
      \<and> ld_conversations (fold run_llm ops d) = ld_conversations d" if "in_order d" for d
    using that
  proof (induction ops arbitrary: d)
    case (Cons x xs)
    from run_llm_messages [OF Cons.prems] Cons.IH [of "run_llm x d"] show ?case by (simp add: appended_def)
  qed (simp add: appended_def)
  from this [OF assms(1)] show ?thesis
    using assms(2,3) by (simp add: load_runtime_def conversation_or_404_def is_deleted_def load_runtime_messages)
qed

section \<open>Versions of a prompt\<close>

datatype prompt_op =
    CreateTemplate time nat string string nat "string option" "string option" "pydict list" "string list"
  | AddVersion time nat string nat "pydict list" "pydict list"
  | Rollback time nat int nat

fun run_prompt :: "(string \<Rightarrow> pydict \<Rightarrow> string + string) \<Rightarrow> prompt_op \<Rightarrow> llm_db \<Rightarrow> llm_db" where
  "run_prompt e (CreateTemplate now g n t a c d vs tags) db = snd (create_template e now g n t a c d vs tags db)"
| "run_prompt e (AddVersion now i t a vs es) db = snd (add_version e now i t a vs es db)"
| "run_prompt e (Rollback now i k a) db = snd (rollback e now i k a db)"

lemma base_query_added: "base_query False (snd (repo_add r t)) = base_query False t @ (if deleted_at r = None then [r\<lparr>ent_id := new_id t\<rparr>] else [])"
proof -
  obtain r' t' where a: "repo_add r t = (r', t')" by force
  then show ?thesis using repo_add_new(1,2) [OF a] by (simp add: base_query_def)
qed

lemma find_append: "List.find P (xs @ ys) = (case List.find P xs of Some x \<Rightarrow> Some x | None \<Rightarrow> List.find P ys)"
  by (induction xs) auto

definition keeps_prompts :: "llm_db \<Rightarrow> llm_db \<Rightarrow> bool" where
  \<comment> \<open>the rows of versions stay, and templates keep their names\<close>
  "keeps_prompts db db' \<longleftrightarrow> table_ok (ld_templates db') \<and> (\<exists>vs. base_query False (ld_versions db') = base_query False (ld_versions db) @ vs)
     \<and> (\<forall>i p. repo_get i (ld_templates db) = Some p \<longrightarrow> (\<exists>p'. repo_get i (ld_templates db') = Some p' \<and> pt_name p' = pt_name p))"

lemma keeps_prompts_refl: "table_ok (ld_templates db) \<Longrightarrow> keeps_prompts db db"
  by (simp add: keeps_prompts_def)

lemma keeps_prompts_trans: "keeps_prompts a b \<Longrightarrow> keeps_prompts b c \<Longrightarrow> keeps_prompts a c"
  unfolding keeps_prompts_def by (metis append.assoc)

lemma keeps_version: "keeps_prompts db db' \<Longrightarrow> version_row i n db = Some v \<Longrightarrow> version_row i n db' = Some v"
  by (auto simp: keeps_prompts_def version_row_def find_by_def find_append)

lemma add_version_cases:
  assumes "add_version e now i t a vs es db = (res, db')" and "table_ok (ld_templates db)"
  obtains "db' = db" "\<exists>x. res = Inl x"
  | p v n where "repo_get i (ld_templates db) = Some p" "deleted_at p = None" "res = Inr v"
      "base_query False (ld_versions db') = base_query False (ld_versions db) @ [v]"
      "pn_template_id v = i" "pn_number v = n" "pn_template v = t" "pn_variables v = vs" "pn_examples v = es"
      "\<forall>w\<in>set (all_rows (ld_versions db)). pn_template_id w = i \<longrightarrow> pn_number w < n"
      "ld_templates db' = repo_put (p\<lparr>pt_latest_version := n, pt_updated_by := Some a\<rparr>) (ld_templates db)"
proof (cases "\<exists>p. repo_get i (ld_templates db) = Some p \<and> deleted_at p = None")
  case False
  with assms(1) have "db' = db" "\<exists>x. res = Inl x"
    by (auto simp: add_version_def is_deleted_def split: option.splits if_splits)
  then show ?thesis by (rule that(1))
next
  case True
  then obtain p where p: "repo_get i (ld_templates db) = Some p" "deleted_at p = None" by blast
  define n where "n = (case versions_of i db of [] \<Rightarrow> 1 | v # _ \<Rightarrow> pn_number v + 1)"
  define r where "r = \<lparr>ent_id = 0, created_at = now, deleted_at = None, pn_template_id = i, pn_number = n, pn_template = t,
      pn_variables = vs, pn_examples = es, pn_created_by = Some a\<rparr>"
  obtain v vt where v: "repo_add r (ld_versions db) = (v, vt)" by force
  have run: "res = Inr v" "db' = db\<lparr>ld_versions := vt, ld_templates := repo_put (p\<lparr>pt_latest_version := n, pt_updated_by := Some a\<rparr>) (ld_templates db)\<rparr>"
    using assms(1) p v by (auto simp: add_version_def is_deleted_def Let_def simp flip: n_def r_def)
  have "pn_number w < n" if "w \<in> set (all_rows (ld_versions db))" "pn_template_id w = i" for w
  proof -
    have w: "w \<in> set (versions_of i db)" using that by (simp add: versions_of_def)
    then obtain x xs where x: "versions_of i db = x # xs" by (cases "versions_of i db") auto
    have "sorted_wrt (\<lambda>x y. pn_number x \<ge> pn_number y) (x # xs)"
      unfolding x [symmetric] versions_of_def by (rule sorted_desc_sorted)
    with w x have "pn_number w \<le> pn_number x" by auto
    with x show ?thesis by (simp add: n_def)
  qed
  moreover have "base_query False vt = base_query False (ld_versions db) @ [v]"
    using base_query_added [of r "ld_versions db"] repo_add_new(1) [OF v] v by (simp add: r_def)
  ultimately show ?thesis
    using run p repo_add_new(1) [OF v] by (intro that(2) [of p v n]) (simp_all add: r_def)
qed

lemma add_version_keeps:
  assumes "add_version e now i t a vs es db = (res, db')" and "table_ok (ld_templates db)"
  shows "keeps_prompts db db'"
  using assms
proof (cases rule: add_version_cases)
  case 1
  with assms(2) show ?thesis by (simp add: keeps_prompts_refl)
next
  case (2 p v n)
  then have "ent_id p = i" using repo.get_key [OF assms(2)] by blast
  with 2 assms(2) show ?thesis by (auto simp: keeps_prompts_def)
qed

lemma run_prompt_keeps:
  assumes "table_ok (ld_templates db)" shows "keeps_prompts db (run_prompt e op db)"
proof (cases op)
  case (AddVersion now i t a vs es)
  with add_version_keeps [OF surjective_pairing assms] show ?thesis by simp
next
  case (Rollback now i k a)
  with add_version_keeps [OF surjective_pairing assms] assms show ?thesis
    by (auto simp: rollback_def keeps_prompts_refl split: option.split)
next
  case (CreateTemplate now g n t a c d vs tags)
  define r where "r = \<lparr>ent_id = 0, created_at = now, deleted_at = None, pt_organization_id = g, pt_name = n, pt_category = c,
      pt_description = d, pt_tags = tags, pt_status = PS_ACTIVE, pt_latest_version = 0, pt_created_by = Some a, pt_updated_by = Some a\<rparr>"
  obtain p pt where p: "repo_add r (ld_templates db) = (p, pt)" by force
  have ok: "table_ok pt" by (rule repo_add_ok [OF assms p])
  have first: "keeps_prompts db (db\<lparr>ld_templates := pt\<rparr>)"
    using ok repo_add_new(3,4) [OF p] by (auto simp: keeps_prompts_def)
  have "keeps_prompts (db\<lparr>ld_templates := pt\<rparr>) (snd (add_version e now (ent_id p) t a vs [] (db\<lparr>ld_templates := pt\<rparr>)))"
    by (rule add_version_keeps [OF surjective_pairing]) (simp add: ok)
  with first have "keeps_prompts db (snd (add_version e now (ent_id p) t a vs [] (db\<lparr>ld_templates := pt\<rparr>)))" by (rule keeps_prompts_trans)
  then show ?thesis
    using CreateTemplate p keeps_prompts_refl [OF assms]
    by (auto simp: create_template_def Let_def simp flip: r_def split: prod.split sum.split)
qed

lemma fold_run_prompt_keeps: "table_ok (ld_templates db) \<Longrightarrow> keeps_prompts db (fold (run_prompt e) ops db)"
proof (induction ops arbitrary: db)
  case (Cons x xs)
  have k: "keeps_prompts db (run_prompt e x db)" by (rule run_prompt_keeps [OF Cons.prems])
  then have "table_ok (ld_templates (run_prompt e x db))" by (simp add: keeps_prompts_def)
  from keeps_prompts_trans [OF k Cons.IH [OF this]] show ?case by simp
qed (simp add: keeps_prompts_refl)

lemma render_version:
  assumes "repo_get i (ld_templates db) = Some p" and "version_row i k db = Some v" and "k \<noteq> 0"
    and "repo_get i (ld_templates db') = Some p'" and "pt_name p' = pt_name p" and "version_row i k db' = Some v"
  shows "render_prompt e i ctx (Some k) db' = render_prompt e i ctx (Some k) db"
  using assms by (simp add: render_prompt_def Let_def split: sum.split)

text \<open>
  C34: a version of a prompt is immutable: whatever templates and versions are created and whatever
  is rolled back afterwards, rendering that version with a context gives the same text or the same
  error; and rolling back to a version makes the latest one render as that version does.
\<close>

theorem prompt_versions_immutable:
  assumes "table_ok (ld_templates db)" and "repo_get i (ld_templates db) = Some p" and "version_row i k db = Some v" and "k \<noteq> 0"
  shows "render_prompt e i ctx (Some k) (fold (run_prompt e) ops db) = render_prompt e i ctx (Some k) db
    \<and> (rollback e now i k a db = (Inr w, db') \<longrightarrow> pn_template w = pn_template v
         \<and> render_prompt e i ctx None db' = render_prompt e i ctx (Some k) db)"
proof (intro conjI impI)
  have keep: "keeps_prompts db (fold (run_prompt e) ops db)" by (rule fold_run_prompt_keeps [OF assms(1)])
  then obtain p' where "repo_get i (ld_templates (fold (run_prompt e) ops db)) = Some p'" "pt_name p' = pt_name p"
    using assms(2) unfolding keeps_prompts_def by blast
  with keeps_version [OF keep assms(3)]
  show "render_prompt e i ctx (Some k) (fold (run_prompt e) ops db) = render_prompt e i ctx (Some k) db"
    by (intro render_version [OF assms(2-4)])
next
  assume r: "rollback e now i k a db = (Inr w, db')"
  then have av: "add_version e now i (pn_template v) a (pn_variables v) (pn_examples v) db = (Inr w, db')"
    using assms(3) by (simp add: rollback_def)
  show "pn_template w = pn_template v" and "render_prompt e i ctx None db' = render_prompt e i ctx (Some k) db"
    using av assms(1)
  proof (atomize (full), cases rule: add_version_cases)
    case (2 q x n)
    have qp: "q = p" using 2(1) assms(2) by simp
    have "ent_id p = i" using repo.get_key [OF assms(1,2)] .
    then have g: "repo_get i (ld_templates db') = Some (p\<lparr>pt_latest_version := n, pt_updated_by := Some a\<rparr>)" using 2 qp by simp
    have "\<not> (pn_template_id y = i \<and> pn_number y = n)" if "y \<in> set (base_query False (ld_versions db))" for y
      using 2(10) that by (auto simp: base_query_def all_rows_def)
    then have "List.find (\<lambda>y. pn_template_id y = i \<and> pn_number y = n) (base_query False (ld_versions db)) = None"
      by (auto simp: find_None_iff)
    then have "version_row i n db' = Some x" using 2 by (simp add: version_row_def find_by_def find_append)
    with g 2 assms(2-4) show "pn_template w = pn_template v \<and> render_prompt e i ctx None db' = render_prompt e i ctx (Some k) db"
      by (auto simp: render_prompt_def Let_def split: sum.splits)
  qed simp
qed

text \<open>The syntax of a template is not checked: a version whose template the engine rejects is stored like any other.\<close>

theorem broken_template_stored:
  assumes "repo_get i (ld_templates db) = Some p" and "deleted_at p = None"
  shows "\<exists>v db'. add_version e now i t a vs es db = (Inr v, db')"
  using assms by (simp add: add_version_def is_deleted_def Let_def split: prod.split)

section \<open>Structured answers\<close>

lemma turn_calls: "fst (snd (fst (structured_turn env now sh parse schema g u m sy s))) = Suc (fst (snd s))"
  by (auto simp: structured_turn_def Let_def split: prod.splits sum.splits)

lemma ask_again_calls: "fst (snd (ask_again res s)) = fst (snd s)" "snd (snd (ask_again res s)) = snd (snd s)"
  by (cases "(res, s)" rule: ask_again.cases; simp)+

interpretation turns: retry_loop "structured_turn env now sh parse schema g u m sy" bad_answer ask_again
    "\<lambda>s. fst (snd s)" "structured_loop env now sh parse schema g u m sy"
  for env now sh parse schema g u m sy
proof
  fix s and n :: nat and r
  let ?turn = "structured_turn env now sh parse schema g u m sy"
  show "structured_loop env now sh parse schema g u m sy n s = ?turn s" if "\<not> bad_answer (snd (?turn s)) \<or> n = 0"
    using that by (subst structured_loop.simps) (auto split: prod.splits nat.splits)
  show "structured_loop env now sh parse schema g u m sy (Suc n) s
      = structured_loop env now sh parse schema g u m sy n (ask_again (snd (?turn s)) (fst (?turn s)))"
    if "bad_answer (snd (?turn s))"
    using that by (subst structured_loop.simps) (auto split: prod.splits)
  show "fst (snd (fst (?turn s))) = Suc (fst (snd s))" by (rule turn_calls)
  show "fst (snd (ask_again r s)) = fst (snd s)" by (rule ask_again_calls)
qed

lemma record_outcome_count: "length (ld_requests (snd (record_outcome now oc ids st db))) = Suc (length (ld_requests db))"
proof -
  have "length (snd (repo_add r t)) = Suc (length t)" for r :: llm_request and t
  proof -
    obtain r' t' where a: "repo_add r t = (r', t')" by force
    then show ?thesis using repo_add_new(2) [OF a] by simp
  qed
  then show ?thesis by (simp add: record_outcome_def Let_def split: prod.split) (metis snd_conv)
qed

fun answered :: "'m structured \<Rightarrow> bool" where
  "answered (CallFailed _) = False" | "answered _ = True"

lemma turn_requests:
  assumes "structured_turn env now sh parse schema g u m sy s = (s', res)"
  shows "length (ld_requests (snd (snd (snd s')))) = length (ld_requests (snd (snd (snd s)))) + (if answered res then 1 else 0)"
    and "res = Parsed v \<Longrightarrow> \<exists>text. parse (extract_json text) = Inr v"
  using assms
  by (auto simp: structured_turn_def Let_def record_outcome_count split: prod.splits sum.splits)

lemma loop_requests:
  assumes "structured_loop env now sh parse schema g u m sy n s = (s', res)"
  shows "length (ld_requests (snd (snd (snd s')))) + fst (snd s) + (if answered res then 0 else 1)
      = length (ld_requests (snd (snd (snd s)))) + fst (snd s')"
    and "res = Parsed v \<Longrightarrow> \<exists>text. parse (extract_json text) = Inr v"
proof -
  have "length (ld_requests (snd (snd (snd s')))) + fst (snd s) + (if answered res then 0 else 1)
      = length (ld_requests (snd (snd (snd s)))) + fst (snd s') \<and> (res = Parsed v \<longrightarrow> (\<exists>text. parse (extract_json text) = Inr v))"
    using assms
  proof (induction n arbitrary: s)
    case 0
    then have t: "structured_turn env now sh parse schema g u m sy s = (s', res)" by (simp add: turns.loop_stop)
    with turn_requests [OF t] turn_calls [of env now sh parse schema g u m sy s] show ?case by auto
  next
    case (Suc n)
    obtain s1 r1 where t: "structured_turn env now sh parse schema g u m sy s = (s1, r1)" by (metis prod.exhaust)
    have c: "fst (snd s1) = Suc (fst (snd s))" using turn_calls [of env now sh parse schema g u m sy s] t by simp
    show ?case
    proof (cases "bad_answer r1")
      case True
      then have "structured_loop env now sh parse schema g u m sy n (ask_again r1 s1) = (s', res)"
        using Suc.prems t turns.loop_again [of env now sh parse schema g u m sy s n] by simp
      from Suc.IH [OF this] True turn_requests(1) [OF t] c show ?thesis
        by (cases r1) (auto simp: ask_again_calls)
    next
      case False
      then have "(s1, r1) = (s', res)" using Suc.prems t turns.loop_stop [of env now sh parse schema g u m sy s "Suc n"] by simp
      with turn_requests [OF t] c show ?thesis by auto
    qed
  qed
  then show "length (ld_requests (snd (snd (snd s')))) + fst (snd s) + (if answered res then 0 else 1)
      = length (ld_requests (snd (snd (snd s)))) + fst (snd s')"
    and "res = Parsed v \<Longrightarrow> \<exists>text. parse (extract_json text) = Inr v" by blast+
qed

text \<open>
  C35: asking for a structured answer ends: it makes at least one and at most \<open>max_retries + 1\<close> calls,
  gives up on a malformed answer only after all of them, returns nothing but a value the model
  validated, and every call that was answered is accounted for, the refused answers included.
\<close>

theorem structured_calls:
  assumes "chat_structured env now sh parse schema ms g u m sy max_retries ls db = ((conv, k, ls', db'), res)"
  shows "1 \<le> k \<and> k \<le> nat max_retries + 1 \<and> (bad_answer res \<longrightarrow> k = nat max_retries + 1)
    \<and> (res = Parsed v \<longrightarrow> (\<exists>text. parse (extract_json text) = Inr v))
    \<and> length (ld_requests db') = length (ld_requests db) + (if answered res then k else k - 1)"
proof -
  let ?n = "nat max_retries" and ?s = "(ms, 0, ls, db)"
  have l: "structured_loop env now sh parse schema g u m sy ?n ?s = ((conv, k, ls', db'), res)"
    using assms by (simp add: chat_structured_def)
  let ?loop = "structured_loop env now sh parse schema g u m sy ?n ?s"
  have "fst (snd ?s) < fst (snd (fst ?loop))" by (rule turns.loop_attempts_positive)
  moreover have "fst (snd (fst ?loop)) \<le> fst (snd ?s) + ?n + 1" by (rule turns.loop_attempts_bounded)
  moreover have "fst (snd (fst ?loop)) = fst (snd ?s) + ?n + 1" if "bad_answer (snd ?loop)"
    using that by (rule turns.loop_exhausted)
  ultimately show ?thesis using loop_requests(1) [OF l] loop_requests(2) [OF l, of v] by (auto simp: l)
qed

section \<open>Witnesses\<close>

definition one_conversation :: llm_db where
  "one_conversation = snd (create_conversation 0 sample_settings 1 2 None None None no_llm_rows)"

theorem conversation_rebuilt_witness:
  "load_runtime 0 (fold run_llm [Append 1 0 USER ''a'' None 1, Append 1 7 USER ''x'' None 1, Append 2 0 ASSISTANT ''b'' None 1] one_conversation)
     = Inr \<lparr>cn_system = None, cn_messages = [message_of USER ''a'', message_of ASSISTANT ''b'']\<rparr>"
proof -
  have o: "in_order one_conversation"
    by (simp add: in_order_def one_conversation_def create_conversation_def no_llm_rows_def all_rows_def split: prod.split)
  obtain row where r: "repo_get 0 (ld_conversations one_conversation) = Some row" "deleted_at row = None" and y: "cv_system row = None"
    by (simp add: one_conversation_def create_conversation_def no_llm_rows_def repo_add_def Let_def repo_get_def new_id_def)
  have "messages_of 0 one_conversation = []"
    by (simp add: messages_of_def one_conversation_def create_conversation_def no_llm_rows_def all_rows_def split: prod.split)
  with conversation_rebuilt [OF o r, of "[Append 1 0 USER ''a'' None 1, Append 1 7 USER ''x'' None 1, Append 2 0 ASSISTANT ''b'' None 1]"]
  show ?thesis using y by (simp add: appended_def)
qed

definition echo :: "string \<Rightarrow> pydict \<Rightarrow> string + string" where "echo t ctx = Inr t"

definition one_prompt :: llm_db where
  "one_prompt = snd (create_template echo 0 1 ''p'' ''v1'' 2 None None [] [] no_llm_rows)"

theorem prompt_versions_immutable_witness:
  "render_prompt echo 0 [] (Some 1) (fold (run_prompt echo) [AddVersion 1 0 ''v2'' 2 [] []] one_prompt) = Inr ''v1''"
proof -
  have t: "table_ok (ld_templates one_prompt)" by code_simp
  have "map_option pn_template (version_row 0 1 one_prompt) = Some ''v1''" by code_simp
  then obtain v where v: "version_row 0 1 one_prompt = Some v" by auto
  have "map_option pt_name (repo_get 0 (ld_templates one_prompt)) = Some ''p''" by code_simp
  then obtain p where p: "repo_get 0 (ld_templates one_prompt) = Some p" by auto
  have "render_prompt echo 0 [] (Some 1) one_prompt = Inr ''v1''" by code_simp
  with prompt_versions_immutable [OF t p v, of echo "[]" "[AddVersion 1 0 ''v2'' 2 [] []]"] show ?thesis by simp
qed

theorem structured_calls_witness:
  "case chat_structured (\<lambda>_. sample_llm) (\<lambda>_. 0) (\<lambda>_. ''g'') (\<lambda>t. Inl ''no'' :: string + unit) [] [message_of USER ''q''] None None None None 1 fresh_llm no_llm_rows of
     ((conv, k, ls, db), res) \<Rightarrow> 1 \<le> k \<and> k \<le> 2"
proof -
  obtain conv k ls db and res :: "unit structured" where
    r: "chat_structured (\<lambda>_. sample_llm) (\<lambda>_. 0) (\<lambda>_. ''g'') (\<lambda>t. Inl ''no'') [] [message_of USER ''q''] None None None None 1 fresh_llm no_llm_rows
      = ((conv, k, ls, db), res)" by (metis prod.exhaust)
  from structured_calls [OF r, of "()"] show ?thesis by (simp add: r)
qed

end
