(* ===== verification/Spec2Isabelle.thy ===== *)
theory Spec2Isabelle
  imports Agent_Team Task_Queue Payments Jobs Workflow_Service Pipeline Access_Control Notifications Platform Metrics LLM_Service
begin

text \<open>
  A verification library for the backend of AI YouTube Factory, the Python package
  \<^verbatim>\<open>apps/backend/app\<close>; the paths below are relative to it. The theories model the program's own
  logic as executable definitions, one theory per component, and prove what makes each component
  correct. Every definition keeps the name of the code it translates, with a prefix or suffix where
  two pieces of code share one.

  \<^bold>\<open>The program.\<close> The backend turns ideas into published videos. A workflow engine runs graphs of
  nodes whose edges carry conditions; agents decompose goals into tasks and run them under a policy
  with a budget; an LLM layer calls providers behind a cache, a limiter and a circuit breaker; the
  video pipeline takes a video through research, script, narration, rendering, publication and
  analytics, storing artifacts and letting plugins shape what goes out. Around that are users,
  organizations and API keys, billing with invoices and payments, notifications and webhooks,
  background jobs, an event bus, feature flags, rate limiting and metrics. Services keep their state
  in database tables behind a generic repository, announce events on the bus and count on instruments.

  \<^bold>\<open>Foundations.\<close>
  \<^item> Prelude: the error hierarchy of \<^verbatim>\<open>exceptions/base.py\<close>, dictionaries in insertion order,
    the string operations of Python in use, time in microseconds, instrument calls as a trace of events, an error monad,
    and two interfaces, the locales row_store (what was put is got, nothing else moves) and
    retry_loop (a loop that repeats a body while its result asks for it: bounds on its attempts).
  \<^item> Py_Value: the dynamically typed values of contexts, payloads and artifacts, with Python's
    truth, equality, order and rounding. Calendar: the calendar fields of a moment.
  \<^item> Repository: \<^verbatim>\<open>repositories/base.py\<close> and \<^verbatim>\<open>core/api/pagination.py\<close>. A table is a dictionary from
    ids to rows; a soft-deleted row stays in it, is skipped by the lookups and still counts for
    unique constraints. The locale repository states what services rely on.

  \<^bold>\<open>Workflows.\<close>
  \<^item> Workflow_Expr: the evaluator of edge conditions (\<^verbatim>\<open>core/workflow/expressions.py\<close>), over the
    syntax tree Python's own parser returns: what it accepts, which errors it raises.
  \<^item> Workflow_Graph, Workflow_Engine: \<^verbatim>\<open>core/workflow/engine.py\<close>. Levels are a partition in the order of
    the edges and fail exactly on cycles; a successful run makes one outcome for every node.
  \<^item> Workflow_Service: \<^verbatim>\<open>services/workflow.py\<close>, \<^verbatim>\<open>services/workflow_triggers.py\<close>, stored graphs, executions
    and triggers; Scheduler: the cron fields and jobs of \<^verbatim>\<open>agents/scheduler/scheduler.py\<close>.

  \<^bold>\<open>Agents.\<close>
  \<^item> Agent_Lifecycle, Agent_Tasks, Agent_Context: states and goals, the task graph, and the policies,
    memory, knowledge, tools and session of a run (\<^verbatim>\<open>agents/base\<close>, \<^verbatim>\<open>policies\<close>, \<^verbatim>\<open>memory\<close>, \<^verbatim>\<open>knowledge\<close>, \<^verbatim>\<open>tools\<close>).
  \<^item> Agent_Executor, Agent_Run: one task with its retries, then planner, reflector, evaluator and the
    whole run; its loops are bounded by the step limit of the policy.
  \<^item> Agent_Team: registry, manager, monitor, message bus and coordination; the mailboxes refine a
    FIFO queue of what was sent.

  \<^bold>\<open>The LLM layer.\<close>
  \<^item> LLM_Retry: \<^verbatim>\<open>core/llm/retry.py\<close>, breaker and retries. LLM_Core: the other modules of \<^verbatim>\<open>core/llm\<close>: messages,
    catalog and prices, response cache, window memory, recovery of JSON, tools and the manager.
  \<^item> LLM_Service: \<^verbatim>\<open>services/llm\<close>: accounting with its daily rollups, which always equal the sums over
    the recorded requests, conversations, immutable prompt versions, and the chat, structured and streaming calls.

  \<^bold>\<open>Video production.\<close>
  \<^item> Storage: \<^verbatim>\<open>core/storage\<close> and \<^verbatim>\<open>services/storage_service.py\<close>, the local provider over a tree of
    files, confined to its root, and the upload of media; the locale object_store is its contract.
  \<^item> Plugins, Plugin_Builtins: \<^verbatim>\<open>core/plugins\<close>, manifests, grants, dispatch and the three plugins that ship.
  \<^item> Pipeline_Providers, Pipeline: \<^verbatim>\<open>core/pipeline\<close> and \<^verbatim>\<open>services/pipeline.py\<close>; the locale artifact_writer
    extends object_store. A run of a video ends published or waits in the stage that failed.

  \<^bold>\<open>Accounts and access.\<close>
  \<^item> Sessions, Auth: tokens and sessions, then the flows of \<^verbatim>\<open>services/auth.py\<close> with the
    password policy and the login guard, over requests whose tables are rolled back on an error.
  \<^item> Access, Access_Control: organizations, roles, teams, invitations and API keys with the routes that
    guard them; the second theory has the properties over all sequences of requests.

  \<^bold>\<open>Billing.\<close>
  \<^item> Billing: \<^verbatim>\<open>services/billing.py\<close>, plans, subscriptions, usage, invoices, payments; money is in whole cents.
    Payments: \<^verbatim>\<open>services/payment_gateway.py\<close> and \<^verbatim>\<open>core/payments\<close>; the locale settling_provider states
    what the gateway relies on.

  \<^bold>\<open>Platform.\<close>
  \<^item> Event_Bus, Task_Queue, Jobs: \<^verbatim>\<open>core/events/bus.py\<close>, \<^verbatim>\<open>core/tasks\<close> and \<^verbatim>\<open>services/job.py\<close>.
  \<^item> Notifications: \<^verbatim>\<open>services/notification.py\<close>, inboxes, preferences and webhook deliveries with their retries.
  \<^item> Cache: \<^verbatim>\<open>core/cache\<close>. Platform: \<^verbatim>\<open>services/feature_flags.py\<close> and \<^verbatim>\<open>middleware/rate_limit.py\<close>.
    Metrics: \<^verbatim>\<open>observability/metrics.py\<close>, which refines the trace of instrument calls.

  \<^bold>\<open>Interfaces.\<close> Each locale is interpreted on the model's own definitions: row_store by dictionaries, by the
  agent memory and by the cache at one point in time; retry_loop by the executor, the event bus, the
  task queue, the LLM retries and the structured calls; repository by the tables; object_store by the
  local store and its metered wrapper; artifact_writer by narration and rendering; settling_provider
  by the mock payment provider.

  \<^bold>\<open>How the code is represented.\<close> A class is a record, an enumeration a datatype, a handler a function from
  its arguments and the state to a result and the state; an exception is the left side of a sum, so
  every raise and early return is a branch. Python's unbounded integers are int. Decimals and floats
  are exact rationals: rounding is modelled where the code rounds, the error of binary floats is not.
  Database ids are numbers that were not used before. What one transaction does is one function;
  where the code depends on the rollback of a request, the request is modelled with it. Asynchronous
  calls run one after another in the order of the code, and interleavings are sequences of whole operations.

  \<^bold>\<open>Parameters.\<close> What the program only calls is an argument: hash functions, HMAC and signatures,
  random tokens, the clock, the collation of the database, Redis, the template engine, JSON text and
  schema validation, LLM, payment and media providers, mail, and the handlers that users of the bus,
  the queue, the workflow engine and the plugins register. Where a theorem needs a law of one of them,
  such as the injectivity of a hash, it is a hypothesis of its own, and the witness of the theorem
  instantiates it.

  \<^bold>\<open>Bounds.\<close> No definition needs fuel: loops are structural recursions or have a measure, taken from
  the retries, attempts, steps or items that bound the loop in the code; the theorems about them
  state that they return and after how many passes.

  \<^bold>\<open>Not modelled.\<close> The HTTP surface and its schemas, which parse a request and call one operation
  (routes that add a check of their own are modelled), migrations, tracing and logs, cloud storage,
  mail and OAuth clients, the adapters of the LLM providers, configuration, the services that only
  store a row (content, stored agents), the agents' in-process step runtime and the search
  statement. Free-form columns that no operation reads are left out of the rows.
\<close>

end
